(* ===== verification/Rust_Str.thy ===== *)
theory Rust_Str
  imports Prelude
begin

text \<open>
  The parts of Rust's \<open>str\<close> the repository uses, over UTF-8 byte strings. Searching,
  splitting and stripping work on bytes: UTF-8 is self-synchronising, so a byte-level
  match of a valid pattern in a valid string is a match of characters. \<open>trim\<close> and
  \<open>char::is_whitespace\<close> use the UTF-8 encodings of the 25 \<open>White_Space\<close> code points.
\<close>

abbreviation byte :: "char \<Rightarrow> nat" where
  "byte c \<equiv> of_char c"

section \<open>ASCII classes\<close>

definition is_ascii_digit :: "char \<Rightarrow> bool" where
  "is_ascii_digit c \<longleftrightarrow> 48 \<le> byte c \<and> byte c \<le> 57"

definition is_ascii_uppercase :: "char \<Rightarrow> bool" where
  "is_ascii_uppercase c \<longleftrightarrow> 65 \<le> byte c \<and> byte c \<le> 90"

definition is_ascii_lowercase :: "char \<Rightarrow> bool" where
  "is_ascii_lowercase c \<longleftrightarrow> 97 \<le> byte c \<and> byte c \<le> 122"

definition is_ascii_alphabetic :: "char \<Rightarrow> bool" where
  "is_ascii_alphabetic c \<longleftrightarrow> is_ascii_uppercase c \<or> is_ascii_lowercase c"

definition is_ascii_alphanumeric :: "char \<Rightarrow> bool" where
  "is_ascii_alphanumeric c \<longleftrightarrow> is_ascii_alphabetic c \<or> is_ascii_digit c"

definition is_ascii_hexdigit :: "char \<Rightarrow> bool" where
  "is_ascii_hexdigit c \<longleftrightarrow>
     is_ascii_digit c \<or> 65 \<le> byte c \<and> byte c \<le> 70 \<or> 97 \<le> byte c \<and> byte c \<le> 102"

lemmas ascii_defs = is_ascii_digit_def is_ascii_uppercase_def is_ascii_lowercase_def
  is_ascii_alphabetic_def is_ascii_alphanumeric_def is_ascii_hexdigit_def

definition ascii_lower_char :: "char \<Rightarrow> char" where
  "ascii_lower_char c = (if is_ascii_uppercase c then char_of (byte c + 32) else c)"

definition to_ascii_lowercase :: "string \<Rightarrow> string" where
  "to_ascii_lowercase s = map ascii_lower_char s"

definition eq_ignore_ascii_case :: "string \<Rightarrow> string \<Rightarrow> bool" where
  "eq_ignore_ascii_case a b \<longleftrightarrow> to_ascii_lowercase a = to_ascii_lowercase b"

lemma byte_less_256: "byte c < 256"
  by (metis char_of_char mod_less_divisor of_char_of zero_less_numeral)

lemma byte_char_of: "n < 256 \<Longrightarrow> byte (char_of n) = n"
  by (simp add: of_char_of)

lemma byte_ascii_lower_char:
  "byte (ascii_lower_char c) = (if is_ascii_uppercase c then byte c + 32 else byte c)"
  by (simp add: ascii_lower_char_def is_ascii_uppercase_def byte_char_of)

lemma ascii_lower_char_idem [simp]: "ascii_lower_char (ascii_lower_char c) = ascii_lower_char c"
proof -
  have "\<not> is_ascii_uppercase (ascii_lower_char c)"
    using byte_ascii_lower_char [of c] by (auto simp: is_ascii_uppercase_def)
  then show ?thesis by (simp add: ascii_lower_char_def [of "ascii_lower_char c"])
qed

lemma ascii_lower_char_not_upper [simp]: "\<not> is_ascii_uppercase (ascii_lower_char c)"
  using byte_ascii_lower_char [of c] by (auto simp: is_ascii_uppercase_def)

lemma ascii_lower_char_id: "\<not> is_ascii_uppercase c \<Longrightarrow> ascii_lower_char c = c"
  by (simp add: ascii_lower_char_def)

lemma ascii_lower_char_eq_special:
  assumes "\<not> is_ascii_lowercase d"
  shows "ascii_lower_char c = d \<longleftrightarrow> c = d \<and> \<not> is_ascii_uppercase c"
proof
  assume eq: "ascii_lower_char c = d"
  have "\<not> is_ascii_uppercase c"
  proof
    assume u: "is_ascii_uppercase c"
    then have "byte d = byte c + 32" using byte_ascii_lower_char [of c] eq by simp
    with u assms show False by (simp add: is_ascii_uppercase_def is_ascii_lowercase_def)
  qed
  with eq show "c = d \<and> \<not> is_ascii_uppercase c" by (simp add: ascii_lower_char_id)
qed (auto simp: ascii_lower_char_id)

lemma ascii_lower_char_alnum [simp]:
  "is_ascii_alphanumeric (ascii_lower_char c) = is_ascii_alphanumeric c"
  using byte_ascii_lower_char [of c] by (auto simp: ascii_defs split: if_splits)

lemma to_ascii_lowercase_Nil [simp]: "to_ascii_lowercase [] = []"
  by (simp add: to_ascii_lowercase_def)

lemma to_ascii_lowercase_Cons [simp]:
  "to_ascii_lowercase (c # s) = ascii_lower_char c # to_ascii_lowercase s"
  by (simp add: to_ascii_lowercase_def)

lemma to_ascii_lowercase_append [simp]:
  "to_ascii_lowercase (s @ t) = to_ascii_lowercase s @ to_ascii_lowercase t"
  by (simp add: to_ascii_lowercase_def)

lemma to_ascii_lowercase_idem [simp]:
  "to_ascii_lowercase (to_ascii_lowercase s) = to_ascii_lowercase s"
  by (simp add: to_ascii_lowercase_def)

lemma length_to_ascii_lowercase [simp]: "length (to_ascii_lowercase s) = length s"
  by (simp add: to_ascii_lowercase_def)

lemma to_ascii_lowercase_eq_Nil [simp]: "to_ascii_lowercase s = [] \<longleftrightarrow> s = []"
  by (simp add: to_ascii_lowercase_def)

lemma eq_ignore_ascii_case_refl [simp]: "eq_ignore_ascii_case s s"
  by (simp add: eq_ignore_ascii_case_def)

lemma eq_ignore_ascii_case_sym: "eq_ignore_ascii_case s t = eq_ignore_ascii_case t s"
  by (auto simp: eq_ignore_ascii_case_def)

section \<open>Prefixes, suffixes and searching\<close>

fun strip_prefix :: "string \<Rightarrow> string \<Rightarrow> string option" where
  "strip_prefix [] s = Some s"
| "strip_prefix (p # ps) [] = None"
| "strip_prefix (p # ps) (c # s) = (if p = c then strip_prefix ps s else None)"

definition starts_with :: "string \<Rightarrow> string \<Rightarrow> bool" where
  "starts_with p s \<longleftrightarrow> strip_prefix p s \<noteq> None"

definition strip_suffix :: "string \<Rightarrow> string \<Rightarrow> string option" where
  "strip_suffix p s = map_option rev (strip_prefix (rev p) (rev s))"

definition ends_with :: "string \<Rightarrow> string \<Rightarrow> bool" where
  "ends_with p s \<longleftrightarrow> strip_suffix p s \<noteq> None"

fun contains_str :: "string \<Rightarrow> string \<Rightarrow> bool" where
  "contains_str p [] = (p = [])"
| "contains_str p (c # s) = (starts_with p (c # s) \<or> contains_str p s)"

lemma strip_prefix_Some: "strip_prefix p s = Some r \<longleftrightarrow> s = p @ r"
  by (induction p s rule: strip_prefix.induct) auto

lemma strip_prefix_append [simp]: "strip_prefix p (p @ r) = Some r"
  by (simp add: strip_prefix_Some)

lemma starts_with_iff: "starts_with p s \<longleftrightarrow> (\<exists>r. s = p @ r)"
  by (auto simp: starts_with_def strip_prefix_Some)

lemma strip_suffix_Some: "strip_suffix p s = Some r \<longleftrightarrow> s = r @ p"
proof -
  have "strip_prefix (rev p) (rev s) = Some t \<longleftrightarrow> s = rev t @ p" for t
    by (metis rev_append rev_rev_ident strip_prefix_Some)
  note this [of "rev r"]
  then show ?thesis by (auto simp: strip_suffix_def rev_swap intro: exI [of _ "rev r"])
qed

lemma ends_with_iff: "ends_with p s \<longleftrightarrow> (\<exists>r. s = r @ p)"
  by (auto simp: ends_with_def strip_suffix_Some)

lemma contains_str_iff: "contains_str p s \<longleftrightarrow> (\<exists>a b. s = a @ p @ b)"
proof (induction s)
  case (Cons c s)
  show ?case
  proof
    assume "contains_str p (c # s)"
    then consider r where "c # s = [] @ p @ r" | a b where "c # s = (c # a) @ p @ b"
      using Cons.IH by (auto simp: starts_with_iff)
    then show "\<exists>a b. c # s = a @ p @ b" by cases blast+
  next
    assume "\<exists>a b. c # s = a @ p @ b"
    then obtain a b where ab: "c # s = a @ p @ b" by blast
    show "contains_str p (c # s)"
    proof (cases a)
      case Nil
      with ab have "starts_with p (c # s)" by (auto simp: starts_with_iff)
      then show ?thesis by simp
    next
      case (Cons x xs)
      with ab have "s = xs @ p @ b" by simp
      with Cons.IH show ?thesis by auto
    qed
  qed
qed simp

lemma contains_str_single: "contains_str [c] s \<longleftrightarrow> c \<in> set s"
  by (simp add: contains_str_iff in_set_conv_decomp)

section \<open>Splitting\<close>

text \<open>\<open>s.split(c)\<close>: the pieces between separators, at least one.\<close>

fun split_on :: "char \<Rightarrow> string \<Rightarrow> string list" where
  "split_on d [] = [[]]"
| "split_on d (c # s) =
     (if c = d then [] # split_on d s
      else (case split_on d s of [] \<Rightarrow> [[c]] | p # ps \<Rightarrow> (c # p) # ps))"

text \<open>\<open>s.split_once(c)\<close> and \<open>s.rsplit_once(c)\<close>: around the first and the last \<open>c\<close>.\<close>

fun split_once :: "char \<Rightarrow> string \<Rightarrow> (string \<times> string) option" where
  "split_once d [] = None"
| "split_once d (c # s) =
     (if c = d then Some ([], s)
      else (case split_once d s of None \<Rightarrow> None | Some (a, b) \<Rightarrow> Some (c # a, b)))"

definition rsplit_once :: "char \<Rightarrow> string \<Rightarrow> (string \<times> string) option" where
  "rsplit_once d s =
     (case split_once d (rev s) of None \<Rightarrow> None | Some (a, b) \<Rightarrow> Some (rev b, rev a))"

text \<open>The piece before the first \<open>c\<close>: \<open>s.split(c).next().unwrap_or(s)\<close>.\<close>

fun before_char :: "char \<Rightarrow> string \<Rightarrow> string" where
  "before_char d [] = []"
| "before_char d (c # s) = (if c = d then [] else c # before_char d s)"

lemma split_on_not_Nil [simp]: "split_on d s \<noteq> []"
  by (cases s) (auto split: list.splits)

lemma split_on_no_sep: "p \<in> set (split_on d s) \<Longrightarrow> d \<notin> set p"
proof (induction s arbitrary: p)
  case (Cons c s)
  then show ?case by (auto split: if_splits list.splits)
qed simp

lemma before_char_hd_split: "before_char d s = hd (split_on d s)"
  by (induction s) (auto split: list.splits)

lemma split_once_None: "split_once d s = None \<longleftrightarrow> d \<notin> set s"
  by (induction s) (auto split: option.splits)

lemma split_once_SomeD: "split_once d s = Some (a, b) \<Longrightarrow> s = a @ d # b \<and> d \<notin> set a"
  by (induction s arbitrary: a) (auto split: if_splits option.splits)

lemma split_once_append: "d \<notin> set a \<Longrightarrow> split_once d (a @ d # b) = Some (a, b)"
  by (induction a) auto

lemma split_once_Some: "split_once d s = Some (a, b) \<longleftrightarrow> s = a @ d # b \<and> d \<notin> set a"
  using split_once_SomeD split_once_append by blast

lemma rsplit_once_Some: "rsplit_once d s = Some (a, b) \<longleftrightarrow> s = a @ d # b \<and> d \<notin> set b"
proof -
  have "rsplit_once d s = Some (a, b) \<longleftrightarrow> split_once d (rev s) = Some (rev b, rev a)"
    by (auto simp: rsplit_once_def split: option.splits)
  also have "\<dots> \<longleftrightarrow> rev s = rev b @ d # rev a \<and> d \<notin> set b"
    by (simp add: split_once_Some)
  also have "rev s = rev b @ d # rev a \<longleftrightarrow> s = a @ d # b"
    by (metis append.assoc append_Cons append_Nil rev.simps(2) rev_append rev_rev_ident)
  finally show ?thesis .
qed

lemma rsplit_once_None: "rsplit_once d s = None \<longleftrightarrow> d \<notin> set s"
  using split_once_None [of d "rev s"] by (auto simp: rsplit_once_def split: option.splits)

fun join_str :: "string \<Rightarrow> string list \<Rightarrow> string" where
  "join_str sep [] = []"
| "join_str sep [x] = x"
| "join_str sep (x # y # ys) = x @ sep @ join_str sep (y # ys)"

lemma join_str_Cons: "ps \<noteq> [] \<Longrightarrow> join_str sep (x # ps) = x @ sep @ join_str sep ps"
  by (cases ps) auto

lemma join_str_push: "join_str sep ((c # p) # ps) = c # join_str sep (p # ps)"
  by (cases ps) auto

lemma join_split_on: "join_str [d] (split_on d s) = s"
proof (induction s)
  case (Cons c s)
  obtain p ps where "split_on d s = p # ps" by (cases "split_on d s") auto
  with Cons show ?case by (auto simp: join_str_Cons join_str_push)
qed simp

lemma split_on_append: "split_on d (a @ d # b) = split_on d a @ split_on d b"
  by (induction a) (auto split: list.splits)

lemma split_on_none: "d \<notin> set s \<Longrightarrow> split_on d s = [s]"
  by (induction s) auto

lemma split_on_join:
  "ls \<noteq> [] \<Longrightarrow> (\<And>l. l \<in> set ls \<Longrightarrow> d \<notin> set l) \<Longrightarrow> split_on d (join_str [d] ls) = ls"
proof (induction ls)
  case (Cons l ls)
  show ?case
  proof (cases ls)
    case Nil
    with Cons.prems show ?thesis by (simp add: split_on_none)
  next
    case (Cons m ms)
    then have "join_str [d] (l # ls) = l @ d # join_str [d] ls" by simp
    with Cons.IH Cons.prems Cons show ?thesis by (simp add: split_on_append split_on_none)
  qed
qed simp

lemma length_split_on: "length (split_on d s) \<ge> 2 \<longleftrightarrow> d \<in> set s"
proof
  assume "d \<in> set s"
  then obtain a b where "s = a @ d # b" by (auto simp: in_set_conv_decomp)
  then show "length (split_on d s) \<ge> 2"
    by (cases "split_on d a"; cases "split_on d b") (auto simp: split_on_append)
next
  assume "length (split_on d s) \<ge> 2"
  then show "d \<in> set s" using split_on_none [of d s] by fastforce
qed

lemma set_join_str:
  "c \<in> set (join_str sep ls) \<Longrightarrow> c \<in> set sep \<or> (\<exists>l\<in>set ls. c \<in> set l)"
  by (induction ls rule: join_str.induct) auto

text \<open>Empty pieces are what a leading, a trailing and a doubled separator produce.\<close>

lemma split_on_no_empty:
  assumes "[] \<notin> set (split_on d s)"
  shows "s \<noteq> []" "\<not> starts_with [d] s" "\<not> ends_with [d] s" "\<not> contains_str [d, d] s"
proof -
  show "s \<noteq> []" using assms by auto
  show "\<not> starts_with [d] s" using assms by (auto simp: starts_with_iff)
  show "\<not> ends_with [d] s" using assms by (auto simp: ends_with_iff split_on_append)
  show "\<not> contains_str [d, d] s"
  proof
    assume "contains_str [d, d] s"
    then obtain a b where "s = a @ d # d # b" by (auto simp: contains_str_iff)
    with assms show False by (simp add: split_on_append)
  qed
qed

section \<open>Replacement\<close>

text \<open>
  \<open>s.replace(p, t)\<close>: every occurrence of \<open>p\<close>, scanning left to right without overlap.
  No caller passes an empty pattern; it is left unchanged here.
\<close>

function replace_str :: "string \<Rightarrow> string \<Rightarrow> string \<Rightarrow> string" where
  "replace_str p t s =
     (if p = [] then s
      else case s of [] \<Rightarrow> []
      | c # cs \<Rightarrow> (case strip_prefix p s of
            Some rest \<Rightarrow> t @ replace_str p t rest
          | None \<Rightarrow> c # replace_str p t cs))"
  by pat_completeness auto
termination
  by (relation "measure (\<lambda>(p, t, s). length s)") (auto simp: strip_prefix_Some)

declare replace_str.simps [simp del]

lemma replace_str_Nil [simp]: "replace_str p t [] = []"
  by (simp add: replace_str.simps)

lemma replace_str_hit:
  assumes "p \<noteq> []"
  shows "replace_str p t (p @ rest) = t @ replace_str p t rest"
proof -
  from assms obtain c cs where cs: "p @ rest = c # cs" by (cases "p @ rest") auto
  then have "strip_prefix p (c # cs) = Some rest" by (metis strip_prefix_append)
  with assms show ?thesis by (simp add: cs replace_str.simps [of p t "c # cs"])
qed

lemma replace_str_miss:
  "p \<noteq> [] \<Longrightarrow> strip_prefix p (c # cs) = None \<Longrightarrow> replace_str p t (c # cs) = c # replace_str p t cs"
  by (simp add: replace_str.simps [of p t "c # cs"])

lemma replace_str_absent:
  assumes "\<not> contains_str p s"
  shows "replace_str p t s = s"
proof (cases "p = []")
  case True
  then show ?thesis by (simp add: replace_str.simps)
next
  case False
  from assms show ?thesis
  proof (induction s)
    case (Cons c s)
    then have "strip_prefix p (c # s) = None" by (auto simp: starts_with_def)
    with False Cons show ?case by (simp add: replace_str_miss)
  qed simp
qed

lemma replace_str_empty [simp]: "replace_str [] t s = s"
  by (simp add: replace_str.simps)

text \<open>The scan of \<open>replace_str\<close> as an induction rule: step over a byte, or over a whole match.\<close>

lemma scan_induct [case_names pattern nil miss hit]:
  assumes "p \<noteq> []" and "P []"
    and "\<And>c cs. strip_prefix p (c # cs) = None \<Longrightarrow> P cs \<Longrightarrow> P (c # cs)"
    and "\<And>rest. P rest \<Longrightarrow> P (p @ rest)"
  shows "P s"
proof (induction s rule: length_induct)
  case (1 s)
  show ?case
  proof (cases s)
    case Nil
    with assms(2) show ?thesis by simp
  next
    case (Cons c cs)
    show ?thesis
    proof (cases "strip_prefix p s")
      case None
      then show ?thesis using 1 Cons assms(3) by simp
    next
      case (Some rest)
      then have s: "s = p @ rest" by (simp add: strip_prefix_Some)
      with assms(1) have "length rest < length s" by simp
      with 1 s assms(4) show ?thesis by simp
    qed
  qed
qed

lemma replace_char_map:
  "replace_str [d] t s = concat (map (\<lambda>c. if c = d then t else [c]) s)"
proof (induction s)
  case (Cons c s)
  show ?case
  proof (cases "c = d")
    case True
    then show ?thesis using Cons replace_str_hit [of "[d]" t s] by simp
  next
    case False
    then show ?thesis using Cons by (simp add: replace_str_miss)
  qed
qed simp

end
