(* ===== verification/Rust_Text.thy ===== *)
theory Rust_Text
  imports Rust_Str "HOL-Library.Word"
begin

text \<open>
  Rust's \<open>trim\<close>, \<open>char::is_whitespace\<close>, \<open>char::is_control\<close>, integer parsing and
  printing, the syntax \<open>f64::from_str\<close> accepts, and \<open>Path\<close> joining on Unix. Machine
  integers are words; \<open>unat\<close> reads them.
\<close>

type_synonym u8 = "8 word"
type_synonym u16 = "16 word"
type_synonym u32 = "32 word"
type_synonym u64 = "64 word"

section \<open>Whitespace\<close>

text \<open>The UTF-8 encodings of the code points with the \<open>White_Space\<close> property.\<close>

definition ws_seqs :: "string list" where
  "ws_seqs =
     [[CHR 0x20], [CHR 0x09], [CHR 0x0A], [CHR 0x0B], [CHR 0x0C], [CHR 0x0D],
      [CHR 0xC2, CHR 0x85], [CHR 0xC2, CHR 0xA0], [CHR 0xE1, CHR 0x9A, CHR 0x80],
      [CHR 0xE2, CHR 0x80, CHR 0x80], [CHR 0xE2, CHR 0x80, CHR 0x81],
      [CHR 0xE2, CHR 0x80, CHR 0x82], [CHR 0xE2, CHR 0x80, CHR 0x83],
      [CHR 0xE2, CHR 0x80, CHR 0x84], [CHR 0xE2, CHR 0x80, CHR 0x85],
      [CHR 0xE2, CHR 0x80, CHR 0x86], [CHR 0xE2, CHR 0x80, CHR 0x87],
      [CHR 0xE2, CHR 0x80, CHR 0x88], [CHR 0xE2, CHR 0x80, CHR 0x89],
      [CHR 0xE2, CHR 0x80, CHR 0x8A], [CHR 0xE2, CHR 0x80, CHR 0xA8],
      [CHR 0xE2, CHR 0x80, CHR 0xA9], [CHR 0xE2, CHR 0x80, CHR 0xAF],
      [CHR 0xE2, CHR 0x81, CHR 0x9F], [CHR 0xE3, CHR 0x80, CHR 0x80]]"

definition has_whitespace :: "string \<Rightarrow> bool" where
  "has_whitespace s \<longleftrightarrow> list_ex (\<lambda>w. contains_str w s) ws_seqs"

fun strip_any :: "string list \<Rightarrow> string \<Rightarrow> string option" where
  "strip_any [] s = None"
| "strip_any (w # ws) s = (case strip_prefix w s of Some r \<Rightarrow> Some r | None \<Rightarrow> strip_any ws s)"

text \<open>The guard on the length holds for every nonempty pattern; it makes the loop total.\<close>

function trim_front :: "string list \<Rightarrow> string \<Rightarrow> string" where
  "trim_front ws s =
     (case strip_any ws s of
        None \<Rightarrow> s
      | Some r \<Rightarrow> if length r < length s then trim_front ws r else s)"
  by pat_completeness auto
termination
  by (relation "measure (\<lambda>(ws, s). length s)") auto

declare trim_front.simps [simp del]

definition trim_start :: "string \<Rightarrow> string" where
  "trim_start s = trim_front ws_seqs s"

definition trim_end :: "string \<Rightarrow> string" where
  "trim_end s = rev (trim_front (map rev ws_seqs) (rev s))"

definition trim :: "string \<Rightarrow> string" where
  "trim s = trim_end (trim_start s)"

lemma strip_any_Some: "strip_any ws s = Some r \<Longrightarrow> \<exists>w\<in>set ws. s = w @ r"
  by (induction ws) (auto split: option.splits simp: strip_prefix_Some)

lemma strip_any_None: "strip_any ws s = None \<longleftrightarrow> (\<forall>w\<in>set ws. \<not> starts_with w s)"
  by (induction ws) (auto split: option.splits simp: starts_with_def)

lemma ws_seqs_nonempty: "w \<in> set ws_seqs \<Longrightarrow> w \<noteq> []"
  by (auto simp: ws_seqs_def)

lemma trim_front_suffix: "\<exists>a. s = a @ trim_front ws s"
proof (induction ws s rule: trim_front.induct)
  case (1 ws s)
  show ?case
  proof (cases "strip_any ws s")
    case None
    then show ?thesis by (simp add: trim_front.simps [of ws s])
  next
    case (Some r)
    then obtain w where w: "s = w @ r" using strip_any_Some by blast
    show ?thesis
    proof (cases "length r < length s")
      case True
      with "1.IH" [OF Some] obtain a where "r = a @ trim_front ws r" by blast
      with w have "s = (w @ a) @ trim_front ws r" by simp
      moreover have "trim_front ws s = trim_front ws r"
        using Some True by (simp add: trim_front.simps [of ws s])
      ultimately show ?thesis by metis
    next
      case False
      then show ?thesis using Some by (simp add: trim_front.simps [of ws s])
    qed
  qed
qed

lemma trim_front_done:
  assumes "\<And>w. w \<in> set ws \<Longrightarrow> w \<noteq> []" and "w \<in> set ws"
  shows "\<not> starts_with w (trim_front ws s)"
  using assms
proof (induction ws s rule: trim_front.induct)
  case (1 ws s)
  show ?case
  proof (cases "strip_any ws s")
    case None
    then have "trim_front ws s = s" by (simp add: trim_front.simps)
    with None "1.prems"(2) show ?thesis by (simp add: strip_any_None)
  next
    case (Some r)
    then obtain v where v: "v \<in> set ws" "s = v @ r" using strip_any_Some by blast
    with "1.prems"(1) have "length r < length s" by auto
    with "1.IH" [OF Some] "1.prems" Some show ?thesis by (simp add: trim_front.simps [of ws s])
  qed
qed

lemma trim_front_id: "strip_any ws s = None \<Longrightarrow> trim_front ws s = s"
  by (simp add: trim_front.simps)

lemma trim_start_suffix: "\<exists>a. s = a @ trim_start s"
  by (simp add: trim_start_def trim_front_suffix)

lemma trim_end_prefix: "\<exists>b. s = trim_end s @ b"
proof -
  obtain a where "rev s = a @ trim_front (map rev ws_seqs) (rev s)"
    using trim_front_suffix by blast
  then have "s = trim_end s @ rev a" unfolding trim_end_def by (metis rev_append rev_rev_ident)
  then show ?thesis by blast
qed

lemma trim_infix: "\<exists>a b. s = a @ trim s @ b"
proof -
  obtain a where "s = a @ trim_start s" using trim_start_suffix by blast
  moreover obtain b where "trim_start s = trim s @ b"
    using trim_end_prefix [of "trim_start s"] by (auto simp: trim_def)
  ultimately show ?thesis by metis
qed

lemma trim_start_done: "w \<in> set ws_seqs \<Longrightarrow> \<not> starts_with w (trim_start s)"
  unfolding trim_start_def by (rule trim_front_done) (auto simp: ws_seqs_nonempty)

lemma trim_end_done:
  assumes "w \<in> set ws_seqs"
  shows "\<not> ends_with w (trim_end s)"
proof
  assume "ends_with w (trim_end s)"
  then obtain r where "trim_end s = r @ w" by (auto simp: ends_with_iff)
  then have "trim_front (map rev ws_seqs) (rev s) = rev w @ rev r"
    unfolding trim_end_def by (metis rev_append rev_rev_ident)
  then have "starts_with (rev w) (trim_front (map rev ws_seqs) (rev s))"
    by (auto simp: starts_with_iff)
  moreover have "\<not> starts_with (rev w) (trim_front (map rev ws_seqs) (rev s))"
    by (rule trim_front_done) (use assms in \<open>auto dest: ws_seqs_nonempty\<close>)
  ultimately show False by blast
qed

lemma trim_start_id: "(\<And>w. w \<in> set ws_seqs \<Longrightarrow> \<not> starts_with w s) \<Longrightarrow> trim_start s = s"
  by (simp add: trim_start_def trim_front_id strip_any_None)

lemma trim_end_id:
  assumes "\<And>w. w \<in> set ws_seqs \<Longrightarrow> \<not> ends_with w s"
  shows "trim_end s = s"
proof -
  have "strip_any (map rev ws_seqs) (rev s) = None"
    using assms by (auto simp: strip_any_None starts_with_def ends_with_def strip_suffix_def)
  then show ?thesis by (simp add: trim_end_def trim_front_id)
qed

lemma trim_idem: "trim (trim s) = trim s"
proof -
  have "\<not> starts_with w (trim s)" if w: "w \<in> set ws_seqs" for w
  proof
    assume "starts_with w (trim s)"
    moreover obtain b where "trim_start s = trim s @ b"
      using trim_end_prefix [of "trim_start s"] by (auto simp: trim_def)
    ultimately have "starts_with w (trim_start s)" by (auto simp: starts_with_iff)
    with trim_start_done [OF w] show False by blast
  qed
  then have "trim_start (trim s) = trim s" by (rule trim_start_id)
  moreover have "trim_end (trim s) = trim s"
    unfolding trim_def by (rule trim_end_id) (rule trim_end_done)
  ultimately show ?thesis by (simp add: trim_def)
qed

lemma has_whitespace_iff: "has_whitespace s \<longleftrightarrow> (\<exists>w\<in>set ws_seqs. \<exists>a b. s = a @ w @ b)"
  by (auto simp: has_whitespace_def list_ex_iff contains_str_iff)

lemma trim_no_whitespace: "\<not> has_whitespace s \<Longrightarrow> trim s = s"
proof -
  assume ns: "\<not> has_whitespace s"
  have "trim_start s = s"
    by (rule trim_start_id) (use ns in \<open>auto simp: has_whitespace_iff starts_with_iff intro: exI [of _ "[]"]\<close>,
      metis append_Nil)
  moreover have "trim_end s = s"
    by (rule trim_end_id) (use ns in \<open>auto simp: has_whitespace_iff ends_with_iff\<close>, metis append_Nil2)
  ultimately show ?thesis by (simp add: trim_def)
qed

lemma has_whitespace_infix: "has_whitespace t \<Longrightarrow> has_whitespace (a @ t @ b)"
  by (auto simp: has_whitespace_iff) (metis append.assoc)

text \<open>A string of one-byte characters that are no ASCII whitespace has no whitespace.\<close>

lemma has_whitespace_ascii:
  assumes "\<And>c. c \<in> set s \<Longrightarrow> 32 < byte c \<and> byte c < 128"
  shows "\<not> has_whitespace s"
proof
  assume "has_whitespace s"
  then obtain w a b where w: "w \<in> set ws_seqs" and "s = a @ w @ b"
    by (auto simp: has_whitespace_iff)
  then have sub: "set w \<subseteq> set s" by auto
  from w have "\<exists>c\<in>set w. \<not> (32 < byte c \<and> byte c < 128)"
    unfolding ws_seqs_def by auto
  with sub assms show False by blast
qed

section \<open>Control characters\<close>

text \<open>\<open>char::is_control\<close>: U+0000--U+001F, U+007F and U+0080--U+009F (two bytes).\<close>

fun has_control :: "string \<Rightarrow> bool" where
  "has_control [] = False"
| "has_control (c # s) =
     (byte c < 32 \<or> byte c = 127 \<or>
      (byte c = 194 \<and> (case s of [] \<Rightarrow> False | d # _ \<Rightarrow> 128 \<le> byte d \<and> byte d \<le> 159)) \<or>
      has_control s)"

section \<open>Integers\<close>

definition digit_char :: "nat \<Rightarrow> char" where
  "digit_char d = char_of (48 + d)"

text \<open>\<open>Display\<close> of an unsigned integer.\<close>

fun show_nat :: "nat \<Rightarrow> string" where
  "show_nat n = (if n < 10 then [digit_char n] else show_nat (n div 10) @ [digit_char (n mod 10)])"

declare show_nat.simps [simp del]

text \<open>\<open>char::to_digit(radix)\<close> for \<open>radix \<le> 16\<close>.\<close>

definition to_digit :: "nat \<Rightarrow> char \<Rightarrow> nat option" where
  "to_digit radix c =
     (let d = (if is_ascii_digit c then byte c - 48
               else if 97 \<le> byte c \<and> byte c \<le> 102 then byte c - 87
               else if 65 \<le> byte c \<and> byte c \<le> 70 then byte c - 55 else 99)
      in if d < radix then Some d else None)"

fun digits_value :: "nat \<Rightarrow> nat \<Rightarrow> string \<Rightarrow> nat option" where
  "digits_value radix acc [] = Some acc"
| "digits_value radix acc (c # s) =
     (case to_digit radix c of None \<Rightarrow> None | Some d \<Rightarrow> digits_value radix (acc * radix + d) s)"

text \<open>
  \<open>uN::from_str_radix\<close> (and \<open>str::parse::<uN>\<close> with radix 10): an optional \<open>+\<close>, at least
  one digit, and a value that fits.
\<close>

definition parse_uint :: "nat \<Rightarrow> nat \<Rightarrow> string \<Rightarrow> nat option" where
  "parse_uint radix maxv s =
     (let d = (case s of c # r \<Rightarrow> (if c = CHR ''+'' then r else s) | [] \<Rightarrow> s)
      in if d = [] then None
         else (case digits_value radix 0 d of
             Some n \<Rightarrow> (if n \<le> maxv then Some n else None)
           | None \<Rightarrow> None))"

definition parse_u16 :: "string \<Rightarrow> u16 option" where
  "parse_u16 s = map_option of_nat (parse_uint 10 65535 s)"

definition parse_u64_radix :: "nat \<Rightarrow> string \<Rightarrow> u64 option" where
  "parse_u64_radix radix s = map_option of_nat (parse_uint radix 18446744073709551615 s)"

lemma byte_digit_char: "d < 10 \<Longrightarrow> byte (digit_char d) = 48 + d"
  by (simp add: digit_char_def byte_char_of)

lemma to_digit_digit_char: "d < 10 \<Longrightarrow> to_digit 10 (digit_char d) = Some d"
  by (simp add: to_digit_def is_ascii_digit_def byte_digit_char)

lemma digits_value_append:
  "digits_value r acc (s @ t) =
     (case digits_value r acc s of None \<Rightarrow> None | Some a \<Rightarrow> digits_value r a t)"
  by (induction s arbitrary: acc) (auto split: option.splits)

lemma digits_value_show_nat: "digits_value 10 0 (show_nat n) = Some n"
proof (induction n rule: show_nat.induct)
  case (1 n)
  show ?case
  proof (cases "n < 10")
    case True
    then show ?thesis by (simp add: show_nat.simps [of n] to_digit_digit_char)
  next
    case False
    then show ?thesis
      using 1 by (simp add: show_nat.simps [of n] digits_value_append to_digit_digit_char)
  qed
qed

lemma show_nat_digits: "c \<in> set (show_nat n) \<Longrightarrow> is_ascii_digit c"
proof (induction n rule: show_nat.induct)
  case (1 n)
  then show ?case
    by (subst (asm) (2) show_nat.simps)
       (auto simp: is_ascii_digit_def byte_digit_char split: if_splits)
qed

lemma show_nat_not_Nil [simp]: "show_nat n \<noteq> []"
  by (subst show_nat.simps) simp

lemma parse_uint_show_nat:
  assumes "n \<le> maxv"
  shows "parse_uint 10 maxv (show_nat n) = Some n"
proof -
  obtain c s where cs: "show_nat n = c # s" by (cases "show_nat n") auto
  then have "is_ascii_digit c" using show_nat_digits [of c n] by simp
  then have "c \<noteq> CHR ''+''" by (auto simp: is_ascii_digit_def)
  with assms cs digits_value_show_nat [of n] show ?thesis by (simp add: parse_uint_def)
qed

lemma parse_uint_bound: "parse_uint r m s = Some n \<Longrightarrow> n \<le> m"
  by (auto simp: parse_uint_def Let_def split: option.splits if_splits)

section \<open>The syntax of \<open>f64::from_str\<close>\<close>

fun span_digits :: "string \<Rightarrow> string \<times> string" where
  "span_digits [] = ([], [])"
| "span_digits (c # s) =
     (if is_ascii_digit c then (case span_digits s of (a, b) \<Rightarrow> (c # a, b)) else ([], c # s))"

definition opt_sign :: "string \<Rightarrow> string" where
  "opt_sign s = (case s of c # r \<Rightarrow> (if c = CHR ''+'' \<or> c = CHR ''-'' then r else s) | [] \<Rightarrow> s)"

definition float_exponent :: "string \<Rightarrow> bool" where
  "float_exponent s =
     (case s of [] \<Rightarrow> True
      | c # r \<Rightarrow> (c = CHR ''e'' \<or> c = CHR ''E'') \<and>
          (case span_digits (opt_sign r) of (d, rest) \<Rightarrow> d \<noteq> [] \<and> rest = []))"

definition float_number :: "string \<Rightarrow> bool" where
  "float_number s =
     (case span_digits s of (whole, rest) \<Rightarrow>
        (case rest of
           c # r \<Rightarrow> (if c = CHR ''.''
               then (case span_digits r of (frac, rest') \<Rightarrow>
                       (whole \<noteq> [] \<or> frac \<noteq> []) \<and> float_exponent rest')
               else whole \<noteq> [] \<and> float_exponent rest)
         | [] \<Rightarrow> whole \<noteq> []))"

definition parses_f64 :: "string \<Rightarrow> bool" where
  "parses_f64 s =
     (let u = opt_sign s; l = to_ascii_lowercase u
      in float_number u \<or> l = ''inf'' \<or> l = ''infinity'' \<or> l = ''nan'')"

section \<open>Paths\<close>

text \<open>Unix paths are strings. \<open>join\<close> is \<open>PathBuf::push\<close>: an absolute argument replaces.\<close>

type_synonym path = string

definition is_absolute :: "path \<Rightarrow> bool" where
  "is_absolute p \<longleftrightarrow> starts_with ''/'' p"

definition path_join :: "path \<Rightarrow> path \<Rightarrow> path" where
  "path_join base p =
     (if is_absolute p then p
      else if base \<noteq> [] \<and> last base \<noteq> CHR ''/'' then base @ ''/'' @ p
      else base @ p)"

lemma path_join_absolute: "is_absolute base \<Longrightarrow> is_absolute (path_join base p)"
  by (auto simp: path_join_def is_absolute_def starts_with_iff)

end
