(* ===== verification/BTree.thy ===== *)
theory BTree
  imports Rust_Text
begin

text \<open>
  Rust's ordered map \<open>BTreeMap\<close>, as an association list in ascending key order: the
  order is the order of iteration, which several components rely on. The interface
  \<open>kv_map\<close> states what the clients of a map need; its lemmas are proved once and reused
  by every store of the development.
\<close>

section \<open>The interface of a map\<close>

locale kv_map =
  fixes get :: "'m \<Rightarrow> 'k \<Rightarrow> 'v option"
    and put :: "'k \<Rightarrow> 'v \<Rightarrow> 'm \<Rightarrow> 'm"
    and del :: "'k \<Rightarrow> 'm \<Rightarrow> 'm"
    and ok :: "'m \<Rightarrow> bool"
  assumes get_put: "ok m \<Longrightarrow> get (put k v m) k' = (if k' = k then Some v else get m k')"
    and get_del: "ok m \<Longrightarrow> get (del k m) k' = (if k' = k then None else get m k')"
    and ok_put: "ok m \<Longrightarrow> ok (put k v m)"
    and ok_del: "ok m \<Longrightarrow> ok (del k m)"
begin

lemma get_put_same: "ok m \<Longrightarrow> get (put k v m) k = Some v"
  by (simp add: get_put)

lemma get_put_other: "ok m \<Longrightarrow> k' \<noteq> k \<Longrightarrow> get (put k v m) k' = get m k'"
  by (simp add: get_put)

lemma get_del_same: "ok m \<Longrightarrow> get (del k m) k = None"
  by (simp add: get_del)

lemma put_overwrites: "ok m \<Longrightarrow> get (put k w (put k v m)) = get (put k w m)"
  by (auto simp: get_put ok_put fun_eq_iff)

lemma put_commutes: "ok m \<Longrightarrow> k \<noteq> l \<Longrightarrow> get (put k v (put l w m)) = get (put l w (put k v m))"
  by (auto simp: get_put ok_put fun_eq_iff)

lemma del_put: "ok m \<Longrightarrow> get (del k (put k v m)) = get (del k m)"
  by (auto simp: get_put get_del ok_put fun_eq_iff)

lemma ok_foldl_put: "ok m \<Longrightarrow> ok (foldl (\<lambda>m (k, v). put k v m) m kvs)"
  by (induction kvs arbitrary: m) (auto simp: ok_put)

text \<open>Inserting a list of bindings one by one: the last binding of a key wins.\<close>

lemma get_foldl_put:
  "ok m \<Longrightarrow> get (foldl (\<lambda>m (k, v). put k v m) m kvs) k =
     (case map_of (rev kvs) k of Some v \<Rightarrow> Some v | None \<Rightarrow> get m k)"
  by (induction kvs arbitrary: m)
     (auto simp: ok_put get_put map_add_def split: option.splits)

end

section \<open>Ordered association lists\<close>

type_synonym ('k, 'v) btree = "('k \<times> 'v) list"

fun bt_insert :: "'k::linorder \<Rightarrow> 'v \<Rightarrow> ('k, 'v) btree \<Rightarrow> ('k, 'v) btree" where
  "bt_insert k v [] = [(k, v)]"
| "bt_insert k v (b # m) =
     (if fst b = k then (k, v) # m
      else if fst b < k then b # bt_insert k v m
      else (k, v) # b # m)"

definition bt_remove :: "'k \<Rightarrow> ('k, 'v) btree \<Rightarrow> ('k, 'v) btree" where
  "bt_remove k m = filter (\<lambda>b. fst b \<noteq> k) m"

definition bt_get :: "('k, 'v) btree \<Rightarrow> 'k \<Rightarrow> 'v option" where
  "bt_get m k = map_of m k"

definition bt_contains :: "('k, 'v) btree \<Rightarrow> 'k \<Rightarrow> bool" where
  "bt_contains m k \<longleftrightarrow> bt_get m k \<noteq> None"

definition bt_retain :: "('k \<Rightarrow> 'v \<Rightarrow> bool) \<Rightarrow> ('k, 'v) btree \<Rightarrow> ('k, 'v) btree" where
  "bt_retain P m = filter (\<lambda>b. P (fst b) (snd b)) m"

definition bt_extend :: "('k::linorder, 'v) btree \<Rightarrow> ('k \<times> 'v) list \<Rightarrow> ('k, 'v) btree" where
  "bt_extend m kvs = foldl (\<lambda>m (k, v). bt_insert k v m) m kvs"

definition bt_collect :: "('k::linorder \<times> 'v) list \<Rightarrow> ('k, 'v) btree" where
  "bt_collect kvs = bt_extend [] kvs"

text \<open>\<open>BTreeSet\<close>: the sorted distinct elements of a list.\<close>

definition bset :: "'a::linorder list \<Rightarrow> 'a list" where
  "bset xs = map fst (bt_collect (map (\<lambda>x. (x, ())) xs))"

definition bt_ok :: "('k::linorder, 'v) btree \<Rightarrow> bool" where
  "bt_ok m \<longleftrightarrow> sorted_wrt (<) (map fst m)"

lemma bt_ok_Nil [simp]: "bt_ok []"
  by (simp add: bt_ok_def)

lemma bt_ok_Cons [simp]: "bt_ok (b # m) \<longleftrightarrow> (\<forall>c\<in>set m. fst b < fst c) \<and> bt_ok m"
  by (auto simp: bt_ok_def)

lemma keys_bt_insert: "fst ` set (bt_insert k v m) = insert k (fst ` set m)"
  by (induction m) auto

lemma set_bt_insert_subset: "set (bt_insert k v m) \<subseteq> insert (k, v) (set m)"
  by (induction m) auto

lemma bt_ok_insert: "bt_ok m \<Longrightarrow> bt_ok (bt_insert k v m)"
proof (induction m)
  case (Cons b m)
  then show ?case using set_bt_insert_subset [of k v m] by (fastforce simp: not_less_iff_gr_or_eq)
qed simp

lemma bt_ok_filter: "bt_ok m \<Longrightarrow> bt_ok (filter P m)"
  by (induction m) auto

lemma map_of_filter_key: "map_of (filter (\<lambda>b. fst b \<noteq> k) m) k' = (if k' = k then None else map_of m k')"
  by (induction m) auto

lemma bt_get_insert: "bt_ok m \<Longrightarrow> bt_get (bt_insert k v m) k' = (if k' = k then Some v else bt_get m k')"
proof (induction m)
  case (Cons b m)
  then show ?case by (cases b) (auto simp: bt_get_def)
qed (auto simp: bt_get_def)

interpretation bt: kv_map bt_get bt_insert bt_remove bt_ok
  by unfold_locales
     (auto simp: bt_get_insert bt_ok_insert bt_remove_def bt_ok_filter, auto simp: bt_get_def map_of_filter_key)

lemmas bt_laws [simp, store_laws] = bt.get_put bt.get_del

declare bt_ok_insert [simp, inv_intros] bt.ok_del [simp, inv_intros]

lemma bt_get_Nil [simp]: "bt_get [] k = None"
  by (simp add: bt_get_def)

lemma bt_ok_distinct: "bt_ok m \<Longrightarrow> distinct (map fst m)"
  by (induction m) force+

lemma bt_get_iff: "bt_ok m \<Longrightarrow> bt_get m k = Some v \<longleftrightarrow> (k, v) \<in> set m"
  using bt_ok_distinct [of m] by (auto simp: bt_get_def)

lemma bt_contains_iff: "bt_contains m k \<longleftrightarrow> k \<in> fst ` set m"
  by (force simp: bt_contains_def bt_get_def map_of_eq_None_iff)

lemma bt_ok_retain [simp, inv_intros]: "bt_ok m \<Longrightarrow> bt_ok (bt_retain P m)"
  by (simp add: bt_retain_def bt_ok_filter)

lemma bt_get_retain [store_laws]:
  assumes "bt_ok m"
  shows "bt_get (bt_retain P m) k =
     (case bt_get m k of Some v \<Rightarrow> (if P k v then Some v else None) | None \<Rightarrow> None)"
  using assms
proof (induction m)
  case (Cons b m)
  obtain k' v' where b: "b = (k', v')" by (cases b)
  have none: "bt_get m k' = None" if "k = k'"
    using Cons.prems b by (fastforce simp: bt_get_def map_of_eq_None_iff)
  show ?case using Cons none b by (auto simp: bt_retain_def bt_get_def split: option.splits)
qed (simp add: bt_retain_def)

lemma bt_ok_extend [simp, inv_intros]: "bt_ok m \<Longrightarrow> bt_ok (bt_extend m kvs)"
  unfolding bt_extend_def by (rule bt.ok_foldl_put)

lemma bt_get_extend [store_laws]:
  "bt_ok m \<Longrightarrow> bt_get (bt_extend m kvs) k =
     (case map_of (rev kvs) k of Some v \<Rightarrow> Some v | None \<Rightarrow> bt_get m k)"
  unfolding bt_extend_def by (rule bt.get_foldl_put)

lemma map_of_rev_bt: "bt_ok m \<Longrightarrow> map_of (rev m) k = bt_get m k"
proof -
  assume ok: "bt_ok m"
  then have "distinct (map fst (rev m))" by (simp add: bt_ok_distinct rev_map [symmetric])
  then have "map_of (rev m) k = Some v \<longleftrightarrow> bt_get m k = Some v" for v
    by (simp add: bt_get_iff [OF ok])
  then show ?thesis by (cases "bt_get m k"; cases "map_of (rev m) k") auto
qed

lemma bt_get_extend_bt:
  "bt_ok m \<Longrightarrow> bt_ok n \<Longrightarrow> bt_get (bt_extend m n) k = or_opt (bt_get n k) (bt_get m k)"
  by (simp add: bt_get_extend map_of_rev_bt split: option.splits)

lemma bt_get_extend_map:
  "bt_ok m \<Longrightarrow> bt_get (bt_extend m kvs) = bt_get m ++ map_of (rev kvs)"
  by (auto simp: fun_eq_iff bt_get_extend map_add_def split: option.split)

lemma bt_ok_collect [simp, inv_intros]: "bt_ok (bt_collect kvs)"
  by (simp add: bt_collect_def)

text \<open>Two ordered maps with the same bindings are the same list.\<close>

lemma bt_ext:
  assumes "bt_ok m" and "bt_ok n" and "\<And>k. bt_get m k = bt_get n k"
  shows "m = n"
proof -
  have eq: "set m = set n"
    using assms(3) by (auto simp: bt_get_iff [OF assms(1), symmetric] bt_get_iff [OF assms(2), symmetric])
  have d: "distinct (map fst m)" "distinct (map fst n)"
    using assms(1,2) by (auto intro: bt_ok_distinct)
  have s: "sorted (map fst m)" "sorted (map fst n)"
    using assms(1,2) by (auto simp: bt_ok_def strict_sorted_iff)
  have "inj_on fst (set m \<union> set n)" using d(1) eq by (simp add: distinct_map)
  then show ?thesis using s d eq map_sorted_distinct_set_unique [of fst m n] by blast
qed

lemma bset_sorted: "sorted_wrt (<) (bset xs)"
  using bt_ok_collect [of "map (\<lambda>x. (x, ())) xs"] by (simp add: bset_def bt_ok_def)

lemma set_bset: "set (bset xs) = set xs"
proof -
  have "fst ` set (bt_extend m (map (\<lambda>x. (x, ())) xs)) = fst ` set m \<union> set xs" for m
    by (induction xs arbitrary: m) (auto simp: bt_extend_def keys_bt_insert)
  from this [of "[]"] show ?thesis by (simp add: bset_def bt_collect_def)
qed

lemma distinct_bset: "distinct (bset xs)"
  using bset_sorted [of xs] by (simp add: strict_sorted_iff)

section \<open>Hash maps\<close>

text \<open>
  \<open>HashMap\<close> as an association list with distinct keys in an arbitrary order: Rust promises no
  iteration order, so nothing may depend on it, and the theorems say so by permuting the list.
\<close>

type_synonym ('k, 'v) hmap = "('k \<times> 'v) list"

definition hm_get :: "('k, 'v) hmap \<Rightarrow> 'k \<Rightarrow> 'v option" where
  "hm_get m k = map_of m k"

definition hm_remove :: "'k \<Rightarrow> ('k, 'v) hmap \<Rightarrow> ('k, 'v) hmap" where
  "hm_remove k m = filter (\<lambda>b. fst b \<noteq> k) m"

definition hm_insert :: "'k \<Rightarrow> 'v \<Rightarrow> ('k, 'v) hmap \<Rightarrow> ('k, 'v) hmap" where
  "hm_insert k v m = (k, v) # hm_remove k m"

definition hm_ok :: "('k, 'v) hmap \<Rightarrow> bool" where
  "hm_ok m \<longleftrightarrow> distinct (map fst m)"

lemma hm_ok_Nil [simp]: "hm_ok []"
  by (simp add: hm_ok_def)

lemma hm_get_Nil [simp]: "hm_get [] k = None"
  by (simp add: hm_get_def)

lemma set_hm_remove: "set (hm_remove k m) = {b \<in> set m. fst b \<noteq> k}"
  by (auto simp: hm_remove_def)

lemma hm_ok_remove: "hm_ok m \<Longrightarrow> hm_ok (hm_remove k m)"
  by (simp add: hm_ok_def hm_remove_def distinct_map_filter)

interpretation hm: kv_map hm_get hm_insert hm_remove hm_ok
  by unfold_locales
     (auto simp: hm_get_def hm_insert_def hm_remove_def map_of_filter_key hm_ok_def distinct_map_filter)

lemmas hm_laws [simp, store_laws] = hm.get_put hm.get_del

declare hm.ok_put [simp, inv_intros] hm.ok_del [simp, inv_intros]

lemma hm_get_iff: "hm_ok m \<Longrightarrow> hm_get m k = Some v \<longleftrightarrow> (k, v) \<in> set m"
  by (auto simp: hm_get_def hm_ok_def)

lemma hm_get_None: "hm_get m k = None \<longleftrightarrow> k \<notin> fst ` set m"
  by (simp add: hm_get_def map_of_eq_None_iff)

lemma hm_get_permute:
  assumes "hm_ok m" and "hm_ok n" and "set m = set n"
  shows "hm_get m k = hm_get n k"
  using assms by (metis hm_get_iff not_Some_eq)

lemma length_hm_insert: "hm_get m k = None \<Longrightarrow> length (hm_insert k v m) = Suc (length m)"
  by (force simp: hm_insert_def hm_remove_def hm_get_None filter_id_conv intro: arg_cong [of _ _ length])

end
