(* ===== verification/Protocol.thy ===== *)
theory Protocol
  imports BTree
begin

text \<open>
  The wire types of \<open>portman-protocol\<close> (\<open>crates/portman-protocol/src/lib.rs\<close>): the enums
  and structs every component shares, with their \<open>as_str\<close> and \<open>From<String>\<close> conversions.
  Enum variants that would clash carry a prefix (\<open>ModeHttp\<close>, \<open>SvcReady\<close>), struct fields the
  initials of their struct. Paths are strings.
\<close>

section \<open>TLS modes, service states, bridge assessments\<close>

datatype tls_mode = TlsOff | TlsMkcert | TlsLe

fun requires_tls :: "tls_mode \<Rightarrow> bool" where
  "requires_tls TlsMkcert = True"
| "requires_tls _ = False"

fun tls_mode_as_str :: "tls_mode \<Rightarrow> string" where
  "tls_mode_as_str TlsOff = ''off''"
| "tls_mode_as_str TlsMkcert = ''mkcert''"
| "tls_mode_as_str TlsLe = ''le''"

datatype service_state =
  SvcPending | SvcStarting | SvcReady | SvcBackoff | SvcFailed | SvcStopped | SvcUnknown

fun service_state_as_str :: "service_state \<Rightarrow> string" where
  "service_state_as_str SvcPending = ''pending''"
| "service_state_as_str SvcStarting = ''starting''"
| "service_state_as_str SvcReady = ''ready''"
| "service_state_as_str SvcBackoff = ''backoff''"
| "service_state_as_str SvcFailed = ''failed''"
| "service_state_as_str SvcStopped = ''stopped''"
| "service_state_as_str SvcUnknown = ''unknown''"

definition service_state_from :: "string \<Rightarrow> service_state" where
  "service_state_from s =
     (if s = ''pending'' then SvcPending
      else if s = ''starting'' then SvcStarting
      else if s = ''ready'' then SvcReady
      else if s = ''backoff'' then SvcBackoff
      else if s = ''failed'' then SvcFailed
      else if s = ''stopped'' then SvcStopped
      else SvcUnknown)"

datatype bridge_assessment =
  BridgeHealthy | BridgeRoutesMissing | BridgeTunnelDead | BridgeOffline | BridgeUnknown

fun bridge_assessment_as_str :: "bridge_assessment \<Rightarrow> string" where
  "bridge_assessment_as_str BridgeHealthy = ''healthy''"
| "bridge_assessment_as_str BridgeRoutesMissing = ''routes_missing''"
| "bridge_assessment_as_str BridgeTunnelDead = ''tunnel_dead''"
| "bridge_assessment_as_str BridgeOffline = ''offline''"
| "bridge_assessment_as_str BridgeUnknown = ''unknown''"

definition bridge_assessment_from :: "string \<Rightarrow> bridge_assessment" where
  "bridge_assessment_from s =
     (if s = ''healthy'' then BridgeHealthy
      else if s = ''routes_missing'' then BridgeRoutesMissing
      else if s = ''tunnel_dead'' then BridgeTunnelDead
      else if s = ''offline'' then BridgeOffline
      else BridgeUnknown)"

section \<open>Sources and modes\<close>

datatype source =
  SourceBuiltin | SourceContainer | SourceStatic | SourceService | SourceEgress | SourceUnknown

definition source_from :: "string \<Rightarrow> source" where
  "source_from s =
     (if s = ''builtin'' then SourceBuiltin
      else if s = ''container'' then SourceContainer
      else if s = ''static'' then SourceStatic
      else if s = ''service'' then SourceService
      else if s = ''egress'' then SourceEgress
      else SourceUnknown)"

datatype mode = ModeHttp | ModeTcp | ModeEgress | ModeUnknown

definition mode_from :: "string \<Rightarrow> mode" where
  "mode_from s =
     (if s = ''http'' then ModeHttp
      else if s = ''tcp'' then ModeTcp
      else if s = ''egress'' then ModeEgress
      else ModeUnknown)"

text \<open>\<open>Mode::parse_label\<close>: trimmed, case-insensitive \<open>tcp\<close>; everything else is HTTP.\<close>

definition mode_parse_label :: "string option \<Rightarrow> mode" where
  "mode_parse_label v =
     (case map_option (\<lambda>s. to_ascii_lowercase (trim s)) v of
        Some s \<Rightarrow> (if s = ''tcp'' then ModeTcp else ModeHttp)
      | None \<Rightarrow> ModeHttp)"

fun mode_as_str :: "mode \<Rightarrow> string" where
  "mode_as_str ModeHttp = ''http''"
| "mode_as_str ModeTcp = ''tcp''"
| "mode_as_str ModeEgress = ''egress''"
| "mode_as_str ModeUnknown = ''http''"

section \<open>Entries and egress routes\<close>

record egress_spec =
  es_require_caller_token :: bool
  es_secrets :: string
  es_key :: string
  es_header :: string
  es_format :: string
  es_upstream_host :: string
  es_tls :: bool

definition egress_spec_render :: "egress_spec \<Rightarrow> string \<Rightarrow> string" where
  "egress_spec_render spec v = replace_str ''{value}'' v (es_format spec)"

record entry =
  e_host :: string
  e_target :: string
  e_source :: source
  e_mode :: mode
  e_container_id :: "string option"
  e_project :: "string option"
  e_egress :: "egress_spec option"

record egress_route_info =
  eri_host :: string
  eri_revision :: string
  eri_require_caller_token :: bool

record egress_route =
  er_host :: string
  er_target :: string
  er_spec :: egress_spec

record tld_info =
  ti_name :: string
  ti_tls_mode :: tls_mode
  ti_entry_count :: u32

text \<open>The two wire shapes of a TLD row, and what \<open>deserialize_tld_infos\<close> makes of them.\<close>

datatype tld_info_wire = TldRich tld_info | TldLegacyName string

definition deserialize_tld_infos :: "tld_info_wire list \<Rightarrow> tld_info list" where
  "deserialize_tld_infos items =
     map (\<lambda>item. case item of
            TldRich info \<Rightarrow> info
          | TldLegacyName n \<Rightarrow> \<lparr>ti_name = n, ti_tls_mode = TlsOff, ti_entry_count = 0\<rparr>) items"

section \<open>Service definitions\<close>

datatype watch_mode = WatchPoll | WatchNative
datatype ready_check = ReadyPort u16 | ReadyDelayMs u64 | ReadyNone
datatype restart_policy = RestartAlways | RestartNever | RestartLimit u32

record service_definition =
  sd_name :: string
  sd_run :: "string list"
  sd_dir :: path
  sd_port :: "u16 option"
  sd_host :: "string option"
  sd_mode :: mode
  sd_ready :: ready_check
  sd_depends :: "string list"
  sd_restart :: restart_policy
  sd_stop_grace_ms :: u64
  sd_env_files :: "path list"
  sd_env :: "(string, string) btree"
  sd_secrets :: "string list"
  sd_secrets_optional :: bool
  sd_watch :: "path list"
  sd_watch_mode :: watch_mode
  sd_watch_debounce_ms :: u64
  sd_groups :: "string list"
  sd_project :: "string option"

definition default_stop_grace_ms :: u64 where
  "default_stop_grace_ms = 5000"

definition default_watch_debounce_ms :: u64 where
  "default_watch_debounce_ms = 500"

datatype infisical_api_version = ApiV3 | ApiV4
datatype infisical_mode = InfisicalNative | InfisicalCli

datatype secrets_provider_config =
  Infisical string string string "string list" infisical_api_version infisical_mode
    \<comment> \<open>url, project id, environment, paths, API version, mode\<close>
| OnePassword "(string, string) btree" \<comment> \<open>env key to \<open>op://\<close> reference\<close>
| LocalVault "string list" \<comment> \<open>env keys, in order\<close>

section \<open>Netbridge modes and resource series\<close>

datatype netbridge_mode = NbOptIn | NbDocker | NbAll

fun netbridge_mode_as_str :: "netbridge_mode \<Rightarrow> string" where
  "netbridge_mode_as_str NbOptIn = ''opt_in''"
| "netbridge_mode_as_str NbDocker = ''docker''"
| "netbridge_mode_as_str NbAll = ''all''"

fun netbridge_mode_display_word :: "netbridge_mode \<Rightarrow> string" where
  "netbridge_mode_display_word NbOptIn = ''opt-in''"
| "netbridge_mode_display_word NbDocker = ''docker''"
| "netbridge_mode_display_word NbAll = ''all''"

datatype series_kind = KindService | KindContainer | KindTotal

fun series_kind_rank :: "series_kind \<Rightarrow> nat" where
  "series_kind_rank KindService = 0"
| "series_kind_rank KindContainer = 1"
| "series_kind_rank KindTotal = 2"

text \<open>The derived \<open>Ord\<close>: by the order of the variants.\<close>

instantiation series_kind :: linorder
begin

definition less_eq_series_kind :: "series_kind \<Rightarrow> series_kind \<Rightarrow> bool" where
  "less_eq_series_kind a b \<longleftrightarrow> series_kind_rank a \<le> series_kind_rank b"

definition less_series_kind :: "series_kind \<Rightarrow> series_kind \<Rightarrow> bool" where
  "less_series_kind a b \<longleftrightarrow> series_kind_rank a < series_kind_rank b"

instance
proof
  fix a b :: series_kind
  show "a \<le> b \<Longrightarrow> b \<le> a \<Longrightarrow> a = b"
    by (cases a; cases b) (auto simp: less_eq_series_kind_def)
qed (auto simp: less_eq_series_kind_def less_series_kind_def)

end

section \<open>Requests and responses\<close>

text \<open>A secret that prints as \<open><redacted>\<close>.\<close>

datatype redacted = Redacted string

fun redacted_debug :: "redacted \<Rightarrow> string" where
  "redacted_debug (Redacted s) = ''<redacted>''"

fun redacted_value :: "redacted \<Rightarrow> string" where
  "redacted_value (Redacted s) = s"

definition default_logs_limit :: u32 where
  "default_logs_limit = 200"

datatype request =
  ReqAuthenticated redacted request
| ReqListEntries
| ReqListEgressRoutes
| ReqIssueEgressGrant string string string u64 string
    \<comment> \<open>grant id, host, token SHA-256, expiry, expected route revision\<close>
| ReqRevokeEgressGrant string
| ReqResourceHistory
| ReqAddStatic string string mode "string option" "string option"
    \<comment> \<open>host, target, mode, service, project\<close>
| ReqRemoveStatic string
| ReqStartService string
| ReqStatus
| ReqTldList
| ReqTldAdd string "tls_mode option"
| ReqTldRemove string
| ReqCertHealth
| ReqResourceUsage
| ReqBridgeEnable
| ReqBridgeDisable
| ReqBridgeSetMode netbridge_mode
| ReqSyncServices path "service_definition list" "(string, secrets_provider_config) btree"
    "(string, egress_route) btree"
| ReqServiceUp "string list"
| ReqServiceDown "string list"
| ReqForgetServices "string list"
| ReqServiceStatus
| ReqLogsQuery string "int option" u32
| ReqSetSecretsCredentials string "string option" "redacted option" "redacted option"
    \<comment> \<open>provider, client id, client secret, token\<close>
| ReqSetLocalSecret string redacted
| ReqUnsetLocalSecret string
| ReqInstallInferenceRoute path string string redacted egress_route
| ReqRemoveInferenceRoute path string string string
| ReqSecretsStatus
| ReqSetSecretsBlock string secrets_provider_config
| ReqRemoveSecretsBlock string

record local_secret_info =
  lsi_key :: string
  lsi_set :: bool
  lsi_blocks :: "string list"

record secrets_block_info =
  sbi_name :: string
  sbi_config :: secrets_provider_config
  sbi_root :: "path option"
  sbi_used_by :: "string list"

record service_status_info =
  ssi_name :: string
  ssi_root :: "path option"
  ssi_repo :: "path option"
  ssi_config_missing :: bool
  ssi_state :: service_state
  ssi_detail :: string
  ssi_pid :: "u32 option"
  ssi_restarts :: u32
  ssi_host :: "string option"
  ssi_port :: "u16 option"
  ssi_desired_up :: bool
  ssi_groups :: "string list"
  ssi_project :: "string option"

record log_line_info =
  lli_id :: int
  lli_ts_ms :: int
  lli_stream :: string
  lli_line :: string

section \<open>Conversions\<close>

lemma service_state_from_as_str [simp]: "service_state_from (service_state_as_str s) = s"
  by (cases s) (simp_all add: service_state_from_def)

lemma bridge_assessment_from_as_str [simp]:
  "bridge_assessment_from (bridge_assessment_as_str b) = b"
  by (cases b) (simp_all add: bridge_assessment_from_def)

lemma service_state_from_Unknown:
  "service_state_from s = SvcUnknown \<longleftrightarrow> (\<forall>st. st \<noteq> SvcUnknown \<longrightarrow> s \<noteq> service_state_as_str st)"
proof
  assume un: "service_state_from s = SvcUnknown"
  show "\<forall>st. st \<noteq> SvcUnknown \<longrightarrow> s \<noteq> service_state_as_str st"
  proof (intro allI impI notI)
    fix st assume "st \<noteq> SvcUnknown" "s = service_state_as_str st"
    with un show False by simp
  qed
next
  assume none: "\<forall>st. st \<noteq> SvcUnknown \<longrightarrow> s \<noteq> service_state_as_str st"
  show "service_state_from s = SvcUnknown"
    using none [rule_format, of SvcPending] none [rule_format, of SvcStarting]
      none [rule_format, of SvcReady] none [rule_format, of SvcBackoff]
      none [rule_format, of SvcFailed] none [rule_format, of SvcStopped]
    by (simp add: service_state_from_def)
qed

lemma mode_from_as_str: "m \<noteq> ModeUnknown \<Longrightarrow> mode_from (mode_as_str m) = m"
  by (cases m) (simp_all add: mode_from_def)

lemma mode_parse_label_not_egress: "mode_parse_label v = ModeHttp \<or> mode_parse_label v = ModeTcp"
  by (auto simp: mode_parse_label_def split: option.splits)

lemma render_without_placeholder:
  "\<not> contains_str ''{value}'' (es_format spec) \<Longrightarrow> egress_spec_render spec v = es_format spec"
  by (simp add: egress_spec_render_def replace_str_absent)

lemma render_prefix:
  assumes "es_format spec = p @ ''{value}''" and "CHR ''{'' \<notin> set p"
  shows "egress_spec_render spec v = p @ v"
proof -
  have "replace_str ''{value}'' v (p @ ''{value}'') = p @ v" using assms(2)
  proof (induction p)
    case Nil
    then show ?case using replace_str_hit [of "''{value}''" v "[]"] by simp
  next
    case (Cons c p)
    then show ?case by (simp add: replace_str_miss)
  qed
  with assms(1) show ?thesis by (simp add: egress_spec_render_def)
qed

end
