(* ===== verification/Hosts.thy ===== *)
theory Hosts
  imports Protocol
begin

text \<open>
  The validators of \<open>portman-core/src/static_store.rs\<close> (hosts, wildcards, service ids,
  targets). Every \<open>bail!\<close> is a constructor of the error type. The lemmas give the accepted
  language of each validator as a grammar and show that accepted names are normal forms.
\<close>

section \<open>Hosts\<close>

datatype host_error =
  HostEmpty | HostWhitespace | HostNoDot | HostEdgeDot | HostEmptyLabel
| HostWildcardPosition | HostTwoWildcards | HostBareWildcard | HostBadChars

definition label_char :: "char \<Rightarrow> bool" where
  "label_char c \<longleftrightarrow> is_ascii_alphanumeric c \<or> c = CHR ''-'' \<or> c = CHR ''_''"

definition valid_label :: "string \<Rightarrow> bool" where
  "valid_label l \<longleftrightarrow> \<not> (l = [] \<or> starts_with ''-'' l \<or> ends_with ''-'' l \<or> \<not> list_all label_char l)"

text \<open>The part of the host whose labels are checked: without a leading \<open>*.\<close>.\<close>

definition labels_part :: "string \<Rightarrow> host_error + string" where
  "labels_part h =
     (if contains_str ''*'' h then
        (case strip_prefix ''*.'' h of
           None \<Rightarrow> Inl HostWildcardPosition
         | Some rest \<Rightarrow>
             if contains_str ''*'' rest then Inl HostTwoWildcards
             else if \<not> contains_str ''.'' rest then Inl HostBareWildcard
             else Inr rest)
      else Inr h)"

definition validate_host :: "string \<Rightarrow> host_error + string" where
  "validate_host host =
     (let h = trim host in
      if h = [] then Inl HostEmpty
      else if has_whitespace h then Inl HostWhitespace
      else if \<not> contains_str ''.'' h then Inl HostNoDot
      else if starts_with ''.'' h \<or> ends_with ''.'' h then Inl HostEdgeDot
      else if contains_str ''..'' h then Inl HostEmptyLabel
      else and_then (labels_part h) (\<lambda>part.
        if list_all valid_label (split_on CHR ''.'' part)
        then Inr (to_ascii_lowercase h)
        else Inl HostBadChars))"

definition is_wildcard_host :: "string \<Rightarrow> bool" where
  "is_wildcard_host host \<longleftrightarrow> starts_with ''*.'' host"

definition wildcard_matches :: "string \<Rightarrow> string \<Rightarrow> bool" where
  "wildcard_matches pattern name =
     (case strip_prefix ''*'' pattern of
        None \<Rightarrow> False
      | Some suffix \<Rightarrow>
          (case strip_suffix suffix name of
             None \<Rightarrow> False
           | Some label \<Rightarrow> label \<noteq> [] \<and> \<not> contains_str ''.'' label))"

section \<open>Service ids and targets\<close>

datatype service_error = ServiceEmpty | ServiceTooLong | ServiceBadChars

definition service_char :: "char \<Rightarrow> bool" where
  "service_char c \<longleftrightarrow> is_ascii_alphanumeric c \<or> c \<in> set ''._/-:''"

definition validate_service :: "string \<Rightarrow> service_error + string" where
  "validate_service service =
     (let s = trim service in
      if s = [] then Inl ServiceEmpty
      else if length s > 128 then Inl ServiceTooLong
      else if \<not> list_all service_char s then Inl ServiceBadChars
      else Inr s)"

datatype target_error =
  TargetNoPort | TargetHostEmpty | TargetHostWhitespace | TargetIpv6Unbracketed
| TargetPortInvalid | TargetPortZero

definition validate_target :: "string \<Rightarrow> target_error + string" where
  "validate_target target =
     (let t = trim target in
      and_then (ok_or TargetNoPort (rsplit_once CHR '':'' t)) (\<lambda>(host, port).
        if host = [] then Inl TargetHostEmpty
        else if has_whitespace host then Inl TargetHostWhitespace
        else if contains_str '':'' host \<and> \<not> (starts_with ''['' host \<and> ends_with '']'' host)
        then Inl TargetIpv6Unbracketed
        else and_then (ok_or TargetPortInvalid (parse_u16 port)) (\<lambda>port_num.
          if port_num = 0 then Inl TargetPortZero else Inr t)))"

section \<open>The language of valid hosts\<close>

text \<open>
  At least two valid labels, optionally under one leading wildcard label.
\<close>

definition host_grammar :: "string \<Rightarrow> bool" where
  "host_grammar h \<longleftrightarrow>
     (\<exists>ls. 2 \<le> length ls \<and> list_all valid_label ls \<and>
           (h = join_str ''.'' ls \<or> h = ''*.'' @ join_str ''.'' ls))"

lemma label_char_byte: "label_char c \<Longrightarrow> 32 < byte c \<and> byte c < 128 \<and> c \<noteq> CHR ''.'' \<and> c \<noteq> CHR ''*''"
  by (auto simp: label_char_def ascii_defs)

lemma valid_label_chars: "valid_label l \<Longrightarrow> c \<in> set l \<Longrightarrow> label_char c"
  by (auto simp: valid_label_def list_all_iff)

lemma valid_label_no_dot: "valid_label l \<Longrightarrow> CHR ''.'' \<notin> set l"
  using valid_label_chars label_char_byte by blast

lemma label_char_lower [simp]: "label_char (ascii_lower_char c) = label_char c"
proof -
  have "ascii_lower_char c = CHR ''-'' \<longleftrightarrow> c = CHR ''-''"
    "ascii_lower_char c = CHR ''_'' \<longleftrightarrow> c = CHR ''_''"
    using ascii_lower_char_eq_special [of "CHR ''-''" c] ascii_lower_char_eq_special [of "CHR ''_''" c]
    by (auto simp: is_ascii_lowercase_def is_ascii_uppercase_def)
  then show ?thesis by (simp add: label_char_def)
qed

lemma split_join_labels:
  assumes "ls \<noteq> []" and "list_all valid_label ls"
  shows "split_on CHR ''.'' (join_str ''.'' ls) = ls"
  using assms by (intro split_on_join) (auto simp: list_all_iff dest: valid_label_no_dot)

lemma labels_bytes:
  assumes "list_all valid_label ls" and "c \<in> set (join_str ''.'' ls)"
  shows "c = CHR ''.'' \<or> label_char c"
  using set_join_str [OF assms(2)] assms(1) by (auto simp: list_all_iff dest: valid_label_chars)

lemma labels_joined:
  assumes "2 \<le> length ls" and "list_all valid_label ls" and "h = join_str ''.'' ls"
  shows "h \<noteq> []" "\<not> starts_with ''.'' h" "\<not> ends_with ''.'' h" "\<not> contains_str ''..'' h"
    "CHR ''.'' \<in> set h" "CHR ''*'' \<notin> set h"
    "\<And>c. c \<in> set h \<Longrightarrow> 32 < byte c \<and> byte c < 128"
proof -
  have split: "split_on CHR ''.'' h = ls"
    using assms split_join_labels [of ls] by (cases ls) auto
  have "[] \<notin> set ls" using assms(2) by (auto simp: list_all_iff valid_label_def)
  then have "[] \<notin> set (split_on CHR ''.'' h)" by (simp add: split)
  from split_on_no_empty [OF this]
  show "h \<noteq> []" "\<not> starts_with ''.'' h" "\<not> ends_with ''.'' h" "\<not> contains_str ''..'' h"
    by simp_all
  show "CHR ''.'' \<in> set h" using assms(1) split length_split_on [of "CHR ''.''" h] by simp
  have "c = CHR ''.'' \<or> label_char c" if "c \<in> set h" for c
    using labels_bytes assms(2,3) that by blast
  then show "CHR ''*'' \<notin> set h" "\<And>c. c \<in> set h \<Longrightarrow> 32 < byte c \<and> byte c < 128"
    using label_char_byte by fastforce+
qed

lemma validate_host_sound:
  assumes "validate_host s = Inr h"
  shows "h = to_ascii_lowercase (trim s) \<and> host_grammar (trim s)"
proof -
  define t where "t = trim s"
  from assms have dot: "CHR ''.'' \<in> set t" and lower: "h = to_ascii_lowercase t"
    and part: "\<exists>p. labels_part t = Inr p \<and> list_all valid_label (split_on CHR ''.'' p)"
    by (auto simp: validate_host_def Let_def t_def [symmetric] contains_str_single and_then_Inr
        split: if_splits)
  from part obtain p where p: "labels_part t = Inr p" "list_all valid_label (split_on CHR ''.'' p)"
    by blast
  have "CHR ''.'' \<in> set p \<and> (t = p \<or> t = ''*.'' @ p)"
    using p(1) dot
    by (auto simp: labels_part_def contains_str_single strip_prefix_Some split: if_splits option.splits)
  moreover have "p = join_str ''.'' (split_on CHR ''.'' p)" by (simp add: join_split_on)
  ultimately have "host_grammar t"
    unfolding host_grammar_def using p(2) length_split_on by metis
  with lower show ?thesis by (simp add: t_def)
qed

lemma validate_host_complete:
  assumes "host_grammar (trim s)"
  shows "validate_host s = Inr (to_ascii_lowercase (trim s))"
proof -
  define t where "t = trim s"
  from assms obtain ls where ls: "2 \<le> length ls" "list_all valid_label ls"
    and t: "t = join_str ''.'' ls \<or> t = ''*.'' @ join_str ''.'' ls"
    by (auto simp: host_grammar_def t_def)
  define j where "j = join_str ''.'' ls"
  note j = labels_joined [OF ls j_def]
  have split: "split_on CHR ''.'' j = ls" using ls split_join_labels [of ls] by (cases ls) (auto simp: j_def)
  have ws: "\<not> has_whitespace t"
    by (rule has_whitespace_ascii) (use t j(7) j_def in \<open>auto\<close>)
  show ?thesis
  proof (cases "t = j")
    case True
    then show ?thesis
      using j ls(2) ws
      by (simp add: validate_host_def Let_def t_def [symmetric] labels_part_def contains_str_single split)
  next
    case False
    with t have tj: "t = CHR ''*'' # CHR ''.'' # j" by (simp add: j_def)
    have "\<not> contains_str ''..'' t"
      using j by (auto simp: tj starts_with_iff)
    moreover have "\<not> ends_with ''.'' t"
      using j(1,3) by (auto simp: tj ends_with_iff Cons_eq_append_conv)
    ultimately show ?thesis
      using j ls(2) ws
      by (simp add: validate_host_def Let_def t_def [symmetric] labels_part_def contains_str_single
          split tj starts_with_def)
  qed
qed

text \<open>
  \<open>validate_host\<close> accepts exactly the hosts whose trimmed text is at least two valid
  labels, optionally under one leading \<open>*\<close> label, and returns that text in lower case.
\<close>

theorem validate_host_iff:
  "validate_host s = Inr h \<longleftrightarrow> host_grammar (trim s) \<and> h = to_ascii_lowercase (trim s)"
  by (metis validate_host_sound validate_host_complete)

section \<open>Normal forms\<close>

lemma lower_join_str:
  "to_ascii_lowercase (join_str sep ls) = join_str (to_ascii_lowercase sep) (map to_ascii_lowercase ls)"
  by (induction sep ls rule: join_str.induct) simp_all

lemma join_lower:
  "to_ascii_lowercase (join_str ''.'' ls) = join_str ''.'' (map to_ascii_lowercase ls)"
  by (simp add: lower_join_str ascii_lower_char_id is_ascii_uppercase_def)

lemma hyphen_lower:
  "starts_with ''-'' (to_ascii_lowercase l) = starts_with ''-'' l"
  "ends_with ''-'' (to_ascii_lowercase l) = ends_with ''-'' l"
proof -
  have h: "ascii_lower_char c = CHR ''-'' \<longleftrightarrow> c = CHR ''-''" for c
    using ascii_lower_char_eq_special [of "CHR ''-''" c]
    by (auto simp: is_ascii_lowercase_def is_ascii_uppercase_def)
  show "starts_with ''-'' (to_ascii_lowercase l) = starts_with ''-'' l"
    by (cases l) (auto simp: starts_with_iff h)
  show "ends_with ''-'' (to_ascii_lowercase l) = ends_with ''-'' l"
    by (cases l rule: rev_cases) (auto simp: ends_with_iff h)
qed

lemma valid_label_lower [simp]: "valid_label (to_ascii_lowercase l) = valid_label l"
  by (simp add: valid_label_def hyphen_lower list_all_iff to_ascii_lowercase_def [of l])
     (auto simp: hyphen_lower to_ascii_lowercase_def [symmetric])

lemma host_grammar_lower: "host_grammar t \<Longrightarrow> host_grammar (to_ascii_lowercase t)"
proof -
  assume "host_grammar t"
  then obtain ls where ls: "2 \<le> length ls" "list_all valid_label ls"
    and t: "t = join_str ''.'' ls \<or> t = ''*.'' @ join_str ''.'' ls"
    by (auto simp: host_grammar_def)
  have "to_ascii_lowercase ''*.'' = ''*.''"
    by (simp add: ascii_lower_char_id is_ascii_uppercase_def)
  then have "to_ascii_lowercase t = join_str ''.'' (map to_ascii_lowercase ls) \<or>
      to_ascii_lowercase t = ''*.'' @ join_str ''.'' (map to_ascii_lowercase ls)"
    using t join_lower [of ls] by auto
  moreover have "2 \<le> length (map to_ascii_lowercase ls)" using ls(1) by simp
  moreover have "list_all valid_label (map to_ascii_lowercase ls)"
    using ls(2) by (simp add: list_all_iff)
  ultimately show ?thesis unfolding host_grammar_def by blast
qed

lemma host_grammar_bytes:
  assumes "host_grammar t" and "c \<in> set t"
  shows "32 < byte c \<and> byte c < 128"
proof -
  obtain ls where ls: "2 \<le> length ls" "list_all valid_label ls"
    and t: "t = join_str ''.'' ls \<or> t = ''*.'' @ join_str ''.'' ls"
    using assms(1) by (auto simp: host_grammar_def)
  show ?thesis using t assms(2) labels_joined(7) [OF ls refl, of c] by auto
qed

lemma host_grammar_trim: "host_grammar t \<Longrightarrow> trim t = t"
  by (intro trim_no_whitespace has_whitespace_ascii) (auto dest: host_grammar_bytes)

lemma validate_host_normal:
  assumes "validate_host s = Inr h"
  shows "host_grammar h" "trim h = h" "to_ascii_lowercase h = h"
proof -
  have h: "h = to_ascii_lowercase (trim s)" "host_grammar (trim s)"
    using validate_host_sound [OF assms] by auto
  then show "host_grammar h" by (simp add: host_grammar_lower)
  then show "trim h = h" by (rule host_grammar_trim)
  show "to_ascii_lowercase h = h" by (simp add: h(1))
qed

lemma validate_host_idem: "validate_host s = Inr h \<Longrightarrow> validate_host h = Inr h"
  using validate_host_normal [of s h] validate_host_complete [of h] by simp

section \<open>Wildcards\<close>

lemma wildcard_matches_suffix:
  "wildcard_matches (''*'' @ suffix) n \<longleftrightarrow> (\<exists>l. n = l @ suffix \<and> l \<noteq> [] \<and> CHR ''.'' \<notin> set l)"
proof (cases "strip_suffix suffix n")
  case None
  then have "\<nexists>l. n = l @ suffix" by (metis option.distinct(1) strip_suffix_Some)
  with None show ?thesis by (simp add: wildcard_matches_def)
next
  case (Some l)
  then have n: "n = l @ suffix" by (simp add: strip_suffix_Some)
  have "wildcard_matches (''*'' @ suffix) n \<longleftrightarrow> l \<noteq> [] \<and> CHR ''.'' \<notin> set l"
    using Some by (simp add: wildcard_matches_def contains_str_single)
  with n show ?thesis by simp
qed

lemma wildcard_matches_pattern: "wildcard_matches p n \<Longrightarrow> \<exists>suffix. p = ''*'' @ suffix"
  by (auto simp: wildcard_matches_def strip_prefix_Some split: option.splits)

lemma wildcard_matches_length_unique:
  assumes "wildcard_matches p n" and "wildcard_matches q n" and "length p = length q"
  shows "p = q"
proof -
  obtain s t where st: "p = ''*'' @ s" "q = ''*'' @ t"
    using assms(1,2) wildcard_matches_pattern by blast
  from assms(1) obtain l where l: "n = l @ s" by (auto simp: st wildcard_matches_suffix simp del: append_Cons)
  from assms(2) obtain m where m: "n = m @ t" by (auto simp: st wildcard_matches_suffix simp del: append_Cons)
  have "length s = length t" using assms(3) st by simp
  then have "s = t" using l m by (metis append_eq_append_conv)
  then show ?thesis by (simp add: st)
qed

text \<open>
  A wildcard pattern covers exactly one label: a validated wildcard \<open>*.d\<close> matches a name
  iff the name is one nonempty dotless label, a dot and \<open>d\<close>; so neither the apex \<open>d\<close> nor a
  name two labels deep is covered, and validating a host again changes nothing.
\<close>

theorem wildcard_covers_one_label:
  assumes "validate_host s = Inr h" and "is_wildcard_host h"
  shows "\<exists>d. h = ''*.'' @ d \<and> validate_host d = Inr d \<and> \<not> wildcard_matches h d \<and>
    (\<forall>n. wildcard_matches h n \<longleftrightarrow> (\<exists>l. n = l @ ''.'' @ d \<and> l \<noteq> [] \<and> CHR ''.'' \<notin> set l))"
proof -
  obtain d where d: "h = ''*.'' @ d"
    using assms(2) by (auto simp: is_wildcard_host_def starts_with_iff)
  have g: "host_grammar h" "to_ascii_lowercase h = h"
    using assms(1) validate_host_normal by blast+
  then obtain ls where ls: "2 \<le> length ls" "list_all valid_label ls"
    and h: "h = join_str ''.'' ls \<or> h = ''*.'' @ join_str ''.'' ls"
    by (auto simp: host_grammar_def)
  have "CHR ''*'' \<notin> set (join_str ''.'' ls)" by (rule labels_joined(6) [OF ls refl])
  moreover have "CHR ''*'' \<in> set h" by (simp add: d)
  ultimately have "h \<noteq> join_str ''.'' ls" by metis
  then have "d = join_str ''.'' ls" using h d by simp
  with ls have dg: "host_grammar d" by (auto simp: host_grammar_def)
  moreover have "to_ascii_lowercase d = d" using g(2) d by simp
  ultimately have "validate_host d = Inr d"
    using validate_host_complete [of d] by (simp add: host_grammar_trim)
  moreover have "wildcard_matches h n \<longleftrightarrow> (\<exists>l. n = l @ ''.'' @ d \<and> l \<noteq> [] \<and> CHR ''.'' \<notin> set l)" for n
    using wildcard_matches_suffix [of "''.'' @ d" n] d by simp
  moreover have "d \<noteq> l @ ''.'' @ d" for l by (rule notI, drule arg_cong [of _ _ length]) simp
  ultimately show ?thesis using d by blast
qed

lemma wildcard_covers_one_label_witness:
  "\<exists>d. ''*.demo.test'' = ''*.'' @ d \<and> validate_host d = Inr d \<and> \<not> wildcard_matches ''*.demo.test'' d \<and>
    (\<forall>n. wildcard_matches ''*.demo.test'' n \<longleftrightarrow> (\<exists>l. n = l @ ''.'' @ d \<and> l \<noteq> [] \<and> CHR ''.'' \<notin> set l))"
  by (rule wildcard_covers_one_label [of "''*.Demo.test''"]) code_simp+

section \<open>Targets\<close>

lemma validate_target_iff:
  "validate_target s = Inr t \<longleftrightarrow>
     t = trim s \<and>
     (\<exists>host port n. trim s = host @ '':'' @ port \<and> CHR '':'' \<notin> set port \<and> host \<noteq> [] \<and>
        \<not> has_whitespace host \<and>
        (CHR '':'' \<in> set host \<longrightarrow> starts_with ''['' host \<and> ends_with '']'' host) \<and>
        parse_u16 port = Some n \<and> n \<noteq> 0)"
proof (cases "rsplit_once CHR '':'' (trim s)")
  case None
  then have "\<nexists>host port. trim s = host @ '':'' @ port" by (auto simp: rsplit_once_None)
  with None show ?thesis by (auto simp: validate_target_def)
next
  case (Some hp)
  obtain host port where hp: "hp = (host, port)" by (cases hp)
  with Some have r: "trim s = a @ '':'' @ b \<and> CHR '':'' \<notin> set b \<longleftrightarrow> a = host \<and> b = port" for a b
    using rsplit_once_Some [of "CHR '':''" "trim s" a b] by auto
  have "validate_target s = Inr t \<longleftrightarrow> t = trim s \<and> host \<noteq> [] \<and> \<not> has_whitespace host \<and>
      (CHR '':'' \<in> set host \<longrightarrow> starts_with ''['' host \<and> ends_with '']'' host) \<and>
      (\<exists>n. parse_u16 port = Some n \<and> n \<noteq> 0)"
    using Some hp by (auto simp: validate_target_def Let_def contains_str_single and_then_Inr ok_or_Inr)
  also have "\<dots> \<longleftrightarrow> t = trim s \<and>
     (\<exists>host port n. trim s = host @ '':'' @ port \<and> CHR '':'' \<notin> set port \<and> host \<noteq> [] \<and>
        \<not> has_whitespace host \<and>
        (CHR '':'' \<in> set host \<longrightarrow> starts_with ''['' host \<and> ends_with '']'' host) \<and>
        parse_u16 port = Some n \<and> n \<noteq> 0)" (is "_ \<longleftrightarrow> _ \<and> ?ex")
  proof (intro conj_cong refl iffI)
    assume "host \<noteq> [] \<and> \<not> has_whitespace host \<and>
      (CHR '':'' \<in> set host \<longrightarrow> starts_with ''['' host \<and> ends_with '']'' host) \<and>
      (\<exists>n. parse_u16 port = Some n \<and> n \<noteq> 0)"
    moreover have "trim s = host @ '':'' @ port \<and> CHR '':'' \<notin> set port" using r by simp
    ultimately show ?ex by blast
  next
    assume ?ex
    then obtain a b n where ab: "trim s = a @ '':'' @ b" "CHR '':'' \<notin> set b" and rest: "a \<noteq> []"
      "\<not> has_whitespace a" "CHR '':'' \<in> set a \<longrightarrow> starts_with ''['' a \<and> ends_with '']'' a"
      "parse_u16 b = Some n" "n \<noteq> 0" by blast
    moreover from ab r have "a = host" "b = port" by metis+
    ultimately show "host \<noteq> [] \<and> \<not> has_whitespace host \<and>
      (CHR '':'' \<in> set host \<longrightarrow> starts_with ''['' host \<and> ends_with '']'' host) \<and>
      (\<exists>n. parse_u16 port = Some n \<and> n \<noteq> 0)" by blast
  qed
  finally show ?thesis .
qed

lemma validate_target_idem: "validate_target s = Inr t \<Longrightarrow> validate_target t = Inr t"
  by (metis trim_idem validate_target_iff)

lemma validate_service_iff:
  "validate_service s = Inr t \<longleftrightarrow> t = trim s \<and> t \<noteq> [] \<and> length t \<le> 128 \<and> list_all service_char t"
  by (auto simp: validate_service_def Let_def)

end
