(* ===== verification/Tld.thy ===== *)
theory Tld
  imports Hosts
begin

text \<open>
  TLD management, \<open>portman-core/src/tld.rs\<close>: the resolver files portman writes, how it
  recognises its own, and which hosts a set of managed TLDs covers. The two platforms the
  source compiles for are values of \<open>os\<close>. A resolver directory is a map from paths to
  contents; the outcome of a file-system call is an argument, \<open>None\<close> for success.
\<close>

section \<open>Resolver files\<close>

datatype os = Macos | Linux

datatype io_error = NotFound | OtherIo

definition portman_marker :: string where
  "portman_marker = ''# managed by portman''"

fun resolver_dir :: "os \<Rightarrow> path" where
  "resolver_dir Macos = ''/etc/resolver''"
| "resolver_dir Linux = ''/etc/systemd/resolved.conf.d''"

fun resolver_path :: "os \<Rightarrow> string \<Rightarrow> path" where
  "resolver_path Macos tld = path_join (resolver_dir Macos) tld"
| "resolver_path Linux tld = path_join (resolver_dir Linux) (''portman-'' @ tld @ ''.conf'')"

definition newline :: string where
  "newline = [CHR 0x0A]"

definition resolver_contents :: "u16 \<Rightarrow> string" where
  "resolver_contents port =
     portman_marker @ newline @ ''nameserver 127.0.0.1'' @ newline @
     ''port '' @ show_nat (unat port) @ newline"

definition resolver_contents_for_tld :: "string \<Rightarrow> u16 \<Rightarrow> string" where
  "resolver_contents_for_tld tld port =
     portman_marker @ newline @ ''[Resolve]'' @ newline @
     ''DNS=127.0.0.1:'' @ show_nat (unat port) @ newline @ ''Domains=~'' @ tld @ newline"

fun resolver_file_contents :: "os \<Rightarrow> string \<Rightarrow> u16 \<Rightarrow> string" where
  "resolver_file_contents Macos tld port = resolver_contents port"
| "resolver_file_contents Linux tld port = resolver_contents_for_tld tld port"

datatype tld_error =
  TldEmpty | TldWhitespace | TldEdgeDot | TldSlash | TldEmptyLabel | TldBadChars | TldLocal
| TldCreateDir | TldWrite | TldRemove | TldRead

definition valid_tld_label :: "string \<Rightarrow> bool" where
  "valid_tld_label l \<longleftrightarrow> \<not> (l = [] \<or> \<not> list_all label_char l)"

definition validate_tld :: "string \<Rightarrow> tld_error + string" where
  "validate_tld tld =
     (let t = to_ascii_lowercase (trim tld) in
      if t = [] then Inl TldEmpty
      else if has_whitespace t then Inl TldWhitespace
      else if starts_with ''.'' t \<or> ends_with ''.'' t then Inl TldEdgeDot
      else if contains_str ''/'' t then Inl TldSlash
      else if contains_str ''..'' t then Inl TldEmptyLabel
      else if \<not> list_all valid_tld_label (split_on CHR ''.'' t) then Inl TldBadChars
      else if t = ''local'' then Inl TldLocal
      else Inr t)"

text \<open>The outcome of \<open>create_dir_all\<close> and of the write are arguments.\<close>

definition write_resolver ::
  "os \<Rightarrow> io_error option \<Rightarrow> io_error option \<Rightarrow> string \<Rightarrow> u16 \<Rightarrow> (path \<rightharpoonup> string) \<Rightarrow> (tld_error + unit) \<times> (path \<rightharpoonup> string)" where
  "write_resolver os mkdir_res write_res tld port files =
     (case validate_tld tld of
        Inl e \<Rightarrow> (Inl e, files)
      | Inr tld \<Rightarrow>
          if mkdir_res \<noteq> None then (Inl TldCreateDir, files)
          else if write_res \<noteq> None then (Inl TldWrite, files)
          else (Inr (), files(resolver_path os tld \<mapsto> resolver_file_contents os tld port)))"

definition remove_resolver ::
  "os \<Rightarrow> io_error option \<Rightarrow> string \<Rightarrow> (path \<rightharpoonup> string) \<Rightarrow> (tld_error + unit) \<times> (path \<rightharpoonup> string)" where
  "remove_resolver os remove_res tld files =
     (case validate_tld tld of
        Inl e \<Rightarrow> (Inl e, files)
      | Inr tld \<Rightarrow>
          (case remove_res of
             None \<Rightarrow> (Inr (), files(resolver_path os tld := None))
           | Some NotFound \<Rightarrow> (Inr (), files)
           | Some OtherIo \<Rightarrow> (Inl TldRemove, files)))"

text \<open>The two advisory messages by a short name each.\<close>

definition warnings_for_tld :: "string \<Rightarrow> string list" where
  "warnings_for_tld tld =
     (let lower = to_ascii_lowercase tld in
      (if lower = ''internal'' then [''mdns-intercepted''] else []) @
      (if lower = ''dev'' \<or> ends_with ''.dev'' lower then [''hsts-preloaded''] else []))"

datatype resolver_file_state = Absent | ManagedByPortman | ManagedByOther

text \<open>The result of reading the file is the argument.\<close>

definition peek_resolver :: "io_error + string \<Rightarrow> tld_error + resolver_file_state" where
  "peek_resolver read_res =
     (case read_res of
        Inr contents \<Rightarrow>
          if starts_with portman_marker contents then Inr ManagedByPortman else Inr ManagedByOther
      | Inl NotFound \<Rightarrow> Inr Absent
      | Inl OtherIo \<Rightarrow> Inl TldRead)"

text \<open>The TLD a directory entry stands for, by its file name.\<close>

fun tld_of_file_name :: "os \<Rightarrow> string \<Rightarrow> string option" where
  "tld_of_file_name Macos name = (if starts_with ''.'' name then None else Some name)"
| "tld_of_file_name Linux name =
     (if starts_with ''.'' name then None
      else Option.bind (strip_prefix ''portman-'' name) (strip_suffix ''.conf''))"

text \<open>
  The directory listing is a list of (file name, contents when readable as UTF-8); a
  missing directory has no entries.
\<close>

definition scan_managed_tlds ::
  "os \<Rightarrow> io_error + (string \<times> string option) list \<Rightarrow> tld_error + string list" where
  "scan_managed_tlds os read_dir =
     (case read_dir of
        Inl NotFound \<Rightarrow> Inr []
      | Inl OtherIo \<Rightarrow> Inl TldRead
      | Inr entries \<Rightarrow> Inr (sort (concat (map (\<lambda>(name, contents).
          case (tld_of_file_name os name, contents) of
            (Some tld, Some c) \<Rightarrow> if starts_with portman_marker c then [tld] else []
          | _ \<Rightarrow> []) entries))))"

section \<open>Hosts under a TLD\<close>

definition host_has_managed_tld :: "string \<Rightarrow> string list \<Rightarrow> bool" where
  "host_has_managed_tld host tlds =
     (let host_lower = to_ascii_lowercase host in
      list_ex (\<lambda>tld.
        let tld = to_ascii_lowercase tld in
        host_lower = tld \<or>
        (case strip_suffix tld host_lower of
           Some rest \<Rightarrow> ends_with ''.'' rest
         | None \<Rightarrow> False)) tlds)"

definition host_is_localhost :: "string \<Rightarrow> bool" where
  "host_is_localhost host =
     (let host = to_ascii_lowercase host in host = ''localhost'' \<or> ends_with ''.localhost'' host)"

definition host_is_routable :: "string \<Rightarrow> string list \<Rightarrow> bool" where
  "host_is_routable host tlds \<longleftrightarrow> host_is_localhost host \<or> host_has_managed_tld host tlds"

section \<open>Properties\<close>

definition tld_grammar :: "string \<Rightarrow> bool" where
  "tld_grammar t \<longleftrightarrow> (\<exists>ls. ls \<noteq> [] \<and> list_all valid_tld_label ls \<and> t = join_str ''.'' ls)"

lemma valid_tld_label_chars: "valid_tld_label l \<Longrightarrow> c \<in> set l \<Longrightarrow> label_char c"
  by (auto simp: valid_tld_label_def list_all_iff)

lemma tld_labels_joined:
  assumes "ls \<noteq> []" and "list_all valid_tld_label ls" and "h = join_str ''.'' ls"
  shows "split_on CHR ''.'' h = ls" "c \<in> set h \<Longrightarrow> c = CHR ''.'' \<or> label_char c"
proof -
  show "split_on CHR ''.'' h = ls"
    unfolding assms(3) using assms(1,2) label_char_byte
    by (intro split_on_join) (auto simp: list_all_iff dest: valid_tld_label_chars)
  show "c = CHR ''.'' \<or> label_char c" if "c \<in> set h"
    using set_join_str [of c "''.''" ls] that assms(2,3)
    by (auto simp: list_all_iff dest: valid_tld_label_chars)
qed

lemma validate_tld_iff:
  "validate_tld s = Inr t \<longleftrightarrow>
     t = to_ascii_lowercase (trim s) \<and> tld_grammar t \<and> t \<noteq> ''local''"
proof -
  define u where "u = to_ascii_lowercase (trim s)"
  have "validate_tld s = Inr t \<longleftrightarrow> t = u \<and> tld_grammar u \<and> u \<noteq> ''local''"
  proof (cases "tld_grammar u")
    case True
    then obtain ls where ls: "ls \<noteq> []" "list_all valid_tld_label ls" "u = join_str ''.'' ls"
      by (auto simp: tld_grammar_def)
    note j = tld_labels_joined [OF ls]
    have "[] \<notin> set (split_on CHR ''.'' u)"
      using ls(2) by (auto simp: j(1) list_all_iff valid_tld_label_def)
    note e = split_on_no_empty [OF this]
    have b: "32 < byte c \<and> byte c < 128" if "c \<in> set u" for c
      using j(2) [OF that] label_char_byte by fastforce
    have "CHR ''/'' \<notin> set u"
      using j(2) [of "CHR ''/''"] by (auto simp: label_char_def ascii_defs)
    moreover have "\<not> has_whitespace u" using b by (rule has_whitespace_ascii)
    ultimately show ?thesis using e ls(2) True
      by (auto simp: validate_tld_def u_def [symmetric] contains_str_single j(1))
  next
    case False
    have "list_all valid_tld_label (split_on CHR ''.'' u) \<Longrightarrow> tld_grammar u"
      unfolding tld_grammar_def using join_split_on [of "CHR ''.''" u] split_on_not_Nil by metis
    with False show ?thesis by (auto simp: validate_tld_def u_def [symmetric])
  qed
  then show ?thesis by (auto simp: u_def)
qed

lemma managed_tld_iff:
  "host_has_managed_tld host tlds \<longleftrightarrow>
     (\<exists>tld\<in>set tlds. to_ascii_lowercase host = to_ascii_lowercase tld \<or>
        (\<exists>p. to_ascii_lowercase host = p @ ''.'' @ to_ascii_lowercase tld))"
proof -
  have "(case strip_suffix t h of Some rest \<Rightarrow> ends_with ''.'' rest | None \<Rightarrow> False) \<longleftrightarrow>
      (\<exists>p. h = p @ ''.'' @ t)" for t h
  proof (cases "strip_suffix t h")
    case None
    then have "h \<noteq> (p @ ''.'') @ t" for p using strip_suffix_Some by (metis option.distinct(1))
    with None show ?thesis by simp
  next
    case (Some r)
    then have "h = r @ t" by (simp add: strip_suffix_Some)
    then show ?thesis using Some by (auto simp: ends_with_iff)
  qed
  then show ?thesis unfolding host_has_managed_tld_def Let_def list_ex_iff by blast
qed

lemma strip_prefix_marker: "starts_with portman_marker (resolver_file_contents os tld port)"
  by (cases os) (auto simp: resolver_contents_def resolver_contents_for_tld_def starts_with_iff)

lemma resolver_file_name_tld:
  assumes "tld_grammar tld"
  shows "\<exists>name. resolver_path os tld = resolver_dir os @ ''/'' @ name \<and> tld_of_file_name os name = Some tld"
proof -
  obtain ls where ls: "ls \<noteq> []" "list_all valid_tld_label ls" "tld = join_str ''.'' ls"
    using assms by (auto simp: tld_grammar_def)
  note j = tld_labels_joined [OF ls]
  have "[] \<notin> set (split_on CHR ''.'' tld)"
    using ls(2) by (auto simp: j(1) list_all_iff valid_tld_label_def)
  note e = split_on_no_empty [OF this]
  have slash: "CHR ''/'' \<notin> set tld"
    using j(2) [of "CHR ''/''"] by (auto simp: label_char_def ascii_defs)
  show ?thesis
  proof (cases os)
    case Macos
    have "\<not> is_absolute tld" using slash by (auto simp: is_absolute_def starts_with_iff)
    with Macos e show ?thesis by (simp add: path_join_def)
  next
    case Linux
    have "strip_suffix ''.conf'' (tld @ ''.conf'') = Some tld" by (simp add: strip_suffix_Some)
    with Linux show ?thesis
      by (simp add: path_join_def is_absolute_def starts_with_def)
  qed
qed

text \<open>
  Writing the resolver of an accepted TLD makes portman recognise exactly that file as
  its own: the file's contents are classified as managed, a scan of a directory holding the
  file lists the normalised TLD, and removing it again leaves the directory without the file.
\<close>

theorem resolver_written_is_managed:
  assumes "validate_tld s = Inr tld"
  shows "\<exists>name contents. resolver_path os tld = resolver_dir os @ ''/'' @ name \<and>
      write_resolver os None None s port files =
        (Inr (), files(resolver_path os tld \<mapsto> contents)) \<and>
      peek_resolver (Inr contents) = Inr ManagedByPortman \<and>
      scan_managed_tlds os (Inr [(name, Some contents)]) = Inr [tld] \<and>
      remove_resolver os None s (files(resolver_path os tld \<mapsto> contents)) =
        (Inr (), files(resolver_path os tld := None))"
proof -
  have "tld_grammar tld" using assms by (metis validate_tld_iff)
  then obtain name where "resolver_path os tld = resolver_dir os @ ''/'' @ name"
    and "tld_of_file_name os name = Some tld" using resolver_file_name_tld by blast
  then show ?thesis
    using assms strip_prefix_marker [of os tld port]
    by (intro exI [of _ name] exI [of _ "resolver_file_contents os tld port"])
       (simp add: write_resolver_def remove_resolver_def peek_resolver_def scan_managed_tlds_def)
qed

lemma resolver_written_is_managed_witness:
  "\<exists>name contents. resolver_path Linux ''test'' = resolver_dir Linux @ ''/'' @ name \<and>
      write_resolver Linux None None '' Test'' 5300 Map.empty =
        (Inr (), Map.empty(resolver_path Linux ''test'' \<mapsto> contents)) \<and>
      peek_resolver (Inr contents) = Inr ManagedByPortman \<and>
      scan_managed_tlds Linux (Inr [(name, Some contents)]) = Inr [''test''] \<and>
      remove_resolver Linux None '' Test'' (Map.empty(resolver_path Linux ''test'' \<mapsto> contents)) =
        (Inr (), Map.empty(resolver_path Linux ''test'' := None))"
  by (rule resolver_written_is_managed [of "'' Test''"]) code_simp

text \<open>
  A host is routable exactly when, ignoring ASCII case, it is \<open>localhost\<close> or below it, or
  it equals a managed TLD or ends in a dot and a managed TLD; a TLD never covers a name that
  only shares its last characters.
\<close>

theorem host_is_routable_iff:
  "host_is_routable host tlds \<longleftrightarrow>
     (\<exists>tld\<in>set (''localhost'' # tlds).
        to_ascii_lowercase host = to_ascii_lowercase tld \<or>
        (\<exists>p. to_ascii_lowercase host = p @ ''.'' @ to_ascii_lowercase tld))"
proof -
  have "to_ascii_lowercase ''localhost'' = ''localhost''" by code_simp
  then have "host_is_localhost host \<longleftrightarrow> to_ascii_lowercase host = to_ascii_lowercase ''localhost'' \<or>
      (\<exists>p. to_ascii_lowercase host = p @ ''.'' @ to_ascii_lowercase ''localhost'')"
    by (simp only: host_is_localhost_def Let_def ends_with_iff append.simps)
  then show ?thesis
    unfolding host_is_routable_def managed_tld_iff by (metis list.set_intros(1,2) set_ConsD)
qed

end
