(* ===== verification/Registry.thy ===== *)
theory Registry
  imports Hosts "HOL-Library.Multiset"
begin

text \<open>
  The in-memory route table, \<open>portman-core/src/registry.rs\<close>: a hash map from lower-cased
  host to entry behind a lock, so each method is one atomic step. The lemmas show that
  the table is a map in which only built-in routes replace built-in ones, that \<open>lookup\<close> resolves like DNS, and that no result
  depends on the hash map's iteration order.
\<close>

section \<open>The registry\<close>

definition dashboard_host :: string where
  "dashboard_host = ''portman.localhost''"

type_synonym registry = "(string, entry) hmap"

definition registry_upsert :: "entry \<Rightarrow> registry \<Rightarrow> entry option \<times> registry" where
  "registry_upsert entry m =
     (let entry = entry\<lparr>e_host := to_ascii_lowercase (e_host entry)\<rparr>;
          insert = (hm_get m (e_host entry), hm_insert (e_host entry) entry m)
      in case hm_get m (e_host entry) of
           Some existing \<Rightarrow>
             if e_source existing = SourceBuiltin \<and> e_source entry \<noteq> SourceBuiltin
             then (Some existing, m) else insert
         | None \<Rightarrow> insert)"

definition registry_remove :: "string \<Rightarrow> registry \<Rightarrow> entry option \<times> registry" where
  "registry_remove host m =
     (let key = to_ascii_lowercase host in
      case hm_get m key of
        Some entry \<Rightarrow>
          if e_source entry = SourceBuiltin then (None, m) else (Some entry, hm_remove key m)
      | None \<Rightarrow> (None, hm_remove key m))"

text \<open>The loop over the victims' keys: each is removed, and the removed entries collected.\<close>

fun remove_keys :: "string list \<Rightarrow> registry \<Rightarrow> entry list \<times> registry" where
  "remove_keys [] m = ([], m)"
| "remove_keys (k # ks) m =
     (case remove_keys ks (hm_remove k m) of (removed, m') \<Rightarrow>
        (case hm_get m k of Some e \<Rightarrow> e # removed | None \<Rightarrow> removed, m'))"

definition registry_remove_by_container_id :: "string \<Rightarrow> registry \<Rightarrow> entry list \<times> registry" where
  "registry_remove_by_container_id cid m =
     remove_keys (map fst (filter (\<lambda>b. e_container_id (snd b) = Some cid) m)) m"

definition registry_list :: "registry \<Rightarrow> entry list" where
  "registry_list m = map snd m"

definition registry_get :: "registry \<Rightarrow> string \<Rightarrow> entry option" where
  "registry_get m host = hm_get m (to_ascii_lowercase host)"

text \<open>\<open>Iterator::max_by_key\<close>: the last of the elements whose key is largest.\<close>

fun max_by_key :: "('a \<Rightarrow> nat) \<Rightarrow> 'a list \<Rightarrow> 'a option" where
  "max_by_key f [] = None"
| "max_by_key f (x # xs) =
     (case max_by_key f xs of
        None \<Rightarrow> Some x
      | Some y \<Rightarrow> if f x \<le> f y then Some y else Some x)"

definition registry_lookup :: "registry \<Rightarrow> string \<Rightarrow> (string \<times> entry) option" where
  "registry_lookup m host =
     (let key = to_ascii_lowercase host in
      case hm_get m key of
        Some entry \<Rightarrow> Some (key, entry)
      | None \<Rightarrow> max_by_key (\<lambda>b. length (fst b)) (filter (\<lambda>b. wildcard_matches (fst b) key) m))"

definition registry_len :: "registry \<Rightarrow> nat" where
  "registry_len m = length m"

definition registry_is_empty :: "registry \<Rightarrow> bool" where
  "registry_is_empty m \<longleftrightarrow> registry_len m = 0"

text \<open>\<open>by_target.entry(target).or_default().push(host)\<close>, then the groups of two and more.\<close>

definition target_collisions :: "entry list \<Rightarrow> (string \<times> string list) list" where
  "target_collisions entries =
     (let by_target = foldl (\<lambda>m e. bt_insert (e_target e)
            (unwrap_or (bt_get m (e_target e)) [] @ [e_host e]) m) [] entries
      in map (\<lambda>(target, hosts). (target, sort hosts))
           (filter (\<lambda>(target, hosts). length hosts > 1) by_target))"

section \<open>Invariant\<close>

text \<open>Keys are distinct, lower case, and the host of their entry.\<close>

definition registry_ok :: "registry \<Rightarrow> bool" where
  "registry_ok m \<longleftrightarrow> hm_ok m \<and> list_all (\<lambda>(k, e). e_host e = k \<and> to_ascii_lowercase k = k) m"

lemma registry_ok_hm [simp]: "registry_ok m \<Longrightarrow> hm_ok m"
  by (simp add: registry_ok_def)

lemma registry_ok_Nil [simp]: "registry_ok []"
  by (simp add: registry_ok_def)

lemma registry_ok_remove_key [simp]: "registry_ok m \<Longrightarrow> registry_ok (hm_remove k m)"
  by (auto simp: registry_ok_def list_all_iff set_hm_remove)

lemma registry_ok_upsert [inv_intros]: "registry_ok m \<Longrightarrow> registry_ok (snd (registry_upsert e m))"
  by (auto simp: registry_upsert_def Let_def registry_ok_def list_all_iff hm_insert_def set_hm_remove
      hm_ok_remove hm.ok_put [unfolded hm_insert_def] split: option.splits)

lemma registry_ok_remove [inv_intros]: "registry_ok m \<Longrightarrow> registry_ok (snd (registry_remove h m))"
  by (auto simp: registry_remove_def Let_def split: option.splits)

lemma registry_ok_remove_keys: "registry_ok m \<Longrightarrow> registry_ok (snd (remove_keys ks m))"
  by (induction ks arbitrary: m) (auto split: prod.splits, metis registry_ok_remove_key snd_conv)

lemma registry_ok_remove_by_container_id [inv_intros]:
  "registry_ok m \<Longrightarrow> registry_ok (snd (registry_remove_by_container_id i m))"
  by (simp add: registry_remove_by_container_id_def registry_ok_remove_keys)

section \<open>Reads after writes\<close>

definition protected :: "registry \<Rightarrow> string \<Rightarrow> entry \<Rightarrow> bool" where
  "protected m host e \<longleftrightarrow>
     (\<exists>x. registry_get m host = Some x \<and> e_source x = SourceBuiltin \<and> e_source e \<noteq> SourceBuiltin)"

lemma registry_get_upsert [store_laws]:
  assumes "registry_ok m"
  shows "registry_get (snd (registry_upsert e m)) h =
    (if to_ascii_lowercase h = to_ascii_lowercase (e_host e) \<and> \<not> protected m (e_host e) e
     then Some (e\<lparr>e_host := to_ascii_lowercase (e_host e)\<rparr>) else registry_get m h)"
  using assms by (auto simp: registry_upsert_def protected_def registry_get_def Let_def split: option.splits)

lemma registry_get_remove [store_laws]:
  assumes "registry_ok m"
  shows "registry_get (snd (registry_remove g m)) h =
    (if to_ascii_lowercase h = to_ascii_lowercase g \<and>
        \<not> (\<exists>x. registry_get m g = Some x \<and> e_source x = SourceBuiltin)
     then None else registry_get m h)"
  using assms by (auto simp: registry_remove_def registry_get_def Let_def split: option.splits)

lemma remove_keys_get:
  "registry_ok m \<Longrightarrow> hm_get (snd (remove_keys ks m)) k = (if k \<in> set ks then None else hm_get m k)"
proof (induction ks arbitrary: m)
  case (Cons j ks)
  obtain r m' where e: "remove_keys ks (hm_remove j m) = (r, m')" by (cases "remove_keys ks (hm_remove j m)")
  have "hm_get m' k = (if k \<in> set ks then None else hm_get (hm_remove j m) k)"
    using Cons.IH [of "hm_remove j m"] Cons.prems e by simp
  with e Cons.prems show ?case by simp
qed simp

lemma registry_get_remove_by_container_id [store_laws]:
  assumes "registry_ok m"
  shows "registry_get (snd (registry_remove_by_container_id i m)) h =
    (case registry_get m h of Some e \<Rightarrow> (if e_container_id e = Some i then None else Some e) | None \<Rightarrow> None)"
proof -
  have "to_ascii_lowercase h \<in> fst ` set (filter (\<lambda>b. e_container_id (snd b) = Some i) m) \<longleftrightarrow>
      (\<exists>e. hm_get m (to_ascii_lowercase h) = Some e \<and> e_container_id e = Some i)"
    using assms by (force simp: hm_get_iff)
  then show ?thesis
    using assms by (auto simp: registry_get_def registry_remove_by_container_id_def remove_keys_get
        simp del: set_filter split: option.splits)
qed

text \<open>The writing methods as operations; an answer is the set of entries it returns.\<close>

datatype registry_op = RegUpsert entry | RegRemove string | RegRemoveContainer string

fun registry_apply :: "registry_op \<Rightarrow> registry \<Rightarrow> entry set \<times> registry" where
  "registry_apply (RegUpsert e) m = (case registry_upsert e m of (was, m') \<Rightarrow> (set_option was, m'))"
| "registry_apply (RegRemove h) m = (case registry_remove h m of (was, m') \<Rightarrow> (set_option was, m'))"
| "registry_apply (RegRemoveContainer i) m = (case registry_remove_by_container_id i m of (gone, m') \<Rightarrow> (set gone, m'))"

fun registry_run :: "registry_op list \<Rightarrow> registry \<Rightarrow> entry set list \<times> registry" where
  "registry_run [] m = ([], m)"
| "registry_run (p # ps) m =
     (case registry_apply p m of (a, m1) \<Rightarrow> case registry_run ps m1 of (as, m2) \<Rightarrow> (a # as, m2))"

text \<open>The specification: a map from lower-case hosts, with built-in entries that only give way to their kind.\<close>

definition builtin_at :: "(string \<rightharpoonup> entry) \<Rightarrow> string \<Rightarrow> bool" where
  "builtin_at M k \<longleftrightarrow> (case M k of Some x \<Rightarrow> e_source x = SourceBuiltin | None \<Rightarrow> False)"

fun map_apply :: "registry_op \<Rightarrow> (string \<rightharpoonup> entry) \<Rightarrow> entry set \<times> (string \<rightharpoonup> entry)" where
  "map_apply (RegUpsert e) M =
     (let k = to_ascii_lowercase (e_host e) in
      (set_option (M k), if builtin_at M k \<and> e_source e \<noteq> SourceBuiltin then M else M(k \<mapsto> e\<lparr>e_host := k\<rparr>)))"
| "map_apply (RegRemove h) M =
     (let k = to_ascii_lowercase h in if builtin_at M k then ({}, M) else (set_option (M k), M(k := None)))"
| "map_apply (RegRemoveContainer i) M =
     ({x. \<exists>k. M k = Some x \<and> e_container_id x = Some i},
      \<lambda>k. case M k of Some x \<Rightarrow> if e_container_id x = Some i then None else Some x | None \<Rightarrow> None)"

fun map_run :: "registry_op list \<Rightarrow> (string \<rightharpoonup> entry) \<Rightarrow> entry set list \<times> (string \<rightharpoonup> entry)" where
  "map_run [] M = ([], M)"
| "map_run (p # ps) M = (case map_apply p M of (a, M1) \<Rightarrow> case map_run ps M1 of (as, M2) \<Rightarrow> (a # as, M2))"

lemma set_remove_keys:
  "registry_ok m \<Longrightarrow> set (fst (remove_keys ks m)) = {x. \<exists>k \<in> set ks. hm_get m k = Some x}"
proof (induction ks arbitrary: m)
  case (Cons j ks)
  obtain r m' where e: "remove_keys ks (hm_remove j m) = (r, m')" by fastforce
  have "set r = {x. \<exists>k \<in> set ks. hm_get (hm_remove j m) k = Some x}"
    using Cons.IH [of "hm_remove j m"] Cons.prems e by simp
  with e Cons.prems show ?case by (auto split: option.split if_splits) (metis option.distinct(1) option.inject)+
qed simp

lemma registry_apply_refines:
  assumes "registry_ok m"
  shows "registry_ok (snd (registry_apply p m)) \<and>
    map_apply p (hm_get m) = (fst (registry_apply p m), hm_get (snd (registry_apply p m)))"
proof (cases p)
  case (RegUpsert e)
  with registry_ok_upsert [OF assms, of e] show ?thesis using assms
    by (auto simp: registry_upsert_def builtin_at_def Let_def fun_eq_iff split: option.splits)
next
  case (RegRemove h)
  with registry_ok_remove [OF assms, of h] show ?thesis using assms
    by (auto simp: registry_remove_def builtin_at_def Let_def fun_eq_iff split: option.splits)
next
  case (RegRemoveContainer i)
  define ks where "ks = map fst (filter (\<lambda>b. e_container_id (snd b) = Some i) m)"
  have mem: "k \<in> set ks \<longleftrightarrow> (\<exists>x. hm_get m k = Some x \<and> e_container_id x = Some i)" for k
    using assms by (force simp: ks_def hm_get_iff)
  have "registry_apply p m = (set (fst (remove_keys ks m)), snd (remove_keys ks m))"
    by (simp add: RegRemoveContainer registry_remove_by_container_id_def ks_def split: prod.split)
  with registry_ok_remove_keys [OF assms, of ks] set_remove_keys [OF assms, of ks] remove_keys_get [OF assms, of ks]
  show ?thesis by (auto simp: RegRemoveContainer mem fun_eq_iff split: option.splits)
qed

lemma registry_run_refines:
  "registry_ok m \<Longrightarrow> registry_ok (snd (registry_run ps m)) \<and>
    map_run ps (hm_get m) = (fst (registry_run ps m), hm_get (snd (registry_run ps m)))"
proof (induction ps arbitrary: m)
  case (Cons p ps)
  obtain a m1 where one: "registry_apply p m = (a, m1)" by fastforce
  then show ?case using registry_apply_refines [OF Cons.prems, of p] Cons.IH [of m1] by (auto split: prod.split)
qed simp

text \<open>Only a container's removal could take a built-in entry, and none is registered under a container.\<close>

definition builtin_free :: "registry_op \<Rightarrow> bool" where
  "builtin_free p = (case p of RegUpsert e \<Rightarrow> e_source e = SourceBuiltin \<longrightarrow> e_container_id e = None | _ \<Rightarrow> True)"

definition builtin_kept_at :: "(string \<rightharpoonup> entry) \<Rightarrow> string \<Rightarrow> bool" where
  "builtin_kept_at M k \<longleftrightarrow> (\<exists>x. M k = Some x \<and> e_source x = SourceBuiltin \<and> e_container_id x = None)"

lemma map_apply_keeps_builtin: "builtin_kept_at M k \<Longrightarrow> builtin_free p \<Longrightarrow> builtin_kept_at (snd (map_apply p M)) k"
  by (cases p) (auto simp: builtin_kept_at_def builtin_free_def builtin_at_def Let_def)

lemma map_run_keeps_builtin: "list_all builtin_free ps \<Longrightarrow> builtin_kept_at M k \<Longrightarrow> builtin_kept_at (snd (map_run ps M)) k"
proof (induction ps arbitrary: M)
  case (Cons p ps)
  with map_apply_keeps_builtin [of M k p] show ?case by (simp split: prod.split) (metis snd_conv)
qed simp

text \<open>
  C30: The registry implements a map from case-insensitive hosts to entries: over every sequence of
  upserts, removals and removals of a container, from any well-formed table, the answers are those
  of the map and the table reads as the map does, whatever order the hash map iterates in. In that
  map an entry replaces a built-in one only when it is built in itself, and a removal by host spares
  it; a removal by container would take it, so a built-in entry stays for good when it, and every
  built-in entry put in meanwhile, has no container id.
\<close>

theorem registry_refines_map:
  assumes "registry_ok m"
  shows "map_run ps (hm_get m) = (fst (registry_run ps m), hm_get (snd (registry_run ps m))) \<and>
    registry_ok (snd (registry_run ps m)) \<and>
    registry_get (snd (registry_run ps m)) h = snd (map_run ps (hm_get m)) (to_ascii_lowercase h) \<and>
    (list_all builtin_free ps \<and> registry_get m h = Some x \<and> e_source x = SourceBuiltin \<and> e_container_id x = None \<longrightarrow>
       (\<exists>y. registry_get (snd (registry_run ps m)) h = Some y \<and> e_source y = SourceBuiltin))"
proof -
  have "\<exists>y. registry_get (snd (registry_run ps m)) h = Some y \<and> e_source y = SourceBuiltin"
    if "list_all builtin_free ps" "registry_get m h = Some x" "e_source x = SourceBuiltin" "e_container_id x = None"
  proof -
    have "builtin_kept_at (snd (map_run ps (hm_get m))) (to_ascii_lowercase h)"
      using that by (intro map_run_keeps_builtin) (auto simp: builtin_kept_at_def registry_get_def)
    with registry_run_refines [OF assms, of ps] show ?thesis by (auto simp: builtin_kept_at_def registry_get_def)
  qed
  with registry_run_refines [OF assms, of ps] show ?thesis by (simp add: registry_get_def)
qed

definition sample_entry :: entry where
  "sample_entry = \<lparr>e_host = ''portman.localhost'', e_target = ''127.0.0.1:7341'',
     e_source = SourceBuiltin, e_mode = ModeHttp, e_container_id = None, e_project = None, e_egress = None\<rparr>"

lemma registry_refines_map_witness:
  "\<exists>y. registry_get (snd (registry_run [RegUpsert (sample_entry\<lparr>e_source := SourceStatic\<rparr>), RegRemove ''Portman.localhost'',
       RegRemoveContainer ''c1''] [(''portman.localhost'', sample_entry)])) ''Portman.localhost'' = Some y \<and> e_source y = SourceBuiltin"
proof -
  let ?ps = "[RegUpsert (sample_entry\<lparr>e_source := SourceStatic\<rparr>), RegRemove ''Portman.localhost'', RegRemoveContainer ''c1'']"
  have ok: "registry_ok [(''portman.localhost'', sample_entry)]" by code_simp
  have "registry_get [(''portman.localhost'', sample_entry)] ''Portman.localhost'' = Some sample_entry" by code_simp
  moreover have "list_all builtin_free ?ps" "e_source sample_entry = SourceBuiltin" "e_container_id sample_entry = None"
    by (simp_all add: builtin_free_def sample_entry_def)
  ultimately show ?thesis using registry_refines_map [OF ok, of ?ps "''Portman.localhost''" sample_entry] by blast
qed

section \<open>Resolution\<close>

lemma max_by_key_None: "max_by_key f xs = None \<longleftrightarrow> xs = []"
  by (cases xs) (auto split: option.splits)

lemma max_by_key_SomeD:
  "max_by_key f xs = Some x \<Longrightarrow> x \<in> set xs \<and> (\<forall>y\<in>set xs. f y \<le> f x)"
proof (induction xs arbitrary: x)
  case (Cons z xs)
  show ?case
  proof (cases "max_by_key f xs")
    case None
    with Cons.prems show ?thesis by (simp add: max_by_key_None)
  next
    case (Some y)
    with Cons.IH [of y] Cons.prems show ?thesis by (auto split: if_splits)
  qed
qed simp

text \<open>When the key is injective on the list, the maximum does not depend on the order.\<close>

lemma max_by_key_iff:
  assumes "inj_on f (set xs)"
  shows "max_by_key f xs = Some x \<longleftrightarrow> x \<in> set xs \<and> (\<forall>y\<in>set xs. f y \<le> f x)"
proof
  assume x: "x \<in> set xs \<and> (\<forall>y\<in>set xs. f y \<le> f x)"
  then obtain y where y: "max_by_key f xs = Some y" by (cases "max_by_key f xs") (auto simp: max_by_key_None)
  with max_by_key_SomeD [of f xs y] x have "f x = f y" "y \<in> set xs" by (auto intro: le_antisym)
  with assms x y show "max_by_key f xs = Some x" by (simp add: inj_on_def)
qed (rule max_by_key_SomeD)

definition best_match :: "registry \<Rightarrow> string \<Rightarrow> string \<Rightarrow> entry \<Rightarrow> bool" where
  "best_match m key k e \<longleftrightarrow>
     (k, e) \<in> set m \<and> wildcard_matches k key \<and>
     list_all (\<lambda>b. wildcard_matches (fst b) key \<longrightarrow> length (fst b) \<le> length k) m"

lemma wildcard_length_inj:
  assumes "hm_ok m"
  shows "inj_on (\<lambda>b. length (fst b)) (set (filter (\<lambda>b. wildcard_matches (fst b) key) m))"
proof (rule inj_onI)
  fix b c
  assume b: "b \<in> set (filter (\<lambda>b. wildcard_matches (fst b) key) m)"
    and c: "c \<in> set (filter (\<lambda>b. wildcard_matches (fst b) key) m)"
    and "length (fst b) = length (fst c)"
  then have "fst b = fst c" using wildcard_matches_length_unique [of "fst b" key "fst c"] by simp
  moreover have "inj_on fst (set m)" using assms by (simp add: hm_ok_def distinct_map)
  ultimately show "b = c" using b c by (auto simp: inj_on_def)
qed

lemma registry_lookup_iff:
  assumes "hm_ok m"
  shows "registry_lookup m h = Some (k, e) \<longleftrightarrow>
    (case hm_get m (to_ascii_lowercase h) of
       Some x \<Rightarrow> k = to_ascii_lowercase h \<and> e = x
     | None \<Rightarrow> best_match m (to_ascii_lowercase h) k e)"
proof (cases "hm_get m (to_ascii_lowercase h)")
  case None
  then show ?thesis
    using max_by_key_iff [OF wildcard_length_inj [OF assms, of "to_ascii_lowercase h"], of "(k, e)"]
    by (auto simp: registry_lookup_def best_match_def list_all_iff)
qed (auto simp: registry_lookup_def)

text \<open>
  \<open>lookup\<close> resolves a name as DNS does: the entry of exactly that host if there is one,
  else the entry of the longest wildcard that covers it with one label, else nothing; and
  the answer does not depend on the iteration order of the hash map.
\<close>

theorem registry_lookup_resolves:
  assumes "registry_ok m" and "mset m' = mset m"
  shows "(registry_lookup m h = Some (k, e) \<longleftrightarrow>
      (case registry_get m h of
         Some x \<Rightarrow> k = to_ascii_lowercase h \<and> e = x
       | None \<Rightarrow> best_match m (to_ascii_lowercase h) k e)) \<and>
    registry_lookup m' h = registry_lookup m h"
proof -
  have set: "set m' = set m" using assms(2) by (metis set_mset_mset)
  have "mset (map fst m') = mset (map fst m)" by (simp add: assms(2))
  then have ok: "hm_ok m" "hm_ok m'"
    using assms(1) mset_eq_imp_distinct_iff registry_ok_hm unfolding hm_ok_def by blast+
  have "registry_lookup m' h = Some (k, e) \<longleftrightarrow> registry_lookup m h = Some (k, e)" for k e
    using hm_get_permute [OF ok(2,1) set, of "to_ascii_lowercase h"]
    by (cases "hm_get m (to_ascii_lowercase h)")
       (simp_all add: registry_lookup_iff ok best_match_def list_all_iff set)
  then have "registry_lookup m' h = registry_lookup m h"
    by (cases "registry_lookup m h"; cases "registry_lookup m' h") auto
  then show ?thesis by (simp add: registry_lookup_iff ok registry_get_def)
qed

lemma registry_lookup_resolves_witness:
  "registry_lookup [(''*.demo.acme.test'', sample_entry\<lparr>e_host := ''*.demo.acme.test''\<rparr>),
      (''*.acme.test'', sample_entry\<lparr>e_host := ''*.acme.test''\<rparr>)] ''a.demo.Acme.test'' =
   Some (''*.demo.acme.test'', sample_entry\<lparr>e_host := ''*.demo.acme.test''\<rparr>)"
proof -
  let ?f = "\<lambda>h. (h, sample_entry\<lparr>e_host := h\<rparr>)"
  let ?m = "[?f ''*.acme.test'', ?f ''*.demo.acme.test'']"
  have "registry_lookup [?f ''*.demo.acme.test'', ?f ''*.acme.test''] ''a.demo.Acme.test'' =
      registry_lookup ?m ''a.demo.Acme.test''"
    by (rule registry_lookup_resolves [THEN conjunct2]) (code_simp, simp)
  also have "registry_lookup ?m ''a.demo.Acme.test'' = Some (?f ''*.demo.acme.test'')"
    by code_simp
  finally show ?thesis .
qed

section \<open>Targets claimed twice\<close>

lemma group_by_target:
  fixes entries :: "entry list"
  defines "step \<equiv> \<lambda>m e. bt_insert (e_target e) (unwrap_or (bt_get m (e_target e)) [] @ [e_host e]) m"
  assumes "bt_ok m"
  shows "bt_ok (foldl step m entries) \<and>
    unwrap_or (bt_get (foldl step m entries) t) [] =
      unwrap_or (bt_get m t) [] @ map e_host (filter (\<lambda>e. e_target e = t) entries)"
  using assms(2)
proof (induction entries arbitrary: m)
  case (Cons e es)
  have "bt_ok (step m e)" using Cons.prems by (simp add: step_def)
  from Cons.IH [OF this] show ?case using Cons.prems by (auto simp: step_def)
qed simp

text \<open>
  \<open>target_collisions\<close> reports exactly the targets that two or more entries claim, each
  once and in ascending order, with every claiming host in ascending order.
\<close>

theorem target_collisions_exact:
  "sorted_wrt (<) (map fst (target_collisions entries)) \<and>
   ((t, hs) \<in> set (target_collisions entries) \<longleftrightarrow>
      1 < length (filter (\<lambda>e. e_target e = t) entries) \<and>
      hs = sort (map e_host (filter (\<lambda>e. e_target e = t) entries)))"
proof -
  define step where "step = (\<lambda>m (e :: entry). bt_insert (e_target e) (unwrap_or (bt_get m (e_target e)) [] @ [e_host e]) m)"
  define groups where "groups = foldl step [] entries"
  have ok: "bt_ok groups" and get: "unwrap_or (bt_get groups u) [] = map e_host (filter (\<lambda>e. e_target e = u) entries)" for u
    using group_by_target [of "[]" entries] by (simp_all add: groups_def step_def)
  have tc: "target_collisions entries =
      map (\<lambda>(t, hs). (t, sort hs)) (filter (\<lambda>(t, hs). length hs > 1) groups)"
    by (simp add: target_collisions_def groups_def step_def)
  have "map fst (target_collisions entries) = map fst (filter (\<lambda>(t, hs). length hs > 1) groups)"
    by (simp add: tc case_prod_beta comp_def)
  then have "sorted_wrt (<) (map fst (target_collisions entries))"
    using bt_ok_filter [OF ok] by (simp add: bt_ok_def)
  moreover have "(t, g) \<in> set groups \<and> 1 < length g \<longleftrightarrow>
      g = map e_host (filter (\<lambda>e. e_target e = t) entries) \<and> 1 < length g" for g
    using get [of t] bt_get_iff [OF ok, of t g] by (cases "bt_get groups t") auto
  moreover have "(t, hs) \<in> set (target_collisions entries) \<longleftrightarrow>
      (\<exists>g. ((t, g) \<in> set groups \<and> 1 < length g) \<and> hs = sort g)"
    unfolding tc by auto
  ultimately show ?thesis by (simp only:) (simp add: conj_commute)
qed

end
