(* ===== verification/Loopback.thy ===== *)
theory Loopback
  imports BTree
begin

text \<open>
  The loopback addresses of TCP hosts, \<open>portman-core/src/loopback_alloc.rs\<close>. Addresses are
  32-bit words. The search for a free address is an unbounded loop in the source, so it is a
  partial function here: not returning is \<open>None\<close>, and the theorems show when it returns.
\<close>

section \<open>The allocator\<close>

definition first_addr :: u32 where
  "first_addr = 0x7F000002"

type_synonym loopback_map = "(string, u32) hmap"

text \<open>The step from one candidate to the next.\<close>

definition next_candidate :: "u32 \<Rightarrow> u32" where
  "next_candidate candidate =
     (let c = candidate + 1 in if drop_bit 24 c \<noteq> 127 then first_addr else c)"

definition usable :: "u32 list \<Rightarrow> u32 \<Rightarrow> bool" where
  "usable taken candidate \<longleftrightarrow>
     (let last = and candidate 0xFF in last \<noteq> 0 \<and> last \<noteq> 255 \<and> candidate \<notin> set taken)"

partial_function (option) next_free_from :: "u32 list \<Rightarrow> u32 \<Rightarrow> u32 option" where
  "next_free_from taken candidate =
     (if usable taken candidate then Some candidate
      else next_free_from taken (next_candidate candidate))"

declare next_free_from.simps [code]

definition next_free :: "loopback_map \<Rightarrow> u32 option" where
  "next_free m = next_free_from (map snd m) first_addr"

definition loopback_get :: "loopback_map \<Rightarrow> string \<Rightarrow> u32 option" where
  "loopback_get m host = hm_get m host"

definition get_or_assign :: "string \<Rightarrow> loopback_map \<Rightarrow> (u32 \<times> loopback_map) option" where
  "get_or_assign host m =
     (case hm_get m host of
        Some ip \<Rightarrow> Some (ip, m)
      | None \<Rightarrow> (case next_free m of
            Some ip \<Rightarrow> Some (ip, hm_insert host ip m)
          | None \<Rightarrow> None))"

section \<open>The search returns the lowest free address\<close>

definition in_range :: "u32 \<Rightarrow> bool" where
  "in_range a \<longleftrightarrow> first_addr \<le> a \<and> a \<le> 0x7FFFFFFF"

lemma first_addr_unat: "unat first_addr = 0x7F000002"
  by (simp add: first_addr_def)

lemma next_candidate_step:
  assumes "unat c < 0x7FFFFFFF" and "0x7F000002 \<le> unat c"
  shows "unat (next_candidate c) = unat c + 1"
proof -
  have u: "unat (c + 1) = unat c + 1"
    using assms(1) by (subst unat_add_lem [THEN iffD1]) auto
  have "unat (drop_bit 24 (c + 1)) = (unat c + 1) div 2 ^ 24"
    by (simp add: drop_bit_eq_div unat_div u)
  moreover have "(unat c + 1) div 2 ^ 24 = 127" using assms by simp
  ultimately have "drop_bit 24 (c + 1) = 127" by (simp add: word_unat_eq_iff)
  then show ?thesis by (simp add: next_candidate_def u)
qed

text \<open>
  If some usable address lies at or above the candidate, the loop returns the lowest one.
\<close>

lemma next_free_from_finds:
  assumes "usable taken a" and "unat c \<le> unat a" and "unat a \<le> 0x7FFFFFFF" and "0x7F000002 \<le> unat c"
  shows "\<exists>r. next_free_from taken c = Some r \<and> usable taken r \<and> unat c \<le> unat r \<and> unat r \<le> unat a \<and>
    (\<forall>b. unat c \<le> unat b \<and> unat b < unat r \<longrightarrow> \<not> usable taken b)"
  using assms
proof (induction "unat a - unat c" arbitrary: c rule: less_induct)
  case less
  show ?case
  proof (cases "usable taken c")
    case True
    then show ?thesis using less.prems by (auto simp: next_free_from.simps [of taken c])
  next
    case False
    with less.prems have lt: "unat c < unat a" by (metis le_neq_implies_less word_unat_eq_iff)
    with less.prems have n: "unat (next_candidate c) = unat c + 1" by (simp add: next_candidate_step)
    have "\<exists>r. next_free_from taken (next_candidate c) = Some r \<and> usable taken r \<and>
        unat (next_candidate c) \<le> unat r \<and> unat r \<le> unat a \<and>
        (\<forall>b. unat (next_candidate c) \<le> unat b \<and> unat b < unat r \<longrightarrow> \<not> usable taken b)"
      by (rule less.hyps) (use less.prems lt n in simp_all)
    then obtain r where r: "next_free_from taken (next_candidate c) = Some r" "usable taken r"
      "unat c + 1 \<le> unat r" "unat r \<le> unat a"
      "\<forall>b. unat c + 1 \<le> unat b \<and> unat b < unat r \<longrightarrow> \<not> usable taken b" unfolding n by blast
    have "\<not> usable taken b" if "unat c \<le> unat b" "unat b < unat r" for b
    proof (cases "unat b = unat c")
      case True
      with False show ?thesis by (simp add: word_unat_eq_iff [symmetric])
    qed (use that r(5) in simp)
    with r False show ?thesis by (auto simp: next_free_from.simps [of taken c])
  qed
qed

section \<open>Room for every host\<close>

text \<open>
  The addresses \<open>127.x.y.z\<close> with \<open>2 \<le> z \<le> 254\<close>: 16,580,608 of them are in range and usable
  unless taken.
\<close>

definition host_addr :: "nat \<times> nat \<Rightarrow> u32" where
  "host_addr p = word_of_nat (0x7F000000 + fst p * 256 + snd p)"

lemma unat_host_addr:
  "hi < 65536 \<Longrightarrow> z < 256 \<Longrightarrow> unat (host_addr (hi, z)) = 0x7F000000 + hi * 256 + z"
  by (simp only: host_addr_def fst_conv snd_conv unat_of_nat) simp

lemma last_octet: "unat (and c (0xFF :: u32)) = unat c mod 256"
proof -
  have "and c (0xFF :: u32) = take_bit 8 c"
    by (simp add: take_bit_eq_mask mask_eq_exp_minus_1)
  then show ?thesis by (simp add: take_bit_eq_mod unat_mod)
qed

lemma usable_iff:
  "usable taken c \<longleftrightarrow> unat c mod 256 \<noteq> 0 \<and> unat c mod 256 \<noteq> 255 \<and> c \<notin> set taken"
proof -
  have "and c (0xFF :: u32) = 0 \<longleftrightarrow> unat c mod 256 = 0" "and c (0xFF :: u32) = 255 \<longleftrightarrow> unat c mod 256 = 255"
    using last_octet [of c] by (auto simp: word_unat_eq_iff)
  then show ?thesis by (simp add: usable_def)
qed

lemma usable_host_addr:
  "hi < 65536 \<Longrightarrow> 2 \<le> z \<Longrightarrow> z \<le> 254 \<Longrightarrow> usable taken (host_addr (hi, z)) \<longleftrightarrow> host_addr (hi, z) \<notin> set taken"
proof -
  assume b: "hi < 65536" "2 \<le> z" "z \<le> 254"
  have "2130706432 + hi * 256 + z = z + (8323072 + hi) * 256" by simp
  then have "(2130706432 + hi * 256 + z) mod 256 = z" using b(3) by (simp only: mod_mult_self1) simp
  with b show ?thesis by (simp add: usable_iff unat_host_addr)
qed

lemma exists_free:
  assumes "length taken < 16580608"
  shows "\<exists>a. usable taken a \<and> 0x7F000002 \<le> unat a \<and> unat a \<le> 0x7FFFFFFF"
proof -
  let ?P = "{0..<65536} \<times> {2..254::nat}"
  have "inj_on host_addr ?P"
  proof (rule inj_onI)
    fix p q assume "p \<in> ?P" "q \<in> ?P" and eq: "host_addr p = host_addr q"
    then obtain h z k y where p: "p = (h, z)" "q = (k, y)" and b: "h < 65536" "z < 256" "k < 65536" "y < 256"
      by (cases p; cases q) (simp add: mem_Times_iff)
    have "h * 256 + z = k * 256 + y"
      using arg_cong [OF eq, of unat] b by (simp add: p unat_host_addr)
    moreover from this have "(z + h * 256) mod 256 = (y + k * 256) mod 256" by (simp add: add.commute)
    then have "z = y" using b(2,4) by (simp only: mod_mult_self1) simp
    ultimately show "p = q" by (simp add: p)
  qed
  then have "card (host_addr ` ?P) = 16580608"
    by (simp add: card_image card_cartesian_product)
  moreover have "card (set taken) < 16580608" using assms card_length [of taken] by simp
  ultimately have "\<not> host_addr ` ?P \<subseteq> set taken"
    by (metis List.finite_set card_mono not_less)
  then obtain h z where "h < 65536" "2 \<le> z" "z \<le> 254" and f: "host_addr (h, z) \<notin> set taken" by fastforce
  then show ?thesis
    by (intro exI [of _ "host_addr (h, z)"]) (simp add: usable_host_addr unat_host_addr)
qed

lemma next_free_returns:
  assumes "length m < 16580608"
  shows "\<exists>r. next_free m = Some r \<and> in_range r \<and> usable (map snd m) r"
proof -
  obtain a where a: "usable (map snd m) a" "0x7F000002 \<le> unat a" "unat a \<le> 0x7FFFFFFF"
    using exists_free [of "map snd m"] assms by auto
  then show ?thesis
    using next_free_from_finds [of "map snd m" a first_addr]
    by (auto simp: next_free_def first_addr_unat in_range_def word_le_nat_alt)
qed

section \<open>The allocation table\<close>

text \<open>Distinct hosts, distinct addresses, all in \<open>127.0.0.2\<close> to \<open>127.255.255.254\<close>.\<close>

definition loopback_ok :: "loopback_map \<Rightarrow> bool" where
  "loopback_ok m \<longleftrightarrow> hm_ok m \<and> distinct (map snd m) \<and>
     list_all (\<lambda>b. in_range (snd b) \<and> usable [] (snd b)) m"

lemma loopback_ok_insert:
  assumes "loopback_ok m" and "hm_get m host = None" and "in_range ip" and "usable (map snd m) ip"
  shows "loopback_ok (hm_insert host ip m)"
proof -
  have "hm_remove host m = m"
    using assms(2) by (force simp: hm_remove_def hm_get_None filter_id_conv)
  then show ?thesis using assms
    by (fastforce simp: loopback_ok_def hm_insert_def hm_ok_def hm_get_None usable_iff)
qed

text \<open>
  As long as fewer than 16,580,608 hosts are known, \<open>get_or_assign\<close> returns: the address
  the host already has, or else a free one inside 127.0.0.2--127.255.255.254 whose last octet
  is neither 0 nor 255; the table keeps one address per host and one host per address,
  the addresses of other hosts do not change, and asking again gives the same address.
\<close>

theorem get_or_assign_correct:
  assumes "loopback_ok m" and "length m < 16580608"
  shows "\<exists>ip m'. get_or_assign host m = Some (ip, m') \<and> loopback_ok m' \<and> in_range ip \<and> usable [] ip \<and>
    loopback_get m' host = Some ip \<and>
    (\<forall>h. h = host \<or> loopback_get m' h = loopback_get m h) \<and>
    (\<forall>h. loopback_get m h = None \<or> loopback_get m' h = loopback_get m h) \<and>
    (\<forall>h. loopback_get m' h = Some ip \<longleftrightarrow> h = host) \<and>
    get_or_assign host m' = Some (ip, m')"
proof -
  have uniq: "h = host" if "loopback_ok n" "hm_get n host = Some ip" "hm_get n h = Some ip" for n ip h
  proof -
    have "(host, ip) \<in> set n" "(h, ip) \<in> set n" "inj_on snd (set n)"
      using that by (auto simp: loopback_ok_def hm_get_iff distinct_map)
    then show ?thesis by (metis inj_onD prod.inject snd_conv)
  qed
  have ok: "hm_ok m" using assms(1) by (simp add: loopback_ok_def)
  show ?thesis
  proof (cases "hm_get m host")
    case (Some ip)
    then have "in_range ip \<and> usable [] ip"
      using assms(1) ok by (auto simp: loopback_ok_def hm_get_iff list_all_iff)
    moreover have "\<forall>h. loopback_get m h = Some ip \<longleftrightarrow> h = host"
      unfolding loopback_get_def by (metis Some uniq [OF assms(1) Some])
    moreover have "get_or_assign host m = Some (ip, m)" "loopback_get m host = Some ip"
      using Some by (simp_all add: get_or_assign_def loopback_get_def)
    ultimately show ?thesis using assms(1) by blast
  next
    case None
    obtain ip where ip: "next_free m = Some ip" "in_range ip" "usable (map snd m) ip"
      using next_free_returns assms(2) by blast
    define m' where "m' = hm_insert host ip m"
    have ok': "loopback_ok m'"
      unfolding m'_def by (rule loopback_ok_insert [OF assms(1) None ip(2,3)])
    have get: "hm_get m' h = (if h = host then Some ip else hm_get m h)" for h
      unfolding m'_def by (rule hm.get_put [OF ok])
    have "usable [] ip" using ip(3) by (simp add: usable_iff)
    moreover have "get_or_assign host m = Some (ip, m')"
      using None ip(1) by (simp add: get_or_assign_def m'_def)
    moreover have "get_or_assign host m' = Some (ip, m')"
      by (simp add: get_or_assign_def get)
    moreover have "\<forall>h. h = host \<or> loopback_get m' h = loopback_get m h"
      "\<forall>h. loopback_get m h = None \<or> loopback_get m' h = loopback_get m h"
      using get None by (simp_all add: loopback_get_def)
    moreover have "loopback_get m' host = Some ip" using get by (simp add: loopback_get_def)
    moreover have "\<forall>h. loopback_get m' h = Some ip \<longleftrightarrow> h = host"
      unfolding loopback_get_def
    proof (intro allI iffI)
      fix h assume h: "hm_get m' h = Some ip"
      have "hm_get m' host = Some ip" using get by simp
      from uniq [OF ok' this h] show "h = host" .
    qed (simp add: get)
    ultimately show ?thesis using ok' ip(2) by (intro exI [of _ ip] exI [of _ m'] conjI)
  qed
qed

lemma get_or_assign_correct_witness:
  "\<exists>ip m'. get_or_assign ''pg.test'' [(''db.test'', 0x7F000002)] = Some (ip, m') \<and> loopback_ok m' \<and>
    in_range ip \<and> usable [] ip \<and> loopback_get m' ''pg.test'' = Some ip \<and>
    (\<forall>h. h = ''pg.test'' \<or> loopback_get m' h = loopback_get [(''db.test'', 0x7F000002)] h) \<and>
    (\<forall>h. loopback_get [(''db.test'', 0x7F000002)] h = None \<or>
         loopback_get m' h = loopback_get [(''db.test'', 0x7F000002)] h) \<and>
    (\<forall>h. loopback_get m' h = Some ip \<longleftrightarrow> h = ''pg.test'') \<and>
    get_or_assign ''pg.test'' m' = Some (ip, m')"
  by (rule get_or_assign_correct) (code_simp, simp)

end
