(* ===== verification/Atomic_Json.thy ===== *)
theory Atomic_Json
  imports Rust_Text "HOL-Library.Sublist"
begin

text \<open>
  The atomic file writer, \<open>portman-core/src/atomic_json.rs\<close>. The file system has a live view
  and the view the directory had when it was last synced; a file knows whether its data was
  synced. A write is the list of file-system operations it executed, so that a crash is a
  prefix of the list. Each call's outcome comes from the environment \<open>io_env\<close>.
\<close>

section \<open>Files\<close>

record fs_file =
  f_data :: string
  f_synced :: bool
  f_mode :: "u32 option"

record fs =
  fs_live :: "path \<rightharpoonup> fs_file"
  fs_dir :: "path \<rightharpoonup> fs_file"  \<comment> \<open>directory entries as of the last directory sync\<close>
  fs_seq :: u64

datatype fs_op =
  OpOpen path "u32 option" | OpWrite path string | OpSync path | OpRename path path
| OpSyncDir path | OpRemove path

text \<open>
  \<open>open\<close> with create and truncate keeps the mode of an existing file; a file's name, data and
  sync flag move together in a rename. \<open>OpSyncDir\<close> makes all current entries durable.
\<close>

fun apply_op :: "fs_op \<Rightarrow> fs \<Rightarrow> fs" where
  "apply_op (OpOpen p md) s =
     s\<lparr>fs_live := (fs_live s)(p \<mapsto> \<lparr>f_data = [], f_synced = False,
        f_mode = (case fs_live s p of Some f \<Rightarrow> f_mode f | None \<Rightarrow> md)\<rparr>)\<rparr>"
| "apply_op (OpWrite p d) s =
     (case fs_live s p of
        Some f \<Rightarrow> s\<lparr>fs_live := (fs_live s)(p \<mapsto> f\<lparr>f_data := f_data f @ d, f_synced := False\<rparr>)\<rparr>
      | None \<Rightarrow> s)"
| "apply_op (OpSync p) s =
     (case fs_live s p of
        Some f \<Rightarrow> s\<lparr>fs_live := (fs_live s)(p \<mapsto> f\<lparr>f_synced := True\<rparr>)\<rparr>
      | None \<Rightarrow> s)"
| "apply_op (OpRename p q) s =
     (case fs_live s p of
        Some f \<Rightarrow> s\<lparr>fs_live := ((fs_live s)(p := None))(q \<mapsto> f)\<rparr>
      | None \<Rightarrow> s)"
| "apply_op (OpSyncDir d) s = s\<lparr>fs_dir := fs_live s\<rparr>"
| "apply_op (OpRemove p) s = s\<lparr>fs_live := (fs_live s)(p := None)\<rparr>"

definition apply_ops :: "fs_op list \<Rightarrow> fs \<Rightarrow> fs" where
  "apply_ops ops s = foldl (\<lambda>s op. apply_op op s) s ops"

text \<open>What a crash may leave of a file: all of it if synced, else any prefix.\<close>

definition may_survive :: "fs_file \<Rightarrow> string \<Rightarrow> bool" where
  "may_survive f d \<longleftrightarrow> (if f_synced f then d = f_data f else prefix d (f_data f))"

section \<open>The writer\<close>

datatype io_step =
  StepCreateDir | StepOpen | StepWrite | StepSync | StepRename | StepOpenDir | StepSyncDir | StepRemove

record io_env =
  io_ok :: "io_step \<Rightarrow> bool"
  io_partial :: nat  \<comment> \<open>bytes written by a write that fails\<close>
  io_pid :: nat

datatype write_error =
  WriteNoParent | WriteCreateDir | WriteNoFileName | WriteSerialize | WriteOpen | WriteData
| WriteSync | WriteRename | WriteOpenDir | WriteSyncDir

text \<open>
  \<open>Path::file_name\<close> and \<open>Path::parent\<close> of paths without a trailing slash or \<open>.\<close> component.
\<close>

definition path_file_name :: "path \<Rightarrow> string option" where
  "path_file_name p =
     (let n = (case rsplit_once CHR ''/'' p of Some (_, n) \<Rightarrow> n | None \<Rightarrow> p)
      in if n = [] \<or> n = ''.'' \<or> n = ''..'' then None else Some n)"

definition path_parent :: "path \<Rightarrow> path option" where
  "path_parent p =
     (case rsplit_once CHR ''/'' p of
        Some (a, n) \<Rightarrow> if a = [] then (if n = [] then None else Some ''/'') else Some a
      | None \<Rightarrow> if p = [] then None else Some [])"

definition tmp_name :: "string \<Rightarrow> nat \<Rightarrow> u64 \<Rightarrow> string" where
  "tmp_name file_name pid seq =
     ''.'' @ file_name @ ''.'' @ show_nat pid @ ''.'' @ show_nat (unat seq) @ ''.tmp''"

text \<open>The closure of \<open>atomic_write_json_impl\<close>: its result and the operations it executed.\<close>

definition write_and_rename ::
  "io_env \<Rightarrow> path \<Rightarrow> path \<Rightarrow> path \<Rightarrow> string \<Rightarrow> u32 option \<Rightarrow> bool \<Rightarrow> (write_error + unit) \<times> fs_op list" where
  "write_and_rename env parent tmp path bytes md durable =
     (if \<not> io_ok env StepOpen then (Inl WriteOpen, [])
      else if \<not> io_ok env StepWrite
      then (Inl WriteData, [OpOpen tmp md, OpWrite tmp (take (io_partial env) bytes)])
      else if \<not> io_ok env StepSync then (Inl WriteSync, [OpOpen tmp md, OpWrite tmp bytes])
      else if \<not> io_ok env StepRename
      then (Inl WriteRename, [OpOpen tmp md, OpWrite tmp bytes, OpSync tmp])
      else
        let ops = [OpOpen tmp md, OpWrite tmp bytes, OpSync tmp, OpRename tmp path] in
        if durable then
          (if \<not> io_ok env StepOpenDir then (Inl WriteOpenDir, ops)
           else if \<not> io_ok env StepSyncDir then (Inl WriteSyncDir, ops)
           else (Inr (), ops @ [OpSyncDir parent]))
        else
          (Inr (), if io_ok env StepOpenDir \<and> io_ok env StepSyncDir
                   then ops @ [OpSyncDir parent] else ops))"

text \<open>
  \<open>bytes\<close> is the result of \<open>serde_json::to_vec_pretty\<close>; the sequence number is taken before it.
\<close>

definition atomic_write_ops ::
  "io_env \<Rightarrow> u64 \<Rightarrow> path \<Rightarrow> string option \<Rightarrow> u32 option \<Rightarrow> bool \<Rightarrow> (write_error + unit) \<times> fs_op list" where
  "atomic_write_ops env seq path bytes md durable =
     (case path_parent path of
        None \<Rightarrow> (Inl WriteNoParent, [])
      | Some parent \<Rightarrow>
          if \<not> io_ok env StepCreateDir then (Inl WriteCreateDir, [])
          else (case path_file_name path of
            None \<Rightarrow> (Inl WriteNoFileName, [])
          | Some file_name \<Rightarrow>
              let tmp = path_join parent (tmp_name file_name (io_pid env) seq) in
              (case bytes of
                 None \<Rightarrow> (Inl WriteSerialize, [])
               | Some bytes \<Rightarrow>
                   (case write_and_rename env parent tmp path bytes md durable of
                      (Inr u, ops) \<Rightarrow> (Inr u, ops)
                    | (Inl e, ops) \<Rightarrow>
                        (Inl e, ops @ (if io_ok env StepRemove then [OpRemove tmp] else []))))))"

definition takes_seq :: "io_env \<Rightarrow> path \<Rightarrow> bool" where
  "takes_seq env path \<longleftrightarrow> path_parent path \<noteq> None \<and> io_ok env StepCreateDir \<and> path_file_name path \<noteq> None"

definition atomic_write_json_impl ::
  "io_env \<Rightarrow> path \<Rightarrow> string option \<Rightarrow> u32 option \<Rightarrow> bool \<Rightarrow> fs \<Rightarrow> (write_error + unit) \<times> fs" where
  "atomic_write_json_impl env path bytes md durable s =
     (case atomic_write_ops env (fs_seq s) path bytes md durable of
        (r, ops) \<Rightarrow>
          (r, apply_ops ops (if takes_seq env path then s\<lparr>fs_seq := fs_seq s + 1\<rparr> else s)))"

definition atomic_write_json :: "io_env \<Rightarrow> path \<Rightarrow> string option \<Rightarrow> fs \<Rightarrow> (write_error + unit) \<times> fs" where
  "atomic_write_json env path bytes s = atomic_write_json_impl env path bytes None False s"

definition atomic_write_json_with_mode ::
  "io_env \<Rightarrow> path \<Rightarrow> string option \<Rightarrow> u32 \<Rightarrow> fs \<Rightarrow> (write_error + unit) \<times> fs" where
  "atomic_write_json_with_mode env path bytes md s = atomic_write_json_impl env path bytes (Some md) False s"

definition atomic_write_json_durable ::
  "io_env \<Rightarrow> path \<Rightarrow> string option \<Rightarrow> u32 \<Rightarrow> fs \<Rightarrow> (write_error + unit) \<times> fs" where
  "atomic_write_json_durable env path bytes md s = atomic_write_json_impl env path bytes (Some md) True s"

section \<open>The temporary file is another file\<close>

lemma tmp_name_relative: "\<not> is_absolute (tmp_name n p q)"
  by (simp add: tmp_name_def is_absolute_def starts_with_def)

lemma length_tmp_name: "length (tmp_name n p q) \<ge> length n + 8"
  by (cases "show_nat p"; cases "show_nat (unat q)") (simp_all add: tmp_name_def)

lemma tmp_not_path:
  assumes "path_parent path = Some parent" and "path_file_name path = Some name"
  shows "path_join parent (tmp_name name p q) \<noteq> path"
proof -
  have "length path \<le> length parent + 1 + length name"
    using assms
    by (auto simp: path_parent_def path_file_name_def Let_def rsplit_once_Some
        split: option.splits if_splits)
  moreover have "length (path_join parent (tmp_name name p q)) \<ge> length parent + length name + 8"
    using length_tmp_name [of name p q] tmp_name_relative [of name p q]
    by (simp add: path_join_def)
  ultimately show ?thesis by (intro notI) simp
qed

text \<open>Two writes of one process use different temporary files.\<close>

lemma show_nat_inj: "show_nat m = show_nat n \<Longrightarrow> m = n"
  using digits_value_show_nat by (metis option.inject)

lemma tmp_name_inj: "tmp_name n p q = tmp_name n p r \<Longrightarrow> q = r"
  by (auto simp: tmp_name_def word_unat_eq_iff dest: show_nat_inj)

section \<open>Crashes\<close>

text \<open>
  In every state the writer passes through, the target is the file it was or a synced file
  with all the new bytes, in the live directory; the durable directory has one of the two or
  what it had before.
\<close>

definition new_file :: "string \<Rightarrow> u32 option \<Rightarrow> fs_file" where
  "new_file bytes md = \<lparr>f_data = bytes, f_synced = True, f_mode = md\<rparr>"

definition target_states :: "path \<Rightarrow> string \<Rightarrow> u32 option \<Rightarrow> fs \<Rightarrow> fs \<Rightarrow> bool" where
  "target_states path bytes md s0 s \<longleftrightarrow>
     fs_live s path \<in> {fs_live s0 path, Some (new_file bytes md)} \<and>
     fs_dir s path \<in> {fs_dir s0 path, fs_live s0 path, Some (new_file bytes md)}"

lemma apply_ops_append: "apply_ops (a @ b) s = apply_ops b (apply_ops a s)"
  by (simp add: apply_ops_def)

lemma apply_ops_simps [simp]:
  "apply_ops [] s = s" "apply_ops (op # ops) s = apply_ops ops (apply_op op s)"
  by (simp_all add: apply_ops_def)

lemma take_Cons_cases: "n = 0 \<or> (\<exists>m. n = Suc m \<and> take n (x # xs) = x # take m xs)"
  by (cases n) auto

lemma write_and_rename_states:
  assumes "tmp \<noteq> path" and "fs_live s0 tmp = None"
    and "write_and_rename env parent tmp path bytes md durable = (r, ops)"
  shows "target_states path bytes md s0 (apply_ops (take n ops) s0)"
proof -
  consider "n = 0" | "n = 1" | "n = 2" | "n = 3" | "n = 4" | "n \<ge> 5" by linarith
  then show ?thesis using assms
    by cases
      (auto simp: write_and_rename_def Let_def target_states_def new_file_def numeral_eq_Suc split: if_splits)
qed

definition tmp_path :: "io_env \<Rightarrow> path \<Rightarrow> u64 \<Rightarrow> path" where
  "tmp_path env path seq =
     (case (path_parent path, path_file_name path) of
        (Some parent, Some name) \<Rightarrow> path_join parent (tmp_name name (io_pid env) seq)
      | _ \<Rightarrow> path @ ''.tmp'')"

lemma tmp_path_neq: "tmp_path env path q \<noteq> path"
  by (auto simp: tmp_path_def tmp_not_path split: option.splits)

text \<open>The operations of the writer, on the branch where it runs its closure or stops before.\<close>

lemma atomic_write_ops_cases:
  assumes "atomic_write_ops env q path bytes md durable = (r, ops)"
  obtains (early) e where "r = Inl e" "ops = []"
  | (body) parent b ops' tail where "bytes = Some b"
      "write_and_rename env parent (tmp_path env path q) path b md durable = (r, ops')"
      "ops = ops' @ tail" "takes_seq env path"
      "tail = (if is_ok r \<or> \<not> io_ok env StepRemove then [] else [OpRemove (tmp_path env path q)])"
  using assms
  by (auto simp: atomic_write_ops_def tmp_path_def takes_seq_def Let_def split: option.splits if_splits prod.splits sum.splits)

lemma target_states_refl: "target_states path bytes md s s"
  by (simp add: target_states_def)

lemma target_states_remove:
  "tmp \<noteq> path \<Longrightarrow> target_states path bytes md s0 s \<Longrightarrow> target_states path bytes md s0 (apply_op (OpRemove tmp) s)"
  by (auto simp: target_states_def)

lemma atomic_write_states:
  assumes w: "atomic_write_ops env q path (Some bytes) md durable = (r, ops)"
    and fresh: "fs_live s (tmp_path env path q) = None"
  shows "target_states path bytes md s (apply_ops (take n ops) s)"
  using w
proof (cases rule: atomic_write_ops_cases)
  case early
  then show ?thesis by (simp add: target_states_refl)
next
  case (body parent b ops' tail)
  have states: "target_states path bytes md s (apply_ops (take k ops') s)" for k
    using write_and_rename_states [OF tmp_path_neq fresh body(2)] body(1) by simp
  show ?thesis
  proof (cases "n \<le> length ops' \<or> tail = []")
    case True
    then have "take n ops = take (min n (length ops')) ops'" using body(3) by (auto simp: min_def)
    with states show ?thesis by simp
  next
    case False
    then have "tail = [OpRemove (tmp_path env path q)]" using body(5) by (auto split: if_splits)
    moreover from this False have "take n ops = ops' @ tail" using body(3) by (simp add: take_Cons')
    ultimately show ?thesis
      using target_states_remove [OF tmp_path_neq states [of "length ops'"]]
      by (simp add: apply_ops_append)
  qed
qed

lemma atomic_write_final:
  assumes w: "atomic_write_ops env q path (Some bytes) md durable = (r, ops)"
    and fresh: "fs_live s (tmp_path env path q) = None"
  shows "r = Inr () \<Longrightarrow> fs_live (apply_ops ops s) path = Some (new_file bytes md)"
    and "r = Inr () \<Longrightarrow> durable \<Longrightarrow> fs_dir (apply_ops ops s) path = Some (new_file bytes md)"
    and "r \<noteq> Inr () \<Longrightarrow> \<not> durable \<Longrightarrow> fs_live (apply_ops ops s) path = fs_live s path"
    and "r = Inr () \<or> io_ok env StepRemove \<Longrightarrow> fs_live (apply_ops ops s) (tmp_path env path q) = None"
    and "p \<noteq> path \<Longrightarrow> p \<noteq> tmp_path env path q \<Longrightarrow> fs_live (apply_ops ops s) p = fs_live s p"
  using w
  by (cases rule: atomic_write_ops_cases,
      use fresh tmp_path_neq [of env path q] in
        \<open>auto simp: write_and_rename_def Let_def new_file_def apply_ops_append split: if_splits\<close>)+

text \<open>
  C31: The atomic writer is crash-safe: whichever calls fail and wherever execution stops, the
  target holds either its old file or a synced file with exactly the new bytes, and what a
  crash can leave of a new file is all of it. A successful write installs the new file (and
  in durable mode makes the directory entry durable), a failed non-durable write leaves the
  target as it was, no other file changes, and the temporary file is gone unless removing
  it failed.
\<close>

theorem atomic_write_crash_safe:
  assumes "atomic_write_ops env (fs_seq s) path (Some bytes) md durable = (r, ops)"
    and "fs_live s (tmp_path env path (fs_seq s)) = None"
  shows "target_states path bytes md s (apply_ops (take n ops) s) \<and>
    (may_survive (new_file bytes md) d \<longleftrightarrow> d = bytes) \<and>
    (r = Inr () \<longrightarrow> fs_live (apply_ops ops s) path = Some (new_file bytes md) \<and>
      (durable \<longrightarrow> fs_dir (apply_ops ops s) path = Some (new_file bytes md))) \<and>
    (r \<noteq> Inr () \<and> \<not> durable \<longrightarrow> fs_live (apply_ops ops s) path = fs_live s path) \<and>
    (p \<noteq> path \<and> p \<noteq> tmp_path env path (fs_seq s) \<longrightarrow> fs_live (apply_ops ops s) p = fs_live s p) \<and>
    (r = Inr () \<or> io_ok env StepRemove \<longrightarrow>
      fs_live (apply_ops ops s) (tmp_path env path (fs_seq s)) = None)"
proof -
  have "may_survive (new_file bytes md) d \<longleftrightarrow> d = bytes"
    by (simp add: may_survive_def new_file_def)
  then show ?thesis
    using atomic_write_states [OF assms, of n] atomic_write_final [OF assms] by simp
qed

definition no_faults :: io_env where
  "no_faults = \<lparr>io_ok = (\<lambda>_. True), io_partial = 0, io_pid = 7\<rparr>"

definition empty_fs :: fs where
  "empty_fs = \<lparr>fs_live = Map.empty, fs_dir = Map.empty, fs_seq = 0\<rparr>"

lemma atomic_write_crash_safe_witness:
  "let (r, ops) = atomic_write_ops (no_faults\<lparr>io_ok := (\<lambda>st. st \<noteq> StepSyncDir)\<rparr>) 0 ''/d/static.json'' (Some ''{}'') None False
   in r = Inr () \<and> fs_live (apply_ops ops empty_fs) ''/d/static.json'' = Some (new_file ''{}'' None)"
proof -
  let ?env = "no_faults\<lparr>io_ok := (\<lambda>st. st \<noteq> StepSyncDir)\<rparr>"
  obtain r ops where w: "atomic_write_ops ?env (fs_seq empty_fs) ''/d/static.json'' (Some ''{}'') None False = (r, ops)"
    by (cases "atomic_write_ops ?env (fs_seq empty_fs) ''/d/static.json'' (Some ''{}'') None False")
  have fresh: "fs_live empty_fs (tmp_path ?env ''/d/static.json'' (fs_seq empty_fs)) = None"
    by (simp add: empty_fs_def)
  have "fst (atomic_write_ops ?env 0 ''/d/static.json'' (Some ''{}'') None False) = Inr ()" by code_simp
  with w have "r = Inr ()" by (simp add: empty_fs_def)
  with w atomic_write_crash_safe [OF w fresh] show ?thesis by (simp add: empty_fs_def)
qed

section \<open>Stores that write before they change\<close>

text \<open>
  The stores share one pattern: clone the state, change the clone, save it, and only then
  swap it in. \<open>commit\<close> is that pattern.
\<close>

definition commit ::
  "('s \<Rightarrow> 'w \<Rightarrow> ('e + unit) \<times> 'w) \<Rightarrow> 's \<Rightarrow> 'r \<Rightarrow> 's \<Rightarrow> 'w \<Rightarrow> ('e + 'r) \<times> 's \<times> 'w" where
  "commit save next ret cur w =
     (case save next w of
        (Inr u, w') \<Rightarrow> (Inr ret, next, w')
      | (Inl e, w') \<Rightarrow> (Inl e, cur, w'))"

text \<open>
  What a store may assume of any saver: success means the medium holds the new state, and a
  failure leaves the old or the new one. A saver is faithful if failure leaves the old one.
\<close>

locale saver =
  fixes save :: "'s \<Rightarrow> 'w \<Rightarrow> ('e + unit) \<times> 'w"
    and holds :: "'w \<Rightarrow> 's \<Rightarrow> bool"
    and ready :: "'w \<Rightarrow> bool"
  assumes save_ok: "ready w \<Longrightarrow> save s w = (Inr u, w') \<Longrightarrow> holds w' s"
    and save_err: "ready w \<Longrightarrow> save s w = (Inl e, w') \<Longrightarrow> holds w t \<Longrightarrow> holds w' t \<or> holds w' s"
begin

lemma commit_either:
  assumes "ready w" and "holds w cur" and "commit save next ret cur w = (r, cur', w')"
  shows "(case r of Inr x \<Rightarrow> x = ret \<and> cur' = next \<and> holds w' next
     | Inl e \<Rightarrow> cur' = cur \<and> (holds w' cur \<or> holds w' next))"
  using assms save_ok save_err by (auto simp: commit_def split: prod.splits sum.splits)

end

locale faithful_saver = saver +
  assumes save_err_old: "ready w \<Longrightarrow> save s w = (Inl e, w') \<Longrightarrow> holds w t \<Longrightarrow> holds w' t"
begin

lemma commit_in_sync:
  assumes "ready w" and "holds w cur" and "commit save next ret cur w = (r, cur', w')"
  shows "holds w' cur'"
    and "cur' = (if is_ok r then next else cur)"
    and "r = Inr x \<Longrightarrow> x = ret"
  using assms save_ok save_err_old by (auto simp: commit_def split: prod.splits sum.splits)

end

text \<open>
  The store file holds the serialised state; \<open>ser\<close> stands for \<open>serde_json::to_vec_pretty\<close>.
\<close>

definition file_holds :: "('s \<Rightarrow> string option) \<Rightarrow> path \<Rightarrow> fs \<Rightarrow> 's \<Rightarrow> bool" where
  "file_holds ser path w s \<longleftrightarrow>
     (case (fs_live w path, ser s) of (Some f, Some b) \<Rightarrow> f_data f = b \<and> f_synced f | _ \<Rightarrow> False)"

definition tmp_fresh :: "io_env \<Rightarrow> path \<Rightarrow> fs \<Rightarrow> bool" where
  "tmp_fresh env path w \<longleftrightarrow> fs_live w (tmp_path env path (fs_seq w)) = None"

lemma apply_ops_seq: "apply_ops ops (s\<lparr>fs_seq := q\<rparr>) = (apply_ops ops s)\<lparr>fs_seq := q\<rparr>"
proof (induction ops arbitrary: s)
  case (Cons op ops)
  have "apply_op op (s\<lparr>fs_seq := q\<rparr>) = (apply_op op s)\<lparr>fs_seq := q\<rparr>"
    by (cases op) (auto split: option.splits)
  with Cons show ?case by simp
qed simp

lemma impl_live:
  assumes "atomic_write_json_impl env path bytes md durable w = (r, w')"
  obtains ops where "atomic_write_ops env (fs_seq w) path bytes md durable = (r, ops)"
    "fs_live w' = fs_live (apply_ops ops w)"
  using assms
  by (auto simp: atomic_write_json_impl_def apply_ops_seq split: prod.splits if_splits)

lemma impl_result:
  assumes w: "atomic_write_json_impl env path (ser s) md durable w = (r, w')" and "tmp_fresh env path w"
  shows "r = Inr u \<Longrightarrow> file_holds ser path w' s"
    and "r = Inl e \<Longrightarrow> file_holds ser path w t \<Longrightarrow> file_holds ser path w' t \<or> durable \<and> file_holds ser path w' s"
proof -
  obtain ops where ops: "atomic_write_ops env (fs_seq w) path (ser s) md durable = (r, ops)"
    and live: "fs_live w' = fs_live (apply_ops ops w)" using impl_live [OF w] by blast
  have fresh: "fs_live w (tmp_path env path (fs_seq w)) = None"
    using assms(2) by (simp add: tmp_fresh_def)
  have "(r = Inr u \<longrightarrow> file_holds ser path w' s) \<and>
    (r = Inl e \<longrightarrow> file_holds ser path w t \<longrightarrow> file_holds ser path w' t \<or> durable \<and> file_holds ser path w' s)"
  proof (cases "ser s")
    case None
    then have "ops = [] \<and> r \<noteq> Inr u"
      using ops by (auto simp: atomic_write_ops_def split: option.splits if_splits)
    then show ?thesis using live by (simp add: file_holds_def)
  next
    case (Some b)
    note o = ops [unfolded Some]
    have "fs_live w' path \<in> {fs_live w path, Some (new_file b md)}"
      using atomic_write_states [OF o fresh, of "length ops"] by (simp add: live target_states_def)
    moreover have "r = Inr () \<Longrightarrow> fs_live w' path = Some (new_file b md)"
      using atomic_write_final(1) [OF o fresh] live by simp
    moreover have "r \<noteq> Inr () \<Longrightarrow> \<not> durable \<Longrightarrow> fs_live w' path = fs_live w path"
      using atomic_write_final(3) [OF o fresh] live by simp
    ultimately show ?thesis
      using Some by (auto simp: file_holds_def new_file_def split: option.splits)
  qed
  then show "r = Inr u \<Longrightarrow> file_holds ser path w' s"
    and "r = Inl e \<Longrightarrow> file_holds ser path w t \<Longrightarrow> file_holds ser path w' t \<or> durable \<and> file_holds ser path w' s"
    by blast+
qed

text \<open>
  The general-purpose writer is a faithful saver; the durable one is only a saver: when
  syncing the directory fails after the rename, it reports an error with the new state
  already in the file.
\<close>

interpretation aw: faithful_saver "\<lambda>s. atomic_write_json env path (ser s)" "file_holds ser path" "tmp_fresh env path"
  for env path ser
  by unfold_locales (auto simp: atomic_write_json_def dest: impl_result)

interpretation am: faithful_saver "\<lambda>s. atomic_write_json_with_mode env path (ser s) md" "file_holds ser path" "tmp_fresh env path"
  for env path ser md
  by unfold_locales (auto simp: atomic_write_json_with_mode_def dest: impl_result)

interpretation ad: saver "\<lambda>s. atomic_write_json_durable env path (ser s) md" "file_holds ser path" "tmp_fresh env path"
  for env path ser md
  by unfold_locales (auto simp: atomic_write_json_durable_def dest: impl_result)

end
