(* ===== verification/Stores.thy ===== *)
theory Stores
  imports Atomic_Json Protocol
begin

text \<open>
  The two file-backed stores of \<open>portman-core\<close>: static host rules (\<open>static_store.rs\<close>) and
  per-TLD TLS modes (\<open>tls_store.rs\<close>). A store is its in-memory state; every mutation takes
  the file system along. JSON is a parameter: \<open>ser\<close> serialises a state, \<open>de_v1\<close> and \<open>de_v2\<close>
  are \<open>serde_json::from_slice\<close> at the two schema versions.
\<close>

section \<open>Static rules\<close>

record static_rule =
  sr_target :: string
  sr_mode :: mode
  sr_service :: "string option"
  sr_project :: "string option"

record static_state =
  ss_version :: u32
  ss_entries :: "(string, static_rule) btree"

definition static_default :: static_state where
  "static_default = \<lparr>ss_version = 2, ss_entries = []\<rparr>"

record static_state_v1 =
  ss1_version :: u32
  ss1_entries :: "(string, string) btree"

datatype 'j load_error = LoadParse 'j | LoadRead

text \<open>v2 if it parses; else v1 with every rule an HTTP rule; else the v2 error.\<close>

definition parse_persisted ::
  "(string \<Rightarrow> 'j + static_state) \<Rightarrow> (string \<Rightarrow> 'j + static_state_v1) \<Rightarrow> string \<Rightarrow> 'j + static_state" where
  "parse_persisted de_v2 de_v1 bytes =
     (case de_v2 bytes of
        Inr v2 \<Rightarrow> Inr v2
      | Inl err \<Rightarrow>
          (case de_v1 bytes of
             Inr v1 \<Rightarrow> Inr \<lparr>ss_version = 2, ss_entries = bt_collect (map (\<lambda>(h, t).
               (h, \<lparr>sr_target = t, sr_mode = ModeHttp, sr_service = None, sr_project = None\<rparr>))
               (ss1_entries v1))\<rparr>
           | Inl _ \<Rightarrow> Inl err))"

datatype read_result = ReadOk string | ReadNotFound | ReadFailed

definition static_store_load ::
  "(string \<Rightarrow> 'j + static_state) \<Rightarrow> (string \<Rightarrow> 'j + static_state_v1) \<Rightarrow> read_result \<Rightarrow> 'j load_error + static_state" where
  "static_store_load de_v2 de_v1 res =
     (case res of
        ReadOk bytes \<Rightarrow> map_err LoadParse (parse_persisted de_v2 de_v1 bytes)
      | ReadNotFound \<Rightarrow> Inr static_default
      | ReadFailed \<Rightarrow> Inl LoadRead)"

definition static_store_list :: "static_state \<Rightarrow> (string \<times> string \<times> mode \<times> string option) list" where
  "static_store_list st =
     map (\<lambda>(h, r). (h, sr_target r, sr_mode r, sr_project r)) (ss_entries st)"

definition rule_target_mode :: "static_rule \<Rightarrow> string \<times> mode" where
  "rule_target_mode r = (sr_target r, sr_mode r)"

definition static_store_add ::
  "io_env \<Rightarrow> path \<Rightarrow> (static_state \<Rightarrow> string option) \<Rightarrow> string \<Rightarrow> string \<Rightarrow> mode \<Rightarrow> string option \<Rightarrow> string option
   \<Rightarrow> static_state \<Rightarrow> fs \<Rightarrow> (write_error + (string \<times> mode) option) \<times> static_state \<times> fs" where
  "static_store_add env path ser host target mode service project st w =
     (let rule = \<lparr>sr_target = target, sr_mode = mode, sr_service = service, sr_project = project\<rparr>;
          next = st\<lparr>ss_entries := bt_insert host rule (ss_entries st)\<rparr>;
          prev = map_option rule_target_mode (bt_get (ss_entries st) host)
      in commit (\<lambda>s. atomic_write_json env path (ser s)) next prev st w)"

definition static_store_get :: "static_state \<Rightarrow> string \<Rightarrow> (string \<times> mode \<times> string option) option" where
  "static_store_get st host =
     map_option (\<lambda>r. (sr_target r, sr_mode r, sr_project r)) (bt_get (ss_entries st) host)"

definition static_store_service_for :: "static_state \<Rightarrow> string \<Rightarrow> string option" where
  "static_store_service_for st host = Option.bind (bt_get (ss_entries st) host) sr_service"

definition static_store_remove ::
  "io_env \<Rightarrow> path \<Rightarrow> (static_state \<Rightarrow> string option) \<Rightarrow> string
   \<Rightarrow> static_state \<Rightarrow> fs \<Rightarrow> (write_error + (string \<times> mode) option) \<times> static_state \<times> fs" where
  "static_store_remove env path ser host st w =
     (let next = st\<lparr>ss_entries := bt_remove host (ss_entries st)\<rparr>;
          removed = map_option rule_target_mode (bt_get (ss_entries st) host)
      in if removed \<noteq> None
         then commit (\<lambda>s. atomic_write_json env path (ser s)) next removed st w
         else (Inr removed, st, w))"

section \<open>TLS modes\<close>

record tls_state =
  ts_version :: u32
  ts_tlds :: "(string, tls_mode) btree"

definition tls_default :: tls_state where
  "tls_default = \<lparr>ts_version = 1, ts_tlds = []\<rparr>"

definition tls_store_load :: "(string \<Rightarrow> 'j + tls_state) \<Rightarrow> read_result \<Rightarrow> 'j load_error + tls_state" where
  "tls_store_load de res =
     (case res of
        ReadOk bytes \<Rightarrow> map_err LoadParse (de bytes)
      | ReadNotFound \<Rightarrow> Inr tls_default
      | ReadFailed \<Rightarrow> Inl LoadRead)"

definition tls_mode_for :: "tls_state \<Rightarrow> string \<Rightarrow> tls_mode" where
  "tls_mode_for st tld = unwrap_or (bt_get (ts_tlds st) tld) TlsOff"

definition tls_set_mode ::
  "io_env \<Rightarrow> path \<Rightarrow> (tls_state \<Rightarrow> string option) \<Rightarrow> string \<Rightarrow> tls_mode
   \<Rightarrow> tls_state \<Rightarrow> fs \<Rightarrow> (write_error + unit) \<times> tls_state \<times> fs" where
  "tls_set_mode env path ser tld mode st w =
     (let next = (if mode = TlsOff then st\<lparr>ts_tlds := bt_remove tld (ts_tlds st)\<rparr>
                  else st\<lparr>ts_tlds := bt_insert tld mode (ts_tlds st)\<rparr>)
      in commit (\<lambda>s. atomic_write_json env path (ser s)) next () st w)"

definition tls_tlds :: "tls_state \<Rightarrow> (string \<times> tls_mode) list" where
  "tls_tlds st = filter (\<lambda>(k, m). requires_tls m) (ts_tlds st)"

datatype tls_parse_error = TlsNotImplemented | TlsUnknownMode

definition parse_tls_mode :: "string \<Rightarrow> tls_parse_error + tls_mode" where
  "parse_tls_mode s =
     (let l = to_ascii_lowercase s in
      if l = ''off'' \<or> l = ''none'' \<or> l = ''http'' then Inr TlsOff
      else if l = ''mkcert'' then Inr TlsMkcert
      else if l = ''le'' \<or> l = ''letsencrypt'' \<or> l = ''lets-encrypt'' then Inl TlsNotImplemented
      else Inl TlsUnknownMode)"

section \<open>Properties\<close>

definition static_ok :: "static_state \<Rightarrow> bool" where
  "static_ok st \<longleftrightarrow> bt_ok (ss_entries st)"

lemma static_ok_add: "static_ok st \<Longrightarrow> static_ok (st\<lparr>ss_entries := bt_insert h r (ss_entries st)\<rparr>)"
  by (simp add: static_ok_def)

lemma static_ok_del: "static_ok st \<Longrightarrow> static_ok (st\<lparr>ss_entries := bt_remove h (ss_entries st)\<rparr>)"
  by (simp add: static_ok_def)

lemma commit_ok:
  assumes "commit save next ret cur w = (r, cur', w')"
  shows "cur' = (if is_ok r then next else cur)" and "r = Inr x \<Longrightarrow> x = ret"
  using assms by (auto simp: commit_def split: prod.splits sum.splits)

text \<open>
  Adding a static rule is atomic: if the write succeeds the store returns the previous
  target, reads back the new rule and every other rule unchanged, and the file holds the
  new state; if it fails the rules in memory are those of before and the file still holds
  them. Memory and disk never diverge.
\<close>

theorem static_add_write_through:
  assumes "static_ok st" and "file_holds ser path w st" and "tmp_fresh env path w"
    and "static_store_add env path ser host target md service project st w = (r, st', w')"
  shows "static_ok st' \<and> file_holds ser path w' st' \<and>
    (case r of
       Inr prev \<Rightarrow> prev = map_option rule_target_mode (bt_get (ss_entries st) host) \<and>
         static_store_get st' host = Some (target, md, project) \<and>
         static_store_service_for st' host = service \<and>
         (\<forall>h. h = host \<or> static_store_get st' h = static_store_get st h \<and>
              static_store_service_for st' h = static_store_service_for st h)
     | Inl e \<Rightarrow> st' = st)"
proof -
  define rule where "rule = \<lparr>sr_target = target, sr_mode = md, sr_service = service, sr_project = project\<rparr>"
  define next' where "next' = st\<lparr>ss_entries := bt_insert host rule (ss_entries st)\<rparr>"
  have c: "commit (\<lambda>s. atomic_write_json env path (ser s)) next'
      (map_option rule_target_mode (bt_get (ss_entries st) host)) st w = (r, st', w')"
    using assms(4) by (simp add: static_store_add_def next'_def rule_def)
  have sync: "file_holds ser path w' st'"
    by (rule aw.commit_in_sync(1) [OF assms(3,2) c])
  have st': "st' = (if is_ok r then next' else st)" by (rule commit_ok(1) [OF c])
  have ok: "static_ok st'" using st' assms(1) by (simp add: next'_def static_ok_add)
  have bt: "bt_ok (ss_entries st)" using assms(1) by (simp add: static_ok_def)
  have get: "bt_get (ss_entries next') h = (if h = host then Some rule else bt_get (ss_entries st) h)" for h
    using bt by (simp add: next'_def)
  show ?thesis
  proof (cases r)
    case (Inl e)
    with st' ok sync show ?thesis by simp
  next
    case (Inr prev)
    with c have "prev = map_option rule_target_mode (bt_get (ss_entries st) host)"
      by (rule commit_ok(2))
    with Inr st' ok sync get show ?thesis
      by (simp add: static_store_get_def static_store_service_for_def rule_def)
  qed
qed

definition sample_static :: static_state where
  "sample_static = \<lparr>ss_version = 2, ss_entries = [(''crm.test'', \<lparr>sr_target = ''127.0.0.1:3000'',
     sr_mode = ModeHttp, sr_service = None, sr_project = None\<rparr>)]\<rparr>"

definition sample_ser :: "static_state \<Rightarrow> string option" where
  "sample_ser st = Some (join_str '','' (map (\<lambda>(h, r). h @ ''='' @ sr_target r) (ss_entries st)))"

definition sample_fs :: fs where
  "sample_fs = empty_fs\<lparr>fs_live := Map.empty(''/d/static.json'' \<mapsto> new_file ''crm.test=127.0.0.1:3000'' None)\<rparr>"

lemma static_add_write_through_witness:
  "\<exists>st' w'. static_store_add (no_faults\<lparr>io_ok := (\<lambda>st. st \<noteq> StepRename)\<rparr>) ''/d/static.json'' sample_ser
     ''crm.test'' ''127.0.0.1:4000'' ModeHttp None None sample_static sample_fs = (Inl WriteRename, st', w') \<and>
     st' = sample_static \<and> file_holds sample_ser ''/d/static.json'' w' st'"
proof -
  let ?add = "static_store_add (no_faults\<lparr>io_ok := (\<lambda>st. st \<noteq> StepRename)\<rparr>) ''/d/static.json'' sample_ser
     ''crm.test'' ''127.0.0.1:4000'' ModeHttp None None sample_static sample_fs"
  obtain r st' w' where add: "?add = (r, st', w')" by (cases ?add)
  have ok: "static_ok sample_static" by code_simp
  have holds: "file_holds sample_ser ''/d/static.json'' sample_fs sample_static" by code_simp
  have fresh: "tmp_fresh (no_faults\<lparr>io_ok := (\<lambda>st. st \<noteq> StepRename)\<rparr>) ''/d/static.json'' sample_fs"
    by code_simp
  have "fst ?add = Inl WriteRename" by code_simp
  with add have r: "r = Inl WriteRename" by simp
  have "st' = sample_static \<and> file_holds sample_ser ''/d/static.json'' w' st'"
    using static_add_write_through [OF ok holds fresh add] unfolding r by auto
  with add r show ?thesis by blast
qed

text \<open>Removal: the same, and removing an absent host writes nothing.\<close>

lemma static_remove_write_through:
  assumes "static_ok st" and "file_holds ser path w st" and "tmp_fresh env path w"
    and "static_store_remove env path ser host st w = (r, st', w')"
  shows "static_ok st' \<and> file_holds ser path w' st' \<and>
    (case r of
       Inr removed \<Rightarrow> removed = map_option rule_target_mode (bt_get (ss_entries st) host) \<and>
         (removed = None \<longrightarrow> w' = w) \<and>
         (\<forall>h. static_store_get st' h = (if h = host then None else static_store_get st h))
     | Inl e \<Rightarrow> st' = st)"
proof (cases "bt_get (ss_entries st) host")
  case None
  then show ?thesis using assms
    by (auto simp: static_store_remove_def static_store_get_def Let_def)
next
  case (Some rule)
  define next' where "next' = st\<lparr>ss_entries := bt_remove host (ss_entries st)\<rparr>"
  have c: "commit (\<lambda>s. atomic_write_json env path (ser s)) next' (Some (rule_target_mode rule)) st w = (r, st', w')"
    using assms(4) Some by (simp add: static_store_remove_def next'_def)
  have sync: "file_holds ser path w' st'"
    by (rule aw.commit_in_sync(1) [OF assms(3,2) c])
  have st': "st' = (if is_ok r then next' else st)" by (rule commit_ok(1) [OF c])
  have ok: "static_ok st'" using st' assms(1) by (simp add: next'_def static_ok_del)
  have get: "bt_get (ss_entries next') h = (if h = host then None else bt_get (ss_entries st) h)" for h
    using assms(1) by (simp add: next'_def static_ok_def)
  show ?thesis
  proof (cases r)
    case (Inl e)
    with st' ok sync show ?thesis by simp
  next
    case (Inr prev)
    with c have "prev = Some (rule_target_mode rule)" by (rule commit_ok(2))
    with Inr st' ok sync get Some show ?thesis by (simp add: static_store_get_def)
  qed
qed

text \<open>
  The TLS store: \<open>Off\<close> is the same as no entry, other TLDs keep their mode, and a failed write
  changes neither memory nor file.
\<close>

lemma tls_set_mode_write_through:
  assumes "bt_ok (ts_tlds st)" and "file_holds ser path w st" and "tmp_fresh env path w"
    and "tls_set_mode env path ser tld md st w = (r, st', w')"
  shows "bt_ok (ts_tlds st') \<and> file_holds ser path w' st' \<and>
    tls_mode_for st' t = (if is_ok r \<and> t = tld then md else tls_mode_for st t)"
proof -
  define next' where "next' = (if md = TlsOff then st\<lparr>ts_tlds := bt_remove tld (ts_tlds st)\<rparr>
                  else st\<lparr>ts_tlds := bt_insert tld md (ts_tlds st)\<rparr>)"
  have c: "commit (\<lambda>s. atomic_write_json env path (ser s)) next' () st w = (r, st', w')"
    using assms(4) by (simp add: tls_set_mode_def next'_def)
  have sync: "file_holds ser path w' st'"
    by (rule aw.commit_in_sync(1) [OF assms(3,2) c])
  have "st' = (if is_ok r then next' else st)" by (rule commit_ok(1) [OF c])
  with sync assms(1) show ?thesis by (simp add: next'_def tls_mode_for_def)
qed

lemma parse_tls_mode_as_str:
  "parse_tls_mode (tls_mode_as_str TlsOff) = Inr TlsOff"
  "parse_tls_mode (tls_mode_as_str TlsMkcert) = Inr TlsMkcert"
  by code_simp+

end
