(* ===== verification/Depends.thy ===== *)
theory Depends
  imports Protocol
begin

text \<open>
  The dependency check of \<open>portman-core/src/service_config.rs\<close> (\<open>validate_depends\<close>): every
  \<open>depends\<close> entry names a known service and the graph has no cycle. The depth-first search
  is the source's loop over an explicit stack of (service, next dependency), a partial
  function here; the section below shows that it returns and what its answer means.
\<close>

section \<open>The search\<close>

type_synonym services = "(string, service_definition) btree"

definition deps_of :: "services \<Rightarrow> string \<Rightarrow> string list" where
  "deps_of services name =
     (case bt_get services name of Some def \<Rightarrow> sd_depends def | None \<Rightarrow> [])"

datatype depends_error =
  UnknownDependency string string  \<comment> \<open>service, dependency\<close>
| DependencyCycle "string list" string  \<comment> \<open>the members in order, and the service they lead back to\<close>

text \<open>
  The inner loop: its state, one iteration (\<open>stack.pop()\<close> and one of four outcomes, or the
  end of the loop), and the loop.
\<close>

type_synonym dfs_state = "string list \<times> string list \<times> (string \<times> nat) list"

fun dfs_step :: "services \<Rightarrow> dfs_state \<Rightarrow> (depends_error + string list) + dfs_state" where
  "dfs_step services (done, path, []) = Inl (Inr done)"
| "dfs_step services (done, path, (name, next_dep) # rest) =
     (if next_dep = 0 \<and> name \<in> set path
      then Inl (Inl (DependencyCycle (dropWhile (\<lambda>p. p \<noteq> name) path) name))
      else if next_dep = 0 \<and> name \<in> set done then Inr (done, path, rest)
      else
        let path = (if next_dep = 0 then path @ [name] else path);
            deps = deps_of services name in
        if next_dep < length deps
        then Inr (done, path, (deps ! next_dep, 0) # (name, next_dep + 1) # rest)
        else Inr (name # done, butlast path, rest))"

partial_function (option) dfs_loop :: "services \<Rightarrow> dfs_state \<Rightarrow> (depends_error + string list) option" where
  "dfs_loop services st =
     (case dfs_step services st of
        Inl result \<Rightarrow> Some result
      | Inr st' \<Rightarrow> dfs_loop services st')"

declare dfs_loop.simps [code]

fun dfs_starts :: "services \<Rightarrow> string list \<Rightarrow> string list \<Rightarrow> (depends_error + string list) option" where
  "dfs_starts services done [] = Some (Inr done)"
| "dfs_starts services done (start # starts) =
     (if start \<in> set done then dfs_starts services done starts
      else (case dfs_loop services (done, [], [(start, 0)]) of
          None \<Rightarrow> None
        | Some (Inl e) \<Rightarrow> Some (Inl e)
        | Some (Inr done) \<Rightarrow> dfs_starts services done starts))"

definition check_known :: "services \<Rightarrow> depends_error + unit" where
  "check_known services =
     for_each (\<lambda>(name, def).
       for_each (\<lambda>dep. ensure (bt_contains services dep) (UnknownDependency name dep)) (sd_depends def))
       services"

definition validate_depends :: "services \<Rightarrow> (depends_error + unit) option" where
  "validate_depends services =
     (case check_known services of
        Inl e \<Rightarrow> Some (Inl e)
      | Inr _ \<Rightarrow>
          (case dfs_starts services [] (map fst services) of
             None \<Rightarrow> None
           | Some (Inl e) \<Rightarrow> Some (Inl e)
           | Some (Inr done) \<Rightarrow> Some (Inr ())))"

section \<open>The dependency relation\<close>

definition depends_on :: "services \<Rightarrow> (string \<times> string) set" where
  "depends_on services = {(a, b). b \<in> set (deps_of services a)}"

definition closed :: "services \<Rightarrow> bool" where
  "closed services \<longleftrightarrow>
     (\<forall>name\<in>set (map fst services). \<forall>dep\<in>set (deps_of services name). dep \<in> set (map fst services))"

fun dep_chain :: "services \<Rightarrow> string list \<Rightarrow> bool" where
  "dep_chain sv (x # y # zs) \<longleftrightarrow> y \<in> set (deps_of sv x) \<and> dep_chain sv (y # zs)"
| "dep_chain sv _ \<longleftrightarrow> True"

definition is_cycle :: "services \<Rightarrow> string list \<Rightarrow> string \<Rightarrow> bool" where
  "is_cycle sv members name \<longleftrightarrow>
     members \<noteq> [] \<and> hd members = name \<and> dep_chain sv (members @ [name])"

text \<open>Finished services, latest first: each one's dependencies finished before it.\<close>

fun topo :: "services \<Rightarrow> string list \<Rightarrow> bool" where
  "topo sv [] = True"
| "topo sv (x # xs) \<longleftrightarrow> x \<notin> set xs \<and> set (deps_of sv x) \<subseteq> set xs \<and> topo sv xs"

lemma deps_of_key: "b \<in> set (deps_of sv a) \<Longrightarrow> a \<in> set (map fst sv)"
  by (cases "bt_get sv a") (force simp: deps_of_def bt_get_def dest: map_of_SomeD)+

lemma topo_closed: "topo sv xs \<Longrightarrow> a \<in> set xs \<Longrightarrow> b \<in> set (deps_of sv a) \<Longrightarrow> b \<in> set xs"
  by (induction xs) auto

lemma topo_closed_trancl:
  assumes "(a, b) \<in> (depends_on sv)\<^sup>+" and "topo sv xs" and "a \<in> set xs"
  shows "b \<in> set xs"
  using assms
  by (induction rule: trancl_induct) (auto simp: depends_on_def dest: topo_closed)

lemma topo_no_cycle: "topo sv xs \<Longrightarrow> a \<in> set xs \<Longrightarrow> (a, a) \<notin> (depends_on sv)\<^sup>+"
proof (induction xs)
  case (Cons x xs)
  show ?case
  proof (cases "a \<in> set xs")
    case True
    with Cons show ?thesis by simp
  next
    case False
    with Cons.prems have ax: "a = x" by simp
    show ?thesis
    proof
      assume "(a, a) \<in> (depends_on sv)\<^sup>+"
      then obtain b where b: "b \<in> set (deps_of sv a)" "b = a \<or> (b, a) \<in> (depends_on sv)\<^sup>+"
        by (metis (no_types, lifting) case_prodD depends_on_def mem_Collect_eq rtranclD tranclD)
      with Cons.prems ax have "b \<in> set xs" by auto
      with b(2) Cons.prems have "a \<in> set xs" using topo_closed_trancl by fastforce
      with False show False ..
    qed
  qed
qed simp

lemma dep_chain_trancl:
  "dep_chain sv (x # ys @ [z]) \<Longrightarrow> (x, z) \<in> (depends_on sv)\<^sup>+"
proof (induction ys arbitrary: x)
  case Nil
  then show ?case by (auto simp: depends_on_def)
next
  case (Cons y ys)
  then have "(x, y) \<in> depends_on sv" "(y, z) \<in> (depends_on sv)\<^sup>+" by (auto simp: depends_on_def)
  then show ?case by (rule trancl_into_trancl2)
qed

lemma is_cycle_trancl: "is_cycle sv c n \<Longrightarrow> (n, n) \<in> (depends_on sv)\<^sup>+"
  by (cases c) (auto simp: is_cycle_def intro: dep_chain_trancl)

lemma dep_chain_append:
  "dep_chain sv (xs @ [y]) \<Longrightarrow> z \<in> set (deps_of sv y) \<Longrightarrow> dep_chain sv (xs @ [y, z])"
  by (induction xs rule: dep_chain.induct) auto

lemma dep_chain_suffix: "dep_chain sv (xs @ ys) \<Longrightarrow> dep_chain sv ys"
proof (induction xs)
  case (Cons x xs)
  then show ?case by (cases "xs @ ys") auto
qed simp

section \<open>Invariant and measure of the loop\<close>

text \<open>
  Below the top of the stack each frame (service, k) waits for its dependency number k - 1,
  and its earlier dependencies are finished.
\<close>

fun frames_ok :: "services \<Rightarrow> string list \<Rightarrow> string \<Rightarrow> (string \<times> nat) list \<Rightarrow> bool" where
  "frames_ok sv dn c [] = True"
| "frames_ok sv dn c ((p, k) # fs) \<longleftrightarrow>
     0 < k \<and> k \<le> length (deps_of sv p) \<and> deps_of sv p ! (k - 1) = c \<and>
     set (take (k - 1) (deps_of sv p)) \<subseteq> set dn \<and> frames_ok sv dn p fs"

definition top_ok :: "services \<Rightarrow> string list \<Rightarrow> string list \<Rightarrow> (string \<times> nat) list \<Rightarrow> bool" where
  "top_ok sv dn path stack \<longleftrightarrow>
     (case stack of
        [] \<Rightarrow> path = []
      | (n, k) # rest \<Rightarrow>
          n \<in> set (map fst sv) \<and> frames_ok sv dn n rest \<and>
          (if k = 0 then rev path = map fst rest
           else rev path = n # map fst rest \<and> k \<le> length (deps_of sv n) \<and>
                set (take k (deps_of sv n)) \<subseteq> set dn))"

definition loop_inv :: "services \<Rightarrow> string list \<Rightarrow> string list \<Rightarrow> (string \<times> nat) list \<Rightarrow> bool" where
  "loop_inv sv dn path stack \<longleftrightarrow>
     distinct path \<and> set path \<inter> set dn = {} \<and> topo sv dn \<and>
     set dn \<subseteq> set (map fst sv) \<and> set path \<subseteq> set (map fst sv) \<and> top_ok sv dn path stack"

definition frame_work :: "services \<Rightarrow> string \<times> nat \<Rightarrow> nat" where
  "frame_work sv f = (if snd f = 0 then 1 else 2 * (length (deps_of sv (fst f)) - snd f) + 1)"

definition work :: "services \<Rightarrow> string list \<Rightarrow> string list \<Rightarrow> (string \<times> nat) list \<Rightarrow> nat" where
  "work sv dn path stack =
     (\<Sum>n\<in>set (map fst sv) - set dn - set path. 2 * length (deps_of sv n) + 2) +
     sum_list (map (frame_work sv) stack)"

lemma frames_ok_mono: "frames_ok sv dn c fs \<Longrightarrow> frames_ok sv (x # dn) c fs"
  by (induction sv dn c fs rule: frames_ok.induct) auto

lemma frames_chain: "frames_ok sv dn c fs \<Longrightarrow> dep_chain sv (rev (map fst fs) @ [c])"
proof (induction sv dn c fs rule: frames_ok.induct)
  case (2 sv dn c p k fs)
  then have "c \<in> set (deps_of sv p)" by (auto simp: nth_mem)
  moreover have "dep_chain sv (rev (map fst fs) @ [p])" using 2 by simp
  ultimately show ?case using dep_chain_append by simp
qed simp

lemma inv_cycle:
  assumes "loop_inv sv dn path ((n, 0) # rest)" and "n \<in> set path"
  shows "is_cycle sv (dropWhile (\<lambda>p. p \<noteq> n) path) n"
proof -
  have "frames_ok sv dn n rest" and p: "path = rev (map fst rest)"
    using assms(1) by (auto simp: loop_inv_def top_ok_def rev_swap)
  then have "dep_chain sv (path @ [n])" using frames_chain by simp
  moreover have "path @ [n] = takeWhile (\<lambda>p. p \<noteq> n) path @ dropWhile (\<lambda>p. p \<noteq> n) path @ [n]"
    by simp
  ultimately have "dep_chain sv (dropWhile (\<lambda>p. p \<noteq> n) path @ [n])"
    using dep_chain_suffix by metis
  moreover have "dropWhile (\<lambda>p. p \<noteq> n) path \<noteq> []" using assms(2) by auto
  ultimately show ?thesis using hd_dropWhile [of "\<lambda>p. p \<noteq> n" path] by (simp add: is_cycle_def)
qed

lemma loop_inv_path:
  "loop_inv sv dn path ((n, k) # rest) \<Longrightarrow> k \<noteq> 0 \<Longrightarrow> path = rev (map fst rest) @ [n]"
  by (auto simp: loop_inv_def top_ok_def rev_swap)

section \<open>The loop returns\<close>

text \<open>An iteration keeps the invariant and reduces the work; the final one has finished all.\<close>

lemma resume:
  assumes "frames_ok sv dn n rest" and "rev path = map fst rest" and "set path \<subseteq> set (map fst sv)"
    and "n \<in> set dn'" and "set dn \<subseteq> set dn'" and "frames_ok sv dn' n rest"
  shows "top_ok sv dn' path rest"
proof (cases rest)
  case Nil
  with assms(2) show ?thesis by (simp add: top_ok_def)
next
  case (Cons f fs)
  obtain q k where q: "f = (q, k)" by (cases f)
  obtain j where j: "k = Suc j" "j < length (deps_of sv q)" "deps_of sv q ! j = n"
    "set (take j (deps_of sv q)) \<subseteq> set dn" using assms(1) Cons q by (cases k) auto
  then have "set (take k (deps_of sv q)) \<subseteq> set dn'"
    using assms(4,5) by (auto simp: take_Suc_conv_app_nth)
  moreover have "q \<in> set (map fst sv)"
    using arg_cong [OF assms(2), of set] Cons q assms(3) by auto
  ultimately show ?thesis using assms(2,6) Cons q by (auto simp: top_ok_def)
qed

lemma step_pop_done:
  assumes "loop_inv sv dn path ((n, 0) # rest)" and "n \<in> set dn"
  shows "loop_inv sv dn path rest" and "work sv dn path rest < work sv dn path ((n, 0) # rest)"
proof -
  have "top_ok sv dn path rest"
    using assms by (intro resume [of sv dn n]) (auto simp: loop_inv_def top_ok_def)
  then show "loop_inv sv dn path rest" using assms(1) by (simp add: loop_inv_def)
qed (simp add: work_def frame_work_def)

lemma work_unvisited:
  assumes "n \<in> set (map fst sv)" and "n \<notin> set dn" and "n \<notin> set path"
  shows "work sv dn path stack =
    (\<Sum>m\<in>set (map fst sv) - set dn - set path - {n}. 2 * length (deps_of sv m) + 2) +
    (2 * length (deps_of sv n) + 2) + sum_list (map (frame_work sv) stack)"
  using assms by (simp add: work_def sum.remove [of _ n])

lemma step_enter:
  assumes cl: "closed sv" and inv: "loop_inv sv dn path ((n, 0) # rest)"
    and new: "n \<notin> set dn" "n \<notin> set path" and ne: "deps_of sv n \<noteq> []"
  shows "loop_inv sv dn (path @ [n]) ((deps_of sv n ! 0, 0) # (n, 1) # rest)"
    and "work sv dn (path @ [n]) ((deps_of sv n ! 0, 0) # (n, 1) # rest) < work sv dn path ((n, 0) # rest)"
proof -
  have n: "n \<in> set (map fst sv)" using inv by (simp add: loop_inv_def top_ok_def)
  have len: "0 < length (deps_of sv n)" "Suc 0 \<le> length (deps_of sv n)"
    using ne by (simp_all add: Suc_le_eq)
  then have "deps_of sv n ! 0 \<in> set (map fst sv)" using cl n nth_mem by (force simp: closed_def)
  with inv new n len show "loop_inv sv dn (path @ [n]) ((deps_of sv n ! 0, 0) # (n, 1) # rest)"
    by (auto simp: loop_inv_def top_ok_def)
  have "set (map fst sv) - set dn - set (path @ [n]) = set (map fst sv) - set dn - set path - {n}"
    by auto
  then show "work sv dn (path @ [n]) ((deps_of sv n ! 0, 0) # (n, 1) # rest) < work sv dn path ((n, 0) # rest)"
    unfolding work_unvisited [OF n new] using len by (simp add: work_def frame_work_def)
qed

lemma step_enter_leaf:
  assumes inv: "loop_inv sv dn path ((n, 0) # rest)"
    and new: "n \<notin> set dn" "n \<notin> set path" and leaf: "deps_of sv n = []"
  shows "loop_inv sv (n # dn) path rest"
    and "work sv (n # dn) path rest < work sv dn path ((n, 0) # rest)"
proof -
  have n: "n \<in> set (map fst sv)" using inv by (simp add: loop_inv_def top_ok_def)
  have "top_ok sv (n # dn) path rest"
    using inv by (intro resume [of sv dn n]) (auto simp: loop_inv_def top_ok_def frames_ok_mono)
  then show "loop_inv sv (n # dn) path rest"
    using inv new leaf n by (auto simp: loop_inv_def)
  have "set (map fst sv) - set (n # dn) - set path = set (map fst sv) - set dn - set path - {n}"
    by auto
  then show "work sv (n # dn) path rest < work sv dn path ((n, 0) # rest)"
    unfolding work_unvisited [OF n new] by (simp add: work_def)
qed

lemma step_advance:
  assumes cl: "closed sv" and inv: "loop_inv sv dn path ((n, k) # rest)" and k: "k \<noteq> 0"
    and more: "k < length (deps_of sv n)"
  shows "loop_inv sv dn path ((deps_of sv n ! k, 0) # (n, k + 1) # rest)"
    and "work sv dn path ((deps_of sv n ! k, 0) # (n, k + 1) # rest) < work sv dn path ((n, k) # rest)"
proof -
  have n: "n \<in> set (map fst sv)" using inv by (simp add: loop_inv_def top_ok_def)
  then have "deps_of sv n ! k \<in> set (map fst sv)" using cl more nth_mem by (force simp: closed_def)
  with inv k more have "top_ok sv dn path ((deps_of sv n ! k, 0) # (n, k + 1) # rest)"
    by (simp add: loop_inv_def top_ok_def)
  with inv show "loop_inv sv dn path ((deps_of sv n ! k, 0) # (n, k + 1) # rest)"
    unfolding loop_inv_def by blast
  show "work sv dn path ((deps_of sv n ! k, 0) # (n, k + 1) # rest) < work sv dn path ((n, k) # rest)"
    using k more by (simp add: work_def frame_work_def)
qed

lemma step_finish:
  assumes inv: "loop_inv sv dn path ((n, k) # rest)" and k: "k \<noteq> 0"
    and last: "\<not> k < length (deps_of sv n)"
  shows "loop_inv sv (n # dn) (butlast path) rest"
    and "work sv (n # dn) (butlast path) rest < work sv dn path ((n, k) # rest)"
proof -
  have p: "path = rev (map fst rest) @ [n]" by (rule loop_inv_path [OF inv k])
  have deps: "set (deps_of sv n) \<subseteq> set dn" using inv k last by (auto simp: loop_inv_def top_ok_def)
  have n: "n \<notin> set dn" "n \<notin> set (butlast path)" "n \<in> set (map fst sv)"
    using inv p by (auto simp: loop_inv_def top_ok_def)
  have f: "frames_ok sv dn n rest" using inv by (simp add: loop_inv_def top_ok_def)
  have "top_ok sv (n # dn) (butlast path) rest"
    using f inv by (intro resume [of sv dn n]) (auto simp: p loop_inv_def frames_ok_mono)
  then show "loop_inv sv (n # dn) (butlast path) rest"
    using inv n deps p by (auto simp: loop_inv_def)
  have "set (map fst sv) - set (n # dn) - set (butlast path) = set (map fst sv) - set dn - set path"
    by (auto simp: p)
  then show "work sv (n # dn) (butlast path) rest < work sv dn path ((n, k) # rest)"
    by (simp add: work_def frame_work_def k)
qed

lemma step_progress:
  assumes "closed sv" and inv: "loop_inv sv dn path ((n, k) # rest)"
  shows "case dfs_step sv (dn, path, (n, k) # rest) of
      Inl (Inl e) \<Rightarrow> (\<exists>c m. e = DependencyCycle c m \<and> is_cycle sv c m)
    | Inl (Inr dn') \<Rightarrow> False
    | Inr (dn', path', stack') \<Rightarrow>
        loop_inv sv dn' path' stack' \<and> work sv dn' path' stack' < work sv dn path ((n, k) # rest) \<and>
        set dn \<subseteq> set dn' \<and> fst ` set ((n, k) # rest) \<subseteq> fst ` set stack' \<union> set dn'"
proof (cases "k = 0")
  case True
  show ?thesis
  proof (cases "n \<in> set path")
    case cycle: True
    with True inv_cycle [of sv dn path n rest] inv show ?thesis by auto
  next
    case out: False
    show ?thesis
    proof (cases "n \<in> set dn")
      case old: True
      then show ?thesis using True out step_pop_done [of sv dn path n rest] inv by auto
    next
      case new: False
      show ?thesis
      proof (cases "deps_of sv n")
        case Nil
        then show ?thesis using True out new step_enter_leaf [of sv dn path n rest] inv by auto
      next
        case (Cons d ds)
        then show ?thesis using True out new step_enter [OF assms(1), of dn path n rest] inv by auto
      qed
    qed
  qed
next
  case False
  then show ?thesis
    using step_advance [OF assms False] step_finish [OF inv False]
    by (cases "k < length (deps_of sv n)") auto
qed

lemma dfs_loop_returns:
  assumes "closed sv" and "loop_inv sv dn path stack"
  shows "\<exists>r. dfs_loop sv (dn, path, stack) = Some r \<and>
    (case r of
       Inl e \<Rightarrow> (\<exists>c m. e = DependencyCycle c m \<and> is_cycle sv c m)
     | Inr dn' \<Rightarrow> topo sv dn' \<and> set dn' \<subseteq> set (map fst sv) \<and> set dn \<union> fst ` set stack \<subseteq> set dn')"
  using assms(2)
proof (induction "work sv dn path stack" arbitrary: dn path stack rule: less_induct)
  case less
  show ?case
  proof (cases stack)
    case Nil
    with less.prems show ?thesis by (simp add: dfs_loop.simps loop_inv_def)
  next
    case (Cons f rest)
    obtain n k where f: "f = (n, k)" by (cases f)
    note step = step_progress [OF assms(1) less.prems [unfolded Cons f]]
    show ?thesis
    proof (cases "dfs_step sv (dn, path, (n, k) # rest)")
      case (Inl r)
      with step show ?thesis by (cases r) (auto simp: dfs_loop.simps Cons f)
    next
      case (Inr st')
      obtain dn' path' stack' where st': "st' = (dn', path', stack')" by (cases st')
      have eq: "dfs_loop sv (dn, path, stack) = dfs_loop sv (dn', path', stack')"
        using Inr by (subst dfs_loop.simps) (simp add: Cons f st')
      from step Inr st' have inv': "loop_inv sv dn' path' stack'"
        and lt: "work sv dn' path' stack' < work sv dn path stack"
        and sub: "set dn \<subseteq> set dn'" "fst ` set stack \<subseteq> fst ` set stack' \<union> set dn'"
        by (simp_all add: Cons f)
      from less.hyps [OF lt inv'] obtain r where r: "dfs_loop sv (dn', path', stack') = Some r"
        "case r of Inl e \<Rightarrow> \<exists>c m. e = DependencyCycle c m \<and> is_cycle sv c m
         | Inr d \<Rightarrow> topo sv d \<and> set d \<subseteq> set (map fst sv) \<and> set dn' \<union> fst ` set stack' \<subseteq> set d"
        by blast
      show ?thesis
      proof (cases r)
        case (Inl e)
        with r show ?thesis unfolding eq by simp
      next
        case (Inr d)
        then have "set dn' \<union> fst ` set stack' \<subseteq> set d" using r(2) by simp
        then have "set dn \<union> fst ` set stack \<subseteq> set d" using sub by blast
        with r Inr show ?thesis unfolding eq by simp
      qed
    qed
  qed
qed

lemma loop_inv_start:
  "topo sv dn \<Longrightarrow> set dn \<subseteq> set (map fst sv) \<Longrightarrow> s \<in> set (map fst sv) \<Longrightarrow> loop_inv sv dn [] [(s, 0)]"
  by (simp add: loop_inv_def top_ok_def)

lemma dfs_starts_returns:
  assumes "closed sv" and "topo sv dn" and "set dn \<subseteq> set (map fst sv)" and "set starts \<subseteq> set (map fst sv)"
  shows "\<exists>r. dfs_starts sv dn starts = Some r \<and>
    (case r of
       Inl e \<Rightarrow> (\<exists>c m. e = DependencyCycle c m \<and> is_cycle sv c m)
     | Inr dn' \<Rightarrow> topo sv dn' \<and> set dn \<union> set starts \<subseteq> set dn')"
  using assms(2-)
proof (induction starts arbitrary: dn)
  case (Cons s starts)
  show ?case
  proof (cases "s \<in> set dn")
    case True
    obtain r where r: "dfs_starts sv dn starts = Some r"
      "case r of Inl e \<Rightarrow> \<exists>c m. e = DependencyCycle c m \<and> is_cycle sv c m
       | Inr d \<Rightarrow> topo sv d \<and> set dn \<union> set starts \<subseteq> set d"
      using Cons.IH [of dn] Cons.prems by auto
    with True show ?thesis by (cases r) auto
  next
    case False
    have s: "s \<in> set (map fst sv)" using Cons.prems(3) by simp
    obtain r where r: "dfs_loop sv (dn, [], [(s, 0)]) = Some r"
      "case r of Inl e \<Rightarrow> \<exists>c m. e = DependencyCycle c m \<and> is_cycle sv c m
       | Inr d \<Rightarrow> topo sv d \<and> set d \<subseteq> set (map fst sv) \<and> set dn \<union> fst ` set [(s, 0::nat)] \<subseteq> set d"
      using dfs_loop_returns [OF assms(1) loop_inv_start [OF Cons.prems(1,2) s]]
      by (elim exE conjE) (rule that, assumption+)
    show ?thesis
    proof (cases r)
      case (Inl e)
      with r False show ?thesis by auto
    next
      case (Inr d)
      obtain r' where r': "dfs_starts sv d starts = Some r'"
        "case r' of Inl e \<Rightarrow> \<exists>c m. e = DependencyCycle c m \<and> is_cycle sv c m
         | Inr d' \<Rightarrow> topo sv d' \<and> set d \<union> set starts \<subseteq> set d'"
        using Cons.IH [of d] Cons.prems r(2) Inr by auto
      with r False Inr show ?thesis by (cases r') auto
    qed
  qed
qed simp

section \<open>What the check decides\<close>

lemma check_known_closed:
  assumes "bt_ok sv"
  shows "check_known sv = Inr () \<longleftrightarrow> closed sv"
proof -
  have "check_known sv = Inr () \<longleftrightarrow>
      (\<forall>(n, d)\<in>set sv. \<forall>dep\<in>set (sd_depends d). dep \<in> set (map fst sv))"
    by (auto simp: check_known_def for_each_Inr ensure_Inr bt_contains_iff)
  also have "\<dots> \<longleftrightarrow> closed sv"
    using assms by (auto simp: closed_def deps_of_def bt_get_iff [symmetric] split: option.splits)
  finally show ?thesis .
qed

lemma depends_decided:
  assumes "bt_ok sv"
  shows "\<exists>r. validate_depends sv = Some r \<and>
    (r = Inr () \<longleftrightarrow> closed sv \<and> acyclic (depends_on sv)) \<and>
    (\<forall>c n. r = Inl (DependencyCycle c n) \<longrightarrow> is_cycle sv c n)"
proof (cases "check_known sv")
  case (Inl e)
  then have "\<not> closed sv" using check_known_closed [OF assms] by auto
  moreover have "e \<noteq> DependencyCycle c n" for c n
  proof
    assume "e = DependencyCycle c n"
    with Inl show False
      by (auto simp: check_known_def ensure_def split: if_splits dest!: for_each_InlD)
  qed
  ultimately show ?thesis using Inl by (simp add: validate_depends_def)
next
  case (Inr u)
  then have cl: "closed sv" using check_known_closed [OF assms] by simp
  obtain r where r: "dfs_starts sv [] (map fst sv) = Some r"
    "case r of Inl e \<Rightarrow> \<exists>c m. e = DependencyCycle c m \<and> is_cycle sv c m
     | Inr d \<Rightarrow> topo sv d \<and> set [] \<union> set (map fst sv) \<subseteq> set d"
    using dfs_starts_returns [OF cl, of "[]" "map fst sv"] by auto
  show ?thesis
  proof (cases r)
    case (Inl e)
    with r(2) obtain c m where e: "e = DependencyCycle c m" "is_cycle sv c m" by auto
    then have "\<not> acyclic (depends_on sv)" using is_cycle_trancl by (auto simp: acyclic_def)
    with r(1) Inl Inr e show ?thesis by (simp add: validate_depends_def)
  next
    case r': (Inr d)
    have "(a, a) \<notin> (depends_on sv)\<^sup>+" for a
    proof
      assume a: "(a, a) \<in> (depends_on sv)\<^sup>+"
      then obtain b where "b \<in> set (deps_of sv a)" by (auto simp: depends_on_def dest: tranclD)
      then have "a \<in> set (map fst sv)" by (rule deps_of_key)
      with a r(2) r' topo_no_cycle [of sv d a] show False by auto
    qed
    then have "acyclic (depends_on sv)" by (simp add: acyclic_def)
    with cl r(1) Inr r' show ?thesis by (simp add: validate_depends_def)
  qed
qed

text \<open>
  C36: The dependency check always returns. It accepts exactly the definitions in which
  every dependency is a known service and no service depends on itself through any chain of
  dependencies, and the cycle it reports is one.
\<close>

theorem validate_depends_decides:
  assumes "bt_ok sv"
  shows "\<exists>r. validate_depends sv = Some r \<and>
    (r = Inr () \<longleftrightarrow> closed sv \<and> acyclic (depends_on sv)) \<and>
    (\<forall>c n. r = Inl (DependencyCycle c n) \<longrightarrow> is_cycle sv c n)"
  using assms by (rule depends_decided)

definition sample_service :: "string \<Rightarrow> string list \<Rightarrow> service_definition" where
  "sample_service name deps =
     \<lparr>sd_name = name, sd_run = [''run''], sd_dir = ''/repo'', sd_port = None, sd_host = None,
      sd_mode = ModeHttp, sd_ready = ReadyNone, sd_depends = deps, sd_restart = RestartAlways,
      sd_stop_grace_ms = 5000, sd_env_files = [], sd_env = [], sd_secrets = [], sd_secrets_optional = False,
      sd_watch = [], sd_watch_mode = WatchPoll, sd_watch_debounce_ms = 500, sd_groups = [], sd_project = None\<rparr>"

lemma validate_depends_decides_witness:
  "\<exists>r. validate_depends [(''a'', sample_service ''a'' [''b'']), (''b'', sample_service ''b'' [])] = Some r \<and>
    (r = Inr () \<longleftrightarrow> closed [(''a'', sample_service ''a'' [''b'']), (''b'', sample_service ''b'' [])] \<and>
       acyclic (depends_on [(''a'', sample_service ''a'' [''b'']), (''b'', sample_service ''b'' [])])) \<and>
    (\<forall>c n. r = Inl (DependencyCycle c n) \<longrightarrow>
       is_cycle [(''a'', sample_service ''a'' [''b'']), (''b'', sample_service ''b'' [])] c n)"
  by (rule validate_depends_decides) code_simp

end
