(* ===== verification/Net_Addr.thy ===== *)
theory Net_Addr
  imports Rust_Text
begin

text \<open>
  The IP address parsers of Rust's standard library, as far as the repository uses them
  (\<open>str::parse\<close> at \<open>Ipv4Addr\<close>, \<open>IpAddr\<close> and \<open>SocketAddrV4\<close>). A parser takes the remaining
  input and returns a value and the rest, or nothing, leaving the input where it was.
\<close>

section \<open>Numbers\<close>

fun take_digits :: "nat \<Rightarrow> string \<Rightarrow> nat list \<times> string" where
  "take_digits radix [] = ([], [])"
| "take_digits radix (c # s) =
     (case to_digit radix c of
        None \<Rightarrow> ([], c # s)
      | Some d \<Rightarrow> (case take_digits radix s of (ds, rest) \<Rightarrow> (d # ds, rest)))"

definition digits_number :: "nat \<Rightarrow> nat list \<Rightarrow> nat" where
  "digits_number radix ds = foldl (\<lambda>acc d. acc * radix + d) 0 ds"

text \<open>
  \<open>read_number\<close>: every digit in sight, at most \<open>max_digits\<close> of them, a value that fits, and
  without \<open>allow_zero_prefix\<close> no leading zero on more than one digit.
\<close>

definition read_number ::
  "nat \<Rightarrow> nat option \<Rightarrow> bool \<Rightarrow> nat \<Rightarrow> string \<Rightarrow> (nat \<times> string) option" where
  "read_number radix max_digits allow_zero_prefix maxv s =
     (case take_digits radix s of (ds, rest) \<Rightarrow>
        if ds = [] then None
        else if (case max_digits of Some m \<Rightarrow> length ds > m | None \<Rightarrow> False) then None
        else if digits_number radix ds > maxv then None
        else if \<not> allow_zero_prefix \<and> hd ds = 0 \<and> length ds > 1 then None
        else Some (digits_number radix ds, rest))"

fun read_char :: "char \<Rightarrow> string \<Rightarrow> string option" where
  "read_char d [] = None"
| "read_char d (c # s) = (if c = d then Some s else None)"

section \<open>IPv4\<close>

datatype ipv4 = Ipv4 nat nat nat nat

definition read_octet :: "string \<Rightarrow> (nat \<times> string) option" where
  "read_octet s = read_number 10 (Some 3) False 255 s"

definition read_dot_octet :: "string \<Rightarrow> (nat \<times> string) option" where
  "read_dot_octet s = Option.bind (read_char CHR ''.'' s) read_octet"

definition read_ipv4 :: "string \<Rightarrow> (ipv4 \<times> string) option" where
  "read_ipv4 s =
     (case read_octet s of None \<Rightarrow> None | Some (a, s) \<Rightarrow>
     (case read_dot_octet s of None \<Rightarrow> None | Some (b, s) \<Rightarrow>
     (case read_dot_octet s of None \<Rightarrow> None | Some (c, s) \<Rightarrow>
     (case read_dot_octet s of None \<Rightarrow> None | Some (d, s) \<Rightarrow> Some (Ipv4 a b c d, s)))))"

fun whole :: "('a \<times> string) option \<Rightarrow> 'a option" where
  "whole (Some (a, [])) = Some a"
| "whole _ = None"

definition parse_ipv4 :: "string \<Rightarrow> ipv4 option" where
  "parse_ipv4 s = (if length s > 15 then None else whole (read_ipv4 s))"

fun show_ipv4 :: "ipv4 \<Rightarrow> string" where
  "show_ipv4 (Ipv4 a b c d) =
     show_nat a @ ''.'' @ show_nat b @ ''.'' @ show_nat c @ ''.'' @ show_nat d"

text \<open>\<open>SocketAddrV4\<close>: an address, a colon and a port with any number of digits.\<close>

definition parse_socket_v4 :: "string \<Rightarrow> (ipv4 \<times> u16) option" where
  "parse_socket_v4 s =
     (case read_ipv4 s of None \<Rightarrow> None | Some (ip, s) \<Rightarrow>
     (case Option.bind (read_char CHR '':'' s) (read_number 10 None True 65535) of
        Some (port, []) \<Rightarrow> Some (ip, of_nat port)
      | _ \<Rightarrow> None))"

section \<open>IPv6\<close>

text \<open>\<open>read_separator(':', i, p)\<close>: a colon first, except before the first group.\<close>

definition after_colon :: "nat \<Rightarrow> string \<Rightarrow> string option" where
  "after_colon i s = (if i = 0 then Some s else read_char CHR '':'' s)"

text \<open>
  \<open>read_groups\<close>: up to \<open>limit\<close> groups; while at least two are left, a trailing IPv4 address
  counts as two. Returns the groups, whether they end in an IPv4 address, and the rest.
\<close>

function read_groups :: "nat \<Rightarrow> nat \<Rightarrow> string \<Rightarrow> nat list \<times> bool \<times> string" where
  "read_groups limit i s =
     (if limit \<le> i then ([], False, s)
      else
        (case (if i < limit - 1 then Option.bind (after_colon i s) read_ipv4 else None) of
           Some (Ipv4 a b c d, rest) \<Rightarrow> ([a * 256 + b, c * 256 + d], True, rest)
         | None \<Rightarrow>
             (case Option.bind (after_colon i s) (read_number 16 (Some 4) True 65535) of
                Some (g, rest) \<Rightarrow>
                  (case read_groups limit (i + 1) rest of (gs, v4, rest') \<Rightarrow> (g # gs, v4, rest'))
              | None \<Rightarrow> ([], False, s))))"
  by pat_completeness auto
termination
  by (relation "measure (\<lambda>(limit, i, s). limit - i)") auto

declare read_groups.simps [simp del]

definition read_ipv6 :: "string \<Rightarrow> (nat list \<times> string) option" where
  "read_ipv6 s =
     (case read_groups 8 0 s of (head, head_ipv4, s1) \<Rightarrow>
        if length head = 8 then Some (head, s1)
        else if head_ipv4 then None
        else (case Option.bind (read_char CHR '':'' s1) (read_char CHR '':'') of
            None \<Rightarrow> None
          | Some s2 \<Rightarrow>
              (case read_groups (8 - (length head + 1)) 0 s2 of (tail, _, s3) \<Rightarrow>
                 Some (head @ replicate (8 - length head - length tail) 0 @ tail, s3))))"

datatype ip_addr = V4 ipv4 | V6 "nat list"

definition parse_ip_addr :: "string \<Rightarrow> ip_addr option" where
  "parse_ip_addr s =
     (case read_ipv4 s of
        Some (ip, rest) \<Rightarrow> whole (Some (V4 ip, rest))
      | None \<Rightarrow> whole (map_option (\<lambda>(gs, rest). (V6 gs, rest)) (read_ipv6 s)))"

fun is_loopback :: "ip_addr \<Rightarrow> bool" where
  "is_loopback (V4 (Ipv4 a b c d)) = (a = 127)"
| "is_loopback (V6 gs) = (gs = [0, 0, 0, 0, 0, 0, 0, 1])"

section \<open>Facts\<close>

lemma take_digits_append:
  "(\<And>c. c \<in> set s \<Longrightarrow> to_digit r c \<noteq> None) \<Longrightarrow> (t = [] \<or> to_digit r (hd t) = None) \<Longrightarrow>
   take_digits r (s @ t) = (map (\<lambda>c. the (to_digit r c)) s, t)"
proof (induction s)
  case Nil
  then show ?case by (cases t) auto
next
  case (Cons c s)
  have "to_digit r c \<noteq> None" using Cons.prems(1) by simp
  then obtain d where "to_digit r c = Some d" by blast
  with Cons show ?case by simp
qed

lemma digits_number_value:
  "(\<And>c. c \<in> set s \<Longrightarrow> to_digit r c \<noteq> None) \<Longrightarrow>
   digits_value r acc s = Some (foldl (\<lambda>acc d. acc * r + d) acc (map (\<lambda>c. the (to_digit r c)) s))"
  by (induction s arbitrary: acc) (auto split: option.splits)

lemma to_digit_of_digit: "is_ascii_digit c \<Longrightarrow> to_digit 10 c \<noteq> None"
  by (auto simp: to_digit_def is_ascii_digit_def Let_def)

lemma show_nat_hd:
  assumes "n \<ge> 10"
  shows "to_digit 10 (hd (show_nat n)) \<noteq> Some 0"
  using assms
proof (induction n rule: show_nat.induct)
  case (1 n)
  have hd: "hd (show_nat n) = hd (show_nat (n div 10))"
    using "1.prems" show_nat_not_Nil by (subst show_nat.simps) simp
  show ?case
  proof (cases "n div 10 < 10")
    case True
    then have "show_nat (n div 10) = [digit_char (n div 10)]" by (simp add: show_nat.simps)
    then show ?thesis using True "1.prems" hd by (simp add: to_digit_digit_char)
  next
    case False
    with "1.IH" "1.prems" hd show ?thesis by simp
  qed
qed

lemma length_show_nat: "n < 1000 \<Longrightarrow> length (show_nat n) \<le> 3"
proof -
  assume n: "n < 1000"
  have "length (show_nat k) \<le> 1" if "k < 10" for k using that by (simp add: show_nat.simps)
  moreover from this have "length (show_nat k) \<le> 2" if "k < 100" for k
    using that by (subst show_nat.simps) (auto simp: le_diff_conv)
  ultimately show ?thesis using n by (subst show_nat.simps) (auto simp: le_diff_conv)
qed

lemma read_octet_show:
  assumes "n < 256" and "t = [] \<or> to_digit 10 (hd t) = None"
  shows "read_octet (show_nat n @ t) = Some (n, t)"
proof -
  define ds where "ds = map (\<lambda>c. the (to_digit 10 c)) (show_nat n)"
  have dig: "c \<in> set (show_nat n) \<Longrightarrow> to_digit 10 c \<noteq> None" for c
    using show_nat_digits to_digit_of_digit by blast
  have td: "take_digits 10 (show_nat n @ t) = (ds, t)"
    unfolding ds_def by (rule take_digits_append [OF dig assms(2)])
  have num: "digits_number 10 ds = n"
  proof -
    have "digits_value 10 0 (show_nat n) = Some (digits_number 10 ds)"
      unfolding digits_number_def ds_def by (rule digits_number_value) (rule dig)
    then show ?thesis by (simp add: digits_value_show_nat)
  qed
  have len: "length ds \<le> 3" using assms(1) length_show_nat [of n] by (simp add: ds_def)
  have ne: "ds \<noteq> []" by (simp add: ds_def)
  have "\<not> (hd ds = 0 \<and> length ds > 1)"
  proof
    assume z: "hd ds = 0 \<and> length ds > 1"
    then have "n \<ge> 10" by (auto simp: ds_def show_nat.simps [of n] split: if_splits)
    then have "to_digit 10 (hd (show_nat n)) \<noteq> Some 0" by (rule show_nat_hd)
    moreover have "hd (show_nat n) \<in> set (show_nat n)" by simp
    then have "to_digit 10 (hd (show_nat n)) \<noteq> None" by (rule dig)
    ultimately show False using z by (auto simp: ds_def hd_map)
  qed
  then show ?thesis using td num len ne assms(1) by (simp add: read_octet_def read_number_def)
qed

lemma parse_show_ipv4:
  assumes "a < 256" "b < 256" "c < 256" "d < 256"
  shows "read_ipv4 (show_ipv4 (Ipv4 a b c d)) = Some (Ipv4 a b c d, [])"
proof -
  have dot: "to_digit 10 CHR ''.'' = None" by code_simp
  show ?thesis
    using assms read_octet_show [of d "[]"]
    by (simp add: read_ipv4_def read_octet_show read_dot_octet_def dot)
qed

end
