(* ===== verification/Service_Config.thy ===== *)
theory Service_Config
  imports Depends Stores Net_Addr Tld Registry
begin

text \<open>
  Repo configs, \<open>portman-core/src/service_config.rs\<close>: the raw TOML shapes, the field-level
  merge of the local overlay, and the resolution and validation that turn them into service
  definitions, secrets blocks and egress routes. \<open>toml::from_str\<close> and \<open>shlex::split\<close> are
  parameters. Each \<open>bail!\<close> is a constructor of the error type; contexts that only add the
  name of the enclosing block are constructors around it.
\<close>

section \<open>Raw shapes\<close>

datatype raw_run = RunLine string | RunArgv "string list"
datatype raw_retry = RetryFlag bool | RetryLimit u32

record raw_service =
  rs_run :: "raw_run option"
  rs_dir :: "string option"
  rs_port :: "u16 option"
  rs_host :: "string option"
  rs_mode :: "mode option"
  rs_ready_port :: "u16 option"
  rs_ready_delay_ms :: "u64 option"
  rs_depends :: "string list option"
  rs_retry :: "raw_retry option"
  rs_stop_grace_ms :: "u64 option"
  rs_env_files :: "string list option"
  rs_env :: "(string, string) btree option"
  rs_secrets :: "string list option"
  rs_secrets_optional :: "bool option"
  rs_watch :: "string list option"
  rs_watch_mode :: "watch_mode option"
  rs_watch_debounce_ms :: "u64 option"
  rs_groups :: "string list option"

record raw_secrets =
  rx_provider :: string
  rx_url :: "string option"
  rx_project_id :: "string option"
  rx_environment :: "string option"
  rx_paths :: "string list option"
  rx_api_version :: "infisical_api_version option"
  rx_mode :: "infisical_mode option"
  rx_refs :: "(string, string) btree option"
  rx_keys :: "string list option"

record raw_egress =
  rg_require_caller_token :: bool
  rg_host :: string
  rg_target :: string
  rg_secrets :: string
  rg_key :: string
  rg_header :: string
  rg_format :: string
  rg_upstream_host :: "string option"
  rg_tls :: bool

definition default_egress_header :: string where
  "default_egress_header = ''Authorization''"

definition default_egress_format :: string where
  "default_egress_format = ''Bearer {value}''"

record raw_config =
  rc_project :: "string option"
  rc_groups :: "string list"
  rc_service :: "(string, raw_service) btree"
  rc_secrets :: "(string, raw_secrets) btree"
  rc_egress :: "(string, raw_egress) btree"

definition raw_config_default :: raw_config where
  "raw_config_default =
     \<lparr>rc_project = None, rc_groups = [], rc_service = [], rc_secrets = [], rc_egress = []\<rparr>"

record service_config =
  sc_root :: path
  sc_services :: services
  sc_secrets :: "(string, secrets_provider_config) btree"
  sc_egress :: "(string, egress_route) btree"

section \<open>Errors\<close>

datatype host_owner = OwnerService string | OwnerEgress string

datatype config_error =
  NameLength string | NameChars string | GroupTagLength string | GroupTagChars string
| UnbalancedQuotes string | RunRequired | RunEmpty
| BadHost host_error | BadTarget target_error | HostIsDashboard | BadMode | LocalhostTcp
| HostWithoutPort | PortZero | ReadyBoth | ReadyPortZero | UnknownSecretsBlock string
| DebounceZero | WatchOptionsWithoutWatch
| FieldNotValid string string | FieldRequired string | UnknownProvider string
| FieldEmpty string | PathsEmpty | RefsEmpty | BadEnvKey string | RefNotOp string
| KeysEmpty | KeyTwice string | KeyNotAllowed string string
| EgressKeyEmpty | FormatWithoutValue | HeaderNotToken | FormatLineBreak
| UpstreamHostLineBreak | UpstreamHostBlank | TlsRequired string
| HostClaimedTwice string host_owner host_owner
| Depends depends_error
| InSecrets string config_error | InService string config_error | InEgress string config_error
| InFileGroups config_error | InFileProject config_error

section \<open>Names, tags and keys\<close>

definition name_char :: "char \<Rightarrow> bool" where
  "name_char c \<longleftrightarrow> is_ascii_alphanumeric c \<or> c \<in> set ''._-''"

definition validate_name :: "string \<Rightarrow> config_error + unit" where
  "validate_name name =
     (if name = [] \<or> length name > 64 then Inl (NameLength name)
      else if \<not> list_all name_char name then Inl (NameChars name)
      else Inr ())"

definition validate_service_name :: "string \<Rightarrow> config_error + unit" where
  "validate_service_name name = validate_name name"

definition validate_egress_name :: "string \<Rightarrow> config_error + unit" where
  "validate_egress_name name = validate_name name"

definition validate_group_tag :: "string \<Rightarrow> config_error + unit" where
  "validate_group_tag tag =
     (if tag = [] \<or> length tag > 64 then Inl (GroupTagLength tag)
      else if \<not> list_all name_char tag then Inl (GroupTagChars tag)
      else Inr ())"

fun env_key_ok :: "string \<Rightarrow> bool" where
  "env_key_ok [] = False"
| "env_key_ok (c # cs) =
     ((c = CHR ''_'' \<or> is_ascii_alphabetic c) \<and>
      list_all (\<lambda>c. c = CHR ''_'' \<or> is_ascii_alphanumeric c) cs)"

definition validate_env_key :: "string \<Rightarrow> config_error + unit" where
  "validate_env_key key = ensure (env_key_ok key) (BadEnvKey key)"

section \<open>Secrets blocks\<close>

fun reject_fields :: "string \<Rightarrow> (string \<times> bool) list \<Rightarrow> config_error + unit" where
  "reject_fields provider [] = Inr ()"
| "reject_fields provider ((field, is_set) # fs) =
     (if is_set then Inl (FieldNotValid field provider) else reject_fields provider fs)"

definition resolve_secrets :: "raw_secrets \<Rightarrow> config_error + secrets_provider_config" where
  "resolve_secrets raw =
     (if rx_provider raw = ''infisical'' then
        and_then (reject_fields ''infisical''
          [(''refs'', rx_refs raw \<noteq> None), (''keys'', rx_keys raw \<noteq> None)]) (\<lambda>_.
        and_then (ok_or (FieldRequired ''url'') (rx_url raw)) (\<lambda>url.
        and_then (ok_or (FieldRequired ''project_id'') (rx_project_id raw)) (\<lambda>project_id.
        and_then (ok_or (FieldRequired ''environment'') (rx_environment raw)) (\<lambda>environment.
        and_then (ok_or (FieldRequired ''paths'') (rx_paths raw)) (\<lambda>paths.
          Inr (Infisical url project_id environment paths
            (unwrap_or (rx_api_version raw) ApiV3) (unwrap_or (rx_mode raw) InfisicalNative)))))))
      else if rx_provider raw = ''1password'' then
        and_then (reject_fields ''1password''
          [(''url'', rx_url raw \<noteq> None), (''project_id'', rx_project_id raw \<noteq> None),
           (''environment'', rx_environment raw \<noteq> None), (''paths'', rx_paths raw \<noteq> None),
           (''api_version'', rx_api_version raw \<noteq> None), (''mode'', rx_mode raw \<noteq> None),
           (''keys'', rx_keys raw \<noteq> None)]) (\<lambda>_.
        and_then (ok_or (FieldRequired ''refs'') (rx_refs raw)) (\<lambda>refs. Inr (OnePassword refs)))
      else if rx_provider raw = ''local'' then
        and_then (reject_fields ''local''
          [(''url'', rx_url raw \<noteq> None), (''project_id'', rx_project_id raw \<noteq> None),
           (''environment'', rx_environment raw \<noteq> None), (''paths'', rx_paths raw \<noteq> None),
           (''api_version'', rx_api_version raw \<noteq> None), (''mode'', rx_mode raw \<noteq> None),
           (''refs'', rx_refs raw \<noteq> None)]) (\<lambda>_.
        and_then (ok_or (FieldRequired ''keys'') (rx_keys raw)) (\<lambda>keys. Inr (LocalVault keys)))
      else Inl (UnknownProvider (rx_provider raw)))"

text \<open>The loop over \<open>keys\<close> with its set of seen keys.\<close>

fun check_keys :: "string list \<Rightarrow> string list \<Rightarrow> config_error + unit" where
  "check_keys seen [] = Inr ()"
| "check_keys seen (key # keys) =
     and_then (validate_env_key key) (\<lambda>_.
       if key \<in> set seen then Inl (KeyTwice key) else check_keys (key # seen) keys)"

fun validate_block_config :: "secrets_provider_config \<Rightarrow> config_error + unit" where
  "validate_block_config (Infisical url project_id environment paths _ _) =
     and_then (for_each (\<lambda>(field, v). ensure (trim v \<noteq> []) (FieldEmpty field))
       [(''url'', url), (''project_id'', project_id), (''environment'', environment)]) (\<lambda>_.
     ensure (\<not> (paths = [] \<or> list_ex (\<lambda>p. trim p = []) paths)) PathsEmpty)"
| "validate_block_config (OnePassword refs) =
     (if refs = [] then Inl RefsEmpty
      else for_each (\<lambda>(key, reference).
        and_then (validate_env_key key) (\<lambda>_.
          ensure (starts_with ''op://'' reference) (RefNotOp key))) refs)"
| "validate_block_config (LocalVault keys) =
     (if keys = [] then Inl KeysEmpty else check_keys [] keys)"

definition validate_secrets_block :: "string \<Rightarrow> secrets_provider_config \<Rightarrow> config_error + unit" where
  "validate_secrets_block name config =
     and_then (validate_name name) (\<lambda>_. validate_block_config config)"

fun egress_key_allowed :: "string \<Rightarrow> secrets_provider_config \<Rightarrow> string \<Rightarrow> config_error + unit" where
  "egress_key_allowed block_name (LocalVault keys) key =
     ensure (key \<in> set keys) (KeyNotAllowed block_name key)"
| "egress_key_allowed block_name _ key = Inr ()"

section \<open>Egress routes\<close>

definition has_line_break :: "string \<Rightarrow> bool" where
  "has_line_break s \<longleftrightarrow> list_ex (\<lambda>c. c = CHR 0x0D \<or> c = CHR 0x0A) s"

definition is_rfc7230_token :: "string \<Rightarrow> bool" where
  "is_rfc7230_token s \<longleftrightarrow> s \<noteq> [] \<and>
     list_all (\<lambda>c. is_ascii_alphanumeric c \<or> c \<in> set (''!#$%&'' @ [CHR 0x27] @ ''*+-.^_`|~'')) s"

text \<open>\<open>trim_matches(['[', ']'])\<close>.\<close>

definition trim_brackets :: "string \<Rightarrow> string" where
  "trim_brackets s =
     (let bracket = (\<lambda>c. c = CHR ''['' \<or> c = CHR '']'')
      in rev (dropWhile bracket (rev (dropWhile bracket s))))"

definition is_loopback_host :: "string \<Rightarrow> bool" where
  "is_loopback_host host =
     (let host = trim_brackets (trim host) in
      eq_ignore_ascii_case host ''localhost'' \<or>
      (case parse_ip_addr host of Some ip \<Rightarrow> is_loopback ip | None \<Rightarrow> False))"

text \<open>The host part of a validated target.\<close>

definition target_host :: "string \<Rightarrow> string" where
  "target_host target = (case rsplit_once CHR '':'' target of Some (h, _) \<Rightarrow> h | None \<Rightarrow> target)"

definition resolve_upstream_host :: "string option \<Rightarrow> string \<Rightarrow> config_error + string" where
  "resolve_upstream_host upstream target =
     (case upstream of
        Some h \<Rightarrow> if trim h \<noteq> [] then Inr h else Inl UpstreamHostBlank
      | None \<Rightarrow> Inr (target_host target))"

definition resolve_egress ::
  "raw_egress \<Rightarrow> (string, secrets_provider_config) btree \<Rightarrow> config_error + egress_route" where
  "resolve_egress raw secrets =
     and_then (map_err BadHost (validate_host (rg_host raw))) (\<lambda>host.
     and_then (ensure (host \<noteq> dashboard_host) HostIsDashboard) (\<lambda>_.
     and_then (map_err BadTarget (validate_target (rg_target raw))) (\<lambda>target.
     and_then (ensure (trim (rg_key raw) \<noteq> []) EgressKeyEmpty) (\<lambda>_.
     and_then (case bt_get secrets (rg_secrets raw) of
         Some block \<Rightarrow> egress_key_allowed (rg_secrets raw) block (rg_key raw)
       | None \<Rightarrow> Inr ()) (\<lambda>_.
     and_then (ensure (contains_str ''{value}'' (rg_format raw)) FormatWithoutValue) (\<lambda>_.
     and_then (ensure (\<not> (has_line_break (rg_header raw) \<or> \<not> is_rfc7230_token (rg_header raw)))
       HeaderNotToken) (\<lambda>_.
     and_then (ensure (\<not> has_line_break (rg_format raw)) FormatLineBreak) (\<lambda>_.
     and_then (case rg_upstream_host raw of
         Some h \<Rightarrow> ensure (\<not> has_line_break h) UpstreamHostLineBreak
       | None \<Rightarrow> Inr ()) (\<lambda>_.
     and_then (resolve_upstream_host (rg_upstream_host raw) target) (\<lambda>upstream_host.
     and_then (ensure (rg_tls raw \<or> is_loopback_host (target_host target))
       (TlsRequired (target_host target))) (\<lambda>_.
       Inr \<lparr>er_host = host, er_target = target,
            er_spec = \<lparr>es_require_caller_token = rg_require_caller_token raw,
              es_secrets = rg_secrets raw, es_key = rg_key raw, es_header = rg_header raw,
              es_format = rg_format raw, es_upstream_host = upstream_host,
              es_tls = rg_tls raw\<rparr>\<rparr>)))))))))))"

section \<open>What a resolved route guarantees\<close>

text \<open>
  A credential that leaves in cleartext stays on this machine; the header line that carries
  it is one line and its name one token.
\<close>

definition egress_ok :: "egress_route \<Rightarrow> bool" where
  "egress_ok r \<longleftrightarrow>
     host_grammar (er_host r) \<and> to_ascii_lowercase (er_host r) = er_host r \<and>
     er_host r \<noteq> dashboard_host \<and>
     validate_target (er_target r) = Inr (er_target r) \<and>
     trim (es_key (er_spec r)) \<noteq> [] \<and>
     contains_str ''{value}'' (es_format (er_spec r)) \<and>
     is_rfc7230_token (es_header (er_spec r)) \<and>
     \<not> has_line_break (es_format (er_spec r)) \<and>
     (es_tls (er_spec r) \<or> is_loopback_host (target_host (er_target r)))"

lemma resolve_egress_fields:
  assumes "resolve_egress raw secrets = Inr r"
  shows "validate_host (rg_host raw) = Inr (er_host r)" "er_host r \<noteq> dashboard_host"
    "validate_target (rg_target raw) = Inr (er_target r)"
    "trim (es_key (er_spec r)) \<noteq> []" "contains_str ''{value}'' (es_format (er_spec r))"
    "is_rfc7230_token (es_header (er_spec r))" "\<not> has_line_break (es_format (er_spec r))"
    "es_tls (er_spec r) \<or> is_loopback_host (target_host (er_target r))"
    "es_secrets (er_spec r) = rg_secrets raw" "es_key (er_spec r) = rg_key raw"
    "es_tls (er_spec r) = rg_tls raw"
    "es_require_caller_token (er_spec r) = rg_require_caller_token raw"
    "bt_get secrets (rg_secrets raw) = Some block \<Longrightarrow> egress_key_allowed (rg_secrets raw) block (rg_key raw) = Inr ()"
  using assms by (auto simp: resolve_egress_def and_then_Inr map_err_Inr ensure_Inr)

lemma resolve_egress_ok: "resolve_egress raw secrets = Inr r \<Longrightarrow> egress_ok r"
  using resolve_egress_fields [of raw secrets r] validate_host_normal validate_target_idem
  by (auto simp: egress_ok_def)

lemma has_line_break_append [simp]: "has_line_break (a @ b) \<longleftrightarrow> has_line_break a \<or> has_line_break b"
  by (auto simp: has_line_break_def)

lemma has_line_break_Cons: "has_line_break (c # s) \<longleftrightarrow> c = CHR 0x0D \<or> c = CHR 0x0A \<or> has_line_break s"
  by (auto simp: has_line_break_def)

lemma has_line_break_Nil [simp]: "\<not> has_line_break []"
  by (simp add: has_line_break_def)

lemma replace_no_line_break:
  "\<not> has_line_break s \<Longrightarrow> \<not> has_line_break t \<Longrightarrow> \<not> has_line_break (replace_str p t s)"
proof (induction p t s rule: replace_str.induct)
  case (1 p t s)
  show ?case
  proof (cases "p = [] \<or> s = []")
    case True
    then show ?thesis using 1 by (auto simp: replace_str.simps [of p t s] split: list.splits)
  next
    case False
    then obtain c cs where s: "s = c # cs" "p \<noteq> []" by (cases s) auto
    show ?thesis
    proof (cases "strip_prefix p s")
      case None
      then have "replace_str p t s = c # replace_str p t cs" using s by (simp add: replace_str_miss)
      moreover have "\<not> has_line_break (replace_str p t cs)"
        using "1.IH" None s "1.prems" by (auto simp: has_line_break_Cons)
      ultimately show ?thesis using "1.prems"(1) s by (simp add: has_line_break_Cons)
    next
      case (Some rest)
      then have r: "s = p @ rest" by (simp add: strip_prefix_Some)
      then have "replace_str p t s = t @ replace_str p t rest" using s(2) by (simp add: replace_str_hit)
      moreover have "\<not> has_line_break (replace_str p t rest)"
      proof -
        have "\<not> has_line_break rest" using "1.prems"(1) unfolding r by simp
        then show ?thesis using "1.IH" Some s "1.prems"(2) by auto
      qed
      ultimately show ?thesis using "1.prems"(2) by simp
    qed
  qed
qed

lemma token_no_line_break: "is_rfc7230_token s \<Longrightarrow> \<not> has_line_break s"
  by (auto simp: is_rfc7230_token_def has_line_break_def list_ex_iff list_all_iff ascii_defs)

text \<open>
  C32: A resolved egress route cannot leak or smuggle: its host is a normalised host other
  than the dashboard, its cleartext hop goes only to the local machine, the key is one its
  local block lists, and the credential line built from any secret without line breaks is a
  single line whose name is an HTTP token and whose value contains the secret in full.
\<close>

theorem resolve_egress_safe:
  assumes "resolve_egress raw secrets = Inr r" and "\<not> has_line_break v"
  shows "egress_ok r \<and>
    (\<not> es_tls (er_spec r) \<longrightarrow> is_loopback_host (target_host (er_target r))) \<and>
    (\<forall>keys. bt_get secrets (rg_secrets raw) = Some (LocalVault keys) \<longrightarrow> es_key (er_spec r) \<in> set keys) \<and>
    \<not> has_line_break (es_header (er_spec r) @ '': '' @ egress_spec_render (er_spec r) v) \<and>
    contains_str v (egress_spec_render (er_spec r) v)"
proof -
  have ok: "egress_ok r" by (rule resolve_egress_ok [OF assms(1)])
  have key: "es_key (er_spec r) \<in> set keys" if "bt_get secrets (rg_secrets raw) = Some (LocalVault keys)" for keys
    using resolve_egress_fields(10,13) [OF assms(1)] that by (simp add: ensure_Inr)
  have line: "\<not> has_line_break (egress_spec_render (er_spec r) v)"
    unfolding egress_spec_render_def
    by (rule replace_no_line_break) (use ok assms(2) in \<open>simp_all add: egress_ok_def\<close>)
  have in_value: "contains_str v (replace_str p v s)" if "contains_str p s" "p \<noteq> []" for p s
    using that
  proof (induction s)
    case (Cons c s)
    show ?case
    proof (cases "strip_prefix p (c # s)")
      case None
      then have "contains_str p s" using Cons.prems by (simp add: starts_with_def)
      with Cons None show ?thesis by (simp add: replace_str_miss)
    next
      case (Some rest)
      then have "c # s = p @ rest" by (simp add: strip_prefix_Some)
      then show ?thesis using Cons.prems(2) by (metis append_Nil contains_str_iff replace_str_hit)
    qed
  qed simp
  have "contains_str v (egress_spec_render (er_spec r) v)"
    unfolding egress_spec_render_def by (rule in_value) (use ok in \<open>simp_all add: egress_ok_def\<close>)
  moreover have "\<not> has_line_break '': ''" by code_simp
  ultimately show ?thesis
    using ok key line token_no_line_break [of "es_header (er_spec r)"]
    by (auto simp: egress_ok_def has_line_break_Cons)
qed

definition sample_raw_egress :: raw_egress where
  "sample_raw_egress = \<lparr>rg_require_caller_token = False, rg_host = ''gh.test'', rg_target = ''127.0.0.1:9000'',
     rg_secrets = ''vault'', rg_key = ''TOKEN'', rg_header = default_egress_header,
     rg_format = default_egress_format, rg_upstream_host = None, rg_tls = False\<rparr>"

lemma resolve_egress_safe_witness:
  "\<exists>r. resolve_egress sample_raw_egress [(''vault'', LocalVault [''TOKEN''])] = Inr r \<and>
    egress_ok r \<and> es_key (er_spec r) \<in> set [''TOKEN'']"
proof -
  have port: "parse_u16 ''9000'' = Some 9000"
    by (simp add: parse_u16_def parse_uint_def to_digit_def is_ascii_digit_def)
  have parts: "trim ''127.0.0.1:9000'' = ''127.0.0.1:9000''"
    "rsplit_once CHR '':'' ''127.0.0.1:9000'' = Some (''127.0.0.1'', ''9000'')"
    "\<not> has_whitespace ''127.0.0.1''" "\<not> contains_str '':'' ''127.0.0.1''" by code_simp+
  have target: "validate_target ''127.0.0.1:9000'' = Inr ''127.0.0.1:9000''"
    by (simp add: validate_target_def parts port starts_with_def)
  have rest: "validate_host ''gh.test'' = Inr ''gh.test''" "dashboard_host \<noteq> ''gh.test''" "trim ''TOKEN'' = ''TOKEN''"
    "contains_str ''{value}'' default_egress_format" "\<not> has_line_break default_egress_header"
    "\<not> has_line_break default_egress_format" "is_rfc7230_token default_egress_header"
    "target_host ''127.0.0.1:9000'' = ''127.0.0.1''" "is_loopback_host ''127.0.0.1''"
    by code_simp+
  have "is_ok (resolve_egress sample_raw_egress [(''vault'', LocalVault [''TOKEN''])])"
    using rest(2) by (simp add: resolve_egress_def sample_raw_egress_def target rest(1,3-) bt_get_def
        resolve_upstream_host_def)
  then obtain r where r: "resolve_egress sample_raw_egress [(''vault'', LocalVault [''TOKEN''])] = Inr r"
    by (auto simp: is_ok_iff)
  have "\<not> has_line_break ''s3cret''" by code_simp
  from resolve_egress_safe [OF r this] r show ?thesis by (auto simp: sample_raw_egress_def bt_get_def)
qed

text \<open>Keys the vault accepts are the keys a local block may list.\<close>

lemma check_keys_Inr:
  "check_keys seen keys = Inr () \<longleftrightarrow>
     list_all env_key_ok keys \<and> distinct keys \<and> set keys \<inter> set seen = {}"
  by (induction keys arbitrary: seen) (auto simp: and_then_Inr validate_env_key_def ensure_Inr)

lemma validate_local_block:
  "validate_secrets_block name (LocalVault keys) = Inr () \<longleftrightarrow>
     validate_name name = Inr () \<and> keys \<noteq> [] \<and> list_all env_key_ok keys \<and> distinct keys"
  by (auto simp: validate_secrets_block_def and_then_Inr check_keys_Inr)

end
