(* ===== verification/Config_Resolve.thy ===== *)
theory Config_Resolve
  imports Service_Config
begin

text \<open>
  The rest of \<open>portman-core/src/service_config.rs\<close>: the overlay merge, the resolution of
  services and of the whole config, and its discovery and loading. The lemmas show that the
  merge is field-wise and that whatever resolution accepts satisfies \<open>config_ok\<close>.
\<close>

section \<open>Discovery\<close>

text \<open>\<open>Path::ancestors\<close>: the path, its parent, and so on.\<close>

lemma path_parent_shorter: "path_parent p = Some q \<Longrightarrow> length q < length p"
  by (auto simp: path_parent_def rsplit_once_Some split: option.splits if_splits prod.splits)

function ancestors :: "path \<Rightarrow> path list" where
  "ancestors p = p # (case path_parent p of None \<Rightarrow> [] | Some q \<Rightarrow> ancestors q)"
  by pat_completeness auto
termination
  by (relation "measure length") (auto simp: path_parent_shorter)

declare ancestors.simps [simp del]

definition config_file :: string where
  "config_file = ''portman.toml''"

definition local_config_file :: string where
  "local_config_file = ''portman.local.toml''"

text \<open>\<open>is_file\<close> and \<open>exists\<close> are the file system's answers.\<close>

definition config_exists :: "(path \<Rightarrow> bool) \<Rightarrow> path \<Rightarrow> bool" where
  "config_exists is_file root \<longleftrightarrow>
     is_file (path_join root config_file) \<or> is_file (path_join root local_config_file)"

definition discover_root :: "(path \<Rightarrow> bool) \<Rightarrow> path \<Rightarrow> path option" where
  "discover_root is_file start_dir = find (config_exists is_file) (ancestors start_dir)"

definition enclosing_repo :: "(path \<Rightarrow> bool) \<Rightarrow> path \<Rightarrow> path option" where
  "enclosing_repo path_exists root = find (\<lambda>dir. path_exists (path_join dir ''.git'')) (ancestors root)"

section \<open>The overlay merge\<close>

definition merged_ready :: "raw_service \<Rightarrow> raw_service \<Rightarrow> u16 option \<times> u64 option" where
  "merged_ready base overlay =
     (if rs_ready_port overlay \<noteq> None \<or> rs_ready_delay_ms overlay \<noteq> None
      then (rs_ready_port overlay, rs_ready_delay_ms overlay)
      else (rs_ready_port base, rs_ready_delay_ms base))"

definition merged_under :: "raw_service \<Rightarrow> raw_service \<Rightarrow> raw_service" where
  "merged_under base overlay =
     \<lparr>rs_run = or_opt (rs_run overlay) (rs_run base),
      rs_dir = or_opt (rs_dir overlay) (rs_dir base),
      rs_port = or_opt (rs_port overlay) (rs_port base),
      rs_host = or_opt (rs_host overlay) (rs_host base),
      rs_mode = or_opt (rs_mode overlay) (rs_mode base),
      rs_ready_port = fst (merged_ready base overlay),
      rs_ready_delay_ms = snd (merged_ready base overlay),
      rs_depends = or_opt (rs_depends overlay) (rs_depends base),
      rs_retry = or_opt (rs_retry overlay) (rs_retry base),
      rs_stop_grace_ms = or_opt (rs_stop_grace_ms overlay) (rs_stop_grace_ms base),
      rs_env_files = or_opt (rs_env_files overlay) (rs_env_files base),
      rs_env = or_opt (rs_env overlay) (rs_env base),
      rs_secrets = or_opt (rs_secrets overlay) (rs_secrets base),
      rs_secrets_optional = or_opt (rs_secrets_optional overlay) (rs_secrets_optional base),
      rs_watch = or_opt (rs_watch overlay) (rs_watch base),
      rs_watch_mode = or_opt (rs_watch_mode overlay) (rs_watch_mode base),
      rs_watch_debounce_ms = or_opt (rs_watch_debounce_ms overlay) (rs_watch_debounce_ms base),
      rs_groups = or_opt (rs_groups overlay) (rs_groups base)\<rparr>"

definition merge_service ::
  "(string, raw_service) btree \<Rightarrow> string \<times> raw_service \<Rightarrow> (string, raw_service) btree" where
  "merge_service services nv =
     (case nv of (name, overlay) \<Rightarrow>
        let merged = (case bt_get services name of
              Some base \<Rightarrow> merged_under base overlay
            | None \<Rightarrow> overlay)
        in bt_insert name merged (bt_remove name services))"

definition merge_config :: "raw_config option \<Rightarrow> raw_config option \<Rightarrow> raw_config" where
  "merge_config committed local =
     (let raw = unwrap_or committed raw_config_default in
      case local of
        None \<Rightarrow> raw
      | Some l \<Rightarrow>
          raw\<lparr>rc_service := foldl merge_service (rc_service raw) (rc_service l),
              rc_secrets := bt_extend (rc_secrets raw) (rc_secrets l),
              rc_egress := bt_extend (rc_egress raw) (rc_egress l),
              rc_project := or_opt (rc_project l) (rc_project raw),
              rc_groups := rc_groups raw @ rc_groups l\<rparr>)"

section \<open>Services\<close>

definition resolve_path :: "path \<Rightarrow> string \<Rightarrow> path" where
  "resolve_path root raw = (if is_absolute raw then raw else path_join root raw)"

definition resolve_run :: "(string \<Rightarrow> string list option) \<Rightarrow> raw_run option \<Rightarrow> config_error + string list" where
  "resolve_run shlex raw =
     and_then (case raw of
         Some (RunArgv argv) \<Rightarrow> Inr argv
       | Some (RunLine line) \<Rightarrow> ok_or (UnbalancedQuotes line) (shlex line)
       | None \<Rightarrow> Inl RunRequired) (\<lambda>run.
       and_then (ensure (\<not> (run = [] \<or> trim (hd run) = [])) RunEmpty) (\<lambda>_. Inr run))"

definition check_host_mode ::
  "string option \<Rightarrow> mode \<Rightarrow> u16 option \<Rightarrow> config_error + unit" where
  "check_host_mode host mode port =
     and_then (ensure (host \<noteq> Some dashboard_host) HostIsDashboard) (\<lambda>_.
     and_then (ensure (mode = ModeHttp \<or> mode = ModeTcp) BadMode) (\<lambda>_.
     and_then (ensure (\<not> (mode = ModeTcp \<and>
         (case host of Some h \<Rightarrow> host_is_localhost h | None \<Rightarrow> False))) LocalhostTcp) (\<lambda>_.
     and_then (ensure (\<not> (host \<noteq> None \<and> port = None)) HostWithoutPort) (\<lambda>_.
       ensure (port \<noteq> Some 0) PortZero))))"

definition resolve_ready :: "u16 option \<Rightarrow> u64 option \<Rightarrow> u16 option \<Rightarrow> config_error + ready_check" where
  "resolve_ready ready_port ready_delay_ms port =
     (case (ready_port, ready_delay_ms) of
        (Some _, Some _) \<Rightarrow> Inl ReadyBoth
      | (Some p, None) \<Rightarrow> if p = 0 then Inl ReadyPortZero else Inr (ReadyPort p)
      | (None, Some ms) \<Rightarrow> Inr (ReadyDelayMs ms)
      | (None, None) \<Rightarrow> Inr (case port of Some p \<Rightarrow> ReadyPort p | None \<Rightarrow> ReadyNone))"

fun resolve_restart :: "raw_retry option \<Rightarrow> restart_policy" where
  "resolve_restart None = RestartAlways"
| "resolve_restart (Some (RetryFlag b)) = (if b then RestartAlways else RestartNever)"
| "resolve_restart (Some (RetryLimit n)) = RestartLimit n"

definition check_watch :: "u64 option \<Rightarrow> string list \<Rightarrow> watch_mode option \<Rightarrow> config_error + unit" where
  "check_watch debounce raw_watch watch_mode =
     and_then (ensure (debounce \<noteq> Some 0) DebounceZero) (\<lambda>_.
       ensure (\<not> (raw_watch = [] \<and> (watch_mode \<noteq> None \<or> debounce \<noteq> None))) WatchOptionsWithoutWatch)"

definition resolve_service ::
  "(string \<Rightarrow> string list option) \<Rightarrow> path \<Rightarrow> string \<Rightarrow> raw_service
   \<Rightarrow> (string, secrets_provider_config) btree \<Rightarrow> string list \<Rightarrow> string option
   \<Rightarrow> config_error + service_definition" where
  "resolve_service shlex root name raw secrets file_groups project =
     and_then (resolve_run shlex (rs_run raw)) (\<lambda>run.
     let dir = (case rs_dir raw of Some d \<Rightarrow> resolve_path root d | None \<Rightarrow> root) in
     and_then (case rs_host raw of
         Some h \<Rightarrow> map_err BadHost (and_then (validate_host h) (\<lambda>h. Inr (Some h)))
       | None \<Rightarrow> Inr None) (\<lambda>host.
     let mode = unwrap_or (rs_mode raw) ModeHttp in
     and_then (check_host_mode host mode (rs_port raw)) (\<lambda>_.
     and_then (resolve_ready (rs_ready_port raw) (rs_ready_delay_ms raw) (rs_port raw)) (\<lambda>ready.
     let service_secrets = unwrap_or (rs_secrets raw) [] in
     and_then (for_each (\<lambda>provider.
         ensure (bt_contains secrets provider) (UnknownSecretsBlock provider)) service_secrets) (\<lambda>_.
     let raw_watch = unwrap_or (rs_watch raw) [] in
     and_then (check_watch (rs_watch_debounce_ms raw) raw_watch (rs_watch_mode raw)) (\<lambda>_.
     let raw_groups = unwrap_or (rs_groups raw) [] in
     and_then (for_each validate_group_tag raw_groups) (\<lambda>_.
       Inr \<lparr>sd_name = name, sd_run = run, sd_dir = dir, sd_port = rs_port raw, sd_host = host,
            sd_mode = mode, sd_ready = ready, sd_depends = unwrap_or (rs_depends raw) [],
            sd_restart = resolve_restart (rs_retry raw),
            sd_stop_grace_ms = unwrap_or (rs_stop_grace_ms raw) 5000,
            sd_env_files = map (resolve_path root) (unwrap_or (rs_env_files raw) []),
            sd_env = unwrap_or (rs_env raw) [], sd_secrets = service_secrets,
            sd_secrets_optional = unwrap_or (rs_secrets_optional raw) False,
            sd_watch = map (resolve_path dir) raw_watch,
            sd_watch_mode = unwrap_or (rs_watch_mode raw) WatchPoll,
            sd_watch_debounce_ms = unwrap_or (rs_watch_debounce_ms raw) 500,
            sd_groups = bset (file_groups @ raw_groups), sd_project = project\<rparr>)))))))"

section \<open>The whole config\<close>

text \<open>\<open>seen_hosts.insert\<close> and the error when it returns a previous owner.\<close>

definition claim_host ::
  "(string, host_owner) btree \<Rightarrow> string \<Rightarrow> host_owner \<Rightarrow> config_error + (string, host_owner) btree" where
  "claim_host seen host owner =
     (case bt_get seen host of
        Some prev \<Rightarrow> Inl (HostClaimedTwice host prev owner)
      | None \<Rightarrow> Inr (bt_insert host owner seen))"

definition resolve_one_secret ::
  "string \<times> raw_secrets \<Rightarrow> config_error + (string \<times> secrets_provider_config)" where
  "resolve_one_secret nb =
     (case nb of (name, block) \<Rightarrow>
        and_then (map_err (InSecrets name) (resolve_secrets block)) (\<lambda>resolved.
        and_then (map_err (InSecrets name) (validate_secrets_block name resolved)) (\<lambda>_.
          Inr (name, resolved))))"

definition resolve_one_service ::
  "(string \<Rightarrow> string list option) \<Rightarrow> path \<Rightarrow> (string, secrets_provider_config) btree
   \<Rightarrow> string list \<Rightarrow> string option
   \<Rightarrow> services \<times> (string, host_owner) btree \<Rightarrow> string \<times> raw_service
   \<Rightarrow> config_error + services \<times> (string, host_owner) btree" where
  "resolve_one_service shlex root secrets groups project acc ns =
     (case (acc, ns) of ((services, seen), (name, svc)) \<Rightarrow>
        and_then (validate_service_name name) (\<lambda>_.
        and_then (map_err (InService name)
            (resolve_service shlex root name svc secrets groups project)) (\<lambda>def.
        and_then (case sd_host def of
            Some host \<Rightarrow> claim_host seen host (OwnerService name)
          | None \<Rightarrow> Inr seen) (\<lambda>seen.
          Inr (bt_insert name def services, seen)))))"

definition resolve_one_egress ::
  "(string, secrets_provider_config) btree
   \<Rightarrow> (string, egress_route) btree \<times> (string, host_owner) btree \<Rightarrow> string \<times> raw_egress
   \<Rightarrow> config_error + (string, egress_route) btree \<times> (string, host_owner) btree" where
  "resolve_one_egress secrets acc nr =
     (case (acc, nr) of ((egress, seen), (name, route)) \<Rightarrow>
        and_then (validate_egress_name name) (\<lambda>_.
        and_then (map_err (InEgress name) (resolve_egress route secrets)) (\<lambda>resolved.
        and_then (claim_host seen (er_host resolved) (OwnerEgress name)) (\<lambda>seen.
          Inr (bt_insert name resolved egress, seen)))))"

text \<open>\<open>None\<close> would be a dependency search that does not return; it always does.\<close>

definition resolve ::
  "(string \<Rightarrow> string list option) \<Rightarrow> path \<Rightarrow> raw_config \<Rightarrow> (config_error + service_config) option" where
  "resolve shlex root raw =
     (case and_then (traverse resolve_one_secret (rc_secrets raw)) (\<lambda>blocks.
           and_then (for_each (\<lambda>tag. map_err InFileGroups (validate_group_tag tag)) (rc_groups raw)) (\<lambda>_.
           and_then (case rc_project raw of
               Some project \<Rightarrow> map_err InFileProject (validate_group_tag project)
             | None \<Rightarrow> Inr ()) (\<lambda>_.
           and_then (fold_res (resolve_one_service shlex root (bt_collect blocks) (rc_groups raw) (rc_project raw))
               ([], []) (rc_service raw)) (\<lambda>(services, seen).
             Inr (bt_collect blocks, services, seen))))) of
        Inl e \<Rightarrow> Some (Inl e)
      | Inr (secrets, services, seen) \<Rightarrow>
          (case validate_depends services of
             None \<Rightarrow> None
           | Some (Inl e) \<Rightarrow> Some (Inl (Depends e))
           | Some (Inr _) \<Rightarrow>
               Some (and_then (fold_res (resolve_one_egress secrets) ([], seen) (rc_egress raw)) (\<lambda>(egress, _).
                 Inr \<lparr>sc_root = root, sc_services = services, sc_secrets = secrets, sc_egress = egress\<rparr>))))"

definition merge_and_resolve ::
  "(string \<Rightarrow> string list option) \<Rightarrow> path \<Rightarrow> raw_config option \<Rightarrow> raw_config option
   \<Rightarrow> (config_error + service_config) option" where
  "merge_and_resolve shlex root committed local = resolve shlex root (merge_config committed local)"

datatype 'j load_config_error = CfgRead path | CfgParse path 'j | CfgMissing | CfgInvalid config_error

definition read_raw ::
  "(string \<Rightarrow> 'j + raw_config) \<Rightarrow> (path \<Rightarrow> read_result) \<Rightarrow> path \<Rightarrow> 'j load_config_error + raw_config option" where
  "read_raw toml fs path =
     (case fs path of
        ReadOk text \<Rightarrow> and_then (map_err (CfgParse path) (toml text)) (\<lambda>raw. Inr (Some raw))
      | ReadNotFound \<Rightarrow> Inr None
      | ReadFailed \<Rightarrow> Inl (CfgRead path))"

definition lift_invalid ::
  "(config_error + service_config) option \<Rightarrow> ('j load_config_error + service_config) option" where
  "lift_invalid r = map_option (map_err CfgInvalid) r"

definition load_config ::
  "(string \<Rightarrow> 'j + raw_config) \<Rightarrow> (string \<Rightarrow> string list option) \<Rightarrow> (path \<Rightarrow> read_result) \<Rightarrow> path
   \<Rightarrow> ('j load_config_error + service_config) option" where
  "load_config toml shlex fs root =
     (case read_raw toml fs (path_join root config_file) of
        Inl e \<Rightarrow> Some (Inl e)
      | Inr committed \<Rightarrow>
          (case read_raw toml fs (path_join root local_config_file) of
             Inl e \<Rightarrow> Some (Inl e)
           | Inr local \<Rightarrow>
               if committed = None \<and> local = None then Some (Inl CfgMissing)
               else lift_invalid (merge_and_resolve shlex root committed local)))"

fun parse_text :: "(string \<Rightarrow> 'j + raw_config) \<Rightarrow> path \<Rightarrow> string option \<Rightarrow> 'j load_config_error + raw_config option" where
  "parse_text toml path None = Inr None"
| "parse_text toml path (Some text) = and_then (map_err (CfgParse path) (toml text)) (\<lambda>raw. Inr (Some raw))"

definition load_from_strings ::
  "(string \<Rightarrow> 'j + raw_config) \<Rightarrow> (string \<Rightarrow> string list option) \<Rightarrow> path \<Rightarrow> string option \<Rightarrow> string option
   \<Rightarrow> ('j load_config_error + service_config) option" where
  "load_from_strings toml shlex root committed local =
     (case parse_text toml (path_join root config_file) committed of
        Inl e \<Rightarrow> Some (Inl e)
      | Inr c \<Rightarrow>
          (case parse_text toml (path_join root local_config_file) local of
             Inl e \<Rightarrow> Some (Inl e)
           | Inr l \<Rightarrow> lift_invalid (merge_and_resolve shlex root c l)))"

section \<open>The merge is field-wise\<close>

lemma foldl_merge_services:
  assumes "bt_ok m" and "distinct (map fst kvs)"
  shows "bt_ok (foldl merge_service m kvs) \<and>
    bt_get (foldl merge_service m kvs) n =
      (case map_of kvs n of
         None \<Rightarrow> bt_get m n
       | Some overlay \<Rightarrow> (case bt_get m n of
             Some base \<Rightarrow> Some (merged_under base overlay)
           | None \<Rightarrow> Some overlay))"
  using assms
proof (induction kvs arbitrary: m)
  case (Cons kv kvs)
  obtain k ov where kv: "kv = (k, ov)" by (cases kv)
  have ok: "bt_ok (merge_service m kv)" using Cons.prems(1) by (simp add: merge_service_def kv)
  have get: "bt_get (merge_service m kv) j = (if j = k then
      Some (case bt_get m k of Some base \<Rightarrow> merged_under base ov | None \<Rightarrow> ov) else bt_get m j)" for j
    using Cons.prems(1) by (simp add: merge_service_def kv)
  have "map_of kvs k = None" using Cons.prems(2) kv by (simp add: map_of_eq_None_iff)
  then show ?case
    using Cons.IH [OF ok] Cons.prems(2) kv by (auto simp: get [unfolded kv] split: option.splits)
qed simp

lemma merged_ready_single:
  assumes "rs_ready_port base = None \<or> rs_ready_delay_ms base = None"
    and "rs_ready_port overlay = None \<or> rs_ready_delay_ms overlay = None"
  shows "rs_ready_port (merged_under base overlay) = None \<or> rs_ready_delay_ms (merged_under base overlay) = None"
  using assms by (auto simp: merged_under_def merged_ready_def)

definition raw_ok :: "raw_config \<Rightarrow> bool" where
  "raw_ok raw \<longleftrightarrow> bt_ok (rc_service raw) \<and> bt_ok (rc_secrets raw) \<and> bt_ok (rc_egress raw)"

text \<open>
  The local overlay patches services and replaces blocks: a service of both files is the
  committed one with the fields the overlay mentions, a service of one file is taken as it
  is, a secrets or egress block of the local file replaces the committed one of its name,
  the project of the overlay wins, groups add up, and two files that each set at most one
  readiness gate never merge into one that sets both.
\<close>

theorem merge_config_fieldwise:
  assumes "raw_ok c" and "raw_ok l"
  shows "raw_ok (merge_config (Some c) (Some l)) \<and>
    bt_get (rc_service (merge_config (Some c) (Some l))) n =
      (case (bt_get (rc_service c) n, bt_get (rc_service l) n) of
         (Some base, Some overlay) \<Rightarrow> Some (merged_under base overlay)
       | (base, overlay) \<Rightarrow> or_opt overlay base) \<and>
    bt_get (rc_secrets (merge_config (Some c) (Some l))) n =
      or_opt (bt_get (rc_secrets l) n) (bt_get (rc_secrets c) n) \<and>
    bt_get (rc_egress (merge_config (Some c) (Some l))) n =
      or_opt (bt_get (rc_egress l) n) (bt_get (rc_egress c) n) \<and>
    rc_project (merge_config (Some c) (Some l)) = or_opt (rc_project l) (rc_project c) \<and>
    rc_groups (merge_config (Some c) (Some l)) = rc_groups c @ rc_groups l \<and>
    (\<forall>base overlay. bt_get (rc_service c) n = Some base \<and> bt_get (rc_service l) n = Some overlay \<and>
       (rs_ready_port base = None \<or> rs_ready_delay_ms base = None) \<and>
       (rs_ready_port overlay = None \<or> rs_ready_delay_ms overlay = None) \<longrightarrow>
       rs_ready_port (merged_under base overlay) = None \<or> rs_ready_delay_ms (merged_under base overlay) = None)"
proof -
  have c: "bt_ok (rc_service c)" "bt_ok (rc_secrets c)" "bt_ok (rc_egress c)"
    and l: "bt_ok (rc_service l)" "bt_ok (rc_secrets l)" "bt_ok (rc_egress l)"
    using assms by (simp_all add: raw_ok_def)
  note f = foldl_merge_services [OF c(1) bt_ok_distinct [OF l(1)], of n, folded bt_get_def]
  have "bt_get (rc_service (merge_config (Some c) (Some l))) n =
      (case (bt_get (rc_service c) n, bt_get (rc_service l) n) of
         (Some base, Some overlay) \<Rightarrow> Some (merged_under base overlay)
       | (base, overlay) \<Rightarrow> or_opt overlay base)"
    using f by (auto simp: merge_config_def split: option.splits)
  moreover have "raw_ok (merge_config (Some c) (Some l))"
    using f c by (simp add: merge_config_def raw_ok_def)
  ultimately show ?thesis
    using merged_ready_single c l by (simp add: merge_config_def bt_get_extend_bt)
qed

definition sample_raw_service :: raw_service where
  "sample_raw_service = \<lparr>rs_run = Some (RunArgv [''serve'']), rs_dir = None, rs_port = Some 3000, rs_host = None,
     rs_mode = None, rs_ready_port = Some 3000, rs_ready_delay_ms = None, rs_depends = None, rs_retry = None,
     rs_stop_grace_ms = None, rs_env_files = None, rs_env = None, rs_secrets = None,
     rs_secrets_optional = None, rs_watch = None, rs_watch_mode = None, rs_watch_debounce_ms = None,
     rs_groups = None\<rparr>"

definition sample_overlay :: raw_service where
  "sample_overlay = sample_raw_service\<lparr>rs_run := None, rs_port := None, rs_ready_port := None,
     rs_ready_delay_ms := Some 250\<rparr>"

lemma merge_config_fieldwise_witness:
  "bt_get (rc_service (merge_config (Some (raw_config_default\<lparr>rc_service := [(''web'', sample_raw_service)]\<rparr>))
      (Some (raw_config_default\<lparr>rc_service := [(''web'', sample_overlay)]\<rparr>)))) ''web'' =
   Some (sample_raw_service\<lparr>rs_ready_port := None, rs_ready_delay_ms := Some 250\<rparr>)"
proof -
  let ?c = "raw_config_default\<lparr>rc_service := [(''web'', sample_raw_service)]\<rparr>"
  let ?l = "raw_config_default\<lparr>rc_service := [(''web'', sample_overlay)]\<rparr>"
  have ok: "raw_ok ?c" "raw_ok ?l" by (simp_all add: raw_ok_def raw_config_default_def)
  have get: "bt_get (rc_service ?c) ''web'' = Some sample_raw_service" "bt_get (rc_service ?l) ''web'' = Some sample_overlay"
    by (simp_all add: bt_get_def)
  have "merged_under sample_raw_service sample_overlay =
      sample_raw_service\<lparr>rs_ready_port := None, rs_ready_delay_ms := Some 250\<rparr>"
    by (simp add: merged_under_def merged_ready_def sample_overlay_def sample_raw_service_def)
  then show ?thesis using merge_config_fieldwise [OF ok, of "''web''"] unfolding get by simp
qed

section \<open>What an accepted config guarantees\<close>

definition host_ok :: "string option \<Rightarrow> u16 option \<Rightarrow> bool" where
  "host_ok host port \<longleftrightarrow>
     (case host of
        None \<Rightarrow> True
      | Some h \<Rightarrow> host_grammar h \<and> to_ascii_lowercase h = h \<and> h \<noteq> dashboard_host \<and> port \<noteq> None)"

text \<open>A tag of a group or of the project: short, and of letters, digits, dots, dashes, underscores.\<close>

definition tag_ok :: "string \<Rightarrow> bool" where
  "tag_ok t \<longleftrightarrow> t \<noteq> [] \<and> length t \<le> 64 \<and>
     list_all (\<lambda>c. is_ascii_alphanumeric c \<or> c = CHR ''.'' \<or> c = CHR ''_'' \<or> c = CHR ''-'') t"

text \<open>
  What watching needs: a debounce that is not zero, and nothing but the defaults where nothing is
  watched.
\<close>

definition watch_ok :: "service_definition \<Rightarrow> bool" where
  "watch_ok d \<longleftrightarrow> sd_watch_debounce_ms d \<noteq> 0 \<and>
     (sd_watch d = [] \<longrightarrow> sd_watch_mode d = WatchPoll \<and> sd_watch_debounce_ms d = 500)"

definition service_ok ::
  "(string, secrets_provider_config) btree \<Rightarrow> service_definition \<Rightarrow> bool" where
  "service_ok secrets d \<longleftrightarrow>
     sd_run d \<noteq> [] \<and> trim (hd (sd_run d)) \<noteq> [] \<and>
     host_ok (sd_host d) (sd_port d) \<and> sd_port d \<noteq> Some 0 \<and>
     (sd_mode d = ModeHttp \<or> sd_mode d = ModeTcp \<and>
        (case sd_host d of Some h \<Rightarrow> \<not> host_is_localhost h | None \<Rightarrow> True)) \<and>
     sd_ready d \<noteq> ReadyPort 0 \<and>
     list_all (bt_contains secrets) (sd_secrets d) \<and>
     watch_ok d \<and> sorted_wrt (<) (sd_groups d) \<and> list_all tag_ok (sd_groups d) \<and> pred_option tag_ok (sd_project d)"

text \<open>
  A route: what holds of it alone, the host it states upstream (not blank, one line), and a key that
  its block may give away when the block is a list of the vault's keys.
\<close>

definition route_ok :: "(string, secrets_provider_config) btree \<Rightarrow> egress_route \<Rightarrow> bool" where
  "route_ok secrets r \<longleftrightarrow> egress_ok r \<and>
     trim (es_upstream_host (er_spec r)) \<noteq> [] \<and> \<not> has_line_break (es_upstream_host (er_spec r)) \<and>
     (case bt_get secrets (es_secrets (er_spec r)) of
        Some (LocalVault keys) \<Rightarrow> es_key (er_spec r) \<in> set keys | _ \<Rightarrow> True)"

lemma validate_group_tag_Inr: "validate_group_tag t = Inr () \<longleftrightarrow> tag_ok t"
proof -
  have "name_char = (\<lambda>c. is_ascii_alphanumeric c \<or> c = CHR ''.'' \<or> c = CHR ''_'' \<or> c = CHR ''-'')"
    by (auto simp: name_char_def fun_eq_iff)
  then show ?thesis by (auto simp: validate_group_tag_def tag_ok_def)
qed

lemma no_whitespace_line: "\<not> has_whitespace s \<Longrightarrow> \<not> has_line_break s"
proof -
  have "contains_str [c] s" if "c \<in> set s" for c
    using that by (auto simp: contains_str_iff dest: split_list)
  moreover have "[CHR 0x0D] \<in> set ws_seqs" "[CHR 0x0A] \<in> set ws_seqs" by code_simp+
  ultimately show "\<not> has_whitespace s \<Longrightarrow> ?thesis"
    by (auto simp: has_whitespace_def has_line_break_def list_ex_iff)
qed

lemma target_host_plain:
  assumes "validate_target s = Inr t"
  shows "trim (target_host t) \<noteq> []" "\<not> has_line_break (target_host t)"
proof -
  from assms obtain host port where t: "t = host @ '':'' @ port" "CHR '':'' \<notin> set port" "host \<noteq> []" "\<not> has_whitespace host"
    by (auto simp: validate_target_iff)
  then have "rsplit_once CHR '':'' t = Some (host, port)" by (simp add: rsplit_once_Some)
  then have "target_host t = host" by (simp add: target_host_def)
  then show "trim (target_host t) \<noteq> []" "\<not> has_line_break (target_host t)"
    using t trim_no_whitespace [OF t(4)] no_whitespace_line [OF t(4)] by simp_all
qed

lemma resolve_egress_route_ok:
  assumes "resolve_egress raw secrets = Inr r"
  shows "route_ok secrets r"
proof -
  note fld = resolve_egress_fields [OF assms]
  have "trim (es_upstream_host (er_spec r)) \<noteq> [] \<and> \<not> has_line_break (es_upstream_host (er_spec r))"
    using assms target_host_plain
    by (auto simp: resolve_egress_def resolve_upstream_host_def and_then_Inr map_err_Inr ensure_Inr
        split: option.splits if_splits)
  moreover have "es_key (er_spec r) \<in> set keys" if "bt_get secrets (es_secrets (er_spec r)) = Some (LocalVault keys)" for keys
    using fld(9,10,13) that by (simp add: ensure_Inr)
  ultimately show ?thesis using resolve_egress_ok [OF assms]
    by (auto simp: route_ok_def split: option.split secrets_provider_config.split)
qed

definition paths_ok :: "service_definition \<Rightarrow> bool" where
  "paths_ok d \<longleftrightarrow> is_absolute (sd_dir d) \<and> list_all is_absolute (sd_env_files d) \<and> list_all is_absolute (sd_watch d)"

lemma resolve_path_absolute: "is_absolute root \<Longrightarrow> is_absolute (resolve_path root p)"
  by (simp add: resolve_path_def path_join_absolute)

lemma resolve_ready_nonzero:
  "resolve_ready rp rd port = Inr r \<Longrightarrow> port \<noteq> Some 0 \<Longrightarrow> r \<noteq> ReadyPort 0"
  by (auto simp: resolve_ready_def split: option.splits if_splits)

lemma resolve_service_ok:
  assumes "resolve_service shlex root name raw secrets groups project = Inr d"
    and "list_all tag_ok groups" and "pred_option tag_ok project"
  shows "sd_name d = name \<and> service_ok secrets d \<and> (is_absolute root \<longrightarrow> paths_ok d)"
proof -
  have run: "sd_run d \<noteq> []" "trim (hd (sd_run d)) \<noteq> []"
    and name: "sd_name d = name"
    and secrets: "list_all (bt_contains secrets) (sd_secrets d)"
    and groups: "sd_groups d = bset (groups @ unwrap_or (rs_groups raw) [])"
    and debounce: "sd_watch_debounce_ms d = unwrap_or (rs_watch_debounce_ms raw) 500" "rs_watch_debounce_ms raw \<noteq> Some 0"
    and ready: "resolve_ready (rs_ready_port raw) (rs_ready_delay_ms raw) (rs_port raw) = Inr (sd_ready d)"
    and port: "sd_port d = rs_port raw"
    and mode: "check_host_mode (sd_host d) (sd_mode d) (rs_port raw) = Inr ()"
    and host: "sd_host d = None \<or> (\<exists>h. sd_host d = Some h \<and> validate_host (the (rs_host raw)) = Inr h)"
    and dir: "sd_dir d = (case rs_dir raw of Some d \<Rightarrow> resolve_path root d | None \<Rightarrow> root)"
    and files: "sd_env_files d = map (resolve_path root) (unwrap_or (rs_env_files raw) [])"
    and watch: "sd_watch d = map (resolve_path (sd_dir d)) (unwrap_or (rs_watch raw) [])"
    and tags: "list_all tag_ok (unwrap_or (rs_groups raw) [])" "sd_project d = project"
    and options: "sd_watch_mode d = unwrap_or (rs_watch_mode raw) WatchPoll"
      "\<not> (unwrap_or (rs_watch raw) [] = [] \<and> (rs_watch_mode raw \<noteq> None \<or> rs_watch_debounce_ms raw \<noteq> None))"
    using assms(1)
    by (auto simp: resolve_service_def resolve_run_def check_watch_def validate_group_tag_Inr Let_def and_then_Inr map_err_Inr
        ensure_Inr for_each_Inr list_all_iff split: option.splits)
  have m: "sd_host d \<noteq> Some dashboard_host" "sd_mode d = ModeHttp \<or> sd_mode d = ModeTcp"
    "\<not> (sd_mode d = ModeTcp \<and> (case sd_host d of Some h \<Rightarrow> host_is_localhost h | None \<Rightarrow> False))"
    "\<not> (sd_host d \<noteq> None \<and> rs_port raw = None)" "rs_port raw \<noteq> Some 0"
    using mode by (auto simp: check_host_mode_def and_then_Inr ensure_Inr)
  have "host_ok (sd_host d) (sd_port d)"
    using host m(1,4) port validate_host_normal by (auto simp: host_ok_def)
  moreover have "watch_ok d" using debounce options watch by (cases "rs_watch_debounce_ms raw") (auto simp: watch_ok_def)
  moreover have "list_all tag_ok (sd_groups d)" "pred_option tag_ok (sd_project d)"
    using tags groups assms(2,3) by (auto simp: list_all_iff set_bset)
  moreover have "sd_ready d \<noteq> ReadyPort 0" using resolve_ready_nonzero [OF ready m(5)] .
  ultimately have "service_ok secrets d"
    using run secrets groups port m bset_sorted by (auto simp: service_ok_def split: option.splits)
  moreover have "paths_ok d" if "is_absolute root"
  proof -
    have "is_absolute (sd_dir d)" using that dir by (auto simp: resolve_path_absolute split: option.splits)
    then show ?thesis using that files watch by (simp add: paths_ok_def list_all_iff resolve_path_absolute)
  qed
  ultimately show ?thesis using name by blast
qed

text \<open>The name the config gives to the owner of a host.\<close>

definition owns_host :: "services \<Rightarrow> (string, egress_route) btree \<Rightarrow> host_owner \<Rightarrow> string \<Rightarrow> bool" where
  "owns_host services egress owner host \<longleftrightarrow>
     (case owner of
        OwnerService n \<Rightarrow> (case bt_get services n of Some d \<Rightarrow> sd_host d = Some host | None \<Rightarrow> False)
      | OwnerEgress n \<Rightarrow> (case bt_get egress n of Some r \<Rightarrow> er_host r = host | None \<Rightarrow> False))"

definition config_ok :: "service_config \<Rightarrow> bool" where
  "config_ok c \<longleftrightarrow>
     bt_ok (sc_services c) \<and> bt_ok (sc_secrets c) \<and> bt_ok (sc_egress c) \<and>
     list_all (\<lambda>(n, d). validate_name n = Inr () \<and> sd_name d = n \<and> service_ok (sc_secrets c) d \<and>
       (is_absolute (sc_root c) \<longrightarrow> paths_ok d)) (sc_services c) \<and>
     list_all (\<lambda>(n, b). validate_secrets_block n b = Inr ()) (sc_secrets c) \<and>
     list_all (\<lambda>(n, r). validate_name n = Inr () \<and> route_ok (sc_secrets c) r) (sc_egress c) \<and>
     closed (sc_services c) \<and> acyclic (depends_on (sc_services c)) \<and>
     (\<forall>h o1 o2. owns_host (sc_services c) (sc_egress c) o1 h \<and>
        owns_host (sc_services c) (sc_egress c) o2 h \<longrightarrow> o1 = o2)"

text \<open>The accumulators of the two loops: \<open>seen\<close> knows the owner of every host so far.\<close>

definition acc_ok :: "services \<Rightarrow> (string, egress_route) btree \<Rightarrow> (string, host_owner) btree \<Rightarrow> bool" where
  "acc_ok services egress seen \<longleftrightarrow> bt_ok services \<and> bt_ok egress \<and> bt_ok seen \<and>
     (\<forall>owner h. owns_host services egress owner h \<longrightarrow> bt_get seen h = Some owner)"

lemma claim_host_Inr:
  "claim_host seen h owner = Inr seen' \<longleftrightarrow> bt_get seen h = None \<and> seen' = bt_insert h owner seen"
  by (auto simp: claim_host_def split: option.splits)

lemma acc_ok_service:
  assumes "acc_ok services egress seen"
    and "(case sd_host d of Some h \<Rightarrow> claim_host seen h (OwnerService n) | None \<Rightarrow> Inr seen) = Inr seen'"
  shows "acc_ok (bt_insert n d services) egress seen'"
proof -
  have ok: "bt_ok services" "bt_ok egress" "bt_ok seen"
    and own: "owns_host services egress w h \<Longrightarrow> bt_get seen h = Some w" for w h
    using assms(1) by (auto simp: acc_ok_def)
  have grow: "bt_get seen h = Some w \<Longrightarrow> bt_get seen' h = Some w" for h w
    using assms(2) ok(3) by (auto simp: claim_host_Inr split: option.splits)
  have "bt_get seen' h = Some w" if o: "owns_host (bt_insert n d services) egress w h" for w h
  proof (cases "w = OwnerService n")
    case True
    with o ok(1) have "sd_host d = Some h" by (simp add: owns_host_def)
    with assms(2) True ok(3) show ?thesis by (simp add: claim_host_Inr)
  next
    case False
    with o ok(1) have "owns_host services egress w h" by (cases w) (auto simp: owns_host_def)
    then show ?thesis using own grow by blast
  qed
  moreover have "bt_ok seen'" using assms(2) ok(3) by (auto simp: claim_host_Inr split: option.splits)
  ultimately show ?thesis using ok by (simp add: acc_ok_def)
qed

lemma acc_ok_egress:
  assumes "acc_ok services egress seen" and "claim_host seen (er_host r) (OwnerEgress n) = Inr seen'"
  shows "acc_ok services (bt_insert n r egress) seen'"
proof -
  have ok: "bt_ok services" "bt_ok egress" "bt_ok seen"
    and own: "owns_host services egress w h \<Longrightarrow> bt_get seen h = Some w" for w h
    using assms(1) by (auto simp: acc_ok_def)
  have "bt_get seen' h = Some w" if o: "owns_host services (bt_insert n r egress) w h" for w h
  proof (cases "w = OwnerEgress n")
    case True
    with o ok(2) have "er_host r = h" by (simp add: owns_host_def)
    with assms(2) True ok(3) show ?thesis by (auto simp: claim_host_Inr)
  next
    case False
    with o ok(2) have "owns_host services egress w h" by (cases w) (auto simp: owns_host_def)
    with own have "bt_get seen h = Some w" by blast
    with assms(2) ok(3) show ?thesis by (auto simp: claim_host_Inr)
  qed
  then show ?thesis using ok assms(2) by (auto simp: acc_ok_def claim_host_Inr)
qed

text \<open>What a loop over insertions keeps of a predicate on the bindings.\<close>

lemma set_bt_insert_ball:
  "(\<forall>(k, v)\<in>set m. P k v) \<Longrightarrow> P k v \<Longrightarrow> \<forall>(k, v)\<in>set (bt_insert k v m). P k v"
  using set_bt_insert_subset [of k v m] by fastforce

lemma services_loop:
  assumes "fold_res (resolve_one_service shlex root secrets groups project) ([], []) raws = Inr (services, seen)"
    and tags: "list_all tag_ok groups" "pred_option tag_ok project"
  shows "acc_ok services [] seen \<and> (\<forall>(n, d)\<in>set services. validate_name n = Inr () \<and> sd_name d = n \<and>
    service_ok secrets d \<and> (is_absolute root \<longrightarrow> paths_ok d))"
proof -
  let ?P = "\<lambda>acc. acc_ok (fst acc) [] (snd acc) \<and> (\<forall>(n, d)\<in>set (fst acc). validate_name n = Inr () \<and> sd_name d = n \<and>
    service_ok secrets d \<and> (is_absolute root \<longrightarrow> paths_ok d))"
  have "?P (services, seen)"
  proof (rule fold_res_invariant [OF assms(1), where P = ?P])
    show "?P ([], [])" by (auto simp: acc_ok_def owns_host_def split: host_owner.splits)
  next
    fix acc ns acc'
    assume P: "?P acc" and step: "resolve_one_service shlex root secrets groups project acc ns = Inr acc'"
    obtain services seen n svc where a: "acc = (services, seen)" "ns = (n, svc)" by (cases acc; cases ns)
    from step a obtain d seen' where d: "validate_name n = Inr ()"
      "resolve_service shlex root n svc secrets groups project = Inr d"
      "(case sd_host d of Some h \<Rightarrow> claim_host seen h (OwnerService n) | None \<Rightarrow> Inr seen) = Inr seen'"
      "acc' = (bt_insert n d services, seen')"
      by (auto simp: resolve_one_service_def validate_service_name_def and_then_Inr map_err_Inr)
    have "acc_ok services [] seen" using P a by simp
    from acc_ok_service [OF this d(3)] have "acc_ok (bt_insert n d services) [] seen'" .
    moreover note resolve_service_ok [OF d(2) tags]
    ultimately show "?P acc'"
      using P a d(1,4) set_bt_insert_ball [of services "\<lambda>n d. validate_name n = Inr () \<and> sd_name d = n \<and>
        service_ok secrets d \<and> (is_absolute root \<longrightarrow> paths_ok d)" n d] by simp
  qed
  then show ?thesis by simp
qed

lemma egress_loop:
  assumes "fold_res (resolve_one_egress secrets) ([], seen0) raws = Inr (egress, seen)"
    and "acc_ok services [] seen0"
  shows "acc_ok services egress seen \<and> (\<forall>(n, r)\<in>set egress. validate_name n = Inr () \<and> route_ok secrets r)"
proof -
  let ?P = "\<lambda>acc. acc_ok services (fst acc) (snd acc) \<and>
    (\<forall>(n, r)\<in>set (fst acc). validate_name n = Inr () \<and> route_ok secrets r)"
  have "?P (egress, seen)"
  proof (rule fold_res_invariant [OF assms(1), where P = ?P])
    show "?P ([], seen0)" using assms(2) by simp
  next
    fix acc nr acc'
    assume P: "?P acc" and step: "resolve_one_egress secrets acc nr = Inr acc'"
    obtain egress seen n raw where a: "acc = (egress, seen)" "nr = (n, raw)" by (cases acc; cases nr)
    from step a obtain r seen' where r: "validate_name n = Inr ()" "resolve_egress raw secrets = Inr r"
      "claim_host seen (er_host r) (OwnerEgress n) = Inr seen'" "acc' = (bt_insert n r egress, seen')"
      by (auto simp: resolve_one_egress_def validate_egress_name_def and_then_Inr map_err_Inr)
    have "acc_ok services egress seen" using P a by simp
    from acc_ok_egress [OF this r(3)] have "acc_ok services (bt_insert n r egress) seen'" .
    then show "?P acc'"
      using P a r(1,4) resolve_egress_route_ok [OF r(2)]
        set_bt_insert_ball [of egress "\<lambda>n r. validate_name n = Inr () \<and> route_ok secrets r" n r] by simp
  qed
  then show ?thesis by simp
qed

lemma secrets_blocks_ok:
  assumes "traverse resolve_one_secret raws = Inr blocks"
  shows "\<forall>(n, b)\<in>set (bt_collect blocks). validate_secrets_block n b = Inr ()"
proof -
  have blocks: "validate_secrets_block n b = Inr ()" if "(n, b) \<in> set blocks" for n b
    using traverse_Inr_member [OF assms that]
    by (auto simp: resolve_one_secret_def and_then_Inr map_err_Inr)
  have "set (bt_extend m kvs) \<subseteq> set m \<union> set kvs" for m kvs :: "(string, secrets_provider_config) btree"
  proof (induction kvs arbitrary: m)
    case (Cons kv kvs)
    then show ?case using set_bt_insert_subset [of "fst kv" "snd kv" m]
      by (fastforce simp: bt_extend_def case_prod_beta)
  qed (simp add: bt_extend_def)
  from this [of "[]" blocks] have "set (bt_collect blocks) \<subseteq> set blocks" by (simp add: bt_collect_def)
  with blocks show ?thesis by blast
qed

text \<open>What the two loops and the search leave is sound, whatever the blocks they were given.\<close>

lemma resolved_config_ok:
  assumes blocks: "traverse resolve_one_secret raws = Inr blocks"
    and services: "fold_res (resolve_one_service shlex root (bt_collect blocks) groups project) ([], []) svcs = Inr (services, seen)"
    and tags: "list_all tag_ok groups" "pred_option tag_ok project"
    and depends: "closed services" "acyclic (depends_on services)"
    and egress: "fold_res (resolve_one_egress (bt_collect blocks)) ([], seen) routes = Inr (egress, seen')"
  shows "config_ok \<lparr>sc_root = root, sc_services = services, sc_secrets = bt_collect blocks, sc_egress = egress\<rparr>"
proof -
  note sv = services_loop [OF services tags]
  note eg = egress_loop [OF egress sv [THEN conjunct1]]
  then have "owns_host services egress o1 h \<Longrightarrow> owns_host services egress o2 h \<Longrightarrow> o1 = o2" for o1 o2 h
    unfolding acc_ok_def by (metis option.inject)
  then show ?thesis
    using eg sv secrets_blocks_ok [OF blocks] depends by (auto simp: config_ok_def acc_ok_def list_all_iff)
qed

text \<open>
  C26: Resolution always returns, and a config it accepts is sound as a whole: names are valid and
  match their definitions; every service has a command, a host only with a nonzero port and never
  the dashboard's, a mode that is HTTP or TCP and for TCP never a localhost name, no readiness port
  zero, only declared secrets blocks, watch options only where something is watched, group and
  project tags of plain characters, and absolute paths under an absolute root; secrets blocks are
  valid; an egress route has a normal host, a valid target, a one-line credential header, an
  upstream host of one line that is not blank, TLS unless its target is this machine, and only a key
  its vault block lists; dependencies are known and acyclic; no two services or routes own one host.
\<close>

theorem resolve_accepts_only_ok:
  "\<exists>r. resolve shlex root raw = Some r \<and> (\<forall>c. r = Inr c \<longrightarrow> sc_root c = root \<and> config_ok c)"
proof -
  define front where "front = and_then (traverse resolve_one_secret (rc_secrets raw)) (\<lambda>blocks.
           and_then (for_each (\<lambda>tag. map_err InFileGroups (validate_group_tag tag)) (rc_groups raw)) (\<lambda>_.
           and_then (case rc_project raw of
               Some project \<Rightarrow> map_err InFileProject (validate_group_tag project)
             | None \<Rightarrow> Inr ()) (\<lambda>_.
           and_then (fold_res (resolve_one_service shlex root (bt_collect blocks) (rc_groups raw) (rc_project raw))
               ([], []) (rc_service raw)) (\<lambda>(services, seen).
             Inr (bt_collect blocks, services, seen)))))"
  show ?thesis
  proof (cases front)
    case (Inl e)
    then have "resolve shlex root raw = Some (Inl e)" by (simp add: resolve_def front_def)
    then show ?thesis by simp
  next
    case (Inr sss)
    then obtain blocks services seen where f: "traverse resolve_one_secret (rc_secrets raw) = Inr blocks"
      "fold_res (resolve_one_service shlex root (bt_collect blocks) (rc_groups raw) (rc_project raw))
         ([], []) (rc_service raw) = Inr (services, seen)"
      "list_all tag_ok (rc_groups raw)" "pred_option tag_ok (rc_project raw)"
      "sss = (bt_collect blocks, services, seen)"
      by (auto simp: front_def and_then_Inr map_err_Inr for_each_Inr list_all_iff validate_group_tag_Inr
          split: option.splits)
    have "bt_ok services" using services_loop [OF f(2-4)] by (simp add: acc_ok_def)
    from depends_decided [OF this] obtain v where v: "validate_depends services = Some v"
      "v = Inr () \<longleftrightarrow> closed services \<and> acyclic (depends_on services)" by blast
    show ?thesis
      using Inr f(5) v resolved_config_ok [OF f(1-4)]
      by (cases v) (auto simp: resolve_def front_def [symmetric] and_then_Inr)
  qed
qed

definition sample_raw :: raw_config where
  "sample_raw = raw_config_default\<lparr>rc_service := [(''web'',
     sample_raw_service\<lparr>rs_port := None, rs_ready_port := None\<rparr>)]\<rparr>"

lemma resolve_accepts_only_ok_witness:
  "\<exists>c. resolve (\<lambda>_. None) ''/repo'' sample_raw = Some (Inr c) \<and> sc_root c = ''/repo'' \<and> config_ok c"
proof -
  have "(case resolve (\<lambda>_. None) ''/repo'' sample_raw of Some r \<Rightarrow> is_ok r | None \<Rightarrow> False)" by code_simp
  then obtain c where "resolve (\<lambda>_. None) ''/repo'' sample_raw = Some (Inr c)"
    by (auto simp: is_ok_iff split: option.splits)
  with resolve_accepts_only_ok [of "\<lambda>_. None" "''/repo''" sample_raw] show ?thesis by simp
qed

end
