(* ===== verification/Grants.thy ===== *)
theory Grants
  imports Hosts Atomic_Json
begin

text \<open>
  Egress grants, \<open>portman-daemon/src/egress_grants.rs\<close>: the durable store of bearer digests.
  The store is a file that every operation reads again, so its state is what the file
  holds. SHA-256 is a parameter; the wall clock and the monotonic floor are arguments, and so
  is the outcome of each durable write, which may fail before or after the rename.
\<close>

section \<open>Records\<close>

record grant =
  g_host :: string
  g_route_identity :: string
  g_revoked :: bool
  g_token_sha256 :: string
  g_expires_at :: u64

record grant_records =
  gr_observed_unix :: u64
  gr_grants :: "(string, grant option) btree"  \<comment> \<open>\<open>None\<close> is a tombstone\<close>

definition grant_records_default :: grant_records where
  "grant_records_default = \<lparr>gr_observed_unix = 0, gr_grants = []\<rparr>"

datatype grants_file = GrantsMissing | GrantsUnreadable | GrantsStored grant_records

datatype save_outcome = Saved | NotSaved | SavedNotSynced

datatype grant_error =
  GrantBadId | GrantBadHost host_error | GrantWildcard | GrantBadDigest | GrantRead | GrantWrite
| GrantClockRollback | GrantExists | GrantExpired | GrantDigestTaken

definition grants_read :: "grants_file \<Rightarrow> grant_error + grant_records" where
  "grants_read file =
     (case file of
        GrantsStored r \<Rightarrow> Inr r
      | GrantsMissing \<Rightarrow> Inr grant_records_default
      | GrantsUnreadable \<Rightarrow> Inl GrantRead)"

definition grants_write :: "save_outcome \<Rightarrow> grant_records \<Rightarrow> grants_file \<Rightarrow> (grant_error + unit) \<times> grants_file" where
  "grants_write out records file =
     (case out of
        Saved \<Rightarrow> (Inr (), GrantsStored records)
      | NotSaved \<Rightarrow> (Inl GrantWrite, file)
      | SavedNotSynced \<Rightarrow> (Inl GrantWrite, GrantsStored records))"

text \<open>\<open>u64::saturating_add\<close>.\<close>

definition saturating_add :: "u64 \<Rightarrow> u64 \<Rightarrow> u64" where
  "saturating_add a b = (if a + b < a then - 1 else a + b)"

record grant_clock =
  gc_started_unix :: u64
  gc_elapsed_secs :: u64

definition grants_observe ::
  "grant_clock \<Rightarrow> save_outcome \<Rightarrow> grant_records \<Rightarrow> u64 \<Rightarrow> grants_file
   \<Rightarrow> (grant_error + grant_records) \<times> grants_file" where
  "grants_observe clock out records now file =
     (let monotonic_floor = saturating_add (gc_started_unix clock) (gc_elapsed_secs clock);
          floor = max (gr_observed_unix records) monotonic_floor
      in if now < floor then (Inl GrantClockRollback, file)
         else if now > gr_observed_unix records then
           (let records = records\<lparr>gr_observed_unix := now\<rparr> in
            case grants_write out records file of
              (Inr _, file) \<Rightarrow> (Inr records, file)
            | (Inl e, file) \<Rightarrow> (Inl e, file))
         else (Inr records, file))"

section \<open>Operations\<close>

definition validate_grant_id :: "string \<Rightarrow> grant_error + unit" where
  "validate_grant_id i =
     (if i = [] \<or> length i > 128 \<or> \<not> list_all (\<lambda>c. is_ascii_alphanumeric c \<or> c = CHR ''-'' \<or> c = CHR ''_'') i
      then Inl GrantBadId else Inr ())"

definition sha256_hex :: "string \<Rightarrow> bool" where
  "sha256_hex d \<longleftrightarrow> length d = 64 \<and> list_all (\<lambda>c. is_ascii_hexdigit c \<and> \<not> is_ascii_uppercase c) d"

definition active_grants :: "grant_records \<Rightarrow> grant list" where
  "active_grants r = concat (map (\<lambda>(_, g). case g of Some g \<Rightarrow> [g] | None \<Rightarrow> []) (gr_grants r))"

text \<open>\<open>now1\<close> and \<open>now2\<close> are the two readings of the clock, \<open>out1\<close> and \<open>out2\<close> the two writes.\<close>

definition grants_issue ::
  "grant_clock \<Rightarrow> u64 \<Rightarrow> u64 \<Rightarrow> save_outcome \<Rightarrow> save_outcome
   \<Rightarrow> string \<Rightarrow> string \<Rightarrow> string \<Rightarrow> u64 \<Rightarrow> string \<Rightarrow> grants_file \<Rightarrow> (grant_error + unit) \<times> grants_file" where
  "grants_issue clock now1 now2 out1 out2 i host digest expires_at route file =
     (case and_then (validate_grant_id i) (\<lambda>_.
           and_then (map_err GrantBadHost (validate_host host)) (\<lambda>host.
           and_then (ensure (\<not> contains_str ''*'' host) GrantWildcard) (\<lambda>_.
           and_then (ensure (sha256_hex digest) GrantBadDigest) (\<lambda>_.
           and_then (grants_read file) (\<lambda>records. Inr (host, records)))))) of
        Inl e \<Rightarrow> (Inl e, file)
      | Inr (host, records) \<Rightarrow>
          (case grants_observe clock out1 records now1 file of
             (Inl e, file) \<Rightarrow> (Inl e, file)
           | (Inr records, file) \<Rightarrow>
               let grant = \<lparr>g_host = host, g_route_identity = route, g_revoked = False,
                            g_token_sha256 = digest, g_expires_at = expires_at\<rparr> in
               case bt_get (gr_grants records) i of
                 Some existing \<Rightarrow> if existing = Some grant then (Inr (), file) else (Inl GrantExists, file)
               | None \<Rightarrow>
                   if expires_at \<le> now2 then (Inl GrantExpired, file)
                   else if list_ex (\<lambda>g. g_token_sha256 g = g_token_sha256 grant) (active_grants records)
                   then (Inl GrantDigestTaken, file)
                   else grants_write out2
                     (records\<lparr>gr_grants := bt_insert i (Some grant) (gr_grants records)\<rparr>) file))"

definition grants_revoke :: "save_outcome \<Rightarrow> string \<Rightarrow> grants_file \<Rightarrow> (grant_error + unit) \<times> grants_file" where
  "grants_revoke out i file =
     (case and_then (validate_grant_id i) (\<lambda>_. grants_read file) of
        Inl e \<Rightarrow> (Inl e, file)
      | Inr records \<Rightarrow>
          let new = (case bt_get (gr_grants records) i of
                Some (Some grant) \<Rightarrow> Some (grant\<lparr>g_revoked := True\<rparr>)
              | _ \<Rightarrow> None)
          in grants_write out (records\<lparr>gr_grants := bt_insert i new (gr_grants records)\<rparr>) file)"

text \<open>The bearer of the request: exactly one \<open>Authorization\<close> header, and no competing one.\<close>

definition bearer_char :: "char \<Rightarrow> bool" where
  "bearer_char c \<longleftrightarrow> is_ascii_alphanumeric c \<or> c \<in> set ''-._~+/=''"

definition request_bearer :: "(string \<times> string) list \<Rightarrow> string option" where
  "request_bearer headers =
     (if list_ex (\<lambda>(name, _). list_ex (eq_ignore_ascii_case name)
           [''proxy-authorization'', ''x-api-key'', ''api-key'']) headers
      then None
      else case filter (\<lambda>(name, _). eq_ignore_ascii_case name ''authorization'') headers of
        [(_, value)] \<Rightarrow>
          (case strip_prefix ''Bearer '' value of
             None \<Rightarrow> None
           | Some token \<Rightarrow>
               if 32 \<le> length token \<and> length token \<le> 512 \<and> list_all bearer_char token
               then Some token else None)
      | _ \<Rightarrow> None)"

definition grant_matches :: "string \<Rightarrow> string \<Rightarrow> u64 \<Rightarrow> string \<Rightarrow> grant \<Rightarrow> bool" where
  "grant_matches host route now digest g \<longleftrightarrow>
     \<not> g_revoked g \<and> g_route_identity g = route \<and> g_host g = host \<and> now < g_expires_at g \<and>
     g_token_sha256 g = digest"

definition grants_permits ::
  "(string \<Rightarrow> string) \<Rightarrow> grant_clock \<Rightarrow> save_outcome \<Rightarrow> string \<Rightarrow> string \<Rightarrow> (string \<times> string) list \<Rightarrow> u64
   \<Rightarrow> grants_file \<Rightarrow> bool \<times> grants_file" where
  "grants_permits sha256 clock out host route headers now file =
     (case request_bearer headers of
        None \<Rightarrow> (False, file)
      | Some token \<Rightarrow>
          (case grants_read file of
             Inl _ \<Rightarrow> (False, file)
           | Inr records \<Rightarrow>
               (case grants_observe clock out records now file of
                  (Inl _, file) \<Rightarrow> (False, file)
                | (Inr records, file) \<Rightarrow>
                    (list_ex (grant_matches host route now (sha256 token)) (active_grants records), file))))"

text \<open>The route identity hashes the target with the whole spec; serialisation is a parameter.\<close>

definition route_identity :: "(string \<Rightarrow> string) \<Rightarrow> ('a \<Rightarrow> string) \<Rightarrow> 'a \<Rightarrow> string" where
  "route_identity sha256 ser target_spec = sha256 (ser target_spec)"

section \<open>The store as a state machine\<close>

inductive grant_step :: "(string \<Rightarrow> string) \<Rightarrow> grants_file \<Rightarrow> grants_file \<Rightarrow> bool" for sha256 where
  issue: "grant_step sha256 f (snd (grants_issue clock now1 now2 out1 out2 i host digest expires_at route f))"
| revoke: "grant_step sha256 f (snd (grants_revoke out i f))"
| permits: "grant_step sha256 f (snd (grants_permits sha256 clock out host route headers now f))"

definition file_grants :: "grants_file \<Rightarrow> (string, grant option) btree" where
  "file_grants f = (case f of GrantsStored r \<Rightarrow> gr_grants r | _ \<Rightarrow> [])"

definition digests_unique :: "(string, grant option) btree \<Rightarrow> bool" where
  "digests_unique m \<longleftrightarrow>
     (\<forall>i j g h. bt_get m i = Some (Some g) \<and> bt_get m j = Some (Some h) \<and>
        g_token_sha256 g = g_token_sha256 h \<longrightarrow> i = j)"

definition grants_ok :: "grants_file \<Rightarrow> bool" where
  "grants_ok f \<longleftrightarrow> bt_ok (file_grants f) \<and> digests_unique (file_grants f)"

text \<open>How one operation may change the table.\<close>

inductive table_step :: "(string, grant option) btree \<Rightarrow> (string, grant option) btree \<Rightarrow> bool" where
  same: "table_step m m"
| add: "bt_get m i = None \<Longrightarrow> (\<And>j h. bt_get m j = Some (Some h) \<Longrightarrow> g_token_sha256 h \<noteq> g_token_sha256 g) \<Longrightarrow>
     table_step m (bt_insert i (Some g) m)"
| kill: "bt_get m i = Some (Some g) \<Longrightarrow> table_step m (bt_insert i (Some (g\<lparr>g_revoked := True\<rparr>)) m)"
| tomb: "bt_get m i = None \<or> bt_get m i = Some None \<Longrightarrow> table_step m (bt_insert i None m)"

lemma grants_write_cases:
  "grants_write out r f = (res, f') \<Longrightarrow> f' = f \<or> f' = GrantsStored r"
  by (cases out) (auto simp: grants_write_def)

lemma grants_read_table: "grants_read f = Inr r \<Longrightarrow> gr_grants r = file_grants f"
  by (auto simp: grants_read_def file_grants_def grant_records_default_def split: grants_file.splits)

lemma grants_observe_table:
  assumes "grants_observe clock out r now f = (res, f')" and "gr_grants r = file_grants f"
  shows "file_grants f' = file_grants f"
    and "res = Inr r' \<Longrightarrow> gr_grants r' = file_grants f' \<and>
      saturating_add (gc_started_unix clock) (gc_elapsed_secs clock) \<le> now \<and> gr_observed_unix r' \<le> now"
  using assms
  by (auto simp: grants_observe_def Let_def file_grants_def not_less split: if_splits prod.splits sum.splits
      dest!: grants_write_cases)

lemma active_grants_mem:
  assumes "bt_ok (gr_grants r)"
  shows "g \<in> set (active_grants r) \<longleftrightarrow> (\<exists>i. bt_get (gr_grants r) i = Some (Some g))"
  using assms by (force simp: active_grants_def bt_get_iff split: option.splits)

lemma issue_table:
  assumes "bt_ok (file_grants f)"
  shows "table_step (file_grants f) (file_grants (snd (grants_issue clock now1 now2 out1 out2 i host digest e route f)))"
proof -
  obtain res f' where eq: "grants_issue clock now1 now2 out1 out2 i host digest e route f = (res, f')"
    by (cases "grants_issue clock now1 now2 out1 out2 i host digest e route f")
  show ?thesis
  proof (cases "f' = f")
    case False
    then obtain h r r1 f1 where r: "grants_read f = Inr r"
      and o: "grants_observe clock out1 r now1 f = (r1, f1)"
      and rest: "(case r1 of Inl e \<Rightarrow> (Inl e, f1) | Inr records \<Rightarrow>
          let grant = \<lparr>g_host = h, g_route_identity = route, g_revoked = False,
                            g_token_sha256 = digest, g_expires_at = e\<rparr> in
               case bt_get (gr_grants records) i of
                 Some existing \<Rightarrow> if existing = Some grant then (Inr (), f1) else (Inl GrantExists, f1)
               | None \<Rightarrow>
                   if e \<le> now2 then (Inl GrantExpired, f1)
                   else if list_ex (\<lambda>g. g_token_sha256 g = g_token_sha256 grant) (active_grants records)
                   then (Inl GrantDigestTaken, f1)
                   else grants_write out2
                     (records\<lparr>gr_grants := bt_insert i (Some grant) (gr_grants records)\<rparr>) f1) = (res, f')"
      using eq by (auto simp: grants_issue_def and_then_Inr map_err_Inr split: sum.splits prod.splits)
    note t = grants_observe_table [OF o grants_read_table [OF r]]
    show ?thesis
    proof (cases "file_grants f' = file_grants f")
      case True
      then show ?thesis by (simp add: eq same)
    next
      case changed: False
      with rest t(1) obtain records where rec: "r1 = Inr records" by (cases r1) auto
      define grant where "grant = \<lparr>g_host = h, g_route_identity = route, g_revoked = False,
                            g_token_sha256 = digest, g_expires_at = e\<rparr>"
      have table: "gr_grants records = file_grants f" using t rec by simp
      from rest changed t(1) rec have new: "bt_get (file_grants f) i = None"
        and fresh: "\<not> list_ex (\<lambda>g. g_token_sha256 g = g_token_sha256 grant) (active_grants records)"
        and w: "grants_write out2 (records\<lparr>gr_grants := bt_insert i (Some grant) (gr_grants records)\<rparr>) f1 = (res, f')"
        by (auto simp: table grant_def Let_def split: option.splits if_splits)
      from grants_write_cases [OF w] changed t(1)
      have "file_grants f' = bt_insert i (Some grant) (file_grants f)"
        by (auto simp: file_grants_def table)
      moreover have "g_token_sha256 k \<noteq> g_token_sha256 grant" if "bt_get (file_grants f) j = Some (Some k)" for j k
        using fresh that active_grants_mem [of records k] assms by (auto simp: table list_ex_iff)
      ultimately show ?thesis using new by (simp add: eq add)
    qed
  qed (simp add: eq same)
qed

lemma revoke_table:
  "table_step (file_grants f) (file_grants (snd (grants_revoke out i f)))"
proof -
  obtain res f' where eq: "grants_revoke out i f = (res, f')" by (cases "grants_revoke out i f")
  show ?thesis
  proof (cases "file_grants f' = file_grants f")
    case True
    then show ?thesis by (simp add: eq same)
  next
    case False
    define new where "new (m :: (string, grant option) btree) = (case bt_get m i of
                Some (Some grant) \<Rightarrow> Some (grant\<lparr>g_revoked := True\<rparr>) | _ \<Rightarrow> None)" for m
    from False eq obtain r where r: "grants_read f = Inr r"
      and w: "grants_write out (r\<lparr>gr_grants := bt_insert i (new (gr_grants r)) (gr_grants r)\<rparr>) f = (res, f')"
      by (auto simp: grants_revoke_def and_then_Inr new_def Let_def split: sum.splits)
    from grants_write_cases [OF w] False have "file_grants f' = bt_insert i (new (file_grants f)) (file_grants f)"
      using grants_read_table [OF r] by (auto simp: file_grants_def)
    moreover have "table_step m (bt_insert i (new m) m)" for m
      using kill [of m i] tomb [of m i] by (auto simp: new_def split: option.splits)
    ultimately show ?thesis by (simp add: eq)
  qed
qed

lemma permits_table:
  "file_grants (snd (grants_permits sha clock out host route headers now f)) = file_grants f"
  by (auto simp: grants_permits_def split: option.splits sum.splits prod.splits
      dest: grants_observe_table(1) grants_read_table)

lemma grant_step_table:
  "grant_step sha f f' \<Longrightarrow> bt_ok (file_grants f) \<Longrightarrow> table_step (file_grants f) (file_grants f')"
  by (induction rule: grant_step.induct) (auto simp: issue_table revoke_table permits_table same)

lemma table_step_ok:
  assumes "table_step m m'" and "bt_ok m" and "digests_unique m"
  shows "bt_ok m' \<and> digests_unique m'"
  using assms
proof (induction rule: table_step.induct)
  case (add m i g)
  then show ?case by (simp add: digests_unique_def) metis
next
  case (kill m i g)
  then show ?case by (simp add: digests_unique_def) (metis grant.select_convs(4) grant.surjective grant.update_convs(3))
qed (auto simp: digests_unique_def split: if_splits)

text \<open>A dead id holds a tombstone or a revoked grant; a dead digest is one a revoked grant holds.\<close>

definition id_dead :: "string \<Rightarrow> (string, grant option) btree \<Rightarrow> bool" where
  "id_dead i m \<longleftrightarrow> (case bt_get m i of Some (Some g) \<Rightarrow> g_revoked g | Some None \<Rightarrow> True | None \<Rightarrow> False)"

definition digest_dead :: "string \<Rightarrow> (string, grant option) btree \<Rightarrow> bool" where
  "digest_dead d m \<longleftrightarrow> (\<exists>i g. bt_get m i = Some (Some g) \<and> g_revoked g \<and> g_token_sha256 g = d)"

lemma table_step_id_dead: "table_step m m' \<Longrightarrow> bt_ok m \<Longrightarrow> id_dead i m \<Longrightarrow> id_dead i m'"
  by (induction rule: table_step.induct) (auto simp: id_dead_def split: option.splits)

lemma table_step_digest_dead:
  assumes "table_step m m'" and "bt_ok m" and "digest_dead d m"
  shows "digest_dead d m'"
  using assms
proof (induction rule: table_step.induct)
  case (kill m i g)
  obtain j h where h: "bt_get m j = Some (Some h)" "g_revoked h" "g_token_sha256 h = d"
    using kill.prems(2) by (auto simp: digest_dead_def)
  show ?case
  proof (cases "j = i")
    case True
    with h kill.hyps have "g = h" by simp
    with h kill.prems(1) True show ?thesis
      unfolding digest_dead_def by (intro exI [of _ i] exI [of _ "g\<lparr>g_revoked := True\<rparr>"]) simp
  next
    case False
    with h kill.prems(1) show ?thesis
      unfolding digest_dead_def by (intro exI [of _ j] exI [of _ h]) simp
  qed
qed (auto simp: digest_dead_def, (metis option.distinct(1) option.inject)+)

lemma grant_steps_keep:
  assumes "(grant_step sha)\<^sup>*\<^sup>* f f'" and "grants_ok f"
  shows "grants_ok f' \<and> (id_dead i (file_grants f) \<longrightarrow> id_dead i (file_grants f')) \<and>
    (digest_dead d (file_grants f) \<longrightarrow> digest_dead d (file_grants f'))"
  using assms
proof (induction rule: rtranclp_induct)
  case (step f1 f2)
  have ok: "grants_ok f1" using step by blast
  then have t: "table_step (file_grants f1) (file_grants f2)"
    using step(2) ok by (intro grant_step_table) (simp_all add: grants_ok_def)
  show ?case
    using step ok table_step_ok [OF t] table_step_id_dead [OF t] table_step_digest_dead [OF t]
    by (simp add: grants_ok_def)
qed simp

section \<open>What a permit means\<close>

lemma permits_True:
  assumes "grants_permits sha clock out host route headers now f = (True, f')" and "grants_ok f"
  shows "\<exists>token i g. request_bearer headers = Some token \<and>
    bt_get (file_grants f) i = Some (Some g) \<and> grant_matches host route now (sha token) g \<and>
    saturating_add (gc_started_unix clock) (gc_elapsed_secs clock) \<le> now"
proof -
  obtain token r r1 where tok: "request_bearer headers = Some token" and r: "grants_read f = Inr r"
    and o: "grants_observe clock out r now f = (Inr r1, f')"
    and m: "list_ex (grant_matches host route now (sha token)) (active_grants r1)"
    using assms(1) by (auto simp: grants_permits_def split: option.splits sum.splits prod.splits)
  note t = grants_observe_table [OF o grants_read_table [OF r]]
  have table: "gr_grants r1 = file_grants f" using t by simp
  obtain g where g: "g \<in> set (active_grants r1)" "grant_matches host route now (sha token) g"
    using m by (auto simp: list_ex_iff)
  have "\<exists>i. bt_get (file_grants f) i = Some (Some g)"
    using g(1) active_grants_mem [of r1 g] assms(2) by (simp add: table grants_ok_def)
  with tok g(2) t(2) show ?thesis by blast
qed

text \<open>
  C15: A request is let through only on a live grant: it carries exactly one bearer and no
  competing credential header, the store holds an unrevoked, unexpired grant for exactly
  this host, this route and this bearer's digest, and the clock has not gone back behind
  the time the daemon has already seen.
\<close>

theorem permits_sound:
  assumes "grants_ok f" and "fst (grants_permits sha clock out host route headers now f)"
  shows "(\<exists>token i g. request_bearer headers = Some token \<and>
      bt_get (file_grants f) i = Some (Some g) \<and> \<not> g_revoked g \<and> g_host g = host \<and>
      g_route_identity g = route \<and> now < g_expires_at g \<and> g_token_sha256 g = sha token) \<and>
    saturating_add (gc_started_unix clock) (gc_elapsed_secs clock) \<le> now"
proof -
  obtain f' where "grants_permits sha clock out host route headers now f = (True, f')"
    using assms(2) by (cases "grants_permits sha clock out host route headers now f") auto
  from permits_True [OF this assms(1)] show ?thesis by (auto simp: grant_matches_def)
qed

text \<open>Once dead, ids and digests stay dead.\<close>

lemma dead_digest_refused:
  assumes "grants_ok f" and "digest_dead d (file_grants f)" and "request_bearer headers = Some token" and "sha token = d"
  shows "\<not> fst (grants_permits sha clock out host route headers now f)"
proof
  assume "fst (grants_permits sha clock out host route headers now f)"
  then obtain f' where "grants_permits sha clock out host route headers now f = (True, f')"
    by (cases "grants_permits sha clock out host route headers now f") auto
  from permits_True [OF this assms(1)] assms(3,4) obtain j g where
    g: "bt_get (file_grants f) j = Some (Some g)" "\<not> g_revoked g" "g_token_sha256 g = d"
    by (auto simp: grant_matches_def)
  obtain k h where h: "bt_get (file_grants f) k = Some (Some h)" "g_revoked h" "g_token_sha256 h = d"
    using assms(2) by (auto simp: digest_dead_def)
  have "j = k" using assms(1) g h by (auto simp: grants_ok_def digests_unique_def)
  with g h show False by simp
qed

lemma dead_id_refused:
  assumes "id_dead i (file_grants f)"
  shows "fst (grants_issue clock now1 now2 out1 out2 i h digest expires_at r f) \<noteq> Inr ()"
proof
  assume s: "fst (grants_issue clock now1 now2 out1 out2 i h digest expires_at r f) = Inr ()"
  then obtain r0 r1 f1 host' where rd: "grants_read f = Inr r0"
    and o: "grants_observe clock out1 r0 now1 f = (Inr r1, f1)"
    and c: "bt_get (gr_grants r1) i = None \<or> bt_get (gr_grants r1) i = Some (Some \<lparr>g_host = host',
      g_route_identity = r, g_revoked = False, g_token_sha256 = digest, g_expires_at = expires_at\<rparr>)"
    by (auto simp: grants_issue_def and_then_Inr map_err_Inr Let_def
        split: sum.splits prod.splits option.splits if_splits)
  have "gr_grants r1 = file_grants f"
    using grants_observe_table [OF o grants_read_table [OF rd]] by simp
  with c assms show False by (auto simp: id_dead_def split: option.splits)
qed

text \<open>A revocation that succeeds kills the id, and the digest of the grant it had.\<close>

lemma revoke_kills:
  assumes "bt_ok (file_grants f)" and "grants_revoke out i f = (Inr (), f1)"
  shows "id_dead i (file_grants f1)"
    and "bt_get (file_grants f) i = Some (Some g) \<Longrightarrow> digest_dead (g_token_sha256 g) (file_grants f1)"
proof -
  obtain r where r: "grants_read f = Inr r"
    and w: "grants_write out (r\<lparr>gr_grants := bt_insert i (case bt_get (gr_grants r) i of
        Some (Some grant) \<Rightarrow> Some (grant\<lparr>g_revoked := True\<rparr>) | _ \<Rightarrow> None) (gr_grants r)\<rparr>) f = (Inr (), f1)"
    using assms(2) by (auto simp: grants_revoke_def and_then_Inr Let_def split: sum.splits)
  then have f1: "file_grants f1 = bt_insert i (case bt_get (file_grants f) i of
        Some (Some grant) \<Rightarrow> Some (grant\<lparr>g_revoked := True\<rparr>) | _ \<Rightarrow> None) (file_grants f)"
    using grants_read_table [OF r] by (cases out) (auto simp: grants_write_def file_grants_def)
  then show "id_dead i (file_grants f1)" using assms(1) by (auto simp: id_dead_def split: option.splits)
  show "digest_dead (g_token_sha256 g) (file_grants f1)" if "bt_get (file_grants f) i = Some (Some g)"
    unfolding digest_dead_def using that assms(1)
    by (intro exI [of _ i] exI [of _ "g\<lparr>g_revoked := True\<rparr>"]) (simp add: f1)
qed

text \<open>
  C28: Revocation is final. After \<open>grants_revoke\<close> has returned without an error, no sequence of issue,
  revoke and permit operations, with any write failing in any way, lets the bearer of the grant of
  that id through again, for any host or route; and the id, even if it never had a grant, can never
  be issued.
\<close>

theorem revocation_is_final:
  assumes "grants_ok f" and "grants_revoke out i f = (Inr (), f1)" and "(grant_step sha)\<^sup>*\<^sup>* f1 f'"
  shows "(\<forall>g token. bt_get (file_grants f) i = Some (Some g) \<longrightarrow> request_bearer headers = Some token \<longrightarrow>
      sha token = g_token_sha256 g \<longrightarrow> \<not> fst (grants_permits sha clock out' host route headers now f')) \<and>
    fst (grants_issue clock now1 now2 out1 out2 i h digest expires_at r f') \<noteq> Inr ()"
proof -
  have "grant_step sha f f1" using grant_step.revoke [of sha f out i] assms(2) by simp
  then have ok: "grants_ok f1" using assms(1) grant_steps_keep [of sha f f1] by blast
  note keep = grant_steps_keep [OF assms(3) ok] and kills = revoke_kills [OF _ assms(2)]
  have "id_dead i (file_grants f')" using keep kills(1) assms(1) by (simp add: grants_ok_def)
  moreover have "digest_dead (g_token_sha256 g) (file_grants f')" if "bt_get (file_grants f) i = Some (Some g)" for g
    using keep kills(2) [OF _ that] assms(1) by (simp add: grants_ok_def)
  moreover have "grants_ok f'" using keep by blast
  ultimately show ?thesis using dead_digest_refused [of f' _ headers] dead_id_refused [of i f'] by (intro conjI allI impI) auto
qed

definition sample_token :: string where
  "sample_token = ''0123456789abcdef0123456789abcdef''"

definition sample_grant :: grant where
  "sample_grant = \<lparr>g_host = ''gh.test'', g_route_identity = ''r'', g_revoked = False,
     g_token_sha256 = sample_token, g_expires_at = 100\<rparr>"

definition sample_grants :: "bool \<Rightarrow> grants_file" where
  "sample_grants revoked = GrantsStored \<lparr>gr_observed_unix = 10,
     gr_grants = [(''g1'', Some (sample_grant\<lparr>g_revoked := revoked\<rparr>))]\<rparr>"

definition sample_clock :: grant_clock where
  "sample_clock = \<lparr>gc_started_unix = 10, gc_elapsed_secs = 5\<rparr>"

definition sample_headers :: "(string \<times> string) list" where
  "sample_headers = [(''Authorization'', ''Bearer '' @ sample_token)]"

lemma sample_grants_ok: "grants_ok (sample_grants b)"
  by (auto simp: grants_ok_def sample_grants_def file_grants_def digests_unique_def bt_get_def split: if_splits)

lemma sample_bearer: "request_bearer sample_headers = Some sample_token"
proof -
  have "eq_ignore_ascii_case ''Authorization'' ''authorization''" "\<not> eq_ignore_ascii_case ''Authorization'' ''proxy-authorization''"
    "\<not> eq_ignore_ascii_case ''Authorization'' ''x-api-key''" "\<not> eq_ignore_ascii_case ''Authorization'' ''api-key''"
    "list_all bearer_char sample_token" by code_simp+
  then show ?thesis by (simp add: request_bearer_def sample_headers_def sample_token_def)
qed

lemma sample_floor: "saturating_add (gc_started_unix sample_clock) (gc_elapsed_secs sample_clock) = 15"
  by (simp add: saturating_add_def sample_clock_def)

lemma permits_sound_witness:
  "(\<exists>token i g. request_bearer sample_headers = Some token \<and>
      bt_get (file_grants (sample_grants False)) i = Some (Some g) \<and> \<not> g_revoked g \<and> g_host g = ''gh.test'' \<and>
      g_route_identity g = ''r'' \<and> 20 < g_expires_at g \<and> g_token_sha256 g = (\<lambda>t. t) token) \<and>
    saturating_add (gc_started_unix sample_clock) (gc_elapsed_secs sample_clock) \<le> 20"
proof (rule permits_sound [OF sample_grants_ok])
  have "grant_matches ''gh.test'' ''r'' 20 sample_token (sample_grant\<lparr>g_revoked := False\<rparr>)"
    by (simp add: grant_matches_def sample_grant_def)
  then show "fst (grants_permits (\<lambda>t. t) sample_clock Saved ''gh.test'' ''r'' sample_headers
      20 (sample_grants False))"
    by (simp add: grants_permits_def sample_bearer grants_observe_def sample_floor sample_grants_def
        grants_read_def grants_write_def active_grants_def Let_def)
qed

lemma revocation_is_final_witness:
  "grants_revoke Saved ''g1'' (sample_grants False) = (Inr (), sample_grants True) \<and>
   \<not> fst (grants_permits (\<lambda>t. t) sample_clock Saved ''gh.test'' ''r'' sample_headers 20 (sample_grants True)) \<and>
   fst (grants_issue sample_clock 20 20 Saved Saved ''g1'' ''gh.test'' sample_token 100 ''r'' (sample_grants True)) \<noteq> Inr ()"
proof -
  have revoked: "grants_revoke Saved ''g1'' (sample_grants False) = (Inr (), sample_grants True)" by code_simp
  have steps: "(grant_step (\<lambda>t. t))\<^sup>*\<^sup>* (sample_grants True) (sample_grants True)" by simp
  have "bt_get (file_grants (sample_grants False)) ''g1'' = Some (Some sample_grant)" by code_simp
  moreover have "g_token_sha256 sample_grant = sample_token" by (simp add: sample_grant_def)
  ultimately show ?thesis using revocation_is_final [OF sample_grants_ok revoked steps] revoked sample_bearer by metis
qed

end
