(* ===== verification/Egress.thy ===== *)
theory Egress
  imports Service_Config Grants
begin

text \<open>
  Authenticated egress, \<open>portman-daemon/src/egress.rs\<close>: who may use a route, and the request
  head the proxy sends upstream with the credential attached. \<open>rewrite_head\<close> is \<open>None\<close> where
  the source panics.
\<close>

section \<open>Rewriting the head\<close>

definition caller_owned :: "string list" where
  "caller_owned = [''authorization'', ''proxy-authorization'', ''host'', ''connection'']"

definition is_caller_owned :: "string \<Rightarrow> bool" where
  "is_caller_owned name \<longleftrightarrow> list_ex (eq_ignore_ascii_case name) caller_owned"

text \<open>The headers the loop skips.\<close>

definition dropped_header :: "egress_spec \<Rightarrow> string \<Rightarrow> bool" where
  "dropped_header spec name \<longleftrightarrow>
     is_caller_owned name \<or> eq_ignore_ascii_case name (es_header spec) \<or>
     eq_ignore_ascii_case name ''x-api-key'' \<or> eq_ignore_ascii_case name ''api-key''"

definition crlf :: string where
  "crlf = [CHR 0x0D, CHR 0x0A]"

definition rewrite_head ::
  "string \<Rightarrow> string \<Rightarrow> (string \<times> string) list \<Rightarrow> egress_spec \<Rightarrow> string \<Rightarrow> string option" where
  "rewrite_head meth path headers spec val =
     (let out = meth @ '' '' @ path @ '' HTTP/1.1'' @ crlf;
          out = foldl (\<lambda>out (name, val).
            if dropped_header spec name then out else out @ name @ '': '' @ val @ crlf) out headers;
          out = out @ ''Host: '' @ es_upstream_host spec @ crlf;
          out = out @ ''Connection: close'' @ crlf;
          rendered = egress_spec_render spec val
      in if has_line_break rendered then None
         else Some (out @ es_header spec @ '': '' @ rendered @ crlf @ crlf))"

record egress_audit =
  ea_host :: string
  ea_upstream :: string
  ea_secrets_block :: string
  ea_key :: string

definition egress_audit_from_spec :: "string \<Rightarrow> string \<Rightarrow> egress_spec \<Rightarrow> egress_audit" where
  "egress_audit_from_spec host upstream spec =
     \<lparr>ea_host = host, ea_upstream = upstream, ea_secrets_block = es_secrets spec, ea_key = es_key spec\<rparr>"

text \<open>\<open>CredentialSource::authorize\<close>: the default, and the supervisor's.\<close>

definition authorize_default :: "egress_spec \<Rightarrow> bool" where
  "authorize_default spec \<longleftrightarrow> \<not> es_require_caller_token spec"

definition authorize_supervisor ::
  "bool \<Rightarrow> (string \<Rightarrow> string) \<Rightarrow> (string \<times> egress_spec \<Rightarrow> string) \<Rightarrow> grant_clock \<Rightarrow> save_outcome
   \<Rightarrow> string \<Rightarrow> string \<Rightarrow> egress_spec \<Rightarrow> (string \<times> string) list \<Rightarrow> u64 \<Rightarrow> grants_file \<Rightarrow> bool \<times> grants_file" where
  "authorize_supervisor managed sha256 ser clock out host target spec headers now file =
     (if \<not> managed \<and> \<not> es_require_caller_token spec then (True, file)
      else grants_permits sha256 clock out host (route_identity sha256 ser (target, spec)) headers now file)"

section \<open>The lines of a rewritten head\<close>

definition kept_headers :: "egress_spec \<Rightarrow> (string \<times> string) list \<Rightarrow> (string \<times> string) list" where
  "kept_headers spec headers = filter (\<lambda>h. \<not> dropped_header spec (fst h)) headers"

definition header_line :: "string \<times> string \<Rightarrow> string" where
  "header_line h = fst h @ '': '' @ snd h"

definition head_lines ::
  "string \<Rightarrow> string \<Rightarrow> (string \<times> string) list \<Rightarrow> egress_spec \<Rightarrow> string \<Rightarrow> string list" where
  "head_lines meth path headers spec val =
     [meth @ '' '' @ path @ '' HTTP/1.1''] @ map header_line (kept_headers spec headers) @
     [header_line (''Host'', es_upstream_host spec), header_line (''Connection'', ''close''),
      header_line (es_header spec, egress_spec_render spec val), []]"

lemma foldl_headers:
  "foldl (\<lambda>out (name, val). if dropped_header spec name then out else out @ name @ '': '' @ val @ crlf) out headers =
   out @ concat (map (\<lambda>l. l @ crlf) (map header_line (kept_headers spec headers)))"
proof (induction headers arbitrary: out)
  case (Cons h headers)
  then show ?case by (cases h) (simp add: kept_headers_def header_line_def)
qed (simp add: kept_headers_def)

lemma rewrite_head_lines:
  "rewrite_head meth path headers spec val = Some out \<Longrightarrow>
   out = concat (map (\<lambda>l. l @ crlf) (head_lines meth path headers spec val))"
  by (auto simp: rewrite_head_def foldl_headers head_lines_def Let_def header_line_def split: if_splits)

text \<open>Reading the bytes back line by line.\<close>

lemma split_lines:
  "(\<And>l. l \<in> set ls \<Longrightarrow> CHR 0x0A \<notin> set l) \<Longrightarrow>
   split_on CHR 0x0A (concat (map (\<lambda>l. l @ crlf) ls)) = map (\<lambda>l. l @ [CHR 0x0D]) ls @ [[]]"
proof (induction ls)
  case (Cons l ls)
  have "concat (map (\<lambda>l. l @ crlf) (l # ls)) = (l @ [CHR 0x0D]) @ CHR 0x0A # concat (map (\<lambda>l. l @ crlf) ls)"
    by (simp add: crlf_def)
  moreover have "split_on CHR 0x0A (l @ [CHR 0x0D]) = [l @ [CHR 0x0D]]"
    using Cons.prems by (intro split_on_none) simp
  ultimately show ?case using Cons by (simp only: split_on_append) simp
qed simp

lemma kept_header_names:
  assumes "h \<in> set (kept_headers spec headers)"
  shows "h \<in> set headers" "\<not> eq_ignore_ascii_case (fst h) (es_header spec)"
    "forb \<in> set [''authorization'', ''proxy-authorization'', ''host'', ''connection'', ''x-api-key'', ''api-key''] \<Longrightarrow>
     \<not> eq_ignore_ascii_case (fst h) forb"
  using assms
  by (auto simp: kept_headers_def dropped_header_def is_caller_owned_def caller_owned_def list_ex_iff)

text \<open>
  C16: The head an egress hop sends is authoritative: read line by line it is the request
  line, the caller's headers except those it may not dictate, then one \<open>Host\<close>, one
  \<open>Connection: close\<close> and the credential last; no header the caller supplied bears the
  credential's name, an authorization or API-key name, \<open>Host\<close> or \<open>Connection\<close> in any case,
  every other one is passed on unchanged, and the head ends at its only empty line.
\<close>

theorem rewrite_head_authoritative:
  assumes "rewrite_head meth path headers spec val = Some out"
    and "\<not> has_line_break meth" and "\<not> has_line_break path"
    and "list_all (\<lambda>h. fst h \<noteq> [] \<and> \<not> has_line_break (fst h) \<and> \<not> has_line_break (snd h)) headers"
    and "\<not> has_line_break (es_upstream_host spec)" and "is_rfc7230_token (es_header spec)"
  shows "split_on CHR 0x0A out =
      map (\<lambda>l. l @ [CHR 0x0D]) (head_lines meth path headers spec val) @ [[]] \<and>
    list_all (\<lambda>l. l \<noteq> []) (butlast (head_lines meth path headers spec val)) \<and>
    (\<forall>h\<in>set (kept_headers spec headers).
       \<not> eq_ignore_ascii_case (fst h) (es_header spec) \<and>
       list_all (\<lambda>n. \<not> eq_ignore_ascii_case (fst h) n)
         [''authorization'', ''proxy-authorization'', ''host'', ''connection'', ''x-api-key'', ''api-key'']) \<and>
    (\<forall>h\<in>set headers. h \<in> set (kept_headers spec headers) \<or> dropped_header spec (fst h))"
proof -
  have rendered: "\<not> has_line_break (egress_spec_render spec val)"
    using assms(1) by (auto simp: rewrite_head_def Let_def split: if_splits)
  have lf: "has_line_break l" if "CHR 0x0A \<in> set l" for l
    using that by (auto simp: has_line_break_def list_ex_iff)
  have nb: "\<not> has_line_break l" if "l \<in> set (head_lines meth path headers spec val)" for l
  proof -
    have "\<not> has_line_break '': ''" "\<not> has_line_break ''Host: ''" "\<not> has_line_break '' ''"
      "\<not> has_line_break '' HTTP/1.1''" "\<not> has_line_break ''Connection: close''" by code_simp+
    moreover have "\<not> has_line_break (header_line h)" if "h \<in> set (kept_headers spec headers)" for h
      using kept_header_names(1) [OF that] assms(4) calculation(1)
      by (auto simp: header_line_def list_all_iff simp del: append_Cons)
    ultimately show ?thesis
      using that assms rendered token_no_line_break
      by (auto simp: head_lines_def header_line_def has_line_break_Cons)
  qed
  have "split_on CHR 0x0A out = map (\<lambda>l. l @ [CHR 0x0D]) (head_lines meth path headers spec val) @ [[]]"
    unfolding rewrite_head_lines [OF assms(1)] using nb lf by (intro split_lines) blast
  moreover have "list_all (\<lambda>l. l \<noteq> []) (butlast (head_lines meth path headers spec val))"
    by (auto simp: head_lines_def header_line_def butlast_append list_all_iff)
  ultimately show ?thesis
    using kept_header_names [of _ spec headers] by (auto simp: list_all_iff kept_headers_def)
qed

definition sample_spec :: egress_spec where
  "sample_spec = \<lparr>es_require_caller_token = False, es_secrets = ''vault'', es_key = ''TOKEN'',
     es_header = ''Authorization'', es_format = ''Bearer {value}'', es_upstream_host = ''api.example.com'',
     es_tls = True\<rparr>"

lemma rewrite_head_authoritative_witness:
  "\<exists>out. rewrite_head ''GET'' ''/x'' [(''AUTHORIZATION'', ''mine''), (''Accept'', ''a'')] sample_spec ''s3cret'' = Some out \<and>
    split_on CHR 0x0A out = map (\<lambda>l. l @ [CHR 0x0D]) (head_lines ''GET'' ''/x''
      [(''AUTHORIZATION'', ''mine''), (''Accept'', ''a'')] sample_spec ''s3cret'') @ [[]]"
proof -
  have "rewrite_head ''GET'' ''/x'' [(''AUTHORIZATION'', ''mine''), (''Accept'', ''a'')] sample_spec ''s3cret'' \<noteq> None"
    by code_simp
  then obtain out where out: "rewrite_head ''GET'' ''/x'' [(''AUTHORIZATION'', ''mine''), (''Accept'', ''a'')] sample_spec ''s3cret'' = Some out"
    by blast
  from rewrite_head_authoritative [OF out] have "split_on CHR 0x0A out = map (\<lambda>l. l @ [CHR 0x0D]) (head_lines ''GET'' ''/x''
      [(''AUTHORIZATION'', ''mine''), (''Accept'', ''a'')] sample_spec ''s3cret'') @ [[]]"
    by (rule conjunct1 [OF _ ]) code_simp+
  with out show ?thesis by blast
qed

section \<open>Authorisation\<close>

lemma managed_broker_needs_grant:
  assumes "grants_ok f" and "managed \<or> es_require_caller_token spec"
    and "fst (authorize_supervisor managed sha ser clock out host target spec headers now f)"
  shows "\<exists>token i g. request_bearer headers = Some token \<and> bt_get (file_grants f) i = Some (Some g) \<and>
    grant_matches host (route_identity sha ser (target, spec)) now (sha token) g"
proof -
  let ?p = "grants_permits sha clock out host (route_identity sha ser (target, spec)) headers now f"
  have "fst ?p" using assms(2,3) by (auto simp: authorize_supervisor_def)
  then obtain f' where "?p = (True, f')" by (cases ?p) auto
  from permits_True [OF this assms(1)] show ?thesis by blast
qed

end
