(* ===== verification/Routes.thy ===== *)
theory Routes
  imports Registry Tld Stores
begin

text \<open>
  The routes the supervisor derives, \<open>RouteBinder\<close> in \<open>portman-daemon/src/supervisor.rs\<close>, with
  \<open>tls_enabled_for_host\<close> of \<open>certs.rs\<close>. The certificate manager is the list of hosts it
  was asked to provision.
\<close>

section \<open>The binder\<close>

record route_env =
  re_tlds :: "string list"
  re_static :: static_state
  re_tls :: tls_state

record route_world =
  rw_registry :: registry
  rw_certs :: "string list"

definition tls_enabled_for_host :: "tls_state \<Rightarrow> string \<Rightarrow> bool" where
  "tls_enabled_for_host tls host =
     (let h = to_ascii_lowercase host in
      list_ex (\<lambda>(tld, _). h = tld \<or> ends_with (''.'' @ tld) h) (tls_tlds tls))"

definition service_entry :: "service_definition \<Rightarrow> string \<Rightarrow> u16 \<Rightarrow> entry" where
  "service_entry sd host port =
     \<lparr>e_host = host, e_target = ''127.0.0.1:'' @ show_nat (unat port), e_source = SourceService,
      e_mode = sd_mode sd, e_container_id = None, e_project = sd_project sd, e_egress = None\<rparr>"

definition upsert_route :: "entry \<Rightarrow> route_world \<Rightarrow> route_world" where
  "upsert_route e w = w\<lparr>rw_registry := snd (registry_upsert e (rw_registry w))\<rparr>"

definition service_register :: "route_env \<Rightarrow> service_definition \<Rightarrow> route_world \<Rightarrow> route_world" where
  "service_register env sd w =
     (case (sd_host sd, sd_port sd) of
        (Some host, Some port) \<Rightarrow>
          if host = dashboard_host then w
          else if \<not> host_is_routable host (re_tlds env) then w
          else if sd_mode sd = ModeTcp \<and> host_is_localhost host then w
          else
            let w = upsert_route (service_entry sd host port) w in
            if sd_mode sd = ModeHttp \<and> tls_enabled_for_host (re_tls env) host
            then w\<lparr>rw_certs := host # rw_certs w\<rparr> else w
      | _ \<Rightarrow> w)"

definition static_entry :: "string \<Rightarrow> string \<times> mode \<times> string option \<Rightarrow> entry" where
  "static_entry host rule =
     (case rule of (target, md, project) \<Rightarrow>
        \<lparr>e_host = host, e_target = target, e_source = SourceStatic, e_mode = md,
         e_container_id = None, e_project = project, e_egress = None\<rparr>)"

text \<open>
  The common tail of both releases: only an entry of the given source is dropped, and a static
  rule for the host takes its place.
\<close>

definition release_route :: "route_env \<Rightarrow> source \<Rightarrow> string \<Rightarrow> route_world \<Rightarrow> route_world" where
  "release_route env src host w =
     (case registry_get (rw_registry w) host of
        None \<Rightarrow> w
      | Some entry \<Rightarrow>
          if e_source entry \<noteq> src then w
          else (case static_store_get (re_static env) host of
            Some rule \<Rightarrow> upsert_route (static_entry host rule) w
          | None \<Rightarrow> w\<lparr>rw_registry := snd (registry_remove host (rw_registry w))\<rparr>))"

definition service_deregister :: "route_env \<Rightarrow> service_definition \<Rightarrow> route_world \<Rightarrow> route_world" where
  "service_deregister env sd w =
     (case sd_host sd of None \<Rightarrow> w | Some host \<Rightarrow> release_route env SourceService host w)"

definition egress_entry :: "egress_route \<Rightarrow> entry" where
  "egress_entry r =
     \<lparr>e_host = er_host r, e_target = er_target r, e_source = SourceEgress, e_mode = ModeEgress,
      e_container_id = None, e_project = None, e_egress = Some (er_spec r)\<rparr>"

definition egress_register :: "route_env \<Rightarrow> egress_route \<Rightarrow> route_world \<Rightarrow> route_world" where
  "egress_register env r w =
     (if er_host r = dashboard_host then w
      else if \<not> host_is_routable (er_host r) (re_tlds env) then w
      else upsert_route (egress_entry r) w)"

definition egress_deregister :: "route_env \<Rightarrow> egress_route \<Rightarrow> route_world \<Rightarrow> route_world" where
  "egress_deregister env r w = release_route env SourceEgress (er_host r) w"

section \<open>What registering and releasing change\<close>

definition route_at :: "route_world \<Rightarrow> string \<Rightarrow> entry option" where
  "route_at w host = registry_get (rw_registry w) host"

definition routes_ok :: "route_world \<Rightarrow> bool" where
  "routes_ok w \<longleftrightarrow> registry_ok (rw_registry w)"

definition same_host :: "string \<Rightarrow> string \<Rightarrow> bool" where
  "same_host a b \<longleftrightarrow> to_ascii_lowercase a = to_ascii_lowercase b"

definition builtin_at :: "route_world \<Rightarrow> string \<Rightarrow> bool" where
  "builtin_at w host \<longleftrightarrow> (\<exists>e. route_at w host = Some e \<and> e_source e = SourceBuiltin)"

lemma same_host_refl [simp]: "same_host a a"
  by (simp add: same_host_def)

lemma same_host_route_at: "same_host a b \<Longrightarrow> route_at w a = route_at w b"
  by (simp add: same_host_def route_at_def registry_get_def)

lemma route_at_upsert [store_laws]:
  assumes "routes_ok w" and "e_source e \<noteq> SourceBuiltin"
  shows "route_at (upsert_route e w) k =
    (if same_host k (e_host e) \<and> \<not> builtin_at w (e_host e)
     then Some (e\<lparr>e_host := to_ascii_lowercase (e_host e)\<rparr>) else route_at w k)"
  using assms by (auto simp: route_at_def upsert_route_def routes_ok_def registry_get_upsert same_host_def
      builtin_at_def protected_def)

lemma routes_ok_upsert [inv_intros]: "routes_ok w \<Longrightarrow> routes_ok (upsert_route e w)"
  by (simp add: routes_ok_def upsert_route_def registry_ok_upsert)

lemma route_at_certs [simp]: "route_at (w\<lparr>rw_certs := c\<rparr>) k = route_at w k"
  by (simp add: route_at_def)

lemma routes_ok_certs [simp]: "routes_ok (w\<lparr>rw_certs := c\<rparr>) = routes_ok w"
  by (simp add: routes_ok_def)

lemma routes_ok_release [inv_intros]: "routes_ok w \<Longrightarrow> routes_ok (release_route env src h w)"
  by (auto simp: release_route_def routes_ok_def upsert_route_def registry_ok_upsert registry_ok_remove
      split: option.split)

lemma route_at_release [store_laws]:
  assumes "routes_ok w" and "src \<noteq> SourceBuiltin"
  shows "route_at (release_route env src h w) k =
    (if same_host k h \<and> (\<exists>e. route_at w h = Some e \<and> e_source e = src)
     then map_option (\<lambda>r. (static_entry h r)\<lparr>e_host := to_ascii_lowercase h\<rparr>) (static_store_get (re_static env) h)
     else route_at w k)"
proof (cases "\<exists>e. route_at w h = Some e \<and> e_source e = src")
  case False
  then show ?thesis by (auto simp: release_route_def route_at_def split: option.split)
next
  case True
  then obtain e where e: "registry_get (rw_registry w) h = Some e" "e_source e = src"
    by (auto simp: route_at_def)
  show ?thesis
  proof (cases "static_store_get (re_static env) h")
    case (Some rule)
    obtain target md project where rule: "rule = (target, md, project)" by (cases rule)
    have "\<not> builtin_at w h" using e assms(2) by (auto simp: builtin_at_def route_at_def)
    moreover have "release_route env src h w = upsert_route (static_entry h rule) w"
      using e Some by (simp add: release_route_def)
    ultimately show ?thesis
      using assms(1) True Some by (simp add: route_at_upsert static_entry_def rule)
  next
    case None
    have "release_route env src h w = w\<lparr>rw_registry := snd (registry_remove h (rw_registry w))\<rparr>"
      using e None by (simp add: release_route_def)
    with e assms None show ?thesis
      by (auto simp: route_at_def routes_ok_def registry_get_remove same_host_def)
  qed
qed

lemma service_register_cases:
  obtains (none) "service_register env sd w = w"
  | (route) host port c where "sd_host sd = Some host" "sd_port sd = Some port" "host \<noteq> dashboard_host"
      "host_is_routable host (re_tlds env)" "\<not> (sd_mode sd = ModeTcp \<and> host_is_localhost host)"
      "service_register env sd w = (upsert_route (service_entry sd host port) w)\<lparr>rw_certs := c\<rparr>"
proof -
  have "service_register env sd w = w \<or> (\<exists>host port c. sd_host sd = Some host \<and> sd_port sd = Some port \<and>
      host \<noteq> dashboard_host \<and> host_is_routable host (re_tlds env) \<and>
      \<not> (sd_mode sd = ModeTcp \<and> host_is_localhost host) \<and>
      service_register env sd w = (upsert_route (service_entry sd host port) w)\<lparr>rw_certs := c\<rparr>)"
    by (simp add: service_register_def Let_def upsert_route_def split: option.split)
       (metis route_world.surjective route_world.update_convs(1) route_world.update_convs(2))
  with none route show ?thesis by blast
qed

lemma routes_ok_register [inv_intros]: "routes_ok w \<Longrightarrow> routes_ok (service_register env sd w)"
  by (rule service_register_cases [of env sd w]) (simp_all add: routes_ok_upsert)

lemma routes_ok_deregister [inv_intros]: "routes_ok w \<Longrightarrow> routes_ok (service_deregister env sd w)"
  by (simp add: service_deregister_def routes_ok_release split: option.split)

lemma routes_ok_egress [inv_intros]:
  "routes_ok w \<Longrightarrow> routes_ok (egress_register env r w)"
  "routes_ok w \<Longrightarrow> routes_ok (egress_deregister env r w)"
  by (simp_all add: egress_register_def egress_deregister_def routes_ok_upsert routes_ok_release)

text \<open>When a definition derives a route at all.\<close>

definition derives_route :: "route_env \<Rightarrow> service_definition \<Rightarrow> string \<Rightarrow> u16 \<Rightarrow> bool" where
  "derives_route env sd host port \<longleftrightarrow>
     sd_host sd = Some host \<and> sd_port sd = Some port \<and> host \<noteq> dashboard_host \<and>
     host_is_routable host (re_tlds env) \<and> \<not> (sd_mode sd = ModeTcp \<and> host_is_localhost host)"

lemma service_register_route:
  assumes "derives_route env sd host port"
  obtains c where "service_register env sd w = (upsert_route (service_entry sd host port) w)\<lparr>rw_certs := c\<rparr>"
proof (cases rule: service_register_cases [of env sd w])
  case none
  have "service_register env sd w = (upsert_route (service_entry sd host port) w)\<lparr>rw_certs :=
      (if sd_mode sd = ModeHttp \<and> tls_enabled_for_host (re_tls env) host then host # rw_certs w else rw_certs w)\<rparr>"
    using assms by (auto simp: service_register_def derives_route_def upsert_route_def Let_def)
  then show ?thesis by (rule that)
next
  case (route h p c)
  with assms that show ?thesis by (auto simp: derives_route_def)
qed

lemma service_register_no_route:
  "(\<And>host port. \<not> derives_route env sd host port) \<Longrightarrow> service_register env sd w = w"
  by (rule service_register_cases [of env sd w]) (auto simp: derives_route_def)

text \<open>
  A service route lives and dies with its service and touches nothing else. Registering a
  definition that derives a route (a port, a routable host other than the dashboard, no TCP under
  localhost) puts its entry at exactly that host unless a built-in entry holds it, and registering
  any other definition changes nothing. Deregistering then leaves the host to its static rule, or
  empty, and never removes an entry of another source.
\<close>

theorem service_route_lifecycle:
  assumes "routes_ok w"
  shows "routes_ok (service_register env sd w) \<and> routes_ok (service_deregister env sd w) \<and>
    (derives_route env sd host port \<longrightarrow>
       (\<forall>k. route_at (service_register env sd w) k =
          (if same_host k host \<and> \<not> builtin_at w host
           then Some ((service_entry sd host port)\<lparr>e_host := to_ascii_lowercase host\<rparr>) else route_at w k)) \<and>
       (\<not> builtin_at w host \<longrightarrow>
         route_at (service_deregister env sd (service_register env sd w)) host =
           map_option (\<lambda>r. (static_entry host r)\<lparr>e_host := to_ascii_lowercase host\<rparr>)
             (static_store_get (re_static env) host))) \<and>
    ((\<nexists>host port. derives_route env sd host port) \<longrightarrow> service_register env sd w = w) \<and>
    (\<forall>k. (\<nexists>h. sd_host sd = Some h \<and> same_host k h) \<or> (\<exists>e. route_at w k = Some e \<and> e_source e \<noteq> SourceService) \<longrightarrow>
       route_at (service_deregister env sd w) k = route_at w k)"
proof (intro conjI impI allI)
  show "routes_ok (service_register env sd w)" "routes_ok (service_deregister env sd w)"
    using assms by (simp_all add: routes_ok_register routes_ok_deregister)
  show "service_register env sd w = w" if "\<nexists>host port. derives_route env sd host port"
    using that by (intro service_register_no_route) blast
  show "route_at (service_deregister env sd w) k = route_at w k"
    if "(\<nexists>h. sd_host sd = Some h \<and> same_host k h) \<or> (\<exists>e. route_at w k = Some e \<and> e_source e \<noteq> SourceService)" for k
    using that assms
    by (auto simp: service_deregister_def route_at_release split: option.split dest: same_host_route_at [where w = w])
  assume d: "derives_route env sd host port"
  obtain c where reg: "service_register env sd w = (upsert_route (service_entry sd host port) w)\<lparr>rw_certs := c\<rparr>"
    using service_register_route [OF d] by blast
  have src: "e_source (service_entry sd host port) = SourceService" "e_host (service_entry sd host port) = host"
    by (simp_all add: service_entry_def)
  have at: "route_at (service_register env sd w) k =
      (if same_host k host \<and> \<not> builtin_at w host
       then Some ((service_entry sd host port)\<lparr>e_host := to_ascii_lowercase host\<rparr>) else route_at w k)" for k
    using assms by (simp add: reg route_at_upsert src)
  show "route_at (service_register env sd w) k =
      (if same_host k host \<and> \<not> builtin_at w host
       then Some ((service_entry sd host port)\<lparr>e_host := to_ascii_lowercase host\<rparr>) else route_at w k)" for k
    by (rule at)
  assume free: "\<not> builtin_at w host"
  have "sd_host sd = Some host" using d by (simp add: derives_route_def)
  then show "route_at (service_deregister env sd (service_register env sd w)) host =
      map_option (\<lambda>r. (static_entry host r)\<lparr>e_host := to_ascii_lowercase host\<rparr>) (static_store_get (re_static env) host)"
    using assms at free
    by (simp add: service_deregister_def route_at_release routes_ok_register src)
qed

definition binder_example :: route_env where
  "binder_example = \<lparr>re_tlds = [''test''], re_static = sample_static, re_tls = tls_default\<rparr>"

definition crm_service :: service_definition where
  "crm_service = \<lparr>sd_name = ''crm'', sd_run = [''run''], sd_dir = ''/r'', sd_port = Some 3100,
     sd_host = Some ''crm.test'', sd_mode = ModeHttp, sd_ready = ReadyNone, sd_depends = [],
     sd_restart = RestartAlways, sd_stop_grace_ms = 5000, sd_env_files = [], sd_env = [], sd_secrets = [],
     sd_secrets_optional = False, sd_watch = [], sd_watch_mode = WatchPoll, sd_watch_debounce_ms = 250,
     sd_groups = [], sd_project = None\<rparr>"

theorem service_route_lifecycle_witness:
  "map_option e_source (route_at (service_register binder_example crm_service \<lparr>rw_registry = [], rw_certs = []\<rparr>)
      ''CRM.test'') = Some SourceService \<and>
   map_option e_target (route_at (service_deregister binder_example crm_service
      (service_register binder_example crm_service \<lparr>rw_registry = [], rw_certs = []\<rparr>)) ''crm.test'') =
     Some ''127.0.0.1:3000''"
proof -
  let ?w = "\<lparr>rw_registry = [], rw_certs = []\<rparr>"
  have ok: "routes_ok ?w" by (simp add: routes_ok_def)
  have h: "host_is_routable ''crm.test'' [''test'']" "''crm.test'' \<noteq> dashboard_host" by code_simp+
  then have d: "derives_route binder_example crm_service ''crm.test'' 3100"
    by (simp add: derives_route_def binder_example_def crm_service_def)
  have nb: "\<not> builtin_at ?w ''crm.test''" by (simp add: builtin_at_def route_at_def registry_get_def)
  have l: "same_host ''CRM.test'' ''crm.test''" by code_simp
  have s: "static_store_get sample_static ''crm.test'' = Some (''127.0.0.1:3000'', ModeHttp, None)" by code_simp
  from service_route_lifecycle [OF ok, of binder_example crm_service "''crm.test''" 3100] d nb l s
  show ?thesis by (simp add: service_entry_def static_entry_def binder_example_def)
qed

text \<open>
  Releasing looks at the source of the entry only, not at which service put it there: when two
  services derive the same host, stopping one unroutes the other.
\<close>

lemma deregister_drops_other_service:
  "route_at (service_deregister (binder_example\<lparr>re_static := static_default\<rparr>) crm_service
     (service_register (binder_example\<lparr>re_static := static_default\<rparr>) (crm_service\<lparr>sd_name := ''other'', sd_port := Some 3200\<rparr>)
       \<lparr>rw_registry = [], rw_certs = []\<rparr>)) ''crm.test'' = None"
  by code_simp

end
