(* ===== verification/Io.thy ===== *)
theory Io
  imports Rust_Text
begin

text \<open>
  Fallible computations that change a world, and UTF-8. \<open>('w, 'e, 'a) io\<close> is an \<open>async fn\<close>
  returning \<open>Result\<close>, run to completion on a world \<open>'w\<close> (the network, child processes,
  files). What the code asks of the world is a parameter of the definitions that use it.
\<close>

section \<open>Effectful results\<close>

type_synonym ('w, 'e, 'a) io = "'w \<Rightarrow> ('e + 'a) \<times> 'w"

text \<open>\<open>io_then m f\<close> is \<open>let x = m.await?; f(x)\<close>; \<open>io_try\<close> lifts a pure result.\<close>

definition io_then :: "('w, 'e, 'a) io \<Rightarrow> ('a \<Rightarrow> ('w, 'e, 'b) io) \<Rightarrow> ('w, 'e, 'b) io" where
  "io_then m f w = (case m w of (Inl e, w') \<Rightarrow> (Inl e, w') | (Inr x, w') \<Rightarrow> f x w')"

definition io_try :: "'e + 'a \<Rightarrow> ('w, 'e, 'a) io" where
  "io_try r w = (r, w)"

definition io_ret :: "'a \<Rightarrow> ('w, 'e, 'a) io" where
  "io_ret x w = (Inr x, w)"

text \<open>\<open>io_each f xs\<close> runs \<open>f\<close> on each element in turn and stops at the first error.\<close>

fun io_each :: "('a \<Rightarrow> ('w, 'e, 'b) io) \<Rightarrow> 'a list \<Rightarrow> ('w, 'e, 'b list) io" where
  "io_each f [] = io_ret []"
| "io_each f (x # xs) = io_then (f x) (\<lambda>y. io_then (io_each f xs) (\<lambda>ys. io_ret (y # ys)))"

lemma io_then_cong [fundef_cong]:
  "m w = m' w' \<Longrightarrow> w = w' \<Longrightarrow> (\<And>x v. m' w' = (Inr x, v) \<Longrightarrow> f x v = f' x v) \<Longrightarrow> io_then m f w = io_then m' f' w'"
  by (auto simp: io_then_def split: prod.splits sum.splits)

lemma io_then_Inr [result_iff]:
  "io_then m f w = (Inr y, w') \<longleftrightarrow> (\<exists>x v. m w = (Inr x, v) \<and> f x v = (Inr y, w'))"
  by (auto simp: io_then_def split: prod.splits sum.splits)

lemma io_then_Inl:
  "io_then m f w = (Inl e, w') \<longleftrightarrow> m w = (Inl e, w') \<or> (\<exists>x v. m w = (Inr x, v) \<and> f x v = (Inl e, w'))"
  by (auto simp: io_then_def split: prod.splits sum.splits)

lemma io_try_Inr [result_iff]: "io_try r w = (Inr x, w') \<longleftrightarrow> r = Inr x \<and> w' = w"
  by (auto simp: io_try_def)

lemma io_ret_iff [result_iff]: "io_ret x w = (r, w') \<longleftrightarrow> r = Inr x \<and> w' = w"
  by (auto simp: io_ret_def)

text \<open>What holds of each result of a successful loop, whatever the world.\<close>

lemma io_each_list_all2:
  assumes "io_each f xs w = (Inr ys, w')" and "\<And>x y v v'. x \<in> set xs \<Longrightarrow> f x v = (Inr y, v') \<Longrightarrow> P x y"
  shows "list_all2 P xs ys"
  using assms
proof (induction xs arbitrary: w ys)
  case (Cons x xs)
  then obtain y ys' v v' where f: "f x w = (Inr y, v)" and rest: "io_each f xs v = (Inr ys', v')"
    and ys: "ys = y # ys'" "w' = v'" by (auto simp: result_iff)
  have "list_all2 P xs ys'" using Cons.IH rest ys(2) Cons.prems(2) by simp
  with f Cons.prems(2) [of x w y v] ys show ?case by simp
qed (simp add: result_iff)

section \<open>UTF-8\<close>

definition is_cont :: "char \<Rightarrow> bool" where
  "is_cont c \<longleftrightarrow> 0x80 \<le> (of_char c :: nat) \<and> (of_char c :: nat) < 0xC0"

text \<open>\<open>str::is_char_boundary\<close> within the string.\<close>

definition is_char_boundary :: "string \<Rightarrow> nat \<Rightarrow> bool" where
  "is_char_boundary s i \<longleftrightarrow>
     i = 0 \<or> (if i < length s then \<not> is_cont (s ! i) else i = length s)"

text \<open>
  One scan step of \<open>String::from_utf8_lossy\<close>: \<open>(True, n)\<close> for a character of \<open>n\<close> bytes,
  \<open>(False, n)\<close> for a maximal invalid part of \<open>n\<close> bytes.
\<close>

definition second_ok :: "nat \<Rightarrow> nat \<Rightarrow> bool" where
  "second_ok b c \<longleftrightarrow>
     (if b = 0xE0 then 0xA0 \<le> c \<and> c \<le> 0xBF
      else if b = 0xED then 0x80 \<le> c \<and> c \<le> 0x9F
      else if b = 0xF0 then 0x90 \<le> c \<and> c \<le> 0xBF
      else if b = 0xF4 then 0x80 \<le> c \<and> c \<le> 0x8F
      else 0x80 \<le> c \<and> c \<le> 0xBF)"

definition byte_at :: "string \<Rightarrow> nat \<Rightarrow> nat" where
  "byte_at s i = (if i < length s then of_char (s ! i) else 0)"

definition utf8_step :: "string \<Rightarrow> bool \<times> nat" where
  "utf8_step s =
     (let b = byte_at s 0; c1 = second_ok b (byte_at s 1);
          c2 = (0x80 \<le> byte_at s 2 \<and> byte_at s 2 \<le> 0xBF); c3 = (0x80 \<le> byte_at s 3 \<and> byte_at s 3 \<le> 0xBF)
      in if b < 0x80 then (True, 1)
         else if 0xC2 \<le> b \<and> b \<le> 0xDF then (if c1 then (True, 2) else (False, 1))
         else if 0xE0 \<le> b \<and> b \<le> 0xEF then
           (if \<not> c1 then (False, 1) else if c2 then (True, 3) else (False, 2))
         else if 0xF0 \<le> b \<and> b \<le> 0xF4 then
           (if \<not> c1 then (False, 1) else if \<not> c2 then (False, 2) else if c3 then (True, 4) else (False, 3))
         else (False, 1))"

lemma utf8_step_pos: "snd (utf8_step s) > 0"
  by (simp add: utf8_step_def Let_def)

definition replacement_char :: string where
  "replacement_char = [CHR 0xEF, CHR 0xBF, CHR 0xBD]"

function from_utf8_lossy :: "string \<Rightarrow> string" where
  "from_utf8_lossy s =
     (if s = [] then []
      else let (ok, n) = utf8_step s
           in (if ok then take n s else replacement_char) @ from_utf8_lossy (drop n s))"
  by pat_completeness auto
termination
proof (relation "measure length")
  fix s :: string and x ok n
  assume "s \<noteq> []" "x = utf8_step s" "(ok, n) = x"
  then have "0 < n" using utf8_step_pos [of s] by (metis snd_conv)
  with \<open>s \<noteq> []\<close> show "(drop n s, s) \<in> measure length" by (cases s) auto
qed simp

declare from_utf8_lossy.simps [simp del]

text \<open>\<open>s.chars().take(n).collect()\<close> of a UTF-8 string.\<close>

fun chars_take :: "nat \<Rightarrow> string \<Rightarrow> string" where
  "chars_take 0 s = []"
| "chars_take (Suc n) s =
     (if s = [] then []
      else let k = snd (utf8_step s) in take k s @ chars_take n (drop k s))"

text \<open>\<open>str::lines\<close>: newline-terminated, a carriage return before the newline dropped.\<close>

definition str_lines :: "string \<Rightarrow> string list" where
  "str_lines s =
     (let ps = split_on (CHR 0x0A) s; body = butlast ps; final = last ps
      in map (\<lambda>l. unwrap_or (strip_suffix [CHR 0x0D] l) l) body @ (if final = [] then [] else [final]))"

lemma from_utf8_lossy_ascii:
  "list_all (\<lambda>c. (of_char c :: nat) < 0x80) s \<Longrightarrow> from_utf8_lossy s = s"
proof (induction s)
  case (Cons c s)
  then have "utf8_step (c # s) = (True, 1)" by (simp add: utf8_step_def byte_at_def Let_def)
  with Cons show ?case by (simp add: from_utf8_lossy.simps [of "c # s"])
qed (simp add: from_utf8_lossy.simps)

lemma boundary_below:
  "0 < i \<Longrightarrow> i < length s \<Longrightarrow> \<not> is_char_boundary s i \<Longrightarrow> is_cont (s ! i)"
  by (simp add: is_char_boundary_def)

end
