(* ===== verification/Providers.thy ===== *)
theory Providers
  imports Io BTree Protocol "HOL-Library.Product_Lexorder" "HOL-Library.Multiset"
begin

text \<open>
  The secrets providers, \<open>portman-daemon/src/secrets/onepassword.rs\<close> and
  \<open>secrets/infisical.rs\<close>. Child processes, HTTP and JSON decoding are parameters, gathered
  in a record; what they return is any value of the world's choosing.
\<close>

section \<open>The outside\<close>

record secrets_error =
  se_transient :: bool
  se_message :: string

definition se_fatal :: "string \<Rightarrow> secrets_error" where
  "se_fatal m = \<lparr>se_transient = False, se_message = m\<rparr>"

definition se_retry :: "string \<Rightarrow> secrets_error" where
  "se_retry m = \<lparr>se_transient = True, se_message = m\<rparr>"

text \<open>A finished child: success, the status as printed, standard output and error.\<close>

datatype exec_outcome = ExecTimeout | ExecSpawn string | Exited bool string string string

datatype http_request =
  HttpPost string "(string \<times> string) list"  \<comment> \<open>URL, JSON body\<close>
| HttpGet string "(string \<times> string) list" string  \<comment> \<open>URL, query, bearer\<close>

record http_response =
  hr_status :: nat
  hr_display :: string
  hr_body :: "string option"  \<comment> \<open>\<open>None\<close> when reading it fails\<close>

record op_field =
  of_id :: "string option"
  of_label :: "string option"
  of_value :: "string option"

record 'w provider_env =
  pe_exec :: "path \<Rightarrow> string list \<Rightarrow> (string \<times> string) list \<Rightarrow> 'w \<Rightarrow> exec_outcome \<times> 'w"
  pe_http :: "http_request \<Rightarrow> 'w \<Rightarrow> (string + http_response) \<times> 'w"
  pe_now :: "'w \<Rightarrow> nat"
  pe_is_file :: "path \<Rightarrow> bool"
  pe_de_item :: "string \<Rightarrow> string + op_field list"
  pe_de_login :: "string option \<Rightarrow> string + string \<times> nat"  \<comment> \<open>access token, \<open>expires_in\<close>\<close>
  pe_de_secrets :: "string option \<Rightarrow> string + (string \<times> string) list"

section \<open>1Password\<close>

definition op_candidates :: "path list" where
  "op_candidates = [''/opt/homebrew/bin/op'', ''/usr/local/bin/op'', ''/usr/bin/op'']"

definition find_op_binary :: "(path \<Rightarrow> bool) \<Rightarrow> secrets_error + path" where
  "find_op_binary is_file =
     ok_or (se_fatal ''1password provider needs the `op` CLI (brew install 1password-cli)'')
       (List.find is_file op_candidates)"

definition parse_ref :: "string \<Rightarrow> (string \<times> string \<times> string) option" where
  "parse_ref reference =
     (case strip_prefix ''op://'' reference of
        None \<Rightarrow> None
      | Some rest \<Rightarrow>
          (case split_on (CHR ''/'') rest of
             [vault, item, field] \<Rightarrow>
               if vault \<noteq> [] \<and> item \<noteq> [] \<and> field \<noteq> [] then Some (vault, item, field) else None
           | _ \<Rightarrow> None))"

definition op_field_matches :: "op_field \<Rightarrow> string \<Rightarrow> bool" where
  "op_field_matches f wanted \<longleftrightarrow>
     (case of_label f of Some l \<Rightarrow> eq_ignore_ascii_case l wanted | None \<Rightarrow> False) \<or> of_id f = Some wanted"

definition op_auth_markers :: "string list" where
  "op_auth_markers = [''401'', ''unauthorized'', ''invalid token'', ''authentication failed'',
     ''decodesacredentials'', ''not signed in'']"

text \<open>The token travels in the environment of the child only.\<close>

definition run_op :: "'w provider_env \<Rightarrow> path \<Rightarrow> string \<Rightarrow> string list \<Rightarrow> ('w, secrets_error, string) io" where
  "run_op env op token args w =
     (case pe_exec env op args
         [(''OP_SERVICE_ACCOUNT_TOKEN'', token), (''HOME'', ''/tmp''), (''PATH'', ''/usr/bin:/bin'')] w of
        (ExecTimeout, w) \<Rightarrow> (Inl (se_retry ''op timed out''), w)
      | (ExecSpawn err, w) \<Rightarrow> (Inl (se_fatal (''spawning op: '' @ err)), w)
      | (Exited success status stdout stderr, w) \<Rightarrow>
          if success then (Inr stdout, w)
          else
            let tail = join_str '' | '' (take 2 (rev (str_lines (from_utf8_lossy stderr))));
                auth_failure = list_ex (\<lambda>marker. contains_str marker (to_ascii_lowercase tail)) op_auth_markers;
                message = ''op '' @ (case args of a # _ \<Rightarrow> a | [] \<Rightarrow> ''?'') @ '' failed ('' @ status @ ''): '' @ tail
            in (Inl (if auth_failure then se_fatal message else se_retry message), w))"

definition op_read :: "'w provider_env \<Rightarrow> path \<Rightarrow> string \<Rightarrow> string \<Rightarrow> ('w, secrets_error, string) io" where
  "op_read env op token reference =
     io_then (run_op env op token [''read'', ''--no-newline'', reference])
       (\<lambda>stdout. io_ret (trim_end (from_utf8_lossy stdout)))"

definition op_item_get ::
  "'w provider_env \<Rightarrow> path \<Rightarrow> string \<Rightarrow> string \<Rightarrow> string \<Rightarrow> ('w, secrets_error, op_field list) io" where
  "op_item_get env op token vault item =
     io_then (run_op env op token [''item'', ''get'', item, ''--vault'', vault, ''--format'', ''json''])
       (\<lambda>stdout. io_try (map_err (\<lambda>err. se_fatal (''op item get: invalid JSON: '' @ err)) (pe_de_item env stdout)))"

type_synonym op_items = "(string \<times> string, (string \<times> string) list) btree"

text \<open>Plain references are grouped by item; the others are read one by one.\<close>

fun op_classify :: "op_items \<times> (string \<times> string) list \<Rightarrow> string \<times> string \<Rightarrow> op_items \<times> (string \<times> string) list" where
  "op_classify (by_item, singles) (key, reference) =
     (case parse_ref reference of
        Some (vault, item, field) \<Rightarrow>
          (bt_insert (vault, item) (unwrap_or (bt_get by_item (vault, item)) [] @ [(key, field)]) by_item, singles)
      | None \<Rightarrow> (by_item, singles @ [(key, reference)]))"

definition op_group :: "(string \<times> string) list \<Rightarrow> op_items \<times> (string \<times> string) list" where
  "op_group refs = foldl op_classify ([], []) refs"

definition op_reference :: "string \<Rightarrow> string \<Rightarrow> string \<Rightarrow> string" where
  "op_reference vault item field = ''op://'' @ vault @ ''/'' @ item @ ''/'' @ field"

definition op_pick :: "string \<Rightarrow> string \<Rightarrow> op_field list \<Rightarrow> string \<times> string \<Rightarrow> secrets_error + string \<times> string" where
  "op_pick vault item item_fields kf =
     and_then (ok_or (se_fatal (op_reference vault item (snd kf) @ '': item has no such field''))
         (case List.find (\<lambda>f. op_field_matches f (snd kf)) item_fields of
            Some f \<Rightarrow> of_value f | None \<Rightarrow> None))
       (\<lambda>val. Inr (fst kf, val))"

definition op_read_pair ::
  "'w provider_env \<Rightarrow> path \<Rightarrow> string \<Rightarrow> string \<Rightarrow> string \<Rightarrow> ('w, secrets_error, string \<times> string) io" where
  "op_read_pair env op token key reference =
     io_then (op_read env op token reference) (\<lambda>val. io_ret (key, val))"

definition op_resolve_item ::
  "'w provider_env \<Rightarrow> path \<Rightarrow> string \<Rightarrow> (string \<times> string) \<times> (string \<times> string) list
   \<Rightarrow> ('w, secrets_error, (string \<times> string) list) io" where
  "op_resolve_item env op token it =
     (case it of ((vault, item), wanted) \<Rightarrow>
        (case wanted of
           [(key, field)] \<Rightarrow>
             io_then (op_read_pair env op token key (op_reference vault item field)) (\<lambda>p. io_ret [p])
         | _ \<Rightarrow>
             io_then (op_item_get env op token vault item)
               (\<lambda>item_fields. io_try (traverse (op_pick vault item item_fields) wanted))))"

definition resolve_with ::
  "'w provider_env \<Rightarrow> path \<Rightarrow> (string, string) btree \<Rightarrow> string \<Rightarrow> ('w, secrets_error, (string \<times> string) list) io" where
  "resolve_with env op refs token =
     (case op_group refs of (by_item, singles) \<Rightarrow>
        io_then (io_each (op_resolve_item env op token) by_item) (\<lambda>vss.
        io_then (io_each (\<lambda>(key, reference). op_read_pair env op token key reference) singles) (\<lambda>vs.
        io_ret (concat vss @ vs))))"

definition op_resolve ::
  "'w provider_env \<Rightarrow> (string, string) btree \<Rightarrow> string \<Rightarrow> ('w, secrets_error, (string \<times> string) list) io" where
  "op_resolve env refs token =
     io_then (io_try (find_op_binary (pe_is_file env))) (\<lambda>op. resolve_with env op refs token)"

subsection \<open>Every key of the block gets a value\<close>

definition group_keys :: "op_items \<times> (string \<times> string) list \<Rightarrow> string multiset" where
  "group_keys g = mset (concat (map (\<lambda>it. map fst (snd it)) (fst g))) + mset (map fst (snd g))"

lemma bt_insert_fields:
  "bt_ok m \<Longrightarrow> mset (concat (map (\<lambda>it. map fst (snd it)) (bt_insert k (unwrap_or (bt_get m k) [] @ [(key, field)]) m)))
     = mset (concat (map (\<lambda>it. map fst (snd it)) m)) + {#key#}"
proof (induction m)
  case (Cons b m)
  show ?case
  proof (cases "fst b = k \<or> k < fst b")
    case True
    then have "k < fst b \<Longrightarrow> map_of m k = None" using Cons.prems by (fastforce simp: map_of_eq_None_iff)
    with True show ?thesis by (cases b) (auto simp: bt_get_def)
  next
    case False
    with Cons show ?thesis by (cases b) (auto simp: bt_get_def)
  qed
qed simp

lemma op_group_keys: "bt_ok (fst (op_group refs)) \<and> group_keys (op_group refs) = mset (map fst refs)"
proof -
  have "bt_ok (fst g) \<Longrightarrow> bt_ok (fst (foldl op_classify g refs)) \<and>
      group_keys (foldl op_classify g refs) = group_keys g + mset (map fst refs)" for g
  proof (induction refs arbitrary: g)
    case (Cons r refs)
    obtain by_item singles key reference where [simp]: "g = (by_item, singles)" "r = (key, reference)"
      by (metis surj_pair)
    have step: "bt_ok (fst (op_classify g r)) \<and> group_keys (op_classify g r) = group_keys g + {#key#}"
      using Cons.prems by (auto simp: group_keys_def bt_insert_fields split: option.split)
    then have "bt_ok (fst (foldl op_classify (op_classify g r) refs)) \<and>
        group_keys (foldl op_classify (op_classify g r) refs) =
          group_keys (op_classify g r) + mset (map fst refs)"
      using Cons.IH by blast
    with step show ?case by (simp add: union_assoc [symmetric] del: op_classify.simps)
  qed simp
  from this [of "([], [])"] show ?thesis by (simp add: op_group_def group_keys_def)
qed

lemma op_read_pair_key: "op_read_pair env op token key reference w = (Inr p, w') \<Longrightarrow> fst p = key"
  by (auto simp: op_read_pair_def result_iff)

lemma op_pick_key: "op_pick vault item fs kf = Inr p \<Longrightarrow> fst p = fst kf"
  by (auto simp: op_pick_def result_iff)

lemma op_pick_keys:
  "traverse (op_pick vault item fs) wanted = Inr ps \<Longrightarrow> map fst ps = map fst wanted"
  by (auto simp: result_iff list_all2_conv_all_nth op_pick_key intro!: nth_equalityI)

lemma op_resolve_item_keys:
  "op_resolve_item env op token it w = (Inr vs, w') \<Longrightarrow> map fst vs = map fst (snd it)"
  by (cases it)
     (auto simp: op_resolve_item_def result_iff op_pick_keys
       split: list.splits prod.splits simp del: traverse.simps dest!: op_read_pair_key)

lemma io_each_keys:
  assumes "io_each f xs w = (Inr vss, w')"
    and "\<And>x vs v v'. f x v = (Inr vs, v') \<Longrightarrow> map fst vs = map fst (g x)"
  shows "map fst (concat vss) = concat (map (\<lambda>x. map fst (g x)) xs)"
  using assms
proof (induction xs arbitrary: w vss)
  case (Cons x xs)
  then show ?case by (fastforce simp: result_iff)
qed (simp add: result_iff)

lemma io_each_pair_keys:
  "io_each (\<lambda>(key, reference). op_read_pair env op token key reference) rs w = (Inr vs, w') \<Longrightarrow>
   map fst vs = map fst rs"
  by (induction rs arbitrary: w vs) (auto simp: result_iff dest!: op_read_pair_key)

text \<open>
  Resolving a 1Password block gives every env key of the block exactly one value, whatever
  the batching; a read, a missing field or undecodable output fails the whole block instead of
  leaving a key out.
\<close>

theorem op_resolve_complete:
  assumes "op_resolve env refs token w = (Inr values, w')"
  shows "mset (map fst values) = mset (map fst refs)"
proof -
  obtain by_item singles where g: "op_group refs = (by_item, singles)" by (cases "op_group refs")
  from assms g obtain op v1 vss vs where
      items: "io_each (op_resolve_item env op token) by_item w = (Inr vss, v1)"
      and sing: "io_each (\<lambda>(key, reference). op_read_pair env op token key reference) singles v1 = (Inr vs, w')"
      and "values": "values = concat vss @ vs"
    by (auto simp: op_resolve_def resolve_with_def result_iff)
  have "map fst (concat vss) = concat (map (\<lambda>it. map fst (snd it)) by_item)"
    using items op_resolve_item_keys by (rule io_each_keys)
  with io_each_pair_keys [OF sing] have "mset (map fst values) = group_keys (op_group refs)"
    by (simp add: "values" g group_keys_def)
  with op_group_keys show ?thesis by simp
qed

definition op_example_env :: "unit provider_env" where
  "op_example_env =
     \<lparr>pe_exec = (\<lambda>_ args _ w. (Exited True ''0'' (if hd args = ''read'' then ''v1'' else ''json'') [], w)),
      pe_http = (\<lambda>_ w. (Inl [], w)), pe_now = (\<lambda>_. 0), pe_is_file = (\<lambda>p. p = ''/usr/bin/op''),
      pe_de_item = (\<lambda>_. Inr [\<lparr>of_id = Some ''f'', of_label = Some ''User'', of_value = Some ''u''\<rparr>,
                             \<lparr>of_id = None, of_label = Some ''pass'', of_value = Some ''p''\<rparr>]),
      pe_de_login = (\<lambda>_. Inl []), pe_de_secrets = (\<lambda>_. Inl [])\<rparr>"

definition op_example_refs :: "(string, string) btree" where
  "op_example_refs = [(''A'', ''op://v/i/user''), (''B'', ''op://v/i/s/x''), (''C'', ''op://v/i/pass'')]"

theorem op_resolve_complete_witness:
  "op_resolve op_example_env op_example_refs ''tok'' () =
     (Inr [(''A'', ''u''), (''C'', ''p''), (''B'', ''v1'')], ()) \<and>
   mset [''A'', ''C'', ''B''] = mset (map fst op_example_refs)"
proof -
  have e: "op_resolve op_example_env op_example_refs ''tok'' () =
     (Inr [(''A'', ''u''), (''C'', ''p''), (''B'', ''v1'')], ())" by code_simp
  from e op_resolve_complete [OF e] show ?thesis by simp
qed

section \<open>Infisical\<close>

record cached_token =
  ct_token :: string
  ct_expires_at :: nat

type_synonym tokens = "(string, cached_token) hmap"

definition token_expiry_margin :: nat where
  "token_expiry_margin = 60"

definition hr_is_success :: "http_response \<Rightarrow> bool" where
  "hr_is_success r \<longleftrightarrow> 200 \<le> hr_status r \<and> hr_status r < 300"

definition transport_error :: "string \<Rightarrow> secrets_error" where
  "transport_error err = se_retry (''infisical unreachable: '' @ err)"

definition decode :: "(string option \<Rightarrow> string + 'a) \<Rightarrow> string \<Rightarrow> http_response \<Rightarrow> secrets_error + 'a" where
  "decode de what r =
     (if hr_is_success r then map_err (\<lambda>err. se_fatal (what @ '': invalid response: '' @ err)) (de (hr_body r))
      else
        let summary = chars_take 200 (unwrap_or (hr_body r) []);
            message = what @ '': HTTP '' @ hr_display r @ '': '' @ summary
        in if hr_status r = 401 \<or> hr_status r = 403 \<or> hr_status r = 404
           then Inl (se_fatal message) else Inl (se_retry message))"

definition send :: "'w provider_env \<Rightarrow> http_request \<Rightarrow> ('w, secrets_error, http_response) io" where
  "send env req w = (case pe_http env req w of (r, w) \<Rightarrow> (map_err transport_error r, w))"

text \<open>The client's state is its token cache; instants and durations are in seconds.\<close>

definition bearer_token ::
  "'w provider_env \<Rightarrow> string \<Rightarrow> string \<Rightarrow> string \<Rightarrow> (tokens \<times> 'w, secrets_error, string) io" where
  "bearer_token env url client_id client_secret st =
     (case st of (tokens, w) \<Rightarrow>
        let cache_key = url @ ''|'' @ client_id;
            cached = (case hm_get tokens cache_key of
              Some c \<Rightarrow> if ct_expires_at c > pe_now env w then Some (ct_token c) else None | None \<Rightarrow> None)
        in case cached of
          Some token \<Rightarrow> (Inr token, tokens, w)
        | None \<Rightarrow>
            (case io_then (send env (HttpPost (url @ ''/api/v1/auth/universal-auth/login'')
                  [(''clientId'', client_id), (''clientSecret'', client_secret)]))
                (\<lambda>r. io_try (decode (pe_de_login env) ''universal-auth login'' r)) w of
               (Inl e, w) \<Rightarrow> (Inl e, tokens, w)
             | (Inr (token, expires_in), w) \<Rightarrow>
                 let ttl = max expires_in 120 - token_expiry_margin
                 in (Inr token,
                     hm_insert cache_key \<lparr>ct_token = token, ct_expires_at = pe_now env w + ttl\<rparr> tokens, w)))"

definition list_path_request ::
  "string \<Rightarrow> string \<Rightarrow> string \<Rightarrow> string \<Rightarrow> string \<Rightarrow> infisical_api_version \<Rightarrow> http_request" where
  "list_path_request url token project_id environment path version =
     (case version of
        ApiV3 \<Rightarrow> HttpGet (url @ ''/api/v3/secrets/raw'')
          [(''workspaceId'', project_id), (''environment'', environment), (''secretPath'', path),
           (''expandSecretReferences'', ''true''), (''include_imports'', ''true'')] token
      | ApiV4 \<Rightarrow> HttpGet (url @ ''/api/v4/secrets'')
          [(''projectId'', project_id), (''environment'', environment), (''secretPath'', path),
           (''expandSecretReferences'', ''true'')] token)"

definition list_path ::
  "'w provider_env \<Rightarrow> string \<Rightarrow> string \<Rightarrow> string \<Rightarrow> string \<Rightarrow> string \<Rightarrow> infisical_api_version
   \<Rightarrow> ('w, secrets_error, (string \<times> string) list) io" where
  "list_path env url token project_id environment path version =
     io_then (send env (list_path_request url token project_id environment path version))
       (\<lambda>r. io_try (decode (pe_de_secrets env) ''listing secrets'' r))"

text \<open>Quotes come off only in pairs.\<close>

definition strip_quotes :: "char \<Rightarrow> string \<Rightarrow> string option" where
  "strip_quotes q s = (case strip_prefix [q] s of Some v \<Rightarrow> strip_suffix [q] v | None \<Rightarrow> None)"

definition dotenv_line :: "string \<Rightarrow> (string \<times> string) option" where
  "dotenv_line line =
     (let line = trim line
      in if line = [] \<or> starts_with ''#'' line then None
         else (case split_once (CHR ''='') line of
           None \<Rightarrow> None
         | Some (key, val) \<Rightarrow>
             let val = trim val
             in Some (trim key,
                  unwrap_or (or_opt (strip_quotes (CHR 0x27) val) (strip_quotes (CHR 0x22) val)) val)))"

definition parse_dotenv :: "string \<Rightarrow> (string \<times> string) list" where
  "parse_dotenv text = concat (map (\<lambda>l. case dotenv_line l of Some p \<Rightarrow> [p] | None \<Rightarrow> []) (str_lines text))"

definition infisical_candidates :: "path list" where
  "infisical_candidates = [''/opt/homebrew/bin/infisical'', ''/usr/local/bin/infisical'', ''/usr/bin/infisical'']"

definition cli_export ::
  "'w provider_env \<Rightarrow> string \<Rightarrow> string \<Rightarrow> string \<Rightarrow> string \<Rightarrow> string \<Rightarrow> ('w, secrets_error, (string \<times> string) list) io" where
  "cli_export env url token project_id environment path w =
     (case List.find (pe_is_file env) infisical_candidates of
        None \<Rightarrow> (Inl (se_fatal
          ''mode = \"cli\" but no infisical binary in /opt/homebrew/bin or /usr/local/bin''), w)
      | Some infisical \<Rightarrow>
          (case pe_exec env infisical
              [''export'', ''--format=dotenv'', ''--domain'', url, ''--projectId'', project_id,
               ''--env'', environment, ''--path'', path]
              [(''INFISICAL_TOKEN'', token), (''HOME'', ''/tmp''), (''PATH'', ''/usr/bin:/bin'')] w of
             (ExecTimeout, w) \<Rightarrow> (Inl (se_retry ''infisical export timed out''), w)
           | (ExecSpawn err, w) \<Rightarrow> (Inl (se_fatal (''spawning infisical export: '' @ err)), w)
           | (Exited success status stdout stderr, w) \<Rightarrow>
               if \<not> success then
                 (let ls = str_lines (from_utf8_lossy stderr);
                      tail = (if ls = [] then [] else last ls)
                  in (Inl (se_retry (''infisical export failed ('' @ status @ ''): '' @ tail)), w))
               else (Inr (parse_dotenv (from_utf8_lossy stdout)), w)))"

definition path_pairs ::
  "'w provider_env \<Rightarrow> string \<Rightarrow> string \<Rightarrow> string \<Rightarrow> string \<Rightarrow> infisical_api_version \<Rightarrow> infisical_mode \<Rightarrow> string
   \<Rightarrow> ('w, secrets_error, (string \<times> string) list) io" where
  "path_pairs env url token project_id environment version mode path =
     (case mode of
        InfisicalNative \<Rightarrow> list_path env url token project_id environment path version
      | InfisicalCli \<Rightarrow> cli_export env url token project_id environment path)"

text \<open>The accumulator is the merged pairs and the keys seen so far.\<close>

fun merge_pair :: "(string \<times> string) list \<times> string list \<Rightarrow> string \<times> string \<Rightarrow> (string \<times> string) list \<times> string list" where
  "merge_pair (merged, seen) (key, val) =
     (if key \<in> set seen then (merged, seen) else (merged @ [(key, val)], key # seen))"

fun fetch_paths ::
  "(string \<Rightarrow> ('w, secrets_error, (string \<times> string) list) io) \<Rightarrow> string list
   \<Rightarrow> (string \<times> string) list \<times> string list \<Rightarrow> ('w, secrets_error, (string \<times> string) list) io" where
  "fetch_paths page [] acc = io_ret (fst acc)"
| "fetch_paths page (path # paths) acc =
     io_then (page path) (\<lambda>pairs. fetch_paths page paths (foldl merge_pair acc pairs))"

definition trim_end_slashes :: "string \<Rightarrow> string" where
  "trim_end_slashes s = rev (dropWhile (\<lambda>c. c = CHR ''/'') (rev s))"

definition infisical_fetch ::
  "'w provider_env \<Rightarrow> secrets_provider_config \<Rightarrow> string \<Rightarrow> string
   \<Rightarrow> (tokens \<times> 'w, secrets_error, (string \<times> string) list) io" where
  "infisical_fetch env config client_id client_secret st =
     (case config of
        Infisical url project_id environment paths version mode \<Rightarrow>
          let url = trim_end_slashes url in
          (case bearer_token env url client_id client_secret st of
             (Inl e, st) \<Rightarrow> (Inl e, st)
           | (Inr token, tokens, w) \<Rightarrow>
               (case fetch_paths (path_pairs env url token project_id environment version mode) paths ([], []) w of
                  (r, w) \<Rightarrow> (r, tokens, w)))
      | _ \<Rightarrow> (Inl (se_fatal ''not an infisical block''), st))"

subsection \<open>The first path wins\<close>

definition merged_ok :: "(string \<times> string) list \<times> string list \<Rightarrow> bool" where
  "merged_ok acc \<longleftrightarrow> distinct (map fst (fst acc)) \<and> set (snd acc) = fst ` set (fst acc)"

lemma merge_pair_ok:
  assumes "merged_ok acc"
  shows "merged_ok (merge_pair acc p) \<and> map_of (fst (merge_pair acc p)) = map_of [p] ++ map_of (fst acc)"
proof -
  obtain m s k v where [simp]: "acc = (m, s)" "p = (k, v)" by (metis surj_pair)
  show ?thesis
  proof (cases "k \<in> set s")
    case True
    with assms have "map_of m k \<noteq> None" by (auto simp: merged_ok_def map_of_eq_None_iff)
    with True assms show ?thesis by (auto simp: map_add_def fun_eq_iff split: option.split)
  next
    case False
    with assms have "map_of m k = None" by (auto simp: merged_ok_def map_of_eq_None_iff)
    with False assms show ?thesis by (auto simp: merged_ok_def map_add_def fun_eq_iff split: option.split)
  qed
qed

lemma merge_pairs_ok:
  "merged_ok acc \<Longrightarrow> merged_ok (foldl merge_pair acc ps) \<and>
   map_of (fst (foldl merge_pair acc ps)) = map_of (fst acc @ ps)"
proof (induction ps arbitrary: acc)
  case (Cons p ps)
  note step = merge_pair_ok [OF Cons.prems, of p]
  from Cons.IH [of "merge_pair acc p"] step show ?case
    by (simp add: map_add_assoc [symmetric] del: merge_pair.simps)
qed simp

lemma fetch_paths_merge:
  "merged_ok acc \<Longrightarrow> io_each page paths w = (Inr pages, w') \<Longrightarrow>
   fetch_paths page paths acc w = (Inr (fst (foldl merge_pair acc (concat pages))), w')"
proof (induction paths arbitrary: acc w pages)
  case (Cons p paths)
  then obtain pairs v rest where "page p w = (Inr pairs, v)" "io_each page paths v = (Inr rest, w')"
    "pages = pairs # rest" by (auto simp: result_iff)
  with Cons.IH [of "foldl merge_pair acc pairs" v rest] Cons.prems(1) show ?case
    by (simp add: result_iff merge_pairs_ok)
qed (simp add: result_iff)

text \<open>
  With the token and the pages of an Infisical block in hand, the fetch returns each key
  once, with the value of the first configured path that lists it, and only keys some path lists.
\<close>

theorem infisical_first_path_wins:
  assumes "bearer_token env (trim_end_slashes url) client_id client_secret st = (Inr token, tokens, w)"
    and "io_each (path_pairs env (trim_end_slashes url) token project_id environment version mode) paths w
      = (Inr pages, w')"
  shows "\<exists>vals. infisical_fetch env (Infisical url project_id environment paths version mode) client_id client_secret st
      = (Inr vals, tokens, w') \<and> distinct (map fst vals) \<and> map_of vals = map_of (concat pages)"
proof -
  have ok: "merged_ok ([], [])" by (simp add: merged_ok_def)
  from merge_pairs_ok [OF ok, of "concat pages"] fetch_paths_merge [OF ok assms(2)] assms(1)
  show ?thesis by (simp add: infisical_fetch_def merged_ok_def Let_def)
qed

definition infisical_example_env :: "nat provider_env" where
  "infisical_example_env =
     \<lparr>pe_exec = (\<lambda>_ _ _ w. (ExecTimeout, w)),
      pe_http = (\<lambda>_ w. (Inr \<lparr>hr_status = 200, hr_display = ''200 OK'', hr_body = Some (if w = 1 then ''first'' else ''second'')\<rparr>, w + 1)),
      pe_now = (\<lambda>_. 0), pe_is_file = (\<lambda>_. False), pe_de_item = (\<lambda>_. Inl []),
      pe_de_login = (\<lambda>_. Inr (''tok'', 3600)),
      pe_de_secrets = (\<lambda>b. Inr (if b = Some ''first'' then [(''K'', ''1''), (''L'', ''2'')] else [(''K'', ''3''), (''M'', ''4'')]))\<rparr>"

theorem infisical_first_path_wins_witness:
  "\<exists>vals tokens. infisical_fetch infisical_example_env
      (Infisical ''https://i.test/'' ''p'' ''dev'' [''/a'', ''/b''] ApiV3 InfisicalNative) ''id'' ''secret'' ([], 0)
      = (Inr vals, tokens, 3) \<and> distinct (map fst vals) \<and>
    map_of vals = map_of [(''K'', ''1''), (''L'', ''2''), (''K'', ''3''), (''M'', ''4'')]"
proof -
  let ?t = "[(''https://i.test|id'', \<lparr>ct_token = ''tok'', ct_expires_at = 3540\<rparr>)]"
  have a: "bearer_token infisical_example_env (trim_end_slashes ''https://i.test/'') ''id'' ''secret'' ([], 0)
     = (Inr ''tok'', ?t, 1)"
    by code_simp
  have b: "io_each (path_pairs infisical_example_env (trim_end_slashes ''https://i.test/'') ''tok'' ''p'' ''dev''
       ApiV3 InfisicalNative) [''/a'', ''/b''] 1
     = (Inr [[(''K'', ''1''), (''L'', ''2'')], [(''K'', ''3''), (''M'', ''4'')]], 3)"
    by code_simp
  from infisical_first_path_wins [OF a b] show ?thesis by auto
qed

end
