(* ===== verification/Secrets.thy ===== *)
theory Secrets
  imports Providers Stores
begin

text \<open>
  The credentials store and the secrets source, \<open>portman-daemon/src/secrets/mod.rs\<close>. The
  store follows the write-before-swap pattern of \<open>commit\<close> over the durable writer; the
  source resolves a service's blocks through the providers and caches provider values.
\<close>

section \<open>Credentials\<close>

record credentials =
  cr_version :: u32
  cr_infisical :: "(string \<times> string) option"  \<comment> \<open>client id, client secret\<close>
  cr_onepassword :: "string option"
  cr_local :: "(string, string) btree"

definition credentials_default :: credentials where
  "credentials_default = \<lparr>cr_version = 0, cr_infisical = None, cr_onepassword = None, cr_local = []\<rparr>"

definition credentials_load :: "(string \<Rightarrow> 'j + credentials) \<Rightarrow> read_result \<Rightarrow> 'j load_error + credentials" where
  "credentials_load de res =
     (case res of
        ReadOk bytes \<Rightarrow> map_err LoadParse (de bytes)
      | ReadNotFound \<Rightarrow> Inr credentials_default
      | ReadFailed \<Rightarrow> Inl LoadRead)"

text \<open>\<open>save\<close> stamps the version; \<open>ser\<close> is the JSON serialiser.\<close>

definition persisted_credentials :: "credentials \<Rightarrow> credentials" where
  "persisted_credentials c = c\<lparr>cr_version := 1\<rparr>"

definition save_credentials ::
  "io_env \<Rightarrow> path \<Rightarrow> (credentials \<Rightarrow> string option) \<Rightarrow> credentials \<Rightarrow> fs \<Rightarrow> (write_error + unit) \<times> fs" where
  "save_credentials env path ser c w = atomic_write_json_durable env path (ser (persisted_credentials c)) 0x180 w"  \<comment> \<open>\<open>0o600\<close>\<close>

definition set_infisical ::
  "(credentials \<Rightarrow> 'w \<Rightarrow> ('e + unit) \<times> 'w) \<Rightarrow> string \<Rightarrow> string \<Rightarrow> credentials \<Rightarrow> 'w \<Rightarrow> ('e + unit) \<times> credentials \<times> 'w" where
  "set_infisical save client_id client_secret cur w =
     commit save (cur\<lparr>cr_infisical := Some (client_id, client_secret)\<rparr>) () cur w"

definition set_onepassword ::
  "(credentials \<Rightarrow> 'w \<Rightarrow> ('e + unit) \<times> 'w) \<Rightarrow> string \<Rightarrow> credentials \<Rightarrow> 'w \<Rightarrow> ('e + unit) \<times> credentials \<times> 'w" where
  "set_onepassword save token cur w = commit save (cur\<lparr>cr_onepassword := Some token\<rparr>) () cur w"

definition set_local ::
  "(credentials \<Rightarrow> 'w \<Rightarrow> ('e + unit) \<times> 'w) \<Rightarrow> string \<Rightarrow> string \<Rightarrow> credentials \<Rightarrow> 'w \<Rightarrow> ('e + unit) \<times> credentials \<times> 'w" where
  "set_local save key val cur w = commit save (cur\<lparr>cr_local := bt_insert key val (cr_local cur)\<rparr>) () cur w"

definition unset_local ::
  "(credentials \<Rightarrow> 'w \<Rightarrow> ('e + unit) \<times> 'w) \<Rightarrow> string \<Rightarrow> credentials \<Rightarrow> 'w \<Rightarrow> ('e + bool) \<times> credentials \<times> 'w" where
  "unset_local save key cur w =
     (if bt_get (cr_local cur) key = None then (Inr False, cur, w)
      else commit save (cur\<lparr>cr_local := bt_remove key (cr_local cur)\<rparr>) True cur w)"

datatype 'e owned_error = OwnedConflict | OwnedSave 'e | OwnedHook 'e

definition install_owned_local ::
  "(credentials \<Rightarrow> 'w \<Rightarrow> ('e + unit) \<times> 'w) \<Rightarrow> string \<Rightarrow> string \<Rightarrow> bool \<Rightarrow> ('w \<Rightarrow> ('e + unit) \<times> 'w)
   \<Rightarrow> credentials \<Rightarrow> 'w \<Rightarrow> ('e owned_error + unit) \<times> credentials \<times> 'w" where
  "install_owned_local save key val owned prepare cur w =
     (if \<not> (case bt_get (cr_local cur) key of Some current \<Rightarrow> owned \<and> current = val | None \<Rightarrow> True)
      then (Inl OwnedConflict, cur, w)
      else (case prepare w of
        (Inl e, w) \<Rightarrow> (Inl (OwnedHook e), cur, w)
      | (Inr _, w) \<Rightarrow>
          (case commit save (cur\<lparr>cr_local := bt_insert key val (cr_local cur)\<rparr>) () cur w of
             (r, cur, w) \<Rightarrow> (map_err OwnedSave r, cur, w))))"

definition remove_owned_local ::
  "(credentials \<Rightarrow> 'w \<Rightarrow> ('e + unit) \<times> 'w) \<Rightarrow> string \<Rightarrow> bool \<Rightarrow> ('w \<Rightarrow> ('e + unit) \<times> 'w)
   \<Rightarrow> credentials \<Rightarrow> 'w \<Rightarrow> ('e owned_error + unit) \<times> credentials \<times> 'w" where
  "remove_owned_local save key owned finish cur w =
     (if \<not> (owned \<or> bt_get (cr_local cur) key = None) then (Inl OwnedConflict, cur, w)
      else (case commit save (cur\<lparr>cr_local := bt_remove key (cr_local cur)\<rparr>) () cur w of
        (Inl e, cur, w) \<Rightarrow> (Inl (OwnedSave e), cur, w)
      | (Inr _, cur, w) \<Rightarrow> (case finish w of (r, w) \<Rightarrow> (map_err OwnedHook r, cur, w))))"

definition local_keys :: "credentials \<Rightarrow> string list" where
  "local_keys c = map fst (cr_local c)"

definition local_values :: "credentials \<Rightarrow> string list \<Rightarrow> string + (string \<times> string) list" where
  "local_values c keys =
     traverse (\<lambda>key. case bt_get (cr_local c) key of
         Some val \<Rightarrow> Inr (key, val)
       | None \<Rightarrow> Inl (''local secret `'' @ key @ ''` is not set '' @ [CHR 0xE2, CHR 0x80, CHR 0x94]
           @ '' run `portman secrets set '' @ key @ ''`'')) keys"

section \<open>Owned credentials\<close>

interpretation cs: saver "save_credentials env path ser" "file_holds (\<lambda>c. ser (persisted_credentials c)) path"
    "tmp_fresh env path"
  for env path ser
proof unfold_locales
  fix s u w w' assume "tmp_fresh env path w" "save_credentials env path ser s w = (Inr u, w')"
  then show "file_holds (\<lambda>c. ser (persisted_credentials c)) path w' s"
    using ad.save_ok [of env path w "\<lambda>c. ser (persisted_credentials c)" s "0x180"]
    by (simp add: save_credentials_def)
next
  fix s e w w' t assume "tmp_fresh env path w" "save_credentials env path ser s w = (Inl e, w')"
    "file_holds (\<lambda>c. ser (persisted_credentials c)) path w t"
  then show "file_holds (\<lambda>c. ser (persisted_credentials c)) path w' t \<or>
      file_holds (\<lambda>c. ser (persisted_credentials c)) path w' s"
    using ad.save_err [of env path w "\<lambda>c. ser (persisted_credentials c)" s "0x180"]
    by (simp add: save_credentials_def)
qed

text \<open>
  Installing an owned inference credential never replaces a key it does not own or changes
  a value: such a call is refused before anything runs. Otherwise the ownership record is written
  first: when that fails neither the vault nor the file changes, and when the install returns
  the key and its value are in memory and in the file.
\<close>

theorem install_owned_local_safe:
  assumes "bt_ok (cr_local cur)"
    and "prepare w = (p, w1)" and "tmp_fresh env path w1"
    and "file_holds (\<lambda>c. ser (persisted_credentials c)) path w1 cur"
    and "install_owned_local (save_credentials env path ser) key val owned prepare cur w = (r, cur', w')"
  shows "(if bt_get (cr_local cur) key \<noteq> None \<and> \<not> (owned \<and> bt_get (cr_local cur) key = Some val)
          then r = Inl OwnedConflict \<and> cur' = cur \<and> w' = w
          else (case p of
            Inl e \<Rightarrow> r = Inl (OwnedHook e) \<and> cur' = cur \<and> w' = w1
          | Inr _ \<Rightarrow>
              (case r of
                 Inr _ \<Rightarrow> bt_get (cr_local cur') = (bt_get (cr_local cur))(key \<mapsto> val) \<and>
                   file_holds (\<lambda>c. ser (persisted_credentials c)) path w' cur'
               | Inl _ \<Rightarrow> cur' = cur \<and>
                   (file_holds (\<lambda>c. ser (persisted_credentials c)) path w' cur \<or>
                    file_holds (\<lambda>c. ser (persisted_credentials c)) path w'
                      (cur\<lparr>cr_local := bt_insert key val (cr_local cur)\<rparr>)))))"
proof (cases "bt_get (cr_local cur) key \<noteq> None \<and> \<not> (owned \<and> bt_get (cr_local cur) key = Some val)")
  case True
  then show ?thesis using assms(5) by (auto simp: install_owned_local_def)
next
  case False
  then have free: "(case bt_get (cr_local cur) key of Some current \<Rightarrow> owned \<and> current = val | None \<Rightarrow> True)"
    by (auto split: option.split)
  show ?thesis
  proof (cases p)
    case (Inl e)
    with False free assms(2,5) show ?thesis by (auto simp: install_owned_local_def)
  next
    case (Inr u)
    let ?next = "cur\<lparr>cr_local := bt_insert key val (cr_local cur)\<rparr>"
    obtain rc where c: "commit (save_credentials env path ser) ?next () cur w1 = (rc, cur', w')"
      and r: "r = map_err OwnedSave rc"
      using free assms(2,5) Inr by (auto simp: install_owned_local_def split: prod.splits)
    from cs.commit_either [OF assms(3,4) c] r False Inr assms(1) show ?thesis
      by (cases rc) (auto simp: fun_upd_def)
  qed
qed

definition creds_path :: path where
  "creds_path = ''/d/credentials.json''"

definition creds_ser :: "credentials \<Rightarrow> string option" where
  "creds_ser c = Some (concat (map (\<lambda>(k, v). k @ ''='' @ v @ '';'') (cr_local c)))"

definition creds_fs :: "credentials \<Rightarrow> fs" where
  "creds_fs c = empty_fs\<lparr>fs_live := [creds_path \<mapsto> new_file (the (creds_ser c)) (Some 0x180)]\<rparr>"

lemma creds_fs_ready:
  "tmp_fresh no_faults creds_path (creds_fs c)"
  "file_holds (\<lambda>c. creds_ser (persisted_credentials c)) creds_path (creds_fs c) c"
  by (simp_all add: tmp_fresh_def creds_fs_def tmp_path_neq empty_fs_def file_holds_def creds_ser_def
      new_file_def persisted_credentials_def)

theorem install_owned_local_safe_witness:
  "\<exists>r cur' w'. install_owned_local (save_credentials no_faults creds_path creds_ser) ''LLM_KEY'' ''sk-1'' False
      (\<lambda>w. (Inr (), w)) credentials_default (creds_fs credentials_default) = (r, cur', w') \<and>
    (case r of
       Inr _ \<Rightarrow> bt_get (cr_local cur') = [''LLM_KEY'' \<mapsto> ''sk-1''] \<and>
         file_holds (\<lambda>c. creds_ser (persisted_credentials c)) creds_path w' cur'
     | Inl _ \<Rightarrow> cur' = credentials_default)"
proof -
  obtain r cur' w' where i: "install_owned_local (save_credentials no_faults creds_path creds_ser) ''LLM_KEY'' ''sk-1'' False
      (\<lambda>w. (Inr (), w)) credentials_default (creds_fs credentials_default) = (r, cur', w')"
    by (metis surj_pair)
  have ok: "bt_ok (cr_local credentials_default)" by (simp add: credentials_default_def)
  have empty: "bt_get (cr_local credentials_default) = Map.empty" by (auto simp: credentials_default_def)
  from install_owned_local_safe [OF ok refl creds_fs_ready i] i show ?thesis
    unfolding empty by (cases r) auto
qed

text \<open>
  Removing an owned credential drops its ownership record last: \<open>finish\<close> runs only in a
  world whose file no longer holds the key, a failed save leaves memory unchanged and does not
  run it, and a foreign key is never removed.
\<close>

theorem remove_owned_local_safe:
  assumes "bt_ok (cr_local cur)" and "tmp_fresh env path w"
    and "file_holds (\<lambda>c. ser (persisted_credentials c)) path w cur"
    and "remove_owned_local (save_credentials env path ser) key owned finish cur w = (r, cur', w')"
  shows "(if \<not> owned \<and> bt_get (cr_local cur) key \<noteq> None
          then r = Inl OwnedConflict \<and> cur' = cur \<and> w' = w
          else (\<exists>e. r = Inl (OwnedSave e) \<and> cur' = cur) \<or>
            bt_get (cr_local cur') = (bt_get (cr_local cur))(key := None) \<and>
            (\<exists>v. file_holds (\<lambda>c. ser (persisted_credentials c)) path v cur' \<and>
               (r, w') = (case finish v of (p, v') \<Rightarrow> (map_err OwnedHook p, v'))))"
proof (cases "\<not> owned \<and> bt_get (cr_local cur) key \<noteq> None")
  case True
  then show ?thesis using assms(4) by (auto simp: remove_owned_local_def)
next
  case False
  let ?next = "cur\<lparr>cr_local := bt_remove key (cr_local cur)\<rparr>"
  obtain rc cur1 w1 where c: "commit (save_credentials env path ser) ?next () cur w = (rc, cur1, w1)"
    by (cases "commit (save_credentials env path ser) ?next () cur w")
  have ok: "owned \<or> bt_get (cr_local cur) key = None" using False by blast
  note either = cs.commit_either [OF assms(2,3) c]
  show ?thesis
  proof (cases rc)
    case (Inl e)
    with either assms(4) c ok have "r = Inl (OwnedSave e) \<and> cur' = cur"
      by (auto simp: remove_owned_local_def)
    with False show ?thesis by auto
  next
    case (Inr u)
    with either have cur1: "cur1 = ?next" "file_holds (\<lambda>c. ser (persisted_credentials c)) path w1 ?next" by auto
    obtain p v' where fin: "finish w1 = (p, v')" by (cases "finish w1")
    from assms(4) c Inr fin ok cur1 have "r = map_err OwnedHook p \<and> cur' = ?next \<and> w' = v'"
      by (auto simp: remove_owned_local_def)
    moreover have "bt_get (cr_local ?next) = (bt_get (cr_local cur))(key := None)"
      using assms(1) by (auto simp: fun_eq_iff)
    ultimately show ?thesis using False cur1(2) fin by auto
  qed
qed

theorem remove_owned_local_safe_witness:
  "\<exists>r cur' w'. remove_owned_local (save_credentials no_faults creds_path creds_ser) ''LLM_KEY'' False
      (\<lambda>w. (Inr (), w)) (credentials_default\<lparr>cr_local := [(''LLM_KEY'', ''mine'')]\<rparr>)
      (creds_fs (credentials_default\<lparr>cr_local := [(''LLM_KEY'', ''mine'')]\<rparr>)) = (r, cur', w') \<and>
    r = Inl OwnedConflict \<and> bt_get (cr_local cur') ''LLM_KEY'' = Some ''mine''"
proof -
  let ?c = "credentials_default\<lparr>cr_local := [(''LLM_KEY'', ''mine'')]\<rparr>"
  obtain r cur' w' where i: "remove_owned_local (save_credentials no_faults creds_path creds_ser) ''LLM_KEY'' False
      (\<lambda>w. (Inr (), w)) ?c (creds_fs ?c) = (r, cur', w')"
    by (metis surj_pair)
  have ok: "bt_ok (cr_local ?c)" by simp
  have held: "bt_get (cr_local ?c) ''LLM_KEY'' = Some ''mine''" by (simp add: bt_get_def)
  from remove_owned_local_safe [OF ok creds_fs_ready i] i held show ?thesis by simp
qed

section \<open>The secrets source\<close>

text \<open>The source together with the world its providers talk to.\<close>

record 'w secrets_source =
  src_creds :: credentials
  src_cache :: "(string, (string \<times> string) list) btree"
  src_tokens :: tokens
  src_world :: 'w

definition block_cached :: "string \<Rightarrow> 'w secrets_source \<Rightarrow> (string \<times> string) list option" where
  "block_cached name s = bt_get (src_cache s) name"

definition block_fetch ::
  "'w provider_env \<Rightarrow> secrets_provider_config \<Rightarrow> ('w secrets_source, secrets_error, (string \<times> string) list) io" where
  "block_fetch env config s =
     (case config of
        LocalVault keys \<Rightarrow> (map_err se_fatal (local_values (src_creds s) keys), s)
      | Infisical url project_id environment paths version mode \<Rightarrow>
          (case cr_infisical (src_creds s) of
             None \<Rightarrow> (Inl (se_fatal (''no Infisical machine identity stored '' @ [CHR 0xE2, CHR 0x80, CHR 0x94]
               @ '' run `portman secrets set-infisical`'')), s)
           | Some (client_id, client_secret) \<Rightarrow>
               (case infisical_fetch env config client_id client_secret (src_tokens s, src_world s) of
                  (r, tokens, w) \<Rightarrow> (r, s\<lparr>src_tokens := tokens, src_world := w\<rparr>)))
      | OnePassword refs \<Rightarrow>
          (case cr_onepassword (src_creds s) of
             None \<Rightarrow> (Inl (se_fatal (''no 1Password service-account token stored '' @ [CHR 0xE2, CHR 0x80, CHR 0x94]
               @ '' run `portman secrets set-op`'')), s)
           | Some token \<Rightarrow>
               (case op_resolve env refs token (src_world s) of
                  (r, w) \<Rightarrow> (r, s\<lparr>src_world := w\<rparr>))))"

definition block_store :: "string \<Rightarrow> (string \<times> string) list \<Rightarrow> 'w secrets_source \<Rightarrow> 'w secrets_source" where
  "block_store name fetched s = s\<lparr>src_cache := bt_insert name fetched (src_cache s)\<rparr>"

definition is_local_block :: "secrets_provider_config \<Rightarrow> bool" where
  "is_local_block config \<longleftrightarrow> (case config of LocalVault _ \<Rightarrow> True | _ \<Rightarrow> False)"

definition resolve_block ::
  "'w provider_env \<Rightarrow> string \<Rightarrow> secrets_provider_config \<Rightarrow> ('w secrets_source, secrets_error, (string \<times> string) list) io" where
  "resolve_block env name config s =
     (case block_cached name s of
        Some cached \<Rightarrow> (Inr cached, s)
      | None \<Rightarrow>
          (case block_fetch env config s of
             (Inl e, s) \<Rightarrow> (Inl e, s)
           | (Inr fetched, s) \<Rightarrow>
               (Inr fetched, if is_local_block config then s else block_store name fetched s)))"

definition resolve_service_secrets ::
  "'w provider_env \<Rightarrow> service_definition \<Rightarrow> (string, secrets_provider_config) btree
   \<Rightarrow> ('w secrets_source, secrets_error, (string \<times> string) list) io" where
  "resolve_service_secrets env sd blocks =
     io_then (io_each (\<lambda>reference. case bt_get blocks reference of
           None \<Rightarrow> io_try (Inl (se_fatal (''service references [secrets.'' @ reference @ ''] but no such block is synced'')))
         | Some config \<Rightarrow> resolve_block env reference config) (sd_secrets sd))
       (\<lambda>vss. io_ret (concat vss))"

definition source_invalidate :: "'w secrets_source \<Rightarrow> 'w secrets_source" where
  "source_invalidate s = s\<lparr>src_cache := []\<rparr>"

text \<open>
  What the cache promises, given the configured blocks: it holds no local block, so a value set
  by hand is seen at once.
\<close>

definition cache_ok :: "(string, secrets_provider_config) btree \<Rightarrow> 'w secrets_source \<Rightarrow> bool" where
  "cache_ok blocks s \<longleftrightarrow> bt_ok (src_cache s) \<and>
     (\<forall>(name, _)\<in>set (src_cache s). case bt_get blocks name of Some c \<Rightarrow> \<not> is_local_block c | None \<Rightarrow> True)"

lemma block_fetch_keeps:
  "block_fetch env config s = (r, s') \<Longrightarrow> src_cache s' = src_cache s \<and> src_creds s' = src_creds s"
  by (auto simp: block_fetch_def split: secrets_provider_config.splits option.splits prod.splits)

lemma block_store_ok:
  "cache_ok blocks s \<Longrightarrow> bt_get blocks name = Some config \<Longrightarrow> \<not> is_local_block config \<Longrightarrow>
   cache_ok blocks (block_store name fetched s)"
  using set_bt_insert_subset [of name fetched "src_cache s"]
  by (fastforce simp: cache_ok_def block_store_def)

lemma resolve_block_ok:
  assumes "resolve_block env name config s = (r, s')" and "cache_ok blocks s" and "bt_get blocks name = Some config"
  shows "cache_ok blocks s' \<and> src_creds s' = src_creds s"
proof (cases "block_cached name s")
  case None
  obtain f s1 where f: "block_fetch env config s = (f, s1)" by (cases "block_fetch env config s")
  have k: "src_cache s1 = src_cache s" "src_creds s1 = src_creds s" using block_fetch_keeps [OF f] by auto
  then have ok1: "cache_ok blocks s1" using assms(2) by (simp add: cache_ok_def)
  from assms(1) None f have "s' = s1 \<or> (\<exists>v. s' = block_store name v s1 \<and> \<not> is_local_block config)"
    by (auto simp: resolve_block_def split: sum.splits if_splits)
  then show ?thesis using ok1 block_store_ok [OF ok1 assms(3)] k by (auto simp: block_store_def)
qed (use assms in \<open>auto simp: resolve_block_def\<close>)

lemma local_block_uncached:
  "cache_ok blocks s \<Longrightarrow> bt_get blocks name = Some (LocalVault keys) \<Longrightarrow> block_cached name s = None"
  by (force simp: cache_ok_def block_cached_def bt_get_def is_local_block_def map_of_eq_None_iff)

lemma local_values_Inr:
  assumes "local_values c keys = Inr vs"
  shows "map fst vs = keys" and "\<forall>(k, v)\<in>set vs. bt_get (cr_local c) k = Some v"
proof -
  have "list_all2 (\<lambda>k p. fst p = k \<and> bt_get (cr_local c) k = Some (snd p)) keys vs"
    using assms unfolding local_values_def traverse_Inr_list_all2
    by (rule list_all2_mono) (auto split: option.splits)
  then have "map fst vs = keys \<and> (\<forall>(k, v)\<in>set vs. bt_get (cr_local c) k = Some v)"
    by (induction rule: list_all2_induct) auto
  then show "map fst vs = keys" and "\<forall>(k, v)\<in>set vs. bt_get (cr_local c) k = Some v" by blast+
qed

lemma resolve_local_block:
  assumes "cache_ok blocks s" and "bt_get blocks name = Some (LocalVault keys)"
  shows "resolve_block env name (LocalVault keys) s = (map_err se_fatal (local_values (src_creds s) keys), s)"
  using local_block_uncached [OF assms]
  by (cases "local_values (src_creds s) keys") (simp_all add: resolve_block_def block_fetch_def is_local_block_def)

text \<open>
  A block of the local vault always resolves to the vault's current values, in the block's
  order or to an error naming a missing key, and never to a cached copy. Any other block, once
  resolved, resolves again to the same values without asking its provider, until the cache is
  invalidated; a failed resolution caches nothing. All of it keeps the cache free of local blocks.
\<close>

theorem resolve_block_freshness:
  assumes "cache_ok blocks s" and "bt_get blocks name = Some config"
    and "resolve_block env name config s = (r, s')"
  shows "cache_ok blocks s' \<and>
    (case config of
       LocalVault keys \<Rightarrow> s' = s \<and>
         (case r of
            Inr vs \<Rightarrow> map fst vs = keys \<and> (\<forall>(k, v)\<in>set vs. bt_get (cr_local (src_creds s)) k = Some v)
          | Inl e \<Rightarrow> \<not> se_transient e \<and> (\<exists>k\<in>set keys. bt_get (cr_local (src_creds s)) k = None))
     | _ \<Rightarrow>
         (case r of
            Inr vs \<Rightarrow> (\<forall>env'. resolve_block env' name config s' = (Inr vs, s')) \<and>
              block_cached name (source_invalidate s') = None
          | Inl e \<Rightarrow> src_cache s' = src_cache s))"
proof -
  have ok: "cache_ok blocks s'" using resolve_block_ok [OF assms(3,1,2)] by simp
  show ?thesis
  proof (cases "is_local_block config")
    case True
    then obtain keys where c: "config = LocalVault keys" by (cases config) (auto simp: is_local_block_def)
    have rs: "r = map_err se_fatal (local_values (src_creds s) keys)" "s' = s"
      using assms(3) [unfolded c resolve_local_block [OF assms(1) assms(2) [unfolded c]]] by blast+
    show ?thesis
    proof (cases "local_values (src_creds s) keys")
      case (Inl m)
      then have "\<exists>k\<in>set keys. bt_get (cr_local (src_creds s)) k = None"
        unfolding local_values_def by (auto dest!: traverse_InlD split: option.splits)
      with Inl rs ok c show ?thesis by (simp add: se_fatal_def)
    next
      case (Inr vs)
      with local_values_Inr [OF this] rs ok c show ?thesis by simp
    qed
  next
    case False
    have "bt_ok (src_cache s')" using ok by (simp add: cache_ok_def)
    have "case r of Inr vs \<Rightarrow> (\<forall>env'. resolve_block env' name config s' = (Inr vs, s')) \<and>
              block_cached name (source_invalidate s') = None
          | Inl e \<Rightarrow> src_cache s' = src_cache s"
    proof (cases "block_cached name s")
      case (Some vs)
      then show ?thesis using assms(3)
        by (auto simp: resolve_block_def block_cached_def source_invalidate_def)
    next
      case None
      obtain f s1 where f: "block_fetch env config s = (f, s1)" by (cases "block_fetch env config s")
      have "bt_ok (src_cache s1)" "src_cache s1 = src_cache s"
        using block_fetch_keeps [OF f] assms(1) by (auto simp: cache_ok_def)
      then show ?thesis using assms(3) None f False
        by (cases f) (auto simp: resolve_block_def block_cached_def block_store_def source_invalidate_def)
    qed
    with ok False show ?thesis by (cases config) (auto simp: is_local_block_def)
  qed
qed

definition vault_example :: "unit secrets_source" where
  "vault_example = \<lparr>src_creds = credentials_default\<lparr>cr_local := [(''API_KEY'', ''v2'')]\<rparr>, src_cache = [],
     src_tokens = [], src_world = ()\<rparr>"

theorem resolve_block_freshness_witness:
  "resolve_block op_example_env ''llm'' (LocalVault [''API_KEY'']) vault_example
     = (Inr [(''API_KEY'', ''v2'')], vault_example) \<and>
   bt_get (cr_local (src_creds vault_example)) ''API_KEY'' = Some ''v2''"
proof -
  let ?b = "[(''llm'', LocalVault [''API_KEY''])]"
  have a: "cache_ok ?b vault_example" by (simp add: cache_ok_def vault_example_def)
  have b: "bt_get ?b ''llm'' = Some (LocalVault [''API_KEY''])" by (simp add: bt_get_def)
  have c: "resolve_block op_example_env ''llm'' (LocalVault [''API_KEY'']) vault_example
     = (Inr [(''API_KEY'', ''v2'')], vault_example)" by code_simp
  from resolve_block_freshness [OF a b c] c show ?thesis by simp
qed

text \<open>
  The cache is filled after the fetch returns, with no lock held across it. A block replaced
  while its old coordinates are being fetched is invalidated before the old values arrive; they
  are then cached and served for the new block, whose provider is not asked.
\<close>

lemma stale_fetch_survives_invalidate:
  assumes "bt_ok (src_cache s)" and "block_cached name s = None" and "block_fetch env old s = (Inr stale, s1)"
  shows "resolve_block env name new (block_store name stale (source_invalidate s1)) =
    (Inr stale, block_store name stale (source_invalidate s1))"
  by (simp add: resolve_block_def block_cached_def block_store_def source_invalidate_def bt_get_def)

text \<open>
  A service's values are those of its blocks in the declared order, so that in the map the
  composer builds the later block wins; an unsynced reference is a permanent error.
\<close>

theorem resolve_secrets_in_order:
  assumes "resolve_service_secrets env sd blocks s = (Inr vs, s')"
  shows "\<exists>vss. list_all2 (\<lambda>reference vs. \<exists>config v v'. bt_get blocks reference = Some config \<and>
        resolve_block env reference config v = (Inr vs, v')) (sd_secrets sd) vss \<and>
      vs = concat vss \<and> map_of (rev vs) = foldl (\<lambda>m vs. m ++ map_of (rev vs)) Map.empty vss"
proof -
  from assms obtain vss where
    e: "io_each (\<lambda>reference. case bt_get blocks reference of
           None \<Rightarrow> io_try (Inl (se_fatal (''service references [secrets.'' @ reference @ ''] but no such block is synced'')))
         | Some config \<Rightarrow> resolve_block env reference config) (sd_secrets sd) s = (Inr vss, s')"
    and vs: "vs = concat vss" by (auto simp: resolve_service_secrets_def result_iff)
  have "list_all2 (\<lambda>reference vs. \<exists>config v v'. bt_get blocks reference = Some config \<and>
        resolve_block env reference config v = (Inr vs, v')) (sd_secrets sd) vss"
    by (rule io_each_list_all2 [OF e]) (auto simp: result_iff split: option.splits)
  moreover have "map_of (rev (concat vss)) = foldl (\<lambda>m vs. m ++ map_of (rev vs)) Map.empty vss"
  proof (induction vss rule: rev_induct)
    case (snoc x xs)
    then show ?case by simp
  qed simp
  ultimately show ?thesis using vs by blast
qed

definition service_example :: service_definition where
  "service_example = \<lparr>sd_name = ''web'', sd_run = [''run''], sd_dir = ''/r'', sd_port = None, sd_host = None,
     sd_mode = ModeHttp, sd_ready = ReadyNone, sd_depends = [], sd_restart = RestartAlways, sd_stop_grace_ms = 5000,
     sd_env_files = [], sd_env = [], sd_secrets = [], sd_secrets_optional = False, sd_watch = [],
     sd_watch_mode = WatchPoll, sd_watch_debounce_ms = 250, sd_groups = [], sd_project = None\<rparr>"

theorem resolve_secrets_in_order_witness:
  "\<exists>vss. concat vss = [(''A'', ''1''), (''A'', ''2'')] \<and>
     map_of (rev [(''A'', ''1''), (''A'', ''2'')]) = foldl (\<lambda>m vs. m ++ map_of (rev vs)) Map.empty vss"
proof -
  let ?sd = "service_example\<lparr>sd_secrets := [''one'', ''two'']\<rparr>"
  let ?s = "vault_example\<lparr>src_cache := [(''one'', [(''A'', ''1'')]), (''two'', [(''A'', ''2'')])]\<rparr>"
  have "resolve_service_secrets op_example_env ?sd [(''one'', OnePassword []), (''two'', OnePassword [])] ?s
     = (Inr [(''A'', ''1''), (''A'', ''2'')], ?s)"
    by code_simp
  from resolve_secrets_in_order [OF this] show ?thesis by auto
qed

end
