(* ===== verification/Env_Compose.thy ===== *)
theory Env_Compose
  imports BTree Rust_Text
begin

text \<open>
  Environment composition, \<open>portman-daemon/src/env_compose.rs\<close>. Reading a dotenv file is a
  parameter: it fails as a whole, or yields items each of which may be malformed.
\<close>

section \<open>Composition\<close>

record base_env =
  be_user :: string
  be_home :: path

definition base_keys :: "string list" where
  "base_keys = [''PATH'', ''HOME'', ''USER'', ''TMPDIR'']"

definition is_base_key :: "string \<Rightarrow> bool" where
  "is_base_key key \<longleftrightarrow> key \<in> set base_keys"

type_synonym 'e dotenv = "path \<Rightarrow> 'e + ('e + string \<times> string) list"

definition apply_env_file ::
  "'e dotenv \<Rightarrow> (string, string) btree \<Rightarrow> path \<Rightarrow> 'e + (string, string) btree" where
  "apply_env_file dotenv env file =
     and_then (dotenv file) (\<lambda>items.
       fold_res (\<lambda>env item. and_then item (\<lambda>(key, val). Inr (bt_insert key val env))) env items)"

definition base_bindings :: "base_env \<Rightarrow> string \<Rightarrow> (string \<times> string) list" where
  "base_bindings base path =
     [(''PATH'', path), (''HOME'', be_home base), (''USER'', be_user base), (''TMPDIR'', ''/tmp'')]"

definition compose ::
  "'e dotenv \<Rightarrow> base_env \<Rightarrow> string \<Rightarrow> path list \<Rightarrow> (string \<times> string) list \<Rightarrow> (string, string) btree
   \<Rightarrow> (path \<times> 'e) + (string, string) btree" where
  "compose dotenv base path env_files provider_values inline =
     (let env = bt_extend [] (base_bindings base path) in
      and_then (fold_res (\<lambda>env file. map_err (\<lambda>e. (file, e)) (apply_env_file dotenv env file)) env env_files) (\<lambda>env.
      Inr (bt_extend (bt_extend env provider_values) inline)))"

section \<open>Later sources win\<close>

lemma apply_items:
  "fold_res (\<lambda>env item. and_then item (\<lambda>(key, val). Inr (bt_insert key val env))) env items = Inr env' \<longleftrightarrow>
   (\<exists>ps. items = map Inr ps \<and> env' = bt_extend env ps)"
proof (induction items arbitrary: env)
  case Nil
  then show ?case by (auto simp: bt_extend_def)
next
  case (Cons item items)
  show ?case
  proof (cases item)
    case (Inl e)
    then show ?thesis by auto
  next
    case (Inr p)
    obtain k v where p: "p = (k, v)" by (cases p)
    have "(\<exists>ps. item # items = map Inr ps \<and> env' = bt_extend env ps) \<longleftrightarrow>
        (\<exists>ps. items = map Inr ps \<and> env' = bt_extend (bt_insert k v env) ps)"
      using Inr p by (auto simp: bt_extend_def Cons_eq_map_conv)
    with Cons.IH [of "bt_insert k v env"] Inr p show ?thesis by simp
  qed
qed

lemma apply_env_file_Inr:
  "apply_env_file dotenv env file = Inr env' \<longleftrightarrow>
   (\<exists>ps. dotenv file = Inr (map Inr ps) \<and> env' = bt_extend env ps)"
  unfolding apply_env_file_def and_then_Inr apply_items by auto

lemma apply_env_files_Inr:
  "fold_res (\<lambda>env file. map_err (\<lambda>e. (file, e)) (apply_env_file dotenv env file)) env files = Inr env' \<longleftrightarrow>
   (\<exists>pss. list_all2 (\<lambda>file ps. dotenv file = Inr (map Inr ps)) files pss \<and> env' = bt_extend env (concat pss))"
proof (induction files arbitrary: env)
  case Nil
  then show ?case by (auto simp: bt_extend_def)
next
  case (Cons f fs)
  have append: "bt_extend (bt_extend env ps) qs = bt_extend env (ps @ qs)" for ps qs
    by (simp add: bt_extend_def)
  show ?case
    by (auto simp: and_then_Inr map_err_Inr apply_env_file_Inr Cons.IH list_all2_Cons1 append)
       (metis append concat.simps(2))+
qed

text \<open>
  The environment of a service comes from declared sources only, later sources winning: the
  base allowlist, the env files in order, the provider values, the inline values. It exists
  exactly when every declared file is readable and well formed.
\<close>

theorem compose_later_wins:
  assumes "bt_ok inline"
  shows "compose dotenv base path files provider_values inline = Inr env \<longleftrightarrow>
    (\<exists>pss. list_all2 (\<lambda>file ps. dotenv file = Inr (map Inr ps)) files pss \<and> bt_ok env \<and>
       bt_get env = map_of (base_bindings base path) ++ map_of (rev (concat pss)) ++
         map_of (rev provider_values) ++ bt_get inline)"
proof -
  let ?base = "bt_extend [] (base_bindings base path)"
  let ?env = "\<lambda>pss. bt_extend (bt_extend (bt_extend ?base (concat pss)) provider_values) inline"
  have base: "bt_get ?base = map_of (base_bindings base path)"
    by (auto simp: bt_get_extend_map base_bindings_def fun_eq_iff map_add_def)
  have inline: "map_of (rev inline) = bt_get inline"
    using map_of_rev_bt [OF assms] by auto
  have get: "bt_get (?env pss) = map_of (base_bindings base path) ++ map_of (rev (concat pss)) ++
         map_of (rev provider_values) ++ bt_get inline" for pss
    by (simp add: bt_get_extend_map base inline)
  have "compose dotenv base path files provider_values inline = Inr env \<longleftrightarrow>
      (\<exists>pss. list_all2 (\<lambda>file ps. dotenv file = Inr (map Inr ps)) files pss \<and> env = ?env pss)"
    by (auto simp: compose_def and_then_Inr apply_env_files_Inr)
  also have "\<dots> \<longleftrightarrow> (\<exists>pss. list_all2 (\<lambda>file ps. dotenv file = Inr (map Inr ps)) files pss \<and> bt_ok env \<and>
       bt_get env = bt_get (?env pss))"
    by (metis bt_ext bt_ok_Nil bt_ok_extend)
  finally show ?thesis by (simp only: get)
qed

theorem compose_later_wins_witness:
  "\<exists>env. compose (\<lambda>_. Inr [Inr (''A'', ''file''), Inr (''B'', ''file'')]) \<lparr>be_user = ''me'', be_home = ''/h''\<rparr> ''/bin''
      [''/e''] [(''B'', ''secret'')] [(''HOME'', ''/x'')] = (Inr env :: (path \<times> string) + _) \<and>
    bt_get env ''A'' = Some ''file'' \<and> bt_get env ''B'' = Some ''secret'' \<and> bt_get env ''HOME'' = Some ''/x''"
proof -
  let ?d = "(\<lambda>_. Inr [Inr (''A'', ''file''), Inr (''B'', ''file'')]) :: string dotenv"
  let ?b = "\<lparr>be_user = ''me'', be_home = ''/h''\<rparr>"
  let ?e = "[(''A'', ''file''), (''B'', ''secret''), (''HOME'', ''/x''), (''PATH'', ''/bin''), (''TMPDIR'', ''/tmp''), (''USER'', ''me'')]"
  have c: "compose ?d ?b ''/bin'' [''/e''] [(''B'', ''secret'')] [(''HOME'', ''/x'')] = Inr ?e" by code_simp
  have ok: "bt_ok [(''HOME'', ''/x'')]" by simp
  from compose_later_wins [OF ok, THEN iffD1, OF c] have "bt_ok ?e" by blast
  moreover have "bt_get ?e ''A'' = Some ''file''" "bt_get ?e ''B'' = Some ''secret''" "bt_get ?e ''HOME'' = Some ''/x''"
    by (simp_all add: bt_get_def)
  ultimately show ?thesis using c by blast
qed

end
