(* ===== verification/Supervisor.thy ===== *)
theory Supervisor
  imports Routes Secrets Service_Config Env_Compose
begin

text \<open>
  The supervisor's state and its bookkeeping, \<open>portman-daemon/src/supervisor.rs\<close>: slots, the
  persisted snapshot, status and lookup queries, target expansion, daemon-global secrets blocks,
  and the identity check that guards every signal. Each operation under the slots lock is one
  definition.
\<close>

section \<open>State\<close>

datatype state_kind = StPending | StStarting | StReady | StBackoff | StFailed | StStopped

fun state_wire :: "state_kind \<Rightarrow> service_state" where
  "state_wire StPending = SvcPending"
| "state_wire StStarting = SvcStarting"
| "state_wire StReady = SvcReady"
| "state_wire StBackoff = SvcBackoff"
| "state_wire StFailed = SvcFailed"
| "state_wire StStopped = SvcStopped"

type_synonym i32 = "32 word"  \<comment> \<open>read with \<open>sint\<close>\<close>

record running_marker =
  rm_pid :: u32
  rm_pgid :: i32
  rm_spawn_unix_ms :: u64
  rm_argv :: "string list"

text \<open>A runner task is a number; \<open>sl_task\<close> is the handle the slot holds.\<close>

record slot =
  sl_root :: path
  sl_def :: service_definition
  sl_desired :: bool
  sl_state :: state_kind
  sl_restart :: u64
  sl_detail :: string
  sl_pid :: "u32 option"
  sl_restarts :: u32
  sl_task :: "nat option"
  sl_watcher :: bool
  sl_running :: "running_marker option"

definition slot_new :: "path \<Rightarrow> service_definition \<Rightarrow> bool \<Rightarrow> slot" where
  "slot_new root sd desired =
     \<lparr>sl_root = root, sl_def = sd, sl_desired = desired, sl_state = StStopped, sl_restart = 0,
      sl_detail = [], sl_pid = None, sl_restarts = 0, sl_task = None, sl_watcher = False, sl_running = None\<rparr>"

record persisted_service =
  psv_root :: path
  psv_definition :: service_definition
  psv_desired :: bool
  psv_running :: "running_marker option"

record persisted_secrets =
  psc_root :: "path option"
  psc_config :: secrets_provider_config

record persisted_egress =
  peg_root :: path
  peg_route :: egress_route

record persisted =
  ps_version :: u32
  ps_services :: "(string, persisted_service) btree"
  ps_secrets :: "(string, persisted_secrets) btree"
  ps_egress :: "(string, persisted_egress) btree"

record supervisor =
  sv_managed :: bool
  sv_slots :: "(string, slot) btree"
  sv_secrets :: "(string, persisted_secrets) btree"
  sv_egress :: "(string, persisted_egress) btree"
  sv_shutdown :: bool
  sv_routes :: route_world
  sv_cache :: "(string, (string \<times> string) list) btree"  \<comment> \<open>of the secrets source\<close>

definition persisted_service_of :: "slot \<Rightarrow> persisted_service" where
  "persisted_service_of sl =
     \<lparr>psv_root = sl_root sl, psv_definition = sl_def sl, psv_desired = sl_desired sl, psv_running = sl_running sl\<rparr>"

definition persisted_snapshot :: "supervisor \<Rightarrow> persisted" where
  "persisted_snapshot sv =
     \<lparr>ps_version = 1, ps_services = map (\<lambda>(name, sl). (name, persisted_service_of sl)) (sv_slots sv),
      ps_secrets = sv_secrets sv, ps_egress = sv_egress sv\<rparr>"

section \<open>Slot bookkeeping\<close>

definition update_slot :: "string \<Rightarrow> (slot \<Rightarrow> slot) \<Rightarrow> supervisor \<Rightarrow> supervisor" where
  "update_slot name f sv =
     (case bt_get (sv_slots sv) name of
        Some sl \<Rightarrow> sv\<lparr>sv_slots := bt_insert name (f sl) (sv_slots sv)\<rparr>
      | None \<Rightarrow> sv)"

definition set_state :: "string \<Rightarrow> state_kind \<Rightarrow> string \<Rightarrow> supervisor \<Rightarrow> supervisor" where
  "set_state name kind detail sv = update_slot name (\<lambda>sl. sl\<lparr>sl_state := kind, sl_detail := detail\<rparr>) sv"

definition detail_of :: "supervisor \<Rightarrow> string \<Rightarrow> string" where
  "detail_of sv name = (case bt_get (sv_slots sv) name of Some sl \<Rightarrow> sl_detail sl | None \<Rightarrow> [])"

definition clear_running_marker :: "string \<Rightarrow> supervisor \<Rightarrow> supervisor" where
  "clear_running_marker name sv = update_slot name (\<lambda>sl. sl\<lparr>sl_running := None, sl_pid := None\<rparr>) sv"

definition service_for_host :: "supervisor \<Rightarrow> string \<Rightarrow> string option" where
  "service_for_host sv host =
     map_option fst (List.find (\<lambda>(_, sl). sd_host (sl_def sl) = Some host) (sv_slots sv))"

record running_group =
  rg_name :: string
  rg_ghost :: "string option"
  rg_pid :: u32
  rg_pgid :: i32

definition running_groups :: "supervisor \<Rightarrow> running_group list" where
  "running_groups sv =
     concat (map (\<lambda>(name, sl). case sl_running sl of
         Some marker \<Rightarrow> [\<lparr>rg_name = name, rg_ghost = sd_host (sl_def sl), rg_pid = rm_pid marker, rg_pgid = rm_pgid marker\<rparr>]
       | None \<Rightarrow> []) (sv_slots sv))"

definition knows :: "supervisor \<Rightarrow> string \<Rightarrow> bool" where
  "knows sv name \<longleftrightarrow> bt_contains (sv_slots sv) name"

definition known_roots :: "supervisor \<Rightarrow> path list" where
  "known_roots sv = remdups_adj (sort (map (\<lambda>(_, sl). sl_root sl) (sv_slots sv)))"

record service_status =
  st_name :: string
  st_root :: path
  st_state :: state_kind
  st_detail :: string
  st_pid :: "u32 option"
  st_restarts :: u32
  st_host :: "string option"
  st_port :: "u16 option"
  st_desired_up :: bool
  st_groups :: "string list"
  st_project :: "string option"

definition status :: "supervisor \<Rightarrow> service_status list" where
  "status sv =
     map (\<lambda>(name, sl).
       \<lparr>st_name = name, st_root = sl_root sl, st_state = sl_state sl, st_detail = sl_detail sl,
        st_pid = sl_pid sl, st_restarts = sl_restarts sl, st_host = sd_host (sl_def sl),
        st_port = sd_port (sl_def sl), st_desired_up = sl_desired sl, st_groups = sd_groups (sl_def sl),
        st_project = sd_project (sl_def sl)\<rparr>) (sv_slots sv)"

section \<open>Daemon-global secrets blocks\<close>

datatype 'e sup_error =
  ManagedNoServices | ManagedNoStart | ManagedStateHasServices | NoNames | UnknownService string
| NameTakenBy string path | BlockTakenBy string "path option" | BlockDeclaredBy string path | NoSuchBlock string
| EgressUnknownBlock string string | EgressKey string config_error | EgressNameTakenBy string path
| EgressHostTaken string | StillNeeded string string | SaveFailed 'e | LoadFailed

type_synonym ('e, 'w) saver = "persisted \<Rightarrow> 'w \<Rightarrow> ('e + unit) \<times> 'w"

definition save_persisted :: "('e, 'w) saver \<Rightarrow> persisted \<Rightarrow> 'w \<Rightarrow> ('e sup_error + unit) \<times> 'w" where
  "save_persisted save p w = (case save p w of (r, w) \<Rightarrow> (map_err SaveFailed r, w))"

definition install_blocks ::
  "('e, 'w) saver \<Rightarrow> (string, persisted_secrets) btree \<Rightarrow> supervisor \<Rightarrow> 'w \<Rightarrow> ('e sup_error + unit) \<times> supervisor \<times> 'w" where
  "install_blocks save blocks sv w =
     (case save_persisted save ((persisted_snapshot sv)\<lparr>ps_secrets := blocks\<rparr>) w of
        (Inl e, w) \<Rightarrow> (Inl e, sv, w)
      | (Inr _, w) \<Rightarrow> (Inr (), sv\<lparr>sv_secrets := blocks, sv_cache := []\<rparr>, w))"

definition set_global_block ::
  "('e, 'w) saver \<Rightarrow> string \<Rightarrow> secrets_provider_config \<Rightarrow> supervisor \<Rightarrow> 'w \<Rightarrow> ('e sup_error + unit) \<times> supervisor \<times> 'w" where
  "set_global_block save name config sv w =
     (case Option.bind (bt_get (sv_secrets sv) name) psc_root of
        Some root \<Rightarrow> (Inl (BlockDeclaredBy name root), sv, w)
      | None \<Rightarrow> install_blocks save (bt_insert name \<lparr>psc_root = None, psc_config = config\<rparr> (sv_secrets sv)) sv w)"

definition remove_global_block ::
  "('e, 'w) saver \<Rightarrow> string \<Rightarrow> supervisor \<Rightarrow> 'w \<Rightarrow> ('e sup_error + unit) \<times> supervisor \<times> 'w" where
  "remove_global_block save name sv w =
     (case bt_get (sv_secrets sv) name of
        None \<Rightarrow> (Inl (NoSuchBlock name), sv, w)
      | Some held \<Rightarrow>
          (case psc_root held of
             Some root \<Rightarrow> (Inl (BlockDeclaredBy name root), sv, w)
           | None \<Rightarrow> install_blocks save (bt_remove name (sv_secrets sv)) sv w))"

definition block_used_by :: "supervisor \<Rightarrow> string \<Rightarrow> string list" where
  "block_used_by sv name =
     map fst (filter (\<lambda>(_, sl). name \<in> set (sd_secrets (sl_def sl))) (sv_slots sv)) @
     map (\<lambda>(route, _). ''egress:'' @ route)
       (filter (\<lambda>(_, r). es_secrets (er_spec (peg_route r)) = name) (sv_egress sv))"

definition secrets_blocks :: "supervisor \<Rightarrow> secrets_block_info list" where
  "secrets_blocks sv =
     map (\<lambda>(name, block). \<lparr>sbi_name = name, sbi_config = psc_config block, sbi_root = psc_root block,
       sbi_used_by = block_used_by sv name\<rparr>) (sv_secrets sv)"

definition local_key_usage :: "supervisor \<Rightarrow> (string, string list) btree" where
  "local_key_usage sv =
     foldl (\<lambda>usage (name, block).
       case psc_config block of
         LocalVault keys \<Rightarrow> foldl (\<lambda>u key. bt_insert key (unwrap_or (bt_get u key) [] @ [name]) u) usage keys
       | _ \<Rightarrow> usage) [] (sv_secrets sv)"

section \<open>Signals\<close>

datatype signal = SigTerm | SigKill

text \<open>What one call sends, given the daemon's own group.\<close>

definition signal_group :: "i32 \<Rightarrow> i32 \<Rightarrow> signal \<Rightarrow> (i32 \<times> signal) list" where
  "signal_group own pgid sig =
     (if sint pgid \<le> 1 then [] else if own = pgid then [] else [(pgid, sig)])"

text \<open>
  What the operating system says of a process: its group, and its start time in seconds with its
  arguments.
\<close>

record proc_table =
  pt_pgid :: "u32 \<Rightarrow> i32 option"
  pt_info :: "u32 \<Rightarrow> (u64 \<times> string list) option"

definition saturating_mul :: "u64 \<Rightarrow> u64 \<Rightarrow> u64" where
  "saturating_mul a b = (if unat a * unat b < 2 ^ 64 then a * b else - 1)"

definition abs_diff :: "u64 \<Rightarrow> u64 \<Rightarrow> u64" where
  "abs_diff a b = (if a \<le> b then b - a else a - b)"

definition marker_identity_matches :: "proc_table \<Rightarrow> running_marker \<Rightarrow> bool" where
  "marker_identity_matches pt m =
     (case pt_pgid pt (rm_pid m) of
        None \<Rightarrow> False
      | Some live_pgid \<Rightarrow>
          if live_pgid \<noteq> rm_pgid m then False
          else (case pt_info pt (rm_pid m) of
            None \<Rightarrow> False
          | Some (start_secs, argv) \<Rightarrow>
              if abs_diff (saturating_mul start_secs 1000) (rm_spawn_unix_ms m) > 5000 then False
              else if argv = [] then True
              else argv = rm_argv m \<or> (length argv = length (rm_argv m) \<and> drop 1 argv = drop 1 (rm_argv m))))"

definition reconcile_marker :: "i32 \<Rightarrow> proc_table \<Rightarrow> running_marker \<Rightarrow> (i32 \<times> signal) list" where
  "reconcile_marker own pt m =
     (if \<not> marker_identity_matches pt m then []
      else signal_group own (rm_pgid m) SigTerm @ signal_group own (rm_pgid m) SigKill)"

section \<open>Targets\<close>

text \<open>
  \<open>expand_targets\<close>: the queue is a stack, last pushed first popped. The pattern's first
  component is the set of names seen, as a list.
\<close>

type_synonym closure = "string list \<times> string list \<times> string list"

definition push_dep :: "closure \<Rightarrow> string \<Rightarrow> closure" where
  "push_dep st dep =
     (case st of (seen, targets, stack) \<Rightarrow>
        if dep \<in> set seen then st else (dep # seen, targets @ [dep], dep # stack))"

definition slot_deps :: "(string, slot) btree \<Rightarrow> string \<Rightarrow> string list" where
  "slot_deps slots name = (case bt_get slots name of Some sl \<Rightarrow> sd_depends (sl_def sl) | None \<Rightarrow> [])"

definition all_deps :: "(string, slot) btree \<Rightarrow> string set" where
  "all_deps slots = (\<Union>name. set (slot_deps slots name))"

lemma finite_all_deps [simp]: "finite (all_deps slots)"
proof -
  have "all_deps slots \<subseteq> (\<Union>b\<in>set slots. set (sd_depends (sl_def (snd b))))"
  proof
    fix d assume "d \<in> all_deps slots"
    then obtain name sl where "bt_get slots name = Some sl" "d \<in> set (sd_depends (sl_def sl))"
      unfolding all_deps_def slot_deps_def by (auto split: option.splits) (metis)
    then have "(name, sl) \<in> set slots" by (simp add: bt_get_def map_of_SomeD)
    with \<open>d \<in> set (sd_depends (sl_def sl))\<close>
    show "d \<in> (\<Union>b\<in>set slots. set (sd_depends (sl_def (snd b))))" by (intro UN_I) auto
  qed
  then show ?thesis by (rule finite_subset) simp
qed

text \<open>Work left: names not yet seen count twice, as they are still to be pushed and popped.\<close>

definition closure_work :: "(string, slot) btree \<Rightarrow> closure \<Rightarrow> nat" where
  "closure_work slots st = (case st of (seen, targets, stack) \<Rightarrow> 2 * card (all_deps slots - set seen) + length stack)"

lemma push_dep_work:
  "dep \<in> all_deps slots \<Longrightarrow> closure_work slots (push_dep st dep) \<le> closure_work slots st"
proof -
  assume d: "dep \<in> all_deps slots"
  obtain seen targets stack where [simp]: "st = (seen, targets, stack)" by (cases st)
  show ?thesis
  proof (cases "dep \<in> set seen")
    case False
    have "all_deps slots - set (dep # seen) = (all_deps slots - set seen) - {dep}" by auto
    moreover have "card ((all_deps slots - set seen) - {dep}) < card (all_deps slots - set seen)"
      using d False by (intro card_Diff1_less) auto
    ultimately show ?thesis using False by (simp add: push_dep_def closure_work_def)
  qed (simp add: push_dep_def)
qed

lemma push_deps_work:
  "set deps \<subseteq> all_deps slots \<Longrightarrow> closure_work slots (foldl push_dep st deps) \<le> closure_work slots st"
proof (induction deps arbitrary: st)
  case (Cons dep deps)
  then have "closure_work slots (foldl push_dep (push_dep st dep) deps) \<le> closure_work slots (push_dep st dep)" by simp
  with push_dep_work [of dep slots st] Cons.prems show ?case by simp
qed simp

function close_over :: "(string, slot) btree \<Rightarrow> closure \<Rightarrow> string list" where
  "close_over slots (seen, targets, []) = targets"
| "close_over slots (seen, targets, name # stack) =
     close_over slots (foldl push_dep (seen, targets, stack) (slot_deps slots name))"
  by pat_completeness auto
termination
proof (relation "measure (\<lambda>(slots, st). closure_work slots st)")
  fix slots seen targets name stack
  have "set (slot_deps slots name) \<subseteq> all_deps slots" by (auto simp: all_deps_def)
  from push_deps_work [OF this, of "(seen, targets, stack)"]
  show "((slots, foldl push_dep (seen, targets, stack) (slot_deps slots name)), slots, seen, targets, name # stack)
      \<in> measure (\<lambda>(slots, st). closure_work slots st)"
    by (simp add: closure_work_def)
qed simp

definition expand_targets :: "supervisor \<Rightarrow> string list \<Rightarrow> bool \<Rightarrow> 'e sup_error + string list" where
  "expand_targets sv names expand_deps =
     and_then (for_each (\<lambda>name. ensure (bt_contains (sv_slots sv) name) (UnknownService name)) names) (\<lambda>_.
       let targets = (if expand_deps then close_over (sv_slots sv) (bset names, names, rev names) else names)
       in Inr (remdups_adj (sort targets)))"

definition dep_edges :: "(string, slot) btree \<Rightarrow> (string \<times> string) set" where
  "dep_edges slots = {(a, b). b \<in> set (slot_deps slots a)}"

definition closure_inv :: "(string, slot) btree \<Rightarrow> string set \<Rightarrow> closure \<Rightarrow> bool" where
  "closure_inv slots names st \<longleftrightarrow>
     (case st of (seen, targets, stack) \<Rightarrow>
        set targets = set seen \<and> names \<subseteq> set seen \<and> set seen \<subseteq> (dep_edges slots)\<^sup>* `` names \<and>
        set stack \<subseteq> set seen \<and> (\<forall>a\<in>set seen - set stack. set (slot_deps slots a) \<subseteq> set seen))"

lemma push_deps_result:
  "foldl push_dep (seen, targets, stack) deps = (seen', targets', stack') \<Longrightarrow>
   set seen' = set seen \<union> set deps \<and> set targets' = set targets \<union> (set seen' - set seen) \<and>
   set stack' = set stack \<union> (set seen' - set seen)"
proof (induction deps arbitrary: seen targets stack)
  case (Cons dep deps)
  show ?case
  proof (cases "dep \<in> set seen")
    case True
    with Cons.prems have "foldl push_dep (seen, targets, stack) deps = (seen', targets', stack')"
      by (simp add: push_dep_def [of "(seen, targets, stack)"])
    from Cons.IH [OF this] True show ?thesis by auto
  next
    case False
    with Cons.prems have "foldl push_dep (dep # seen, targets @ [dep], dep # stack) deps = (seen', targets', stack')"
      by (simp add: push_dep_def [of "(seen, targets, stack)"])
    from Cons.IH [OF this] False show ?thesis by auto
  qed
qed simp

lemma close_over_inv:
  "closure_inv slots names st \<Longrightarrow> set (close_over slots st) = (dep_edges slots)\<^sup>* `` names"
proof (induction slots st rule: close_over.induct)
  case (1 slots seen targets)
  then have inv: "names \<subseteq> set seen" "set seen \<subseteq> (dep_edges slots)\<^sup>* `` names" "set targets = set seen"
    "\<And>a b. a \<in> set seen \<Longrightarrow> (a, b) \<in> dep_edges slots \<Longrightarrow> b \<in> set seen"
    by (auto simp: closure_inv_def dep_edges_def)
  have "b \<in> set seen" if "(a, b) \<in> (dep_edges slots)\<^sup>*" "a \<in> names" for a b
    using that by (induction rule: rtrancl_induct) (use inv in auto)
  with inv show ?case by auto
next
  case (2 slots seen targets name stack)
  obtain seen' targets' stack' where r:
    "foldl push_dep (seen, targets, stack) (slot_deps slots name) = (seen', targets', stack')"
    by (metis prod_cases3)
  note res = push_deps_result [OF r]
  have name: "name \<in> (dep_edges slots)\<^sup>* `` names" using "2.prems" by (auto simp: closure_inv_def)
  then have "set (slot_deps slots name) \<subseteq> (dep_edges slots)\<^sup>* `` names"
    by (auto simp: dep_edges_def intro: rtrancl_into_rtrancl)
  with res "2.prems" have "closure_inv slots names (seen', targets', stack')"
    by (auto simp: closure_inv_def)
  with "2.IH" r show ?case by simp
qed

lemma sorted_distinct_remdups_adj: "sorted_wrt (<) (remdups_adj (sort (xs :: 'a::linorder list)))"
proof -
  have "sorted ys \<Longrightarrow> sorted_wrt (<) (remdups_adj ys)" for ys :: "'a list"
  proof (induction ys rule: remdups_adj.induct)
    case (3 x y ys)
    then show ?case by (auto simp: less_le)
  qed simp_all
  then show ?thesis by simp
qed

text \<open>
  Starting services acts on exactly the named services and everything they depend on,
  directly or through others, each once and in order; stopping acts on exactly the named ones.
  Both refuse a request that names an unknown service, and the search always ends, whatever the
  dependencies, cycles and dangling names included.
\<close>

theorem expand_targets_closure:
  "(case (expand_targets sv names expand_deps :: 'e sup_error + string list) of
      Inr ts \<Rightarrow> set names \<subseteq> fst ` set (sv_slots sv) \<and> sorted_wrt (<) ts \<and>
        set ts = (if expand_deps then (dep_edges (sv_slots sv))\<^sup>* `` set names else set names)
    | Inl e \<Rightarrow> \<exists>name\<in>set names. name \<notin> fst ` set (sv_slots sv) \<and> e = UnknownService name)"
proof (cases "for_each (\<lambda>name. ensure (bt_contains (sv_slots sv) name) (UnknownService name)) names :: 'e sup_error + unit")
  case (Inl e)
  then show ?thesis
    using for_each_InlD [OF Inl] by (auto simp: expand_targets_def ensure_def bt_contains_iff split: if_splits)
next
  case (Inr u)
  then have known: "set names \<subseteq> fst ` set (sv_slots sv)"
    by (auto simp: for_each_Inr ensure_Inr bt_contains_iff)
  have "closure_inv (sv_slots sv) (set names) (bset names, names, rev names)"
    by (auto simp: closure_inv_def set_bset)
  from close_over_inv [OF this] Inr known show ?thesis
    by (simp add: expand_targets_def sorted_distinct_remdups_adj)
qed

text \<open>
  C35: Boot reconciliation signals only a survivor it has identified: a signal goes to the recorded
  group, which is neither the daemon's own nor a reserved one, and only if a live process with the
  recorded pid is in that group, started within five seconds of the recorded instant and has the
  recorded arguments, its program name aside (or unreadable ones).
\<close>

theorem reconcile_signals_only_survivor:
  assumes "(pgid, sig) \<in> set (reconcile_marker own pt m)"
  shows "pgid = rm_pgid m \<and> sint pgid > 1 \<and> pgid \<noteq> own \<and> pt_pgid pt (rm_pid m) = Some pgid \<and>
    (\<exists>start argv. pt_info pt (rm_pid m) = Some (start, argv) \<and>
       \<bar>int (unat (saturating_mul start 1000)) - int (unat (rm_spawn_unix_ms m))\<bar> \<le> 5000 \<and>
       (argv \<noteq> [] \<longrightarrow> length argv = length (rm_argv m) \<and> tl argv = tl (rm_argv m)))"
proof -
  have match: "marker_identity_matches pt m" and sig: "pgid = rm_pgid m" "sint pgid > 1" "pgid \<noteq> own"
    using assms by (auto simp: reconcile_marker_def signal_group_def split: if_splits)
  from match obtain start argv where live: "pt_pgid pt (rm_pid m) = Some (rm_pgid m)"
      "pt_info pt (rm_pid m) = Some (start, argv)"
      and near: "\<not> abs_diff (saturating_mul start 1000) (rm_spawn_unix_ms m) > 5000"
      and argv: "argv = [] \<or> argv = rm_argv m \<or> (length argv = length (rm_argv m) \<and> drop 1 argv = drop 1 (rm_argv m))"
    by (auto simp: marker_identity_matches_def split: option.splits if_splits)
  let ?a = "saturating_mul start 1000" and ?b = "rm_spawn_unix_ms m"
  have "unat (abs_diff ?a ?b) \<le> 5000" using near by (simp add: word_le_nat_alt not_less)
  then have "unat ?a \<le> unat ?b + 5000" "unat ?b \<le> unat ?a + 5000"
    by (auto simp: abs_diff_def word_le_nat_alt unat_sub not_le split: if_splits)
  then have "\<bar>int (unat ?a) - int (unat ?b)\<bar> \<le> 5000" by arith
  with live sig argv show ?thesis by (auto simp: drop_Suc)
qed

definition survivor :: running_marker where
  "survivor = \<lparr>rm_pid = 4711, rm_pgid = 4711, rm_spawn_unix_ms = 1700000002000, rm_argv = [''/usr/bin/python3'', ''app.py'']\<rparr>"

definition survivor_table :: proc_table where
  "survivor_table = \<lparr>pt_pgid = (\<lambda>p. if p = 4711 then Some 4711 else None),
     pt_info = (\<lambda>p. if p = 4711 then Some (1700000000, [''/opt/python'', ''app.py'']) else None)\<rparr>"

theorem reconcile_signals_only_survivor_witness:
  "pt_pgid survivor_table (rm_pid survivor) = Some 4711 \<and> sint (4711 :: i32) > 1"
proof -
  have m: "marker_identity_matches survivor_table survivor"
    by (simp add: marker_identity_matches_def survivor_table_def survivor_def abs_diff_def saturating_mul_def)
  have "(4711, SigTerm) \<in> set (reconcile_marker 1 survivor_table survivor)"
    using m by (simp add: reconcile_marker_def signal_group_def survivor_def)
  from reconcile_signals_only_survivor [OF this] show ?thesis by simp
qed

end
