(* ===== verification/Sync.thy ===== *)
theory Sync
  imports Supervisor
begin

text \<open>
  Synchronising configs with the supervisor, \<open>portman-daemon/src/supervisor.rs\<close>: \<open>sync\<close> and its
  managed-broker form, \<open>up\<close>, \<open>down\<close>, \<open>forget\<close>, shutdown and restore. One
  request runs at a time here; what runner tasks write while a request waits for one of them to
  end is a script of slot writes.
\<close>

section \<open>What runner tasks write\<close>

datatype slot_write = WState state_kind string | WSpawned running_marker | WCleared | WRestarted

fun write_slot :: "slot_write \<Rightarrow> slot \<Rightarrow> slot" where
  "write_slot (WState kind detail) sl = sl\<lparr>sl_state := kind, sl_detail := detail\<rparr>"
| "write_slot (WSpawned marker) sl = sl\<lparr>sl_running := Some marker, sl_pid := Some (rm_pid marker)\<rparr>"
| "write_slot WCleared sl = sl\<lparr>sl_running := None, sl_pid := None\<rparr>"
| "write_slot WRestarted sl = sl\<lparr>sl_restarts := sl_restarts sl + 1\<rparr>"

definition runner_writes :: "(string \<times> slot_write) list \<Rightarrow> supervisor \<Rightarrow> supervisor" where
  "runner_writes ws sv = foldl (\<lambda>sv (name, wr). update_slot name (write_slot wr) sv) sv ws"

text \<open>
  The runtime: what happens while a task is awaited, which tasks have finished, the next task
  number, and whether a watcher could be started or has ended.
\<close>

record runtime =
  rt_join :: "nat \<Rightarrow> (string \<times> slot_write) list"
  rt_finished :: "nat \<Rightarrow> bool"
  rt_fresh :: "supervisor \<Rightarrow> nat"
  rt_watch :: "service_definition \<Rightarrow> bool"
  rt_watcher_done :: "string \<Rightarrow> bool"

definition persist :: "('e, 'w) saver \<Rightarrow> supervisor \<Rightarrow> 'w \<Rightarrow> 'w" where
  "persist save sv w = snd (save (persisted_snapshot sv) w)"

definition stop_and_join :: "runtime \<Rightarrow> string \<Rightarrow> supervisor \<Rightarrow> supervisor" where
  "stop_and_join rt name sv =
     (case bt_get (sv_slots sv) name of
        None \<Rightarrow> sv
      | Some sl \<Rightarrow>
          let sv = update_slot name (\<lambda>sl. sl\<lparr>sl_desired := False, sl_watcher := False, sl_task := None\<rparr>) sv in
          (case sl_task sl of
             Some task \<Rightarrow> runner_writes (rt_join rt task) sv
           | None \<Rightarrow> set_state name StStopped [] sv))"

section \<open>Up, down and forget\<close>

definition spawn_needed :: "runtime \<Rightarrow> slot \<Rightarrow> bool" where
  "spawn_needed rt sl \<longleftrightarrow> (case sl_task sl of None \<Rightarrow> True | Some t \<Rightarrow> rt_finished rt t)"

definition start_slot :: "runtime \<Rightarrow> supervisor \<Rightarrow> string \<Rightarrow> slot \<Rightarrow> slot" where
  "start_slot rt sv name sl =
     (let sl = sl\<lparr>sl_desired := True\<rparr> in
      if spawn_needed rt sl then
        (let sl = sl\<lparr>sl_restarts := 0, sl_task := Some (rt_fresh rt sv)\<rparr> in
         if \<not> sl_watcher sl \<or> rt_watcher_done rt name
         then sl\<lparr>sl_watcher := sd_watch (sl_def sl) \<noteq> [] \<and> rt_watch rt (sl_def sl)\<rparr> else sl)
      else sl)"

definition up_one :: "route_env \<Rightarrow> runtime \<Rightarrow> supervisor \<Rightarrow> string \<Rightarrow> supervisor" where
  "up_one env rt sv name =
     (case bt_get (sv_slots sv) name of
        None \<Rightarrow> sv
      | Some sl \<Rightarrow>
          (update_slot name (start_slot rt sv name) sv)\<lparr>sv_routes := service_register env (sl_def sl) (sv_routes sv)\<rparr>)"

definition up ::
  "route_env \<Rightarrow> runtime \<Rightarrow> ('e, 'w) saver \<Rightarrow> string list \<Rightarrow> supervisor \<Rightarrow> 'w
   \<Rightarrow> ('e sup_error + string list) \<times> supervisor \<times> 'w" where
  "up env rt save names sv w =
     (if sv_managed sv then (Inl ManagedNoStart, sv, w)
      else if names = [] then (Inl NoNames, sv, w)
      else (case expand_targets sv names True of
        Inl e \<Rightarrow> (Inl e, sv, w)
      | Inr targets \<Rightarrow>
          let sv = foldl (up_one env rt) sv targets in (Inr targets, sv, persist save sv w)))"

definition deregister_slot :: "route_env \<Rightarrow> string \<Rightarrow> supervisor \<Rightarrow> supervisor" where
  "deregister_slot env name sv =
     (case bt_get (sv_slots sv) name of
        None \<Rightarrow> sv
      | Some sl \<Rightarrow> sv\<lparr>sv_routes := service_deregister env (sl_def sl) (sv_routes sv)\<rparr>)"

definition down ::
  "route_env \<Rightarrow> runtime \<Rightarrow> ('e, 'w) saver \<Rightarrow> string list \<Rightarrow> supervisor \<Rightarrow> 'w
   \<Rightarrow> ('e sup_error + string list) \<times> supervisor \<times> 'w" where
  "down env rt save names sv w =
     (if names = [] then (Inl NoNames, sv, w)
      else (case expand_targets sv names False of
        Inl e \<Rightarrow> (Inl e, sv, w)
      | Inr targets \<Rightarrow>
          let sv = foldl (\<lambda>sv name. deregister_slot env name (stop_and_join rt name sv)) sv targets
          in (Inr targets, sv, persist save sv w)))"

definition drop_slot :: "route_env \<Rightarrow> string \<Rightarrow> supervisor \<Rightarrow> supervisor" where
  "drop_slot env name sv =
     (let sv = deregister_slot env name sv in sv\<lparr>sv_slots := bt_remove name (sv_slots sv)\<rparr>)"

definition dangling_dep :: "string list \<Rightarrow> (string \<times> slot) list \<Rightarrow> (string \<times> string) option" where
  "dangling_dep targets slots =
     (case filter (\<lambda>(name, sl). name \<notin> set targets \<and> (\<exists>d\<in>set (sd_depends (sl_def sl)). d \<in> set targets)) slots of
        [] \<Rightarrow> None
      | (name, sl) # _ \<Rightarrow>
          map_option (\<lambda>dep. (dep, name)) (List.find (\<lambda>d. d \<in> set targets) (sd_depends (sl_def sl))))"

definition forget ::
  "route_env \<Rightarrow> runtime \<Rightarrow> ('e, 'w) saver \<Rightarrow> string list \<Rightarrow> supervisor \<Rightarrow> 'w
   \<Rightarrow> ('e sup_error + string list) \<times> supervisor \<times> 'w" where
  "forget env rt save names sv w =
     (if names = [] then (Inl NoNames, sv, w)
      else (case expand_targets sv names False of
        Inl e \<Rightarrow> (Inl e, sv, w)
      | Inr targets \<Rightarrow>
          (case dangling_dep targets (sv_slots sv) of
             Some (dep, name) \<Rightarrow> (Inl (StillNeeded dep name), sv, w)
           | None \<Rightarrow>
               let sv = foldl (\<lambda>sv name. stop_and_join rt name sv) sv targets;
                   sv = foldl (\<lambda>sv name. drop_slot env name sv) sv targets
               in (Inr targets, sv, persist save sv w))))"

text \<open>Shutdown takes every task handle before it awaits any.\<close>

definition shutdown_all :: "runtime \<Rightarrow> ('e, 'w) saver \<Rightarrow> supervisor \<Rightarrow> 'w \<Rightarrow> supervisor \<times> 'w" where
  "shutdown_all rt save sv w =
     (let sv = sv\<lparr>sv_shutdown := True\<rparr>;
          tasks = concat (map (\<lambda>(_, sl). case sl_task sl of Some t \<Rightarrow> [t] | None \<Rightarrow> []) (sv_slots sv));
          sv = sv\<lparr>sv_slots := map (\<lambda>(name, sl). (name, sl\<lparr>sl_task := None\<rparr>)) (sv_slots sv)\<rparr>;
          sv = foldl (\<lambda>sv t. runner_writes (rt_join rt t) sv) sv tasks
      in (sv, persist save sv w))"

section \<open>Planning a sync\<close>

record sync_report =
  rp_added :: "string list"
  rp_updated :: "string list"
  rp_removed :: "string list"
  rp_unchanged :: "string list"

definition empty_report :: sync_report where
  "empty_report = \<lparr>rp_added = [], rp_updated = [], rp_removed = [], rp_unchanged = []\<rparr>"

record sync_plan =
  pl_report :: sync_report
  pl_stop :: "string list"
  pl_restart :: "string list"

definition classify_service ::
  "(string, slot) btree \<Rightarrow> path \<Rightarrow> sync_plan \<Rightarrow> service_definition \<Rightarrow> 'e sup_error + sync_plan" where
  "classify_service slots root p sd =
     (let name = sd_name sd; r = pl_report p in
      case bt_get slots name of
        Some sl \<Rightarrow>
          if sl_root sl \<noteq> root then Inl (NameTakenBy name (sl_root sl))
          else if sl_def sl \<noteq> sd then
            Inr (p\<lparr>pl_report := r\<lparr>rp_updated := rp_updated r @ [name]\<rparr>, pl_stop := pl_stop p @ [name],
                   pl_restart := pl_restart p @ (if sl_desired sl then [name] else [])\<rparr>)
          else Inr (p\<lparr>pl_report := r\<lparr>rp_unchanged := rp_unchanged r @ [name]\<rparr>\<rparr>)
      | None \<Rightarrow> Inr (p\<lparr>pl_report := r\<lparr>rp_added := rp_added r @ [name]\<rparr>\<rparr>))"

definition gone_services :: "(string, slot) btree \<Rightarrow> path \<Rightarrow> service_definition list \<Rightarrow> string list" where
  "gone_services slots root services =
     map fst (filter (\<lambda>(name, sl). sl_root sl = root \<and> name \<notin> set (map sd_name services)) slots)"

definition plan_sync ::
  "(string, slot) btree \<Rightarrow> path \<Rightarrow> service_definition list \<Rightarrow> 'e sup_error + sync_plan" where
  "plan_sync slots root services =
     and_then (fold_res (classify_service slots root)
         \<lparr>pl_report = empty_report, pl_stop = [], pl_restart = []\<rparr> services) (\<lambda>p.
       let gone = gone_services slots root services; r = pl_report p in
       Inr (p\<lparr>pl_report := r\<lparr>rp_removed := rp_removed r @ gone\<rparr>, pl_stop := pl_stop p @ gone\<rparr>))"

section \<open>Blocks and egress routes of a root\<close>

definition check_block_owner ::
  "path \<Rightarrow> (string, persisted_secrets) btree \<Rightarrow> string \<Rightarrow> 'e sup_error + unit" where
  "check_block_owner root blocks name =
     (case bt_get blocks name of
        Some held \<Rightarrow> ensure (psc_root held = Some root) (BlockTakenBy name (psc_root held))
      | None \<Rightarrow> Inr ())"

definition block_of_egress ::
  "path \<Rightarrow> (string, secrets_provider_config) btree \<Rightarrow> (string, persisted_secrets) btree \<Rightarrow> string
   \<Rightarrow> secrets_provider_config option" where
  "block_of_egress root secrets blocks name =
     or_opt (bt_get secrets name)
       (case bt_get blocks name of
          Some b \<Rightarrow> if psc_root b \<noteq> Some root then Some (psc_config b) else None
        | None \<Rightarrow> None)"

definition check_egress_ref ::
  "path \<Rightarrow> (string, secrets_provider_config) btree \<Rightarrow> (string, persisted_secrets) btree
   \<Rightarrow> string \<times> egress_route \<Rightarrow> 'e sup_error + unit" where
  "check_egress_ref root secrets blocks nr =
     (let spec = er_spec (snd nr) in
      case block_of_egress root secrets blocks (es_secrets spec) of
        None \<Rightarrow> Inl (EgressUnknownBlock (fst nr) (es_secrets spec))
      | Some block \<Rightarrow> map_err (EgressKey (fst nr)) (egress_key_allowed (es_secrets spec) block (es_key spec)))"

definition check_egress_owner ::
  "path \<Rightarrow> (string, persisted_egress) btree \<Rightarrow> string \<Rightarrow> 'e sup_error + unit" where
  "check_egress_owner root routes name =
     (case bt_get routes name of
        Some held \<Rightarrow> ensure (peg_root held = root) (EgressNameTakenBy name (peg_root held))
      | None \<Rightarrow> Inr ())"

definition check_blocks_routes ::
  "path \<Rightarrow> (string, secrets_provider_config) btree \<Rightarrow> (string, egress_route) btree
   \<Rightarrow> (string, persisted_secrets) btree \<Rightarrow> (string, persisted_egress) btree \<Rightarrow> 'e sup_error + unit" where
  "check_blocks_routes root secrets egress blocks routes =
     and_then (for_each (check_block_owner root blocks) (map fst secrets)) (\<lambda>_.
     and_then (for_each (check_egress_ref root secrets blocks) egress) (\<lambda>_.
       for_each (check_egress_owner root routes) (map fst egress)))"

definition replace_blocks ::
  "path \<Rightarrow> (string, secrets_provider_config) btree \<Rightarrow> (string, persisted_secrets) btree
   \<Rightarrow> (string, persisted_secrets) btree" where
  "replace_blocks root secrets blocks =
     bt_extend (bt_retain (\<lambda>_ b. psc_root b \<noteq> Some root) blocks)
       (map (\<lambda>(name, config). (name, \<lparr>psc_root = Some root, psc_config = config\<rparr>)) secrets)"

definition dropped_routes ::
  "path \<Rightarrow> (string, egress_route) btree \<Rightarrow> (string, persisted_egress) btree \<Rightarrow> egress_route list" where
  "dropped_routes root egress routes =
     map (\<lambda>(_, r). peg_route r) (filter (\<lambda>(name, r). peg_root r = root \<and> \<not> bt_contains egress name) routes)"

definition kept_routes ::
  "path \<Rightarrow> (string, egress_route) btree \<Rightarrow> (string, persisted_egress) btree \<Rightarrow> (string, persisted_egress) btree" where
  "kept_routes root egress routes = bt_retain (\<lambda>name r. peg_root r \<noteq> root \<or> bt_contains egress name) routes"

text \<open>One turn of the claiming loop: the routes so far and the hosts to release.\<close>

definition claim_route ::
  "path \<Rightarrow> (string, persisted_egress) btree \<times> egress_route list \<Rightarrow> string \<times> egress_route
   \<Rightarrow> (string, persisted_egress) btree \<times> egress_route list" where
  "claim_route root st nr =
     (case (st, nr) of ((routes, release), (name, route)) \<Rightarrow>
        (bt_insert name \<lparr>peg_root = root, peg_route = route\<rparr> routes,
         case bt_get routes name of
           Some existing \<Rightarrow> if er_host (peg_route existing) \<noteq> er_host route then release @ [peg_route existing] else release
         | None \<Rightarrow> release))"

definition claim_routes ::
  "path \<Rightarrow> (string, egress_route) btree \<Rightarrow> (string, persisted_egress) btree
   \<Rightarrow> (string, persisted_egress) btree \<times> egress_route list" where
  "claim_routes root egress routes = foldl (claim_route root) (kept_routes root egress routes, []) egress"

text \<open>Registry effects: dropped routes and moved hosts go before the new set comes.\<close>

definition reroute_egress ::
  "route_env \<Rightarrow> egress_route list \<Rightarrow> egress_route list \<Rightarrow> egress_route list \<Rightarrow> route_world \<Rightarrow> route_world" where
  "reroute_egress env removed release new rw =
     foldl (\<lambda>rw r. egress_register env r rw)
       (foldl (\<lambda>rw r. egress_deregister env r rw) (foldl (\<lambda>rw r. egress_deregister env r rw) rw removed) release) new"

section \<open>Sync\<close>

definition install_def :: "route_env \<Rightarrow> path \<Rightarrow> supervisor \<Rightarrow> service_definition \<Rightarrow> supervisor" where
  "install_def env root sv sd =
     (case bt_get (sv_slots sv) (sd_name sd) of
        Some sl \<Rightarrow>
          let sv = (if sd_host (sl_def sl) \<noteq> sd_host sd
                    then sv\<lparr>sv_routes := service_deregister env (sl_def sl) (sv_routes sv)\<rparr> else sv)
          in update_slot (sd_name sd) (\<lambda>sl. sl\<lparr>sl_def := sd\<rparr>) sv
      | None \<Rightarrow> sv\<lparr>sv_slots := bt_insert (sd_name sd) (slot_new root sd False) (sv_slots sv)\<rparr>)"

fun restart_all ::
  "route_env \<Rightarrow> runtime \<Rightarrow> ('e, 'w) saver \<Rightarrow> string list \<Rightarrow> supervisor \<Rightarrow> 'w \<Rightarrow> ('e sup_error + unit) \<times> supervisor \<times> 'w" where
  "restart_all env rt save [] sv w = (Inr (), sv, w)"
| "restart_all env rt save (name # names) sv w =
     (case up env rt save [name] sv w of
        (Inl e, sv, w) \<Rightarrow> (Inl e, sv, w)
      | (Inr _, sv, w) \<Rightarrow> restart_all env rt save names sv w)"

text \<open>Everything after the checks and before the restarts.\<close>

definition sync_commit ::
  "route_env \<Rightarrow> runtime \<Rightarrow> path \<Rightarrow> service_definition list \<Rightarrow> (string, secrets_provider_config) btree
   \<Rightarrow> (string, egress_route) btree \<Rightarrow> sync_plan \<Rightarrow> supervisor \<Rightarrow> supervisor" where
  "sync_commit env rt root services secrets egress plan sv =
     (let removed = dropped_routes root egress (sv_egress sv);
          (routes, release) = claim_routes root egress (sv_egress sv);
          sv = sv\<lparr>sv_secrets := replace_blocks root secrets (sv_secrets sv), sv_egress := routes,
                  sv_routes := reroute_egress env removed release (map snd egress) (sv_routes sv), sv_cache := []\<rparr>;
          sv = foldl (\<lambda>sv name. stop_and_join rt name sv) sv (pl_stop plan);
          sv = foldl (\<lambda>sv name. drop_slot env name sv) sv (rp_removed (pl_report plan))
      in foldl (install_def env root) sv services)"

definition require_tokens :: "(string, egress_route) btree \<Rightarrow> (string, egress_route) btree" where
  "require_tokens egress =
     map (\<lambda>(name, r). (name, r\<lparr>er_spec := (er_spec r)\<lparr>es_require_caller_token := True\<rparr>\<rparr>)) egress"

subsection \<open>The managed broker\<close>

definition check_managed_ref ::
  "path \<Rightarrow> (string, persisted_secrets) btree \<Rightarrow> (string, persisted_egress) btree \<Rightarrow> string \<times> egress_route
   \<Rightarrow> 'e sup_error + unit" where
  "check_managed_ref root blocks routes nr =
     (let spec = er_spec (snd nr) in
      case bt_get blocks (es_secrets spec) of
        None \<Rightarrow> Inl (EgressUnknownBlock (fst nr) (es_secrets spec))
      | Some block \<Rightarrow>
          and_then (map_err (EgressKey (fst nr)) (egress_key_allowed (es_secrets spec) (psc_config block) (es_key spec)))
            (\<lambda>_. ensure (\<not> list_ex (\<lambda>(_, held). peg_root held \<noteq> root \<and> er_host (peg_route held) = er_host (snd nr)) routes)
              (EgressHostTaken (er_host (snd nr)))))"

definition sync_managed_routes ::
  "route_env \<Rightarrow> ('e, 'w) saver \<Rightarrow> path \<Rightarrow> (string, secrets_provider_config) btree \<Rightarrow> (string, egress_route) btree
   \<Rightarrow> supervisor \<Rightarrow> 'w \<Rightarrow> ('e sup_error + unit) \<times> supervisor \<times> 'w" where
  "sync_managed_routes env save root secrets egress sv w =
     (let blocks = replace_blocks root secrets (sv_secrets sv);
          check = and_then (for_each (check_block_owner root (sv_secrets sv)) (map fst secrets)) (\<lambda>_.
            and_then (for_each (check_egress_owner root (sv_egress sv)) (map fst egress)) (\<lambda>_.
              for_each (check_managed_ref root blocks (sv_egress sv)) egress))
      in case check of
        Inl e \<Rightarrow> (Inl e, sv, w)
      | Inr _ \<Rightarrow>
          let removed = map (\<lambda>(_, r). peg_route r) (filter (\<lambda>(_, r). peg_root r = root) (sv_egress sv));
              routes = bt_extend (bt_retain (\<lambda>_ r. peg_root r \<noteq> root) (sv_egress sv))
                (map (\<lambda>(name, route). (name, \<lparr>peg_root = root, peg_route = route\<rparr>)) egress)
          in (case save_persisted save ((persisted_snapshot sv)\<lparr>ps_secrets := blocks, ps_egress := routes\<rparr>) w of
            (Inl e, w) \<Rightarrow> (Inl e, sv, w)
          | (Inr _, w) \<Rightarrow>
              (Inr (), sv\<lparr>sv_secrets := blocks, sv_egress := routes,
                 sv_routes := reroute_egress env removed [] (map snd egress) (sv_routes sv), sv_cache := []\<rparr>, w)))"

definition sync ::
  "route_env \<Rightarrow> runtime \<Rightarrow> ('e, 'w) saver \<Rightarrow> path \<Rightarrow> service_definition list
   \<Rightarrow> (string, secrets_provider_config) btree \<Rightarrow> (string, egress_route) btree \<Rightarrow> supervisor \<Rightarrow> 'w
   \<Rightarrow> ('e sup_error + sync_report) \<times> supervisor \<times> 'w" where
  "sync env rt save root services secrets egress sv w =
     (if sv_managed sv \<and> services \<noteq> [] then (Inl ManagedNoServices, sv, w)
      else if sv_managed sv then
        (case sync_managed_routes env save root secrets (require_tokens egress) sv w of
           (r, sv, w) \<Rightarrow> (and_then r (\<lambda>_. Inr empty_report), sv, w))
      else
        (case and_then (plan_sync (sv_slots sv) root services) (\<lambda>plan.
              and_then (check_blocks_routes root secrets egress (sv_secrets sv) (sv_egress sv)) (\<lambda>_. Inr plan)) of
           Inl e \<Rightarrow> (Inl e, sv, w)
         | Inr plan \<Rightarrow>
             let sv = sync_commit env rt root services secrets egress plan sv; w = persist save sv w in
             (case restart_all env rt save (pl_restart plan) sv w of
                (Inl e, sv, w) \<Rightarrow> (Inl e, sv, w)
              | (Inr _, sv, w) \<Rightarrow> (Inr (pl_report plan), sv, w))))"

section \<open>Restore\<close>

definition restore_slots :: "bool \<Rightarrow> (string, persisted_service) btree \<Rightarrow> (string, slot) btree \<Rightarrow> (string, slot) btree" where
  "restore_slots autostart services slots =
     bt_extend slots (map (\<lambda>(name, p).
       (name, slot_new (psv_root p) (psv_definition p) (psv_desired p \<and> autostart))) services)"

definition restore_markers :: "(string, persisted_service) btree \<Rightarrow> running_marker list" where
  "restore_markers services =
     concat (map (\<lambda>(_, p). case psv_running p of Some m \<Rightarrow> [m] | None \<Rightarrow> []) services)"

definition require_persisted_tokens :: "persisted \<Rightarrow> persisted" where
  "require_persisted_tokens p =
     p\<lparr>ps_egress := map (\<lambda>(name, e). (name,
        e\<lparr>peg_route := (peg_route e)\<lparr>er_spec := (er_spec (peg_route e))\<lparr>es_require_caller_token := True\<rparr>\<rparr>\<rparr>)) (ps_egress p)\<rparr>"

text \<open>
  \<open>loaded\<close> is the outcome of reading the state file; the signals sent to survivors are part of
  the result.
\<close>

definition restore_with ::
  "route_env \<Rightarrow> runtime \<Rightarrow> ('e, 'w) saver \<Rightarrow> i32 \<Rightarrow> proc_table \<Rightarrow> persisted option \<Rightarrow> bool \<Rightarrow> supervisor \<Rightarrow> 'w
   \<Rightarrow> ('e sup_error + unit) \<times> (i32 \<times> signal) list \<times> supervisor \<times> 'w" where
  "restore_with env rt save own pt loaded autostart sv w =
     (case loaded of
        None \<Rightarrow> (Inl LoadFailed, [], sv, w)
      | Some p \<Rightarrow>
          if sv_managed sv \<and> ps_services p \<noteq> [] then (Inl ManagedStateHasServices, [], sv, w)
          else
            let p = (if sv_managed sv then require_persisted_tokens p else p) in
            (case (if sv_managed sv then save_persisted save p w else (Inr (), w)) of
               (Inl e, w) \<Rightarrow> (Inl e, [], sv, w)
             | (Inr _, w) \<Rightarrow>
                 let sv = sv\<lparr>sv_slots := restore_slots autostart (ps_services p) (sv_slots sv),
                        sv_secrets := bt_extend (sv_secrets sv) (ps_secrets p),
                        sv_routes := foldl (\<lambda>rw (_, e). egress_register env (peg_route e) rw) (sv_routes sv) (ps_egress p),
                        sv_egress := bt_extend (sv_egress sv) (ps_egress p)\<rparr>;
                     sigs = concat (map (reconcile_marker own pt) (restore_markers (ps_services p)));
                     w = persist save sv w;
                     desired = map fst (filter (\<lambda>(_, sl). sl_desired sl) (sv_slots sv))
                 in if desired = [] then (Inr (), sigs, sv, w)
                    else (case up env rt save desired sv w of
                      (Inl e, sv, w) \<Rightarrow> (Inl e, sigs, sv, w)
                    | (Inr _, sv, w) \<Rightarrow> (Inr (), sigs, sv, w))))"

end
