(* ===== verification/Route_Inv.thy ===== *)
theory Route_Inv
  imports Sync
begin

text \<open>
  What the supervisor's operations keep true of the routes. A predicate that every service route
  change preserves (locale \<open>service_routes\<close>) is preserved by starting, stopping and forgetting
  services; one that egress route changes preserve as well (locale \<open>all_routes\<close>) is preserved
  by sync and restore.
\<close>

section \<open>Folds\<close>

text \<open>A fold establishes what one of its steps establishes and every step keeps.\<close>

lemma foldl_inv: "P s \<Longrightarrow> (\<And>s x. x \<in> set xs \<Longrightarrow> P s \<Longrightarrow> P (f s x)) \<Longrightarrow> P (foldl f s xs)"
  by (induction xs arbitrary: s) auto

lemma foldl_keeps: "(\<And>s x. p (f s x) = p s) \<Longrightarrow> p (foldl f s xs) = p s"
  by (induction xs arbitrary: s) auto

section \<open>Operations that touch no route\<close>

lemma update_slot_routes [simp]: "sv_routes (update_slot n f sv) = sv_routes sv"
  by (simp add: update_slot_def split: option.split)

lemma runner_writes_routes [simp]: "sv_routes (runner_writes ws sv) = sv_routes sv"
  unfolding runner_writes_def by (rule foldl_keeps) (simp split: prod.split)

lemma stop_and_join_routes [simp]: "sv_routes (stop_and_join rt name sv) = sv_routes sv"
  by (simp add: stop_and_join_def set_state_def Let_def split: option.split)

lemma stop_all_routes [simp]: "sv_routes (foldl (\<lambda>sv name. stop_and_join rt name sv) sv names) = sv_routes sv"
  by (rule foldl_keeps) simp

lemma shutdown_all_routes: "shutdown_all rt save sv w = (sv', w') \<Longrightarrow> sv_routes sv' = sv_routes sv"
  using foldl_keeps [of sv_routes "\<lambda>sv t. runner_writes (rt_join rt t) sv"] by (auto simp: shutdown_all_def Let_def)

section \<open>Service routes\<close>

locale service_routes =
  fixes env :: route_env and P :: "route_world \<Rightarrow> bool"
  assumes keeps_register: "P rw \<Longrightarrow> P (service_register env sd rw)"
    and keeps_deregister: "P rw \<Longrightarrow> P (service_deregister env sd rw)"
begin

lemma keeps_deregister_slot: "P (sv_routes sv) \<Longrightarrow> P (sv_routes (deregister_slot env name sv))"
  by (simp add: deregister_slot_def keeps_deregister split: option.split)

lemma keeps_drop_slot: "P (sv_routes sv) \<Longrightarrow> P (sv_routes (drop_slot env name sv))"
  by (simp add: drop_slot_def Let_def keeps_deregister_slot)

lemma keeps_install_def: "P (sv_routes sv) \<Longrightarrow> P (sv_routes (install_def env root sv sd))"
  by (simp add: install_def_def Let_def keeps_deregister split: option.split)

lemma keeps_up_one: "P (sv_routes sv) \<Longrightarrow> P (sv_routes (up_one env rt sv name))"
  by (simp add: up_one_def keeps_register split: option.split)

lemma keeps_up:
  assumes "P (sv_routes sv)" and "up env rt save names sv w = (r, sv', w')"
  shows "P (sv_routes sv')"
proof -
  have "P (sv_routes (foldl (up_one env rt) sv ts))" for ts
    by (rule foldl_inv) (use assms(1) keeps_up_one in blast)+
  with assms show ?thesis by (auto simp: up_def Let_def split: if_splits sum.splits)
qed

lemma keeps_down:
  assumes "P (sv_routes sv)" and "down env rt save names sv w = (r, sv', w')"
  shows "P (sv_routes sv')"
proof -
  have "P (sv_routes (foldl (\<lambda>sv name. deregister_slot env name (stop_and_join rt name sv)) sv ts))" for ts
    by (rule foldl_inv) (use assms(1) in \<open>simp_all add: keeps_deregister_slot\<close>)
  with assms show ?thesis by (auto simp: down_def Let_def split: if_splits sum.splits)
qed

lemma keeps_drops: "P (sv_routes sv) \<Longrightarrow> P (sv_routes (foldl (\<lambda>sv name. drop_slot env name sv) sv names))"
  by (rule foldl_inv) (simp_all add: keeps_drop_slot)

lemma keeps_forget:
  assumes "P (sv_routes sv)" and "forget env rt save names sv w = (r, sv', w')"
  shows "P (sv_routes sv')"
proof -
  have "P (sv_routes (foldl (\<lambda>sv name. drop_slot env name sv) (foldl (\<lambda>sv name. stop_and_join rt name sv) sv ts) ts))" for ts
    by (rule keeps_drops) (simp add: assms(1))
  with assms show ?thesis by (auto simp: forget_def Let_def split: if_splits sum.splits option.splits)
qed

lemma keeps_restart_all:
  "restart_all env rt save names sv w = (r, sv', w') \<Longrightarrow> P (sv_routes sv) \<Longrightarrow> P (sv_routes sv')"
proof (induction names arbitrary: sv w)
  case (Cons name names)
  obtain r1 sv1 w1 where u: "up env rt save [name] sv w = (r1, sv1, w1)" by (metis prod_cases3)
  note f = keeps_up [OF Cons.prems(2) u]
  show ?case
  proof (cases r1)
    case (Inl e)
    with Cons.prems(1) u f show ?thesis by simp
  next
    case (Inr x)
    with Cons.prems(1) u have "restart_all env rt save names sv1 w1 = (r, sv', w')" by simp
    with Cons.IH f show ?thesis by blast
  qed
qed simp

end

section \<open>Service and egress routes\<close>

locale all_routes = service_routes +
  assumes keeps_egress_register: "P rw \<Longrightarrow> P (egress_register env r rw)"
    and keeps_egress_deregister: "P rw \<Longrightarrow> P (egress_deregister env r rw)"
begin

lemma keeps_reroute: "P rw \<Longrightarrow> P (reroute_egress env removed release new rw)"
  unfolding reroute_egress_def
  by (intro foldl_inv [where P = P] keeps_egress_register keeps_egress_deregister)

lemma keeps_commit:
  assumes "P (sv_routes sv)"
  shows "P (sv_routes (sync_commit env rt root services secrets egress plan sv))"
proof -
  obtain routes release where cl: "claim_routes root egress (sv_egress sv) = (routes, release)" by fastforce
  have drops: "P (sv_routes (foldl (\<lambda>sv name. drop_slot env name sv)
      (foldl (\<lambda>sv name. stop_and_join rt name sv) sv1 stop) gone))" if "P (sv_routes sv1)" for sv1 stop gone
    by (rule keeps_drops) (simp add: that)
  show ?thesis
    unfolding sync_commit_def cl Let_def prod.case
    by (rule foldl_inv) (use assms in \<open>simp_all add: drops keeps_install_def keeps_reroute\<close>)
qed

lemma keeps_sync:
  assumes "P (sv_routes sv)" and "sync env rt save root services secrets egress sv w = (r, sv', w')"
  shows "P (sv_routes sv')"
proof (cases "sv_managed sv")
  case True
  with assms show ?thesis
    by (auto simp: sync_def sync_managed_routes_def Let_def keeps_reroute split: if_splits sum.splits prod.splits)
next
  case False
  obtain plan where plan: "\<And>plan. P (sv_routes (sync_commit env rt root services secrets egress plan sv))"
    using keeps_commit [OF assms(1)] by blast
  with assms False keeps_restart_all [where names = "pl_restart _"] show ?thesis
    by (fastforce simp: sync_def Let_def split: sum.splits prod.splits)
qed

lemma keeps_restore:
  assumes "P (sv_routes sv)" and "restore_with env rt save own pt loaded autostart sv w = (r, sigs, sv', w')"
  shows "P (sv_routes sv')"
proof -
  have routes: "P (foldl (\<lambda>rw (_, e). egress_register env (peg_route e) rw) (sv_routes sv) es)" for es
    by (rule foldl_inv) (use assms(1) in \<open>auto simp: keeps_egress_register\<close>)
  have up: "up env rt save names sv1 w1 = (r1, sv2, w2) \<Longrightarrow> P (sv_routes sv1) \<Longrightarrow> P (sv_routes sv2)"
    for names sv1 w1 r1 sv2 w2 by (rule keeps_up)
  show ?thesis
    using assms unfolding restore_with_def Let_def
    by (simp split: option.splits if_split_asm sum.splits prod.splits) (auto simp: routes dest: up)
qed

end

end
