(* ===== verification/Sync_Props.thy ===== *)
theory Sync_Props
  imports Route_Inv
begin

text \<open>
  What a sync establishes: refusals change nothing, a success replaces exactly what the synced
  root owns, the references between routes and blocks hold afterwards, and released hosts stop
  resolving. The managed broker's form also keeps memory and file together.
\<close>

section \<open>What the runtime leaves alone\<close>

definition slot_view :: "supervisor \<Rightarrow> string \<Rightarrow> (path \<times> service_definition) option" where
  "slot_view sv name = map_option (\<lambda>sl. (sl_root sl, sl_def sl)) (bt_get (sv_slots sv) name)"

definition sv_ok :: "supervisor \<Rightarrow> bool" where
  "sv_ok sv \<longleftrightarrow> bt_ok (sv_slots sv) \<and> bt_ok (sv_secrets sv) \<and> bt_ok (sv_egress sv) \<and> routes_ok (sv_routes sv)"

text \<open>A change of slot statuses and routes only.\<close>

definition same_config :: "supervisor \<Rightarrow> supervisor \<Rightarrow> bool" where
  "same_config sv sv' \<longleftrightarrow>
     sv_ok sv' \<and> slot_view sv' = slot_view sv \<and> sv_secrets sv' = sv_secrets sv \<and> sv_egress sv' = sv_egress sv \<and>
     sv_cache sv' = sv_cache sv \<and> sv_managed sv' = sv_managed sv"

lemma same_config_refl: "sv_ok sv \<Longrightarrow> same_config sv sv"
  by (simp add: same_config_def)

lemma same_config_trans: "same_config a b \<Longrightarrow> same_config b c \<Longrightarrow> same_config a c"
  by (simp add: same_config_def)

lemma same_config_ok: "same_config sv sv' \<Longrightarrow> sv_ok sv'"
  by (simp add: same_config_def)

lemma same_config_update_slot:
  assumes "sv_ok sv" and "\<And>sl. sl_root (f sl) = sl_root sl \<and> sl_def (f sl) = sl_def sl"
  shows "same_config sv (update_slot name f sv)"
  using assms by (auto simp: same_config_def update_slot_def sv_ok_def slot_view_def fun_eq_iff split: option.split)

lemma same_config_routes:
  assumes "sv_ok sv" and "routes_ok rw"
  shows "same_config sv (sv\<lparr>sv_routes := rw\<rparr>)"
  using assms by (auto simp: same_config_def sv_ok_def slot_view_def)

lemma write_slot_config: "sl_root (write_slot wr sl) = sl_root sl \<and> sl_def (write_slot wr sl) = sl_def sl"
  by (cases wr) auto

lemma same_config_foldl:
  assumes "sv_ok sv" and "\<And>sv x. sv_ok sv \<Longrightarrow> same_config sv (f sv x)"
  shows "same_config sv (foldl f sv xs)"
  using assms
proof (induction xs arbitrary: sv)
  case (Cons x xs)
  have "same_config sv (f sv x)" using Cons.prems by blast
  moreover have "same_config (f sv x) (foldl f (f sv x) xs)"
    by (rule Cons.IH) (use Cons.prems same_config_ok in blast)+
  ultimately show ?case by (auto intro: same_config_trans)
qed (simp add: same_config_refl)

lemma same_config_runner_writes: "sv_ok sv \<Longrightarrow> same_config sv (runner_writes ws sv)"
  unfolding runner_writes_def
  by (rule same_config_foldl) (auto intro: same_config_update_slot simp: write_slot_config split: prod.split)

lemma same_config_stop_and_join: "sv_ok sv \<Longrightarrow> same_config sv (stop_and_join rt name sv)"
proof -
  assume ok: "sv_ok sv"
  let ?sv = "update_slot name (\<lambda>sl. sl\<lparr>sl_desired := False, sl_watcher := False, sl_task := None\<rparr>) sv"
  have a: "same_config sv ?sv" using ok by (intro same_config_update_slot) auto
  have b: "same_config ?sv (set_state name StStopped [] ?sv)"
    unfolding set_state_def using same_config_ok [OF a] by (intro same_config_update_slot) auto
  show ?thesis
    using same_config_refl [OF ok] same_config_trans [OF a b]
      same_config_trans [OF a same_config_runner_writes [OF same_config_ok [OF a]]]
    by (auto simp: stop_and_join_def Let_def split: option.split)
qed

lemma start_slot_config: "sl_root (start_slot rt sv n sl) = sl_root sl \<and> sl_def (start_slot rt sv n sl) = sl_def sl"
  by (simp add: start_slot_def Let_def)

lemma same_config_up_one: "sv_ok sv \<Longrightarrow> same_config sv (up_one env rt sv name)"
proof -
  assume ok: "sv_ok sv"
  have a: "same_config sv (update_slot name (start_slot rt sv name) sv)"
    by (rule same_config_update_slot [OF ok start_slot_config])
  have "routes_ok (service_register env d (sv_routes sv))" for d
    using ok by (simp add: sv_ok_def routes_ok_register)
  with a have "same_config sv ((update_slot name (start_slot rt sv name) sv)\<lparr>sv_routes := service_register env d (sv_routes sv)\<rparr>)" for d
    by (intro same_config_trans [OF a same_config_routes]) (auto intro: same_config_ok)
  then show ?thesis using same_config_refl [OF ok] by (simp add: up_one_def split: option.split)
qed

lemma same_config_up:
  assumes "sv_ok sv" and "up env rt save names sv w = (r, sv', w')"
  shows "same_config sv sv'"
  using assms same_config_refl [OF assms(1)] same_config_foldl [OF assms(1), of "up_one env rt"] same_config_up_one
  by (auto simp: up_def Let_def split: if_splits sum.splits)

lemma same_config_restart_all:
  "restart_all env rt save names sv w = (r, sv', w') \<Longrightarrow> sv_ok sv \<Longrightarrow> same_config sv sv'"
proof (induction env rt save names sv w rule: restart_all.induct)
  case (2 env rt save name names sv w)
  obtain r1 sv1 w1 where u: "up env rt save [name] sv w = (r1, sv1, w1)" by (metis prod_cases3)
  note c = same_config_up [OF "2.prems"(2) u]
  show ?case
  proof (cases r1)
    case (Inl e)
    with "2.prems" u c show ?thesis by simp
  next
    case (Inr x)
    with "2.prems"(1) u have "restart_all env rt save names sv1 w1 = (r, sv', w')" by simp
    then have "same_config sv1 sv'" using "2.IH" u Inr same_config_ok [OF c] by metis
    with c show ?thesis by (rule same_config_trans)
  qed
qed (simp add: same_config_refl)

section \<open>Slots after a commit\<close>

lemma drop_slot_view:
  assumes "sv_ok sv"
  shows "sv_ok (drop_slot env name sv) \<and> slot_view (drop_slot env name sv) = (slot_view sv)(name := None) \<and>
    sv_secrets (drop_slot env name sv) = sv_secrets sv \<and> sv_egress (drop_slot env name sv) = sv_egress sv \<and>
    sv_cache (drop_slot env name sv) = sv_cache sv \<and> sv_managed (drop_slot env name sv) = sv_managed sv"
  using assms
  by (auto simp: drop_slot_def deregister_slot_def Let_def sv_ok_def slot_view_def fun_eq_iff routes_ok_deregister
      split: option.split)

lemma drop_slots_view:
  "sv_ok sv \<Longrightarrow> sv_ok (foldl (\<lambda>sv name. drop_slot env name sv) sv names) \<and>
    slot_view (foldl (\<lambda>sv name. drop_slot env name sv) sv names) = (\<lambda>n. if n \<in> set names then None else slot_view sv n) \<and>
    sv_secrets (foldl (\<lambda>sv name. drop_slot env name sv) sv names) = sv_secrets sv \<and>
    sv_egress (foldl (\<lambda>sv name. drop_slot env name sv) sv names) = sv_egress sv \<and>
    sv_cache (foldl (\<lambda>sv name. drop_slot env name sv) sv names) = sv_cache sv"
proof (induction names arbitrary: sv)
  case (Cons name names)
  note d = drop_slot_view [OF Cons.prems, of env name]
  from Cons.IH [of "drop_slot env name sv"] d show ?case by (auto simp: fun_eq_iff)
qed auto

lemma install_def_view:
  assumes "sv_ok sv"
  shows "sv_ok (install_def env root sv sd) \<and>
    slot_view (install_def env root sv sd) =
      (slot_view sv)(sd_name sd := Some ((case slot_view sv (sd_name sd) of Some (r, _) \<Rightarrow> r | None \<Rightarrow> root), sd)) \<and>
    sv_secrets (install_def env root sv sd) = sv_secrets sv \<and>
    sv_egress (install_def env root sv sd) = sv_egress sv \<and> sv_cache (install_def env root sv sd) = sv_cache sv"
  using assms
  by (auto simp: install_def_def Let_def sv_ok_def slot_view_def fun_eq_iff update_slot_def routes_ok_deregister
      slot_new_def split: option.split)

definition installs :: "supervisor \<Rightarrow> supervisor \<Rightarrow> (string \<times> path \<times> service_definition) list \<Rightarrow> bool" where
  "installs sv sv' xs \<longleftrightarrow>
     sv_ok sv' \<and> slot_view sv' = slot_view sv ++ map_of (rev xs) \<and> sv_secrets sv' = sv_secrets sv \<and>
     sv_egress sv' = sv_egress sv \<and> sv_cache sv' = sv_cache sv"

lemma installs_refl: "sv_ok sv \<Longrightarrow> installs sv sv []"
  by (simp add: installs_def)

lemma installs_trans: "installs a b xs \<Longrightarrow> installs b c ys \<Longrightarrow> installs a c (xs @ ys)"
  by (simp add: installs_def map_add_assoc)

text \<open>Only names whose slot, if any, belongs to the root.\<close>

definition installable :: "path \<Rightarrow> service_definition list \<Rightarrow> supervisor \<Rightarrow> bool" where
  "installable root services sv \<longleftrightarrow>
     (\<forall>sd r d. sd \<in> set services \<longrightarrow> slot_view sv (sd_name sd) = Some (r, d) \<longrightarrow> r = root)"

lemma install_def_installs:
  assumes "sv_ok sv" and "installable root (sd # services) sv"
  shows "installs sv (install_def env root sv sd) [(sd_name sd, (root, sd))] \<and>
    installable root services (install_def env root sv sd)"
proof -
  note i = install_def_view [OF assms(1), of env root sd]
  have "(case slot_view sv (sd_name sd) of Some (r, _) \<Rightarrow> r | None \<Rightarrow> root) = root"
    using assms(2) by (auto simp: installable_def split: option.split)
  then have v: "slot_view (install_def env root sv sd) = (slot_view sv)(sd_name sd \<mapsto> (root, sd))" using i by simp
  moreover have "installable root services (install_def env root sv sd)"
    using assms(2) by (auto simp: installable_def v)
  ultimately show ?thesis using i by (simp add: installs_def)
qed

lemma install_defs_installs:
  "sv_ok sv \<Longrightarrow> installable root services sv \<Longrightarrow>
   installs sv (foldl (install_def env root) sv services) (map (\<lambda>sd. (sd_name sd, (root, sd))) services)"
proof (induction services arbitrary: sv)
  case (Cons sd services)
  note i = install_def_installs [OF Cons.prems, of env]
  have "installs (install_def env root sv sd) (foldl (install_def env root) (install_def env root sv sd) services)
      (map (\<lambda>sd. (sd_name sd, (root, sd))) services)"
    by (rule Cons.IH) (use i in \<open>simp_all add: installs_def\<close>)
  from installs_trans [OF conjunct1 [OF i] this] show ?case by simp
qed (simp add: installs_refl)

section \<open>Plans\<close>

lemma classify_service_ok:
  assumes "classify_service slots root p sd = Inr p'"
  shows "(\<forall>sl. bt_get slots (sd_name sd) = Some sl \<longrightarrow> sl_root sl = root) \<and>
    rp_removed (pl_report p') = rp_removed (pl_report p) \<and>
    set (pl_restart p') \<subseteq> set (pl_restart p) \<union> {sd_name sd}"
  using assms by (auto simp: classify_service_def Let_def split: option.splits if_splits)

lemma classify_services_ok:
  "(fold_res (classify_service slots root) p services :: 'e sup_error + sync_plan) = Inr p' \<Longrightarrow>
   (\<forall>sd\<in>set services. \<forall>sl. bt_get slots (sd_name sd) = Some sl \<longrightarrow> sl_root sl = root) \<and>
   rp_removed (pl_report p') = rp_removed (pl_report p) \<and>
   set (pl_restart p') \<subseteq> set (pl_restart p) \<union> sd_name ` set services"
proof (induction services arbitrary: p)
  case (Cons sd services)
  then obtain p1 where p1: "(classify_service slots root p sd :: 'e sup_error + sync_plan) = Inr p1"
    and rest: "(fold_res (classify_service slots root) p1 services :: 'e sup_error + sync_plan) = Inr p'" by (auto simp: and_then_Inr)
  from classify_service_ok [OF p1] Cons.IH [OF rest] show ?case by auto
qed simp

lemma plan_sync_ok:
  assumes "(plan_sync slots root services :: 'e sup_error + sync_plan) = Inr p"
  shows "(\<forall>sd\<in>set services. \<forall>sl. bt_get slots (sd_name sd) = Some sl \<longrightarrow> sl_root sl = root) \<and>
    rp_removed (pl_report p) = gone_services slots root services \<and> set (pl_restart p) \<subseteq> sd_name ` set services"
proof -
  obtain p0 where p0: "(fold_res (classify_service slots root) \<lparr>pl_report = empty_report, pl_stop = [], pl_restart = []\<rparr>
      services :: 'e sup_error + sync_plan) = Inr p0"
    and p: "p = p0\<lparr>pl_report := (pl_report p0)\<lparr>rp_removed := rp_removed (pl_report p0) @ gone_services slots root services\<rparr>,
      pl_stop := pl_stop p0 @ gone_services slots root services\<rparr>"
    using assms by (auto simp: plan_sync_def and_then_Inr Let_def)
  from classify_services_ok [OF p0] show ?thesis by (auto simp: p empty_report_def)
qed

section \<open>Blocks and routes\<close>

text \<open>What one owner's set becomes: its own entries are replaced, all others stay.\<close>

definition replaced :: "('v \<Rightarrow> bool) \<Rightarrow> ('c \<Rightarrow> 'v) \<Rightarrow> (string \<Rightarrow> 'c option) \<Rightarrow> (string \<Rightarrow> 'v option) \<Rightarrow> string \<Rightarrow> 'v option" where
  "replaced owned wrap new old n =
     (case new n of
        Some c \<Rightarrow> Some (wrap c)
      | None \<Rightarrow> (case old n of Some v \<Rightarrow> if owned v then None else Some v | None \<Rightarrow> None))"

definition own_block :: "path \<Rightarrow> secrets_provider_config \<Rightarrow> persisted_secrets" where
  "own_block root c = \<lparr>psc_root = Some root, psc_config = c\<rparr>"

definition own_route :: "path \<Rightarrow> egress_route \<Rightarrow> persisted_egress" where
  "own_route root r = \<lparr>peg_root = root, peg_route = r\<rparr>"

lemma map_of_rev_map_bt:
  "bt_ok m \<Longrightarrow> map_of (rev (map (\<lambda>(k, v). (k, f v)) m)) k = map_option f (bt_get m k)"
proof -
  assume ok: "bt_ok m"
  have "map_of (map (\<lambda>(k, v). (k, f v)) xs) k = map_option f (map_of xs k)" for xs
    by (induction xs) auto
  then show ?thesis using map_of_rev_bt [OF ok, of k] by (simp add: rev_map)
qed

lemma bt_get_replace_blocks:
  assumes "bt_ok blocks" and "bt_ok secrets"
  shows "bt_get (replace_blocks root secrets blocks) =
    replaced (\<lambda>b. psc_root b = Some root) (own_block root) (bt_get secrets) (bt_get blocks)"
proof
  fix n
  have m: "map (\<lambda>(name, config). (name, \<lparr>psc_root = Some root, psc_config = config\<rparr>)) secrets =
      map (\<lambda>(k, v). (k, own_block root v)) secrets" by (simp add: own_block_def)
  show "bt_get (replace_blocks root secrets blocks) n =
      replaced (\<lambda>b. psc_root b = Some root) (own_block root) (bt_get secrets) (bt_get blocks) n"
    unfolding replace_blocks_def m
    using assms by (auto simp: bt_get_extend map_of_rev_map_bt bt_get_retain replaced_def split: option.split)
qed

lemma bt_ok_replace_blocks [inv_intros]: "bt_ok blocks \<Longrightarrow> bt_ok (replace_blocks root secrets blocks)"
  by (simp add: replace_blocks_def)

lemma fst_claim_routes_fold:
  "fst (foldl (claim_route root) (routes, rel) egress) =
   bt_extend routes (map (\<lambda>(k, v). (k, own_route root v)) egress)"
  by (induction egress arbitrary: routes rel) (auto simp: claim_route_def bt_extend_def own_route_def)

lemma bt_get_claim_routes:
  assumes "bt_ok routes" and "bt_ok egress"
  shows "bt_get (fst (claim_routes root egress routes)) =
    replaced (\<lambda>r. peg_root r = root) (own_route root) (bt_get egress) (bt_get routes)"
proof
  fix n
  show "bt_get (fst (claim_routes root egress routes)) n =
      replaced (\<lambda>r. peg_root r = root) (own_route root) (bt_get egress) (bt_get routes) n"
    unfolding claim_routes_def fst_claim_routes_fold kept_routes_def
    using assms by (auto simp: bt_get_extend map_of_rev_map_bt bt_get_retain replaced_def bt_contains_def split: option.split)
qed

lemma bt_ok_claim_routes [inv_intros]: "bt_ok routes \<Longrightarrow> bt_ok (fst (claim_routes root egress routes))"
  unfolding claim_routes_def fst_claim_routes_fold kept_routes_def by simp

lemma routes_ok_reroute [inv_intros]: "routes_ok rw \<Longrightarrow> routes_ok (reroute_egress env a b c rw)"
proof -
  have "routes_ok rw \<Longrightarrow> routes_ok (foldl (\<lambda>rw r. egress_register env r rw) rw c)" for rw
    by (induction c arbitrary: rw) (auto simp: routes_ok_egress)
  moreover have "routes_ok rw \<Longrightarrow> routes_ok (foldl (\<lambda>rw r. egress_deregister env r rw) rw xs)" for rw xs
    by (induction xs arbitrary: rw) (auto simp: routes_ok_egress)
  ultimately show "routes_ok rw \<Longrightarrow> ?thesis" unfolding reroute_egress_def by blast
qed

text \<open>Each route of the new set finds its block among the new blocks.\<close>

lemma block_of_egress_new:
  assumes "bt_ok blocks" and "bt_ok secrets" and "block_of_egress root secrets blocks name = Some c"
  shows "\<exists>b. bt_get (replace_blocks root secrets blocks) name = Some b \<and> psc_config b = c"
  using assms(3) unfolding bt_get_replace_blocks [OF assms(1,2)] replaced_def block_of_egress_def
  by (cases "bt_get secrets name") (auto simp: own_block_def split: option.splits if_splits)

section \<open>The sync theorem\<close>

lemma up_known:
  fixes save :: "('e, 'w) saver"
  assumes "\<not> sv_managed sv" and "slot_view sv name \<noteq> None"
  shows "\<exists>ts sv' w'. up env rt save [name] sv w = (Inr ts, sv', w')"
proof -
  have "bt_contains (sv_slots sv) name" using assms(2) by (simp add: bt_contains_def slot_view_def)
  then obtain ts where "(expand_targets sv [name] True :: 'e sup_error + string list) = Inr ts"
    by (simp add: expand_targets_def ensure_def del: close_over.simps)
  with assms(1) show ?thesis by (simp add: up_def Let_def)
qed

lemma restart_all_known:
  "sv_ok sv \<Longrightarrow> \<not> sv_managed sv \<Longrightarrow> (\<forall>n\<in>set names. slot_view sv n \<noteq> None) \<Longrightarrow>
   \<exists>sv' w'. restart_all env rt save names sv w = (Inr (), sv', w')"
proof (induction names arbitrary: sv w)
  case (Cons n names)
  then have "slot_view sv n \<noteq> None" by simp
  from up_known [OF Cons.prems(2) this, where env = env and rt = rt and save = save and w = w] obtain ts sv1 w1 where u: "up env rt save [n] sv w = (Inr ts, sv1, w1)" by blast
  have "same_config sv sv1" using Cons.prems(1) u by (rule same_config_up)
  with Cons.prems have "\<exists>sv' w'. restart_all env rt save names sv1 w1 = (Inr (), sv', w')"
    by (intro Cons.IH) (auto simp: same_config_def)
  with u show ?case by simp
qed simp

definition slots_after :: "path \<Rightarrow> service_definition list \<Rightarrow> supervisor \<Rightarrow> string \<Rightarrow> (path \<times> service_definition) option" where
  "slots_after root services sv =
     (\<lambda>n. case slot_view sv n of Some (r, sd) \<Rightarrow> if r = root then None else Some (r, sd) | None \<Rightarrow> None) ++
     map_of (rev (map (\<lambda>sd. (sd_name sd, (root, sd))) services))"

lemma gone_services_iff:
  "bt_ok slots \<Longrightarrow> n \<in> set (gone_services slots root services) \<longleftrightarrow>
   (\<exists>sl. bt_get slots n = Some sl \<and> sl_root sl = root) \<and> n \<notin> sd_name ` set services"
  by (force simp: gone_services_def bt_get_iff)

text \<open>The state a commit has reached, in the terms its outcome is stated in.\<close>

definition reached ::
  "supervisor \<Rightarrow> (string \<Rightarrow> (path \<times> service_definition) option) \<Rightarrow> (string, persisted_secrets) btree
   \<Rightarrow> (string, persisted_egress) btree \<Rightarrow> bool" where
  "reached sv v s e \<longleftrightarrow>
     sv_ok sv \<and> slot_view sv = v \<and> sv_secrets sv = s \<and> sv_egress sv = e \<and> sv_cache sv = []"

lemma reached_stop: "reached sv v s e \<Longrightarrow> reached (foldl (\<lambda>sv name. stop_and_join rt name sv) sv names) v s e"
proof -
  assume r: "reached sv v s e"
  then have "same_config sv (foldl (\<lambda>sv name. stop_and_join rt name sv) sv names)"
    by (intro same_config_foldl same_config_stop_and_join) (simp_all add: reached_def)
  with r show ?thesis by (simp add: reached_def same_config_def)
qed

lemma reached_drop:
  assumes "reached sv v s e"
  shows "reached (foldl (\<lambda>sv name. drop_slot env name sv) sv names) (\<lambda>n. if n \<in> set names then None else v n) s e"
  using assms drop_slots_view [of sv env names] by (auto simp: reached_def)

lemma reached_install:
  assumes "reached sv v s e" and "installable root services sv"
  shows "reached (foldl (install_def env root) sv services)
    (v ++ map_of (rev (map (\<lambda>sd. (sd_name sd, (root, sd))) services))) s e"
  using assms install_defs_installs [of sv root services env] by (simp add: reached_def installs_def)

text \<open>What is left of the old slots, with the new ones over it, is the outcome.\<close>

lemma slots_after_eq:
  assumes "bt_ok (sv_slots sv)"
  shows "(\<lambda>n. if n \<in> set (gone_services (sv_slots sv) root services) then None else slot_view sv n) ++
      map_of (rev (map (\<lambda>sd. (sd_name sd, (root, sd))) services)) = slots_after root services sv"
proof
  fix n
  let ?new = "map_of (rev (map (\<lambda>sd. (sd_name sd, (root, sd))) services))"
  let ?rest = "\<lambda>n. if n \<in> set (gone_services (sv_slots sv) root services) then None else slot_view sv n"
  show "(?rest ++ ?new) n = slots_after root services sv n"
  proof (cases "n \<in> sd_name ` set services")
    case True
    then have "n \<in> fst ` set (rev (map (\<lambda>sd. (sd_name sd, (root, sd))) services))" by (simp add: image_image)
    then have "?new n \<noteq> None" by (simp only: map_of_eq_None_iff not_not simp_thms)
    then show ?thesis by (auto simp: slots_after_def map_add_def split: option.split)
  next
    case False
    then have "?rest n = (case slot_view sv n of Some (r, sd) \<Rightarrow> if r = root then None else Some (r, sd) | None \<Rightarrow> None)"
      using assms by (auto simp: gone_services_iff slot_view_def split: option.splits)
    then show ?thesis by (simp only: slots_after_def map_add_def)
  qed
qed

lemma sync_commit_effect:
  assumes ok: "sv_ok sv" and p: "(plan_sync (sv_slots sv) root services :: 'e sup_error + sync_plan) = Inr plan"
  shows "reached (sync_commit env rt root services secrets egress plan sv) (slots_after root services sv)
    (replace_blocks root secrets (sv_secrets sv)) (fst (claim_routes root egress (sv_egress sv)))"
proof -
  note plan = plan_sync_ok [OF p]
  let ?b = "replace_blocks root secrets (sv_secrets sv)"
  let ?gone = "gone_services (sv_slots sv) root services"
  obtain routes release where cl: "claim_routes root egress (sv_egress sv) = (routes, release)" by fastforce
  define sv1 where "sv1 = sv\<lparr>sv_secrets := ?b, sv_egress := routes,
      sv_routes := reroute_egress env (dropped_routes root egress (sv_egress sv)) release (map snd egress) (sv_routes sv),
      sv_cache := []\<rparr>"
  define sv2 where "sv2 = foldl (\<lambda>sv name. stop_and_join rt name sv) sv1 (pl_stop plan)"
  define sv3 where "sv3 = foldl (\<lambda>sv name. drop_slot env name sv) sv2 ?gone"
  have "bt_ok routes" using bt_ok_claim_routes [of "sv_egress sv" root egress] ok cl by (simp add: sv_ok_def)
  then have "reached sv1 (slot_view sv) ?b routes"
    using ok by (simp add: sv1_def reached_def sv_ok_def slot_view_def fun_eq_iff bt_ok_replace_blocks routes_ok_reroute)
  then have "reached sv2 (slot_view sv) ?b routes" unfolding sv2_def by (rule reached_stop)
  then have r3: "reached sv3 (\<lambda>n. if n \<in> set ?gone then None else slot_view sv n) ?b routes"
    unfolding sv3_def by (rule reached_drop)
  have "installable root services sv3"
    using plan r3 by (auto simp: installable_def reached_def slot_view_def split: if_splits)
  from reached_install [OF r3 this, of env] slots_after_eq [of sv root services] ok
  have "reached (foldl (install_def env root) sv3 services) (slots_after root services sv) ?b routes"
    by (simp only: sv_ok_def simp_thms)
  moreover have "sync_commit env rt root services secrets egress plan sv = foldl (install_def env root) sv3 services"
    using conjunct1 [OF conjunct2 [OF plan]] by (simp only: sync_commit_def cl Let_def prod.case sv1_def sv2_def sv3_def)
  ultimately show ?thesis by (simp add: cl)
qed

lemma update_slot_managed: "sv_managed (update_slot n f sv) = sv_managed sv"
  by (simp add: update_slot_def split: option.split)

lemma stop_and_join_managed: "sv_managed (stop_and_join rt n sv) = sv_managed sv"
proof -
  have "sv_managed (runner_writes ws sv) = sv_managed sv" for ws sv
    unfolding runner_writes_def by (rule foldl_keeps) (simp add: update_slot_managed split: prod.split)
  then show ?thesis by (simp add: stop_and_join_def set_state_def Let_def update_slot_managed split: option.split)
qed

lemma drop_slot_managed: "sv_managed (drop_slot env n sv) = sv_managed sv"
  by (simp add: drop_slot_def deregister_slot_def Let_def split: option.split)

lemma install_def_managed: "sv_managed (install_def env root sv sd) = sv_managed sv"
  by (simp add: install_def_def update_slot_managed Let_def split: option.split)

lemma sync_commit_managed: "sv_managed (sync_commit env rt root services secrets egress plan sv) = sv_managed sv"
proof -
  obtain routes release where cl: "claim_routes root egress (sv_egress sv) = (routes, release)" by fastforce
  note keeps = foldl_keeps [where p = sv_managed]
  show ?thesis
    by (simp only: sync_commit_def cl Let_def prod.case keeps [OF install_def_managed]
        keeps [OF drop_slot_managed] keeps [OF stop_and_join_managed]) simp
qed

lemma check_blocks_routes_ok:
  assumes "(check_blocks_routes root secrets egress blocks routes :: 'e sup_error + unit) = Inr u"
    and "bt_ok blocks" and "bt_ok secrets" and "nr \<in> set egress"
  shows "\<exists>b. bt_get (replace_blocks root secrets blocks) (es_secrets (er_spec (snd nr))) = Some b \<and>
    egress_key_allowed (es_secrets (er_spec (snd nr))) (psc_config b) (es_key (er_spec (snd nr))) = Inr ()"
proof -
  have "(check_egress_ref root secrets blocks nr :: 'e sup_error + unit) = Inr ()"
    using assms(1,4) by (auto simp: check_blocks_routes_def and_then_Inr for_each_Inr)
  then obtain c where c: "block_of_egress root secrets blocks (es_secrets (er_spec (snd nr))) = Some c"
    and k: "egress_key_allowed (es_secrets (er_spec (snd nr))) c (es_key (er_spec (snd nr))) = Inr ()"
    by (auto simp: check_egress_ref_def Let_def map_err_Inr split: option.splits)
  from block_of_egress_new [OF assms(2,3) c] k show ?thesis by auto
qed

lemma slots_after_new: "sd \<in> set services \<Longrightarrow> slots_after root services sv (sd_name sd) \<noteq> None"
proof -
  assume "sd \<in> set services"
  then have "sd_name sd \<in> fst ` set (rev (map (\<lambda>sd. (sd_name sd, (root, sd))) services))" by (simp add: image_image)
  then have "map_of (rev (map (\<lambda>sd. (sd_name sd, (root, sd))) services)) (sd_name sd) \<noteq> None"
    by (simp only: map_of_eq_None_iff not_not simp_thms)
  then show ?thesis by (auto simp: slots_after_def map_add_def split: option.split)
qed

text \<open>The three ways an unmanaged sync goes: refused, or committed with its restarts done.\<close>

lemma sync_unmanaged_cases:
  fixes save :: "('e, 'w) saver"
  assumes ok: "sv_ok sv" and um: "\<not> sv_managed sv"
    and s: "sync env rt save root services secrets egress sv w = (r, sv', w')"
  obtains (refused) e where "r = Inl e" and "sv' = sv" and "w' = w"
  | (committed) plan where "(plan_sync (sv_slots sv) root services :: 'e sup_error + sync_plan) = Inr plan"
      and "(check_blocks_routes root secrets egress (sv_secrets sv) (sv_egress sv) :: 'e sup_error + unit) = Inr ()"
      and "r = Inr (pl_report plan)"
      and "same_config (sync_commit env rt root services secrets egress plan sv) sv'"
proof (cases "and_then (plan_sync (sv_slots sv) root services :: 'e sup_error + sync_plan) (\<lambda>plan.
    and_then (check_blocks_routes root secrets egress (sv_secrets sv) (sv_egress sv)) (\<lambda>_. Inr plan))")
  case (Inl e)
  with um s have "r = Inl e" "sv' = sv" "w' = w" by (simp_all add: sync_def)
  then show thesis by (rule refused)
next
  case (Inr plan)
  then have p: "(plan_sync (sv_slots sv) root services :: 'e sup_error + sync_plan) = Inr plan"
    and c: "(check_blocks_routes root secrets egress (sv_secrets sv) (sv_egress sv) :: 'e sup_error + unit) = Inr ()"
    by (auto simp: and_then_Inr)
  define sv1 where "sv1 = sync_commit env rt root services secrets egress plan sv"
  have m: "sv_managed sv1 = sv_managed sv" unfolding sv1_def by (rule sync_commit_managed)
  note eff = sync_commit_effect [OF ok p, of env rt secrets egress, folded sv1_def]
  have known: "\<forall>n\<in>set (pl_restart plan). slot_view sv1 n \<noteq> None"
  proof
    fix n assume "n \<in> set (pl_restart plan)"
    with plan_sync_ok [OF p] obtain sd where "sd \<in> set services" "n = sd_name sd" by blast
    with slots_after_new [of sd services root sv] eff show "slot_view sv1 n \<noteq> None" by (simp add: reached_def)
  qed
  have "sv_ok sv1" using eff by (simp add: reached_def)
  from restart_all_known [OF this _ known, where env = env and rt = rt and save = save and w = "persist save sv1 w"] m um
  obtain sv2 w2 where r2: "restart_all env rt save (pl_restart plan) sv1 (persist save sv1 w) = (Inr (), sv2, w2)" by auto
  with um Inr s have "r = Inr (pl_report plan)" "sv' = sv2"
    by (simp_all add: sync_def Let_def flip: sv1_def)
  with same_config_restart_all [OF r2 \<open>sv_ok sv1\<close>] show thesis
    by (intro committed [OF p c]) (simp_all add: sv1_def)
qed

text \<open>
  C3: A sync of a root either refuses and changes nothing, in memory or on disk, or makes the
  declared services, secrets blocks and egress routes exactly the root's own: what the root had
  and no longer declares is gone, what other roots own stays as it was. Fetched secrets are
  dropped, and every declared egress route names a block that exists and may use its key.
\<close>

theorem sync_replaces_root:
  fixes save :: "('e, 'w) saver"
  assumes "sv_ok sv" and "\<not> sv_managed sv" and "bt_ok secrets" and "bt_ok egress"
    and "sync env rt save root services secrets egress sv w = (r, sv', w')"
  shows "(case r of
      Inl e \<Rightarrow> sv' = sv \<and> w' = w
    | Inr report \<Rightarrow> slot_view sv' = slots_after root services sv \<and>
        bt_get (sv_secrets sv') =
          replaced (\<lambda>b. psc_root b = Some root) (own_block root) (bt_get secrets) (bt_get (sv_secrets sv)) \<and>
        bt_get (sv_egress sv') =
          replaced (\<lambda>e. peg_root e = root) (own_route root) (bt_get egress) (bt_get (sv_egress sv)) \<and>
        sv_cache sv' = [] \<and> sv_ok sv') \<and>
    (\<forall>report nr. r = Inr report \<longrightarrow> nr \<in> set egress \<longrightarrow>
       (\<exists>b. bt_get (sv_secrets sv') (es_secrets (er_spec (snd nr))) = Some b \<and>
         egress_key_allowed (es_secrets (er_spec (snd nr))) (psc_config b) (es_key (er_spec (snd nr))) = Inr ()))"
  using assms(1,2,5)
proof (cases rule: sync_unmanaged_cases)
  case (committed plan)
  define sv1 where "sv1 = sync_commit env rt root services secrets egress plan sv"
  have oks: "bt_ok (sv_slots sv)" "bt_ok (sv_secrets sv)" "bt_ok (sv_egress sv)" using assms(1) by (simp_all add: sv_ok_def)
  note eff = sync_commit_effect [OF assms(1) committed(1), of env rt secrets egress, folded sv1_def]
  have "reached sv' (slots_after root services sv) (replace_blocks root secrets (sv_secrets sv))
      (fst (claim_routes root egress (sv_egress sv)))"
    using eff committed(4) [folded sv1_def] by (simp add: reached_def same_config_def)
  then show ?thesis
    using bt_get_replace_blocks [OF oks(2) assms(3)] bt_get_claim_routes [OF oks(3) assms(4)] committed(3)
      check_blocks_routes_ok [OF committed(2) oks(2) assms(3)]
    by (simp add: reached_def)
qed simp

section \<open>Routes a sync releases\<close>

text \<open>No egress entry answers for the host, in a well-formed table.\<close>

definition egress_free :: "string \<Rightarrow> route_world \<Rightarrow> bool" where
  "egress_free host rw \<longleftrightarrow> routes_ok rw \<and> (\<forall>e. route_at rw host = Some e \<longrightarrow> e_source e \<noteq> SourceEgress)"

lemma same_host_sym: "same_host a b \<longleftrightarrow> same_host b a"
  by (auto simp: same_host_def)

lemma egress_free_deregister:
  "routes_ok rw \<Longrightarrow> same_host host (er_host r) \<or> egress_free host rw \<Longrightarrow> egress_free host (egress_deregister env r rw)"
  by (auto simp: egress_free_def egress_deregister_def route_at_release routes_ok_release static_entry_def
      same_host_route_at split: prod.split)

lemma egress_free_register:
  "egress_free host rw \<Longrightarrow> \<not> same_host host (er_host r) \<Longrightarrow> egress_free host (egress_register env r rw)"
  by (auto simp: egress_free_def egress_register_def routes_ok_upsert route_at_upsert egress_entry_def)

lemma egress_free_service:
  assumes "egress_free host rw"
  shows "egress_free host (service_register env sd rw)" and "egress_free host (service_deregister env sd rw)"
proof -
  show "egress_free host (service_register env sd rw)"
    using assms
    by (cases rule: service_register_cases [of env sd rw])
      (auto simp: egress_free_def routes_ok_upsert route_at_upsert service_entry_def)
  show "egress_free host (service_deregister env sd rw)"
    using assms by (auto simp: egress_free_def service_deregister_def route_at_release routes_ok_release static_entry_def
        split: option.split prod.split)
qed

lemma egress_free_deregister_all:
  "routes_ok rw \<Longrightarrow> (\<exists>r\<in>set rs. same_host host (er_host r)) \<or> egress_free host rw \<Longrightarrow>
   egress_free host (foldl (\<lambda>rw r. egress_deregister env r rw) rw rs)"
proof (induction rs arbitrary: rw)
  case (Cons r rs)
  have "(\<exists>r\<in>set rs. same_host host (er_host r)) \<or> egress_free host (egress_deregister env r rw)"
    using Cons.prems egress_free_deregister [OF Cons.prems(1)] by auto
  with Cons show ?case by (simp add: routes_ok_egress)
qed simp

lemma egress_free_reroute:
  assumes "routes_ok rw" and "r \<in> set (removed @ release)" and "same_host host (er_host r)"
    and "\<forall>r\<in>set new. \<not> same_host host (er_host r)"
  shows "egress_free host (reroute_egress env removed release new rw)"
proof -
  have dereg: "foldl (\<lambda>rw r. egress_deregister env r rw) (foldl (\<lambda>rw r. egress_deregister env r rw) rw removed) release =
      foldl (\<lambda>rw r. egress_deregister env r rw) rw (removed @ release)" by simp
  have "egress_free host (foldl (\<lambda>rw r. egress_deregister env r rw) rw (removed @ release))"
    using assms(1-3) by (intro egress_free_deregister_all) blast+
  then show ?thesis unfolding reroute_egress_def dereg
    by (rule foldl_inv) (use assms(4) egress_free_register in blast)
qed

text \<open>Every route the root had is dropped, released, or still there under its own host.\<close>

lemma claim_route_step:
  "claim_route root (routes, rel) (name, route) =
   (bt_insert name (own_route root route) routes,
    case bt_get routes name of
      Some old \<Rightarrow> if er_host (peg_route old) \<noteq> er_host route then rel @ [peg_route old] else rel | None \<Rightarrow> rel)"
  by (simp add: claim_route_def own_route_def)

lemma claim_route_keeps: "r \<in> set (snd st) \<Longrightarrow> r \<in> set (snd (foldl (claim_route root) st egress))"
  by (rule foldl_inv) (auto simp: claim_route_def split: prod.split option.split)

lemma claim_route_releases:
  "distinct (map fst egress) \<Longrightarrow> bt_ok (fst st) \<Longrightarrow> (name, route) \<in> set egress \<Longrightarrow>
   bt_get (fst st) name = Some old \<Longrightarrow> er_host (peg_route old) \<noteq> er_host route \<Longrightarrow>
   peg_route old \<in> set (snd (foldl (claim_route root) st egress))"
proof (induction egress arbitrary: st)
  case (Cons nr egress)
  obtain n r where nr: "nr = (n, r)" by (cases nr)
  obtain routes rel where st: "st = (routes, rel)" by (cases st)
  show ?case
  proof (cases "n = name")
    case True
    have "(name, r) \<notin> set egress" for r using Cons.prems(1) True nr by force
    then have "r = route" using Cons.prems(3) True nr by auto
    then have "peg_route old \<in> set (snd (claim_route root st nr))"
      using Cons.prems(4,5) True by (simp add: nr st claim_route_step)
    from claim_route_keeps [OF this] show ?thesis by simp
  next
    case False
    have "peg_route old \<in> set (snd (foldl (claim_route root) (claim_route root st nr) egress))"
      using Cons.prems False by (intro Cons.IH) (auto simp: nr st claim_route_step bt_get_insert bt_ok_insert)
    then show ?thesis by simp
  qed
qed simp

lemma unclaimed_released:
  assumes "bt_ok (sv_egress sv)" and "bt_ok egress" and "claim_routes root egress (sv_egress sv) = (routes, release)"
    and old: "bt_get (sv_egress sv) name = Some e" "peg_root e = root"
    and new: "\<forall>r\<in>set (map snd egress). \<not> same_host (er_host (peg_route e)) (er_host r)"
  shows "peg_route e \<in> set (dropped_routes root egress (sv_egress sv) @ release)"
proof (cases "bt_get egress name")
  case None
  have "(name, e) \<in> set (sv_egress sv)" using old(1) assms(1) by (simp add: bt_get_iff)
  with None old(2) show ?thesis by (force simp: dropped_routes_def bt_contains_def)
next
  case (Some route)
  then have mem: "(name, route) \<in> set egress" using assms(2) by (simp add: bt_get_iff)
  have "bt_get (kept_routes root egress (sv_egress sv)) name = Some e"
    using old Some assms(1) by (simp add: kept_routes_def bt_get_retain bt_contains_def)
  moreover have "er_host (peg_route e) \<noteq> er_host route" using new mem by force
  moreover have "distinct (map fst egress)" "bt_ok (kept_routes root egress (sv_egress sv))"
    using assms(1,2) by (simp_all add: bt_ok_distinct kept_routes_def)
  ultimately have "peg_route e \<in> set (snd (claim_routes root egress (sv_egress sv)))"
    unfolding claim_routes_def using mem by (intro claim_route_releases) simp_all
  with assms(3) show ?thesis by simp
qed

text \<open>What services do to routes leaves a released host free of egress.\<close>

interpretation ef: service_routes env "egress_free host" for env host
  by unfold_locales (simp_all add: egress_free_service)

lemma egress_free_commit:
  assumes ok: "sv_ok sv" and "bt_ok egress"
    and old: "bt_get (sv_egress sv) name = Some e" "peg_root e = root"
    and new: "\<forall>r\<in>set (map snd egress). \<not> same_host (er_host (peg_route e)) (er_host r)"
  shows "egress_free (er_host (peg_route e)) (sv_routes (sync_commit env rt root services secrets egress plan sv))"
proof -
  let ?free = "\<lambda>sv. egress_free (er_host (peg_route e)) (sv_routes sv)"
  obtain routes release where cl: "claim_routes root egress (sv_egress sv) = (routes, release)" by fastforce
  define sv1 where "sv1 = sv\<lparr>sv_secrets := replace_blocks root secrets (sv_secrets sv), sv_egress := routes,
      sv_routes := reroute_egress env (dropped_routes root egress (sv_egress sv)) release (map snd egress) (sv_routes sv),
      sv_cache := []\<rparr>"
  have "peg_route e \<in> set (dropped_routes root egress (sv_egress sv) @ release)"
    using ok assms(2) cl old new by (intro unclaimed_released) (simp_all add: sv_ok_def)
  then have f1: "?free sv1"
    using ok new egress_free_reroute by (simp add: sv1_def sv_ok_def)
  have f3: "?free (foldl (\<lambda>sv name. drop_slot env name sv) (foldl (\<lambda>sv name. stop_and_join rt name sv) sv1 names) gone)"
    for names gone
    by (rule ef.keeps_drops) (simp add: f1)
  have "?free (foldl (install_def env root)
      (foldl (\<lambda>sv name. drop_slot env name sv) (foldl (\<lambda>sv name. stop_and_join rt name sv) sv1 names) gone) services)"
    for names gone
    by (rule foldl_inv) (use f3 ef.keeps_install_def in blast)+
  then show ?thesis by (simp only: sync_commit_def cl Let_def prod.case sv1_def)
qed

lemma sync_unmanaged_free:
  assumes "sv_ok sv" and um: "\<not> sv_managed sv"
    and s: "sync env rt save root services secrets egress sv w = (Inr rep, sv', w')"
    and free: "\<And>plan. egress_free host (sv_routes (sync_commit env rt root services secrets egress plan sv))"
  shows "egress_free host (sv_routes sv')"
  using um s free ef.keeps_restart_all
  by (fastforce simp: sync_def Let_def and_then_Inr split: sum.splits prod.splits)

text \<open>The managed form: refused, not saved, or saved and committed.\<close>

definition managed_egress :: "path \<Rightarrow> (string, egress_route) btree \<Rightarrow> supervisor \<Rightarrow> (string, persisted_egress) btree" where
  "managed_egress root egress sv =
     bt_extend (bt_retain (\<lambda>_ r. peg_root r \<noteq> root) (sv_egress sv))
       (map (\<lambda>(name, route). (name, own_route root route)) egress)"

definition managed_commit ::
  "route_env \<Rightarrow> path \<Rightarrow> (string, secrets_provider_config) btree \<Rightarrow> (string, egress_route) btree \<Rightarrow> supervisor \<Rightarrow> supervisor" where
  "managed_commit env root secrets egress sv =
     sv\<lparr>sv_secrets := replace_blocks root secrets (sv_secrets sv), sv_egress := managed_egress root egress sv,
        sv_routes := reroute_egress env (map (\<lambda>(_, r). peg_route r) (filter (\<lambda>(_, r). peg_root r = root) (sv_egress sv)))
          [] (map snd egress) (sv_routes sv), sv_cache := []\<rparr>"

definition managed_check ::
  "path \<Rightarrow> (string, secrets_provider_config) btree \<Rightarrow> (string, egress_route) btree \<Rightarrow> supervisor \<Rightarrow> 'e sup_error + unit" where
  "managed_check root secrets egress sv =
     and_then (for_each (check_block_owner root (sv_secrets sv)) (map fst secrets)) (\<lambda>_.
     and_then (for_each (check_egress_owner root (sv_egress sv)) (map fst egress)) (\<lambda>_.
       for_each (check_managed_ref root (replace_blocks root secrets (sv_secrets sv)) (sv_egress sv)) egress))"

lemma sync_managed_routes_eq:
  fixes save :: "('e, 'w) saver"
  assumes "save (persisted_snapshot (managed_commit env root secrets egress sv)) w = (q, v)"
  shows "sync_managed_routes env save root secrets egress sv w =
    (case managed_check root secrets egress sv of
       Inl e \<Rightarrow> (Inl e, sv, w)
     | Inr _ \<Rightarrow> (case q of Inl e \<Rightarrow> (Inl (SaveFailed e), sv, v) | Inr _ \<Rightarrow> (Inr (), managed_commit env root secrets egress sv, v)))"
proof -
  have "(persisted_snapshot sv)\<lparr>ps_secrets := replace_blocks root secrets (sv_secrets sv), ps_egress := managed_egress root egress sv\<rparr> =
      persisted_snapshot (managed_commit env root secrets egress sv)"
    by (simp add: persisted_snapshot_def managed_commit_def)
  with assms have "save_persisted save ((persisted_snapshot sv)\<lparr>ps_secrets := replace_blocks root secrets (sv_secrets sv),
      ps_egress := managed_egress root egress sv\<rparr>) w = (map_err SaveFailed q, v)"
    by (simp add: save_persisted_def)
  then show ?thesis
    by (cases q) (simp_all add: sync_managed_routes_def Let_def managed_commit_def managed_egress_def own_route_def
        flip: managed_check_def split: sum.split)
qed

lemma sync_managed_routes_cases:
  fixes save :: "('e, 'w) saver"
  assumes "sync_managed_routes env save root secrets egress sv w = (r, sv', w')"
  obtains (refused) e where "r = Inl e" and "sv' = sv"
  | (committed) u where "r = Inr ()" and "sv' = managed_commit env root secrets egress sv"
      and "(for_each (check_managed_ref root (replace_blocks root secrets (sv_secrets sv)) (sv_egress sv))
        egress :: 'e sup_error + unit) = Inr ()"
      and "save (persisted_snapshot sv') w = (Inr u, w')"
proof -
  obtain q v where q: "save (persisted_snapshot (managed_commit env root secrets egress sv)) w = (q, v)" by fastforce
  note eq = assms [unfolded sync_managed_routes_eq [of save, OF q]]
  show thesis
  proof (cases "managed_check root secrets egress sv :: 'e sup_error + unit")
    case (Inl e)
    with eq refused [of e] show thesis by simp
  next
    case checked: (Inr u)
    show thesis
    proof (cases q)
      case (Inl e)
      with checked eq refused [of "SaveFailed e"] show thesis by simp
    next
      case (Inr x)
      with checked eq q committed [of x] show thesis by (simp add: managed_check_def and_then_Inr)
    qed
  qed
qed

text \<open>
  C25: The managed broker keeps memory and file together. A sync that is refused, or whose state
  cannot be saved, leaves the broker as it was; one that succeeds has saved exactly the state it
  holds, starts no service, and every route it added requires a caller token, names an existing
  block with a key it may use, and shares its host with no route of another config.
\<close>

theorem sync_managed_atomic:
  fixes save :: "('e, 'w) saver"
  assumes "sv_managed sv" and "sync env rt save root services secrets egress sv w = (r, sv', w')"
  shows "case r of
      Inl e \<Rightarrow> sv' = sv
    | Inr report \<Rightarrow> services = [] \<and> report = empty_report \<and> sv_slots sv' = sv_slots sv \<and>
        (\<exists>u. save (persisted_snapshot sv') w = (Inr u, w')) \<and>
        (\<forall>name route. (name, route) \<in> set (require_tokens egress) \<longrightarrow>
           es_require_caller_token (er_spec route) \<and>
           (\<exists>b. bt_get (sv_secrets sv') (es_secrets (er_spec route)) = Some b \<and>
             egress_key_allowed (es_secrets (er_spec route)) (psc_config b) (es_key (er_spec route)) = Inr ()) \<and>
           (\<forall>n held. (n, held) \<in> set (sv_egress sv) \<longrightarrow> peg_root held \<noteq> root \<longrightarrow>
             er_host (peg_route held) \<noteq> er_host route))"
proof -
  obtain r1 sv1 w1 where s1: "sync_managed_routes env save root secrets (require_tokens egress) sv w = (r1, sv1, w1)"
    by (metis prod_cases3)
  show ?thesis
  proof (cases "services = []")
    case False
    with assms show ?thesis by (auto simp: sync_def)
  next
    case True
    with assms s1 have r: "r = and_then r1 (\<lambda>_. Inr empty_report)" "sv' = sv1" "w' = w1" by (simp_all add: sync_def)
    from s1 show ?thesis
    proof (cases rule: sync_managed_routes_cases)
      case (refused e)
      with r show ?thesis by simp
    next
      case (committed u)
      have "check_managed_ref root (sv_secrets sv') (sv_egress sv) nr = (Inr () :: 'e sup_error + unit)"
        if "nr \<in> set (require_tokens egress)" for nr
        using committed(2,3) that r by (simp add: for_each_Inr managed_commit_def)
      then show ?thesis
        using committed r True
        by (fastforce simp: check_managed_ref_def Let_def and_then_Inr map_err_Inr ensure_Inr list_ex_iff
            require_tokens_def managed_commit_def split: option.splits)
    qed
  qed
qed

text \<open>
  A route a config no longer declares stops working. After a successful sync, managed or not,
  no egress entry answers for a host that the root's old routes used and its new ones do not,
  whatever services were stopped, installed or restarted on the way.
\<close>

theorem sync_releases_egress_hosts:
  assumes "sv_ok sv" and "bt_ok egress" and "bt_get (sv_egress sv) name = Some e" and "peg_root e = root"
    and "\<forall>r\<in>set (map snd egress). \<not> same_host (er_host (peg_route e)) (er_host r)"
    and "sync env rt save root services secrets egress sv w = (Inr report, sv', w')"
  shows "route_at (sv_routes sv') (er_host (peg_route e)) = None \<or>
    (\<exists>entry. route_at (sv_routes sv') (er_host (peg_route e)) = Some entry \<and> e_source entry \<noteq> SourceEgress)"
proof -
  have "egress_free (er_host (peg_route e)) (sv_routes sv')"
  proof (cases "sv_managed sv")
    case False
    with assms(1,6) egress_free_commit [OF assms(1-5)] show ?thesis by (rule_tac sync_unmanaged_free)
  next
    case True
    obtain r1 sv1 w1 where s1: "sync_managed_routes env save root secrets (require_tokens egress) sv w = (r1, sv1, w1)"
      by (metis prod_cases3)
    with True assms(6) have "sv' = sv1" "\<exists>u. r1 = Inr u" by (auto simp: sync_def and_then_Inr split: if_splits)
    with s1 have sv': "sv' = managed_commit env root secrets (require_tokens egress) sv" by (cases rule: sync_managed_routes_cases) auto
    have "(name, e) \<in> set (sv_egress sv)" using assms(1,3) by (simp add: sv_ok_def bt_get_iff)
    with assms(4) have "peg_route e \<in> set (map (\<lambda>(_, r). peg_route r) (filter (\<lambda>(_, r). peg_root r = root) (sv_egress sv)) @ [])"
      by force
    moreover have "\<forall>r\<in>set (map snd (require_tokens egress)). \<not> same_host (er_host (peg_route e)) (er_host r)"
      using assms(5) by (auto simp: require_tokens_def)
    moreover have "routes_ok (sv_routes sv)" using assms(1) by (simp add: sv_ok_def)
    ultimately show ?thesis by (simp add: sv' managed_commit_def egress_free_reroute)
  qed
  then show ?thesis by (auto simp: egress_free_def)
qed

section \<open>Examples\<close>

definition example_runtime :: runtime where
  "example_runtime = \<lparr>rt_join = (\<lambda>_. []), rt_finished = (\<lambda>_. False), rt_fresh = (\<lambda>_. 1), rt_watch = (\<lambda>_. False),
     rt_watcher_done = (\<lambda>_. False)\<rparr>"

definition example_saver :: "(unit, persisted list) saver" where
  "example_saver p w = (Inr (), p # w)"

definition example_egress :: "string \<Rightarrow> egress_route" where
  "example_egress host = \<lparr>er_host = host, er_target = ''api.example.com:443'',
     er_spec = \<lparr>es_require_caller_token = False, es_secrets = ''vault'', es_key = ''TOKEN'', es_header = ''Authorization'',
       es_format = ''Bearer {value}'', es_upstream_host = ''api.example.com'', es_tls = True\<rparr>\<rparr>"

definition example_supervisor :: supervisor where
  "example_supervisor = \<lparr>sv_managed = False, sv_slots = [], sv_secrets = [(''vault'', own_block ''/a'' (LocalVault [''TOKEN'']))],
     sv_egress = [(''api'', own_route ''/a'' (example_egress ''api.test''))], sv_shutdown = False,
     sv_routes = egress_register binder_example (example_egress ''api.test'') \<lparr>rw_registry = [], rw_certs = []\<rparr>, sv_cache = []\<rparr>"

lemma example_supervisor_ok: "sv_ok example_supervisor" "sv_ok (example_supervisor\<lparr>sv_managed := True\<rparr>)"
proof -
  have "routes_ok \<lparr>rw_registry = [], rw_certs = []\<rparr>" by (simp add: routes_ok_def)
  then have "routes_ok (sv_routes example_supervisor)" by (simp add: example_supervisor_def routes_ok_egress)
  then show "sv_ok example_supervisor" by (simp add: sv_ok_def) (simp add: example_supervisor_def)
  then show "sv_ok (example_supervisor\<lparr>sv_managed := True\<rparr>)" by (simp add: sv_ok_def)
qed

abbreviation example_sync where
  "example_sync sv root services secrets egress \<equiv>
     sync binder_example example_runtime example_saver root services secrets egress sv []"

lemma result_eq: "fst x = r \<Longrightarrow> x = (r, fst (snd x), snd (snd x))"
  by (cases x) auto

theorem sync_replaces_root_witness:
  "\<exists>sv'. slot_view sv' ''crm'' = Some (''/a'', crm_service) \<and> bt_get (sv_egress sv') ''api'' = None \<and>
     map_option psc_config (bt_get (sv_secrets sv') ''vault'') = Some (LocalVault [''TOKEN''])"
proof -
  let ?s = "example_sync example_supervisor ''/a'' [crm_service] [(''vault'', LocalVault [''TOKEN''])] []"
  have "fst ?s = Inr \<lparr>rp_added = [''crm''], rp_updated = [], rp_removed = [], rp_unchanged = []\<rparr>" by code_simp
  from sync_replaces_root [OF example_supervisor_ok(1) _ _ _ result_eq [OF this]]
  have "slot_view (fst (snd ?s)) = slots_after ''/a'' [crm_service] example_supervisor \<and>
      bt_get (sv_secrets (fst (snd ?s))) = replaced (\<lambda>b. psc_root b = Some ''/a'') (own_block ''/a'')
        (bt_get [(''vault'', LocalVault [''TOKEN''])]) (bt_get (sv_secrets example_supervisor)) \<and>
      bt_get (sv_egress (fst (snd ?s))) = replaced (\<lambda>e. peg_root e = ''/a'') (own_route ''/a'')
        (bt_get []) (bt_get (sv_egress example_supervisor))"
    by (simp add: example_supervisor_def)
  moreover have "slots_after ''/a'' [crm_service] example_supervisor ''crm'' = Some (''/a'', crm_service)"
    by (simp add: slots_after_def crm_service_def)
  ultimately show ?thesis
    by (intro exI [of _ "fst (snd ?s)"]) (simp add: replaced_def own_block_def own_route_def example_supervisor_def bt_get_def)
qed

theorem sync_managed_atomic_witness:
  "\<exists>sv' w'. example_saver (persisted_snapshot sv') [] = (Inr (), w') \<and> sv_slots sv' = [] \<and>
     bt_get (sv_secrets sv') ''vault'' \<noteq> None"
proof -
  let ?sv = "example_supervisor\<lparr>sv_managed := True\<rparr>"
  let ?s = "example_sync ?sv ''/a'' [] [(''vault'', LocalVault [''TOKEN''])] [(''api'', example_egress ''api.test'')]"
  have "fst ?s = Inr empty_report" by code_simp
  from sync_managed_atomic [OF _ result_eq [OF this]]
  have m: "sv_slots (fst (snd ?s)) = [] \<and> (\<exists>u. example_saver (persisted_snapshot (fst (snd ?s))) [] = (Inr u, snd (snd ?s))) \<and>
      (\<forall>name route. (name, route) \<in> set (require_tokens [(''api'', example_egress ''api.test'')]) \<longrightarrow>
        (\<exists>b. bt_get (sv_secrets (fst (snd ?s))) (es_secrets (er_spec route)) = Some b))"
    by (simp add: example_supervisor_def) blast
  have "(''api'', example_egress ''api.test''\<lparr>er_spec := (er_spec (example_egress ''api.test''))\<lparr>es_require_caller_token := True\<rparr>\<rparr>)
      \<in> set (require_tokens [(''api'', example_egress ''api.test'')])"
    by (simp add: require_tokens_def)
  with m have "\<exists>b. bt_get (sv_secrets (fst (snd ?s))) (es_secrets (er_spec (example_egress ''api.test''\<lparr>er_spec :=
      (er_spec (example_egress ''api.test''))\<lparr>es_require_caller_token := True\<rparr>\<rparr>))) = Some b" by blast
  then have "bt_get (sv_secrets (fst (snd ?s))) ''vault'' \<noteq> None" by (auto simp: example_egress_def)
  with m show ?thesis by auto
qed

theorem sync_releases_egress_hosts_witness:
  "route_at (sv_routes example_supervisor) ''api.test'' \<noteq> None \<and>
   (\<exists>sv' :: supervisor. route_at (sv_routes sv') ''api.test'' = None \<or>
      (\<exists>entry. route_at (sv_routes sv') ''api.test'' = Some entry \<and> e_source entry \<noteq> SourceEgress))"
proof -
  let ?s = "example_sync example_supervisor ''/a'' [] [] []"
  have "fst ?s = Inr empty_report" by code_simp
  note s = result_eq [OF this]
  let ?e = "own_route ''/a'' (example_egress ''api.test'')"
  have "bt_get (sv_egress example_supervisor) ''api'' = Some ?e" "peg_root ?e = ''/a''" "er_host (peg_route ?e) = ''api.test''"
    by (simp_all add: example_supervisor_def bt_get_def own_route_def example_egress_def)
  from sync_releases_egress_hosts [OF example_supervisor_ok(1) _ this(1,2) _ s] this(3)
  have "route_at (sv_routes (fst (snd ?s))) ''api.test'' = None \<or>
    (\<exists>entry. route_at (sv_routes (fst (snd ?s))) ''api.test'' = Some entry \<and> e_source entry \<noteq> SourceEgress)" by simp
  moreover have "route_at (sv_routes example_supervisor) ''api.test'' \<noteq> None" by code_simp
  ultimately show ?thesis by blast
qed

text \<open>
  The managed form refuses a host another config already uses. The unmanaged one compares route
  names only: a second config takes the host over, and removing its route then leaves the first
  config's declared route without an entry.
\<close>

lemma unmanaged_sync_steals_host:
  "(let (r1, sv1, w1) = example_sync example_supervisor ''/b'' [] [(''other'', LocalVault [''TOKEN''])]
          [(''mine'', (example_egress ''api.test'')\<lparr>er_spec := (er_spec (example_egress ''api.test''))\<lparr>es_secrets := ''other''\<rparr>\<rparr>)];
        (r2, sv2, w2) = example_sync sv1 ''/b'' [] [] []
    in (map_option (map_option es_secrets \<circ> e_egress) (route_at (sv_routes sv1) ''api.test''),
        bt_contains (sv_egress sv2) ''api'', route_at (sv_routes sv2) ''api.test'')) =
   (Some (Some ''other''), True, None)"
  by code_simp

end
