(* ===== verification/Runner.thy ===== *)
theory Runner
  imports Sync
begin

text \<open>
  The per-service runner task, \<open>portman-daemon/src/supervisor.rs\<close>: \<open>run_service\<close> with its
  dependency gate, restart policy and backoff. The task is a state machine over its await
  points; an event says what the await returned. Several tasks and the handlers interleave in
  a step relation at the end.
\<close>

section \<open>Durations\<close>

text \<open>Nanoseconds, up to \<open>Duration::MAX\<close>.\<close>

type_synonym duration = nat

definition duration_max :: duration where
  "duration_max = (2 ^ 64 - 1) * 1000000000 + 999999999"

definition from_millis :: "nat \<Rightarrow> duration" where
  "from_millis ms = ms * 1000000"

definition as_millis :: "duration \<Rightarrow> nat" where
  "as_millis d = d div 1000000"

definition dur_saturating_mul :: "duration \<Rightarrow> u32 \<Rightarrow> duration" where
  "dur_saturating_mul d n = min (d * unat n) duration_max"

record timings =
  tm_backoff_base :: duration
  tm_backoff_cap :: duration
  tm_ready_timeout :: duration
  tm_ready_poll :: duration
  tm_stable_after :: duration
  tm_reconcile_grace :: duration
  tm_mise_timeout :: duration

definition timings_default :: timings where
  "timings_default = \<lparr>tm_backoff_base = from_millis 500, tm_backoff_cap = from_millis 30000,
     tm_ready_timeout = from_millis 60000, tm_ready_poll = from_millis 150, tm_stable_after = from_millis 10000,
     tm_reconcile_grace = from_millis 5000, tm_mise_timeout = from_millis 10000\<rparr>"

definition saturating_sub_u32 :: "u32 \<Rightarrow> u32 \<Rightarrow> u32" where
  "saturating_sub_u32 a b = (if a < b then 0 else a - b)"

definition saturating_pow_u32 :: "u32 \<Rightarrow> u32 \<Rightarrow> u32" where
  "saturating_pow_u32 b n = (if unat b ^ unat n < 2 ^ 32 then b ^ unat n else - 1)"

definition backoff_delay :: "timings \<Rightarrow> u32 \<Rightarrow> duration" where
  "backoff_delay t consecutive_failures =
     (let exp = min (saturating_sub_u32 consecutive_failures 1) 16;
          delay = dur_saturating_mul (tm_backoff_base t) (saturating_pow_u32 2 exp)
      in min delay (tm_backoff_cap t))"

section \<open>Backoff\<close>

lemma unat_min: "unat (min a b) = min (unat a) (unat (b :: 'a::len word))"
  by (simp add: min_def word_le_nat_alt)

lemma unat_saturating_sub_u32: "unat (saturating_sub_u32 a b) = unat a - unat b"
proof (cases "a < b")
  case True
  then show ?thesis by (simp add: saturating_sub_u32_def word_less_nat_alt)
next
  case False
  then have "b \<le> a" by simp
  with False show ?thesis by (simp add: saturating_sub_u32_def unat_sub)
qed

lemma unat_pow2_small: "n \<le> 16 \<Longrightarrow> unat (saturating_pow_u32 2 n) = 2 ^ unat n"
proof -
  assume "n \<le> 16"
  then have n: "unat n \<le> 16" by (simp add: word_le_nat_alt)
  have "(2 :: nat) ^ unat n \<le> 2 ^ 16" by (rule power_increasing) (use n in simp_all)
  then have less: "(2 :: nat) ^ unat n < 2 ^ 32" by simp
  have "unat (of_nat (2 ^ unat n) :: u32) = 2 ^ unat n"
    using less by (simp only: unat_of_nat take_bit_nat_def len_bit0 len_num1 mod_less) simp
  then have "unat ((2 :: u32) ^ unat n) = 2 ^ unat n" by simp
  with less show ?thesis by (simp add: saturating_pow_u32_def)
qed

lemma backoff_delay_eq:
  "backoff_delay t n =
    min (min (tm_backoff_base t * 2 ^ min (unat n - 1) 16) duration_max) (tm_backoff_cap t)"
proof -
  have "unat (saturating_pow_u32 2 (min (saturating_sub_u32 n 1) 16)) = 2 ^ min (unat n - 1) 16"
    by (simp add: unat_pow2_small unat_min unat_saturating_sub_u32)
  then show ?thesis by (simp add: backoff_delay_def dur_saturating_mul_def)
qed

text \<open>
  The backoff delay stays within its bounds and never shrinks as failures pile up: it is at
  most the cap and, when the base is within the cap, at least the base. It is the base doubled
  once per further failure until the cap stops it, and no count of failures overflows.
\<close>

theorem backoff_bounds:
  assumes "tm_backoff_base t \<le> tm_backoff_cap t" and "tm_backoff_cap t \<le> duration_max" and "m \<le> n"
  shows "tm_backoff_base t \<le> backoff_delay t n \<and> backoff_delay t n \<le> tm_backoff_cap t \<and>
    backoff_delay t m \<le> backoff_delay t n \<and>
    (1 \<le> n \<and> n \<le> 17 \<longrightarrow> backoff_delay t n = min (tm_backoff_base t * 2 ^ (unat n - 1)) (tm_backoff_cap t))"
proof (intro conjI impI)
  show "tm_backoff_base t \<le> backoff_delay t n" "backoff_delay t n \<le> tm_backoff_cap t"
    using assms by (simp_all add: backoff_delay_eq)
  have "min (unat m - 1) 16 \<le> min (unat n - 1) 16" using assms(3) by (simp add: word_le_nat_alt min_le_iff_disj) linarith
  then have "(2 :: nat) ^ min (unat m - 1) 16 \<le> 2 ^ min (unat n - 1) 16" by (rule power_increasing) simp
  then have "tm_backoff_base t * 2 ^ min (unat m - 1) 16 \<le> tm_backoff_base t * 2 ^ min (unat n - 1) 16" by simp
  then show "backoff_delay t m \<le> backoff_delay t n" unfolding backoff_delay_eq by (meson min.mono order_refl)
  assume "1 \<le> n \<and> n \<le> 17"
  then have "unat n \<le> 17" by (simp add: word_le_nat_alt)
  then have "min (unat n - 1) 16 = unat n - 1" by (simp add: min_def)
  then show "backoff_delay t n = min (tm_backoff_base t * 2 ^ (unat n - 1)) (tm_backoff_cap t)"
    using assms(2) by (simp add: backoff_delay_eq)
qed

theorem backoff_bounds_witness:
  "backoff_delay timings_default 3 = from_millis 2000 \<and> backoff_delay timings_default 1000 \<le> from_millis 30000"
proof -
  have t: "tm_backoff_base timings_default \<le> tm_backoff_cap timings_default"
    "tm_backoff_cap timings_default \<le> duration_max"
    by (simp_all add: timings_default_def from_millis_def duration_max_def)
  from backoff_bounds [OF t, of 3 3] backoff_bounds [OF t, of 3 1000]
  show ?thesis by (simp add: timings_default_def from_millis_def)
qed

section \<open>The runner task\<close>

datatype attempt = AtStopped | AtRestart | AtFailure string duration | AtFatal string

text \<open>
  The await points: the loop head (which waits for nothing), a dependency with what is shown
  meanwhile, the attempt, the backoff sleep, and the parking of a watched service that gave up.
\<close>

datatype phase = AtTop | Waiting "string list" state_kind | Attempting | BackingOff | Parked | Ended

record runner =
  rn_phase :: phase
  rn_failures :: u32
  rn_watched :: bool

datatype event =
  EvTurn | EvDepReady | EvDepWait | EvDepGone | EvStop | EvAttempt attempt | EvSlept | EvRestart bool

definition runner_new :: "supervisor \<Rightarrow> string \<Rightarrow> runner option" where
  "runner_new sv name =
     map_option (\<lambda>sl. \<lparr>rn_phase = AtTop, rn_failures = 0, rn_watched = sd_watch (sl_def sl) \<noteq> []\<rparr>)
       (bt_get (sv_slots sv) name)"

text \<open>
  The runner's channels are those of the slot of its name; a slot that is gone has closed them,
  which reads as a stop.
\<close>

definition stop_asked :: "supervisor \<Rightarrow> string \<Rightarrow> bool" where
  "stop_asked sv name \<longleftrightarrow>
     sv_shutdown sv \<or> (case bt_get (sv_slots sv) name of Some sl \<Rightarrow> \<not> sl_desired sl | None \<Rightarrow> True)"

definition stopped :: "string \<Rightarrow> runner \<Rightarrow> supervisor \<Rightarrow> runner \<times> supervisor" where
  "stopped name rn sv = (rn\<lparr>rn_phase := Ended\<rparr>, set_state name StStopped [] sv)"

definition proceed :: "string \<Rightarrow> string list \<Rightarrow> state_kind \<Rightarrow> runner \<Rightarrow> supervisor \<Rightarrow> runner \<times> supervisor" where
  "proceed name deps showing rn sv =
     (case deps of
        [] \<Rightarrow> (rn\<lparr>rn_phase := Attempting\<rparr>, set_state name StStarting [] sv)
      | _ \<Rightarrow> (rn\<lparr>rn_phase := Waiting deps showing\<rparr>, sv))"

definition turn :: "string \<Rightarrow> runner \<Rightarrow> supervisor \<Rightarrow> runner \<times> supervisor" where
  "turn name rn sv =
     (if stop_asked sv name then stopped name rn sv
      else
        let sv = set_state name StPending [] sv in
        (case bt_get (sv_slots sv) name of
           None \<Rightarrow> stopped name rn sv
         | Some sl \<Rightarrow> proceed name (filter (bt_contains (sv_slots sv)) (sd_depends (sl_def sl))) StPending rn sv))"

definition wait_show :: "string \<Rightarrow> string \<Rightarrow> slot \<Rightarrow> state_kind \<Rightarrow> supervisor \<Rightarrow> state_kind \<times> supervisor" where
  "wait_show name dep dep_slot showing sv =
     (let show = (if sl_state dep_slot = StFailed then StFailed else StPending) in
      if show = showing then (showing, sv)
      else
        let detail = (if show = StFailed then
              (let why = detail_of sv dep in
               if why = [] then ''dependency `'' @ dep @ ''` failed'' else ''dependency `'' @ dep @ ''` failed: '' @ why)
            else [])
        in (show, set_state name show detail sv))"

definition wait_step ::
  "string \<Rightarrow> event \<Rightarrow> string \<Rightarrow> string list \<Rightarrow> state_kind \<Rightarrow> runner \<Rightarrow> supervisor \<Rightarrow> (runner \<times> supervisor) option" where
  "wait_step name ev dep deps showing rn sv =
     (case (ev, bt_get (sv_slots sv) dep) of
        (EvDepReady, Some dep_slot) \<Rightarrow>
          if sl_state dep_slot = StReady then Some (proceed name deps showing rn sv) else None
      | (EvDepWait, Some dep_slot) \<Rightarrow>
          if sl_state dep_slot = StReady then None
          else (case wait_show name dep dep_slot showing sv of
            (showing, sv) \<Rightarrow> Some (rn\<lparr>rn_phase := Waiting (dep # deps) showing\<rparr>, sv))
      | (EvDepGone, None) \<Rightarrow> Some (stopped name rn sv)
      | (EvStop, _) \<Rightarrow> if stop_asked sv name then Some (stopped name rn sv) else None
      | _ \<Rightarrow> None)"

definition gives_up :: "restart_policy \<Rightarrow> u32 \<Rightarrow> bool" where
  "gives_up policy failures =
     (case policy of RestartNever \<Rightarrow> True | RestartLimit n \<Rightarrow> failures > n | RestartAlways \<Rightarrow> False)"

definition after_failure :: "timings \<Rightarrow> string \<Rightarrow> string \<Rightarrow> duration \<Rightarrow> runner \<Rightarrow> supervisor \<Rightarrow> runner \<times> supervisor" where
  "after_failure t name detail uptime rn sv =
     (let failures = (if uptime \<ge> tm_stable_after t then 1 else rn_failures rn + 1) in
      case bt_get (sv_slots sv) name of
        None \<Rightarrow> (rn\<lparr>rn_phase := Ended, rn_failures := failures\<rparr>, sv)
      | Some sl \<Rightarrow>
          if gives_up (sd_restart (sl_def sl)) failures then
            (let sv = set_state name StFailed detail sv in
             if \<not> rn_watched rn then (rn\<lparr>rn_phase := Ended, rn_failures := failures\<rparr>, sv)
             else (rn\<lparr>rn_phase := Parked, rn_failures := 0\<rparr>, sv))
          else
            let sv = update_slot name (\<lambda>sl. sl\<lparr>sl_restarts := sl_restarts sl + 1\<rparr>) sv;
                ms = show_nat (as_millis (backoff_delay t failures))
            in (rn\<lparr>rn_phase := BackingOff, rn_failures := failures\<rparr>,
                set_state name StBackoff (detail @ ''; restarting in '' @ ms @ ''ms'') sv))"

definition after_attempt :: "timings \<Rightarrow> string \<Rightarrow> attempt \<Rightarrow> runner \<Rightarrow> supervisor \<Rightarrow> runner \<times> supervisor" where
  "after_attempt t name att rn sv =
     (case att of
        AtStopped \<Rightarrow> stopped name rn sv
      | AtRestart \<Rightarrow> (rn\<lparr>rn_phase := AtTop, rn_failures := 0\<rparr>, sv)
      | AtFatal detail \<Rightarrow> (rn\<lparr>rn_phase := Ended\<rparr>, set_state name StFailed detail sv)
      | AtFailure detail uptime \<Rightarrow> after_failure t name detail uptime rn sv)"

definition back_step :: "string \<Rightarrow> event \<Rightarrow> runner \<Rightarrow> supervisor \<Rightarrow> (runner \<times> supervisor) option" where
  "back_step name ev rn sv =
     (case ev of
        EvSlept \<Rightarrow> Some (rn\<lparr>rn_phase := AtTop\<rparr>, sv)
      | EvRestart ok \<Rightarrow> Some (rn\<lparr>rn_phase := AtTop, rn_failures := (if ok then 0 else rn_failures rn)\<rparr>, sv)
      | EvStop \<Rightarrow> if stop_asked sv name then Some (stopped name rn sv) else None
      | _ \<Rightarrow> None)"

definition parked_step :: "string \<Rightarrow> event \<Rightarrow> runner \<Rightarrow> supervisor \<Rightarrow> (runner \<times> supervisor) option" where
  "parked_step name ev rn sv =
     (case ev of
        EvRestart ok \<Rightarrow> Some (rn\<lparr>rn_phase := (if ok then AtTop else Ended)\<rparr>, sv)
      | EvStop \<Rightarrow> if stop_asked sv name then Some (stopped name rn sv) else None
      | _ \<Rightarrow> None)"

text \<open>After every attempt the marker is cleared and the state saved, before its outcome is looked at.\<close>

definition runner_step ::
  "timings \<Rightarrow> ('e, 'w) saver \<Rightarrow> string \<Rightarrow> event \<Rightarrow> runner \<times> supervisor \<times> 'w \<Rightarrow> (runner \<times> supervisor \<times> 'w) option" where
  "runner_step t save name ev s =
     (case s of (rn, sv, w) \<Rightarrow>
        (case (rn_phase rn, ev) of
           (AtTop, EvTurn) \<Rightarrow> (case turn name rn sv of (rn, sv) \<Rightarrow> Some (rn, sv, w))
         | (Waiting (dep # deps) showing, ev) \<Rightarrow>
             map_option (\<lambda>(rn, sv). (rn, sv, w)) (wait_step name ev dep deps showing rn sv)
         | (Attempting, EvAttempt att) \<Rightarrow>
             (let sv = clear_running_marker name sv; w = persist save sv w in
              case after_attempt t name att rn sv of (rn, sv) \<Rightarrow> Some (rn, sv, w))
         | (BackingOff, ev) \<Rightarrow> map_option (\<lambda>(rn, sv). (rn, sv, w)) (back_step name ev rn sv)
         | (Parked, ev) \<Rightarrow> map_option (\<lambda>(rn, sv). (rn, sv, w)) (parked_step name ev rn sv)
         | _ \<Rightarrow> None))"

fun runner_run ::
  "timings \<Rightarrow> ('e, 'w) saver \<Rightarrow> string \<Rightarrow> event list \<Rightarrow> runner \<times> supervisor \<times> 'w \<Rightarrow> (runner \<times> supervisor \<times> 'w) option" where
  "runner_run t save name [] s = Some s"
| "runner_run t save name (ev # evs) s = Option.bind (runner_step t save name ev s) (runner_run t save name evs)"

section \<open>What a runner touches\<close>

lemma bt_get_update_slot [store_laws]:
  "bt_ok (sv_slots sv) \<Longrightarrow> bt_get (sv_slots (update_slot name f sv)) n =
     (if n = name then map_option f (bt_get (sv_slots sv) name) else bt_get (sv_slots sv) n)"
  by (simp add: update_slot_def bt_get_insert split: option.split)

lemma bt_ok_update_slot [inv_intros]: "bt_ok (sv_slots sv) \<Longrightarrow> bt_ok (sv_slots (update_slot name f sv))"
  by (simp add: update_slot_def bt_ok_insert split: option.split)

lemma update_slot_shutdown [simp]: "sv_shutdown (update_slot name f sv) = sv_shutdown sv"
  by (simp add: update_slot_def split: option.split)

text \<open>A step writes the status of its own slot only: definition and wishes stay, and so do all other slots.\<close>

definition own_status_only :: "string \<Rightarrow> supervisor \<Rightarrow> supervisor \<Rightarrow> bool" where
  "own_status_only name sv sv' \<longleftrightarrow>
     bt_ok (sv_slots sv') \<and> sv_shutdown sv' = sv_shutdown sv \<and>
     (\<forall>n. n \<noteq> name \<longrightarrow> bt_get (sv_slots sv') n = bt_get (sv_slots sv) n) \<and>
     map_option (\<lambda>sl. (sl_def sl, sl_desired sl, sl_task sl)) (bt_get (sv_slots sv') name) =
       map_option (\<lambda>sl. (sl_def sl, sl_desired sl, sl_task sl)) (bt_get (sv_slots sv) name)"

lemma own_status_refl: "bt_ok (sv_slots sv) \<Longrightarrow> own_status_only name sv sv"
  by (simp add: own_status_only_def)

lemma own_status_trans: "own_status_only name a b \<Longrightarrow> own_status_only name b c \<Longrightarrow> own_status_only name a c"
  by (simp add: own_status_only_def)

lemma own_status_update:
  assumes "own_status_only name sv0 sv"
    and "\<And>sl. sl_def (f sl) = sl_def sl \<and> sl_desired (f sl) = sl_desired sl \<and> sl_task (f sl) = sl_task sl"
  shows "own_status_only name sv0 (update_slot name f sv)"
  using assms by (auto simp: own_status_only_def bt_get_update_slot bt_ok_update_slot option.map_comp comp_def)

lemma own_status_set_state: "own_status_only name sv0 sv \<Longrightarrow> own_status_only name sv0 (set_state name k d sv)"
  unfolding set_state_def by (rule own_status_update) simp_all

lemma own_status_clear: "own_status_only name sv0 sv \<Longrightarrow> own_status_only name sv0 (clear_running_marker name sv)"
  unfolding clear_running_marker_def by (rule own_status_update) simp_all

lemmas own_status = own_status_set_state own_status_clear own_status_update own_status_refl

lemma own_status_stop_asked: "own_status_only name sv sv' \<Longrightarrow> stop_asked sv' name = stop_asked sv name"
  by (auto simp: own_status_only_def stop_asked_def split: option.splits)

lemma own_status_stopped: "own_status_only name sv0 sv \<Longrightarrow> own_status_only name sv0 (snd (stopped name rn sv))"
  by (simp add: stopped_def own_status)

lemma own_status_proceed:
  "own_status_only name sv0 sv \<Longrightarrow> own_status_only name sv0 (snd (proceed name deps showing rn sv))"
  by (simp add: proceed_def own_status split: list.split)

lemma own_status_turn: "own_status_only name sv0 sv \<Longrightarrow> own_status_only name sv0 (snd (turn name rn sv))"
  by (simp add: turn_def Let_def own_status_stopped own_status_proceed own_status split: option.split)

lemma own_status_wait_show:
  "own_status_only name sv0 sv \<Longrightarrow> own_status_only name sv0 (snd (wait_show name dep sl showing sv))"
  by (simp add: wait_show_def own_status Let_def)

lemma own_status_after_failure:
  "own_status_only name sv0 sv \<Longrightarrow> own_status_only name sv0 (snd (after_failure t name detail uptime rn sv))"
  by (simp add: after_failure_def Let_def own_status split: option.split)

lemma own_status_after_attempt:
  "own_status_only name sv0 sv \<Longrightarrow> own_status_only name sv0 (snd (after_attempt t name att rn sv))"
  by (simp add: after_attempt_def own_status_stopped own_status_after_failure own_status split: attempt.split)

lemma own_status_wait_step:
  "own_status_only name sv0 sv \<Longrightarrow> wait_step name ev dep deps showing rn sv = Some r \<Longrightarrow> own_status_only name sv0 (snd r)"
  by (auto simp: wait_step_def own_status_stopped own_status_proceed split: event.splits option.splits if_splits prod.splits)
    (metis own_status_wait_show snd_conv)

lemma own_status_back_step:
  "own_status_only name sv0 sv \<Longrightarrow> back_step name ev rn sv = Some r \<Longrightarrow> own_status_only name sv0 (snd r)"
  by (auto simp: back_step_def own_status_stopped split: event.splits if_splits)

lemma own_status_parked_step:
  "own_status_only name sv0 sv \<Longrightarrow> parked_step name ev rn sv = Some r \<Longrightarrow> own_status_only name sv0 (snd r)"
  by (auto simp: parked_step_def own_status_stopped split: event.splits if_splits)

text \<open>The steps, phase by phase.\<close>

lemma runner_step_cases:
  assumes "runner_step t save name ev (rn, sv, w) = Some (rn', sv', w')"
  obtains (top) "rn_phase rn = AtTop" and "ev = EvTurn" and "(rn', sv') = turn name rn sv" and "w' = w"
  | (waiting) dep deps showing where "rn_phase rn = Waiting (dep # deps) showing"
      and "wait_step name ev dep deps showing rn sv = Some (rn', sv')" and "w' = w"
  | (attempting) att where "rn_phase rn = Attempting" and "ev = EvAttempt att"
      and "(rn', sv') = after_attempt t name att rn (clear_running_marker name sv)"
      and "w' = persist save (clear_running_marker name sv) w"
  | (backing) "rn_phase rn = BackingOff" and "back_step name ev rn sv = Some (rn', sv')" and "w' = w"
  | (park) "rn_phase rn = Parked" and "parked_step name ev rn sv = Some (rn', sv')" and "w' = w"
  using assms by (auto simp: runner_step_def Let_def split: phase.splits event.splits list.splits prod.splits)

lemma own_status_step:
  assumes "bt_ok (sv_slots sv)" and "runner_step t save name ev (rn, sv, w) = Some (rn', sv', w')"
  shows "own_status_only name sv sv'"
  using assms(2)
proof (cases rule: runner_step_cases)
  case top
  then show ?thesis using own_status_turn [OF own_status_refl [OF assms(1)], of name rn] by (metis snd_conv)
next
  case (waiting dep deps showing)
  then show ?thesis using own_status_wait_step [OF own_status_refl [OF assms(1)] waiting(2)] by simp
next
  case (attempting att)
  then show ?thesis
    using own_status_after_attempt [OF own_status_clear [OF own_status_refl [OF assms(1)]], of name t att rn] by (metis snd_conv)
next
  case backing
  then show ?thesis using own_status_back_step [OF own_status_refl [OF assms(1)] backing(2)] by simp
next
  case park
  then show ?thesis using own_status_parked_step [OF own_status_refl [OF assms(1)] park(2)] by simp
qed

section \<open>What the status shows\<close>

text \<open>
  A runner among everything else the daemon does. Other agents may do anything that does not write
  this slot's state, and remove the slot; the attempt itself announces readiness. Two others write
  the state: a stop that finds no task in the slot (an earlier stop has taken it and still waits, or
  has timed out) sets it to stopped, and a slot made anew under the name starts as stopped; whether
  this has happened is recorded. A second runner of the service would write it too: \<open>Tasks\<close> says when
  there can be one.
\<close>

inductive runner_reach ::
  "timings \<Rightarrow> ('e, 'w) saver \<Rightarrow> string \<Rightarrow> bool \<Rightarrow> runner \<Rightarrow> supervisor \<Rightarrow> bool" for t save name where
  spawned: "runner_new sv name = Some rn \<Longrightarrow> bt_ok (sv_slots sv) \<Longrightarrow> runner_reach t save name False rn sv"
| stepped: "runner_reach t save name other rn sv \<Longrightarrow> runner_step t save name ev (rn, sv, w) = Some (rn', sv', w') \<Longrightarrow>
    runner_reach t save name other rn' sv'"
| announced: "runner_reach t save name other rn sv \<Longrightarrow> rn_phase rn = Attempting \<Longrightarrow>
    runner_reach t save name other rn (set_state name StReady note sv)"
| elsewhere: "runner_reach t save name other rn sv \<Longrightarrow> bt_ok (sv_slots sv') \<Longrightarrow>
    bt_get (sv_slots sv') name = None \<or>
    map_option sl_state (bt_get (sv_slots sv') name) = map_option sl_state (bt_get (sv_slots sv) name) \<Longrightarrow>
    runner_reach t save name other rn sv'"
| stopped_elsewhere: "runner_reach t save name other rn sv \<Longrightarrow> bt_ok (sv_slots sv') \<Longrightarrow>
    map_option sl_state (bt_get (sv_slots sv') name) = Some StStopped \<Longrightarrow> runner_reach t save name True rn sv'"

fun phase_shows :: "phase \<Rightarrow> state_kind \<Rightarrow> bool" where
  "phase_shows AtTop k = True"
| "phase_shows (Waiting deps showing) k \<longleftrightarrow> deps \<noteq> [] \<and> k = showing \<and> (k = StPending \<or> k = StFailed)"
| "phase_shows Attempting k \<longleftrightarrow> k = StStarting \<or> k = StReady"
| "phase_shows BackingOff k \<longleftrightarrow> k = StBackoff"
| "phase_shows Parked k \<longleftrightarrow> k = StFailed"
| "phase_shows Ended k \<longleftrightarrow> k = StStopped \<or> k = StFailed"

definition shown_ok :: "bool \<Rightarrow> string \<Rightarrow> runner \<Rightarrow> supervisor \<Rightarrow> bool" where
  "shown_ok other name rn sv \<longleftrightarrow>
     bt_ok (sv_slots sv) \<and> (\<forall>sl. bt_get (sv_slots sv) name = Some sl \<longrightarrow>
       phase_shows (rn_phase rn) (sl_state sl) \<or> other \<and> sl_state sl = StStopped)"

lemma set_state_shows:
  "bt_ok (sv_slots sv) \<Longrightarrow> phase_shows (rn_phase rn) k \<Longrightarrow> shown_ok other name rn (set_state name k d sv)"
  by (auto simp: shown_ok_def set_state_def bt_get_update_slot bt_ok_update_slot)

lemma shown_stopped: "bt_ok (sv_slots sv) \<Longrightarrow> (rn', sv') = stopped name rn sv \<Longrightarrow> shown_ok other name rn' sv'"
  by (auto simp: stopped_def intro: set_state_shows)

lemma shown_proceed:
  assumes "bt_ok (sv_slots sv)" and "(rn', sv') = proceed name deps showing rn sv"
    and "\<And>sl. bt_get (sv_slots sv) name = Some sl \<Longrightarrow>
      sl_state sl = showing \<and> (showing = StPending \<or> showing = StFailed) \<or> other \<and> sl_state sl = StStopped"
  shows "shown_ok other name rn' sv'"
  using assms by (auto simp: proceed_def shown_ok_def intro!: set_state_shows split: list.splits)
    (auto simp: set_state_def bt_get_update_slot bt_ok_update_slot)

lemma shown_turn: "bt_ok (sv_slots sv) \<Longrightarrow> (rn', sv') = turn name rn sv \<Longrightarrow> shown_ok other name rn' sv'"
proof -
  assume ok: "bt_ok (sv_slots sv)" and "(rn', sv') = turn name rn sv"
  define sv1 where "sv1 = set_state name StPending [] sv"
  have ok1: "bt_ok (sv_slots sv1)" using ok by (simp add: sv1_def set_state_def bt_ok_update_slot)
  have pending: "sl_state sl = StPending" if "bt_get (sv_slots sv1) name = Some sl" for sl
    using that ok by (auto simp: sv1_def set_state_def bt_get_update_slot)
  have "shown_ok other name rn' sv'" if "(rn', sv') = proceed name deps StPending rn sv1" for deps
    by (rule shown_proceed [OF ok1 that]) (simp_all add: pending)
  with \<open>(rn', sv') = turn name rn sv\<close> shown_stopped [OF ok] shown_stopped [OF ok1]
  show ?thesis by (auto simp: turn_def Let_def simp flip: sv1_def split: if_splits option.splits)
qed

lemma shown_after_attempt:
  assumes "bt_ok (sv_slots sv)" and "(rn', sv') = after_attempt t name att rn sv"
  shows "shown_ok other name rn' sv'"
proof (cases att)
  case (AtFailure detail uptime)
  define sv1 where "sv1 = update_slot name (\<lambda>sl. sl\<lparr>sl_restarts := sl_restarts sl + 1\<rparr>) sv"
  have ok1: "bt_ok (sv_slots sv1)" using assms(1) by (simp add: sv1_def bt_ok_update_slot)
  from AtFailure assms(2) show ?thesis
    by (auto simp: after_attempt_def after_failure_def Let_def simp flip: sv1_def
        intro!: set_state_shows [OF assms(1)] set_state_shows [OF ok1] split: option.splits if_splits)
      (simp_all add: shown_ok_def assms(1))
next
  case AtStopped
  with assms show ?thesis by (simp add: after_attempt_def shown_stopped)
next
  case AtRestart
  with assms show ?thesis by (simp add: after_attempt_def shown_ok_def)
next
  case (AtFatal detail)
  with assms show ?thesis by (simp add: after_attempt_def set_state_shows)
qed

lemma shown_wait_step:
  assumes "shown_ok other name rn sv" and "rn_phase rn = Waiting (dep # deps) showing"
    and "wait_step name ev dep deps showing rn sv = Some (rn', sv')"
  shows "shown_ok other name rn' sv'"
proof -
  have ok: "bt_ok (sv_slots sv)" using assms(1) by (simp add: shown_ok_def)
  have shows_now: "sl_state sl = showing \<and> (showing = StPending \<or> showing = StFailed) \<or> other \<and> sl_state sl = StStopped"
    if "bt_get (sv_slots sv) name = Some sl" for sl
    using assms(1,2) that by (auto simp: shown_ok_def)
  consider (proceed) "(rn', sv') = proceed name deps showing rn sv" | (stop) "(rn', sv') = stopped name rn sv"
    | (look) dep_slot showing' where "wait_show name dep dep_slot showing sv = (showing', sv')"
        "rn' = rn\<lparr>rn_phase := Waiting (dep # deps) showing'\<rparr>"
    using assms(3) by (auto simp: wait_step_def split: event.splits option.splits if_splits prod.splits)
  then show ?thesis
  proof cases
    case proceed
    show ?thesis by (rule shown_proceed [OF ok proceed shows_now])
  next
    case stop
    with ok show ?thesis by (rule shown_stopped)
  next
    case look
    then show ?thesis
      using assms(1,2) ok set_state_shows [OF ok, of rn']
      by (auto simp: wait_show_def Let_def shown_ok_def [of other name rn sv] split: if_splits) (auto simp: shown_ok_def)
  qed
qed

lemma shown_phase: "shown_ok other name rn sv \<Longrightarrow> rn_phase rn' = AtTop \<or> rn_phase rn' = Ended \<and> rn_phase rn = Parked \<Longrightarrow>
  shown_ok other name rn' sv"
  by (auto simp: shown_ok_def)

lemma shown_step:
  assumes "shown_ok other name rn sv" and "runner_step t save name ev (rn, sv, w) = Some (rn', sv', w')"
  shows "shown_ok other name rn' sv'"
proof -
  have ok: "bt_ok (sv_slots sv)" using assms(1) by (simp add: shown_ok_def)
  from assms(2) show ?thesis
  proof (cases rule: runner_step_cases)
    case top
    show ?thesis by (rule shown_turn [OF ok top(3)])
  next
    case (waiting dep deps showing)
    show ?thesis by (rule shown_wait_step [OF assms(1) waiting(1,2)])
  next
    case (attempting att)
    have "bt_ok (sv_slots (clear_running_marker name sv))"
      using ok by (simp add: clear_running_marker_def bt_ok_update_slot)
    then show ?thesis using attempting(3) by (rule shown_after_attempt)
  next
    case backing
    then have "(rn', sv') = stopped name rn sv \<or> (rn_phase rn' = AtTop \<and> sv' = sv)"
      by (auto simp: back_step_def split: event.splits if_splits)
    with ok assms(1) show ?thesis using shown_stopped shown_phase by blast
  next
    case park
    then have "(rn', sv') = stopped name rn sv \<or> ((rn_phase rn' = AtTop \<or> rn_phase rn' = Ended) \<and> sv' = sv)"
      by (auto simp: parked_step_def split: event.splits if_splits)
    with ok assms(1) park(1) show ?thesis using shown_stopped shown_phase by blast
  qed
qed

text \<open>
  C33: What \<open>portman status\<close> shows is where the runner is, while it is the only runner of its
  service. However the daemon's other parts interleave, a service between two attempts is shown
  backing off, one waiting for its dependencies pending (or failed, on a failed dependency's account),
  an attempt starting or ready, a parked runner failed, and a runner that has ended leaves its service
  stopped or failed. The one exception: once a stop has found no task in the slot, or the slot has
  been made anew, while this runner lives, the service may be shown stopped.
\<close>

theorem runner_shows_phase:
  assumes "runner_reach t save name other rn sv" and "bt_get (sv_slots sv) name = Some sl"
  shows "phase_shows (rn_phase rn) (sl_state sl) \<or> other \<and> sl_state sl = StStopped"
proof -
  from assms(1) have "shown_ok other name rn sv"
  proof induction
    case (spawned sv rn)
    then show ?case by (auto simp: shown_ok_def runner_new_def)
  next
    case (stepped other rn sv ev w rn' sv' w')
    show ?case by (rule shown_step [OF stepped.IH stepped.hyps(2)])
  next
    case (announced other rn sv msg)
    then show ?case using set_state_shows [of sv rn StReady other name] by (simp add: shown_ok_def)
  next
    case (elsewhere other rn sv sv')
    have "phase_shows (rn_phase rn) (sl_state sl) \<or> other \<and> sl_state sl = StStopped"
      if sl: "bt_get (sv_slots sv') name = Some sl" for sl
    proof -
      obtain sl0 where "bt_get (sv_slots sv) name = Some sl0" "sl_state sl0 = sl_state sl"
        using elsewhere.hyps(3) sl by (cases "bt_get (sv_slots sv) name") simp_all
      then show ?thesis using elsewhere.IH by (metis shown_ok_def)
    qed
    with elsewhere.hyps(2) show ?case by (simp add: shown_ok_def)
  next
    case (stopped_elsewhere other rn sv sv')
    then show ?case by (auto simp: shown_ok_def)
  qed
  with assms(2) show ?thesis by (simp add: shown_ok_def)
qed

lemma runner_run_reach:
  "runner_reach t save name other rn sv \<Longrightarrow> runner_run t save name evs (rn, sv, w) = Some (rn', sv', w') \<Longrightarrow>
   runner_reach t save name other rn' sv'"
proof (induction evs arbitrary: rn sv w)
  case (Cons ev evs)
  then obtain s where s: "runner_step t save name ev (rn, sv, w) = Some s" "runner_run t save name evs s = Some (rn', sv', w')"
    by (cases "runner_step t save name ev (rn, sv, w)") simp_all
  obtain rn1 sv1 w1 where "s = (rn1, sv1, w1)" by (cases s)
  with s Cons.IH [of rn1 sv1 w1] runner_reach.stepped [OF Cons.prems(1)] show ?case by simp
qed simp

section \<open>Stopping\<close>

text \<open>How many awaits a stopping runner can still pass, looks at an unready dependency aside.\<close>

fun awaits_left :: "phase \<Rightarrow> nat" where
  "awaits_left Ended = 0"
| "awaits_left AtTop = 1"
| "awaits_left BackingOff = 2"
| "awaits_left Parked = 2"
| "awaits_left Attempting = 3"
| "awaits_left (Waiting deps showing) = 3 + length deps"

lemma stopped_ends: "rn_phase (fst (stopped name rn sv)) = Ended"
  by (simp add: stopped_def)

lemma proceed_left: "awaits_left (rn_phase (fst (proceed name deps showing rn sv))) = 3 + length deps"
  by (simp add: proceed_def split: list.split)

lemma awaits_left_step:
  assumes "stop_asked sv name" and "runner_step t save name ev (rn, sv, w) = Some (rn', sv', w')"
  shows "awaits_left (rn_phase rn') + (if ev = EvDepWait then 0 else 1) \<le> awaits_left (rn_phase rn)"
  using assms(2)
proof (cases rule: runner_step_cases)
  case top
  then have "rn' = fst (stopped name rn sv)" using assms(1) by (simp add: turn_def) (metis fst_conv)
  with top(1,2) show ?thesis by (simp add: stopped_ends)
next
  case (waiting dep deps showing)
  then have "rn' = fst (proceed name deps showing rn sv) \<or> rn' = fst (stopped name rn sv) \<or>
      ev = EvDepWait \<and> (\<exists>s. rn_phase rn' = Waiting (dep # deps) s)"
    by (auto simp: wait_step_def split: event.splits option.splits if_splits prod.splits)
  with waiting(1) show ?thesis by (auto simp: proceed_left stopped_ends)
next
  case (attempting att)
  have "awaits_left (rn_phase (fst (after_attempt t name att rn sv1))) \<le> 2" for sv1
    by (simp add: after_attempt_def after_failure_def Let_def stopped_ends split: attempt.split option.split)
  moreover have "rn' = fst (after_attempt t name att rn (clear_running_marker name sv))"
    using attempting(3) by (metis fst_conv)
  ultimately show ?thesis using attempting(1,2) by simp
next
  case backing
  then show ?thesis by (auto simp: back_step_def stopped_def split: event.splits if_splits)
next
  case park
  then show ?thesis by (auto simp: parked_step_def stopped_def split: event.splits if_splits)
qed

lemma awaits_left_run:
  "bt_ok (sv_slots sv) \<Longrightarrow> stop_asked sv name \<Longrightarrow> runner_run t save name evs (rn, sv, w) = Some (rn', sv', w') \<Longrightarrow>
   awaits_left (rn_phase rn') + length (filter (\<lambda>ev. ev \<noteq> EvDepWait) evs) \<le> awaits_left (rn_phase rn) \<and>
   stop_asked sv' name"
proof (induction evs arbitrary: rn sv w)
  case (Cons ev evs)
  then obtain rn1 sv1 w1 where step: "runner_step t save name ev (rn, sv, w) = Some (rn1, sv1, w1)"
    and rest: "runner_run t save name evs (rn1, sv1, w1) = Some (rn', sv', w')"
    by (auto simp: Option.bind_eq_Some_conv)
  have own: "own_status_only name sv sv1" by (rule own_status_step [OF Cons.prems(1) step])
  then have ok1: "bt_ok (sv_slots sv1)" by (simp add: own_status_only_def)
  have "stop_asked sv1 name" using Cons.prems(2) own_status_stop_asked [OF own] by simp
  from Cons.IH [OF ok1 this rest] awaits_left_step [OF Cons.prems(2) step] show ?case by auto
qed simp

lemma no_empty_wait_step:
  assumes "\<forall>s. rn_phase rn \<noteq> Waiting [] s" and "runner_step t save name ev (rn, sv, w) = Some (rn', sv', w')"
  shows "\<forall>s. rn_phase rn' \<noteq> Waiting [] s"
proof -
  have pr: "rn_phase (fst (proceed name deps showing rn sv)) \<noteq> Waiting [] s" for deps showing rn sv s
    by (simp add: proceed_def split: list.split)
  have st: "rn_phase (fst (stopped name rn sv)) \<noteq> Waiting [] s" for rn sv s by (simp add: stopped_def)
  from assms(2) show ?thesis
  proof (cases rule: runner_step_cases)
    case top
    have "rn_phase (fst (turn name rn sv)) \<noteq> Waiting [] s" for s
      by (simp add: turn_def Let_def pr st split: option.split)
    with top show ?thesis by (metis fst_conv)
  next
    case (waiting dep deps showing)
    then have "rn' = fst (proceed name deps showing rn sv) \<or> rn' = fst (stopped name rn sv) \<or>
        (\<exists>s. rn_phase rn' = Waiting (dep # deps) s)"
      by (auto simp: wait_step_def split: event.splits option.splits if_splits prod.splits)
    then show ?thesis using pr st by auto
  next
    case (attempting att)
    have "rn_phase (fst (after_attempt t name att rn sv1)) \<noteq> Waiting [] s" for sv1 s
      by (simp add: after_attempt_def after_failure_def Let_def st split: attempt.split option.split)
    with attempting show ?thesis by (metis fst_conv)
  next
    case backing
    then show ?thesis by (auto simp: back_step_def stopped_def split: event.splits if_splits)
  next
    case park
    then show ?thesis by (auto simp: parked_step_def stopped_def split: event.splits if_splits)
  qed
qed

lemma no_empty_wait_run:
  "runner_run t save name evs (rn, sv, w) = Some (rn', sv', w') \<Longrightarrow> \<forall>s. rn_phase rn \<noteq> Waiting [] s \<Longrightarrow>
   \<forall>s. rn_phase rn' \<noteq> Waiting [] s"
proof (induction evs arbitrary: rn sv w)
  case (Cons ev evs)
  then obtain rn1 sv1 w1 where step: "runner_step t save name ev (rn, sv, w) = Some (rn1, sv1, w1)"
    and rest: "runner_run t save name evs (rn1, sv1, w1) = Some (rn', sv', w')"
    by (auto simp: Option.bind_eq_Some_conv)
  show ?case by (rule Cons.IH [OF rest no_empty_wait_step [OF Cons.prems(2) step]])
qed simp

lemma stop_can_end:
  assumes "stop_asked sv name" and "\<forall>s. rn_phase rn \<noteq> Waiting [] s" and "rn_phase rn \<noteq> Ended"
  shows "\<exists>ev rn' sv' w'. runner_step t save name ev (rn, sv, w) = Some (rn', sv', w') \<and> rn_phase rn' = Ended"
proof -
  define ev where "ev = (case rn_phase rn of AtTop \<Rightarrow> EvTurn | Attempting \<Rightarrow> EvAttempt AtStopped | _ \<Rightarrow> EvStop)"
  have "\<exists>rn' sv' w'. runner_step t save name ev (rn, sv, w) = Some (rn', sv', w') \<and> rn_phase rn' = Ended"
    using assms
    by (cases "rn_phase rn")
      (auto simp: ev_def runner_step_def turn_def stopped_def wait_step_def after_attempt_def back_step_def
        parked_step_def Let_def split: list.split option.split)
  then show ?thesis by blast
qed

text \<open>
  C23: A stop is always obeyed. Once a service's wish is down or the daemon is shutting down, its
  runner passes only a few more awaits (an attempt, its backoff, the ready dependencies it still
  checks) and then has ended; and as long as it has not, one next step ends it: it never starts
  another attempt from its loop head and never waits for a stop that has already come.
\<close>

theorem stop_ends_runner:
  assumes "bt_ok (sv_slots sv)" and "stop_asked sv name" and "\<forall>s. rn_phase rn \<noteq> Waiting [] s"
    and "runner_run t save name evs (rn, sv, w) = Some (rn', sv', w')"
  shows "length (filter (\<lambda>ev. ev \<noteq> EvDepWait) evs) \<le> awaits_left (rn_phase rn) \<and>
    (length (filter (\<lambda>ev. ev \<noteq> EvDepWait) evs) = awaits_left (rn_phase rn) \<longrightarrow> rn_phase rn' = Ended) \<and>
    (rn_phase rn' \<noteq> Ended \<longrightarrow>
      (\<exists>ev rn'' sv'' w''. runner_step t save name ev (rn', sv', w') = Some (rn'', sv'', w'') \<and> rn_phase rn'' = Ended))"
proof -
  note left = awaits_left_run [OF assms(1,2,4)]
  then have "stop_asked sv' name" by blast
  note can = stop_can_end [OF this no_empty_wait_run [OF assms(4,3)]]
  have "awaits_left (rn_phase rn') = 0 \<longrightarrow> rn_phase rn' = Ended" by (cases "rn_phase rn'") auto
  with left can show ?thesis by auto
qed

section \<open>Crash loops\<close>

text \<open>
  A service that keeps failing: its wish is up, and each dependency that has a slot is ready.
\<close>

definition crash_ctx :: "string \<Rightarrow> restart_policy \<Rightarrow> string list \<Rightarrow> supervisor \<Rightarrow> bool" where
  "crash_ctx name policy deps sv \<longleftrightarrow>
     bt_ok (sv_slots sv) \<and> \<not> stop_asked sv name \<and> name \<notin> set deps \<and>
     (\<exists>sl. bt_get (sv_slots sv) name = Some sl \<and> sd_restart (sl_def sl) = policy \<and>
        filter (bt_contains (sv_slots sv)) (sd_depends (sl_def sl)) = deps) \<and>
     (\<forall>d\<in>set deps. \<exists>dsl. bt_get (sv_slots sv) d = Some dsl \<and> sl_state dsl = StReady)"

definition restarts_of :: "supervisor \<Rightarrow> string \<Rightarrow> u32" where
  "restarts_of sv name = (case bt_get (sv_slots sv) name of Some sl \<Rightarrow> sl_restarts sl | None \<Rightarrow> 0)"

lemma crash_ctx_own:
  assumes "own_status_only name sv sv'" and "crash_ctx name policy deps sv"
  shows "crash_ctx name policy deps sv'"
proof -
  have "bt_contains (sv_slots sv') n = bt_contains (sv_slots sv) n" for n
    using assms(1) by (cases "n = name"; cases "bt_get (sv_slots sv) name"; cases "bt_get (sv_slots sv') name")
      (auto simp: own_status_only_def bt_contains_def)
  then have "bt_contains (sv_slots sv') = bt_contains (sv_slots sv)" by (rule ext)
  moreover have "bt_get (sv_slots sv') d = bt_get (sv_slots sv) d" if "d \<in> set deps" for d
    using assms that by (auto simp: own_status_only_def crash_ctx_def)
  moreover obtain sl sl' where "bt_get (sv_slots sv) name = Some sl" "bt_get (sv_slots sv') name = Some sl'" "sl_def sl' = sl_def sl"
    using assms by (cases "bt_get (sv_slots sv') name") (auto simp: own_status_only_def crash_ctx_def)
  ultimately show ?thesis
    using assms own_status_stop_asked [OF assms(1)] by (auto simp: crash_ctx_def own_status_only_def)
qed







text \<open>One more quick failure: the policy gives up, or the service backs off and counts one restart.\<close>

lemma quick_failure:
  assumes "crash_ctx name policy deps sv" and "rn_phase rn = Attempting" and "uptime < tm_stable_after t"
  shows "\<exists>rn' sv' w' sl. runner_step t save name (EvAttempt (AtFailure detail uptime)) (rn, sv, w) = Some (rn', sv', w') \<and>
    bt_get (sv_slots sv') name = Some sl \<and> rn_watched rn' = rn_watched rn \<and>
    (if gives_up policy (rn_failures rn + 1)
     then rn_phase rn' = (if rn_watched rn then Parked else Ended) \<and> sl_state sl = StFailed \<and> sl_detail sl = detail \<and>
       sl_restarts sl = restarts_of sv name
     else rn_phase rn' = BackingOff \<and> rn_failures rn' = rn_failures rn + 1 \<and> crash_ctx name policy deps sv' \<and>
       sl_state sl = StBackoff \<and> sl_restarts sl = restarts_of sv name + 1)"
proof -
  have ok: "bt_ok (sv_slots sv)" using assms(1) by (simp add: crash_ctx_def)
  define sv1 where "sv1 = clear_running_marker name sv"
  have own: "own_status_only name sv sv1" unfolding sv1_def by (rule own_status_clear [OF own_status_refl [OF ok]])
  then have ok1: "bt_ok (sv_slots sv1)" by (simp add: own_status_only_def)
  have c1: "crash_ctx name policy deps sv1" by (rule crash_ctx_own [OF own assms(1)])
  then obtain sl where sl: "bt_get (sv_slots sv1) name = Some sl" "sd_restart (sl_def sl) = policy"
    by (auto simp: crash_ctx_def)
  have r1: "sl_restarts sl = restarts_of sv name"
    using sl(1) ok by (auto simp: restarts_of_def sv1_def clear_running_marker_def bt_get_update_slot split: option.splits)
  define r where "r = after_failure t name detail uptime rn sv1"
  have step: "runner_step t save name (EvAttempt (AtFailure detail uptime)) (rn, sv, w) =
      Some (fst r, snd r, persist save sv1 w)"
    using assms(2) by (simp add: runner_step_def after_attempt_def Let_def r_def sv1_def split: prod.split)
  have ctx: "crash_ctx name policy deps (snd r)"
    unfolding r_def by (rule crash_ctx_own [OF own_status_after_failure [OF own_status_refl [OF ok1]] c1])
  show ?thesis
  proof (cases "gives_up policy (rn_failures rn + 1)")
    case True
    with step sl r1 assms(3) ok1 show ?thesis
      by (simp add: r_def after_failure_def Let_def set_state_def bt_get_update_slot)
  next
    case False
    with step sl r1 assms(3) ok1 ctx show ?thesis
      by (simp add: r_def after_failure_def Let_def set_state_def bt_get_update_slot bt_ok_update_slot)
  qed
qed




text \<open>
  The counter resets after an attempt that ran long enough, not when the service becomes ready, as
  \<open>RestartPolicy\<close> documents: a service that becomes ready and then fails soon is given up all the same.
\<close>

lemma ready_does_not_reset_limit:
  assumes "crash_ctx name (RestartLimit n) deps sv" and "n \<noteq> - 1" and "uptime < tm_stable_after t"
    and "rn_phase rn = Attempting" and "rn_failures rn = n"
  shows "\<exists>rn' sv' w' sl. runner_step t save name (EvAttempt (AtFailure detail uptime)) (rn, set_state name StReady note sv, w) =
      Some (rn', sv', w') \<and> bt_get (sv_slots sv') name = Some sl \<and> sl_state sl = StFailed"
proof -
  have "bt_ok (sv_slots sv)" using assms(1) by (simp add: crash_ctx_def)
  then have c: "crash_ctx name (RestartLimit n) deps (set_state name StReady note sv)"
    using assms(1) by (intro crash_ctx_own [OF _ assms(1)] own_status)
  have "1 + n \<noteq> 0" using assms(2) by (simp add: add.commute eq_neg_iff_add_eq_0)
  then have "gives_up (RestartLimit n) (rn_failures rn + 1)"
    using assms(5) by (simp add: gives_up_def word_less_nat_alt unatSuc add.commute)
  with quick_failure [OF c assms(4,3), of save detail w] show ?thesis by fastforce
qed


definition runner_example :: "bool \<Rightarrow> restart_policy \<Rightarrow> supervisor" where
  "runner_example desired policy = \<lparr>sv_managed = False,
     sv_slots = [(''crm'', slot_new ''/r'' (crm_service\<lparr>sd_restart := policy\<rparr>) desired)], sv_secrets = [], sv_egress = [],
     sv_shutdown = False, sv_routes = \<lparr>rw_registry = [], rw_certs = []\<rparr>, sv_cache = []\<rparr>"

definition memory_saver :: "(unit, persisted list) saver" where
  "memory_saver p w = (Inr (), p # w)"

lemma runner_example_ok: "bt_ok (sv_slots (runner_example desired policy))"
  by (simp add: runner_example_def)

theorem stop_ends_runner_witness:
  "\<exists>rn' sv' w'. runner_run timings_default memory_saver ''crm'' [EvSlept, EvTurn]
      (\<lparr>rn_phase = BackingOff, rn_failures = 3, rn_watched = False\<rparr>, runner_example False RestartAlways, []) =
      Some (rn', sv', w') \<and> rn_phase rn' = Ended"
proof -
  let ?rn = "\<lparr>rn_phase = BackingOff, rn_failures = 3, rn_watched = False\<rparr>"
  let ?evs = "[EvSlept, EvTurn]"
  have "runner_run timings_default memory_saver ''crm'' ?evs (?rn, runner_example False RestartAlways, []) \<noteq> None"
    by (simp add: runner_step_def back_step_def turn_def stop_asked_def stopped_def runner_example_def slot_new_def bt_get_def)
  then obtain rn' sv' w' where r:
    "runner_run timings_default memory_saver ''crm'' ?evs (?rn, runner_example False RestartAlways, []) = Some (rn', sv', w')"
    by auto
  have "stop_asked (runner_example False RestartAlways) ''crm''" by code_simp
  from stop_ends_runner [OF runner_example_ok this _ r] r show ?thesis by simp
qed

lemma runner_example_turn:
  "runner_step timings_default memory_saver ''crm'' EvTurn
     (\<lparr>rn_phase = AtTop, rn_failures = 0, rn_watched = False\<rparr>, runner_example True RestartAlways, []) =
   Some (\<lparr>rn_phase = Attempting, rn_failures = 0, rn_watched = False\<rparr>,
     set_state ''crm'' StStarting [] (set_state ''crm'' StPending [] (runner_example True RestartAlways)), [])"
  by (simp add: runner_step_def turn_def stop_asked_def runner_example_def slot_new_def bt_get_def crm_service_def Let_def
      set_state_def update_slot_def proceed_def)

theorem runner_shows_phase_witness:
  "\<exists>rn sv w sl. runner_run timings_default memory_saver ''crm'' [EvTurn, EvAttempt (AtFailure ''exit'' 0)]
      (\<lparr>rn_phase = AtTop, rn_failures = 0, rn_watched = False\<rparr>, runner_example True RestartAlways, []) = Some (rn, sv, w) \<and>
    rn_phase rn = BackingOff \<and> bt_get (sv_slots sv) ''crm'' = Some sl \<and> sl_state sl = StBackoff"
proof -
  let ?rn = "\<lparr>rn_phase = AtTop, rn_failures = 0, rn_watched = False\<rparr>" and ?sv = "runner_example True RestartAlways"
  let ?sv1 = "set_state ''crm'' StStarting [] (set_state ''crm'' StPending [] ?sv)"
  have "runner_new ?sv ''crm'' = Some ?rn" by code_simp
  then have start: "runner_reach timings_default memory_saver ''crm'' False ?rn ?sv"
    using runner_example_ok by (rule runner_reach.spawned)
  have "crash_ctx ''crm'' RestartAlways [] ?sv"
    by (simp add: crash_ctx_def stop_asked_def runner_example_def slot_new_def bt_get_def crm_service_def)
  then have c: "crash_ctx ''crm'' RestartAlways [] ?sv1"
    by (rule crash_ctx_own [rotated]) (intro own_status runner_example_ok)
  have u: "0 < tm_stable_after timings_default" by (simp add: timings_default_def from_millis_def)
  from quick_failure [OF c _ u, of "\<lparr>rn_phase = Attempting, rn_failures = 0, rn_watched = False\<rparr>" memory_saver "''exit''" "[]"]
  obtain rn sv w sl where fail: "runner_step timings_default memory_saver ''crm'' (EvAttempt (AtFailure ''exit'' 0))
      (\<lparr>rn_phase = Attempting, rn_failures = 0, rn_watched = False\<rparr>, ?sv1, []) = Some (rn, sv, w)"
    and "rn_phase rn = BackingOff" "bt_get (sv_slots sv) ''crm'' = Some sl"
    by (auto simp: gives_up_def)
  then have run: "runner_run timings_default memory_saver ''crm'' [EvTurn, EvAttempt (AtFailure ''exit'' 0)] (?rn, ?sv, []) = Some (rn, sv, w)"
    by (simp add: runner_example_turn)
  show ?thesis using runner_shows_phase [OF runner_run_reach [OF start run]] run \<open>rn_phase rn = BackingOff\<close>
      \<open>bt_get (sv_slots sv) ''crm'' = Some sl\<close> by fastforce
qed


end
