(* ===== verification/Tasks.thy ===== *)
theory Tasks
  imports Runner
begin

text \<open>
  Runner tasks of one service under interleaved requests, \<open>portman-daemon/src/supervisor.rs\<close>:
  \<open>up\<close> decides about a new task in one hold of the slots lock, \<open>stop_and_join\<close> takes the task out
  of the slot in one hold and awaits it afterwards, for 60 s at most: a task that takes longer keeps
  running, detached. Requests interleave between these holds.
\<close>

section \<open>Interleavings\<close>

text \<open>
  The slot, the tasks that still run, those a request is waiting for, those whose wait has timed out,
  and the next task number.
\<close>

record tasks =
  tk_slot :: slot
  tk_live :: "nat list"
  tk_joining :: "nat list"
  tk_detached :: "nat list"
  tk_next :: nat

definition tasks_runtime :: "tasks \<Rightarrow> runtime" where
  "tasks_runtime tk = \<lparr>rt_join = (\<lambda>_. []), rt_finished = (\<lambda>t. t \<notin> set (tk_live tk)), rt_fresh = (\<lambda>_. tk_next tk),
     rt_watch = (\<lambda>_. False), rt_watcher_done = (\<lambda>_. False)\<rparr>"

text \<open>One target's turn of \<open>up\<close>, and the two halves of \<open>stop_and_join\<close>.\<close>

definition up_hold :: "supervisor \<Rightarrow> string \<Rightarrow> tasks \<Rightarrow> tasks" where
  "up_hold sv name tk =
     (let sl = tk_slot tk; rt = tasks_runtime tk; spawn = spawn_needed rt (sl\<lparr>sl_desired := True\<rparr>) in
      tk\<lparr>tk_slot := start_slot rt sv name sl,
         tk_live := (if spawn then tk_next tk # tk_live tk else tk_live tk),
         tk_next := (if spawn then tk_next tk + 1 else tk_next tk)\<rparr>)"

definition stop_hold :: "tasks \<Rightarrow> tasks" where
  "stop_hold tk =
     tk\<lparr>tk_slot := (tk_slot tk)\<lparr>sl_desired := False, sl_watcher := False, sl_task := None\<rparr>,
        tk_joining := (case sl_task (tk_slot tk) of Some t \<Rightarrow> t # tk_joining tk | None \<Rightarrow> tk_joining tk)\<rparr>"

text \<open>With \<open>serial\<close>, no service is started while a request waits for its task to end.\<close>

inductive tasks_reach :: "bool \<Rightarrow> slot \<Rightarrow> tasks \<Rightarrow> bool" for serial sl0 where
  fresh: "sl_task sl0 = None \<Longrightarrow> tasks_reach serial sl0 \<lparr>tk_slot = sl0, tk_live = [], tk_joining = [], tk_detached = [], tk_next = 0\<rparr>"
| ups: "tasks_reach serial sl0 tk \<Longrightarrow> serial \<longrightarrow> tk_joining tk = [] \<Longrightarrow> tasks_reach serial sl0 (up_hold sv name tk)"
| stops: "tasks_reach serial sl0 tk \<Longrightarrow> tasks_reach serial sl0 (stop_hold tk)"
| ends: "tasks_reach serial sl0 tk \<Longrightarrow> t \<in> set (tk_live tk) \<Longrightarrow>
    tasks_reach serial sl0 (tk\<lparr>tk_live := removeAll t (tk_live tk)\<rparr>)"
| joins: "tasks_reach serial sl0 tk \<Longrightarrow> t \<in> set (tk_joining tk) \<Longrightarrow> t \<notin> set (tk_live tk) \<Longrightarrow>
    tasks_reach serial sl0 (tk\<lparr>tk_joining := removeAll t (tk_joining tk)\<rparr>)"
| times_out: "tasks_reach serial sl0 tk \<Longrightarrow> t \<in> set (tk_joining tk) \<Longrightarrow>
    tasks_reach serial sl0 (tk\<lparr>tk_joining := removeAll t (tk_joining tk), tk_detached := t # tk_detached tk\<rparr>)"

section \<open>One runner per service\<close>












text \<open>
  Nothing in the code imposes that order: a start that comes while another request still waits
  for the runner to stop finds no task in the slot, turns the wish on again and spawns a second
  runner. The first one, if it has not looked at its wish in between (it does not while it
  resolves secrets, for example), never sees the stop.
\<close>

lemma start_during_stop_doubles_runner:
  "\<exists>tk. tasks_reach False (slot_new ''/r'' crm_service False) tk \<and> tk_live tk = [1, 0] \<and> sl_desired (tk_slot tk)"
proof -
  let ?sl = "slot_new ''/r'' crm_service False" and ?sv = "runner_example True RestartAlways"
  let ?tk0 = "\<lparr>tk_slot = ?sl, tk_live = [], tk_joining = [], tk_detached = [], tk_next = 0\<rparr>"
  let ?tk = "up_hold ?sv ''crm'' (stop_hold (up_hold ?sv ''crm'' ?tk0))"
  have "tasks_reach False ?sl ?tk"
    by (intro tasks_reach.ups tasks_reach.stops tasks_reach.fresh) (simp_all add: slot_new_def)
  moreover have "tk_live ?tk = [1, 0] \<and> sl_desired (tk_slot ?tk)"
    by (simp add: up_hold_def stop_hold_def Let_def start_slot_def spawn_needed_def tasks_runtime_def slot_new_def)
  ultimately show ?thesis by blast
qed

text \<open>
  The wait for a stopping runner ends after 60 s, and the runner lives on outside the slot: the next
  start, though no request is waiting any more, spawns a second one and turns the wish on for both.
\<close>

lemma timed_out_stop_doubles_runner:
  "\<exists>tk. tasks_reach True (slot_new ''/r'' crm_service False) tk \<and> tk_joining tk = [] \<and> tk_live tk = [1, 0] \<and> sl_desired (tk_slot tk)"
proof -
  let ?sl = "slot_new ''/r'' crm_service False" and ?sv = "runner_example True RestartAlways"
  let ?tk0 = "\<lparr>tk_slot = ?sl, tk_live = [], tk_joining = [], tk_detached = [], tk_next = 0\<rparr>"
  let ?tk1 = "stop_hold (up_hold ?sv ''crm'' ?tk0)"
  let ?tk2 = "?tk1\<lparr>tk_joining := removeAll 0 (tk_joining ?tk1), tk_detached := 0 # tk_detached ?tk1\<rparr>"
  have r1: "tasks_reach True ?sl ?tk1" by (intro tasks_reach.ups tasks_reach.stops tasks_reach.fresh) (simp_all add: slot_new_def)
  have joining: "tk_joining ?tk1 = [0]"
    by (simp add: up_hold_def stop_hold_def Let_def start_slot_def spawn_needed_def tasks_runtime_def slot_new_def)
  have "tasks_reach True ?sl ?tk2" by (rule tasks_reach.times_out [OF r1]) (simp add: joining)
  then have "tasks_reach True ?sl (up_hold ?sv ''crm'' ?tk2)" by (rule tasks_reach.ups) (simp add: joining)
  moreover have "tk_live (up_hold ?sv ''crm'' ?tk2) = [1, 0] \<and> sl_desired (tk_slot (up_hold ?sv ''crm'' ?tk2)) \<and> tk_joining (up_hold ?sv ''crm'' ?tk2) = []"
    by (simp add: up_hold_def stop_hold_def Let_def start_slot_def spawn_needed_def tasks_runtime_def slot_new_def)
  ultimately show ?thesis by blast
qed

text \<open>
  A watched service whose runner has given up is parked, not ended: starting it finds its task
  alive, changes nothing it waits for, and leaves it failed.
\<close>

lemma up_leaves_parked:
  assumes "sl_task sl = Some t" and "\<not> rt_finished rt t" and "sl_desired sl"
  shows "start_slot rt sv name sl = sl"
  using assms by (simp add: start_slot_def spawn_needed_def Let_def)

lemma parked_waits_for_watch:
  assumes "rn_phase rn = Parked" and "\<not> stop_asked sv name" and "runner_step t save name ev (rn, sv, w) = Some r"
  shows "\<exists>ok. ev = EvRestart ok"
  using assms by (auto simp: runner_step_def parked_step_def split: event.splits if_splits)

end
