(* ===== verification/Spawn.thy ===== *)
theory Spawn
  imports Runner
begin

text \<open>
  One spawn attempt of a service, \<open>portman-daemon/src/supervisor.rs\<close>: \<open>supervise_once\<close>, the
  readiness gate, the graceful stop, and how the program and its \<open>PATH\<close> are found. An attempt is
  the list of its effects in order together with its outcome; what the child and the clock do
  is a script of what each await returned.
\<close>

section \<open>The environment of an attempt\<close>

datatype identity_policy = SwitchTo u32 u32 | CurrentUser | RefuseSpawn string

datatype mise_outcome = MiseOk string | MiseNonZero | MiseFailed | MiseTimedOut

record ('e, 'w) spawn_env =
  sp_base :: base_env
  sp_identity :: identity_policy
  sp_timings :: timings
  sp_own_group :: i32
  sp_providers :: "'w provider_env"
  sp_dotenv :: "'e dotenv"
  sp_show_err :: "'e \<Rightarrow> string"
  sp_is_dir :: "path \<Rightarrow> bool"
  sp_is_file :: "path \<Rightarrow> bool"
  sp_is_exec :: "path \<Rightarrow> bool"
  sp_mise :: "path \<Rightarrow> path \<Rightarrow> mise_outcome"  \<comment> \<open>\<open>mise bin-paths\<close> of a binary in a directory\<close>
  sp_spawn :: "path \<Rightarrow> string list \<Rightarrow> (string, string) btree \<Rightarrow> string + u32 option"
  sp_now :: u64

definition service_path :: "path \<Rightarrow> string list \<Rightarrow> string" where
  "service_path home mise_paths =
     join_str '':'' (filter (\<lambda>p. p \<noteq> []) (map trim mise_paths) @
       [home @ ''/.local/bin'', home @ ''/.cargo/bin'', ''/opt/homebrew/bin'', ''/usr/local/bin'', ''/usr/bin'', ''/bin''])"

definition mise_candidates :: "path \<Rightarrow> path list" where
  "mise_candidates home =
     [path_join home ''.local/bin/mise'', ''/opt/homebrew/bin/mise'', ''/usr/local/bin/mise'', path_join home ''.cargo/bin/mise'']"

definition mise_bin_paths :: "('e, 'w) spawn_env \<Rightarrow> service_definition \<Rightarrow> string list" where
  "mise_bin_paths env sd =
     (let home = be_home (sp_base env) in
      if \<not> sp_is_dir env (path_join home ''.local/share/mise/shims'') then []
      else (case List.find (sp_is_file env) (mise_candidates home) of
        None \<Rightarrow> []
      | Some mise \<Rightarrow>
          (case sp_mise env mise (sd_dir sd) of
             MiseOk stdout \<Rightarrow> filter (starts_with ''/'') (map trim (str_lines (from_utf8_lossy stdout)))
           | _ \<Rightarrow> [])))"

definition resolve_program :: "('e, 'w) spawn_env \<Rightarrow> path \<Rightarrow> string \<Rightarrow> string \<Rightarrow> string + path" where
  "resolve_program env dir argv0 path_value =
     (if CHR ''/'' \<in> set argv0 then
        (let p = path_join dir argv0 in
         if sp_is_file env p then Inr p else Inl (''run command `'' @ argv0 @ ''` not found at '' @ p))
      else
        (case List.find (\<lambda>c. sp_is_file env c \<and> sp_is_exec env c)
             (map (\<lambda>entry. path_join entry argv0) (filter (\<lambda>entry. entry \<noteq> []) (split_on (CHR '':'') path_value))) of
           Some c \<Rightarrow> Inr c
         | None \<Rightarrow> Inl (''run command `'' @ argv0 @ ''` not found in service PATH'')))"

section \<open>Up to the spawn\<close>

text \<open>
  \<open>ASpawn\<close> carries the identity, the directory, the program, its arguments and the environment.
  The policy for secrets that cannot be resolved comes first.
\<close>

fun secrets_policy ::
  "bool \<Rightarrow> secrets_error + (string \<times> string) list \<Rightarrow> attempt + (string \<times> string) list \<times> string" where
  "secrets_policy optional (Inr vals) = Inr (vals, [])"
| "secrets_policy optional (Inl err) =
     (if optional then Inr ([], ''secrets unavailable ('' @ se_message err @ ''); running from env_files only'')
      else if se_transient err then Inl (AtFailure (''secrets: '' @ se_message err) 0)
      else Inl (AtFatal (''secrets: '' @ se_message err)))"

definition masked_values :: "service_definition \<Rightarrow> (string, string) btree \<Rightarrow> string list" where
  "masked_values sd envv = map snd (filter (\<lambda>(key, _). \<not> is_base_key key \<and> \<not> bt_contains (sd_env sd) key) envv)"

datatype action =
  ARegister "string list" | ASpawn identity_policy path path "string list" "(string, string) btree" | AMark running_marker | APersist
| AReady string | ASignal i32 signal | ADrain | AUnregister

definition signals :: "(i32 \<times> signal) list \<Rightarrow> action list" where
  "signals ss = map (\<lambda>(pgid, sig). ASignal pgid sig) ss"

definition compose_detail :: "('e, 'w) spawn_env \<Rightarrow> path \<times> 'e \<Rightarrow> string" where
  "compose_detail env e = ''env_file '' @ fst e @ '': '' @ sp_show_err env (snd e)"

text \<open>The environment and the note shown once ready, or the attempt's outcome without a spawn.\<close>

definition compose_attempt ::
  "('e, 'w) spawn_env \<Rightarrow> service_definition \<Rightarrow> secrets_error + (string \<times> string) list
   \<Rightarrow> attempt + (string, string) btree \<times> string \<times> string" where
  "compose_attempt env sd resolved =
     and_then (secrets_policy (sd_secrets_optional sd) resolved) (\<lambda>(vals, ready_note).
       let path_value = service_path (be_home (sp_base env)) (mise_bin_paths env sd) in
       and_then (map_err (\<lambda>e. AtFatal (compose_detail env e))
           (compose (sp_dotenv env) (sp_base env) path_value (sd_env_files sd) vals (sd_env sd)))
         (\<lambda>envv. Inr (envv, unwrap_or (bt_get envv ''PATH'') path_value, ready_note)))"

section \<open>The life of the child\<close>

text \<open>How the child ended, as printed, or why waiting for it failed.\<close>

definition describe_exit :: "string + string \<Rightarrow> string" where
  "describe_exit ended = (case ended of Inr s \<Rightarrow> ''exited ('' @ s @ '')'' | Inl err \<Rightarrow> ''wait failed ('' @ err @ '')'')"

text \<open>
  What one turn of the readiness gate sees. A poll carries whether the port accepted and the
  time since the gate began.
\<close>

datatype ready_event = ReExited "string + string" | ReStop | ReElapsed | RePolled bool duration

datatype ready_outcome = RdReady | RdExited string | RdTimeout | RdStop

fun wait_port :: "duration \<Rightarrow> ready_event list \<Rightarrow> ready_outcome option" where
  "wait_port limit [] = None"
| "wait_port limit (ReExited s # evs) = Some (RdExited (''process '' @ describe_exit s @ '' before becoming ready''))"
| "wait_port limit (ReStop # evs) = Some RdStop"
| "wait_port limit (ReElapsed # evs) = None"
| "wait_port limit (RePolled connected now # evs) =
     (if connected then Some RdReady else if now \<ge> limit then Some RdTimeout else wait_port limit evs)"

fun wait_delay :: "ready_event list \<Rightarrow> ready_outcome option" where
  "wait_delay (ReExited s # evs) = Some (RdExited (''process '' @ describe_exit s @ '' before its readiness delay''))"
| "wait_delay (ReStop # evs) = Some RdStop"
| "wait_delay (ReElapsed # evs) = Some RdReady"
| "wait_delay _ = None"

definition wait_ready :: "service_definition \<Rightarrow> timings \<Rightarrow> ready_event list \<Rightarrow> ready_outcome option" where
  "wait_ready sd t evs =
     (case sd_ready sd of
        ReadyNone \<Rightarrow> Some RdReady
      | ReadyDelayMs _ \<Rightarrow> wait_delay evs
      | ReadyPort _ \<Rightarrow> wait_port (tm_ready_timeout t) evs)"

datatype steady_event = SyExited "string + string" | SyStop | SyRestart

text \<open>The rest of the script: whether the leader outlives the grace period, and the uptime at the end.\<close>

record script =
  sc_ready :: "ready_event list"
  sc_steady :: steady_event
  sc_outlives_grace :: bool
  sc_uptime :: duration

definition stop_child_group :: "i32 \<Rightarrow> i32 \<Rightarrow> bool \<Rightarrow> (i32 \<times> signal) list" where
  "stop_child_group own pgid outlives =
     signal_group own pgid SigTerm @ (if outlives then signal_group own pgid SigKill else []) @
     signal_group own pgid SigKill"

definition run_child ::
  "i32 \<Rightarrow> timings \<Rightarrow> service_definition \<Rightarrow> i32 \<Rightarrow> string \<Rightarrow> script \<Rightarrow> (attempt \<times> action list) option" where
  "run_child own t sd pgid ready_note sc =
     (let stop = signals (stop_child_group own pgid (sc_outlives_grace sc)); kill = signals (signal_group own pgid SigKill) in
      case wait_ready sd t (sc_ready sc) of
        None \<Rightarrow> None
      | Some RdStop \<Rightarrow> Some (AtStopped, stop)
      | Some (RdExited detail) \<Rightarrow> Some (AtFailure detail (sc_uptime sc), kill)
      | Some RdTimeout \<Rightarrow>
          Some (AtFailure (''readiness check did not pass within '' @ show_nat (as_millis (tm_ready_timeout t)) @ ''ms'')
                  (sc_uptime sc), stop)
      | Some RdReady \<Rightarrow>
          (case sc_steady sc of
             SyExited s \<Rightarrow> Some (AtFailure (''process '' @ describe_exit s) (sc_uptime sc), AReady ready_note # kill)
           | SyStop \<Rightarrow> Some (AtStopped, AReady ready_note # stop)
           | SyRestart \<Rightarrow> Some (AtRestart, AReady ready_note # stop)))"

section \<open>The attempt\<close>

definition spawn_attempt ::
  "('e, 'w) spawn_env \<Rightarrow> service_definition \<Rightarrow> (string, string) btree \<times> string \<times> string \<Rightarrow> script
   \<Rightarrow> (attempt \<times> action list) option" where
  "spawn_attempt env sd prepared sc =
     (case prepared of (envv, effective_path, ready_note) \<Rightarrow>
        let register = ARegister (masked_values sd envv) in
        (case resolve_program env (sd_dir sd) (hd (sd_run sd)) effective_path of
           Inl e \<Rightarrow> Some (AtFailure e 0, [register])
         | Inr program \<Rightarrow>
             let argv = program # tl (sd_run sd); 
                 spawn = ASpawn (sp_identity env) (sd_dir sd) program (tl (sd_run sd)) envv in
             (case sp_spawn env program (tl (sd_run sd)) envv of
                Inl err \<Rightarrow> Some (AtFailure (''spawning '' @ program @ '': '' @ err) 0, [register, spawn])
              | Inr None \<Rightarrow> Some (AtFailure ''child exited before its pid could be read'' (sc_uptime sc), [register, spawn])
              | Inr (Some pid) \<Rightarrow>
                  let mark = AMark \<lparr>rm_pid = pid, rm_pgid = pid, rm_spawn_unix_ms = sp_now env, rm_argv = argv\<rparr> in
                  map_option (\<lambda>(att, acts). (att, [register, spawn, mark, APersist] @ acts @ [ADrain, AUnregister]))
                    (run_child (sp_own_group env) (sp_timings env) sd pid ready_note sc))))"

definition supervise_once ::
  "('e, 'w) spawn_env \<Rightarrow> string \<Rightarrow> supervisor \<Rightarrow> script \<Rightarrow> 'w secrets_source
   \<Rightarrow> (attempt \<times> action list) option \<times> 'w secrets_source" where
  "supervise_once env name sv sc src =
     (case bt_get (sv_slots sv) name of
        None \<Rightarrow> (Some (AtStopped, []), src)
      | Some sl \<Rightarrow>
          (let sd = sl_def sl in
           case sp_identity env of
             RefuseSpawn reason \<Rightarrow> (Some (AtFailure reason 0, []), src)
           | _ \<Rightarrow>
               let blocks = map (\<lambda>(k, v). (k, psc_config v)) (sv_secrets sv) in
               (case resolve_service_secrets (sp_providers env) sd blocks src of
                  (resolved, src) \<Rightarrow>
                    (case compose_attempt env sd resolved of
                       Inl att \<Rightarrow> (Some (att, []), src)
                     | Inr prepared \<Rightarrow> (spawn_attempt env sd prepared sc, src)))))"

section \<open>What every attempt does\<close>

text \<open>The effects of a spawned child's life: readiness at most once, then its signals.\<close>

lemma run_child_shape:
  assumes "run_child own t sd pgid msg sc = Some (att, acts)"
  shows "\<exists>ready sigs. acts = ready @ signals sigs @ signals (signal_group own pgid SigKill) \<and>
    (ready = [] \<or> ready = [AReady msg]) \<and>
    (att = AtStopped \<or> att = AtRestart \<longrightarrow> (\<exists>rest. sigs = signal_group own pgid SigTerm @ rest)) \<and>
    (\<exists>d. att = AtStopped \<or> att = AtRestart \<or> att = AtFailure d (sc_uptime sc))"
proof -
  have "signals (stop_child_group own pgid (sc_outlives_grace sc)) =
      signals (signal_group own pgid SigTerm @ (if sc_outlives_grace sc then signal_group own pgid SigKill else [])) @
      signals (signal_group own pgid SigKill)"
    by (simp add: stop_child_group_def signals_def)
  then have stop: "\<exists>sigs rest. signals (stop_child_group own pgid (sc_outlives_grace sc)) =
      signals sigs @ signals (signal_group own pgid SigKill) \<and> sigs = signal_group own pgid SigTerm @ rest"
    by blast
  have kill: "\<exists>sigs. signals (signal_group own pgid SigKill) = signals sigs @ signals (signal_group own pgid SigKill)"
    by (rule exI [of _ "[]"]) (simp add: signals_def)
  from assms stop kill show ?thesis
    by (auto simp: run_child_def Let_def split: option.splits ready_outcome.splits steady_event.splits) (metis append_Cons append_Nil)+
qed

lemma supervise_once_cases:
  assumes "supervise_once env name sv sc src = (Some (att, acts), src')"
  obtains (nothing) "acts = []"
  | (attempted) sl resolved envv path msg where "bt_get (sv_slots sv) name = Some sl"
      and "\<And>reason. sp_identity env \<noteq> RefuseSpawn reason"
      and "resolve_service_secrets (sp_providers env) (sl_def sl) (map (\<lambda>(k, v). (k, psc_config v)) (sv_secrets sv)) src = (resolved, src')"
      and "compose_attempt env (sl_def sl) resolved = Inr (envv, path, msg)"
      and "spawn_attempt env (sl_def sl) (envv, path, msg) sc = Some (att, acts)"
  using assms
  by (auto simp: supervise_once_def Let_def split: option.splits identity_policy.splits prod.splits sum.splits)

lemma spawn_attempt_cases:
  assumes "spawn_attempt env sd (envv, path, msg) sc = Some (att, acts)"
  obtains (unresolved) "acts = [ARegister (masked_values sd envv)]"
  | (unspawned) program where
      "acts = [ARegister (masked_values sd envv), ASpawn (sp_identity env) (sd_dir sd) program (tl (sd_run sd)) envv]"
  | (lived) program m ready sigs where
      "acts = [ARegister (masked_values sd envv), ASpawn (sp_identity env) (sd_dir sd) program (tl (sd_run sd)) envv,
         AMark m, APersist] @ ready @ signals sigs @ signals (signal_group (sp_own_group env) (rm_pgid m) SigKill) @
         [ADrain, AUnregister]"
      and "ready = [] \<or> ready = [AReady msg]"
      and "att = AtStopped \<or> att = AtRestart \<longrightarrow> (\<exists>more. sigs = signal_group (sp_own_group env) (rm_pgid m) SigTerm @ more)"
proof (cases "resolve_program env (sd_dir sd) (hd (sd_run sd)) path")
  case (Inl e)
  with assms show thesis by (intro unresolved) (simp add: spawn_attempt_def Let_def)
next
  case (Inr program)
  show thesis
  proof (cases "\<exists>pid. sp_spawn env program (tl (sd_run sd)) envv = Inr (Some pid)")
    case False
    with assms Inr show thesis
      by (intro unspawned [of program]) (auto simp: spawn_attempt_def Let_def split: sum.splits option.splits)
  next
    case True
    then obtain pid where pid: "sp_spawn env program (tl (sd_run sd)) envv = Inr (Some pid)" by blast
    define m where "m = \<lparr>rm_pid = pid, rm_pgid = pid, rm_spawn_unix_ms = sp_now env, rm_argv = program # tl (sd_run sd)\<rparr>"
    obtain acts' where run: "run_child (sp_own_group env) (sp_timings env) sd pid msg sc = Some (att, acts')"
      and acts: "acts = [ARegister (masked_values sd envv), ASpawn (sp_identity env) (sd_dir sd) program (tl (sd_run sd)) envv,
        AMark m, APersist] @ acts' @ [ADrain, AUnregister]"
      using assms Inr pid by (auto simp: spawn_attempt_def Let_def m_def)
    have "rm_pgid m = pid" by (simp add: m_def)
    with run_child_shape [OF run] obtain ready sigs where
      "acts' = ready @ signals sigs @ signals (signal_group (sp_own_group env) (rm_pgid m) SigKill)"
      "ready = [] \<or> ready = [AReady msg]"
      "att = AtStopped \<or> att = AtRestart \<longrightarrow> (\<exists>more. sigs = signal_group (sp_own_group env) (rm_pgid m) SigTerm @ more)"
      by auto
    with acts show thesis by (intro lived [of program m ready sigs]) simp_all
  qed
qed

lemma in_signals: "a \<in> set (signals ss) \<longleftrightarrow> (\<exists>g s. (g, s) \<in> set ss \<and> a = ASignal g s)"
  by (auto simp: signals_def)

lemma masked_values_cover:
  "(key, v) \<in> set envv \<Longrightarrow> \<not> is_base_key key \<Longrightarrow> \<not> bt_contains (sd_env sd) key \<Longrightarrow> v \<in> set (masked_values sd envv)"
  by (force simp: masked_values_def)

text \<open>
  What follows a spawn whose child has a pid: the marker is set and saved, the service may become
  ready, and at the end the group is killed, the output drained and the masking released; a stop
  or a restart asks with TERM first.
\<close>

definition swept :: "i32 \<Rightarrow> attempt \<Rightarrow> running_marker \<Rightarrow> action list \<Rightarrow> bool" where
  "swept own att m rest \<longleftrightarrow>
     (\<exists>ready sigs. rest = [AMark m, APersist] @ ready @ signals sigs @ signals (signal_group own (rm_pgid m) SigKill) @
         [ADrain, AUnregister] \<and>
       (\<forall>a\<in>set ready. \<exists>msg. a = AReady msg) \<and>
       (att = AtStopped \<or> att = AtRestart \<longrightarrow> (\<exists>more. sigs = signal_group own (rm_pgid m) SigTerm @ more)))"

text \<open>
  C14: No service outlives its attempt or prints unmasked. An attempt that spawns a child has
  registered every value the service is given, its base variables and inline values aside, before
  the child exists, and keeps them registered until its output has been drained. However the
  attempt ends once the child's group is known, the last signal sent is a KILL to that group (the
  reserved groups and the daemon's own are never signalled), and an attempt that ends by a stop or
  a restart sends TERM first. A service is never spawned when its identity is refused.
\<close>

theorem spawn_masks_and_sweeps:
  assumes "supervise_once env name sv sc src = (Some (att, acts), src')"
    and "ASpawn ident dir program args envv \<in> set acts"
  shows "(\<exists>vals rest. acts = ARegister vals # ASpawn ident dir program args envv # rest \<and>
      (\<forall>sl key v. bt_get (sv_slots sv) name = Some sl \<longrightarrow> (key, v) \<in> set envv \<longrightarrow> \<not> is_base_key key \<longrightarrow>
        \<not> bt_contains (sd_env (sl_def sl)) key \<longrightarrow> v \<in> set vals) \<and>
      (\<forall>m. AMark m \<in> set rest \<longrightarrow> swept (sp_own_group env) att m rest)) \<and>
    (\<forall>reason. ident \<noteq> RefuseSpawn reason)"
  using assms(1)
proof (cases rule: supervise_once_cases)
  case nothing
  with assms(2) show ?thesis by simp
next
  case (attempted sl resolved envv' path msg)
  note sl = attempted(1) and ident = attempted(2)
  from attempted(5) show ?thesis
  proof (cases rule: spawn_attempt_cases)
    case unresolved
    with assms(2) show ?thesis by simp
  next
    case (unspawned program')
    with assms(2) sl ident show ?thesis by (auto intro: masked_values_cover)
  next
    case (lived program' m ready sigs)
    define rest where "rest = [AMark m, APersist] @ ready @ signals sigs @
      signals (signal_group (sp_own_group env) (rm_pgid m) SigKill) @ [ADrain, AUnregister]"
    have only: "m' = m" if "AMark m' \<in> set rest" for m' using that lived(2) by (auto simp: rest_def in_signals)
    have "ASpawn ident dir program args envv \<notin> set rest" using lived(2) by (auto simp: rest_def in_signals)
    with assms(2) lived(1) have eq: "ident = sp_identity env" "envv = envv'"
      "acts = ARegister (masked_values (sl_def sl) envv') # ASpawn ident dir program args envv # rest"
      by (auto simp: rest_def)
    have cover: "\<forall>sl' key v. bt_get (sv_slots sv) name = Some sl' \<longrightarrow> (key, v) \<in> set envv \<longrightarrow> \<not> is_base_key key \<longrightarrow>
        \<not> bt_contains (sd_env (sl_def sl')) key \<longrightarrow> v \<in> set (masked_values (sl_def sl) envv')"
      using sl eq(2) masked_values_cover [of _ _ envv' "sl_def sl"] by auto
    have "swept (sp_own_group env) att m rest"
      using lived(2,3) unfolding rest_def swept_def by (intro exI [of _ ready] exI [of _ sigs]) auto
    then have shape: "\<forall>m'. AMark m' \<in> set rest \<longrightarrow> swept (sp_own_group env) att m' rest" using only by blast
    have "\<forall>reason. ident \<noteq> RefuseSpawn reason" using ident eq(1) by simp
    with eq(3) cover shape show ?thesis by blast
  qed
qed

section \<open>How attempts fail\<close>

text \<open>
  Each way an attempt fails before its child exists is handled as documented. A refused
  identity fails the attempt; with the secrets optional, unavailable ones leave the service on its
  env files alone, with a visible note; otherwise a transient failure is an ordinary, retried
  failure and any other one is final; a missing or malformed env file is final; a program that is
  not found is retried. None of these spawns anything.
\<close>

theorem attempt_failure_policy:
  assumes "bt_get (sv_slots sv) name = Some sl" and "supervise_once env name sv sc src = (Some (att, acts), src')"
    and "resolve_service_secrets (sp_providers env) (sl_def sl) (map (\<lambda>(k, v). (k, psc_config v)) (sv_secrets sv)) src = (resolved, s)"
  shows "(\<forall>reason. sp_identity env = RefuseSpawn reason \<longrightarrow> att = AtFailure reason 0 \<and> acts = []) \<and>
    ((\<forall>reason. sp_identity env \<noteq> RefuseSpawn reason) \<longrightarrow>
      (\<forall>err. resolved = Inl err \<longrightarrow> \<not> sd_secrets_optional (sl_def sl) \<longrightarrow> acts = [] \<and>
        att = (if se_transient err then AtFailure (''secrets: '' @ se_message err) 0 else AtFatal (''secrets: '' @ se_message err))) \<and>
      (\<forall>err. resolved = Inl err \<longrightarrow> sd_secrets_optional (sl_def sl) \<longrightarrow>
        compose_attempt env (sl_def sl) resolved =
          map_sum id (\<lambda>(envv, path, _). (envv, path, ''secrets unavailable ('' @ se_message err @ ''); running from env_files only''))
            (compose_attempt env (sl_def sl) (Inr []))) \<and>
      (\<forall>vals e. resolved = Inr vals \<longrightarrow>
        compose (sp_dotenv env) (sp_base env) (service_path (be_home (sp_base env)) (mise_bin_paths env (sl_def sl)))
          (sd_env_files (sl_def sl)) vals (sd_env (sl_def sl)) = Inl e \<longrightarrow>
        att = AtFatal (compose_detail env e) \<and> acts = []))"
proof -
  let ?sd = "sl_def sl"
  have refused: "att = AtFailure reason 0 \<and> acts = []" if "sp_identity env = RefuseSpawn reason" for reason
    using assms(1,2) that by (simp add: supervise_once_def Let_def)
  have composed: "att = att' \<and> acts = []"
    if "\<forall>reason. sp_identity env \<noteq> RefuseSpawn reason" "compose_attempt env ?sd resolved = Inl att'" for att'
    using assms that by (auto simp: supervise_once_def Let_def split: identity_policy.splits)
  have fails: "compose_attempt env ?sd (Inl err) =
      Inl (if se_transient err then AtFailure (''secrets: '' @ se_message err) 0 else AtFatal (''secrets: '' @ se_message err))"
    if "\<not> sd_secrets_optional ?sd" for err
    using that by (simp add: compose_attempt_def)
  have falls_back: "compose_attempt env ?sd (Inl err) =
      map_sum id (\<lambda>(envv, path, _). (envv, path, ''secrets unavailable ('' @ se_message err @ ''); running from env_files only''))
        (compose_attempt env ?sd (Inr []))"
    if "sd_secrets_optional ?sd" for err
  proof -
    define c where "c = compose (sp_dotenv env) (sp_base env) (service_path (be_home (sp_base env)) (mise_bin_paths env ?sd))
      (sd_env_files ?sd) [] (sd_env ?sd)"
    from that show ?thesis by (cases c) (simp_all add: compose_attempt_def Let_def flip: c_def)
  qed
  have malformed: "compose_attempt env ?sd (Inr vals) = Inl (AtFatal (compose_detail env e))"
    if "compose (sp_dotenv env) (sp_base env) (service_path (be_home (sp_base env)) (mise_bin_paths env ?sd))
      (sd_env_files ?sd) vals (sd_env ?sd) = Inl e" for vals e
    using that by (simp add: compose_attempt_def)
  show ?thesis
  proof (intro conjI allI impI)
    show "att = AtFailure reason 0" "acts = []" if "sp_identity env = RefuseSpawn reason" for reason
      using refused [OF that] by simp_all
  next
    fix err assume "\<forall>reason. sp_identity env \<noteq> RefuseSpawn reason" "resolved = Inl err" "\<not> sd_secrets_optional ?sd"
    with composed fails show "acts = []"
      "att = (if se_transient err then AtFailure (''secrets: '' @ se_message err) 0 else AtFatal (''secrets: '' @ se_message err))"
      by simp_all
  next
    fix err assume "resolved = Inl err" "sd_secrets_optional ?sd"
    with falls_back show "compose_attempt env ?sd resolved =
        map_sum id (\<lambda>(envv, path, _). (envv, path, ''secrets unavailable ('' @ se_message err @ ''); running from env_files only''))
          (compose_attempt env ?sd (Inr []))" by simp
  next
    fix vals e assume "\<forall>reason. sp_identity env \<noteq> RefuseSpawn reason" "resolved = Inr vals"
      "compose (sp_dotenv env) (sp_base env) (service_path (be_home (sp_base env)) (mise_bin_paths env ?sd))
        (sd_env_files ?sd) vals (sd_env ?sd) = Inl e"
    with composed malformed show "att = AtFatal (compose_detail env e)" "acts = []" by blast+
  qed
qed

lemma wait_port_decides:
  assumes "0 < poll" and "\<forall>i<length evs. \<exists>c now. evs ! i = RePolled c now \<and> now \<ge> start + (i + 1) * poll"
    and "limit \<le> start + length evs * poll" and "evs \<noteq> []"
  shows "wait_port limit evs \<noteq> None"
  using assms(2-)
proof (induction evs arbitrary: start)
  case (Cons ev evs)
  from Cons.prems(1) obtain c now where ev: "ev = RePolled c now" "now \<ge> start + poll" by (force dest: spec [of _ 0])
  show ?case
  proof (cases "c \<or> now \<ge> limit")
    case False
    with ev Cons.prems(2) have "evs \<noteq> []" by auto
    moreover have "\<forall>i<length evs. \<exists>c now. evs ! i = RePolled c now \<and> now \<ge> (start + poll) + (i + 1) * poll"
      using Cons.prems(1) by (auto simp: algebra_simps dest: spec [of _ "Suc _"])
    ultimately have "wait_port limit evs \<noteq> None" using Cons.IH [of "start + poll"] Cons.prems(2) by (simp add: algebra_simps)
    with ev False show ?thesis by simp
  qed (use ev in auto)
qed simp

section \<open>Examples\<close>

definition spawn_example :: "(string, unit) spawn_env" where
  "spawn_example = \<lparr>sp_base = \<lparr>be_user = ''ada'', be_home = ''/home/ada''\<rparr>, sp_identity = CurrentUser,
     sp_timings = timings_default, sp_own_group = 1,
     sp_providers = \<lparr>pe_exec = (\<lambda>_ _ _ w. (ExecTimeout, w)), pe_http = (\<lambda>_ w. (Inl [], w)), pe_now = (\<lambda>_. 0),
       pe_is_file = (\<lambda>_. False), pe_de_item = Inl, pe_de_login = (\<lambda>_. Inl []), pe_de_secrets = (\<lambda>_. Inl [])\<rparr>,
     sp_dotenv = (\<lambda>p. Inl ''missing''), sp_show_err = id, sp_is_dir = (\<lambda>_. False),
     sp_is_file = (\<lambda>p. p = ''/usr/bin/run''), sp_is_exec = (\<lambda>_. True), sp_mise = (\<lambda>_ _. MiseFailed),
     sp_spawn = (\<lambda>_ _ _. Inr (Some 4711)), sp_now = 1700000000000\<rparr>"

definition spawn_source :: "unit secrets_source" where
  "spawn_source = \<lparr>src_creds = credentials_default, src_cache = [], src_tokens = [], src_world = ()\<rparr>"

definition spawn_script :: script where
  "spawn_script = \<lparr>sc_ready = [], sc_steady = SyStop, sc_outlives_grace = False, sc_uptime = 0\<rparr>"

abbreviation example_path :: string where
  "example_path \<equiv> ''/home/ada/.local/bin:/home/ada/.cargo/bin:/opt/homebrew/bin:/usr/local/bin:/usr/bin:/bin''"

definition example_vars :: "(string, string) btree" where
  "example_vars = [(''HOME'', ''/home/ada''), (''PATH'', example_path), (''TMPDIR'', ''/tmp''), (''USER'', ''ada'')]"

lemma spawn_example_composed:
  "compose_attempt spawn_example (crm_service\<lparr>sd_restart := RestartAlways\<rparr>) (Inr []) = Inr (example_vars, example_path, [])"
proof -
  have p: "service_path ''/home/ada'' [] = example_path" by code_simp
  have "compose (\<lambda>p. Inl ''missing'' :: string + (string + string \<times> string) list) \<lparr>be_user = ''ada'', be_home = ''/home/ada''\<rparr>
      example_path [] [] [] = Inr example_vars" by code_simp
  moreover have "bt_get example_vars ''PATH'' = Some example_path" by (simp add: example_vars_def bt_get_def)
  ultimately show ?thesis
    by (simp add: compose_attempt_def spawn_example_def mise_bin_paths_def crm_service_def p)
qed

lemma spawn_example_run:
  "supervise_once spawn_example ''crm'' (runner_example True RestartAlways) spawn_script spawn_source =
     (Some (AtStopped, [ARegister [], ASpawn CurrentUser ''/r'' ''/usr/bin/run'' [] example_vars,
        AMark \<lparr>rm_pid = 4711, rm_pgid = 4711, rm_spawn_unix_ms = 1700000000000, rm_argv = [''/usr/bin/run'']\<rparr>, APersist,
        AReady [], ASignal 4711 SigTerm, ASignal 4711 SigKill, ADrain, AUnregister]), spawn_source)"
proof -
  let ?sd = "crm_service\<lparr>sd_restart := RestartAlways\<rparr>"
  have r: "resolve_service_secrets (sp_providers spawn_example) ?sd bs spawn_source = (Inr [], spawn_source)" for bs
    by (simp add: resolve_service_secrets_def io_then_def io_ret_def crm_service_def)
  have m: "masked_values ?sd example_vars = []" by (simp add: masked_values_def example_vars_def is_base_key_def base_keys_def)
  have "resolve_program spawn_example ''/r'' ''run'' example_path = Inr ''/usr/bin/run''"
    by (simp add: resolve_program_def spawn_example_def path_join_def is_absolute_def starts_with_def)
  then have "spawn_attempt spawn_example ?sd (example_vars, example_path, []) spawn_script =
      Some (AtStopped, [ARegister [], ASpawn CurrentUser ''/r'' ''/usr/bin/run'' [] example_vars,
        AMark \<lparr>rm_pid = 4711, rm_pgid = 4711, rm_spawn_unix_ms = 1700000000000, rm_argv = [''/usr/bin/run'']\<rparr>, APersist,
        AReady [], ASignal 4711 SigTerm, ASignal 4711 SigKill, ADrain, AUnregister])"
    using m
    by (simp add: spawn_attempt_def crm_service_def) 
      (simp add: spawn_example_def run_child_def wait_ready_def spawn_script_def stop_child_group_def signal_group_def signals_def Let_def)
  then show ?thesis
    using r spawn_example_composed
    by (simp add: supervise_once_def runner_example_def bt_get_def slot_new_def Let_def) (simp add: spawn_example_def)
qed

theorem spawn_masks_and_sweeps_witness:
  "\<exists>rest. swept 1 AtStopped \<lparr>rm_pid = 4711, rm_pgid = 4711, rm_spawn_unix_ms = 1700000000000, rm_argv = [''/usr/bin/run'']\<rparr> rest"
  using spawn_masks_and_sweeps [OF spawn_example_run, of CurrentUser "''/r''" "''/usr/bin/run''" "[]" example_vars]
  by (auto simp: spawn_example_def)

theorem attempt_failure_policy_witness:
  "\<exists>att acts. fst (supervise_once (spawn_example\<lparr>sp_identity := RefuseSpawn ''no user''\<rparr>) ''crm''
      (runner_example True RestartAlways) spawn_script spawn_source) = Some (att, acts) \<and>
    att = AtFailure ''no user'' 0 \<and> acts = []"
proof -
  let ?env = "spawn_example\<lparr>sp_identity := RefuseSpawn ''no user''\<rparr>" and ?sv = "runner_example True RestartAlways"
  obtain sl where sl: "bt_get (sv_slots ?sv) ''crm'' = Some sl" by (simp add: runner_example_def bt_get_def)
  obtain resolved s where r: "resolve_service_secrets (sp_providers ?env) (sl_def sl)
      (map (\<lambda>(k, v). (k, psc_config v)) (sv_secrets ?sv)) spawn_source = (resolved, s)" by fastforce
  have run: "supervise_once ?env ''crm'' ?sv spawn_script spawn_source = (Some (AtFailure ''no user'' 0, []), spawn_source)"
    using sl by (simp add: supervise_once_def Let_def)
  from attempt_failure_policy [OF sl run r] run show ?thesis by simp
qed

end
