(* ===== verification/Ipc.thy ===== *)
theory Ipc
  imports Protocol Prelude "HOL-Library.Word"
begin

text \<open>
  The control socket: framing (\<open>portman-protocol/src/transport.rs\<close>) and who may use it
  (\<open>portman-daemon/src/ipc_server.rs\<close>). Serialisation is a parameter; a stream is the bytes still
  to be read.
\<close>

section \<open>Frames\<close>

definition max_frame_bytes :: nat where
  "max_frame_bytes = 2 ^ 20"

datatype 'e frame_error =
  Serializing 'e | FrameTooLarge nat | ReadingLength | ReadingBody | Deserializing 'e

text \<open>\<open>u32::to_be_bytes\<close> and \<open>from_be_bytes\<close>.\<close>

definition be_bytes :: "nat \<Rightarrow> string" where
  "be_bytes n = map (\<lambda>i. char_of (n div 256 ^ i mod 256)) [3, 2, 1, 0]"

definition from_be_bytes :: "string \<Rightarrow> nat" where
  "from_be_bytes bs = foldl (\<lambda>n c. 256 * n + of_char c) 0 bs"

definition write_frame :: "('a \<Rightarrow> 'e + string) \<Rightarrow> 'a \<Rightarrow> 'e frame_error + string" where
  "write_frame enc x =
     and_then (map_err Serializing (enc x)) (\<lambda>bytes.
     and_then (ensure (length bytes < 2 ^ 32) (FrameTooLarge (length bytes))) (\<lambda>_.
     and_then (ensure (length bytes \<le> max_frame_bytes) (FrameTooLarge (length bytes))) (\<lambda>_.
       Inr (be_bytes (length bytes) @ bytes))))"

text \<open>\<open>read_exact\<close>: the next \<open>n\<close> bytes, or an error at the end of the stream.\<close>

definition read_exact :: "'e \<Rightarrow> nat \<Rightarrow> string \<Rightarrow> 'e + string \<times> string" where
  "read_exact e n stream = (if length stream < n then Inl e else Inr (take n stream, drop n stream))"

definition read_frame :: "(string \<Rightarrow> 'e + 'a) \<Rightarrow> string \<Rightarrow> 'e frame_error + 'a \<times> string" where
  "read_frame dec stream =
     and_then (read_exact ReadingLength 4 stream) (\<lambda>(len_buf, stream).
       let len = from_be_bytes len_buf in
       and_then (ensure (len \<le> max_frame_bytes) (FrameTooLarge len)) (\<lambda>_.
       and_then (read_exact ReadingBody len stream) (\<lambda>(body, stream).
       and_then (map_err Deserializing (dec body)) (\<lambda>x. Inr (x, stream)))))"

lemma length_be_bytes [simp]: "length (be_bytes n) = 4"
  by (simp add: be_bytes_def)

lemma from_be_be:
  assumes "n < 2 ^ 32"
  shows "from_be_bytes (be_bytes n) = n"
proof -
  define a where "a = n div 256"
  define b where "b = a div 256"
  define c where "c = b div 256"
  have divs: "n div 65536 = b" "n div 16777216 = c"
    by (simp_all add: a_def b_def c_def flip: div_mult2_eq)
  have "c < 256" using assms divs(2) by (simp add: div_less_iff_less_mult flip: divs(2))
  then have "256 * (256 * (256 * (c mod 256) + b mod 256) + a mod 256) + n mod 256 = n"
    unfolding a_def b_def c_def by (simp add: mult_div_mod_eq)
  then show ?thesis
    by (simp add: be_bytes_def from_be_bytes_def of_char_of divs flip: a_def)
qed

lemma write_frame_ok:
  "enc x = Inr bytes \<Longrightarrow> length bytes \<le> max_frame_bytes \<Longrightarrow> write_frame enc x = Inr (be_bytes (length bytes) @ bytes)"
  by (simp add: write_frame_def max_frame_bytes_def)

text \<open>
  What one side writes the other reads. A value that serialises into at most a mebibyte is
  written as one frame, and reading that frame from the front of any stream gives the value back
  and leaves exactly the rest of the stream. Anything larger is refused before a byte is written;
  and a reader refuses a frame that announces more than a mebibyte, and a stream that ends inside
  a frame, whatever follows.
\<close>

theorem frame_roundtrip:
  assumes "\<And>x bytes. enc x = Inr bytes \<Longrightarrow> dec bytes = Inr x"
  shows "(case (write_frame enc x :: 'e frame_error + string) of
      Inr frame \<Rightarrow> length frame \<le> 4 + 2 ^ 20 \<and> read_frame dec (frame @ rest) = (Inr (x, rest) :: 'e frame_error + _) \<and>
        (\<forall>k < length frame. \<exists>e. read_frame dec (take k frame) = (Inl e :: 'e frame_error + _))
    | Inl (Serializing e) \<Rightarrow> enc x = Inl e
    | Inl (FrameTooLarge n) \<Rightarrow> n > 2 ^ 20 \<and> (\<exists>bytes. enc x = Inr bytes \<and> length bytes = n)
    | Inl _ \<Rightarrow> False) \<and>
    (2 ^ 20 < n \<and> n < 2 ^ 32 \<longrightarrow> read_frame dec (be_bytes n @ rest) = (Inl (FrameTooLarge n) :: 'e frame_error + _))"
proof
  show "2 ^ 20 < n \<and> n < 2 ^ 32 \<longrightarrow> read_frame dec (be_bytes n @ rest) = Inl (FrameTooLarge n)"
    by (simp add: read_frame_def read_exact_def from_be_be max_frame_bytes_def)
  show "case (write_frame enc x :: 'e frame_error + string) of
      Inr frame \<Rightarrow> length frame \<le> 4 + 2 ^ 20 \<and> read_frame dec (frame @ rest) = (Inr (x, rest) :: 'e frame_error + _) \<and>
        (\<forall>k < length frame. \<exists>e. read_frame dec (take k frame) = (Inl e :: 'e frame_error + _))
    | Inl (Serializing e) \<Rightarrow> enc x = Inl e
    | Inl (FrameTooLarge n) \<Rightarrow> n > 2 ^ 20 \<and> (\<exists>bytes. enc x = Inr bytes \<and> length bytes = n)
    | Inl _ \<Rightarrow> False"
  proof (cases "enc x")
    case (Inl e)
    then show ?thesis by (simp add: write_frame_def)
  next
    case (Inr bytes)
    show ?thesis
    proof (cases "length bytes \<le> 2 ^ 20")
      case True
      then have w: "write_frame enc x = Inr (be_bytes (length bytes) @ bytes)"
        using Inr by (simp add: write_frame_def max_frame_bytes_def)
      have len: "from_be_bytes (be_bytes (length bytes)) = length bytes" using True by (intro from_be_be) simp
      have "\<exists>e. read_frame dec (take k (be_bytes (length bytes) @ bytes)) = Inl e" if "k < 4 + length bytes" for k
        using that True len by (cases "k < 4") (auto simp: read_frame_def read_exact_def max_frame_bytes_def Let_def)
      then show ?thesis
        using w Inr True len assms [OF Inr] by (simp add: read_frame_def read_exact_def max_frame_bytes_def)
    next
      case False
      then show ?thesis using Inr by (auto simp: write_frame_def max_frame_bytes_def ensure_def)
    qed
  qed
qed

theorem frame_roundtrip_witness:
  "read_frame Inr (be_bytes 2 @ ''ok'' @ ''tail'') = (Inr (''ok'', ''tail'') :: unit frame_error + string \<times> string)"
proof -
  have two: "length ''ok'' = 2" by simp
  have "write_frame Inr ''ok'' = (Inr (be_bytes (length ''ok'') @ ''ok'') :: unit frame_error + string)"
    by (rule write_frame_ok) (simp_all add: max_frame_bytes_def)
  then have w: "write_frame Inr ''ok'' = (Inr (be_bytes 2 @ ''ok'') :: unit frame_error + string)" by (simp only: two)
  have "\<And>x bytes. (Inr x :: unit + string) = Inr bytes \<Longrightarrow> (Inr bytes :: unit + string) = Inr x" by simp
  from frame_roundtrip [of Inr Inr "''ok''" "''tail''" 0, OF this]
  have "read_frame Inr ((be_bytes 2 @ ''ok'') @ ''tail'') = (Inr (''ok'', ''tail'') :: unit frame_error + string \<times> string)"
    by (simp only: w sum.case)
  then show ?thesis by (simp only: append_assoc)
qed

section \<open>Who may send requests\<close>

text \<open>\<open>authenticate_control\<close>; the comparison of tokens takes constant time, which does not show here.\<close>

definition authenticate_control :: "request \<Rightarrow> bool \<Rightarrow> string option \<Rightarrow> string + request" where
  "authenticate_control req managed token =
     (case req of
        ReqAuthenticated supplied inner \<Rightarrow>
          if (case token of Some expected \<Rightarrow> expected \<noteq> [] \<and> expected = redacted_value supplied | None \<Rightarrow> False)
          then Inr inner else Inl ''control authentication denied''
      | _ \<Rightarrow> if managed then Inl ''managed broker requires authenticated control envelope'' else Inr req)"

datatype ipc_outcome = IpcRejected | IpcDenied string | IpcDispatched request

definition handle_client :: "nat \<Rightarrow> nat \<Rightarrow> bool \<Rightarrow> string option \<Rightarrow> request \<Rightarrow> ipc_outcome" where
  "handle_client peer_uid owner_uid managed token req =
     (if peer_uid \<noteq> 0 \<and> peer_uid \<noteq> owner_uid then IpcRejected
      else (case authenticate_control req managed token of
        Inl message \<Rightarrow> IpcDenied message
      | Inr req \<Rightarrow> IpcDispatched req))"

text \<open>
  C37: Only the right callers reach the daemon. A request is carried out only for root or the
  socket's owner; a managed broker carries out nothing that does not come in an authenticated
  envelope; an envelope is opened only with exactly the configured token, which is never empty;
  and what is carried out is the request that was sent, out of its envelope.
\<close>

theorem ipc_authenticates:
  "handle_client peer_uid owner_uid managed token req = IpcDispatched req' \<longleftrightarrow>
     (peer_uid = 0 \<or> peer_uid = owner_uid) \<and>
     ((\<exists>t. t \<noteq> [] \<and> token = Some t \<and> req = ReqAuthenticated (Redacted t) req') \<or>
      (\<not> managed \<and> req' = req \<and> (\<nexists>supplied inner. req = ReqAuthenticated supplied inner)))"
proof (cases "\<exists>supplied inner. req = ReqAuthenticated supplied inner")
  case True
  then obtain s inner where "req = ReqAuthenticated (Redacted s) inner" by (metis redacted.exhaust)
  then show ?thesis by (auto simp: handle_client_def authenticate_control_def split: option.splits)
next
  case False
  then show ?thesis by (cases req) (auto simp: handle_client_def authenticate_control_def)
qed

end
