(* ===== verification/Masker.thy ===== *)
theory Masker
  imports BTree
begin

text \<open>
  Masking of secrets in captured output, \<open>portman-daemon/src/secret_masker.rs\<close>. The first
  eight hex digits of a value's SHA-256 are a parameter.
\<close>

section \<open>The masker\<close>

record secret =
  sec_value :: string
  sec_marker :: string

type_synonym masker = "(string, secret list) btree"

definition min_maskable_len :: nat where
  "min_maskable_len = 8"

definition is_maskable :: "string \<Rightarrow> bool" where
  "is_maskable v \<longleftrightarrow>
     min_maskable_len \<le> length v \<and> \<not> starts_with ''/'' v \<and> \<not> has_whitespace v \<and>
     \<not> parses_f64 v \<and> to_ascii_lowercase v \<notin> {''true'', ''false''}"

definition marker_body :: "(string \<Rightarrow> string) \<Rightarrow> string \<Rightarrow> string" where
  "marker_body digest8 v = ''masked:'' @ digest8 v"

definition marker_for :: "(string \<Rightarrow> string) \<Rightarrow> string \<Rightarrow> string" where
  "marker_for digest8 v = ''['' @ marker_body digest8 v @ '']''"

text \<open>\<open>Vec::dedup_by\<close>: of adjacent equal values the first is kept.\<close>

fun dedup_values :: "secret list \<Rightarrow> secret list" where
  "dedup_values (a # b # ss) =
     (if sec_value a = sec_value b then dedup_values (a # ss) else a # dedup_values (b # ss))"
| "dedup_values ss = ss"

text \<open>A stable sort, longest value first.\<close>

definition masker_secrets :: "(string \<Rightarrow> string) \<Rightarrow> string list \<Rightarrow> secret list" where
  "masker_secrets digest8 values =
     dedup_values (sort_key (\<lambda>s. - int (length (sec_value s)))
       (map (\<lambda>v. \<lparr>sec_value = v, sec_marker = marker_for digest8 v\<rparr>) (filter is_maskable values)))"

definition masker_register :: "(string \<Rightarrow> string) \<Rightarrow> string \<Rightarrow> string list \<Rightarrow> masker \<Rightarrow> masker" where
  "masker_register digest8 service values m = bt_insert service (masker_secrets digest8 values) m"

definition masker_unregister :: "string \<Rightarrow> masker \<Rightarrow> masker" where
  "masker_unregister service m = bt_remove service m"

definition mask_one :: "string \<Rightarrow> secret \<Rightarrow> string" where
  "mask_one out s =
     (if contains_str (sec_value s) out then replace_str (sec_value s) (sec_marker s) out else out)"

definition mask_all :: "secret list \<Rightarrow> string \<Rightarrow> string" where
  "mask_all secrets line = foldl mask_one line secrets"

definition mask :: "masker \<Rightarrow> string \<Rightarrow> string" where
  "mask m line = mask_all (concat (map snd m)) line"

text \<open>The masking sink passes the masked line on.\<close>

definition masking_sink_line ::
  "masker \<Rightarrow> (string \<Rightarrow> 'stream \<Rightarrow> string \<Rightarrow> 'w \<Rightarrow> 'w) \<Rightarrow> string \<Rightarrow> 'stream \<Rightarrow> string \<Rightarrow> 'w \<Rightarrow> 'w" where
  "masking_sink_line m inner service stream line w = inner service stream (mask m line) w"

section \<open>Replacing by bracketed markers\<close>

definition no_bracket :: "string \<Rightarrow> bool" where
  "no_bracket s \<longleftrightarrow> CHR ''['' \<notin> set s \<and> CHR '']'' \<notin> set s"

lemma no_bracket_simps [simp]:
  "no_bracket []" "no_bracket (c # s) \<longleftrightarrow> c \<noteq> CHR ''['' \<and> c \<noteq> CHR '']'' \<and> no_bracket s"
  "no_bracket (a @ b) \<longleftrightarrow> no_bracket a \<and> no_bracket b"
  by (auto simp: no_bracket_def)

lemma mask_one_eq: "mask_one out s = replace_str (sec_value s) (sec_marker s) out"
  by (simp add: mask_one_def replace_str_absent)

lemma starts_with_Nil [simp]: "starts_with [] s"
  by (simp add: starts_with_def)

lemma starts_with_Cons_Cons [simp]: "starts_with (p # ps) (c # s) \<longleftrightarrow> p = c \<and> starts_with ps s"
  by (auto simp: starts_with_def)

lemma starts_with_replace:
  assumes "p \<noteq> []" and "no_bracket q" and "starts_with q (replace_str p (CHR ''['' # m) s)"
  shows "starts_with q s"
proof -
  have "\<forall>q. no_bracket q \<longrightarrow> starts_with q (replace_str p (CHR ''['' # m) s) \<longrightarrow> starts_with q s"
  proof (induction s rule: scan_induct [of p])
    case (miss c cs)
    show ?case
    proof (intro allI impI)
      fix q
      assume "no_bracket q" "starts_with q (replace_str p (CHR ''['' # m) (c # cs))"
      with miss show "starts_with q (c # cs)"
        by (cases q) (auto simp: replace_str_miss assms(1))
    qed
  next
    case (hit rest)
    show ?case
    proof (intro allI impI)
      fix q
      assume "no_bracket q" "starts_with q (replace_str p (CHR ''['' # m) (p @ rest))"
      then show "starts_with q (p @ rest)" by (cases q) (auto simp: replace_str_hit assms(1))
    qed
  qed (use assms(1) in auto)
  with assms(2,3) show ?thesis by blast
qed

lemma contains_marked:
  assumes "contains_str p (m @ CHR '']'' # r)" and "no_bracket p" and "p \<noteq> []"
  shows "contains_str p m \<or> contains_str p r"
  using assms(1)
proof (induction m)
  case Nil
  then show ?case using assms(2,3) by (cases p) auto
next
  case (Cons c m)
  show ?case
  proof (cases "contains_str p (m @ CHR '']'' # r)")
    case True
    with Cons.IH show ?thesis by auto
  next
    case False
    with Cons.prems have "starts_with p ((c # m) @ CHR '']'' # r)" by simp
    then obtain t where t: "(c # m) @ CHR '']'' # r = p @ t" by (auto simp: starts_with_iff)
    from append_eq_append_conv2 [THEN iffD1, OF t]
    obtain u where "c # m = p @ u \<or> p = (c # m) @ u \<and> CHR '']'' # r = u @ t" by auto
    then show ?thesis
    proof
      assume "c # m = p @ u"
      then have "contains_str p (c # m)" by (metis append_Nil contains_str_iff)
      then show ?thesis by simp
    next
      assume u: "p = (c # m) @ u \<and> CHR '']'' # r = u @ t"
      with assms(2) have "u = []" by (cases u) auto
      with u have "contains_str p (c # m)" by (metis append_Nil append_Nil2 contains_str_iff)
      then show ?thesis by simp
    qed
  qed
qed

lemma contains_bracketed:
  assumes "contains_str p (CHR ''['' # m @ CHR '']'' # r)" and "no_bracket p" and "p \<noteq> []"
  shows "contains_str p m \<or> contains_str p r"
proof -
  have "\<not> starts_with p (CHR ''['' # m @ CHR '']'' # r)" using assms(2,3) by (cases p) auto
  with assms show ?thesis using contains_marked by simp
qed

lemma contains_append_right: "contains_str q s \<Longrightarrow> contains_str q (p @ s)"
  by (metis append_assoc contains_str_iff)

text \<open>
  Replacing one value by its marker brings back no other value, and removes its own.
\<close>

lemma contains_replace:
  assumes "p \<noteq> []" and "no_bracket q" and "q \<noteq> []" and "\<not> contains_str q m"
    and "contains_str q (replace_str p (''['' @ m @ '']'') s)"
  shows "contains_str q s \<and> q \<noteq> p"
  using assms(5)
proof (induction s rule: scan_induct [of p])
  case (miss c cs)
  show ?case
  proof (cases "contains_str q (replace_str p (''['' @ m @ '']'') cs)")
    case True
    with miss show ?thesis by simp
  next
    case False
    with miss have "starts_with q (replace_str p (CHR ''['' # m @ '']'') (c # cs))"
      by (simp add: replace_str_miss assms(1))
    then have "starts_with q (c # cs)" by (rule starts_with_replace [OF assms(1,2)])
    with miss(1) show ?thesis by (auto simp: starts_with_def)
  qed
next
  case (hit rest)
  from hit(2) have "contains_str q (CHR ''['' # m @ CHR '']'' # replace_str p (''['' @ m @ '']'') rest)"
    by (simp add: replace_str_hit assms(1))
  from contains_bracketed [OF this assms(2,3)] assms(4) hit(1)
  show ?case by (simp add: contains_append_right)
qed (use assms in auto)

section \<open>What is registered and what is masked\<close>

definition registered :: "masker \<Rightarrow> secret list" where
  "registered m = concat (map snd m)"

text \<open>Every registered value is worth masking and carries its own marker.\<close>

definition masker_ok :: "(string \<Rightarrow> string) \<Rightarrow> masker \<Rightarrow> bool" where
  "masker_ok digest8 m \<longleftrightarrow> bt_ok m \<and>
     (\<forall>s\<in>set (registered m). is_maskable (sec_value s) \<and> sec_marker s = marker_for digest8 (sec_value s))"

lemma set_registered: "set (registered m) = (\<Union>b\<in>set m. set (snd b))"
  by (auto simp: registered_def)

lemma set_dedup_values: "set (dedup_values ss) \<subseteq> set ss"
  by (induction ss rule: dedup_values.induct) auto

lemma values_dedup_values: "sec_value ` set (dedup_values ss) = sec_value ` set ss"
  by (induction ss rule: dedup_values.induct) auto

lemma hd_dedup_values: "ss \<noteq> [] \<Longrightarrow> dedup_values ss \<noteq> [] \<and> hd (dedup_values ss) = hd ss"
  by (induction ss rule: dedup_values.induct) auto

lemma sorted_dedup_values:
  "sorted_wrt (\<lambda>a b. f b \<le> (f a :: nat)) ss \<Longrightarrow> sorted_wrt (\<lambda>a b. f b \<le> f a) (dedup_values ss)"
proof (induction ss rule: dedup_values.induct)
  case (1 a b ss)
  then show ?case using set_dedup_values [of "b # ss"] by (auto dest!: subsetD)
qed auto

lemma values_masker_secrets: "sec_value ` set (masker_secrets digest8 vs) = {v \<in> set vs. is_maskable v}"
  by (force simp: masker_secrets_def values_dedup_values image_iff)

lemma masker_secrets_marked:
  "s \<in> set (masker_secrets digest8 vs) \<Longrightarrow>
   is_maskable (sec_value s) \<and> sec_marker s = marker_for digest8 (sec_value s)"
  unfolding masker_secrets_def using set_dedup_values by (fastforce dest!: subsetD)

lemma masker_secrets_longest_first:
  "sorted_wrt (\<lambda>a b. length (sec_value b) \<le> length (sec_value a)) (masker_secrets digest8 vs)"
proof -
  let ?k = "\<lambda>s. - int (length (sec_value s))"
  let ?xs = "map (\<lambda>v. \<lparr>sec_value = v, sec_marker = marker_for digest8 v\<rparr>) (filter is_maskable vs)"
  have "sorted (map ?k (sort_key ?k ?xs))" by (rule sorted_sort_key)
  then have "sorted_wrt (\<lambda>a b. length (sec_value b) \<le> length (sec_value a)) (sort_key ?k ?xs)"
    by (simp add: sorted_wrt_map)
  then show ?thesis unfolding masker_secrets_def by (rule sorted_dedup_values)
qed

lemma bt_insert_mem: "(k, v) \<in> set (bt_insert k v m)"
  by (induction m) auto

lemma registered_register:
  "set (registered (masker_register digest8 service vs m)) \<subseteq> set (masker_secrets digest8 vs) \<union> set (registered m)"
  using set_bt_insert_subset [of service "masker_secrets digest8 vs" m]
  by (force simp: masker_register_def set_registered)

lemma masker_ok_Nil [simp]: "masker_ok digest8 []"
  by (simp add: masker_ok_def registered_def)

lemma masker_ok_register [inv_intros]:
  "masker_ok digest8 m \<Longrightarrow> masker_ok digest8 (masker_register digest8 service vs m)"
  using registered_register [of digest8 service vs m] masker_secrets_marked [of _ digest8 vs]
  unfolding masker_ok_def by (auto simp: masker_register_def)

lemma masker_ok_unregister [inv_intros]:
  "masker_ok digest8 m \<Longrightarrow> masker_ok digest8 (masker_unregister service m)"
  unfolding masker_ok_def masker_unregister_def by (auto simp: set_registered bt_remove_def bt_ok_filter)

lemma mask_all_absent:
  "(\<And>s. s \<in> set ss \<Longrightarrow> \<not> contains_str (sec_value s) line) \<Longrightarrow> mask_all ss line = line"
  unfolding mask_all_def by (induction ss) (simp_all add: mask_one_def)

text \<open>
  A value that no marker can spell stays out once it is out, and its own round removes it.
\<close>

definition unspellable :: "secret list \<Rightarrow> (string \<Rightarrow> string) \<Rightarrow> string \<Rightarrow> bool" where
  "unspellable ss digest8 v \<longleftrightarrow>
     no_bracket v \<and> list_all (\<lambda>s. \<not> contains_str v (marker_body digest8 (sec_value s))) ss"

lemma mask_all_removes:
  assumes "\<forall>s\<in>set ss. is_maskable (sec_value s) \<and> sec_marker s = marker_for digest8 (sec_value s)"
    and "v \<noteq> []" and "unspellable ss digest8 v"
    and "v \<in> sec_value ` set ss \<or> \<not> contains_str v line"
  shows "\<not> contains_str v (mask_all ss line)"
  using assms(1,3,4)
proof (induction ss arbitrary: line)
  case Nil
  then show ?case by (simp add: mask_all_def)
next
  case (Cons s ss)
  let ?out = "mask_one line s"
  have m: "?out = replace_str (sec_value s) (''['' @ marker_body digest8 (sec_value s) @ '']'') line"
    using Cons.prems(1) by (simp add: mask_one_eq marker_for_def)
  have p: "sec_value s \<noteq> []" using Cons.prems(1) by (auto simp: is_maskable_def min_maskable_len_def)
  have nb: "no_bracket v" and nm: "\<not> contains_str v (marker_body digest8 (sec_value s))"
    using Cons.prems(2) by (simp_all add: unspellable_def)
  have kept: "contains_str v ?out \<Longrightarrow> contains_str v line \<and> v \<noteq> sec_value s"
    using contains_replace [OF p nb assms(2) nm] m by simp
  have "v \<in> sec_value ` set ss \<or> \<not> contains_str v ?out" using Cons.prems(3) kept by auto
  with Cons.prems have "\<not> contains_str v (mask_all ss ?out)"
    by (intro Cons.IH) (auto simp: unspellable_def)
  then show ?case by (simp add: mask_all_def)
qed

lemma registers_value:
  assumes "v \<in> set vs" and "is_maskable v"
  shows "v \<in> sec_value ` set (registered (masker_register digest8 service vs m))"
proof -
  have "v \<in> sec_value ` set (masker_secrets digest8 vs)" using assms by (simp add: values_masker_secrets)
  moreover have "set (masker_secrets digest8 vs) \<subseteq> set (registered (masker_register digest8 service vs m))"
    using bt_insert_mem [of service "masker_secrets digest8 vs" m] by (force simp: set_registered masker_register_def)
  ultimately show ?thesis by auto
qed

text \<open>The masker after a run of registrations, each a service with its values.\<close>

definition register_all :: "(string \<Rightarrow> string) \<Rightarrow> (string \<times> string list) list \<Rightarrow> masker \<Rightarrow> masker" where
  "register_all digest8 regs m = foldl (\<lambda>m (service, vs). masker_register digest8 service vs m) m regs"

lemma register_all_ok: "masker_ok digest8 m \<Longrightarrow> masker_ok digest8 (register_all digest8 regs m)"
  by (induction regs arbitrary: m) (auto simp: register_all_def masker_ok_register)

lemma register_all_get:
  assumes "bt_ok m"
  shows "bt_get (register_all digest8 regs m) service =
    (case map_of (rev regs) service of Some vs \<Rightarrow> Some (masker_secrets digest8 vs) | None \<Rightarrow> bt_get m service)"
proof (induction regs rule: rev_induct)
  case (snoc x regs)
  have "bt_ok (register_all digest8 regs m)"
    using assms by (induction regs rule: rev_induct) (auto simp: register_all_def masker_register_def)
  with snoc show ?case by (cases x) (auto simp: register_all_def masker_register_def)
qed (simp add: register_all_def)

lemma get_registered: "bt_ok m \<Longrightarrow> bt_get m service = Some ss \<Longrightarrow> set ss \<subseteq> set (registered m)"
  by (force simp: set_registered bt_get_iff)

text \<open>
  C27: However services have registered their values, in whatever order and again and again, no line
  that passes the masker contains a value worth masking of any service's last registration,
  whichever service printed the line, provided markers cannot spell the value; a line that contains
  no registered value passes unchanged; and a registration replaces the same service's earlier one
  and no other's.
\<close>

theorem mask_removes_registered:
  assumes "masker_ok digest8 m0" and "m = register_all digest8 regs m0"
    and "map_of (rev regs) service = Some vs" and "v \<in> set vs" and "is_maskable v"
    and "unspellable (registered m) digest8 v"
  shows "\<not> contains_str v (mask m line) \<and>
    ((\<forall>s\<in>set (registered m). \<not> contains_str (sec_value s) line) \<longrightarrow> mask m line = line) \<and>
    bt_get m other = (case map_of (rev regs) other of Some ws \<Rightarrow> Some (masker_secrets digest8 ws) | None \<Rightarrow> bt_get m0 other)"
proof (intro conjI impI)
  have ok: "masker_ok digest8 m" unfolding assms(2) by (rule register_all_ok [OF assms(1)])
  have bt: "bt_ok m0" "bt_ok m" using assms(1) ok by (simp_all add: masker_ok_def)
  note get = register_all_get [OF bt(1), of digest8 regs, folded assms(2)]
  show "bt_get m other = (case map_of (rev regs) other of Some ws \<Rightarrow> Some (masker_secrets digest8 ws) | None \<Rightarrow> bt_get m0 other)"
    by (rule get)
  have "bt_get m service = Some (masker_secrets digest8 vs)" using get [of service] assms(3) by simp
  then have "set (masker_secrets digest8 vs) \<subseteq> set (registered m)" by (rule get_registered [OF bt(2)])
  moreover have "v \<in> sec_value ` set (masker_secrets digest8 vs)"
    using assms(4,5) by (simp add: values_masker_secrets)
  ultimately have "v \<in> sec_value ` set (registered m)" by blast
  moreover have "v \<noteq> []" using assms(5) by (auto simp: is_maskable_def min_maskable_len_def)
  ultimately show "\<not> contains_str v (mask m line)"
    using ok assms(6) mask_all_removes [of "registered m" digest8 v line]
    by (auto simp: mask_def masker_ok_def registered_def)
  show "mask m line = line" if "\<forall>s\<in>set (registered m). \<not> contains_str (sec_value s) line"
    unfolding mask_def using that by (intro mask_all_absent) (auto simp: registered_def)
qed

definition mask_example :: "(string \<times> string list) list" where
  "mask_example = [(''db'', [''an-older-one'']), (''db'', [''s3cr3t-pw'']), (''api'', [''hunter2hunter2''])]"

theorem mask_removes_registered_witness:
  "\<not> contains_str ''s3cr3t-pw'' (mask (register_all (\<lambda>_. ''01234567'') mask_example []) ''password=s3cr3t-pw;'') \<and>
   bt_get (register_all (\<lambda>_. ''01234567'') mask_example []) ''web'' = None"
proof -
  have a: "is_maskable ''s3cr3t-pw''" by code_simp
  have b: "unspellable (registered (register_all (\<lambda>_. ''01234567'') mask_example [])) (\<lambda>_. ''01234567'') ''s3cr3t-pw''"
    by code_simp
  have c: "masker_ok (\<lambda>_. ''01234567'') []" by simp
  have d: "map_of (rev mask_example) ''db'' = Some [''s3cr3t-pw'']" by (simp add: mask_example_def)
  have e: "''s3cr3t-pw'' \<in> set [''s3cr3t-pw'']" by simp
  have f: "map_of (rev mask_example) ''web'' = None" by (simp add: mask_example_def)
  show ?thesis using mask_removes_registered [OF c refl d e a b, of "''password=s3cr3t-pw;''" "''web''"]
    by (simp add: f bt_get_def)
qed

text \<open>
  Longest-first holds within a service only. A shorter value of a service that comes first in
  the map is replaced inside a longer value of a later one, whose remainder is then printed.
\<close>

lemma mask_exposes_remainder:
  "mask (masker_register (\<lambda>_. ''01234567'') ''worker'' [''abcdefgh-long-tail'']
          (masker_register (\<lambda>_. ''01234567'') ''api'' [''abcdefgh''] []))
     ''token abcdefgh-long-tail'' = ''token [masked:01234567]-long-tail''"
  by code_simp

end
