(* ===== verification/Log_Store.thy ===== *)
theory Log_Store
  imports Io Masker "HOL-Library.Word"
begin

text \<open>
  The log store, \<open>portman-daemon/src/log_store.rs\<close>. The table is its rows in the order of their
  ids (an \<open>AUTOINCREMENT\<close> key is larger than every key before it); each SQL statement is what it
  selects or deletes.
\<close>

section \<open>Capture\<close>

definition max_line_bytes :: nat where "max_line_bytes = 8 * 1024"
definition truncation_marker :: string where
  "truncation_marker = [CHR 0x20, CHR 0xE2, CHR 0x80, CHR 0xA6] @ ''[truncated]''"
definition max_query_limit :: u32 where "max_query_limit = 500"
definition chunk_byte_budget :: nat where "chunk_byte_budget = 700 * 1024"
definition channel_capacity :: nat where "channel_capacity = 16 * 1024"
definition max_batch :: nat where "max_batch = 512"

text \<open>The loop that looks for a character boundary at or below a position.\<close>

fun cut_boundary :: "string \<Rightarrow> nat \<Rightarrow> nat" where
  "cut_boundary line 0 = 0"
| "cut_boundary line (Suc pos) = (if is_char_boundary line (Suc pos) then Suc pos else cut_boundary line pos)"

definition truncate_line :: "string \<Rightarrow> string" where
  "truncate_line line =
     (if length line \<le> max_line_bytes then line
      else take (cut_boundary line max_line_bytes) line @ truncation_marker)"

record log_record =
  lg_service :: string
  lg_stream :: string
  lg_ts :: int
  lg_line :: string

text \<open>The channel between the sink and the drain task, with its count of dropped lines.\<close>

record channel =
  ch_queue :: "log_record list"
  ch_dropped :: nat

definition sink_line :: "int \<Rightarrow> string \<Rightarrow> string \<Rightarrow> string \<Rightarrow> channel \<Rightarrow> channel" where
  "sink_line now service stream line ch =
     (if length (ch_queue ch) \<ge> channel_capacity then ch\<lparr>ch_dropped := ch_dropped ch + 1\<rparr>
      else ch\<lparr>ch_queue := ch_queue ch @
        [\<lparr>lg_service = service, lg_stream = stream, lg_ts = now, lg_line = truncate_line line\<rparr>]\<rparr>)"

record log_row =
  lr_id :: int
  lr_rec :: log_record

text \<open>The table and the largest key it has ever used.\<close>

record table =
  tb_rows :: "log_row list"
  tb_last :: int

definition insert_row :: "table \<Rightarrow> log_record \<Rightarrow> table" where
  "insert_row tb r = \<lparr>tb_rows = tb_rows tb @ [\<lparr>lr_id = tb_last tb + 1, lr_rec = r\<rparr>], tb_last = tb_last tb + 1\<rparr>"

text \<open>A batch is one transaction: it appears whole or, when the database fails, not at all.\<close>

definition append_batch :: "bool \<Rightarrow> log_record list \<Rightarrow> table \<Rightarrow> table" where
  "append_batch committed batch tb = (if committed then foldl insert_row tb batch else tb)"

definition drain_batch :: "bool \<Rightarrow> channel \<times> table \<Rightarrow> channel \<times> table" where
  "drain_batch committed s =
     (case s of (ch, tb) \<Rightarrow>
        (ch\<lparr>ch_queue := drop max_batch (ch_queue ch), ch_dropped := 0\<rparr>,
         append_batch committed (take max_batch (ch_queue ch)) tb))"

section \<open>Queries\<close>

definition clamp_limit :: "u32 \<Rightarrow> nat" where
  "clamp_limit limit = unat (if limit < 1 then 1 else if limit > max_query_limit then max_query_limit else limit)"

definition row_cost :: "log_row \<Rightarrow> nat" where
  "row_cost r = length (lg_line (lr_rec r)) + length (lg_stream (lr_rec r)) + 48"

record chunk =
  ck_lines :: "log_row list"
  ck_last :: int

text \<open>The loop over the selected rows: the budget stops it only after a line that exhausts it.\<close>

fun take_budget :: "nat \<Rightarrow> log_row list \<Rightarrow> log_row list" where
  "take_budget budget [] = []"
| "take_budget budget (r # rs) =
     (let budget = budget - row_cost r in r # (if budget = 0 then [] else take_budget budget rs))"

definition service_rows :: "string \<Rightarrow> table \<Rightarrow> log_row list" where
  "service_rows service tb = filter (\<lambda>r. lg_service (lr_rec r) = service) (tb_rows tb)"

definition rows_after :: "string \<Rightarrow> int \<Rightarrow> table \<Rightarrow> log_row list" where
  "rows_after service after tb = filter (\<lambda>r. lr_id r > after) (service_rows service tb)"

definition query_after :: "string \<Rightarrow> int \<Rightarrow> u32 \<Rightarrow> table \<Rightarrow> chunk" where
  "query_after service after limit tb =
     (let lines = take_budget chunk_byte_budget (take (clamp_limit limit) (rows_after service after tb))
      in \<lparr>ck_lines = lines, ck_last = (if lines = [] then after else lr_id (last lines))\<rparr>)"

definition newest :: "nat \<Rightarrow> 'a list \<Rightarrow> 'a list" where
  "newest n xs = drop (length xs - n) xs"

definition log_tail :: "string \<Rightarrow> u32 \<Rightarrow> table \<Rightarrow> chunk" where
  "log_tail service limit tb =
     (let lines = take_budget chunk_byte_budget (newest (clamp_limit limit) (service_rows service tb))
      in \<lparr>ck_lines = lines, ck_last = foldl (\<lambda>m r. max (lr_id r) m) 0 lines\<rparr>)"

section \<open>Retention\<close>

record retention =
  rt_lines :: u32
  rt_max_age_ms :: int

definition sweep_service :: "nat \<Rightarrow> table \<Rightarrow> string \<Rightarrow> table" where
  "sweep_service keep tb service =
     tb\<lparr>tb_rows := filter (\<lambda>r. lg_service (lr_rec r) \<noteq> service \<or> lr_id r \<in> set (map lr_id (newest keep (service_rows service tb))))
        (tb_rows tb)\<rparr>"

definition log_sweep :: "int \<Rightarrow> retention \<Rightarrow> table \<Rightarrow> table" where
  "log_sweep now rt tb =
     (let tb = tb\<lparr>tb_rows := filter (\<lambda>r. \<not> lg_ts (lr_rec r) < now - rt_max_age_ms rt) (tb_rows tb)\<rparr>;
          services = remdups (map (\<lambda>r. lg_service (lr_rec r)) (tb_rows tb))
      in foldl (sweep_service (unat (rt_lines rt))) tb services)"

section \<open>The table\<close>

definition table_ok :: "table \<Rightarrow> bool" where
  "table_ok tb \<longleftrightarrow> sorted_wrt (<) (map lr_id (tb_rows tb)) \<and> (\<forall>r\<in>set (tb_rows tb). 0 < lr_id r \<and> lr_id r \<le> tb_last tb) \<and> 0 \<le> tb_last tb"

lemma sorted_wrt_filter_map: "sorted_wrt (<) (map f xs) \<Longrightarrow> sorted_wrt (<) (map f (filter P xs))"
  by (induction xs) auto

lemma table_ok_insert: "table_ok tb \<Longrightarrow> table_ok (insert_row tb r)"
  by (fastforce simp: table_ok_def insert_row_def sorted_wrt_append)

lemma table_ok_append: "table_ok tb \<Longrightarrow> table_ok (append_batch c batch tb)"
proof -
  have "table_ok tb \<Longrightarrow> table_ok (foldl insert_row tb batch)"
    by (induction batch arbitrary: tb) (auto simp: table_ok_insert)
  then show "table_ok tb \<Longrightarrow> ?thesis" by (simp add: append_batch_def)
qed

lemma table_ok_sweep: "table_ok tb \<Longrightarrow> table_ok (log_sweep now rt tb)"
proof -
  have filt: "table_ok tb \<Longrightarrow> table_ok (tb\<lparr>tb_rows := filter P (tb_rows tb)\<rparr>)" for P tb
    by (auto simp: table_ok_def sorted_wrt_filter_map)
  have "table_ok tb \<Longrightarrow> table_ok (foldl (sweep_service k) tb ss)" for k tb ss
    by (induction ss arbitrary: tb) (auto simp: sweep_service_def filt)
  with filt show "table_ok tb \<Longrightarrow> ?thesis" by (simp add: log_sweep_def Let_def)
qed

section \<open>Cursors\<close>

lemma take_budget_prefix: "\<exists>rest. rs = take_budget b rs @ rest"
  by (induction b rs rule: take_budget.induct) (auto simp: Let_def)

lemma take_budget_Nil: "take_budget b rs = [] \<longleftrightarrow> rs = []"
  by (cases rs) (auto simp: Let_def)

lemma clamp_limit_bounds: "1 \<le> clamp_limit limit \<and> clamp_limit limit \<le> 500"
proof -
  have "unat (1 :: u32) = 1" "unat (500 :: u32) = 500" by simp_all
  then show ?thesis
    by (auto simp: clamp_limit_def max_query_limit_def word_less_nat_alt not_less)
qed

lemma service_rows_sorted: "table_ok tb \<Longrightarrow> sorted_wrt (<) (map lr_id (service_rows service tb))"
  by (simp add: table_ok_def service_rows_def sorted_wrt_filter_map)

lemma rows_after_sorted: "table_ok tb \<Longrightarrow> sorted_wrt (<) (map lr_id (rows_after service after tb))"
  by (simp add: rows_after_def sorted_wrt_filter_map service_rows_sorted)

text \<open>In an ascending list, the entries above the last of a non-empty prefix are the rest.\<close>

lemma filter_above_prefix:
  fixes f :: "'a \<Rightarrow> int"
  assumes "sorted_wrt (<) (map f (xs @ ys))" and "xs \<noteq> []"
  shows "filter (\<lambda>r. f (last xs) < f r) (xs @ ys) = ys"
proof -
  have ord: "f x < f y" if "x \<in> set xs" "y \<in> set ys" for x y
    using assms(1) that by (auto simp: sorted_wrt_append)
  have "f x \<le> f (last xs)" if "x \<in> set xs" for x
  proof -
    have eq: "xs = butlast xs @ [last xs]" using assms(2) by simp
    then have split: "set xs = set (butlast xs @ [last xs])" by (rule arg_cong)
    from eq have "sorted_wrt (<) (map f (butlast xs @ [last xs]))" using assms(1) by (simp add: sorted_wrt_append)
    then have "\<forall>x\<in>set (butlast xs). f x < f (last xs)" by (auto simp: sorted_wrt_append)
    with that show ?thesis unfolding split by auto
  qed
  then have "filter (\<lambda>r. f (last xs) < f r) xs = []" by (auto simp: filter_empty_conv not_less)
  moreover have "filter (\<lambda>r. f (last xs) < f r) ys = ys" using ord assms(2) by (auto simp: filter_id_conv)
  ultimately show ?thesis by simp
qed

lemma query_after_step:
  assumes "table_ok tb"
  shows "rows_after service after tb =
    ck_lines (query_after service after limit tb) @ rows_after service (ck_last (query_after service after limit tb)) tb"
proof -
  let ?rows = "rows_after service after tb" and ?ck = "query_after service after limit tb"
  obtain rest where rest: "?rows = ck_lines ?ck @ rest"
    using take_budget_prefix [of "take (clamp_limit limit) ?rows" chunk_byte_budget]
    by (simp add: query_after_def Let_def) (metis append.assoc append_take_drop_id)
  show ?thesis
  proof (cases "ck_lines ?ck = []")
    case True
    then show ?thesis by (simp add: query_after_def Let_def)
  next
    case False
    then have last: "ck_last ?ck = lr_id (last (ck_lines ?ck))" by (simp add: query_after_def Let_def)
    have "last (ck_lines ?ck) \<in> set ?rows" using rest False by (metis Un_iff last_in_set set_append)
    then have "after < ck_last ?ck" unfolding last rows_after_def by auto
    then have "rows_after service (ck_last ?ck) tb = filter (\<lambda>r. ck_last ?ck < lr_id r) ?rows"
      unfolding rows_after_def by (auto intro!: filter_cong)
    also have "\<dots> = rest"
      unfolding last by (subst rest) (rule filter_above_prefix, use rest False rows_after_sorted [OF assms] in metis, rule False)
    finally show ?thesis using rest by simp
  qed
qed

lemma query_after_progress:
  "ck_lines (query_after service after limit tb) \<noteq> [] \<longleftrightarrow> rows_after service after tb \<noteq> []"
  using clamp_limit_bounds [of limit] by (simp add: query_after_def Let_def take_budget_Nil)

text \<open>A client that polls until nothing new comes.\<close>

function follow :: "string \<Rightarrow> u32 \<Rightarrow> table \<Rightarrow> int \<Rightarrow> log_row list" where
  "follow service limit tb after =
     (let ck = query_after service after limit tb in
      if ck_lines ck = [] then [] else ck_lines ck @ follow service limit tb (ck_last ck))"
  by pat_completeness auto
termination
proof (relation "measure (\<lambda>(service, limit, tb, after). length (rows_after service after tb))")
  fix service limit tb after and ck
  assume ck: "ck = query_after service after limit tb" and "ck_lines ck \<noteq> []"
  let ?rows = "rows_after service after tb"
  have last: "ck_last ck = lr_id (last (ck_lines ck))" using \<open>ck_lines ck \<noteq> []\<close> by (simp add: ck query_after_def Let_def)
  have "set (ck_lines ck) \<subseteq> set ?rows"
    using take_budget_prefix [of "take (clamp_limit limit) ?rows" chunk_byte_budget]
    by (simp add: ck query_after_def Let_def) (metis Un_upper1 set_append set_take_subset subset_trans)
  then have mem: "last (ck_lines ck) \<in> set ?rows" using \<open>ck_lines ck \<noteq> []\<close> by auto
  then have "after < ck_last ck" unfolding last rows_after_def by auto
  then have "rows_after service (ck_last ck) tb = filter (\<lambda>r. ck_last ck < lr_id r) ?rows"
    unfolding rows_after_def by (auto intro!: filter_cong)
  moreover have "length (filter (\<lambda>r. ck_last ck < lr_id r) ?rows) < length ?rows"
    using mem last by (intro length_filter_less [of "last (ck_lines ck)"]) auto
  ultimately show "((service, limit, tb, ck_last ck), service, limit, tb, after) \<in>
      measure (\<lambda>(service, limit, tb, after). length (rows_after service after tb))" by simp
qed simp

declare follow.simps [simp del]

lemma follow_all: "table_ok tb \<Longrightarrow> follow service limit tb after = rows_after service after tb"
proof (induction service limit tb after rule: follow.induct)
  case (1 service limit tb after)
  show ?case
  proof (cases "ck_lines (query_after service after limit tb) = []")
    case True
    then have "rows_after service after tb = []" using query_after_progress by blast
    with True show ?thesis by (subst follow.simps) simp
  next
    case False
    then show ?thesis using 1 query_after_step [of tb service after limit] by (subst follow.simps) (simp add: Let_def)
  qed
qed

lemma foldl_max_last:
  assumes "sorted_wrt (<) (map lr_id xs)" and "xs \<noteq> []" and "m \<le> lr_id (hd xs)"
  shows "foldl (\<lambda>m r. max (lr_id r) m) m xs = lr_id (last xs)"
  using assms
proof (induction xs arbitrary: m)
  case (Cons r rs)
  have m: "max (lr_id r) m = lr_id r" using Cons.prems(3) by simp
  show ?case
  proof (cases "rs = []")
    case False
    then have "lr_id r \<le> lr_id (hd rs)" using Cons.prems(1) by (cases rs) auto
    with Cons.IH [of "lr_id r"] Cons.prems(1) False m show ?thesis by simp
  qed (simp add: m)
qed simp

lemma rows_after_last:
  assumes "table_ok tb" and "service_rows service tb = before @ lines @ rest" and "lines \<noteq> []"
  shows "rows_after service (lr_id (last lines)) tb = rest"
proof -
  have "filter (\<lambda>r. lr_id (last (before @ lines)) < lr_id r) ((before @ lines) @ rest) = rest"
    by (rule filter_above_prefix) (use service_rows_sorted [OF assms(1), of service] assms(2,3) in simp_all)
  with assms(2,3) show ?thesis by (simp add: rows_after_def)
qed

text \<open>
  C24: Following a log sees every line once. Polling with the cursor each answer returns, whatever
  the limits and sizes, ends and gives exactly the lines after the starting cursor, in order,
  without gaps or repetitions, the same as one unbounded query. Starting from the tail gives
  exactly the newest lines asked for. Lines appended later only come after all of them.
\<close>

theorem follow_equals_query:
  assumes "table_ok tb"
  shows "follow service limit tb after = rows_after service after tb \<and>
    ck_lines (log_tail service n tb) @ follow service limit tb (ck_last (log_tail service n tb)) =
      newest (clamp_limit n) (service_rows service tb) \<and>
    (\<exists>new. rows_after service after (append_batch c batch tb) = rows_after service after tb @ new)"
proof (intro conjI)
  show "follow service limit tb after = rows_after service after tb" by (rule follow_all [OF assms])
next
  let ?rows = "service_rows service tb" and ?lines = "ck_lines (log_tail service n tb)"
  define k where "k = length ?rows - clamp_limit n"
  have new: "newest (clamp_limit n) ?rows = drop k ?rows" by (simp add: newest_def k_def)
  obtain rest where rest: "drop k ?rows = ?lines @ rest"
    using take_budget_prefix [of "drop k ?rows" chunk_byte_budget] by (auto simp: log_tail_def Let_def new)
  show "?lines @ follow service limit tb (ck_last (log_tail service n tb)) = newest (clamp_limit n) ?rows"
  proof (cases "?lines = []")
    case True
    then have "drop k ?rows = []" by (simp add: log_tail_def Let_def take_budget_Nil new)
    then have "length ?rows \<le> length ?rows - clamp_limit n" by (simp add: k_def)
    with clamp_limit_bounds [of n] have "length ?rows = 0" by arith
    then have "?rows = []" by simp
    then show ?thesis using True follow_all [OF assms] by (simp add: newest_def rows_after_def)
  next
    case False
    have split: "?rows = take k ?rows @ ?lines @ rest" using rest by (metis append_take_drop_id)
    have "sorted_wrt (<) (map lr_id ?lines)"
      using service_rows_sorted [OF assms, of service] by (subst (asm) split) (simp add: sorted_wrt_append)
    moreover have "hd ?lines \<in> set (tb_rows tb)"
    proof -
      have "hd ?lines \<in> set ?rows" using False by (subst split) (simp add: hd_in_set)
      then show ?thesis by (simp add: service_rows_def)
    qed
    then have "0 \<le> lr_id (hd ?lines)" using assms by (auto simp: table_ok_def)
    ultimately have "ck_last (log_tail service n tb) = lr_id (last ?lines)"
      using foldl_max_last [of ?lines 0] False by (simp add: log_tail_def Let_def)
    with rows_after_last [OF assms split False] follow_all [OF assms] rest new show ?thesis by simp
  qed
next
  have "\<exists>new. tb_rows (foldl insert_row tb batch) = tb_rows tb @ new" for tb
  proof (induction batch arbitrary: tb)
    case (Cons r batch)
    then obtain new where "tb_rows (foldl insert_row (insert_row tb r) batch) = tb_rows (insert_row tb r) @ new" by blast
    moreover have "tb_rows (insert_row tb r) = tb_rows tb @ [\<lparr>lr_id = tb_last tb + 1, lr_rec = r\<rparr>]"
      by (simp add: insert_row_def)
    ultimately show ?case by simp
  qed simp
  then have "\<exists>new. tb_rows (append_batch c batch tb) = tb_rows tb @ new" by (simp add: append_batch_def)
  then show "\<exists>new. rows_after service after (append_batch c batch tb) = rows_after service after tb @ new"
    by (auto simp: rows_after_def service_rows_def)
qed

lemma cut_boundary_ok: "is_char_boundary line (cut_boundary line n) \<and> cut_boundary line n \<le> n"
  by (induction n) (auto simp: is_char_boundary_def [of line 0])

lemma truncate_line_shape:
  "truncate_line line = line \<and> length line \<le> 8192 \<or>
   (\<exists>k \<le> 8192. is_char_boundary line k \<and> truncate_line line = take k line @ truncation_marker)"
  using cut_boundary_ok [of line 8192] by (auto simp: truncate_line_def max_line_bytes_def)

lemma length_truncate_line: "length (truncate_line line) \<le> 8192 + 15"
  using truncate_line_shape [of line] by (auto simp: truncation_marker_def)

lemma take_budget_sum:
  "0 < b \<Longrightarrow> \<forall>r\<in>set rs. row_cost r \<le> m \<Longrightarrow> 0 < m \<Longrightarrow> sum_list (map row_cost (take_budget b rs)) < b + m"
proof (induction b rs rule: take_budget.induct)
  case (2 b r rs)
  show ?case
  proof (cases "b - row_cost r = 0")
    case True
    with "2.prems" show ?thesis by (auto simp: Let_def)
  next
    case False
    then have "sum_list (map row_cost (take_budget (b - row_cost r) rs)) < (b - row_cost r) + m"
      using 2 by simp
    with False show ?thesis by (simp add: Let_def)
  qed
qed simp

text \<open>
  Stored lines and answers are bounded. A captured line is stored as it is up to eight KiB and
  otherwise cut at a character boundary and marked, never longer than that plus the marker; and an
  answer over such lines has at most 500 of them and stays below its byte budget plus one line, the
  budget counting the bytes of the lines as stored.
\<close>

theorem log_answers_bounded:
  assumes "\<forall>r\<in>set (tb_rows tb). \<exists>line. lg_line (lr_rec r) = truncate_line line \<and> length (lg_stream (lr_rec r)) \<le> 6"
  shows "length (truncate_line line) \<le> 8192 + 15 \<and>
    (truncate_line line = line \<or> (\<exists>k \<le> 8192. is_char_boundary line k \<and> truncate_line line = take k line @ truncation_marker)) \<and>
    length (ck_lines (query_after service after limit tb)) \<le> 500 \<and>
    sum_list (map row_cost (ck_lines (query_after service after limit tb))) < 700 * 1024 + 8261 \<and>
    sum_list (map row_cost (ck_lines (log_tail service limit tb))) < 700 * 1024 + 8261"
proof -
  have cost: "row_cost r \<le> 8261" if "r \<in> set (tb_rows tb)" for r
  proof -
    from assms that obtain line where "lg_line (lr_rec r) = truncate_line line" "length (lg_stream (lr_rec r)) \<le> 6" by blast
    with length_truncate_line [of line] show ?thesis by (simp add: row_cost_def)
  qed
  have sum: "sum_list (map row_cost (take_budget chunk_byte_budget rows)) < 700 * 1024 + 8261"
    if "set rows \<subseteq> set (tb_rows tb)" for rows
  proof -
    have "sum_list (map row_cost (take_budget chunk_byte_budget rows)) < chunk_byte_budget + 8261"
      by (rule take_budget_sum) (use that cost in \<open>auto simp: chunk_byte_budget_def\<close>)
    then show ?thesis by (simp add: chunk_byte_budget_def)
  qed
  have "set (take (clamp_limit limit) (rows_after service after tb)) \<subseteq> set (tb_rows tb)"
    by (auto simp: rows_after_def service_rows_def dest: in_set_takeD)
  note s1 = sum [OF this]
  have "set (newest (clamp_limit limit) (service_rows service tb)) \<subseteq> set (tb_rows tb)"
    by (auto simp: newest_def service_rows_def dest: in_set_dropD)
  note s2 = sum [OF this]
  have "length (take_budget b rs) \<le> length rs" for b rs
    by (induction b rs rule: take_budget.induct) (auto simp: Let_def)
  then have "length (take_budget chunk_byte_budget (take (clamp_limit limit) (rows_after service after tb))) \<le>
      length (take (clamp_limit limit) (rows_after service after tb))" by blast
  then have "length (ck_lines (query_after service after limit tb)) \<le> clamp_limit limit"
    by (simp add: query_after_def Let_def)
  with clamp_limit_bounds [of limit] s1 s2 length_truncate_line [of line] truncate_line_shape [of line]
  show ?thesis by (auto simp: query_after_def log_tail_def Let_def)
qed

definition example_table :: table where
  "example_table = append_batch True
     [\<lparr>lg_service = ''web'', lg_stream = ''stdout'', lg_ts = 5, lg_line = ''one''\<rparr>,
      \<lparr>lg_service = ''db'', lg_stream = ''stderr'', lg_ts = 6, lg_line = ''two''\<rparr>,
      \<lparr>lg_service = ''web'', lg_stream = ''stdout'', lg_ts = 7, lg_line = ''three''\<rparr>] \<lparr>tb_rows = [], tb_last = 0\<rparr>"

lemma example_table_rows:
  "map (\<lambda>r. (lr_id r, lg_line (lr_rec r))) (service_rows ''web'' example_table) = [(1, ''one''), (3, ''three'')]"
  by (simp add: example_table_def append_batch_def insert_row_def service_rows_def)

theorem follow_equals_query_witness:
  "map (\<lambda>r. lg_line (lr_rec r)) (follow ''web'' 1 example_table 0) = [''one'', ''three'']"
proof -
  have "table_ok example_table" unfolding example_table_def by (rule table_ok_append) (simp add: table_ok_def)
  from follow_equals_query [OF this]
  have "follow ''web'' 1 example_table 0 = rows_after ''web'' 0 example_table" by blast
  then show ?thesis by (simp add: example_table_def append_batch_def insert_row_def rows_after_def service_rows_def)
qed

theorem log_answers_bounded_witness:
  "length (ck_lines (query_after ''web'' 0 7000 example_table)) \<le> 500"
proof -
  have "\<forall>r\<in>set (tb_rows example_table). \<exists>line. lg_line (lr_rec r) = truncate_line line \<and> length (lg_stream (lr_rec r)) \<le> 6"
  proof
    fix r assume "r \<in> set (tb_rows example_table)"
    then have "length (lg_line (lr_rec r)) \<le> max_line_bytes \<and> length (lg_stream (lr_rec r)) \<le> 6"
      by (auto simp: example_table_def append_batch_def insert_row_def max_line_bytes_def)
    then show "\<exists>line. lg_line (lr_rec r) = truncate_line line \<and> length (lg_stream (lr_rec r)) \<le> 6"
      by (intro exI [of _ "lg_line (lr_rec r)"]) (simp add: truncate_line_def)
  qed
  from log_answers_bounded [OF this] show ?thesis by blast
qed

end
