(* ===== verification/Daemon.thy ===== *)
theory Daemon
  imports Sync_Props Log_Store Secrets Grants
begin

text \<open>
  The daemon's shared state and what admits a route to its registry: \<open>DaemonState\<close> and the seeds
  of \<open>portman-daemon/src/lib.rs\<close>, the container events of \<open>docker_events.rs\<close>, and the handlers of
  \<open>handlers.rs\<close> for static rules and TLDs. Docker is a parameter: the containers it lists and the
  result of inspecting one. A handler answers with a \<open>response\<close>; error texts are constructors.
\<close>

section \<open>State\<close>

record daemon =
  dm_sv :: supervisor  \<comment> \<open>with the registry and the certificates asked for, in \<open>sv_routes\<close>\<close>
  dm_creds :: credentials
  dm_static :: static_state
  dm_tls :: tls_state
  dm_tlds :: "string list"
  dm_grants :: grants_file
  dm_logs :: table
  dm_fs :: fs

type_synonym labels = "(string, string) hmap"

record docker_network =
  dn_ip :: "string option"
  dn_networks :: "string option list option"  \<comment> \<open>the address of each network, in the map's order\<close>

record container_inspect =
  ci_network :: "docker_network option"
  ci_labels :: "labels option"

record container_summary =
  cs_id :: "string option"
  cs_labels :: "labels option"

record docker =
  dk_list :: "container_summary list option"
  dk_inspect :: "string \<Rightarrow> container_inspect option"

text \<open>What stays fixed while the daemon runs: files, serialisers, savers, Docker, tasks.\<close>

record daemon_env =
  de_io :: io_env
  de_static_path :: path
  de_static_ser :: "static_state \<Rightarrow> string option"
  de_tls_path :: path
  de_tls_ser :: "tls_state \<Rightarrow> string option"
  de_creds_path :: path
  de_creds_ser :: "credentials \<Rightarrow> string option"
  de_save :: "(write_error, fs) saver"
  de_runtime :: runtime
  de_docker :: docker
  de_dashboard_port :: u16

definition env_of :: "daemon \<Rightarrow> route_env" where
  "env_of d = \<lparr>re_tlds = dm_tlds d, re_static = dm_static d, re_tls = dm_tls d\<rparr>"

definition routes_of :: "daemon \<Rightarrow> route_world" where
  "routes_of d = sv_routes (dm_sv d)"

definition with_routes :: "(route_world \<Rightarrow> route_world) \<Rightarrow> daemon \<Rightarrow> daemon" where
  "with_routes f d = d\<lparr>dm_sv := (dm_sv d)\<lparr>sv_routes := f (sv_routes (dm_sv d))\<rparr>\<rparr>"

definition ensure_cert :: "string \<Rightarrow> route_world \<Rightarrow> route_world" where
  "ensure_cert host rw = rw\<lparr>rw_certs := host # rw_certs rw\<rparr>"

definition routable :: "daemon \<Rightarrow> string \<Rightarrow> bool" where
  "routable d host \<longleftrightarrow> host_is_routable host (dm_tlds d)"

definition host_tls_enabled :: "daemon \<Rightarrow> string \<Rightarrow> bool" where
  "host_tls_enabled d host \<longleftrightarrow> tls_enabled_for_host (dm_tls d) host"

definition tld_list :: "daemon \<Rightarrow> string list" where
  "tld_list d = sort (dm_tlds d)"

definition tld_add :: "string \<Rightarrow> daemon \<Rightarrow> daemon" where
  "tld_add tld d = d\<lparr>dm_tlds := List.insert tld (dm_tlds d)\<rparr>"

definition tld_remove :: "string \<Rightarrow> daemon \<Rightarrow> daemon" where
  "tld_remove tld d = d\<lparr>dm_tlds := removeAll tld (dm_tlds d)\<rparr>"

section \<open>Seeding the registry\<close>

definition seed_builtin_routes :: "u16 \<Rightarrow> daemon \<Rightarrow> daemon" where
  "seed_builtin_routes port d =
     with_routes (upsert_route
       \<lparr>e_host = dashboard_host, e_target = ''127.0.0.1:'' @ show_nat (unat port), e_source = SourceBuiltin,
        e_mode = ModeHttp, e_container_id = None, e_project = None, e_egress = None\<rparr>) d"

definition seed_static_rule :: "daemon \<Rightarrow> string \<times> string \<times> mode \<times> string option \<Rightarrow> daemon" where
  "seed_static_rule d rule =
     (case rule of (host, target, md, project) \<Rightarrow>
        if host = dashboard_host then d
        else if \<not> routable d host then d
        else if md = ModeTcp \<and> host_is_localhost host then d
        else with_routes (upsert_route
          \<lparr>e_host = host, e_target = target, e_source = SourceStatic, e_mode = md,
           e_container_id = None, e_project = project, e_egress = None\<rparr>) d)"

definition seed_from_static_store :: "daemon \<Rightarrow> daemon" where
  "seed_from_static_store d = foldl seed_static_rule d (static_store_list (dm_static d))"

definition provision_certs_for_existing :: "daemon \<Rightarrow> daemon" where
  "provision_certs_for_existing d =
     foldl (\<lambda>d e. if host_tls_enabled d (e_host e) then with_routes (ensure_cert (e_host e)) d else d)
       d (registry_list (rw_registry (routes_of d)))"

subsection \<open>Running containers\<close>

fun not_empty :: "string option \<Rightarrow> string option" where
  "not_empty (Some v) = (if v = [] then None else Some v)"
| "not_empty None = None"

fun first_ip :: "string option list \<Rightarrow> string option" where
  "first_ip [] = None"
| "first_ip (ip # ips) = (case not_empty ip of Some a \<Rightarrow> Some a | None \<Rightarrow> first_ip ips)"

definition pick_ip :: "container_inspect \<Rightarrow> string option" where
  "pick_ip i =
     (case ci_network i of
        None \<Rightarrow> None
      | Some s \<Rightarrow>
          (case not_empty (dn_ip s) of
             Some ip \<Rightarrow> Some ip
           | None \<Rightarrow> (case dn_networks s of Some nets \<Rightarrow> first_ip nets | None \<Rightarrow> None)))"

text \<open>Container ids are hexadecimal, so twelve bytes are twelve characters.\<close>

definition short :: "string \<Rightarrow> string" where
  "short cid = take 12 cid"

definition seed_port :: "mode \<Rightarrow> string option \<Rightarrow> string option" where
  "seed_port md label =
     (case not_empty label of
        Some p \<Rightarrow> Some p
      | None \<Rightarrow> (case md of ModeTcp \<Rightarrow> None | _ \<Rightarrow> Some ''80''))"

text \<open>
  A container is looked at in two parts with a \<open>docker inspect\<close> awaited in between: the checks on
  its labels, after which the following is in flight, and the registration once Docker has answered.
  Anything may happen to the daemon between the two.
\<close>

record inspection =
  in_cid :: string
  in_host :: string
  in_mode :: mode
  in_port :: string
  in_project :: "string option"

definition seed_check :: "daemon \<Rightarrow> container_summary \<Rightarrow> inspection option" where
  "seed_check d summary =
     (case cs_labels summary of None \<Rightarrow> None
      | Some ls \<Rightarrow>
        (case not_empty (hm_get ls ''dev.portman.host'') of None \<Rightarrow> None
         | Some raw_host \<Rightarrow>
           (case validate_host raw_host of Inl _ \<Rightarrow> None
            | Inr host \<Rightarrow>
                let md = mode_parse_label (hm_get ls ''dev.portman.mode'') in
                if host = dashboard_host then None
                else if \<not> routable d host then None
                else if md = ModeTcp \<and> host_is_localhost host then None
                else (case seed_port md (hm_get ls ''dev.portman.port'') of None \<Rightarrow> None
                  | Some port \<Rightarrow>
                    (case cs_id summary of None \<Rightarrow> None
                     | Some cid \<Rightarrow>
                         Some \<lparr>in_cid = cid, in_host = host, in_mode = md, in_port = port, in_project = None\<rparr>)))))"

text \<open>The seeding takes the project from the answer of the inspection.\<close>

definition seed_land :: "docker \<Rightarrow> inspection \<Rightarrow> daemon \<Rightarrow> daemon" where
  "seed_land dk i d =
     (case dk_inspect dk (in_cid i) of None \<Rightarrow> d
      | Some c \<Rightarrow>
        (case pick_ip c of None \<Rightarrow> d
         | Some ip \<Rightarrow> with_routes (upsert_route
             \<lparr>e_host = in_host i, e_target = ip @ '':'' @ in_port i, e_source = SourceContainer, e_mode = in_mode i,
              e_container_id = Some (short (in_cid i)),
              e_project = Option.bind (ci_labels c) (\<lambda>l. hm_get l ''dev.portman.project''),
              e_egress = None\<rparr>) d))"

text \<open>One container of the scan when nothing comes in between.\<close>

definition seed_container :: "docker \<Rightarrow> daemon \<Rightarrow> container_summary \<Rightarrow> daemon" where
  "seed_container dk d summary = (case seed_check d summary of None \<Rightarrow> d | Some i \<Rightarrow> seed_land dk i d)"

definition seed_from_running_containers :: "docker \<Rightarrow> daemon \<Rightarrow> daemon" where
  "seed_from_running_containers dk d =
     (case dk_list dk of None \<Rightarrow> d | Some summaries \<Rightarrow> foldl (seed_container dk) d summaries)"

definition rehydrate_registry_for_managed_tlds :: "docker \<Rightarrow> daemon \<Rightarrow> daemon" where
  "rehydrate_registry_for_managed_tlds dk d = seed_from_running_containers dk (seed_from_static_store d)"

section \<open>Container events\<close>

record docker_event =
  ev_container :: bool  \<comment> \<open>the event's type is \<open>container\<close>\<close>
  ev_action :: "string option"
  ev_actor :: "(string option \<times> labels option) option"

definition actor_label :: "labels option \<Rightarrow> string \<Rightarrow> string option" where
  "actor_label attrs key = not_empty (Option.bind attrs (\<lambda>a. hm_get a key))"

definition resolve_target :: "docker \<Rightarrow> string \<Rightarrow> string \<Rightarrow> string option" where
  "resolve_target dk cid port =
     (case dk_inspect dk cid of None \<Rightarrow> None
      | Some i \<Rightarrow>
        (case ci_network i of None \<Rightarrow> None
         | Some s \<Rightarrow>
           (case not_empty (dn_ip s) of
              Some ip \<Rightarrow> Some (ip @ '':'' @ port)
            | None \<Rightarrow>
              (case dn_networks s of None \<Rightarrow> None
               | Some nets \<Rightarrow> map_option (\<lambda>ip. ip @ '':'' @ port) (first_ip nets)))))"

definition start_check :: "string \<Rightarrow> labels option \<Rightarrow> daemon \<Rightarrow> inspection option" where
  "start_check cid attrs d =
     (case actor_label attrs ''dev.portman.host'' of None \<Rightarrow> None
      | Some raw_host \<Rightarrow>
        (case validate_host raw_host of Inl _ \<Rightarrow> None
         | Inr host \<Rightarrow>
             if host = dashboard_host then None
             else if \<not> routable d host then None
             else
               let md = mode_parse_label (actor_label attrs ''dev.portman.mode'') in
               if md = ModeTcp \<and> host_is_localhost host then None
               else (case (actor_label attrs ''dev.portman.port'', md) of
                   (None, ModeTcp) \<Rightarrow> None
                 | (label, _) \<Rightarrow>
                     Some \<lparr>in_cid = cid, in_host = host, in_mode = md,
                       in_port = (case label of Some p \<Rightarrow> p | None \<Rightarrow> ''80''),
                       in_project = actor_label attrs ''dev.portman.project''\<rparr>)))"

definition start_land :: "docker \<Rightarrow> inspection \<Rightarrow> daemon \<Rightarrow> daemon" where
  "start_land dk i d =
     (case resolve_target dk (in_cid i) (in_port i) of None \<Rightarrow> d
      | Some target \<Rightarrow>
          let d = with_routes (upsert_route
            \<lparr>e_host = in_host i, e_target = target, e_source = SourceContainer, e_mode = in_mode i,
             e_container_id = Some (short (in_cid i)), e_project = in_project i, e_egress = None\<rparr>) d
          in if in_mode i = ModeHttp \<and> host_tls_enabled d (in_host i) then with_routes (ensure_cert (in_host i)) d else d)"

text \<open>A start event when nothing comes in between.\<close>

definition container_started :: "docker \<Rightarrow> string \<Rightarrow> labels option \<Rightarrow> daemon \<Rightarrow> daemon" where
  "container_started dk cid attrs d = (case start_check cid attrs d of None \<Rightarrow> d | Some i \<Rightarrow> start_land dk i d)"

definition container_stopped :: "string \<Rightarrow> daemon \<Rightarrow> daemon" where
  "container_stopped cid d =
     with_routes (\<lambda>rw. rw\<lparr>rw_registry := snd (registry_remove_by_container_id (short cid) (rw_registry rw))\<rparr>) d"

definition handle_event :: "docker \<Rightarrow> docker_event \<Rightarrow> daemon \<Rightarrow> daemon" where
  "handle_event dk ev d =
     (if \<not> ev_container ev then d
      else (case ev_actor ev of None \<Rightarrow> d
        | Some (cid, attrs) \<Rightarrow>
            let action = unwrap_or (ev_action ev) []; cid = unwrap_or cid [] in
            if cid = [] then d
            else if action = ''start'' then container_started dk cid attrs d
            else if action = ''stop'' \<or> action = ''die'' then container_stopped cid d
            else d))"

end
