(* ===== verification/Starter.thy ===== *)
theory Starter
  imports Daemon
begin

text \<open>
  Starting what is behind a host, \<open>portman-daemon/src/runner.rs\<close>: the supervised service, else the
  pitchfork service a static rule maps, else the container. Docker calls, the \<open>sudo\<close> process and the
  login user are parameters.
\<close>

section \<open>The outside\<close>

record process_output =
  po_success :: bool
  po_stderr :: string

record start_env =
  sn_list_all :: "container_summary list option"  \<comment> \<open>stopped containers included\<close>
  sn_restart :: "string \<Rightarrow> bool"
  sn_start :: "string \<Rightarrow> bool"
  sn_sudo_user :: "string option"
  sn_home :: "path option"
  sn_run :: "string list \<Rightarrow> process_output option option"  \<comment> \<open>\<open>None\<close>: timed out; \<open>Some None\<close>: not spawned\<close>

datatype start_error =
  StartManaged | StartUp "write_error sup_error" | StartService service_error | StartNoUser | StartNoHome
| StartTimedOut string | StartNotSpawned string | StartFailed string string | StartRestart string | StartStart string
| StartListing | StartUnknown string

section \<open>Pitchfork\<close>

definition str_lines :: "string \<Rightarrow> string list" where
  "str_lines s =
     (let ls = split_on (CHR 0x0A) s;
          ls = (if last ls = [] then butlast ls else ls)
      in map (\<lambda>l. unwrap_or (strip_suffix [CHR 0x0D] l) l) ls)"

definition login_user :: "string option \<Rightarrow> start_error + string" where
  "login_user sudo_user =
     (case sudo_user of
        Some u \<Rightarrow> if trim u \<noteq> [] then Inr (trim u) else Inl StartNoUser
      | None \<Rightarrow> Inl StartNoUser)"

definition pitchfork_path :: "path \<Rightarrow> string" where
  "pitchfork_path h =
     ''PATH='' @ h @ ''/.local/share/mise/shims:'' @ h @ ''/.local/bin:'' @ h @ ''/.cargo/bin:'' @
     ''/opt/homebrew/bin:/usr/local/bin:/usr/bin:/bin''"

definition pitchfork_argv :: "string \<Rightarrow> path \<Rightarrow> string \<Rightarrow> string list" where
  "pitchfork_argv user home service =
     [''/usr/bin/sudo'', ''-u'', user, ''-H'', ''/usr/bin/env'', pitchfork_path home, ''pitchfork'', ''start'', service]"

definition start_pitchfork_service :: "start_env \<Rightarrow> string \<Rightarrow> start_error + string" where
  "start_pitchfork_service sn service =
     and_then (map_err StartService (validate_service service)) (\<lambda>service.
     and_then (login_user (sn_sudo_user sn)) (\<lambda>user.
     and_then (ok_or StartNoHome (sn_home sn)) (\<lambda>home.
     and_then (ok_or (StartTimedOut service) (sn_run sn (pitchfork_argv user home service))) (\<lambda>spawned.
     and_then (ok_or (StartNotSpawned service) spawned) (\<lambda>out.
       if po_success out then
         (let ls = str_lines (po_stderr out); last = trim (if ls = [] then [] else last ls) in
          Inr (if last = [] then ''pitchfork start '' @ service @ '': ok''
               else ''pitchfork start '' @ service @ '': '' @ last))
       else Inl (StartFailed service (join_str '' | '' (take 4 (rev (str_lines (po_stderr out)))))))))))"

section \<open>Containers\<close>

definition start_container :: "start_env \<Rightarrow> string \<Rightarrow> bool \<Rightarrow> start_error + string" where
  "start_container sn cid running =
     (if running then
        (if sn_restart sn cid then Inr (''restarted container '' @ cid) else Inl (StartRestart cid))
      else (if sn_start sn cid then Inr (''started container '' @ cid) else Inl (StartStart cid)))"

text \<open>The first container whose label is exactly the host and that has an id.\<close>

fun find_labelled :: "string \<Rightarrow> container_summary list \<Rightarrow> string option" where
  "find_labelled host [] = None"
| "find_labelled host (s # ss) =
     (case Option.bind (cs_labels s) (\<lambda>ls. if hm_get ls ''dev.portman.host'' = Some host then cs_id s else None) of
        Some cid \<Rightarrow> Some cid
      | None \<Rightarrow> find_labelled host ss)"

definition find_labelled_container :: "start_env \<Rightarrow> string \<Rightarrow> start_error + string option" where
  "find_labelled_container sn host = and_then (ok_or StartListing (sn_list_all sn)) (\<lambda>ss. Inr (find_labelled host ss))"

section \<open>The starter\<close>

definition can_start :: "daemon \<Rightarrow> string \<Rightarrow> string option \<Rightarrow> bool" where
  "can_start d host container_id \<longleftrightarrow>
     \<not> sv_managed (dm_sv d) \<and>
     (service_for_host (dm_sv d) host \<noteq> None \<or> container_id \<noteq> None \<or> static_store_service_for (dm_static d) host \<noteq> None)"

definition start_host :: "daemon_env \<Rightarrow> start_env \<Rightarrow> string \<Rightarrow> daemon \<Rightarrow> (start_error + string) \<times> daemon" where
  "start_host de sn host d =
     (if sv_managed (dm_sv d) then (Inl StartManaged, d)
      else (case service_for_host (dm_sv d) host of
        Some service \<Rightarrow>
          (case up (env_of d) (de_runtime de) (de_save de) [service] (dm_sv d) (dm_fs d) of
             (Inl e, sv, w) \<Rightarrow> (Inl (StartUp e), d\<lparr>dm_sv := sv, dm_fs := w\<rparr>)
           | (Inr _, sv, w) \<Rightarrow> (Inr (''starting service '' @ service), d\<lparr>dm_sv := sv, dm_fs := w\<rparr>))
      | None \<Rightarrow>
          (case static_store_service_for (dm_static d) host of
             Some service \<Rightarrow> (start_pitchfork_service sn service, d)
           | None \<Rightarrow>
               (case Option.bind (registry_get (rw_registry (routes_of d)) host) e_container_id of
                  Some cid \<Rightarrow> (start_container sn cid True, d)
                | None \<Rightarrow>
                    (and_then (find_labelled_container sn host) (\<lambda>found.
                       case found of Some cid \<Rightarrow> start_container sn cid False | None \<Rightarrow> Inl (StartUnknown host)), d)))))"

end
