(* ===== verification/Inference.thy ===== *)
theory Inference
  imports Sync_Props Secrets Masker
begin

text \<open>
  Owned inference routes, \<open>install_inference_route\<close> and \<open>remove_inference_route\<close> in
  \<open>portman-daemon/src/supervisor.rs\<close>: one request provisions a vault key, a local block and an
  egress route together, and only their owner may change or remove them. Also the lookup of the
  credential an egress route names, \<open>resolve_egress_value\<close>.
\<close>

section \<open>Checking a request\<close>

datatype 'e inference_error =
  InvalidRoot | InvalidConfig config_error | InvalidHostname | NotManaged | InvalidCredential | InvalidBinding
| RootConflict | BlockConflict | RouteConflict | VaultError "'e sup_error owned_error"

text \<open>\<open>..\<close> is the only component of an absolute path that is neither the root nor a name.\<close>

definition inference_root_ok :: "path \<Rightarrow> bool" where
  "inference_root_ok root \<longleftrightarrow>
     is_absolute root \<and> ''..'' \<notin> set (split_on CHR ''/'' root) \<and> length root \<le> 4096 \<and> \<not> has_control root"

definition inference_host_ok :: "string \<Rightarrow> string \<Rightarrow> bool" where
  "inference_host_ok name host \<longleftrightarrow>
     length name \<le> 63 \<and> name \<noteq> [] \<and>
     list_all (\<lambda>c. is_ascii_lowercase c \<or> is_ascii_digit c \<or> c = CHR ''-'') name \<and>
     \<not> starts_with ''-'' name \<and> \<not> ends_with ''-'' name \<and>
     host = name @ ''.localhost'' \<and> host \<noteq> dashboard_host"

definition ensure_inference_fields :: "path \<Rightarrow> string \<Rightarrow> string \<Rightarrow> string \<Rightarrow> 'e inference_error + unit" where
  "ensure_inference_fields root name key host =
     and_then (ensure (inference_root_ok root) InvalidRoot) (\<lambda>_.
     and_then (map_err InvalidConfig (validate_env_key key)) (\<lambda>_.
     and_then (map_err InvalidConfig (validate_secrets_block name (LocalVault [key]))) (\<lambda>_.
       ensure (inference_host_ok name host) InvalidHostname)))"

definition inference_value_ok :: "string \<Rightarrow> bool" where
  "inference_value_ok val \<longleftrightarrow> val \<noteq> [] \<and> length val \<le> 16384 \<and> trim val = val \<and> \<not> has_control val"

definition inference_binding_ok :: "string \<Rightarrow> string \<Rightarrow> egress_route \<Rightarrow> bool" where
  "inference_binding_ok name key route \<longleftrightarrow>
     (let spec = er_spec route in
      es_secrets spec = name \<and> es_key spec = key \<and> es_require_caller_token spec \<and> es_tls spec \<and>
      es_header spec = ''Authorization'' \<and> es_format spec = ''Bearer {value}'')"

section \<open>Ownership\<close>

definition block_touches :: "path \<Rightarrow> string \<Rightarrow> string \<Rightarrow> string \<times> persisted_secrets \<Rightarrow> bool" where
  "block_touches root name key nb \<longleftrightarrow>
     (case nb of (held_name, block) \<Rightarrow>
        held_name = name \<or> psc_root block = Some root \<or>
        (case psc_config block of LocalVault keys \<Rightarrow> key \<in> set keys | _ \<Rightarrow> False))"

definition block_owned :: "path \<Rightarrow> string \<Rightarrow> string \<Rightarrow> string \<times> persisted_secrets \<Rightarrow> bool" where
  "block_owned root name key nb \<longleftrightarrow>
     (case nb of (held_name, block) \<Rightarrow>
        held_name = name \<and> psc_root block = Some root \<and> psc_config block = LocalVault [key])"

definition route_touches :: "path \<Rightarrow> string \<Rightarrow> string \<Rightarrow> string \<Rightarrow> string \<times> persisted_egress \<Rightarrow> bool" where
  "route_touches root name key host nr \<longleftrightarrow>
     (case nr of (held_name, route) \<Rightarrow>
        held_name = name \<or> peg_root route = root \<or> er_host (peg_route route) = host \<or>
        es_key (er_spec (peg_route route)) = key)"

definition route_owned ::
  "path \<Rightarrow> string \<Rightarrow> string \<Rightarrow> string \<Rightarrow> egress_route option \<Rightarrow> string \<times> persisted_egress \<Rightarrow> bool" where
  "route_owned root name key host expected nr \<longleftrightarrow>
     (case nr of (held_name, route) \<Rightarrow>
        held_name = name \<and> peg_root route = root \<and> er_host (peg_route route) = host \<and>
        es_secrets (er_spec (peg_route route)) = name \<and> es_key (er_spec (peg_route route)) = key \<and>
        (case expected of None \<Rightarrow> True | Some e \<Rightarrow> peg_route route = e))"

definition inference_route_owned ::
  "path \<Rightarrow> string \<Rightarrow> string \<Rightarrow> string \<Rightarrow> egress_route option \<Rightarrow> supervisor \<Rightarrow> 'e inference_error + bool" where
  "inference_route_owned root name key host expected sv =
     (let snapshot = persisted_snapshot sv in
      and_then (ensure (\<not> list_ex (\<lambda>(_, service). psv_root service = root) (ps_services snapshot)) RootConflict) (\<lambda>_.
      and_then (for_each (\<lambda>nb. ensure (block_touches root name key nb \<longrightarrow> block_owned root name key nb) BlockConflict)
        (ps_secrets snapshot)) (\<lambda>_.
      and_then (for_each (\<lambda>nr. ensure (route_touches root name key host nr \<longrightarrow> route_owned root name key host expected nr)
          RouteConflict) (ps_egress snapshot)) (\<lambda>_.
        Inr (bt_contains (ps_egress snapshot) name \<and> bt_contains (ps_secrets snapshot) name)))))"

section \<open>Installing and removing\<close>

text \<open>The vault's save in a world that also holds the supervisor.\<close>

definition vault_save ::
  "(credentials \<Rightarrow> 'w \<Rightarrow> ('e + unit) \<times> 'w) \<Rightarrow> credentials \<Rightarrow> supervisor \<times> 'w
   \<Rightarrow> ('e sup_error + unit) \<times> supervisor \<times> 'w" where
  "vault_save save cr sw = (case sw of (sv, w) \<Rightarrow> (case save cr w of (r, w) \<Rightarrow> (map_err SaveFailed r, sv, w)))"

definition install_inference_route ::
  "route_env \<Rightarrow> ('e, 'w) saver \<Rightarrow> (credentials \<Rightarrow> 'w \<Rightarrow> ('e + unit) \<times> 'w) \<Rightarrow> path \<Rightarrow> string \<Rightarrow> string \<Rightarrow> string
   \<Rightarrow> egress_route \<Rightarrow> credentials \<Rightarrow> supervisor \<Rightarrow> 'w
   \<Rightarrow> ('e inference_error + unit) \<times> credentials \<times> supervisor \<times> 'w" where
  "install_inference_route env save save_cr root name key val route cr sv w =
     (case and_then (ensure_inference_fields root name key (er_host route)) (\<lambda>_.
           and_then (ensure (sv_managed sv) NotManaged) (\<lambda>_.
           and_then (ensure (inference_value_ok val) InvalidCredential) (\<lambda>_.
           and_then (ensure (inference_binding_ok name key route) InvalidBinding) (\<lambda>_.
             inference_route_owned root name key (er_host route) (Some route) sv)))) of
        Inl e \<Rightarrow> (Inl e, cr, sv, w)
      | Inr owned \<Rightarrow>
          (case install_owned_local (vault_save save_cr) key val owned
              (\<lambda>(sv, w). sync_managed_routes env save root [(name, LocalVault [key])] [(name, route)] sv w) cr (sv, w) of
             (r, cr, sv, w) \<Rightarrow> (map_err VaultError r, cr, sv, w)))"

definition remove_inference_route ::
  "route_env \<Rightarrow> ('e, 'w) saver \<Rightarrow> (credentials \<Rightarrow> 'w \<Rightarrow> ('e + unit) \<times> 'w) \<Rightarrow> path \<Rightarrow> string \<Rightarrow> string \<Rightarrow> string
   \<Rightarrow> credentials \<Rightarrow> supervisor \<Rightarrow> 'w \<Rightarrow> ('e inference_error + unit) \<times> credentials \<times> supervisor \<times> 'w" where
  "remove_inference_route env save save_cr root name key host cr sv w =
     (case and_then (ensure_inference_fields root name key host) (\<lambda>_.
           and_then (ensure (sv_managed sv) NotManaged) (\<lambda>_.
             inference_route_owned root name key host None sv)) of
        Inl e \<Rightarrow> (Inl e, cr, sv, w)
      | Inr owned \<Rightarrow>
          (case remove_owned_local (vault_save save_cr) key owned
              (\<lambda>(sv, w). sync_managed_routes env save root [] [] sv w) cr (sv, w) of
             (r, cr, sv, w) \<Rightarrow> (map_err VaultError r, cr, sv, w)))"

section \<open>The credential an egress route names\<close>

definition resolve_egress_value ::
  "'w provider_env \<Rightarrow> (string \<Rightarrow> string) \<Rightarrow> egress_spec \<Rightarrow> supervisor \<Rightarrow> 'w secrets_source \<Rightarrow> masker
   \<Rightarrow> string option \<times> 'w secrets_source \<times> masker" where
  "resolve_egress_value env digest8 spec sv src m =
     (case bt_get (sv_secrets sv) (es_secrets spec) of
        None \<Rightarrow> (None, src, m)
      | Some p \<Rightarrow>
          (case resolve_block env (es_secrets spec) (psc_config p) src of
             (Inl _, src) \<Rightarrow> (None, src, m)
           | (Inr vals, src) \<Rightarrow>
               (case List.find (\<lambda>(k, _). k = es_key spec) vals of
                  None \<Rightarrow> (None, src, m)
                | Some (_, val) \<Rightarrow>
                    if val = [] then (None, src, m)
                    else (Some val, src,
                      masker_register digest8 (''__egress__/'' @ es_secrets spec @ ''/'' @ es_key spec) [val] m))))"

section \<open>What ownership rules out\<close>

lemma bt_contains_map [simp]: "bt_contains (map (\<lambda>(k, v). (k, f v)) m) k = bt_contains m k"
  by (force simp: bt_contains_iff)

lemma inference_route_owned_Inr:
  "inference_route_owned root name key host expected sv = Inr owned \<longleftrightarrow>
     (\<forall>(_, sl)\<in>set (sv_slots sv). sl_root sl \<noteq> root) \<and>
     (\<forall>nb\<in>set (sv_secrets sv). block_touches root name key nb \<longrightarrow> block_owned root name key nb) \<and>
     (\<forall>nr\<in>set (sv_egress sv). route_touches root name key host nr \<longrightarrow> route_owned root name key host expected nr) \<and>
     owned = (bt_contains (sv_egress sv) name \<and> bt_contains (sv_secrets sv) name)"
  by (auto simp: inference_route_owned_def persisted_snapshot_def persisted_service_of_def Let_def and_then_Inr
      ensure_Inr for_each_Inr list_ex_iff)

lemma owned_block:
  assumes "sv_ok sv" and "inference_route_owned root name key host expected sv = Inr owned"
    and "bt_get (sv_secrets sv) n = Some b" and "n = name \<or> psc_root b = Some root"
  shows "n = name \<and> b = own_block root (LocalVault [key])"
proof -
  have "(n, b) \<in> set (sv_secrets sv)" using assms(1,3) by (simp add: sv_ok_def bt_get_iff)
  moreover have "block_touches root name key (n, b)" using assms(4) by (auto simp: block_touches_def)
  ultimately have "block_owned root name key (n, b)" using assms(2) by (auto simp: inference_route_owned_Inr)
  then show ?thesis by (simp add: block_owned_def own_block_def)
qed

lemma owned_route:
  assumes "sv_ok sv" and "inference_route_owned root name key host expected sv = Inr owned"
    and "bt_get (sv_egress sv) n = Some e"
    and "n = name \<or> peg_root e = root \<or> er_host (peg_route e) = host \<or> es_key (er_spec (peg_route e)) = key"
  shows "n = name \<and> peg_root e = root \<and> route_owned root name key host expected (n, e)"
proof -
  have "(n, e) \<in> set (sv_egress sv)" using assms(1,3) by (simp add: sv_ok_def bt_get_iff)
  moreover have "route_touches root name key host (n, e)" using assms(4) by (auto simp: route_touches_def)
  ultimately have "route_owned root name key host expected (n, e)" using assms(2) by (auto simp: inference_route_owned_Inr)
  then show ?thesis by (simp add: route_owned_def)
qed

text \<open>The maps after a commit of the one owned route, or of none.\<close>

lemma bt_get_managed_egress:
  assumes "bt_ok (sv_egress sv)" and "bt_ok egress"
  shows "bt_get (managed_egress root egress sv) =
    replaced (\<lambda>e. peg_root e = root) (own_route root) (bt_get egress) (bt_get (sv_egress sv))"
  using assms
  by (auto simp: fun_eq_iff managed_egress_def bt_get_extend map_of_rev_map_bt bt_get_retain replaced_def
      split: option.split)

lemma replaced_one:
  assumes "\<And>n v. old n = Some v \<Longrightarrow> owned v \<longleftrightarrow> n = name"
  shows "replaced owned wrap (bt_get [(name, c)]) old = old(name \<mapsto> wrap c)"
    and "replaced owned wrap (bt_get []) old = old(name := None)"
proof -
  have "bt_get [(name, c)] = [name \<mapsto> c]" "bt_get [] = (\<lambda>_. None)" by (auto simp: bt_get_def)
  then show "replaced owned wrap (bt_get [(name, c)]) old = old(name \<mapsto> wrap c)"
    "replaced owned wrap (bt_get []) old = old(name := None)"
    using assms by (auto simp: fun_eq_iff replaced_def split: option.split)
qed

lemma commit_owned:
  assumes "sv_ok sv" and "inference_route_owned root name key host expected sv = Inr owned"
  shows "bt_get (sv_secrets (managed_commit env root [(name, LocalVault [key])] [(name, route)] sv)) =
      (bt_get (sv_secrets sv))(name \<mapsto> own_block root (LocalVault [key]))"
    and "bt_get (sv_egress (managed_commit env root [(name, LocalVault [key])] [(name, route)] sv)) =
      (bt_get (sv_egress sv))(name \<mapsto> own_route root route)"
    and "bt_get (sv_secrets (managed_commit env root [] [] sv)) = (bt_get (sv_secrets sv))(name := None)"
    and "bt_get (sv_egress (managed_commit env root [] [] sv)) = (bt_get (sv_egress sv))(name := None)"
proof -
  have ok: "bt_ok (sv_secrets sv)" "bt_ok (sv_egress sv)" using assms(1) by (simp_all add: sv_ok_def)
  have b: "psc_root b = Some root \<longleftrightarrow> n = name" if "bt_get (sv_secrets sv) n = Some b" for n b
    using owned_block [OF assms that] by (auto simp: own_block_def)
  have r: "peg_root e = root \<longleftrightarrow> n = name" if "bt_get (sv_egress sv) n = Some e" for n e
    using owned_route [OF assms that] by blast
  have s: "sv_secrets (managed_commit env root bs rs sv) = replace_blocks root bs (sv_secrets sv)"
    and e: "sv_egress (managed_commit env root bs rs sv) = managed_egress root rs sv" for bs rs
    by (simp_all add: managed_commit_def)
  have "bt_ok [(name, LocalVault [key])]" "bt_ok [(name, route)]" by simp_all
  note reps = this bt_ok_Nil
  show "bt_get (sv_secrets (managed_commit env root [(name, LocalVault [key])] [(name, route)] sv)) =
      (bt_get (sv_secrets sv))(name \<mapsto> own_block root (LocalVault [key]))"
    unfolding s bt_get_replace_blocks [OF ok(1) reps(1)] by (rule replaced_one(1)) (rule b)
  show "bt_get (sv_secrets (managed_commit env root [] [] sv)) = (bt_get (sv_secrets sv))(name := None)"
    unfolding s bt_get_replace_blocks [OF ok(1) reps(3)] by (rule replaced_one(2)) (rule b)
  show "bt_get (sv_egress (managed_commit env root [(name, LocalVault [key])] [(name, route)] sv)) =
      (bt_get (sv_egress sv))(name \<mapsto> own_route root route)"
    unfolding e bt_get_managed_egress [OF ok(2) reps(2)] by (rule replaced_one(1)) (rule r)
  show "bt_get (sv_egress (managed_commit env root [] [] sv)) = (bt_get (sv_egress sv))(name := None)"
    unfolding e bt_get_managed_egress [OF ok(2) reps(3)] by (rule replaced_one(2)) (rule r)
qed

lemma sv_ok_managed_commit:
  "sv_ok sv \<Longrightarrow> sv_ok (managed_commit env root secrets egress sv)"
  by (simp add: sv_ok_def managed_commit_def managed_egress_def bt_ok_replace_blocks routes_ok_reroute)

section \<open>The outcomes\<close>

text \<open>Everything the request checks before it writes.\<close>

definition install_check ::
  "path \<Rightarrow> string \<Rightarrow> string \<Rightarrow> string \<Rightarrow> egress_route \<Rightarrow> supervisor \<Rightarrow> 'e inference_error + bool" where
  "install_check root name key val route sv =
     and_then (ensure_inference_fields root name key (er_host route)) (\<lambda>_.
     and_then (ensure (sv_managed sv) NotManaged) (\<lambda>_.
     and_then (ensure (inference_value_ok val) InvalidCredential) (\<lambda>_.
     and_then (ensure (inference_binding_ok name key route) InvalidBinding) (\<lambda>_.
       inference_route_owned root name key (er_host route) (Some route) sv))))"

definition remove_check :: "path \<Rightarrow> string \<Rightarrow> string \<Rightarrow> string \<Rightarrow> supervisor \<Rightarrow> 'e inference_error + bool" where
  "remove_check root name key host sv =
     and_then (ensure_inference_fields root name key host) (\<lambda>_.
     and_then (ensure (sv_managed sv) NotManaged) (\<lambda>_. inference_route_owned root name key host None sv))"

lemma install_check_Inr:
  "install_check root name key val route sv = (Inr owned :: 'e inference_error + bool) \<longleftrightarrow>
     (ensure_inference_fields root name key (er_host route) :: 'e inference_error + unit) = Inr () \<and> sv_managed sv \<and>
     inference_value_ok val \<and> inference_binding_ok name key route \<and>
     (inference_route_owned root name key (er_host route) (Some route) sv :: 'e inference_error + bool) = Inr owned"
  by (simp add: install_check_def and_then_Inr ensure_Inr)

lemma remove_check_Inr:
  "remove_check root name key host sv = (Inr owned :: 'e inference_error + bool) \<longleftrightarrow>
     (ensure_inference_fields root name key host :: 'e inference_error + unit) = Inr () \<and> sv_managed sv \<and>
     (inference_route_owned root name key host None sv :: 'e inference_error + bool) = Inr owned"
  by (simp add: remove_check_def and_then_Inr ensure_Inr)

lemma install_inference_eq:
  fixes save :: "('e, 'w) saver"
  assumes "sync_managed_routes env save root [(name, LocalVault [key])] [(name, route)] sv w = (q, sv1, w1)"
    and "save_cr (cr\<lparr>cr_local := bt_insert key val (cr_local cr)\<rparr>) w1 = (p, w2)"
  shows "install_inference_route env save save_cr root name key val route cr sv w =
    (case install_check root name key val route sv of
       Inl e \<Rightarrow> (Inl e, cr, sv, w)
     | Inr owned \<Rightarrow>
         if bt_get (cr_local cr) key \<noteq> None \<and> \<not> (owned \<and> bt_get (cr_local cr) key = Some val)
         then (Inl (VaultError OwnedConflict), cr, sv, w)
         else case q of
           Inl e \<Rightarrow> (Inl (VaultError (OwnedHook e)), cr, sv1, w1)
         | Inr _ \<Rightarrow>
             (case p of
                Inl e \<Rightarrow> (Inl (VaultError (OwnedSave (SaveFailed e))), cr, sv1, w2)
              | Inr _ \<Rightarrow> (Inr (), cr\<lparr>cr_local := bt_insert key val (cr_local cr)\<rparr>, sv1, w2)))"
  using assms
  by (cases "install_check root name key val route sv :: 'e inference_error + bool"; cases "bt_get (cr_local cr) key";
      cases q; cases p)
     (simp_all add: install_inference_route_def flip: install_check_def, simp_all add: install_owned_local_def
        commit_def vault_save_def)

lemma remove_inference_eq:
  fixes save :: "('e, 'w) saver"
  assumes "save_cr (cr\<lparr>cr_local := bt_remove key (cr_local cr)\<rparr>) w = (p, w1)"
    and "sync_managed_routes env save root [] [] sv w1 = (q, sv2, w2)"
  shows "remove_inference_route env save save_cr root name key host cr sv w =
    (case remove_check root name key host sv of
       Inl e \<Rightarrow> (Inl e, cr, sv, w)
     | Inr owned \<Rightarrow>
         if \<not> owned \<and> bt_get (cr_local cr) key \<noteq> None then (Inl (VaultError OwnedConflict), cr, sv, w)
         else case p of
           Inl e \<Rightarrow> (Inl (VaultError (OwnedSave (SaveFailed e))), cr, sv, w1)
         | Inr _ \<Rightarrow> (map_err (\<lambda>e. VaultError (OwnedHook e)) q, cr\<lparr>cr_local := bt_remove key (cr_local cr)\<rparr>, sv2, w2))"
  using assms
  by (cases "remove_check root name key host sv :: 'e inference_error + bool"; cases q; cases p)
     (simp_all add: remove_inference_route_def flip: remove_check_def, simp_all add: remove_owned_local_def
        commit_def vault_save_def)


section \<open>Properties\<close>

lemma inference_host_routable:
  assumes "(ensure_inference_fields root name key host :: 'e inference_error + unit) = Inr ()"
  shows "host = name @ ''.localhost''" and "to_ascii_lowercase host = host" and "host \<noteq> dashboard_host"
    and "host_is_routable host tlds"
proof -
  have ok: "inference_host_ok name host"
    using assms by (simp add: ensure_inference_fields_def and_then_Inr ensure_Inr)
  show h: "host = name @ ''.localhost''" and "host \<noteq> dashboard_host" using ok unfolding inference_host_ok_def by blast+
  have "to_ascii_lowercase name = name"
    unfolding to_ascii_lowercase_def
  proof (rule map_idI)
    fix c assume "c \<in> set name"
    with ok have "is_ascii_lowercase c \<or> is_ascii_digit c \<or> c = CHR ''-''"
      by (auto simp: inference_host_ok_def list_all_iff)
    then have "\<not> is_ascii_uppercase c" by (auto simp: ascii_defs)
    then show "ascii_lower_char c = c" by (rule ascii_lower_char_id)
  qed
  moreover have "to_ascii_lowercase ''.localhost'' = ''.localhost''" by code_simp
  ultimately show low: "to_ascii_lowercase host = host"
    unfolding h by (simp only: to_ascii_lowercase_def map_append)
  have "ends_with ''.localhost'' host" unfolding h ends_with_iff by blast
  then have "host_is_localhost host" unfolding host_is_localhost_def Let_def low by blast
  then show "host_is_routable host tlds" by (simp add: host_is_routable_def)
qed

lemma route_at_reroute_one:
  assumes "routes_ok rw" and "er_host route \<noteq> dashboard_host" and "host_is_routable (er_host route) (re_tlds env)"
  shows "builtin_at (reroute_egress env removed [] [route] rw) (er_host route) \<or>
    route_at (reroute_egress env removed [] [route] rw) (er_host route) =
      Some ((egress_entry route)\<lparr>e_host := to_ascii_lowercase (er_host route)\<rparr>)"
proof -
  let ?rw = "foldl (\<lambda>rw r. egress_deregister env r rw) rw removed"
  have ok: "routes_ok ?rw" using routes_ok_reroute [OF assms(1), of env removed "[]" "[]"] by (simp add: reroute_egress_def)
  have eq: "reroute_egress env removed [] [route] rw = upsert_route (egress_entry route) ?rw"
    using assms(2,3) by (simp add: reroute_egress_def egress_register_def)
  have host: "e_host (egress_entry route) = er_host route" "e_source (egress_entry route) \<noteq> SourceBuiltin"
    by (simp_all add: egress_entry_def)
  show ?thesis
    unfolding eq builtin_at_def route_at_upsert [OF ok host(2)] host(1) by auto
qed

text \<open>
  Installing an inference route is all or nothing up to the last step. When it succeeds, the
  vault gained exactly the key, the broker exactly the local block and the token-requiring route,
  nothing else of either changed, and the host answers with that route unless it is built in.
  When it fails the vault is unchanged, and so is the broker unless only the vault's own save
  failed.
\<close>

theorem install_inference_exact:
  fixes save :: "('e, 'w) saver"
  assumes "sv_ok sv" and "bt_ok (cr_local cr)"
    and "install_inference_route env save save_cr root name key val route cr sv w = (r, cr', sv', w')"
  shows "case r of
      Inr _ \<Rightarrow> sv_managed sv \<and> es_require_caller_token (er_spec route) \<and> er_host route = name @ ''.localhost'' \<and>
        sv_slots sv' = sv_slots sv \<and>
        bt_get (cr_local cr') = (bt_get (cr_local cr))(key \<mapsto> val) \<and>
        bt_get (sv_secrets sv') = (bt_get (sv_secrets sv))(name \<mapsto> own_block root (LocalVault [key])) \<and>
        bt_get (sv_egress sv') = (bt_get (sv_egress sv))(name \<mapsto> own_route root route) \<and>
        (builtin_at (sv_routes sv') (er_host route) \<or> route_at (sv_routes sv') (er_host route) = Some (egress_entry route))
    | Inl e \<Rightarrow> cr' = cr \<and> (sv' = sv \<or> (\<exists>e'. e = VaultError (OwnedSave e')))"
proof -
  obtain q sv1 w1 where q: "sync_managed_routes env save root [(name, LocalVault [key])] [(name, route)] sv w = (q, sv1, w1)"
    by (metis prod_cases3)
  obtain p w2 where p: "save_cr (cr\<lparr>cr_local := bt_insert key val (cr_local cr)\<rparr>) w1 = (p, w2)" by fastforce
  note eq = assms(3) [unfolded install_inference_eq [of env save root name key route sv w q sv1 w1 save_cr val cr, OF q p]]
  show ?thesis
  proof (cases "install_check root name key val route sv :: 'e inference_error + bool")
    case (Inl e)
    with eq show ?thesis by auto
  next
    case checked: (Inr owned)
    note c = checked [unfolded install_check_Inr]
    show ?thesis using q
    proof (cases rule: sync_managed_routes_cases)
      case (refused e)
      with eq checked show ?thesis by (auto split: if_splits)
    next
      case (committed u)
      note co = commit_owned [OF assms(1) conjunct2 [OF conjunct2 [OF conjunct2 [OF conjunct2 [OF c]]]]]
      have host: "er_host route = name @ ''.localhost''" "to_ascii_lowercase (er_host route) = er_host route"
        "er_host route \<noteq> dashboard_host" "host_is_routable (er_host route) (re_tlds env)"
        using inference_host_routable c by blast+
      have "routes_ok (sv_routes sv)" using assms(1) by (simp add: sv_ok_def)
      note rt = route_at_reroute_one [OF this host(3,4)]
      have low: "(egress_entry route)\<lparr>e_host := to_ascii_lowercase (er_host route)\<rparr> = egress_entry route"
        by (simp add: host(2) egress_entry_def)
      have routes: "builtin_at (sv_routes sv1) (er_host route) \<or> route_at (sv_routes sv1) (er_host route) = Some (egress_entry route)"
        using rt [unfolded low] by (simp add: committed(2) managed_commit_def)
      have slots: "sv_slots sv1 = sv_slots sv" by (simp add: committed(2) managed_commit_def)
      have tok: "es_require_caller_token (er_spec route)" using c by (simp add: inference_binding_ok_def Let_def)
      from eq checked committed(1) consider (conflict) "r = Inl (VaultError OwnedConflict)" "cr' = cr" "sv' = sv"
        | (unsaved) e where "r = Inl (VaultError (OwnedSave (SaveFailed e)))" "cr' = cr"
        | (completed) "r = Inr ()" "cr' = cr\<lparr>cr_local := bt_insert key val (cr_local cr)\<rparr>" "sv' = sv1"
        by (auto split: if_splits sum.splits)
      then show ?thesis
      proof cases
        case completed
        have "bt_get (cr_local cr') = (bt_get (cr_local cr))(key \<mapsto> val)" using assms(2) by (auto simp: completed(2) fun_eq_iff)
        then show ?thesis using c tok host(1) slots routes co(1,2) by (simp add: completed(1,3) committed(2))
      qed simp_all
    qed
  qed
qed


text \<open>
  Nobody takes over another owner's route. When another config holds the name, the host or
  the key of the request, or the block of that name, or a service runs from the root, neither
  install nor remove does anything: both are refused, and nothing in the vault, the broker or the
  files changes.
\<close>

theorem inference_never_takes_over:
  fixes save :: "('e, 'w) saver"
  assumes "(n, e) \<in> set (sv_egress sv) \<and> peg_root e \<noteq> root \<and>
        (n = name \<or> er_host (peg_route e) = host \<or> es_key (er_spec (peg_route e)) = key) \<or>
      (n, b) \<in> set (sv_secrets sv) \<and> psc_root b \<noteq> Some root \<and> (n = name \<or> psc_config b = LocalVault keys \<and> key \<in> set keys) \<or>
      (n, sl) \<in> set (sv_slots sv) \<and> sl_root sl = root"
    and "er_host route = host"
  shows "(\<exists>er. install_inference_route env save save_cr root name key val route cr sv w = (Inl er, cr, sv, w)) \<and>
    (\<exists>er. remove_inference_route env save save_cr root name key host cr sv w = (Inl er, cr, sv, w))"
proof -
  have none: "inference_route_owned root name key host expected sv \<noteq> (Inr owned :: 'e inference_error + bool)" for expected owned
  proof
    assume "inference_route_owned root name key host expected sv = (Inr owned :: 'e inference_error + bool)"
    then have slots: "\<And>n sl. (n, sl) \<in> set (sv_slots sv) \<Longrightarrow> sl_root sl \<noteq> root"
      and blocks: "\<And>n b. (n, b) \<in> set (sv_secrets sv) \<Longrightarrow> block_touches root name key (n, b) \<Longrightarrow> block_owned root name key (n, b)"
      and routes: "\<And>n e. (n, e) \<in> set (sv_egress sv) \<Longrightarrow> route_touches root name key host (n, e) \<Longrightarrow>
        route_owned root name key host expected (n, e)"
      unfolding inference_route_owned_Inr by blast+
    from assms(1) consider "route_touches root name key host (n, e)" "(n, e) \<in> set (sv_egress sv)" "peg_root e \<noteq> root"
      | "block_touches root name key (n, b)" "(n, b) \<in> set (sv_secrets sv)" "psc_root b \<noteq> Some root"
      | "(n, sl) \<in> set (sv_slots sv)" "sl_root sl = root"
      by (auto simp: route_touches_def block_touches_def)
    then show False
      by cases (use slots blocks routes in \<open>force simp: route_owned_def block_owned_def\<close>)+
  qed
  have inst: "install_check root name key val route sv \<noteq> (Inr owned :: 'e inference_error + bool)"
    and rem: "remove_check root name key host sv \<noteq> (Inr owned :: 'e inference_error + bool)" for owned
    by (simp_all add: install_check_Inr remove_check_Inr assms(2) none)
  have "\<exists>er :: 'e inference_error. install_check root name key val route sv = Inl er"
    by (cases "install_check root name key val route sv :: 'e inference_error + bool") (simp_all add: inst)
  moreover have "\<exists>er :: 'e inference_error. remove_check root name key host sv = Inl er"
    by (cases "remove_check root name key host sv :: 'e inference_error + bool") (simp_all add: rem)
  ultimately show ?thesis
    unfolding install_inference_route_def remove_inference_route_def install_check_def [symmetric] remove_check_def [symmetric]
    by (metis sum.simps(5))
qed

text \<open>Once the record is committed the request owns it.\<close>

lemma owned_after_commit:
  assumes "sv_ok sv" and "inference_binding_ok name key route" and "expected = None \<or> expected = Some route"
    and "inference_route_owned root name key (er_host route) (Some route) sv = Inr owned"
    and sv1_def: "sv1 = managed_commit env root [(name, LocalVault [key])] [(name, route)] sv"
  shows "inference_route_owned root name key (er_host route) expected sv1 = Inr True"
proof -
  note co = commit_owned(1,2) [OF assms(1,4), of env route, folded sv1_def]
  have ok: "sv_ok sv1" unfolding sv1_def using assms(1) by (rule sv_ok_managed_commit)
  have blocks: "block_owned root name key (n, b)" if m: "(n, b) \<in> set (sv_secrets sv1)" and t: "block_touches root name key (n, b)" for n b
  proof (cases "n = name")
    case True
    have "bt_get (sv_secrets sv1) n = Some b" using m ok by (simp add: sv_ok_def bt_get_iff)
    with True show ?thesis by (auto simp: co(1) block_owned_def own_block_def)
  next
    case False
    with m ok assms(1) have "(n, b) \<in> set (sv_secrets sv)" by (metis (no_types) bt_get_iff co(1) fun_upd_apply sv_ok_def)
    with t assms(4) show ?thesis by (auto simp: inference_route_owned_Inr)
  qed
  have routes: "route_owned root name key (er_host route) expected (n, e)"
    if m: "(n, e) \<in> set (sv_egress sv1)" and t: "route_touches root name key (er_host route) (n, e)" for n e
  proof (cases "n = name")
    case True
    have "bt_get (sv_egress sv1) n = Some e" using m ok by (simp add: sv_ok_def bt_get_iff)
    with True assms(2,3) show ?thesis
      by (auto simp: co(2) route_owned_def own_route_def inference_binding_ok_def Let_def split: option.split)
  next
    case False
    with m ok assms(1) have "(n, e) \<in> set (sv_egress sv)" by (metis (no_types) bt_get_iff co(2) fun_upd_apply sv_ok_def)
    with t assms(4) have "route_owned root name key (er_host route) (Some route) (n, e)" by (auto simp: inference_route_owned_Inr)
    with False show ?thesis by (simp add: route_owned_def)
  qed
  have slots: "sv_slots sv1 = sv_slots sv" by (simp add: sv1_def managed_commit_def)
  have "bt_contains (sv_egress sv1) name" "bt_contains (sv_secrets sv1) name" by (simp_all add: bt_contains_def co(1,2))
  moreover have "\<forall>nb\<in>set (sv_secrets sv1). block_touches root name key nb \<longrightarrow> block_owned root name key nb"
    "\<forall>nr\<in>set (sv_egress sv1). route_touches root name key (er_host route) nr \<longrightarrow>
      route_owned root name key (er_host route) expected nr"
    using blocks routes by auto
  ultimately show ?thesis using assms(4) by (simp only: inference_route_owned_Inr slots) simp
qed

lemma managed_check_owned:
  assumes "sv_ok sv" and "inference_binding_ok name key route"
    and "inference_route_owned root name key (er_host route) expected sv = Inr owned"
  shows "managed_check root [(name, LocalVault [key])] [(name, route)] sv = (Inr () :: 'e sup_error + unit)"
    and "managed_check root [] [] sv = (Inr () :: 'e sup_error + unit)"
proof -
  have "check_block_owner root (sv_secrets sv) name = (Inr () :: 'e sup_error + unit)"
    using owned_block [OF assms(1,3), of name]
    by (cases "bt_get (sv_secrets sv) name") (simp_all add: check_block_owner_def own_block_def)
  moreover have "check_egress_owner root (sv_egress sv) name = (Inr () :: 'e sup_error + unit)"
    using owned_route [OF assms(1,3), of name] by (cases "bt_get (sv_egress sv) name") (simp_all add: check_egress_owner_def)
  moreover have "check_managed_ref root (replace_blocks root [(name, LocalVault [key])] (sv_secrets sv)) (sv_egress sv) (name, route) =
      (Inr () :: 'e sup_error + unit)"
  proof -
    have "bt_get (replace_blocks root [(name, LocalVault [key])] (sv_secrets sv)) name = Some (own_block root (LocalVault [key]))"
      using commit_owned(1) [OF assms(1,3)] by (simp add: managed_commit_def)
    moreover have "\<not> list_ex (\<lambda>(_, held). peg_root held \<noteq> root \<and> er_host (peg_route held) = er_host route) (sv_egress sv)"
      unfolding list_ex_iff
    proof safe
      fix n held assume m: "(n, held) \<in> set (sv_egress sv)" and o: "peg_root held \<noteq> root" "er_host (peg_route held) = er_host route"
      then have "route_touches root name key (er_host route) (n, held)" by (simp add: route_touches_def)
      with m assms(3) have "route_owned root name key (er_host route) expected (n, held)"
        unfolding inference_route_owned_Inr by blast
      with o(1) show False by (simp add: route_owned_def)
    qed
    ultimately show ?thesis
      using assms(2) by (simp add: check_managed_ref_def Let_def inference_binding_ok_def own_block_def and_then_Inr map_err_Inr)
  qed
  ultimately show "managed_check root [(name, LocalVault [key])] [(name, route)] sv = (Inr () :: 'e sup_error + unit)"
    and "managed_check root [] [] sv = (Inr () :: 'e sup_error + unit)"
    by (simp_all add: managed_check_def)
qed


lemma map_err_Inl: "map_err g m = Inl e \<longleftrightarrow> (\<exists>d. m = Inl d \<and> e = g d)"
  by (cases m) auto

lemma ensure_Inl: "ensure b e = Inl e' \<longleftrightarrow> \<not> b \<and> e' = e"
  by (cases b) auto

lemma install_check_not_vault: "install_check root name key val route sv \<noteq> Inl (VaultError e)"
  by (auto simp: install_check_def ensure_inference_fields_def inference_route_owned_def and_then_Inl map_err_Inl ensure_Inl
      Let_def dest!: for_each_InlD)

lemma install_inference_committed:
  fixes save :: "('e, 'w) saver"
  assumes "install_inference_route env save save_cr root name key val route cr sv w = (r, cr1, sv1, w1)"
    and "r = Inr () \<or> (\<exists>e. r = Inl (VaultError (OwnedSave e)))"
  obtains owned where "install_check root name key val route sv = (Inr owned :: 'e inference_error + bool)"
    and "sv1 = managed_commit env root [(name, LocalVault [key])] [(name, route)] sv"
    and "bt_get (cr_local cr) key = None \<or> bt_get (cr_local cr) key = Some val"
    and "cr1 = (case r of Inr _ \<Rightarrow> cr\<lparr>cr_local := bt_insert key val (cr_local cr)\<rparr> | Inl _ \<Rightarrow> cr)"
proof -
  obtain q svi wi where q: "sync_managed_routes env save root [(name, LocalVault [key])] [(name, route)] sv w = (q, svi, wi)"
    by (metis prod_cases3)
  obtain p wj where p: "save_cr (cr\<lparr>cr_local := bt_insert key val (cr_local cr)\<rparr>) wi = (p, wj)" by fastforce
  note eq = assms(1) [unfolded install_inference_eq [of env save root name key route sv w q svi wi save_cr val cr, OF q p]]
  obtain owned where checked: "install_check root name key val route sv = (Inr owned :: 'e inference_error + bool)"
    using eq assms(2) install_check_not_vault [of root name key val route sv]
    by (cases "install_check root name key val route sv :: 'e inference_error + bool") auto
  show thesis
    using q
  proof (cases rule: sync_managed_routes_cases)
    case (refused e)
    with eq checked assms(2) show thesis by (auto split: if_splits)
  next
    case (committed u)
    with eq checked assms(2) show thesis
      by (intro that [of owned]) (auto split: if_splits sum.splits)
  qed
qed

lemma remove_owned_succeeds:
  fixes save :: "('e, 'w) saver"
  assumes "remove_check root name key host sv = (Inr True :: 'e inference_error + bool)"
    and "(managed_check root [] [] sv :: 'e sup_error + unit) = Inr ()"
    and "\<And>p w. \<exists>w'. save p w = (Inr (), w')" and "\<And>c w. \<exists>w'. save_cr c w = (Inr (), w')"
  shows "\<exists>w'. remove_inference_route env save save_cr root name key host cr sv w =
    (Inr (), cr\<lparr>cr_local := bt_remove key (cr_local cr)\<rparr>, managed_commit env root [] [] sv, w')"
proof -
  obtain v where k: "save_cr (cr\<lparr>cr_local := bt_remove key (cr_local cr)\<rparr>) w = (Inr (), v)" using assms(4) by blast
  obtain v' where l: "save (persisted_snapshot (managed_commit env root [] [] sv)) v = (Inr (), v')" using assms(3) by blast
  have "sync_managed_routes env save root [] [] sv v = (Inr (), managed_commit env root [] [] sv, v')"
    using sync_managed_routes_eq [of save env root "[]" "[]" sv v "Inr ()" v', OF l] assms(2) by simp
  from remove_inference_eq [of save_cr key cr w "Inr ()" v env save root sv "Inr ()" _ v' name host, OF k this] assms(1)
  show ?thesis by simp
qed

lemma install_owned_succeeds:
  fixes save :: "('e, 'w) saver"
  assumes "install_check root name key val route sv = (Inr owned :: 'e inference_error + bool)"
    and "bt_get (cr_local cr) key = None \<or> owned \<and> bt_get (cr_local cr) key = Some val"
    and "(managed_check root [(name, LocalVault [key])] [(name, route)] sv :: 'e sup_error + unit) = Inr ()"
    and "\<And>p w. \<exists>w'. save p w = (Inr (), w')" and "\<And>c w. \<exists>w'. save_cr c w = (Inr (), w')"
  shows "\<exists>w'. install_inference_route env save save_cr root name key val route cr sv w =
    (Inr (), cr\<lparr>cr_local := bt_insert key val (cr_local cr)\<rparr>,
     managed_commit env root [(name, LocalVault [key])] [(name, route)] sv, w')"
proof -
  let ?c = "managed_commit env root [(name, LocalVault [key])] [(name, route)] sv"
  obtain v where l: "save (persisted_snapshot ?c) w = (Inr (), v)" using assms(4) by blast
  obtain v' where k: "save_cr (cr\<lparr>cr_local := bt_insert key val (cr_local cr)\<rparr>) v = (Inr (), v')" using assms(5) by blast
  have "sync_managed_routes env save root [(name, LocalVault [key])] [(name, route)] sv w = (Inr (), ?c, v)"
    using sync_managed_routes_eq [of save env root _ _ sv w "Inr ()" v, OF l] assms(3) by simp
  from install_inference_eq [of env save root name key route sv w "Inr ()" ?c v save_cr val cr "Inr ()" v', OF this k] assms(1,2)
  show ?thesis by auto
qed

text \<open>
  C29: Install and remove undo each other. Removing a route right after a fresh install, with
  files that can be written, succeeds and leaves the vault, the blocks, the routes and the
  services exactly as they were before the install, and the host no longer answers with an
  egress route.
\<close>

theorem inference_install_remove:
  fixes save :: "('e, 'w) saver"
  assumes "sv_ok sv" and "bt_ok (cr_local cr)"
    and fresh: "bt_get (sv_secrets sv) name = None" "bt_get (sv_egress sv) name = None" "bt_get (cr_local cr) key = None"
    and installed: "install_inference_route env save save_cr root name key val route cr sv w = (Inr (), cr1, sv1, w1)"
    and saves: "\<And>p w. \<exists>w'. save p w = (Inr (), w')" "\<And>c w. \<exists>w'. save_cr c w = (Inr (), w')"
  shows "\<exists>sv2 w2. remove_inference_route env save save_cr root name key (er_host route) cr1 sv1 w1 = (Inr (), cr, sv2, w2) \<and>
    sv_secrets sv2 = sv_secrets sv \<and> sv_egress sv2 = sv_egress sv \<and> sv_slots sv2 = sv_slots sv \<and>
    egress_free (er_host route) (sv_routes sv2)"
proof -
  from installed obtain owned where checked: "install_check root name key val route sv = (Inr owned :: 'e inference_error + bool)"
    and sv1: "sv1 = managed_commit env root [(name, LocalVault [key])] [(name, route)] sv"
    and cr1: "cr1 = cr\<lparr>cr_local := bt_insert key val (cr_local cr)\<rparr>"
    by (rule install_inference_committed) auto
  note c = checked [unfolded install_check_Inr]
  then have io: "(inference_route_owned root name key (er_host route) (Some route) sv :: 'e inference_error + bool) = Inr owned"
    and bind: "inference_binding_ok name key route" by simp_all
  have own1: "(inference_route_owned root name key (er_host route) None sv1 :: 'e inference_error + bool) = Inr True"
    by (intro owned_after_commit [OF assms(1) bind _ io sv1]) simp
  have ok1: "sv_ok sv1" unfolding sv1 using assms(1) by (rule sv_ok_managed_commit)
  have "sv_managed sv1 = sv_managed sv" by (simp add: sv1 managed_commit_def)
  then have rchk: "remove_check root name key (er_host route) sv1 = (Inr True :: 'e inference_error + bool)"
    using c own1 by (simp add: remove_check_Inr)
  define sv2 where "sv2 = managed_commit env root [] [] sv1"
  obtain w2 where removed: "remove_inference_route env save save_cr root name key (er_host route) cr1 sv1 w1 =
      (Inr (), cr1\<lparr>cr_local := bt_remove key (cr_local cr1)\<rparr>, sv2, w2)"
    using remove_owned_succeeds [where save = save and save_cr = save_cr and env = env and cr = cr1 and w = w1,
        OF rchk managed_check_owned(2) [OF ok1 bind own1] saves]
    unfolding sv2_def by blast
  have "bt_remove key (bt_insert key val (cr_local cr)) = cr_local cr"
    using assms(2) fresh(3) by (intro bt_ext) auto
  then have cr2: "cr1\<lparr>cr_local := bt_remove key (cr_local cr1)\<rparr> = cr" by (simp add: cr1)
  have ok2: "sv_ok sv2" unfolding sv2_def using ok1 by (rule sv_ok_managed_commit)
  note co1 = commit_owned(1,2) [OF assms(1) io, of env route, folded sv1]
  note co2 = commit_owned(3,4) [OF ok1 own1, of env, folded sv2_def]
  have "sv_secrets sv2 = sv_secrets sv" "sv_egress sv2 = sv_egress sv"
    using ok2 assms(1) fresh(1,2) by (auto intro!: bt_ext simp: sv_ok_def co1 co2)
  moreover have "sv_slots sv2 = sv_slots sv" by (simp add: sv2_def sv1 managed_commit_def)
  moreover have "egress_free (er_host route) (sv_routes sv2)"
  proof -
    have "bt_get (sv_egress sv1) name = Some (own_route root route)" by (simp add: co1)
    then have "(name, own_route root route) \<in> set (sv_egress sv1)" using ok1 by (simp add: sv_ok_def bt_get_iff)
    then have "route \<in> set (map (\<lambda>(_, r). peg_route r) (filter (\<lambda>(_, r). peg_root r = root) (sv_egress sv1)) @ [])"
      by (force simp: own_route_def)
    from egress_free_reroute [OF _ this same_host_refl, of "sv_routes sv1" "[]" env] ok1 show ?thesis
      by (simp add: sv2_def managed_commit_def sv_ok_def)
  qed
  ultimately show ?thesis using removed cr2 by auto
qed

text \<open>
  An interrupted install can always be finished. When an install stopped because the vault
  could not be saved, the same request, once files can be written again, succeeds and puts the
  key beside the record that the first attempt left.
\<close>

theorem inference_retry_completes:
  fixes save save' :: "('e, 'w) saver"
  assumes "sv_ok sv" and "bt_ok (cr_local cr)"
    and stopped: "install_inference_route env save save_cr root name key val route cr sv w =
      (Inl (VaultError (OwnedSave e)), cr1, sv1, w1)"
    and saves: "\<And>p w. \<exists>w'. save' p w = (Inr (), w')" "\<And>c w. \<exists>w'. save_cr' c w = (Inr (), w')"
  shows "\<exists>cr2 sv2 w2. install_inference_route env save' save_cr' root name key val route cr1 sv1 w1 = (Inr (), cr2, sv2, w2) \<and>
    bt_get (cr_local cr2) = (bt_get (cr_local cr))(key \<mapsto> val) \<and>
    sv_secrets sv2 = sv_secrets sv1 \<and> sv_egress sv2 = sv_egress sv1"
proof -
  from stopped obtain owned where checked: "install_check root name key val route sv = (Inr owned :: 'e inference_error + bool)"
    and sv1: "sv1 = managed_commit env root [(name, LocalVault [key])] [(name, route)] sv"
    and key: "bt_get (cr_local cr) key = None \<or> bt_get (cr_local cr) key = Some val" and cr1: "cr1 = cr"
    by (rule install_inference_committed) auto
  note c = checked [unfolded install_check_Inr]
  then have io: "(inference_route_owned root name key (er_host route) (Some route) sv :: 'e inference_error + bool) = Inr owned"
    and bind: "inference_binding_ok name key route" by simp_all
  have own1: "(inference_route_owned root name key (er_host route) (Some route) sv1 :: 'e inference_error + bool) = Inr True"
    by (intro owned_after_commit [OF assms(1) bind _ io sv1]) simp
  have ok1: "sv_ok sv1" unfolding sv1 using assms(1) by (rule sv_ok_managed_commit)
  have "sv_managed sv1 = sv_managed sv" by (simp add: sv1 managed_commit_def)
  then have chk: "install_check root name key val route sv1 = (Inr True :: 'e inference_error + bool)"
    using c own1 by (simp add: install_check_Inr)
  define sv2 where "sv2 = managed_commit env root [(name, LocalVault [key])] [(name, route)] sv1"
  obtain w2 where "install_inference_route env save' save_cr' root name key val route cr1 sv1 w1 =
      (Inr (), cr\<lparr>cr_local := bt_insert key val (cr_local cr)\<rparr>, sv2, w2)"
    using install_owned_succeeds [where save = save' and save_cr = save_cr' and cr = cr and env = env and w = w1, OF chk _ managed_check_owned(1) [OF ok1 bind own1] saves] key
    unfolding sv2_def cr1 by blast
  moreover have "bt_get (bt_insert key val (cr_local cr)) = (bt_get (cr_local cr))(key \<mapsto> val)"
    using assms(2) by (auto simp: fun_eq_iff)
  moreover have "sv_secrets sv2 = sv_secrets sv1" "sv_egress sv2 = sv_egress sv1"
  proof -
    have ok2: "sv_ok sv2" unfolding sv2_def using ok1 by (rule sv_ok_managed_commit)
    note co1 = commit_owned(1,2) [OF assms(1) io, of env route, folded sv1]
    note co2 = commit_owned(1,2) [OF ok1 own1, of env route, folded sv2_def]
    show "sv_secrets sv2 = sv_secrets sv1" "sv_egress sv2 = sv_egress sv1"
      using ok1 ok2 by (auto intro!: bt_ext simp: sv_ok_def co1 co2)
  qed
  ultimately show ?thesis by auto
qed


text \<open>
  A credential handed to the proxy is never empty and is masked from then on. It belongs to
  the synced block the route names; one from the local vault is the vault's current value; and no
  line that passes the masker afterwards contains it, if it is worth masking and no marker
  spells it.
\<close>

theorem egress_value_masked:
  assumes "masker_ok digest8 m"
    and "cache_ok (map (\<lambda>(n, p). (n, psc_config p)) (sv_secrets sv)) src"
    and "resolve_egress_value env digest8 spec sv src m = (Some val, src', m')"
  shows "val \<noteq> [] \<and>
    (\<exists>p. bt_get (sv_secrets sv) (es_secrets spec) = Some p \<and>
      (case psc_config p of
         LocalVault keys \<Rightarrow> es_key spec \<in> set keys \<and> bt_get (cr_local (src_creds src)) (es_key spec) = Some val
       | _ \<Rightarrow> True)) \<and>
    (is_maskable val \<longrightarrow> unspellable (registered m') digest8 val \<longrightarrow> \<not> contains_str val (mask m' line))"
proof -
  from assms(3) obtain p vals k where p: "bt_get (sv_secrets sv) (es_secrets spec) = Some p"
    and rb: "resolve_block env (es_secrets spec) (psc_config p) src = (Inr vals, src')"
    and find: "List.find (\<lambda>(k, _). k = es_key spec) vals = Some (k, val)"
    and val: "val \<noteq> []" and m': "m' = masker_register digest8 (''__egress__/'' @ es_secrets spec @ ''/'' @ es_key spec) [val] m"
    by (auto simp: resolve_egress_value_def split: option.splits prod.splits sum.splits if_splits)
  have "case psc_config p of
      LocalVault keys \<Rightarrow> es_key spec \<in> set keys \<and> bt_get (cr_local (src_creds src)) (es_key spec) = Some val
    | _ \<Rightarrow> True"
  proof (cases "psc_config p")
    case (LocalVault keys)
    have "bt_get (map (\<lambda>(n, p). (n, psc_config p)) (sv_secrets sv)) (es_secrets spec) = Some (LocalVault keys)"
      using p LocalVault by (simp add: bt_get_def map_of_map)
    from rb [unfolded LocalVault resolve_local_block [OF assms(2) this]]
    have "map_err se_fatal (local_values (src_creds src) keys) = Inr vals" by blast
    then have lv: "local_values (src_creds src) keys = Inr vals" by (simp only: map_err_Inr)
    have "(es_key spec, val) \<in> set vals" using find by (auto simp: find_Some_iff in_set_conv_nth)
    with local_values_Inr [OF lv] LocalVault show ?thesis by force
  qed simp_all
  moreover have "\<not> contains_str val (mask m' line)" if "is_maskable val" "unspellable (registered m') digest8 val"
  proof -
    have "val \<in> sec_value ` set (registered m')" unfolding m' by (rule registers_value) (use that in simp_all)
    then show ?thesis
      using mask_all_removes [of "registered m'" digest8 val line] masker_ok_register [OF assms(1)] that(2) val
      by (simp add: mask_def masker_ok_def registered_def [symmetric] m')
  qed
  ultimately show ?thesis using p val by blast
qed


section \<open>Examples\<close>

definition llm_spec :: egress_spec where
  "llm_spec = \<lparr>es_require_caller_token = True, es_secrets = ''llm'', es_key = ''LLM_KEY'', es_header = ''Authorization'',
     es_format = ''Bearer {value}'', es_upstream_host = ''api.example.com'', es_tls = True\<rparr>"

definition llm_route :: egress_route where
  "llm_route = \<lparr>er_host = ''llm.localhost'', er_target = ''api.example.com:443'', er_spec = llm_spec\<rparr>"

definition broker_example :: supervisor where
  "broker_example = \<lparr>sv_managed = True, sv_slots = [], sv_secrets = [], sv_egress = [], sv_shutdown = False,
     sv_routes = \<lparr>rw_registry = [], rw_certs = []\<rparr>, sv_cache = []\<rparr>"

text \<open>Two files that can be written, and a vault that cannot.\<close>

definition log_saver :: "'s \<Rightarrow> nat \<Rightarrow> (unit + unit) \<times> nat" where
  "log_saver s n = (Inr (), Suc n)"

definition stuck_saver :: "'s \<Rightarrow> nat \<Rightarrow> (unit + unit) \<times> nat" where
  "stuck_saver s n = (Inl (), n)"

abbreviation llm_install where
  "llm_install save_cr cr sv \<equiv> install_inference_route binder_example log_saver save_cr ''/w/a'' ''llm'' ''LLM_KEY'' ''sk-1'' llm_route cr sv 0"

lemma broker_example_ok: "sv_ok broker_example"
  by (simp add: sv_ok_def broker_example_def routes_ok_def)

lemma credentials_default_ok [simp]: "bt_ok (cr_local credentials_default)"
  by (simp add: credentials_default_def)

lemma result4_eq: "fst x = r \<Longrightarrow> x = (r, fst (snd x), fst (snd (snd x)), snd (snd (snd x)))"
  by (cases x) auto

lemma llm_installs: "fst (llm_install log_saver credentials_default broker_example) = Inr ()"
  by code_simp

lemma llm_stops: "fst (llm_install stuck_saver credentials_default broker_example) = Inl (VaultError (OwnedSave (SaveFailed ())))"
  by code_simp

theorem install_inference_exact_witness:
  "\<exists>cr sv w. llm_install log_saver credentials_default broker_example = (Inr (), cr, sv, w) \<and>
     bt_get (cr_local cr) ''LLM_KEY'' = Some ''sk-1'' \<and> bt_get (sv_egress sv) ''llm'' = Some (own_route ''/w/a'' llm_route)"
proof -
  obtain cr sv w where eq: "llm_install log_saver credentials_default broker_example = (Inr (), cr, sv, w)"
    using result4_eq [OF llm_installs] by blast
  from install_inference_exact [OF broker_example_ok credentials_default_ok eq]
  have "bt_get (cr_local cr) ''LLM_KEY'' = Some ''sk-1''" "bt_get (sv_egress sv) ''llm'' = Some (own_route ''/w/a'' llm_route)"
    by simp_all
  with eq show ?thesis by blast
qed

theorem inference_never_takes_over_witness:
  "\<exists>er. llm_install log_saver credentials_default
     (broker_example\<lparr>sv_egress := [(''llm'', own_route ''/w/b'' llm_route)]\<rparr>) =
     (Inl er, credentials_default, broker_example\<lparr>sv_egress := [(''llm'', own_route ''/w/b'' llm_route)]\<rparr>, 0)"
proof -
  let ?sv = "broker_example\<lparr>sv_egress := [(''llm'', own_route ''/w/b'' llm_route)]\<rparr>"
  have "(''llm'', own_route ''/w/b'' llm_route) \<in> set (sv_egress ?sv)" "peg_root (own_route ''/w/b'' llm_route) \<noteq> ''/w/a''"
    by (simp_all add: own_route_def)
  then show ?thesis
    using inference_never_takes_over [of "''llm''" "own_route ''/w/b'' llm_route" ?sv "''/w/a''" "''llm''" "er_host llm_route" "''LLM_KEY''" _ _ _
        llm_route binder_example log_saver log_saver "''sk-1''" credentials_default 0] by blast
qed

lemma log_saver_saves: "\<exists>w'. log_saver p w = (Inr (), w')"
  by (simp add: log_saver_def)

theorem inference_install_remove_witness:
  "\<exists>cr1 sv1 w1 sv2 w2. llm_install log_saver credentials_default broker_example = (Inr (), cr1, sv1, w1) \<and>
     remove_inference_route binder_example log_saver log_saver ''/w/a'' ''llm'' ''LLM_KEY'' (er_host llm_route) cr1 sv1 w1 =
       (Inr (), credentials_default, sv2, w2) \<and> sv_egress sv2 = []"
proof -
  obtain cr1 sv1 w1 where eq: "llm_install log_saver credentials_default broker_example = (Inr (), cr1, sv1, w1)"
    using result4_eq [OF llm_installs] by blast
  have "bt_get (sv_secrets broker_example) ''llm'' = None" "bt_get (sv_egress broker_example) ''llm'' = None"
    "bt_get (cr_local credentials_default) ''LLM_KEY'' = None" by (simp_all add: broker_example_def credentials_default_def)
  from inference_install_remove [OF broker_example_ok credentials_default_ok this eq log_saver_saves log_saver_saves]
  obtain sv2 w2 where "remove_inference_route binder_example log_saver log_saver ''/w/a'' ''llm'' ''LLM_KEY'' (er_host llm_route)
      cr1 sv1 w1 = (Inr (), credentials_default, sv2, w2)" "sv_egress sv2 = sv_egress broker_example" by blast
  moreover have "sv_egress broker_example = []" by (simp add: broker_example_def)
  ultimately show ?thesis using eq by metis
qed

theorem inference_retry_completes_witness:
  "\<exists>cr1 sv1 w1 cr2 sv2 w2. llm_install stuck_saver credentials_default broker_example =
       (Inl (VaultError (OwnedSave (SaveFailed ()))), cr1, sv1, w1) \<and>
     install_inference_route binder_example log_saver log_saver ''/w/a'' ''llm'' ''LLM_KEY'' ''sk-1'' llm_route cr1 sv1 w1 =
       (Inr (), cr2, sv2, w2) \<and> bt_get (cr_local cr2) ''LLM_KEY'' = Some ''sk-1''"
proof -
  obtain cr1 sv1 w1 where eq: "llm_install stuck_saver credentials_default broker_example =
      (Inl (VaultError (OwnedSave (SaveFailed ()))), cr1, sv1, w1)"
    using result4_eq [OF llm_stops] by blast
  from inference_retry_completes [where save' = log_saver and save_cr' = log_saver, OF broker_example_ok credentials_default_ok eq log_saver_saves log_saver_saves]
  obtain cr2 sv2 w2 where "install_inference_route binder_example log_saver log_saver ''/w/a'' ''llm'' ''LLM_KEY'' ''sk-1'' llm_route
      cr1 sv1 w1 = (Inr (), cr2, sv2, w2)" "bt_get (cr_local cr2) = (bt_get (cr_local credentials_default))(''LLM_KEY'' \<mapsto> ''sk-1'')"
    by blast
  moreover then have "bt_get (cr_local cr2) ''LLM_KEY'' = Some ''sk-1''" by simp
  ultimately show ?thesis using eq by blast
qed

theorem egress_value_masked_witness:
  "\<exists>src m. resolve_egress_value op_example_env (\<lambda>_. ''01234567'') llm_spec
       (broker_example\<lparr>sv_secrets := [(''llm'', own_block ''/w/a'' (LocalVault [''LLM_KEY'']))]\<rparr>)
       (vault_example\<lparr>src_creds := credentials_default\<lparr>cr_local := [(''LLM_KEY'', ''s3cr3t-pw'')]\<rparr>\<rparr>) [] = (Some ''s3cr3t-pw'', src, m) \<and>
     \<not> contains_str ''s3cr3t-pw'' (mask m ''echo s3cr3t-pw'')"
proof -
  let ?sv = "broker_example\<lparr>sv_secrets := [(''llm'', own_block ''/w/a'' (LocalVault [''LLM_KEY'']))]\<rparr>"
  let ?src = "vault_example\<lparr>src_creds := credentials_default\<lparr>cr_local := [(''LLM_KEY'', ''s3cr3t-pw'')]\<rparr>\<rparr>"
  let ?m = "masker_register (\<lambda>_. ''01234567'') ''__egress__/llm/LLM_KEY'' [''s3cr3t-pw''] []"
  have "resolve_egress_value op_example_env (\<lambda>_. ''01234567'') llm_spec ?sv ?src [] = (Some ''s3cr3t-pw'', ?src, ?m)"
    by code_simp
  moreover have "cache_ok (map (\<lambda>(n, p). (n, psc_config p)) (sv_secrets ?sv)) ?src" by (simp add: cache_ok_def vault_example_def)
  moreover have "is_maskable ''s3cr3t-pw''" "unspellable (registered ?m) (\<lambda>_. ''01234567'') ''s3cr3t-pw''" by code_simp+
  ultimately show ?thesis using egress_value_masked [of "\<lambda>_. ''01234567''" "[]" ?sv ?src op_example_env llm_spec] by fastforce
qed

end
