(* ===== verification/Handlers.thy ===== *)
theory Handlers
  imports Starter Inference Config_Resolve Grants
begin

text \<open>
  The request handlers, \<open>portman-daemon/src/handlers.rs\<close>, and \<open>dispatch\<close> over all of them. The
  resource gauges, the certificate directory and the bridge are outside the model: what their
  handlers read is part of \<open>call_env\<close>, as are the readings of the clock and the outcomes of the
  grant file's writes in one call.
\<close>

section \<open>Responses\<close>

datatype handler_error =
  EManagedBridge | EEnvelope | EGrantHost | EGrantNoRoute | EGrantNotEgress | EGrantNoToken | EGrantRevision | EGrant grant_error
| EHost host_error | ETarget target_error | EService service_error | EBuiltin string | EUnmanaged string | EWildcardTcp string
| ELocalhostTcp string | EPersistRule write_error | ERemoveRule write_error | ENoRule string
| ETld tld_error | ELocalhostTld | ELetsEncrypt | EPersistTls write_error
| EConfig config_error | EEmptyValue string | EPersistSecrets write_error | ENoSecret string
| ENeedIdSecret | ENeedToken | EProvider string | EDefinition string | ESupervisor "write_error sup_error"
| EInference "write_error inference_error" | EUnknownService string | ELogs | EStart start_error | EBridge

record status_info =
  si_managed_broker :: bool
  si_egress_grants_version :: u32
  si_inference_provisioning_version :: u32
  si_version :: string
  si_running_since :: string
  si_dns_port :: u16
  si_proxy_port :: u16
  si_tls_port :: u16
  si_socket_path :: string
  si_data_dir :: string
  si_cert_dir :: string
  si_bridge_assessment :: bridge_assessment
  si_bridge_enabled :: bool
  si_bridge_mode :: netbridge_mode
  si_dashboard_port :: u16

text \<open>\<open>'u\<close> and \<open>'h\<close> stand for the resource snapshot and series.\<close>

datatype ('u, 'h) response =
  RespEgressRoutes "egress_route_info list"
| RespEntries "entry list"
| RespTlds "tld_info list"
| RespOk
| RespStatus status_info
| RespCertHealth bool "string option" bool u32
| RespResourceUsage 'u
| RespResourceHistory 'h
| RespStarted string
| RespSyncReport sync_report
| RespServiceStatuses "service_status_info list"
| RespLogs "log_line_info list" int
| RespSecretsStatus "string option" bool "local_secret_info list" "secrets_block_info list"
| RespErr handler_error

record ('u, 'h) call_env =
  ce_sha256 :: "string \<Rightarrow> string"
  ce_route_ser :: "string \<times> egress_spec \<Rightarrow> string"
  ce_clock :: grant_clock
  ce_now1 :: u64
  ce_now2 :: u64
  ce_out1 :: save_outcome
  ce_out2 :: save_outcome
  ce_start :: start_env
  ce_path_exists :: "path \<Rightarrow> bool"
  ce_is_file :: "path \<Rightarrow> bool"
  ce_logs_ok :: bool
  ce_usage :: 'u
  ce_history :: 'h
  ce_status :: status_info  \<comment> \<open>what the process was started with\<close>
  ce_elapsed_secs :: nat
  ce_cert_health :: "bool \<times> string option \<times> bool \<times> u32"
  ce_bridge_sent :: "bool option"  \<comment> \<open>no bridge on this platform, or whether the control message was sent\<close>

definition format_duration :: "nat \<Rightarrow> string" where
  "format_duration secs =
     (let h = secs div 3600; m = (secs mod 3600) div 60; s = secs mod 60 in
      if h > 0 then show_nat h @ ''h'' @ show_nat m @ ''m'' @ show_nat s @ ''s''
      else if m > 0 then show_nat m @ ''m'' @ show_nat s @ ''s''
      else show_nat s @ ''s'')"

section \<open>Static rules\<close>

definition handle_add ::
  "daemon_env \<Rightarrow> string \<Rightarrow> string \<Rightarrow> mode \<Rightarrow> string option \<Rightarrow> string option \<Rightarrow> daemon \<Rightarrow> ('u, 'h) response \<times> daemon" where
  "handle_add de host target md service project d =
     (case validate_host host of Inl e \<Rightarrow> (RespErr (EHost e), d) | Inr host \<Rightarrow>
      case validate_target target of Inl e \<Rightarrow> (RespErr (ETarget e), d) | Inr target \<Rightarrow>
      case (case service of None \<Rightarrow> Inr None | Some s \<Rightarrow> and_then (validate_service s) (\<lambda>s. Inr (Some s))) of
        Inl e \<Rightarrow> (RespErr (EService e), d)
      | Inr service \<Rightarrow>
          if host = dashboard_host then (RespErr (EBuiltin host), d)
          else if \<not> routable d host then (RespErr (EUnmanaged host), d)
          else if is_wildcard_host host \<and> md = ModeTcp then (RespErr (EWildcardTcp host), d)
          else if host_is_localhost host \<and> md = ModeTcp then (RespErr (ELocalhostTcp host), d)
          else (case static_store_add (de_io de) (de_static_path de) (de_static_ser de) host target md service project
                  (dm_static d) (dm_fs d) of
            (Inl e, st, w) \<Rightarrow> (RespErr (EPersistRule e), d\<lparr>dm_static := st, dm_fs := w\<rparr>)
          | (Inr _, st, w) \<Rightarrow>
              let d = d\<lparr>dm_static := st, dm_fs := w\<rparr>;
                  d = with_routes (upsert_route
                    \<lparr>e_host = host, e_target = target, e_source = SourceStatic, e_mode = md,
                     e_container_id = None, e_project = project, e_egress = None\<rparr>) d;
                  d = (if md = ModeHttp \<and> host_tls_enabled d host then with_routes (ensure_cert host) d else d)
              in (RespOk, d)))"

definition handle_remove :: "daemon_env \<Rightarrow> string \<Rightarrow> daemon \<Rightarrow> ('u, 'h) response \<times> daemon" where
  "handle_remove de host d =
     (case validate_host host of Inl e \<Rightarrow> (RespErr (EHost e), d) | Inr host \<Rightarrow>
      case static_store_remove (de_io de) (de_static_path de) (de_static_ser de) host (dm_static d) (dm_fs d) of
        (Inl e, st, w) \<Rightarrow> (RespErr (ERemoveRule e), d\<lparr>dm_static := st, dm_fs := w\<rparr>)
      | (Inr None, st, w) \<Rightarrow> (RespErr (ENoRule host), d\<lparr>dm_static := st, dm_fs := w\<rparr>)
      | (Inr (Some _), st, w) \<Rightarrow>
          let d = d\<lparr>dm_static := st, dm_fs := w\<rparr> in
          (RespOk, case registry_get (rw_registry (routes_of d)) host of
             Some existing \<Rightarrow>
               if e_source existing = SourceStatic
               then with_routes (\<lambda>rw. rw\<lparr>rw_registry := snd (registry_remove host (rw_registry rw))\<rparr>) d else d
           | None \<Rightarrow> d))"

section \<open>TLDs\<close>

definition provision_certs_under :: "string \<Rightarrow> daemon \<Rightarrow> daemon" where
  "provision_certs_under tld d =
     foldl (\<lambda>d e. let host = to_ascii_lowercase (e_host e) in
         if host = tld \<or> ends_with (''.'' @ tld) host then with_routes (ensure_cert host) d else d)
       d (registry_list (rw_registry (routes_of d)))"

text \<open>The parts of \<open>handle_tld_add\<close> before and after the rehydration, which awaits Docker's answers.\<close>

definition tld_add_begin :: "daemon_env \<Rightarrow> string \<Rightarrow> tls_mode option \<Rightarrow> daemon \<Rightarrow> (handler_error + string) \<times> daemon" where
  "tld_add_begin de tld md d =
     (case validate_tld tld of Inl e \<Rightarrow> (Inl (ETld e), d) | Inr tld \<Rightarrow>
      if tld = ''localhost'' then (Inl ELocalhostTld, d)
      else if md = Some TlsLe then (Inl ELetsEncrypt, d)
      else
        (case (case md of
                 Some m \<Rightarrow> tls_set_mode (de_io de) (de_tls_path de) (de_tls_ser de) tld m (dm_tls d) (dm_fs d)
               | None \<Rightarrow> (Inr (), dm_tls d, dm_fs d)) of
           (Inl e, st, w) \<Rightarrow> (Inl (EPersistTls e), d\<lparr>dm_tls := st, dm_fs := w\<rparr>)
         | (Inr _, st, w) \<Rightarrow> (Inr tld, tld_add tld (d\<lparr>dm_tls := st, dm_fs := w\<rparr>))))"

definition tld_add_finish :: "string \<Rightarrow> daemon \<Rightarrow> daemon" where
  "tld_add_finish tld d = (if requires_tls (tls_mode_for (dm_tls d) tld) then provision_certs_under tld d else d)"

text \<open>The request when nothing comes in between.\<close>

definition handle_tld_add :: "daemon_env \<Rightarrow> string \<Rightarrow> tls_mode option \<Rightarrow> daemon \<Rightarrow> ('u, 'h) response \<times> daemon" where
  "handle_tld_add de tld md d =
     (case tld_add_begin de tld md d of
        (Inl e, d) \<Rightarrow> (RespErr e, d)
      | (Inr tld, d) \<Rightarrow> (RespOk, tld_add_finish tld (rehydrate_registry_for_managed_tlds (de_docker de) d)))"

definition orphans :: "daemon \<Rightarrow> string list" where
  "orphans d = map e_host (filter (\<lambda>e. \<not> routable d (e_host e)) (registry_list (rw_registry (routes_of d))))"

definition remove_routes :: "string list \<Rightarrow> daemon \<Rightarrow> daemon" where
  "remove_routes hosts d =
     foldl (\<lambda>d host. with_routes (\<lambda>rw. rw\<lparr>rw_registry := snd (registry_remove host (rw_registry rw))\<rparr>) d) d hosts"

definition handle_tld_remove :: "string \<Rightarrow> daemon \<Rightarrow> ('u, 'h) response \<times> daemon" where
  "handle_tld_remove tld d =
     (case validate_tld tld of Inl e \<Rightarrow> (RespErr (ETld e), d) | Inr tld \<Rightarrow>
      if tld = ''localhost'' then (RespErr ELocalhostTld, d)
      else let d = tld_remove tld d in (RespOk, remove_routes (orphans d) d))"

definition build_tld_infos :: "daemon \<Rightarrow> tld_info list" where
  "build_tld_infos d =
     map (\<lambda>tld. \<lparr>ti_name = tld, ti_tls_mode = tls_mode_for (dm_tls d) tld,
       ti_entry_count = of_nat (length (filter (\<lambda>e. host_has_managed_tld (e_host e) [tld])
         (registry_list (rw_registry (routes_of d)))))\<rparr>) (tld_list d)"

section \<open>Secrets\<close>

abbreviation save_creds :: "daemon_env \<Rightarrow> credentials \<Rightarrow> fs \<Rightarrow> (write_error + unit) \<times> fs" where
  "save_creds de \<equiv> save_credentials (de_io de) (de_creds_path de) (de_creds_ser de)"

definition handle_set_local_secret :: "daemon_env \<Rightarrow> string \<Rightarrow> redacted \<Rightarrow> daemon \<Rightarrow> ('u, 'h) response \<times> daemon" where
  "handle_set_local_secret de key val d =
     (let key = trim key in
      case validate_env_key key of Inl e \<Rightarrow> (RespErr (EConfig e), d) | Inr _ \<Rightarrow>
      let v = trim (redacted_value val) in
      if v = [] then (RespErr (EEmptyValue key), d)
      else (case set_local (save_creds de) key v (dm_creds d) (dm_fs d) of
        (Inl e, cr, w) \<Rightarrow> (RespErr (EPersistSecrets e), d\<lparr>dm_creds := cr, dm_fs := w\<rparr>)
      | (Inr _, cr, w) \<Rightarrow> (RespOk, d\<lparr>dm_creds := cr, dm_fs := w\<rparr>)))"

definition handle_unset_local_secret :: "daemon_env \<Rightarrow> string \<Rightarrow> daemon \<Rightarrow> ('u, 'h) response \<times> daemon" where
  "handle_unset_local_secret de key d =
     (case unset_local (save_creds de) (trim key) (dm_creds d) (dm_fs d) of
        (r, cr, w) \<Rightarrow>
          (case r of
             Inr True \<Rightarrow> RespOk
           | Inr False \<Rightarrow> if sv_managed (dm_sv d) then RespOk else RespErr (ENoSecret (trim key))
           | Inl e \<Rightarrow> RespErr (EPersistSecrets e), d\<lparr>dm_creds := cr, dm_fs := w\<rparr>))"

text \<open>The loop that takes each vault key's blocks out of the usage map.\<close>

fun take_usage :: "string list \<Rightarrow> (string, string list) btree \<Rightarrow> local_secret_info list \<times> (string, string list) btree" where
  "take_usage [] usage = ([], usage)"
| "take_usage (key # keys) usage =
     (case take_usage keys (bt_remove key usage) of (infos, rest) \<Rightarrow>
        (\<lparr>lsi_key = key, lsi_set = True, lsi_blocks = unwrap_or (bt_get usage key) []\<rparr> # infos, rest))"

definition handle_secrets_status :: "daemon \<Rightarrow> ('u, 'h) response" where
  "handle_secrets_status d =
     (case take_usage (local_keys (dm_creds d)) (local_key_usage (dm_sv d)) of
        (held, rest) \<Rightarrow>
          RespSecretsStatus (map_option fst (cr_infisical (dm_creds d))) (cr_onepassword (dm_creds d) \<noteq> None)
            (sort_key lsi_key (held @ map (\<lambda>(key, blocks). \<lparr>lsi_key = key, lsi_set = False, lsi_blocks = blocks\<rparr>) rest))
            (secrets_blocks (dm_sv d)))"

definition handle_set_secrets_credentials ::
  "daemon_env \<Rightarrow> string \<Rightarrow> string option \<Rightarrow> redacted option \<Rightarrow> redacted option \<Rightarrow> daemon \<Rightarrow> ('u, 'h) response \<times> daemon" where
  "handle_set_secrets_credentials de provider client_id client_secret token d =
     (let result =
        (if provider = ''infisical'' then
           (case (client_id, client_secret) of
              (Some i, Some s) \<Rightarrow>
                if trim i \<noteq> [] \<and> trim (redacted_value s) \<noteq> []
                then Inr (set_infisical (save_creds de) (trim i) (trim (redacted_value s)) (dm_creds d) (dm_fs d))
                else Inl ENeedIdSecret
            | _ \<Rightarrow> Inl ENeedIdSecret)
         else if provider = ''1password'' then
           (case token of
              Some t \<Rightarrow>
                if trim (redacted_value t) \<noteq> []
                then Inr (set_onepassword (save_creds de) (trim (redacted_value t)) (dm_creds d) (dm_fs d))
                else Inl ENeedToken
            | None \<Rightarrow> Inl ENeedToken)
         else Inl (EProvider provider))
      in case result of
        Inl e \<Rightarrow> (RespErr e, d)
      | Inr (r, cr, w) \<Rightarrow>
          (case r of Inr _ \<Rightarrow> RespOk | Inl e \<Rightarrow> RespErr (EPersistSecrets e), d\<lparr>dm_creds := cr, dm_fs := w\<rparr>))"

definition handle_set_secrets_block :: "daemon_env \<Rightarrow> string \<Rightarrow> secrets_provider_config \<Rightarrow> daemon \<Rightarrow> ('u, 'h) response \<times> daemon" where
  "handle_set_secrets_block de name config d =
     (let name = trim name in
      case validate_secrets_block name config of Inl e \<Rightarrow> (RespErr (EConfig e), d) | Inr _ \<Rightarrow>
      case set_global_block (de_save de) name config (dm_sv d) (dm_fs d) of
        (r, sv, w) \<Rightarrow> (case r of Inr _ \<Rightarrow> RespOk | Inl e \<Rightarrow> RespErr (ESupervisor e), d\<lparr>dm_sv := sv, dm_fs := w\<rparr>))"

definition handle_remove_secrets_block :: "daemon_env \<Rightarrow> string \<Rightarrow> daemon \<Rightarrow> ('u, 'h) response \<times> daemon" where
  "handle_remove_secrets_block de name d =
     (case remove_global_block (de_save de) (trim name) (dm_sv d) (dm_fs d) of
        (r, sv, w) \<Rightarrow> (case r of Inr _ \<Rightarrow> RespOk | Inl e \<Rightarrow> RespErr (ESupervisor e), d\<lparr>dm_sv := sv, dm_fs := w\<rparr>))"

section \<open>Services\<close>

text \<open>The facts of a root are looked up once; the lookups depend on the root only.\<close>

definition handle_service_status :: "('u, 'h) call_env \<Rightarrow> daemon \<Rightarrow> ('u, 'h) response" where
  "handle_service_status ce d =
     RespServiceStatuses (map (\<lambda>s.
       \<lparr>ssi_name = st_name s, ssi_root = Some (st_root s), ssi_repo = enclosing_repo (ce_path_exists ce) (st_root s),
        ssi_config_missing = (\<not> config_exists (ce_is_file ce) (st_root s)), ssi_state = state_wire (st_state s),
        ssi_detail = st_detail s, ssi_pid = st_pid s, ssi_restarts = st_restarts s, ssi_host = st_host s,
        ssi_port = st_port s, ssi_desired_up = st_desired_up s, ssi_groups = st_groups s, ssi_project = st_project s\<rparr>)
       (status (dm_sv d)))"

definition bad_definition :: "service_definition \<Rightarrow> bool" where
  "bad_definition sd \<longleftrightarrow> sd_name sd = [] \<or> (case sd_run sd of [] \<Rightarrow> True | cmd # _ \<Rightarrow> trim cmd = [])"

definition handle_sync_services ::
  "daemon_env \<Rightarrow> path \<Rightarrow> service_definition list \<Rightarrow> (string, secrets_provider_config) btree \<Rightarrow> (string, egress_route) btree
   \<Rightarrow> daemon \<Rightarrow> ('u, 'h) response \<times> daemon" where
  "handle_sync_services de root services secrets egress d =
     (case filter bad_definition services of
        sd # _ \<Rightarrow> (RespErr (EDefinition (sd_name sd)), d)
      | [] \<Rightarrow>
          (case sync (env_of d) (de_runtime de) (de_save de) root services secrets egress (dm_sv d) (dm_fs d) of
             (r, sv, w) \<Rightarrow>
               (case r of Inr report \<Rightarrow> RespSyncReport report | Inl e \<Rightarrow> RespErr (ESupervisor e),
                d\<lparr>dm_sv := sv, dm_fs := w\<rparr>)))"

text \<open>The three handlers that answer with the statuses.\<close>

definition then_status ::
  "('u, 'h) call_env \<Rightarrow> (write_error sup_error + string list) \<times> supervisor \<times> fs \<Rightarrow> daemon \<Rightarrow> ('u, 'h) response \<times> daemon" where
  "then_status ce res d =
     (case res of (r, sv, w) \<Rightarrow>
        let d = d\<lparr>dm_sv := sv, dm_fs := w\<rparr> in
        (case r of Inr _ \<Rightarrow> handle_service_status ce d | Inl e \<Rightarrow> RespErr (ESupervisor e), d))"

definition handle_service_up :: "daemon_env \<Rightarrow> ('u, 'h) call_env \<Rightarrow> string list \<Rightarrow> daemon \<Rightarrow> ('u, 'h) response \<times> daemon" where
  "handle_service_up de ce names d = then_status ce (up (env_of d) (de_runtime de) (de_save de) names (dm_sv d) (dm_fs d)) d"

definition handle_service_down :: "daemon_env \<Rightarrow> ('u, 'h) call_env \<Rightarrow> string list \<Rightarrow> daemon \<Rightarrow> ('u, 'h) response \<times> daemon" where
  "handle_service_down de ce names d =
     then_status ce (down (env_of d) (de_runtime de) (de_save de) names (dm_sv d) (dm_fs d)) d"

definition handle_forget_services :: "daemon_env \<Rightarrow> ('u, 'h) call_env \<Rightarrow> string list \<Rightarrow> daemon \<Rightarrow> ('u, 'h) response \<times> daemon" where
  "handle_forget_services de ce names d =
     then_status ce (forget (env_of d) (de_runtime de) (de_save de) names (dm_sv d) (dm_fs d)) d"

definition handle_logs_query :: "('u, 'h) call_env \<Rightarrow> string \<Rightarrow> int option \<Rightarrow> u32 \<Rightarrow> daemon \<Rightarrow> ('u, 'h) response" where
  "handle_logs_query ce service after_id limit d =
     (if \<not> knows (dm_sv d) service then RespErr (EUnknownService service)
      else if \<not> ce_logs_ok ce then RespErr ELogs
      else
        let chunk = (case after_id of
            Some cursor \<Rightarrow> query_after service cursor limit (dm_logs d)
          | None \<Rightarrow> log_tail service limit (dm_logs d))
        in RespLogs (map (\<lambda>l. \<lparr>lli_id = lr_id l, lli_ts_ms = lg_ts (lr_rec l), lli_stream = lg_stream (lr_rec l),
             lli_line = lg_line (lr_rec l)\<rparr>) (ck_lines chunk)) (ck_last chunk))"

definition handle_start_service :: "daemon_env \<Rightarrow> ('u, 'h) call_env \<Rightarrow> string \<Rightarrow> daemon \<Rightarrow> ('u, 'h) response \<times> daemon" where
  "handle_start_service de ce host d =
     (case validate_host host of Inl e \<Rightarrow> (RespErr (EHost e), d) | Inr host \<Rightarrow>
      case start_host de (ce_start ce) host d of
        (Inr detail, d) \<Rightarrow> (RespStarted detail, d)
      | (Inl e, d) \<Rightarrow> (RespErr (EStart e), d))"

section \<open>Egress\<close>

definition handle_issue_grant ::
  "('u, 'h) call_env \<Rightarrow> string \<Rightarrow> string \<Rightarrow> string \<Rightarrow> u64 \<Rightarrow> string \<Rightarrow> daemon \<Rightarrow> ('u, 'h) response \<times> daemon" where
  "handle_issue_grant ce grant_id host digest expires_at expected d =
     (case validate_host host of Inl _ \<Rightarrow> (RespErr EGrantHost, d) | Inr host \<Rightarrow>
      case registry_get (rw_registry (routes_of d)) host of None \<Rightarrow> (RespErr EGrantNoRoute, d) | Some entry \<Rightarrow>
      case e_egress entry of None \<Rightarrow> (RespErr EGrantNotEgress, d) | Some spec \<Rightarrow>
        if \<not> sv_managed (dm_sv d) \<and> \<not> es_require_caller_token spec then (RespErr EGrantNoToken, d)
        else
          let revision = route_identity (ce_sha256 ce) (ce_route_ser ce) (e_target entry, spec) in
          if revision \<noteq> expected then (RespErr EGrantRevision, d)
          else (case grants_issue (ce_clock ce) (ce_now1 ce) (ce_now2 ce) (ce_out1 ce) (ce_out2 ce)
                  grant_id host digest expires_at revision (dm_grants d) of
            (Inr _, file) \<Rightarrow> (RespOk, d\<lparr>dm_grants := file\<rparr>)
          | (Inl e, file) \<Rightarrow> (RespErr (EGrant e), d\<lparr>dm_grants := file\<rparr>)))"

definition handle_revoke_grant :: "('u, 'h) call_env \<Rightarrow> string \<Rightarrow> daemon \<Rightarrow> ('u, 'h) response \<times> daemon" where
  "handle_revoke_grant ce grant_id d =
     (case grants_revoke (ce_out1 ce) grant_id (dm_grants d) of
        (Inr _, file) \<Rightarrow> (RespOk, d\<lparr>dm_grants := file\<rparr>)
      | (Inl e, file) \<Rightarrow> (RespErr (EGrant e), d\<lparr>dm_grants := file\<rparr>))"

definition list_egress_routes :: "('u, 'h) call_env \<Rightarrow> daemon \<Rightarrow> egress_route_info list" where
  "list_egress_routes ce d =
     concat (map (\<lambda>entry.
       if e_mode entry \<noteq> ModeEgress then []
       else (case e_egress entry of None \<Rightarrow> []
         | Some spec \<Rightarrow> [\<lparr>eri_host = e_host entry,
             eri_revision = route_identity (ce_sha256 ce) (ce_route_ser ce) (e_target entry, spec),
             eri_require_caller_token = (sv_managed (dm_sv d) \<or> es_require_caller_token spec)\<rparr>]))
       (registry_list (rw_registry (routes_of d))))"

definition handle_install_inference ::
  "daemon_env \<Rightarrow> path \<Rightarrow> string \<Rightarrow> string \<Rightarrow> redacted \<Rightarrow> egress_route \<Rightarrow> daemon \<Rightarrow> ('u, 'h) response \<times> daemon" where
  "handle_install_inference de root name key val route d =
     (case install_inference_route (env_of d) (de_save de) (save_creds de) root name key (redacted_value val) route
         (dm_creds d) (dm_sv d) (dm_fs d) of
        (r, cr, sv, w) \<Rightarrow>
          (case r of Inr _ \<Rightarrow> RespOk | Inl e \<Rightarrow> RespErr (EInference e), d\<lparr>dm_creds := cr, dm_sv := sv, dm_fs := w\<rparr>))"

definition handle_remove_inference ::
  "daemon_env \<Rightarrow> path \<Rightarrow> string \<Rightarrow> string \<Rightarrow> string \<Rightarrow> daemon \<Rightarrow> ('u, 'h) response \<times> daemon" where
  "handle_remove_inference de root name key host d =
     (case remove_inference_route (env_of d) (de_save de) (save_creds de) root name key host
         (dm_creds d) (dm_sv d) (dm_fs d) of
        (r, cr, sv, w) \<Rightarrow>
          (case r of Inr _ \<Rightarrow> RespOk | Inl e \<Rightarrow> RespErr (EInference e), d\<lparr>dm_creds := cr, dm_sv := sv, dm_fs := w\<rparr>))"

section \<open>Dispatch\<close>

definition handle_status :: "('u, 'h) call_env \<Rightarrow> daemon \<Rightarrow> ('u, 'h) response" where
  "handle_status ce d =
     RespStatus ((ce_status ce)\<lparr>si_managed_broker := sv_managed (dm_sv d), si_egress_grants_version := 1,
       si_inference_provisioning_version := (if sv_managed (dm_sv d) then 1 else 0),
       si_running_since := format_duration (ce_elapsed_secs ce)\<rparr>)"

definition handle_bridge :: "('u, 'h) call_env \<Rightarrow> ('u, 'h) response" where
  "handle_bridge ce = (case ce_bridge_sent ce of Some True \<Rightarrow> RespOk | _ \<Rightarrow> RespErr EBridge)"

fun is_bridge_request :: "request \<Rightarrow> bool" where
  "is_bridge_request ReqBridgeEnable = True"
| "is_bridge_request ReqBridgeDisable = True"
| "is_bridge_request (ReqBridgeSetMode _) = True"
| "is_bridge_request _ = False"

definition handle_request :: "daemon_env \<Rightarrow> ('u, 'h) call_env \<Rightarrow> request \<Rightarrow> daemon \<Rightarrow> ('u, 'h) response \<times> daemon" where
  "handle_request de ce req d =
     (case req of
        ReqAuthenticated _ _ \<Rightarrow> (RespErr EEnvelope, d)
      | ReqIssueEgressGrant i host digest expires expected \<Rightarrow> handle_issue_grant ce i host digest expires expected d
      | ReqRevokeEgressGrant i \<Rightarrow> handle_revoke_grant ce i d
      | ReqListEgressRoutes \<Rightarrow> (RespEgressRoutes (list_egress_routes ce d), d)
      | ReqListEntries \<Rightarrow> (RespEntries (registry_list (rw_registry (routes_of d))), d)
      | ReqStatus \<Rightarrow> (handle_status ce d, d)
      | ReqAddStatic host target md service project \<Rightarrow> handle_add de host target md service project d
      | ReqRemoveStatic host \<Rightarrow> handle_remove de host d
      | ReqStartService host \<Rightarrow> handle_start_service de ce host d
      | ReqTldList \<Rightarrow> (RespTlds (build_tld_infos d), d)
      | ReqTldAdd tld md \<Rightarrow> handle_tld_add de tld md d
      | ReqTldRemove tld \<Rightarrow> handle_tld_remove tld d
      | ReqCertHealth \<Rightarrow> (case ce_cert_health ce of (a, b, c, n) \<Rightarrow> (RespCertHealth a b c n, d))
      | ReqResourceUsage \<Rightarrow> (RespResourceUsage (ce_usage ce), d)
      | ReqResourceHistory \<Rightarrow> (RespResourceHistory (ce_history ce), d)
      | ReqBridgeEnable \<Rightarrow> (handle_bridge ce, d)
      | ReqBridgeDisable \<Rightarrow> (handle_bridge ce, d)
      | ReqBridgeSetMode _ \<Rightarrow> (handle_bridge ce, d)
      | ReqSyncServices root services secrets egress \<Rightarrow> handle_sync_services de root services secrets egress d
      | ReqServiceUp names \<Rightarrow> handle_service_up de ce names d
      | ReqServiceDown names \<Rightarrow> handle_service_down de ce names d
      | ReqForgetServices names \<Rightarrow> handle_forget_services de ce names d
      | ReqServiceStatus \<Rightarrow> (handle_service_status ce d, d)
      | ReqLogsQuery service after_id limit \<Rightarrow> (handle_logs_query ce service after_id limit d, d)
      | ReqSetSecretsCredentials provider i s t \<Rightarrow> handle_set_secrets_credentials de provider i s t d
      | ReqSetLocalSecret key val \<Rightarrow> handle_set_local_secret de key val d
      | ReqUnsetLocalSecret key \<Rightarrow> handle_unset_local_secret de key d
      | ReqInstallInferenceRoute root name key val route \<Rightarrow> handle_install_inference de root name key val route d
      | ReqRemoveInferenceRoute root name key host \<Rightarrow> handle_remove_inference de root name key host d
      | ReqSecretsStatus \<Rightarrow> (handle_secrets_status d, d)
      | ReqSetSecretsBlock name config \<Rightarrow> handle_set_secrets_block de name config d
      | ReqRemoveSecretsBlock name \<Rightarrow> handle_remove_secrets_block de name d)"

definition dispatch :: "daemon_env \<Rightarrow> ('u, 'h) call_env \<Rightarrow> request \<Rightarrow> daemon \<Rightarrow> ('u, 'h) response \<times> daemon" where
  "dispatch de ce req d =
     (if sv_managed (dm_sv d) \<and> is_bridge_request req then (RespErr EManagedBridge, d)
      else handle_request de ce req d)"

end
