(* ===== verification/System.thy ===== *)
theory System
  imports Handlers Runner
begin

text \<open>
  The daemon as a system: its start (\<open>daemon_main\<close> in \<open>portman-daemon/src/lib.rs\<close>, the part that
  builds the shared state) and its steps (a request dispatched, a container event, the writes of the
  services' runner tasks, a flush of captured log lines, the restore of an unmanaged start). The
  locale \<open>daemon_inv\<close> states what an invariant owes to each piece of the daemon, and derives that
  every request, every event and every sequence of steps keeps it. \<open>world_step\<close> interleaves such
  steps with the inspections of containers, which are awaited between the checks of a container's
  labels and its registration; \<open>landing_inv\<close> adds what an invariant owes to a late registration.
\<close>

section \<open>Pieces of handlers\<close>

lemma with_routes_simps [simp]:
  "routes_of (with_routes f d) = f (routes_of d)" "dm_static (with_routes f d) = dm_static d"
  "dm_tlds (with_routes f d) = dm_tlds d" "dm_tls (with_routes f d) = dm_tls d" "dm_creds (with_routes f d) = dm_creds d"
  "dm_fs (with_routes f d) = dm_fs d" "routable (with_routes f d) h = routable d h"
  by (simp_all add: with_routes_def routes_of_def routable_def)

definition without :: "string \<Rightarrow> route_world \<Rightarrow> route_world" where
  "without g rw = rw\<lparr>rw_registry := snd (registry_remove g (rw_registry rw))\<rparr>"

text \<open>A vault change with a hook: both parts keep \<open>J\<close>, so the whole does.\<close>

lemma commit_keeps: "(\<And>c w. I w \<Longrightarrow> I (snd (save c w))) \<Longrightarrow> I w \<Longrightarrow> commit save new r cur w = (q, cur', w') \<Longrightarrow> I w'"
  by (auto simp: commit_def split: prod.splits sum.splits) (metis snd_conv)+

lemma owned_keeps:
  assumes "\<And>w. I w \<Longrightarrow> I (snd (hook w))" and "\<And>c w. I w \<Longrightarrow> I (snd (save c w))" and "I w"
  shows "install_owned_local save key val owned hook cur w = (r, cur', w') \<Longrightarrow> I w'"
    and "remove_owned_local save key owned hook cur w = (r, cur', w') \<Longrightarrow> I w'"
proof -
  have hook: "hook v = (x, v') \<Longrightarrow> I v \<Longrightarrow> I v'" for v x v' using assms(1) [of v] by simp
  note save = commit_keeps [where save = save and I = I, OF assms(2)]
  show "install_owned_local save key val owned hook cur w = (r, cur', w') \<Longrightarrow> I w'"
    using assms(3) by (auto simp: install_owned_local_def split: if_splits sum.splits prod.splits intro: hook save)
  show "remove_owned_local save key owned hook cur w = (r, cur', w') \<Longrightarrow> I w'"
    using assms(3) by (auto simp: remove_owned_local_def split: if_splits sum.splits prod.splits intro: hook save)
qed

lemma global_block_routes:
  "set_global_block save name config sv w = (r, sv', w') \<Longrightarrow> sv_routes sv' = sv_routes sv"
  "remove_global_block save name sv w = (r, sv', w') \<Longrightarrow> sv_routes sv' = sv_routes sv"
  by (auto simp: set_global_block_def remove_global_block_def install_blocks_def Let_def
      split: if_splits sum.splits prod.splits option.splits)

lemma runner_step_routes: "runner_step t save name ev (rn, sv, w) = Some (rn', sv', w') \<Longrightarrow> sv_routes sv' = sv_routes sv"
  by (auto simp: runner_step_def turn_def wait_step_def wait_show_def back_step_def parked_step_def after_attempt_def
      after_failure_def stopped_def proceed_def set_state_def clear_running_marker_def Let_def
      split: phase.splits list.splits event.splits attempt.splits option.splits prod.splits if_splits)

section \<open>Start\<close>

text \<open>What the process finds when it starts. The stores it loads are in the initial state.\<close>

record boot =
  bo_managed :: bool
  bo_dashboard_auth :: bool
  bo_autostart :: bool
  bo_marker :: path  \<comment> \<open>\<open>managed-broker.json\<close> beside the services file\<close>
  bo_marker_there :: "bool option"  \<comment> \<open>\<open>None\<close>: cannot be looked up\<close>
  bo_marker_bytes :: "string option"  \<comment> \<open>\<open>true\<close> as JSON\<close>
  bo_docker_ok :: bool
  bo_own :: i32
  bo_procs :: proc_table
  bo_loaded :: "persisted option"

datatype boot_error =
  BootMarker | BootLegacy | BootWrite write_error | BootDocker | BootDashboardAuth | BootRestore "write_error sup_error"

definition configure_managed_broker :: "io_env \<Rightarrow> boot \<Rightarrow> daemon \<Rightarrow> (boot_error + unit) \<times> daemon" where
  "configure_managed_broker io bo d =
     (if \<not> bo_managed bo then
        (case bo_marker_there bo of
           None \<Rightarrow> (Inl BootMarker, d)
         | Some there \<Rightarrow> (if there then Inl BootLegacy else Inr (), d))
      else
        (case atomic_write_json_durable io (bo_marker bo) (bo_marker_bytes bo) 0x180 (dm_fs d) of
           (Inl e, w) \<Rightarrow> (Inl (BootWrite e), d\<lparr>dm_fs := w\<rparr>)
         | (Inr _, w) \<Rightarrow> (Inr (), d\<lparr>dm_sv := (dm_sv d)\<lparr>sv_managed := True\<rparr>, dm_fs := w\<rparr>)))"

definition restore_daemon :: "daemon_env \<Rightarrow> boot \<Rightarrow> bool \<Rightarrow> daemon \<Rightarrow> (write_error sup_error + unit) \<times> daemon" where
  "restore_daemon de bo autostart d =
     (case restore_with (env_of d) (de_runtime de) (de_save de) (bo_own bo) (bo_procs bo) (bo_loaded bo) autostart
         (dm_sv d) (dm_fs d) of
        (r, sigs, sv, w) \<Rightarrow> (r, d\<lparr>dm_sv := sv, dm_fs := w\<rparr>))"

definition seed_routes :: "daemon_env \<Rightarrow> boot \<Rightarrow> daemon \<Rightarrow> daemon" where
  "seed_routes de bo d =
     (let d = seed_from_static_store (seed_builtin_routes (de_dashboard_port de) d);
          d = (if bo_managed bo then d else seed_from_running_containers (de_docker de) d)
      in provision_certs_for_existing d)"

definition boot_daemon :: "daemon_env \<Rightarrow> boot \<Rightarrow> daemon \<Rightarrow> boot_error + daemon" where
  "boot_daemon de bo d =
     (case configure_managed_broker (de_io de) bo d of
        (Inl e, _) \<Rightarrow> Inl e
      | (Inr _, d) \<Rightarrow>
          if \<not> bo_docker_ok bo then Inl BootDocker
          else if bo_managed bo then
            (if \<not> bo_dashboard_auth bo then Inl BootDashboardAuth
             else (case restore_daemon de bo True d of
               (Inl e, _) \<Rightarrow> Inl (BootRestore e)
             | (Inr _, d) \<Rightarrow> Inr (seed_routes de bo d)))
          else Inr (seed_routes de bo d))"

section \<open>Steps\<close>

text \<open>
  The parameters of a step (faults of the disk, what Docker answers, clocks) are those of its
  moment. An unmanaged start restores the services in a task of its own, so that is a step too.
\<close>

inductive daemon_step :: "daemon \<Rightarrow> daemon \<Rightarrow> bool" where
  StepRequest: "daemon_step d (snd (dispatch de (ce :: (unit, unit) call_env) req d))"
| StepDocker: "daemon_step d (handle_event dk ev d)"
| StepRunner: "runner_step t (save :: (write_error, fs) saver) name ev (rn, dm_sv d, dm_fs d) = Some (rn', sv, w) \<Longrightarrow>
    daemon_step d (d\<lparr>dm_sv := sv, dm_fs := w\<rparr>)"
| StepLogs: "daemon_step d (d\<lparr>dm_logs := append_batch committed batch (dm_logs d)\<rparr>)"
| StepRestore: "\<not> bo_managed bo \<Longrightarrow> daemon_step d (snd (restore_daemon de bo (bo_autostart bo) d))"

inductive_cases daemon_stepE: "daemon_step d d'"

text \<open>
  What is awaited in the middle: the inspection of a container, by the event loop or by the
  rehydration of an added TLD. The state of the whole is the daemon, the inspections in flight, and
  the hosts that were overtaken: their TLD was found unmanaged while one was in flight, and it has
  not been managed again since. A TLD is added in pieces here; that any piece may come at any moment
  covers every order in which the pieces of several requests and events can follow each other.
\<close>

type_synonym world = "daemon \<times> inspection list \<times> string set"

definition inspected_hosts :: "inspection list \<Rightarrow> string set" where
  "inspected_hosts ps = set (map (\<lambda>i. to_ascii_lowercase (in_host i)) ps)"

definition overtaken :: "daemon \<Rightarrow> inspection list \<Rightarrow> string set \<Rightarrow> string set" where
  "overtaken d ps late = {h \<in> late \<union> inspected_hosts ps. \<not> routable d h}"

inductive world_step :: "world \<Rightarrow> world \<Rightarrow> bool" where
  WorldStep: "daemon_step d d' \<Longrightarrow> world_step (d, ps, late) (d', ps, overtaken d' ps late)"
| WorldStartChecked: "start_check cid attrs d = Some i \<Longrightarrow> world_step (d, ps, late) (d, i # ps, late)"
| WorldSeedChecked: "seed_check d summary = Some i \<Longrightarrow> world_step (d, ps, late) (d, i # ps, late)"
| WorldStartLanded: "i \<in> set ps \<Longrightarrow> world_step (d, ps, late) (start_land dk i d, remove1 i ps, late)"
| WorldSeedLanded: "i \<in> set ps \<Longrightarrow> world_step (d, ps, late) (seed_land dk i d, remove1 i ps, late)"
| WorldTldBegun: "tld_add_begin de tld md d = (r, d') \<Longrightarrow> world_step (d, ps, late) (d', ps, overtaken d' ps late)"
| WorldRehydrated: "world_step (d, ps, late) (seed_from_static_store d, ps, late)"
| WorldTldFinished: "world_step (d, ps, late) (tld_add_finish tld d, ps, late)"

inductive_cases world_stepE: "world_step x y"

lemma seed_checked: "seed_check d summary = Some i \<Longrightarrow>
    routable d (in_host i) \<and> \<not> (in_mode i = ModeTcp \<and> host_is_localhost (in_host i))"
  by (auto simp: seed_check_def Let_def split: option.splits sum.splits if_splits)

lemma start_checked: "start_check cid attrs d = Some i \<Longrightarrow>
    routable d (in_host i) \<and> \<not> (in_mode i = ModeTcp \<and> host_is_localhost (in_host i))"
  by (auto simp: start_check_def Let_def split: option.splits sum.splits if_splits prod.splits mode.splits)

section \<open>What an invariant owes\<close>

text \<open>
  The pieces a step is made of. Entries from rules and containers carry no egress part and are
  registered only for routable hosts; egress and service entries come from the supervisor.
\<close>

locale daemon_inv =
  fixes I :: "daemon \<Rightarrow> bool"
  assumes keeps_upsert: "I d \<Longrightarrow> e_source e \<noteq> SourceBuiltin \<Longrightarrow> e_egress e = None \<Longrightarrow> routable d (e_host e) \<Longrightarrow>
      \<not> (e_mode e = ModeTcp \<and> host_is_localhost (e_host e)) \<Longrightarrow> I (with_routes (upsert_route e) d)"
    and keeps_cert: "I d \<Longrightarrow> I (with_routes (ensure_cert h) d)"
    and keeps_without: "I d \<Longrightarrow> I (with_routes (without h) d)"
    and keeps_stopped: "I d \<Longrightarrow> I (container_stopped cid d)"
    and keeps_creds: "I d \<Longrightarrow> I (d\<lparr>dm_creds := cr, dm_fs := w\<rparr>)"
    and keeps_tls: "I d \<Longrightarrow> I (d\<lparr>dm_tls := ts, dm_fs := w\<rparr>)"
    and keeps_grants: "I d \<Longrightarrow> I (d\<lparr>dm_grants := g\<rparr>)"
    and keeps_logs: "I d \<Longrightarrow> I (d\<lparr>dm_logs := l\<rparr>)"
    and keeps_rule_added: "I d \<Longrightarrow> static_store_add io path ser h t m s p (dm_static d) w = (r, st, w') \<Longrightarrow>
      \<not> (m = ModeTcp \<and> host_is_localhost h) \<Longrightarrow> I (d\<lparr>dm_static := st, dm_fs := w'\<rparr>)"
    and keeps_rule_removed: "I d \<Longrightarrow> static_store_remove io path ser h (dm_static d) w = (q, st, w') \<Longrightarrow>
      I (d\<lparr>dm_static := st, dm_fs := w'\<rparr>)"
    and keeps_tld_added: "I d \<Longrightarrow> I (tld_add tld d)"
    and keeps_tld_removed: "I d \<Longrightarrow> I (remove_routes (orphans (tld_remove tld d)) (tld_remove tld d))"
    and keeps_sync: "I d \<Longrightarrow> sync (env_of d) rt (save :: (write_error, fs) saver) root services secrets egress (dm_sv d) w
      = (rs, sv, w') \<Longrightarrow> I (d\<lparr>dm_sv := sv, dm_fs := w'\<rparr>)"
    and keeps_up: "I d \<Longrightarrow> up (env_of d) rt save names (dm_sv d) w = (ru, sv, w') \<Longrightarrow> I (d\<lparr>dm_sv := sv, dm_fs := w'\<rparr>)"
    and keeps_down: "I d \<Longrightarrow> down (env_of d) rt save names (dm_sv d) w = (ru, sv, w') \<Longrightarrow> I (d\<lparr>dm_sv := sv, dm_fs := w'\<rparr>)"
    and keeps_forget: "I d \<Longrightarrow> forget (env_of d) rt save names (dm_sv d) w = (ru, sv, w') \<Longrightarrow> I (d\<lparr>dm_sv := sv, dm_fs := w'\<rparr>)"
    and keeps_block_set: "I d \<Longrightarrow> set_global_block save name config (dm_sv d) w = (rb, sv, w') \<Longrightarrow> I (d\<lparr>dm_sv := sv, dm_fs := w'\<rparr>)"
    and keeps_block_removed: "I d \<Longrightarrow> remove_global_block save name (dm_sv d) w = (rb, sv, w') \<Longrightarrow> I (d\<lparr>dm_sv := sv, dm_fs := w'\<rparr>)"
    and keeps_installed: "I d \<Longrightarrow> install_inference_route (env_of d) save save_cr root name key val route cr (dm_sv d) w
      = (ri, cr', sv, w') \<Longrightarrow> I (d\<lparr>dm_creds := cr', dm_sv := sv, dm_fs := w'\<rparr>)"
    and keeps_uninstalled: "I d \<Longrightarrow> remove_inference_route (env_of d) save save_cr root name key host cr (dm_sv d) w
      = (ri, cr', sv, w') \<Longrightarrow> I (d\<lparr>dm_creds := cr', dm_sv := sv, dm_fs := w'\<rparr>)"
    and keeps_runner: "I d \<Longrightarrow> runner_step tm save name ev (rn, dm_sv d, w) = Some (rn', sv, w') \<Longrightarrow> I (d\<lparr>dm_sv := sv, dm_fs := w'\<rparr>)"
    and keeps_restored: "I d \<Longrightarrow> restore_with (env_of d) rt save own pt loaded autostart (dm_sv d) w = (rr, sigs, sv, w') \<Longrightarrow>
      I (d\<lparr>dm_sv := sv, dm_fs := w'\<rparr>)"
begin

lemma keeps_seed_static: "I d \<Longrightarrow> I (seed_from_static_store d)"
  unfolding seed_from_static_store_def
  by (rule foldl_inv) (auto simp: seed_static_rule_def intro!: keeps_upsert split: prod.split)

lemma keeps_seed_container: "I d \<Longrightarrow> I (seed_container dk d summary)"
  by (auto intro!: keeps_upsert simp: seed_container_def seed_land_def dest!: seed_checked split: option.split)

lemma keeps_seed_containers: "I d \<Longrightarrow> I (seed_from_running_containers dk d)"
  unfolding seed_from_running_containers_def
  by (auto intro!: foldl_inv [where P = I] simp: keeps_seed_container split: option.split)

lemma keeps_rehydrate: "I d \<Longrightarrow> I (rehydrate_registry_for_managed_tlds dk d)"
  by (simp add: rehydrate_registry_for_managed_tlds_def keeps_seed_containers keeps_seed_static)

lemma keeps_provision: "I d \<Longrightarrow> I (provision_certs_for_existing d)"
  unfolding provision_certs_for_existing_def by (rule foldl_inv) (simp_all add: keeps_cert)

lemma keeps_event: "I d \<Longrightarrow> I (handle_event dk ev d)"
proof -
  assume ok: "I d"
  have started: "I (container_started dk cid attrs d)" for cid attrs
    using ok unfolding container_started_def start_land_def Let_def
    by (auto intro!: keeps_upsert keeps_cert dest!: start_checked split: option.split)
  show ?thesis
    using ok started keeps_stopped by (simp add: handle_event_def Let_def split: option.split prod.split)
qed

subsection \<open>Requests\<close>

lemma keeps_handle_add: "I d \<Longrightarrow> I (snd (handle_add de host target md service project d))"
proof -
  assume ok: "I d"
  have r: "routable (d\<lparr>dm_static := st, dm_fs := w\<rparr>) g = routable d g" for st w g by (simp add: routable_def)
  show ?thesis
    unfolding handle_add_def Let_def
    using ok by (auto simp: r dest!: keeps_rule_added [rotated] intro!: keeps_upsert keeps_cert split: sum.split prod.split)
qed

lemma keeps_handle_remove: "I d \<Longrightarrow> I (snd (handle_remove de host d))"
  unfolding handle_remove_def Let_def without_def [symmetric]
  by (auto dest!: keeps_rule_removed [rotated] intro!: keeps_without split: sum.split prod.split option.split)

lemma keeps_tld_begin: "I d \<Longrightarrow> tld_add_begin de tld md d = (r, d') \<Longrightarrow> I d'"
  by (auto simp: tld_add_begin_def intro!: keeps_tld_added keeps_tls split: sum.splits prod.splits if_splits)

lemma keeps_tld_finish: "I d \<Longrightarrow> I (tld_add_finish tld d)"
  unfolding tld_add_finish_def provision_certs_under_def
  by (auto intro!: foldl_inv [where P = I] simp: Let_def keeps_cert)

lemma keeps_handle_tld_add: "I d \<Longrightarrow> I (snd (handle_tld_add de tld md d))"
  unfolding handle_tld_add_def
  by (auto intro!: keeps_tld_finish keeps_rehydrate dest: keeps_tld_begin split: sum.split prod.split)

lemma keeps_handle_tld_remove: "I d \<Longrightarrow> I (snd (handle_tld_remove tld d))"
  by (auto simp: handle_tld_remove_def Let_def keeps_tld_removed split: sum.split)

lemma keeps_handle_sync: "I d \<Longrightarrow> I (snd (handle_sync_services de root services secrets egress d))"
  by (auto simp: handle_sync_services_def dest: keeps_sync split: list.split prod.split)

lemma keeps_handle_services:
  assumes "I d"
  shows "I (snd (handle_service_up de ce names d))" "I (snd (handle_service_down de ce names d))"
    "I (snd (handle_forget_services de ce names d))"
  using assms
  by (auto simp: handle_service_up_def handle_service_down_def handle_forget_services_def then_status_def Let_def
      dest: keeps_up keeps_down keeps_forget split: prod.split)

lemma keeps_handle_start: "I d \<Longrightarrow> I (snd (handle_start_service de ce host d))"
proof -
  assume ok: "I d"
  have "I (snd (start_host de sn host d))" for sn host
    using ok by (auto simp: start_host_def dest: keeps_up split: option.split prod.split sum.split)
  then show ?thesis using ok
    by (auto simp: handle_start_service_def split: sum.split prod.split) (metis snd_conv)+
qed

lemma keeps_handle_blocks:
  assumes "I d"
  shows "I (snd (handle_set_secrets_block de name config d))" "I (snd (handle_remove_secrets_block de name d))"
  using assms
  by (auto simp: handle_set_secrets_block_def handle_remove_secrets_block_def Let_def
      dest: keeps_block_set keeps_block_removed split: sum.split prod.split)

lemma keeps_handle_secrets:
  assumes "I d"
  shows "I (snd (handle_set_local_secret de key val d))" "I (snd (handle_unset_local_secret de key d))"
    "I (snd (handle_set_secrets_credentials de provider i s t d))"
proof -
  show "I (snd (handle_set_local_secret de key val d))"
    using assms by (auto simp: handle_set_local_secret_def Let_def keeps_creds split: sum.split prod.split)
  show "I (snd (handle_unset_local_secret de key d))"
    using assms by (auto simp: handle_unset_local_secret_def Let_def keeps_creds split: prod.split)
  have "I (snd (case q of Inl e \<Rightarrow> (RespErr e, d) | Inr (r, cr, w) \<Rightarrow> (f r, d\<lparr>dm_creds := cr, dm_fs := w\<rparr>)))" for q f
    using assms by (auto simp: keeps_creds split: sum.split)
  then show "I (snd (handle_set_secrets_credentials de provider i s t d))"
    unfolding handle_set_secrets_credentials_def Let_def by blast
qed

lemma keeps_handle_grants:
  assumes "I d"
  shows "I (snd (handle_issue_grant ce i host digest expires expected d))" "I (snd (handle_revoke_grant ce i d))"
  using assms
  by (auto simp: handle_issue_grant_def handle_revoke_grant_def Let_def keeps_grants split: sum.split option.split prod.split)

lemma keeps_handle_inference:
  assumes "I d"
  shows "I (snd (handle_install_inference de root name key val route d))"
    and "I (snd (handle_remove_inference de root name key host d))"
  using assms
  by (auto simp: handle_install_inference_def handle_remove_inference_def dest: keeps_installed keeps_uninstalled
      split: prod.split)

lemma keeps_dispatch: "I d \<Longrightarrow> I (snd (dispatch de ce req d))"
  by (cases req)
    (simp_all add: dispatch_def handle_request_def keeps_handle_add keeps_handle_remove keeps_handle_tld_add
      keeps_handle_tld_remove keeps_handle_sync keeps_handle_services keeps_handle_start keeps_handle_blocks
      keeps_handle_secrets keeps_handle_grants keeps_handle_inference split: prod.split)

subsection \<open>Runs\<close>

lemma keeps_restore_daemon: "I d \<Longrightarrow> I (snd (restore_daemon de bo autostart d))"
  by (auto simp: restore_daemon_def dest: keeps_restored split: prod.split)

lemma keeps_step: "daemon_step d d' \<Longrightarrow> I d \<Longrightarrow> I d'"
  by (erule daemon_stepE)
    (auto intro: keeps_dispatch keeps_event keeps_logs keeps_restore_daemon keeps_runner)

lemma keeps_run: "daemon_step\<^sup>*\<^sup>* d d' \<Longrightarrow> I d \<Longrightarrow> I d'"
  by (induction rule: rtranclp_induct) (auto intro: keeps_step)

end

text \<open>An invariant that holds of late registrations as well is kept whatever comes in between.\<close>

locale landing_inv = daemon_inv +
  assumes keeps_landed: "I d \<Longrightarrow> e_source e = SourceContainer \<Longrightarrow> e_egress e = None \<Longrightarrow> I (with_routes (upsert_route e) d)"
begin

lemma keeps_land: "I d \<Longrightarrow> I (seed_land dk i d)" "I d \<Longrightarrow> I (start_land dk i d)"
  by (auto simp: seed_land_def start_land_def Let_def keeps_landed keeps_cert split: option.split)

lemma keeps_world_step: "world_step x y \<Longrightarrow> I (fst x) \<Longrightarrow> I (fst y)"
  by (erule world_stepE)
    (auto intro: keeps_step keeps_land keeps_tld_begin keeps_seed_static keeps_tld_finish)

lemma keeps_world: "world_step\<^sup>*\<^sup>* x y \<Longrightarrow> I (fst x) \<Longrightarrow> I (fst y)"
  by (induction rule: rtranclp_induct) (auto intro: keeps_world_step)

end

section \<open>Starting\<close>

text \<open>What configuring and restoring keep true and seeding establishes holds after a start.\<close>

lemma boot_establishes:
  assumes "boot_daemon de bo d0 = Inr d" and "J d0"
    and "\<And>d r d'. J d \<Longrightarrow> configure_managed_broker (de_io de) bo d = (Inr r, d') \<Longrightarrow> J d'"
    and "\<And>d r d'. J d \<Longrightarrow> restore_daemon de bo True d = (r, d') \<Longrightarrow> J d'"
    and "\<And>d. J d \<Longrightarrow> I (seed_routes de bo d)"
  shows "I d"
proof -
  obtain r d1 where c: "configure_managed_broker (de_io de) bo d0 = (r, d1)" by fastforce
  obtain q d2 where r: "restore_daemon de bo True d1 = (q, d2)" by fastforce
  from assms(1) c obtain u where u: "r = Inr u" by (cases r) (simp_all add: boot_daemon_def)
  have J: "J d1" "J d2" using assms(3) [OF assms(2)] c u assms(4) [OF _ r] by blast+
  from assms(1) c u r have "d = seed_routes de bo d1 \<or> d = seed_routes de bo d2"
    by (auto simp: boot_daemon_def split: if_splits sum.splits)
  then show ?thesis using J assms(5) by blast
qed

end
