(* ===== verification/Admission.thy ===== *)
theory Admission
  imports System
begin

text \<open>
  Which routes get in, and stay in: every entry but the built-in ones belongs to a managed TLD or
  \<open>.localhost\<close>, TCP never to \<open>.localhost\<close>, and the dashboard keeps its host, whatever requests,
  container events and service changes follow each other. One exception: a container whose TLD is
  removed while Docker is asked about it is still registered (\<open>late\<close> are such hosts).
\<close>

section \<open>Admitted entries\<close>

definition entry_admitted :: "string set \<Rightarrow> string list \<Rightarrow> entry \<Rightarrow> bool" where
  "entry_admitted late tlds e \<longleftrightarrow>
     (host_is_routable (e_host e) tlds \<or> e_source e = SourceContainer \<and> to_ascii_lowercase (e_host e) \<in> late) \<and> (e_mode e = ModeTcp \<longrightarrow> \<not> host_is_localhost (e_host e))"

definition rules_sound :: "static_state \<Rightarrow> bool" where
  "rules_sound st \<longleftrightarrow> bt_ok (ss_entries st) \<and>
     (\<forall>(h, r)\<in>set (ss_entries st). sr_mode r = ModeTcp \<longrightarrow> \<not> host_is_localhost h)"

definition entries_admitted :: "string set \<Rightarrow> string list \<Rightarrow> route_world \<Rightarrow> bool" where
  "entries_admitted late tlds rw \<longleftrightarrow> routes_ok rw \<and>
     (\<forall>h e. route_at rw h = Some e \<longrightarrow> e_source e \<noteq> SourceBuiltin \<longrightarrow> entry_admitted late tlds e)"

definition routes_admitted :: "string set \<Rightarrow> route_env \<Rightarrow> route_world \<Rightarrow> bool" where
  "routes_admitted late env rw \<longleftrightarrow> rules_sound (re_static env) \<and> entries_admitted late (re_tlds env) rw"

lemma localhost_lower [simp]: "host_is_localhost (to_ascii_lowercase h) = host_is_localhost h"
  by (simp add: host_is_localhost_def)

lemma routable_cong: "to_ascii_lowercase h = to_ascii_lowercase k \<Longrightarrow> host_is_routable h tlds = host_is_routable k tlds"
  by (simp add: host_is_routable_def host_is_localhost_def managed_tld_iff)

lemma routable_lower [simp]: "host_is_routable (to_ascii_lowercase h) tlds = host_is_routable h tlds"
  by (rule routable_cong) simp

lemma routable_mono: "host_is_routable h tlds \<Longrightarrow> set tlds \<subseteq> set tlds' \<Longrightarrow> host_is_routable h tlds'"
  unfolding host_is_routable_def managed_tld_iff by blast

lemma admitted_lower [simp]: "entry_admitted late tlds (e\<lparr>e_host := to_ascii_lowercase h\<rparr>) = entry_admitted late tlds (e\<lparr>e_host := h\<rparr>)"
  by (simp add: entry_admitted_def)

lemma admitted_self [simp]: "e\<lparr>e_host := e_host e\<rparr> = (e :: entry)"
  by simp

lemma admitted_certs [simp]: "entries_admitted late tlds (rw\<lparr>rw_certs := c\<rparr>) = entries_admitted late tlds rw"
  by (simp add: entries_admitted_def)

lemma entries_admitted_cert [simp]: "entries_admitted late tlds (ensure_cert h rw) = entries_admitted late tlds rw"
  by (simp add: ensure_cert_def)

lemma entries_admitted_upsert:
  assumes "entries_admitted late tlds rw" and "e_source e \<noteq> SourceBuiltin" and "entry_admitted late tlds e"
  shows "entries_admitted late tlds (upsert_route e rw)"
  using assms
  by (auto simp: entries_admitted_def routes_ok_upsert route_at_upsert entry_admitted_def split: if_splits)

lemma route_at_host: "routes_ok rw \<Longrightarrow> route_at rw h = Some e \<Longrightarrow> e_host e = to_ascii_lowercase h"
  by (auto simp: routes_ok_def route_at_def registry_get_def registry_ok_def hm_get_iff list_all_iff)

lemma static_rule_sound:
  "rules_sound st \<Longrightarrow> static_store_get st h = Some (t, ModeTcp, p) \<Longrightarrow> \<not> host_is_localhost h"
  by (auto simp: rules_sound_def static_store_get_def bt_get_iff)

lemma entries_admitted_release:
  assumes "entries_admitted late (re_tlds env) rw" and "rules_sound (re_static env)"
    and "src \<noteq> SourceBuiltin" and "src \<noteq> SourceContainer"
  shows "entries_admitted late (re_tlds env) (release_route env src h rw)"
proof -
  have ok: "routes_ok rw" using assms(1) by (simp add: entries_admitted_def)
  have "entry_admitted late (re_tlds env) ((static_entry h r)\<lparr>e_host := to_ascii_lowercase h\<rparr>)"
    if held: "route_at rw h = Some e" "e_source e = src" and r: "static_store_get (re_static env) h = Some r" for e r
  proof -
    obtain t md p where rule: "r = (t, md, p)" by (cases r)
    have "host_is_routable (e_host e) (re_tlds env)"
      using assms(1,3,4) held by (auto simp: entries_admitted_def entry_admitted_def)
    then have "host_is_routable h (re_tlds env)" by (simp add: route_at_host [OF ok held(1)])
    moreover have "md = ModeTcp \<Longrightarrow> \<not> host_is_localhost h" using static_rule_sound assms(2) r rule by blast
    ultimately show ?thesis by (auto simp: entry_admitted_def static_entry_def rule)
  qed
  then show ?thesis
    using assms(1,3) ok by (auto simp: entries_admitted_def routes_ok_release route_at_release split: if_splits)
qed

lemma routes_admitted_service:
  "routes_admitted late env rw \<Longrightarrow> routes_admitted late env (service_register env sd rw)"
  "routes_admitted late env rw \<Longrightarrow> routes_admitted late env (service_deregister env sd rw)"
proof -
  assume a: "routes_admitted late env rw"
  show "routes_admitted late env (service_register env sd rw)"
    using a unfolding routes_admitted_def service_register_def
    by (auto simp: Let_def service_entry_def entry_admitted_def intro!: entries_admitted_upsert split: option.split)
  show "routes_admitted late env (service_deregister env sd rw)"
    using a by (auto simp: routes_admitted_def service_deregister_def entries_admitted_release split: option.split)
qed

lemma routes_admitted_egress:
  "routes_admitted late env rw \<Longrightarrow> routes_admitted late env (egress_register env r rw)"
  "routes_admitted late env rw \<Longrightarrow> routes_admitted late env (egress_deregister env r rw)"
  by (auto simp: routes_admitted_def egress_register_def egress_deregister_def egress_entry_def entry_admitted_def
      entries_admitted_release intro!: entries_admitted_upsert)

interpretation adm: all_routes env "routes_admitted late env" for env
  by unfold_locales (simp_all add: routes_admitted_service routes_admitted_egress)

section \<open>Built-in routes\<close>

definition builtin_kept :: "string \<Rightarrow> route_world \<Rightarrow> bool" where
  "builtin_kept h rw \<longleftrightarrow> routes_ok rw \<and>
     (\<exists>e. route_at rw h = Some e \<and> e_source e = SourceBuiltin \<and> e_container_id e = None)"

lemma builtin_kept_upsert: "builtin_kept h rw \<Longrightarrow> e_source e \<noteq> SourceBuiltin \<Longrightarrow> builtin_kept h (upsert_route e rw)"
  by (auto simp: builtin_kept_def builtin_at_def routes_ok_upsert route_at_upsert same_host_route_at)

lemma builtin_kept_release: "builtin_kept h rw \<Longrightarrow> src \<noteq> SourceBuiltin \<Longrightarrow> builtin_kept h (release_route env src g rw)"
  by (auto simp: builtin_kept_def builtin_at_def routes_ok_release route_at_release same_host_route_at)

lemma builtin_kept_certs [simp]: "builtin_kept h (rw\<lparr>rw_certs := c\<rparr>) = builtin_kept h rw"
  by (simp add: builtin_kept_def builtin_at_def)

interpretation bi: all_routes env "builtin_kept h" for env h
proof unfold_locales
  fix rw sd r assume k: "builtin_kept h rw"
  show "builtin_kept h (service_register env sd rw)"
    using k by (auto simp: service_register_def Let_def service_entry_def builtin_kept_upsert split: option.split)
  show "builtin_kept h (service_deregister env sd rw)"
    using k by (auto simp: service_deregister_def builtin_kept_release split: option.split)
  show "builtin_kept h (egress_register env r rw)"
    using k by (auto simp: egress_register_def egress_entry_def builtin_kept_upsert)
  show "builtin_kept h (egress_deregister env r rw)"
    using k by (auto simp: egress_deregister_def builtin_kept_release)
qed


section \<open>The daemon\<close>

text \<open>The two invariants together, and what a route change must keep.\<close>

definition daemon_ok :: "string set \<Rightarrow> daemon \<Rightarrow> bool" where
  "daemon_ok late d \<longleftrightarrow> routes_admitted late (env_of d) (routes_of d) \<and> builtin_kept dashboard_host (routes_of d)"

lemma daemon_ok_iff:
  "daemon_ok late d \<longleftrightarrow> rules_sound (dm_static d) \<and> entries_admitted late (dm_tlds d) (routes_of d) \<and>
     builtin_kept dashboard_host (routes_of d)"
  by (simp add: daemon_ok_def routes_admitted_def env_of_def)

lemma daemon_ok_upsert:
  "daemon_ok late d \<Longrightarrow> e_source e \<noteq> SourceBuiltin \<Longrightarrow> routable d (e_host e) \<Longrightarrow>
   \<not> (e_mode e = ModeTcp \<and> host_is_localhost (e_host e)) \<Longrightarrow> daemon_ok late (with_routes (upsert_route e) d)"
  by (auto simp: daemon_ok_iff routable_def entry_admitted_def entries_admitted_upsert builtin_kept_upsert)

lemma daemon_ok_cert: "daemon_ok late d \<Longrightarrow> daemon_ok late (with_routes (ensure_cert h) d)"
  by (simp add: daemon_ok_iff ensure_cert_def)

lemma route_at_removed:
  "routes_ok rw \<Longrightarrow> route_at (rw\<lparr>rw_registry := snd (registry_remove g (rw_registry rw))\<rparr>) h =
    (if same_host h g \<and> \<not> builtin_at rw g then None else route_at rw h)"
  by (auto simp: route_at_def routes_ok_def registry_get_remove same_host_def builtin_at_def)

lemma routes_ok_without: "routes_ok rw \<Longrightarrow> routes_ok (without g rw)"
  by (simp add: routes_ok_def without_def registry_ok_remove)

lemma route_at_without:
  "routes_ok rw \<Longrightarrow> route_at (without g rw) h = (if same_host h g \<and> \<not> builtin_at rw g then None else route_at rw h)"
  by (simp add: without_def route_at_removed)

lemma entries_admitted_without: "entries_admitted late tlds rw \<Longrightarrow> entries_admitted late tlds (without g rw)"
  by (auto simp: entries_admitted_def routes_ok_without route_at_without split: if_splits)

lemma builtin_kept_without: "builtin_kept h rw \<Longrightarrow> builtin_kept h (without g rw)"
  by (auto simp: builtin_kept_def builtin_at_def routes_ok_without route_at_without same_host_route_at)

lemma daemon_ok_without: "daemon_ok late d \<Longrightarrow> daemon_ok late (with_routes (without g) d)"
  by (simp add: daemon_ok_iff entries_admitted_without builtin_kept_without)

text \<open>A request to the supervisor runs in the daemon's routing environment.\<close>

lemma daemon_ok_supervisor:
  assumes "daemon_ok late d" and "routes_admitted late (env_of d) (sv_routes (dm_sv d)) \<Longrightarrow> routes_admitted late (env_of d) (sv_routes sv)"
    and "builtin_kept dashboard_host (sv_routes (dm_sv d)) \<Longrightarrow> builtin_kept dashboard_host (sv_routes sv)"
  shows "daemon_ok late (d\<lparr>dm_sv := sv, dm_fs := w\<rparr>)"
  using assms by (simp add: daemon_ok_def routes_of_def env_of_def)

lemma daemon_ok_other:
  "daemon_ok late d \<Longrightarrow> daemon_ok late (d\<lparr>dm_creds := cr, dm_fs := w\<rparr>)" "daemon_ok late d \<Longrightarrow> daemon_ok late (d\<lparr>dm_grants := g\<rparr>)"
  "daemon_ok late d \<Longrightarrow> daemon_ok late (d\<lparr>dm_tls := t, dm_fs := w\<rparr>)" "daemon_ok late d \<Longrightarrow> daemon_ok late (d\<lparr>dm_logs := l\<rparr>)"
  by (simp_all add: daemon_ok_iff routes_of_def)

lemma routes_ok_stopped: "routes_ok rw \<Longrightarrow> routes_ok (rw\<lparr>rw_registry := snd (registry_remove_by_container_id i (rw_registry rw))\<rparr>)"
  by (simp add: routes_ok_def registry_ok_remove_by_container_id)

lemma route_at_stopped:
  "routes_ok rw \<Longrightarrow> route_at (rw\<lparr>rw_registry := snd (registry_remove_by_container_id i (rw_registry rw))\<rparr>) h =
    (case route_at rw h of Some e \<Rightarrow> (if e_container_id e = Some i then None else Some e) | None \<Rightarrow> None)"
  by (simp add: route_at_def routes_ok_def registry_get_remove_by_container_id)

lemma daemon_ok_stopped: "daemon_ok late d \<Longrightarrow> daemon_ok late (container_stopped cid d)"
  by (auto simp: container_stopped_def daemon_ok_iff entries_admitted_def builtin_kept_def routes_ok_stopped
      route_at_stopped split: option.splits if_splits)

lemma rules_sound_insert:
  "rules_sound st \<Longrightarrow> \<not> (sr_mode r = ModeTcp \<and> host_is_localhost h) \<Longrightarrow>
   rules_sound (st\<lparr>ss_entries := bt_insert h r (ss_entries st)\<rparr>)"
  using set_bt_insert_subset [of h r "ss_entries st"] by (fastforce simp: rules_sound_def)

lemma rules_sound_remove: "rules_sound st \<Longrightarrow> rules_sound (st\<lparr>ss_entries := bt_remove h (ss_entries st)\<rparr>)"
  by (auto simp: rules_sound_def bt_remove_def bt_ok_filter)

lemma daemon_ok_static: "daemon_ok late d \<Longrightarrow> rules_sound st \<Longrightarrow> daemon_ok late (d\<lparr>dm_static := st, dm_fs := w\<rparr>)"
  by (simp add: daemon_ok_iff routes_of_def)

lemma rules_sound_store:
  assumes "rules_sound st"
  shows "static_store_add io path ser h t m s p st w = (r, st', w') \<Longrightarrow> \<not> (m = ModeTcp \<and> host_is_localhost h) \<Longrightarrow> rules_sound st'"
    and "static_store_remove io path ser h st w = (q, st', w') \<Longrightarrow> rules_sound st'"
  using assms
  by (auto simp: static_store_add_def static_store_remove_def commit_def Let_def rules_sound_insert rules_sound_remove
      split: if_splits sum.splits prod.splits)

lemma entries_admitted_late:
  "entries_admitted late tlds rw \<Longrightarrow> {h \<in> late. \<not> host_is_routable h tlds} \<subseteq> late' \<Longrightarrow> entries_admitted late' tlds rw"
  unfolding entries_admitted_def entry_admitted_def by (metis (mono_tags, lifting) mem_Collect_eq routable_lower subsetD)

lemma entries_admitted_mono: "entries_admitted late tlds rw \<Longrightarrow> set tlds \<subseteq> set tlds' \<Longrightarrow> entries_admitted late tlds' rw"
  unfolding entries_admitted_def entry_admitted_def using routable_mono by blast

lemma daemon_ok_tld_add_state: "daemon_ok late d \<Longrightarrow> daemon_ok late (tld_add tld d)"
  by (auto simp: daemon_ok_iff tld_add_def routes_of_def elim!: entries_admitted_mono)

lemma remove_routes_eq:
  "routes_of (remove_routes hosts d) = foldl (\<lambda>rw g. without g rw) (routes_of d) hosts"
  "dm_tlds (remove_routes hosts d) = dm_tlds d" "dm_static (remove_routes hosts d) = dm_static d"
  by (induction hosts arbitrary: d) (simp_all add: remove_routes_def without_def [abs_def])

lemma builtin_at_same: "same_host h g \<Longrightarrow> builtin_at rw g = builtin_at rw h"
  unfolding builtin_at_def using same_host_route_at [of h g rw] by simp

lemma builtin_at_without: "routes_ok rw \<Longrightarrow> builtin_at (without g rw) h = builtin_at rw h"
  using builtin_at_same [of h g rw] by (auto simp: builtin_at_def [of "without g rw"] builtin_at_def [of rw h] route_at_without)

lemma route_at_without_all:
  "routes_ok rw \<Longrightarrow> route_at (foldl (\<lambda>rw g. without g rw) rw hosts) h =
    (if (\<exists>g\<in>set hosts. same_host h g) \<and> \<not> builtin_at rw h then None else route_at rw h)"
proof (induction hosts arbitrary: rw)
  case (Cons g hosts)
  have "route_at (foldl (\<lambda>rw g. without g rw) (without g rw) hosts) h =
      (if (\<exists>g\<in>set hosts. same_host h g) \<and> \<not> builtin_at rw h then None else route_at (without g rw) h)"
    using Cons by (simp add: routes_ok_without builtin_at_without)
  then show ?case using Cons.prems builtin_at_same [of h g rw] by (auto simp: route_at_without)
qed simp

lemma daemon_ok_tld_remove: "daemon_ok late d \<Longrightarrow> daemon_ok late (remove_routes (orphans (tld_remove t d)) (tld_remove t d))"
proof -
  assume ok: "daemon_ok late d"
  let ?d = "tld_remove t d"
  have same: "routes_of ?d = routes_of d" "dm_static ?d = dm_static d"
    by (simp_all add: tld_remove_def routes_of_def)
  have rok: "routes_ok (routes_of d)" using ok by (simp add: daemon_ok_iff entries_admitted_def)
  have bk: "builtin_kept dashboard_host (foldl (\<lambda>rw g. without g rw) (routes_of d) (orphans ?d))"
    by (rule foldl_inv) (use ok in \<open>simp_all add: daemon_ok_iff builtin_kept_without\<close>)
  have "entry_admitted late (dm_tlds ?d) e"
    if e: "route_at (routes_of d) h = Some e" "e_source e \<noteq> SourceBuiltin" and keep: "\<not> (\<exists>g\<in>set (orphans ?d). same_host h g)" for h e
  proof -
    have "entry_admitted late (dm_tlds d) e" using ok e by (simp add: daemon_ok_iff entries_admitted_def)
    moreover have "routable ?d (e_host e)"
    proof (rule ccontr)
      assume "\<not> routable ?d (e_host e)"
      moreover have "e \<in> set (registry_list (rw_registry (routes_of ?d)))"
        using e(1) rok by (force simp: same route_at_def registry_get_def registry_list_def routes_ok_def registry_ok_def hm_get_iff)
      ultimately have "e_host e \<in> set (orphans ?d)" by (auto simp: orphans_def)
      moreover have "same_host h (e_host e)" by (simp add: same_host_def route_at_host [OF rok e(1)])
      ultimately show False using keep by blast
    qed
    ultimately show ?thesis by (simp add: entry_admitted_def routable_def)
  qed
  moreover have "routes_ok (foldl (\<lambda>rw g. without g rw) (routes_of d) (orphans ?d))" using bk by (simp add: builtin_kept_def)
  ultimately have "entries_admitted late (dm_tlds ?d) (foldl (\<lambda>rw g. without g rw) (routes_of d) (orphans ?d))"
    using rok by (auto simp: entries_admitted_def route_at_without_all builtin_at_def split: if_splits)
  then show ?thesis
    using ok bk by (simp add: daemon_ok_iff remove_routes_eq same)
qed

section \<open>The supervisor's routes\<close>

lemma daemon_ok_sv:
  assumes "daemon_ok late d" and "sv_routes (dm_sv d) = sv_routes sv"
  shows "daemon_ok late (d\<lparr>dm_sv := sv, dm_fs := w\<rparr>)"
  by (rule daemon_ok_supervisor) (use assms in simp_all)

lemma daemon_ok_step:
  assumes "daemon_ok late d"
    and "\<And>P. all_routes (env_of d) P \<Longrightarrow> P (sv_routes (dm_sv d)) \<Longrightarrow> P (sv_routes sv)"
  shows "daemon_ok late (d\<lparr>dm_sv := sv, dm_fs := w\<rparr>)"
  by (rule daemon_ok_supervisor)
    (use assms in \<open>auto intro: adm.all_routes_axioms bi.all_routes_axioms\<close>)

lemma managed_routes_keeps:
  assumes "all_routes env P" and "P (sv_routes (fst s))"
  shows "P (sv_routes (fst (snd ((\<lambda>(sv, w). sync_managed_routes env save root blocks routes sv w) s))))"
  using assms(2)
  by (cases s) (auto simp: sync_managed_routes_def Let_def all_routes.keeps_reroute [OF assms(1)]
      split: sum.split prod.split)

lemma inference_keeps:
  assumes "all_routes env P" and "P (sv_routes sv)"
  shows "install_inference_route env save save_cr root name key val route cr sv w = (r, cr', sv', w') \<Longrightarrow> P (sv_routes sv')"
    and "remove_inference_route env save save_cr root name key host cr sv w = (r, cr', sv', w') \<Longrightarrow> P (sv_routes sv')"
proof -
  have save: "P (sv_routes (fst (snd (vault_save save_cr c s))))" if "P (sv_routes (fst s))" for c s
    using that by (cases s) (simp add: vault_save_def split: prod.split)
  let ?I = "\<lambda>s. P (sv_routes (fst s))"
  have inst: "install_owned_local (vault_save save_cr) key val owned
      (\<lambda>(sv, w). sync_managed_routes env save root blocks routes sv w) cr (sv, w) = (x, cr', sv', w') \<Longrightarrow> P (sv_routes sv')"
    for owned blocks routes x
    by (drule owned_keeps(1) [where I = ?I, rotated 3], erule managed_routes_keeps [OF assms(1)], erule save)
      (simp_all add: assms(2))
  have rem: "remove_owned_local (vault_save save_cr) key owned
      (\<lambda>(sv, w). sync_managed_routes env save root blocks routes sv w) cr (sv, w) = (x, cr', sv', w') \<Longrightarrow> P (sv_routes sv')"
    for owned blocks routes x
    by (drule owned_keeps(2) [where I = ?I, rotated 3], erule managed_routes_keeps [OF assms(1)], erule save)
      (simp_all add: assms(2))
  show "install_inference_route env save save_cr root name key val route cr sv w = (r, cr', sv', w') \<Longrightarrow> P (sv_routes sv')"
    using assms(2) by (auto simp: install_inference_route_def split: sum.splits prod.splits dest: inst)
  show "remove_inference_route env save save_cr root name key host cr sv w = (r, cr', sv', w') \<Longrightarrow> P (sv_routes sv')"
    using assms(2) by (auto simp: remove_inference_route_def split: sum.splits prod.splits dest: rem)
qed

lemma daemon_ok_creds_sv: "daemon_ok late (d\<lparr>dm_creds := cr, dm_sv := sv, dm_fs := w\<rparr>) = daemon_ok late (d\<lparr>dm_sv := sv, dm_fs := w\<rparr>)"
  by (simp add: daemon_ok_iff routes_of_def)

lemma daemon_ok_rules:
  assumes "daemon_ok late d"
  shows "static_store_add io path ser h t m s p (dm_static d) w = (r, st, w') \<Longrightarrow> \<not> (m = ModeTcp \<and> host_is_localhost h) \<Longrightarrow>
      daemon_ok late (d\<lparr>dm_static := st, dm_fs := w'\<rparr>)"
    and "static_store_remove io path ser h (dm_static d) w = (q, st, w') \<Longrightarrow> daemon_ok late (d\<lparr>dm_static := st, dm_fs := w'\<rparr>)"
proof -
  have "rules_sound (dm_static d)" using assms by (simp add: daemon_ok_iff)
  note store = rules_sound_store [OF this] and static = daemon_ok_static [OF assms]
  show "static_store_add io path ser h t m s p (dm_static d) w = (r, st, w') \<Longrightarrow> \<not> (m = ModeTcp \<and> host_is_localhost h) \<Longrightarrow>
      daemon_ok late (d\<lparr>dm_static := st, dm_fs := w'\<rparr>)" by (rule static) (rule store(1))
  show "static_store_remove io path ser h (dm_static d) w = (q, st, w') \<Longrightarrow> daemon_ok late (d\<lparr>dm_static := st, dm_fs := w'\<rparr>)"
    by (rule static) (rule store(2))
qed

lemma daemon_ok_blocks:
  assumes "daemon_ok late d"
  shows "set_global_block save name config (dm_sv d) w = (r, sv, w') \<Longrightarrow> daemon_ok late (d\<lparr>dm_sv := sv, dm_fs := w'\<rparr>)"
    and "remove_global_block save name (dm_sv d) w = (r, sv, w') \<Longrightarrow> daemon_ok late (d\<lparr>dm_sv := sv, dm_fs := w'\<rparr>)"
  using daemon_ok_sv [OF assms] global_block_routes by metis+

lemma daemon_ok_runner:
  "daemon_ok late d \<Longrightarrow> runner_step t save name ev (rn, dm_sv d, w) = Some (rn', sv, w') \<Longrightarrow> daemon_ok late (d\<lparr>dm_sv := sv, dm_fs := w'\<rparr>)"
  by (erule daemon_ok_sv) (simp add: runner_step_routes)

interpretation ok: daemon_inv "daemon_ok late" for late
proof unfold_locales
  fix d sv w w' cr cr' and save :: "(write_error, fs) saver" and save_cr :: "credentials \<Rightarrow> fs \<Rightarrow> (write_error + unit) \<times> fs"
  assume ok: "daemon_ok late d"
  note step = daemon_ok_step [OF ok]
  show "sync (env_of d) rt save root services secrets egress (dm_sv d) w = (rs, sv, w') \<Longrightarrow> daemon_ok late (d\<lparr>dm_sv := sv, dm_fs := w'\<rparr>)"
    for rt root services secrets egress rs by (rule step) (rule all_routes.keeps_sync)
  show "up (env_of d) rt save names (dm_sv d) w = (ru, sv, w') \<Longrightarrow> daemon_ok late (d\<lparr>dm_sv := sv, dm_fs := w'\<rparr>)"
    for rt names ru by (rule step) (rule service_routes.keeps_up [OF all_routes.axioms(1)])
  show "down (env_of d) rt save names (dm_sv d) w = (ru, sv, w') \<Longrightarrow> daemon_ok late (d\<lparr>dm_sv := sv, dm_fs := w'\<rparr>)"
    for rt names ru by (rule step) (rule service_routes.keeps_down [OF all_routes.axioms(1)])
  show "forget (env_of d) rt save names (dm_sv d) w = (ru, sv, w') \<Longrightarrow> daemon_ok late (d\<lparr>dm_sv := sv, dm_fs := w'\<rparr>)"
    for rt names ru by (rule step) (rule service_routes.keeps_forget [OF all_routes.axioms(1)])
  show "install_inference_route (env_of d) save save_cr root name key val route cr (dm_sv d) w = (ri, cr', sv, w') \<Longrightarrow>
      daemon_ok late (d\<lparr>dm_creds := cr', dm_sv := sv, dm_fs := w'\<rparr>)" for root name key val route ri
    unfolding daemon_ok_creds_sv by (rule step) (rule inference_keeps(1))
  show "remove_inference_route (env_of d) save save_cr root name key host cr (dm_sv d) w = (ri, cr', sv, w') \<Longrightarrow>
      daemon_ok late (d\<lparr>dm_creds := cr', dm_sv := sv, dm_fs := w'\<rparr>)" for root name key host ri
    unfolding daemon_ok_creds_sv by (rule step) (rule inference_keeps(2))
  show "restore_with (env_of d) rt save own pt loaded autostart (dm_sv d) w = (rr, sigs, sv, w') \<Longrightarrow>
      daemon_ok late (d\<lparr>dm_sv := sv, dm_fs := w'\<rparr>)" for rt own pt loaded autostart rr sigs
    by (rule step) (rule all_routes.keeps_restore)
qed (auto intro: daemon_ok_upsert daemon_ok_cert daemon_ok_without daemon_ok_stopped daemon_ok_other daemon_ok_tld_add_state
    daemon_ok_tld_remove daemon_ok_rules daemon_ok_blocks daemon_ok_runner)

section \<open>Where a start leaves the routes\<close>

definition dashboard_entry :: "u16 \<Rightarrow> entry" where
  "dashboard_entry port =
     \<lparr>e_host = dashboard_host, e_target = ''127.0.0.1:'' @ show_nat (unat port), e_source = SourceBuiltin,
      e_mode = ModeHttp, e_container_id = None, e_project = None, e_egress = None\<rparr>"

lemma dashboard_lower [simp]: "to_ascii_lowercase dashboard_host = dashboard_host"
  by (simp add: dashboard_host_def) code_simp

lemma seed_builtin_eq: "seed_builtin_routes port d = with_routes (upsert_route (dashboard_entry port)) d"
  by (simp add: seed_builtin_routes_def dashboard_entry_def)

lemma dashboard_entry_simps [simp]:
  "e_host (dashboard_entry port) = dashboard_host" "e_source (dashboard_entry port) = SourceBuiltin"
  "e_container_id (dashboard_entry port) = None" "e_egress (dashboard_entry port) = None"
  "dashboard_entry port\<lparr>e_host := dashboard_host\<rparr> = dashboard_entry port"
  by (simp_all add: dashboard_entry_def)

lemma builtin_upsert:
  assumes "routes_ok rw"
  shows "route_at (upsert_route (dashboard_entry port) rw) k =
    (if same_host k dashboard_host then Some (dashboard_entry port) else route_at rw k)"
  using assms by (auto simp: route_at_def upsert_route_def routes_ok_def registry_get_upsert same_host_def protected_def)

lemma daemon_ok_seed_builtin:
  assumes "routes_admitted late (env_of d) (routes_of d)"
  shows "daemon_ok late (seed_builtin_routes port d)"
proof -
  have ok: "routes_ok (routes_of d)" using assms by (simp add: routes_admitted_def entries_admitted_def)
  have "entries_admitted late (dm_tlds d) (upsert_route (dashboard_entry port) (routes_of d))"
    using assms by (auto simp: routes_admitted_def entries_admitted_def env_of_def routes_ok_upsert builtin_upsert
        split: if_splits)
  moreover have "builtin_kept dashboard_host (upsert_route (dashboard_entry port) (routes_of d))"
    using ok by (simp add: builtin_kept_def routes_ok_upsert builtin_upsert same_host_def)
  ultimately show ?thesis using assms by (simp add: daemon_ok_iff seed_builtin_eq routes_admitted_def env_of_def)
qed

lemma daemon_ok_seed_routes: "routes_admitted late (env_of d) (routes_of d) \<Longrightarrow> daemon_ok late (seed_routes de bo d)"
  unfolding seed_routes_def Let_def
  by (rule ok.keeps_provision) (simp add: daemon_ok_seed_builtin ok.keeps_seed_static ok.keeps_seed_containers)

lemma daemon_ok_boot:
  assumes "boot_daemon de bo d0 = Inr d" and "routes_admitted late (env_of d0) (routes_of d0)"
  shows "daemon_ok late d"
proof (rule boot_establishes [where J = "\<lambda>d. routes_admitted late (env_of d) (routes_of d)", OF assms])
  fix d r d' assume a: "routes_admitted late (env_of d) (routes_of d)"
  show "configure_managed_broker (de_io de) bo d = (Inr r, d') \<Longrightarrow> routes_admitted late (env_of d') (routes_of d')"
    using a by (auto simp: configure_managed_broker_def env_of_def routes_of_def split: if_splits option.splits sum.splits prod.splits)
next
  fix d r d' assume a: "routes_admitted late (env_of d) (routes_of d)" and r: "restore_daemon de bo True d = (r, d')"
  obtain q sigs sv w where i: "restore_with (env_of d) (de_runtime de) (de_save de) (bo_own bo) (bo_procs bo) (bo_loaded bo)
      True (dm_sv d) (dm_fs d) = (q, sigs, sv, w)" by (metis prod_cases4)
  have "routes_admitted late (env_of d) (sv_routes sv)" using adm.keeps_restore [OF _ i] a by (simp add: routes_of_def)
  with r i show "routes_admitted late (env_of d') (routes_of d')" by (auto simp: restore_daemon_def env_of_def routes_of_def)
qed (rule daemon_ok_seed_routes)

lemma routes_admitted_none: "rw_registry rw = [] \<Longrightarrow> rules_sound (re_static env) \<Longrightarrow> routes_admitted late env rw"
  by (simp add: routes_admitted_def entries_admitted_def routes_ok_def registry_ok_def hm_ok_def route_at_def registry_get_def hm_get_def)

section \<open>Inspections in flight\<close>

definition in_flight_ok :: "string set \<Rightarrow> daemon \<Rightarrow> inspection list \<Rightarrow> bool" where
  "in_flight_ok late d ps \<longleftrightarrow> (\<forall>i\<in>set ps.
     (routable d (in_host i) \<or> to_ascii_lowercase (in_host i) \<in> late) \<and>
     \<not> (in_mode i = ModeTcp \<and> host_is_localhost (in_host i)))"

definition world_ok :: "world \<Rightarrow> bool" where
  "world_ok x \<longleftrightarrow> (case x of (d, ps, late) \<Rightarrow> daemon_ok late d \<and> in_flight_ok late d ps)"

lemma routable_lower_host [simp]: "routable d (to_ascii_lowercase h) = routable d h"
  by (simp add: routable_def)

lemma daemon_ok_late:
  "daemon_ok late d \<Longrightarrow> {h \<in> late. \<not> routable d h} \<subseteq> late' \<Longrightarrow> daemon_ok late' d"
  by (auto simp: daemon_ok_iff routable_def elim: entries_admitted_late)

lemma daemon_ok_landed:
  assumes "daemon_ok late d" and "e_source e = SourceContainer"
    and "routable d (e_host e) \<or> to_ascii_lowercase (e_host e) \<in> late"
    and "\<not> (e_mode e = ModeTcp \<and> host_is_localhost (e_host e))"
  shows "daemon_ok late (with_routes (upsert_route e) d)"
  using assms
  by (auto simp: daemon_ok_iff routable_def entry_admitted_def entries_admitted_upsert builtin_kept_upsert)

lemma land_keeps:
  assumes "daemon_ok late d" and "in_flight_ok late d ps" and "i \<in> set ps"
  shows "daemon_ok late (seed_land dk i d)" "daemon_ok late (start_land dk i d)"
    "dm_tlds (seed_land dk i d) = dm_tlds d" "dm_tlds (start_land dk i d) = dm_tlds d"
  using assms
  by (auto simp: in_flight_ok_def seed_land_def start_land_def Let_def daemon_ok_landed daemon_ok_cert
      split: option.split)

lemma in_flight_settled:
  "in_flight_ok late' d ps \<Longrightarrow> in_flight_ok (overtaken d' ps late) d' ps"
  by (auto simp: in_flight_ok_def overtaken_def inspected_hosts_def)

lemma in_flight_same:
  "in_flight_ok late d ps \<Longrightarrow> dm_tlds d' = dm_tlds d \<Longrightarrow> set ps' \<subseteq> set ps \<Longrightarrow> in_flight_ok late d' ps'"
  unfolding in_flight_ok_def routable_def by auto

lemma settled_ok:
  assumes "daemon_ok late d'" and "in_flight_ok late d ps"
  shows "world_ok (d', ps, overtaken d' ps late)"
  unfolding world_ok_def prod.case
  by (intro conjI in_flight_settled [OF assms(2)] daemon_ok_late [OF assms(1)]) (auto simp: overtaken_def)

lemma pieces_keep_tlds: "dm_tlds (seed_from_static_store d) = dm_tlds d" "dm_tlds (tld_add_finish tld d) = dm_tlds d"
proof -
  show "dm_tlds (seed_from_static_store d) = dm_tlds d"
    unfolding seed_from_static_store_def
    by (rule foldl_inv [where P = "\<lambda>x. dm_tlds x = dm_tlds d"]) (auto simp: seed_static_rule_def split: prod.split)
  have "dm_tlds (provision_certs_under tld d) = dm_tlds d"
    unfolding provision_certs_under_def
    by (rule foldl_inv [where P = "\<lambda>x. dm_tlds x = dm_tlds d"]) (auto simp: Let_def)
  then show "dm_tlds (tld_add_finish tld d) = dm_tlds d" by (simp add: tld_add_finish_def)
qed

lemma seed_routes_keep_tlds: "dm_tlds (seed_routes de bo d) = dm_tlds d"
proof -
  have land: "dm_tlds (seed_land dk i d) = dm_tlds d" for dk i d
    by (simp add: seed_land_def split: option.split)
  have "dm_tlds (seed_from_running_containers dk d) = dm_tlds d" for dk d
    unfolding seed_from_running_containers_def
    by (auto intro!: foldl_inv [where P = "\<lambda>x. dm_tlds x = dm_tlds d"] simp: seed_container_def land split: option.split)
  moreover have "dm_tlds (provision_certs_for_existing d) = dm_tlds d" for d
    unfolding provision_certs_for_existing_def
    by (rule foldl_inv [where P = "\<lambda>x. dm_tlds x = dm_tlds d"]) auto
  ultimately show ?thesis by (simp add: seed_routes_def Let_def pieces_keep_tlds seed_builtin_eq)
qed

lemma world_ok_step: "world_step x y \<Longrightarrow> world_ok x \<Longrightarrow> world_ok y"
proof (induction rule: world_step.induct)
  case (WorldStep d d' ps late)
  then have "daemon_ok late d'" using ok.keeps_step by (simp add: world_ok_def)
  with WorldStep show ?case by (auto simp: world_ok_def [of "(d, ps, late)"] intro: settled_ok)
next
  case (WorldTldBegun de tld md d r d' ps late)
  then have "daemon_ok late d'" using ok.keeps_tld_begin [of late d de tld md r d'] by (simp add: world_ok_def)
  with WorldTldBegun show ?case by (auto simp: world_ok_def [of "(d, ps, late)"] intro: settled_ok)
next
  case (WorldStartChecked cid attrs d i ps late)
  with start_checked [of cid attrs d i] show ?case by (simp add: world_ok_def in_flight_ok_def)
next
  case (WorldSeedChecked d summary i ps late)
  with seed_checked [of d summary i] show ?case by (simp add: world_ok_def in_flight_ok_def)
next
  case (WorldStartLanded i ps d late dk)
  with land_keeps [of late d ps i dk] show ?case
    by (auto simp: world_ok_def elim!: in_flight_same dest: subsetD [OF set_remove1_subset])
next
  case (WorldSeedLanded i ps d late dk)
  with land_keeps [of late d ps i dk] show ?case
    by (auto simp: world_ok_def elim!: in_flight_same dest: subsetD [OF set_remove1_subset])
next
  case (WorldRehydrated d ps late)
  then show ?case by (auto simp: world_ok_def ok.keeps_seed_static pieces_keep_tlds elim!: in_flight_same)
next
  case (WorldTldFinished d ps late tld)
  then show ?case by (auto simp: world_ok_def ok.keeps_tld_finish pieces_keep_tlds elim!: in_flight_same)
qed

lemma world_ok_run: "world_step\<^sup>*\<^sup>* x y \<Longrightarrow> world_ok x \<Longrightarrow> world_ok y"
  by (induction rule: rtranclp_induct) (auto intro: world_ok_step)

text \<open>
  C2: Start the daemon on an empty registry and any static store without TCP rules under
  \<open>.localhost\<close>, and let requests, container events, runner writes and restores follow in any number
  and order, with any faults of the disk, and with anything happening while Docker is asked about a
  container, by the event loop or by the rehydration of an added TLD. Then every entry that is not
  built in belongs to \<open>.localhost\<close> or to a TLD that is managed now (removing a TLD has removed its
  entries), but for the containers of overtaken hosts: those whose TLD was removed while a container
  of theirs was being inspected, and is still not managed. No TCP entry is under \<open>.localhost\<close>, and
  the dashboard's host still has its built-in entry.
\<close>

theorem routes_stay_admitted:
  assumes "boot_daemon de bo d0 = Inr d" and "rw_registry (routes_of d0) = []" and "rules_sound (dm_static d0)"
    and "world_step\<^sup>*\<^sup>* (d, [], {}) (d', ps, late)"
  shows "(\<forall>h e. registry_get (rw_registry (routes_of d')) h = Some e \<longrightarrow> e_source e \<noteq> SourceBuiltin \<longrightarrow>
        (host_is_routable (e_host e) (dm_tlds d') \<or> e_source e = SourceContainer \<and> to_ascii_lowercase (e_host e) \<in> late) \<and>
        (e_mode e = ModeTcp \<longrightarrow> \<not> host_is_localhost (e_host e))) \<and>
     (\<exists>e. registry_get (rw_registry (routes_of d')) dashboard_host = Some e \<and> e_source e = SourceBuiltin)"
proof -
  have "routes_admitted {} (env_of d0) (routes_of d0)" using assms(2,3) by (simp add: routes_admitted_none env_of_def)
  then have "daemon_ok {} d" using daemon_ok_boot [OF assms(1)] by blast
  then have "daemon_ok late d'" using world_ok_run [OF assms(4)] by (simp add: world_ok_def in_flight_ok_def)
  then show ?thesis
    unfolding daemon_ok_iff entries_admitted_def builtin_kept_def entry_admitted_def route_at_def by blast
qed

section \<open>Examples\<close>

definition example_boot :: boot where
  "example_boot = \<lparr>bo_managed = False, bo_dashboard_auth = True, bo_autostart = False, bo_marker = ''/d/managed-broker.json'',
     bo_marker_there = Some False, bo_marker_bytes = Some ''true'', bo_docker_ok = True, bo_own = 1,
     bo_procs = \<lparr>pt_pgid = (\<lambda>_. None), pt_info = (\<lambda>_. None)\<rparr>, bo_loaded = None\<rparr>"

definition example_labels :: labels where
  "example_labels = [(''dev.portman.host'', ''web.test''), (''dev.portman.port'', ''8080'')]"

definition example_docker :: docker where
  "example_docker = \<lparr>dk_list = Some [],
     dk_inspect = (\<lambda>_. Some \<lparr>ci_network = Some \<lparr>dn_ip = Some ''172.17.0.2'', dn_networks = None\<rparr>, ci_labels = Some example_labels\<rparr>)\<rparr>"

definition example_env :: daemon_env where
  "example_env = \<lparr>de_io = no_faults, de_static_path = ''/d/static.json'', de_static_ser = (\<lambda>_. Some ''{}''),
     de_tls_path = ''/d/tls.json'', de_tls_ser = (\<lambda>_. Some ''{}''), de_creds_path = ''/d/credentials.json'',
     de_creds_ser = (\<lambda>_. Some ''{}''), de_save = (\<lambda>p w. (Inr (), w)), de_runtime = example_runtime,
     de_docker = example_docker, de_dashboard_port = 7341\<rparr>"

definition example_rule :: "string \<times> static_rule" where
  "example_rule = (''web.test'', \<lparr>sr_target = ''127.0.0.1:9000'', sr_mode = ModeHttp, sr_service = None, sr_project = None\<rparr>)"

definition example_daemon :: daemon where
  "example_daemon = \<lparr>dm_sv = broker_example\<lparr>sv_managed := False\<rparr>, dm_creds = credentials_default,
     dm_static = \<lparr>ss_version = 2, ss_entries = [example_rule]\<rparr>, dm_tls = tls_default, dm_tlds = [''test''],
     dm_grants = GrantsMissing, dm_logs = \<lparr>tb_rows = [], tb_last = 0\<rparr>, dm_fs = empty_fs\<rparr>"

definition example_event :: "string \<Rightarrow> docker_event" where
  "example_event action = \<lparr>ev_container = True, ev_action = Some action,
     ev_actor = Some (Some ''0123456789abcdef'', Some example_labels)\<rparr>"

abbreviation example_start :: daemon where
  "example_start \<equiv> seed_routes example_env example_boot example_daemon"

abbreviation source_at :: "daemon \<Rightarrow> string \<Rightarrow> source option" where
  "source_at d h \<equiv> map_option e_source (registry_get (rw_registry (routes_of d)) h)"

lemma example_boots: "boot_daemon example_env example_boot example_daemon = Inr example_start"
  by (simp add: boot_daemon_def configure_managed_broker_def example_boot_def)


abbreviation example_routes :: "(string \<times> entry) list \<Rightarrow> daemon" where
  "example_routes es \<equiv> with_routes (\<lambda>rw. rw\<lparr>rw_registry := es\<rparr>) example_daemon"

definition example_entry :: "source \<Rightarrow> string \<times> entry" where
  "example_entry src = (''web.test'', \<lparr>e_host = ''web.test'', e_target = ''127.0.0.1:3000'', e_source = src, e_mode = ModeHttp,
     e_container_id = (if src = SourceContainer then Some ''0123456789ab'' else None), e_project = None, e_egress = None\<rparr>)"

lemma example_container: "source_at (handle_event example_docker (example_event ''start'') (example_routes [])) ''web.test'' = Some SourceContainer"
  by code_simp

lemma tld_add_unroutes_service:
  "source_at (snd (handle_tld_add example_env ''dev'' None (example_routes [example_entry SourceService]))) ''web.test'' = Some SourceStatic"
  by code_simp

lemma stopped_container_leaves_rule:
  "source_at (handle_event example_docker (example_event ''stop'') (example_routes [example_entry SourceContainer])) ''web.test'' = None"
  by code_simp

lemma tld_cycle_unroutes_service:
  "source_at (snd (handle_tld_add example_env ''test'' None (snd (handle_tld_remove ''test''
      (example_routes [example_entry SourceService]\<lparr>dm_static := static_default\<rparr>))))) ''web.test'' = None"
  by code_simp

lemma managed_start_shadows_egress:
  "let d = (example_routes [])\<lparr>dm_sv := broker_example\<rparr>;
       bo = example_boot\<lparr>bo_managed := True, bo_loaded := Some \<lparr>ps_version = 1, ps_services = [], ps_secrets = [],
         ps_egress = [(''api'', own_route ''/a'' (example_egress ''web.test''))]\<rparr>\<rparr>;
       d = snd (restore_daemon example_env bo True d)
   in (source_at d ''web.test'', source_at (seed_from_static_store d) ''web.test'') = (Some SourceEgress, Some SourceStatic)"
  by code_simp

text \<open>A TLD removed while Docker is asked about a container of it.\<close>

definition example_inspection :: inspection where
  "example_inspection = \<lparr>in_cid = ''0123456789abcdef'', in_host = ''web.test'', in_mode = ModeHttp, in_port = ''8080'', in_project = None\<rparr>"

abbreviation overtaken_run :: "daemon \<Rightarrow> daemon" where
  "overtaken_run d \<equiv> start_land example_docker example_inspection (snd (handle_tld_remove ''test'' d :: (unit, unit) response \<times> daemon))"

lemma overtaken_container_stays:
  "start_check ''0123456789abcdef'' (Some example_labels) (example_routes []) = Some example_inspection"
  "source_at (overtaken_run (example_routes [])) ''web.test'' = Some SourceContainer"
  "\<not> routable (overtaken_run (example_routes [])) ''web.test''"
  by code_simp+

lemma example_start_checks: "start_check ''0123456789abcdef'' (Some example_labels) example_start = Some example_inspection"
proof -
  have "dm_tlds example_start = dm_tlds (example_routes [])" by (simp add: seed_routes_keep_tlds)
  then have "routable example_start = routable (example_routes [])" by (simp add: routable_def fun_eq_iff)
  then show ?thesis using overtaken_container_stays(1) unfolding start_check_def by (simp only:)
qed

theorem routes_stay_admitted_witness:
  "\<exists>e. registry_get (rw_registry (routes_of (overtaken_run example_start))) dashboard_host = Some e \<and> e_source e = SourceBuiltin"
proof -
  let ?removed = "snd (handle_tld_remove ''test'' example_start :: (unit, unit) response \<times> daemon)"
  have "rw_registry (routes_of example_daemon) = []" by (simp add: routes_of_def example_daemon_def broker_example_def)
  moreover have "rules_sound (dm_static example_daemon)"
    by (simp add: rules_sound_def example_daemon_def example_rule_def bt_ok_def)
  moreover have "daemon_step example_start (snd (dispatch example_env (ce :: (unit, unit) call_env) (ReqTldRemove ''test'') example_start))" for ce
    by (rule StepRequest)
  then have "daemon_step example_start ?removed" by (simp add: dispatch_def handle_request_def)
  from WorldStep [OF this, of "[example_inspection]" "{}"]
  have "world_step\<^sup>*\<^sup>* (example_start, [], {})
      (overtaken_run example_start, [], overtaken ?removed [example_inspection] {})"
    using WorldStartChecked [OF example_start_checks, of "[]" "{}"]
      WorldStartLanded [of example_inspection "[example_inspection]" ?removed "overtaken ?removed [example_inspection] {}" example_docker]
    by simp
  ultimately show ?thesis using routes_stay_admitted [OF example_boots] by blast
qed

end
