(* ===== verification/Broker.thy ===== *)
theory Broker
  imports Admission
begin

text \<open>
  The managed broker (\<open>--managed-broker\<close>): a daemon that only attaches credentials. Once started
  so, it never gets a service to run, and no entry of its registry attaches a credential for a
  caller without a grant, whatever requests and events follow.
\<close>

section \<open>Entries that ask for a token\<close>

definition tokens_required :: "route_world \<Rightarrow> bool" where
  "tokens_required rw \<longleftrightarrow> routes_ok rw \<and>
     (\<forall>h e spec. route_at rw h = Some e \<longrightarrow> e_egress e = Some spec \<longrightarrow> es_require_caller_token spec)"

definition asks_token :: "egress_route \<Rightarrow> bool" where
  "asks_token r \<longleftrightarrow> es_require_caller_token (er_spec r)"

lemma tokens_upsert:
  "tokens_required rw \<Longrightarrow> e_source e \<noteq> SourceBuiltin \<Longrightarrow> (\<And>spec. e_egress e = Some spec \<Longrightarrow> es_require_caller_token spec)
   \<Longrightarrow> tokens_required (upsert_route e rw)"
  by (auto simp: tokens_required_def routes_ok_upsert route_at_upsert split: if_splits)

lemma tokens_builtin: "tokens_required rw \<Longrightarrow> tokens_required (upsert_route (dashboard_entry port) rw)"
  by (auto simp: tokens_required_def routes_ok_upsert builtin_upsert split: if_splits)

lemma tokens_certs [simp]: "tokens_required (rw\<lparr>rw_certs := c\<rparr>) = tokens_required rw"
  by (simp add: tokens_required_def)

lemma tokens_cert [simp]: "tokens_required (ensure_cert h rw) = tokens_required rw"
  by (simp add: ensure_cert_def)

lemma tokens_without: "tokens_required rw \<Longrightarrow> tokens_required (without g rw)"
  by (auto simp: tokens_required_def routes_ok_without route_at_without split: if_splits)

lemma tokens_without_all: "tokens_required rw \<Longrightarrow> tokens_required (foldl (\<lambda>rw g. without g rw) rw hosts)"
  by (rule foldl_inv) (simp_all add: tokens_without)

lemma tokens_stopped:
  "tokens_required rw \<Longrightarrow> tokens_required (rw\<lparr>rw_registry := snd (registry_remove_by_container_id i (rw_registry rw))\<rparr>)"
  by (auto simp: tokens_required_def routes_ok_stopped route_at_stopped split: option.splits if_splits)

lemma tokens_release: "tokens_required rw \<Longrightarrow> src \<noteq> SourceBuiltin \<Longrightarrow> tokens_required (release_route env src h rw)"
  by (auto simp: tokens_required_def routes_ok_release route_at_release static_entry_def split: if_splits prod.splits)

lemma tokens_egress:
  assumes "tokens_required rw"
  shows "asks_token r \<Longrightarrow> tokens_required (egress_register env r rw)" "tokens_required (egress_deregister env r rw)"
  using assms by (auto simp: egress_register_def egress_deregister_def egress_entry_def asks_token_def
      intro!: tokens_upsert tokens_release)

lemma tokens_registers:
  "tokens_required rw \<Longrightarrow> (\<And>r. r \<in> set rs \<Longrightarrow> asks_token r) \<Longrightarrow> tokens_required (foldl (\<lambda>rw r. egress_register env r rw) rw rs)"
  by (rule foldl_inv) (simp_all add: tokens_egress)

lemma tokens_reroute:
  assumes "tokens_required rw" and "\<And>r. r \<in> set new \<Longrightarrow> asks_token r"
  shows "tokens_required (reroute_egress env removed release new rw)"
proof -
  have dereg: "tokens_required (foldl (\<lambda>rw r. egress_deregister env r rw) rw rs)" if "tokens_required rw" for rw rs
    using that by (rule foldl_inv) (simp add: tokens_egress)
  show ?thesis unfolding reroute_egress_def
    by (rule tokens_registers, intro dereg assms(1), rule assms(2))
qed

section \<open>The broker's supervisor\<close>

definition sv_closed :: "supervisor \<Rightarrow> bool" where
  "sv_closed sv \<longleftrightarrow> sv_managed sv \<and> sv_slots sv = [] \<and> tokens_required (sv_routes sv)"

definition broker_closed :: "daemon \<Rightarrow> bool" where
  "broker_closed d \<longleftrightarrow> sv_closed (dm_sv d)"

lemma no_targets: "sv_slots sv = [] \<Longrightarrow> names \<noteq> [] \<Longrightarrow> expand_targets sv names b \<noteq> Inr ts"
  by (cases names) (simp_all add: expand_targets_def ensure_def bt_contains_def bt_get_def)

lemma closed_services:
  assumes "sv_closed sv"
  shows "up env rt save names sv w = (r, sv', w') \<Longrightarrow> sv' = sv" "down env rt save names sv w = (r, sv', w') \<Longrightarrow> sv' = sv"
    "forget env rt save names sv w = (r, sv', w') \<Longrightarrow> sv' = sv"
proof -
  have c: "sv_managed sv" "sv_slots sv = []" using assms by (simp_all add: sv_closed_def)
  show "up env rt save names sv w = (r, sv', w') \<Longrightarrow> sv' = sv" by (simp add: up_def c)
  show "down env rt save names sv w = (r, sv', w') \<Longrightarrow> sv' = sv"
    by (auto simp: down_def no_targets [OF c(2)] split: if_splits sum.splits)
  show "forget env rt save names sv w = (r, sv', w') \<Longrightarrow> sv' = sv"
    by (auto simp: forget_def no_targets [OF c(2)] split: if_splits sum.splits)
qed

lemma closed_managed_routes:
  assumes "sv_closed sv" and "\<And>n r. (n, r) \<in> set routes \<Longrightarrow> asks_token r"
  shows "sync_managed_routes env save root blocks routes sv w = (r, sv', w') \<Longrightarrow> sv_closed sv'"
  using assms by (auto simp: sv_closed_def sync_managed_routes_def Let_def intro!: tokens_reroute split: sum.splits prod.splits)

lemma closed_sync: "sv_closed sv \<Longrightarrow> sync env rt save root services secrets egress sv w = (r, sv', w') \<Longrightarrow> sv_closed sv'"
proof -
  assume c: "sv_closed sv" and s: "sync env rt save root services secrets egress sv w = (r, sv', w')"
  obtain q sv1 w1 where m: "sync_managed_routes env save root secrets (require_tokens egress) sv w = (q, sv1, w1)"
    by (metis prod_cases3)
  have "sv_closed sv1" using c _ m
    by (rule closed_managed_routes) (auto simp: require_tokens_def asks_token_def)
  with c s m show ?thesis by (auto simp: sync_def sv_closed_def split: if_splits)
qed

lemma closed_blocks:
  assumes "sv_closed sv"
  shows "set_global_block save name config sv w = (r, sv', w') \<Longrightarrow> sv_closed sv'"
    and "remove_global_block save name sv w = (r, sv', w') \<Longrightarrow> sv_closed sv'"
  using assms
  by (auto simp: sv_closed_def set_global_block_def remove_global_block_def install_blocks_def Let_def
      split: if_splits sum.splits prod.splits option.splits)

lemma closed_inference:
  assumes "sv_closed sv"
  shows "install_inference_route env save save_cr root name key val route cr sv w = (r, cr', sv', w') \<Longrightarrow> sv_closed sv'"
    and "remove_inference_route env save save_cr root name key host cr sv w = (r, cr', sv', w') \<Longrightarrow> sv_closed sv'"
proof -
  let ?J = "\<lambda>s. sv_closed (fst s)"
  have save: "?J (snd (vault_save save_cr c s))" if "?J s" for c s
    using that by (cases s) (simp add: vault_save_def split: prod.split)
  have hook: "?J (snd ((\<lambda>(sv, w). sync_managed_routes env save root blocks routes sv w) s))"
    if "?J s" "\<And>n r. (n, r) \<in> set routes \<Longrightarrow> asks_token r" for s blocks routes
    using that closed_managed_routes [of "fst s" routes env save root blocks "snd s"]
    by (cases "sync_managed_routes env save root blocks routes (fst s) (snd s)") (simp add: case_prod_beta)
  have inst: "install_owned_local (vault_save save_cr) key val owned
      (\<lambda>(sv, w). sync_managed_routes env save root blocks [(name, route)] sv w) cr (sv, w) = (x, cr', sv', w') \<Longrightarrow>
      asks_token route \<Longrightarrow> sv_closed sv'" for name key owned blocks x
    by (drule owned_keeps(1) [where I = ?J, rotated 3], erule hook, simp, erule save) (simp_all add: assms)
  have rem: "remove_owned_local (vault_save save_cr) key owned
      (\<lambda>(sv, w). sync_managed_routes env save root [] [] sv w) cr (sv, w) = (x, cr', sv', w') \<Longrightarrow> sv_closed sv'" for owned x
    by (drule owned_keeps(2) [where I = ?J, rotated 3], erule hook, simp, erule save) (simp_all add: assms)
  show "install_inference_route env save save_cr root name key val route cr sv w = (r, cr', sv', w') \<Longrightarrow> sv_closed sv'"
    using assms by (auto simp: install_inference_route_def and_then_Inr ensure_Inr inference_binding_ok_def asks_token_def Let_def
        split: sum.splits prod.splits dest: inst)
  show "remove_inference_route env save save_cr root name key host cr sv w = (r, cr', sv', w') \<Longrightarrow> sv_closed sv'"
    using assms by (auto simp: remove_inference_route_def split: sum.splits prod.splits dest: rem)
qed


lemma closed_restore:
  assumes c: "sv_closed sv" and r: "restore_with env rt save own pt loaded autostart sv w = (r, sigs, sv', w')"
  shows "sv_closed sv'"
proof (cases "loaded = None \<or> (\<exists>p. loaded = Some p \<and> ps_services p \<noteq> [])")
  case True
  with c r show ?thesis by (auto simp: restore_with_def sv_closed_def)
next
  case False
  then obtain p where p: "loaded = Some p" "ps_services p = []" by (cases loaded) auto
  let ?p = "require_persisted_tokens p"
  have "asks_token (peg_route e)" if "(n, e) \<in> set (ps_egress ?p)" for n e
    using that by (auto simp: require_persisted_tokens_def asks_token_def)
  then have t: "tokens_required (foldl (\<lambda>rw (_, e). egress_register env (peg_route e) rw) (sv_routes sv) (ps_egress ?p))"
    by (intro foldl_inv [where P = tokens_required]) (use c in \<open>auto simp: sv_closed_def tokens_egress\<close>)
  have slots: "restore_slots autostart (ps_services ?p) (sv_slots sv) = []"
    using c p(2) by (simp add: require_persisted_tokens_def restore_slots_def bt_extend_def sv_closed_def)
  obtain x v where s: "save_persisted save ?p w = (x, v)" by fastforce
  have m: "sv_managed sv" using c by (simp add: sv_closed_def)
  show ?thesis
  proof (cases x)
    case (Inl err)
    have "restore_with env rt save own pt loaded autostart sv w = (Inl err, [], sv, v)"
      unfolding restore_with_def Let_def by (simp add: m p s Inl)
    with c r show ?thesis by simp
  next
    case (Inr u)
    let ?rw = "foldl (\<lambda>rw (_, e). egress_register env (peg_route e) rw) (sv_routes sv) (ps_egress ?p)"
    obtain sigs' sv1 w1 where "restore_with env rt save own pt loaded autostart sv w = (Inr (), sigs', sv1, w1)"
      "sv_slots sv1 = []" "sv_managed sv1" "sv_routes sv1 = ?rw"
      unfolding restore_with_def Let_def by (simp add: m p s Inr slots)
    with t r show ?thesis by (simp add: sv_closed_def)
  qed
qed

lemma closed_runner:
  "sv_closed sv \<Longrightarrow> runner_step t save name ev (rn, sv, w) = Some (rn', sv', w') \<Longrightarrow> sv_closed sv'"
proof -
  assume c: "sv_closed sv" and r: "runner_step t save name ev (rn, sv, w) = Some (rn', sv', w')"
  have [simp]: "update_slot n f sv = sv" for n f
    using c by (simp add: update_slot_def sv_closed_def bt_get_def)
  have "sv' = sv"
    using r by (auto simp: runner_step_def turn_def wait_step_def wait_show_def back_step_def parked_step_def after_attempt_def
      after_failure_def stopped_def proceed_def set_state_def clear_running_marker_def Let_def
      split: phase.splits list.splits event.splits attempt.splits option.splits prod.splits if_splits)
  with c show ?thesis by simp
qed

section \<open>The broker\<close>

lemma closed_with_routes:
  "broker_closed d \<Longrightarrow> (tokens_required (routes_of d) \<Longrightarrow> tokens_required (f (routes_of d))) \<Longrightarrow> broker_closed (with_routes f d)"
  by (simp add: broker_closed_def sv_closed_def with_routes_def routes_of_def)

lemma closed_upsert: "broker_closed d \<Longrightarrow> e_source e \<noteq> SourceBuiltin \<Longrightarrow> e_egress e = None \<Longrightarrow> broker_closed (with_routes (upsert_route e) d)"
  by (erule closed_with_routes) (rule tokens_upsert, simp_all)

lemma closed_remove_routes: "broker_closed d \<Longrightarrow> broker_closed (remove_routes hosts d)"
  unfolding remove_routes_def without_def [symmetric]
  by (rule foldl_inv) (simp_all add: closed_with_routes tokens_without)

lemma closed_steps:
  assumes "broker_closed d"
  shows "broker_closed (d\<lparr>dm_creds := cr, dm_fs := w\<rparr>)" "broker_closed (d\<lparr>dm_tls := t, dm_fs := w\<rparr>)"
    "broker_closed (d\<lparr>dm_grants := g\<rparr>)" "broker_closed (d\<lparr>dm_logs := l\<rparr>)" "broker_closed (d\<lparr>dm_static := st, dm_fs := w\<rparr>)"
    "broker_closed (tld_add tld d)" "broker_closed (tld_remove tld d)"
  using assms by (simp_all add: broker_closed_def tld_add_def tld_remove_def)

interpretation br: landing_inv broker_closed
proof unfold_locales
  fix d sv w and w' :: fs and cr cr' and save :: "(write_error, fs) saver" and save_cr :: "credentials \<Rightarrow> fs \<Rightarrow> (write_error + unit) \<times> fs"
  assume d: "broker_closed d"
  then have c: "sv_closed (dm_sv d)" by (simp add: broker_closed_def)
  have to: "sv_closed sv \<Longrightarrow> broker_closed (d\<lparr>dm_sv := sv, dm_fs := w'\<rparr>)"
    "sv_closed sv \<Longrightarrow> broker_closed (d\<lparr>dm_creds := cr', dm_sv := sv, dm_fs := w'\<rparr>)" by (simp_all add: broker_closed_def)
  show "sync (env_of d) rt save root services secrets egress (dm_sv d) w = (rs, sv, w') \<Longrightarrow> broker_closed (d\<lparr>dm_sv := sv, dm_fs := w'\<rparr>)"
    for rt root services secrets egress rs by (rule to) (rule closed_sync [OF c])
  show "up (env_of d) rt save names (dm_sv d) w = (ru, sv, w') \<Longrightarrow> broker_closed (d\<lparr>dm_sv := sv, dm_fs := w'\<rparr>)"
    for rt names ru by (rule to) (drule closed_services(1) [OF c], simp add: c)
  show "down (env_of d) rt save names (dm_sv d) w = (ru, sv, w') \<Longrightarrow> broker_closed (d\<lparr>dm_sv := sv, dm_fs := w'\<rparr>)"
    for rt names ru by (rule to) (drule closed_services(2) [OF c], simp add: c)
  show "forget (env_of d) rt save names (dm_sv d) w = (ru, sv, w') \<Longrightarrow> broker_closed (d\<lparr>dm_sv := sv, dm_fs := w'\<rparr>)"
    for rt names ru by (rule to) (drule closed_services(3) [OF c], simp add: c)
  show "set_global_block save name config (dm_sv d) w = (rb, sv, w') \<Longrightarrow> broker_closed (d\<lparr>dm_sv := sv, dm_fs := w'\<rparr>)"
    for name config rb by (rule to) (rule closed_blocks(1) [OF c])
  show "remove_global_block save name (dm_sv d) w = (rb, sv, w') \<Longrightarrow> broker_closed (d\<lparr>dm_sv := sv, dm_fs := w'\<rparr>)"
    for name rb by (rule to) (rule closed_blocks(2) [OF c])
  show "install_inference_route (env_of d) save save_cr root name key val route cr (dm_sv d) w = (ri, cr', sv, w') \<Longrightarrow>
      broker_closed (d\<lparr>dm_creds := cr', dm_sv := sv, dm_fs := w'\<rparr>)" for root name key val route ri
    by (rule to) (rule closed_inference(1) [OF c])
  show "remove_inference_route (env_of d) save save_cr root name key host cr (dm_sv d) w = (ri, cr', sv, w') \<Longrightarrow>
      broker_closed (d\<lparr>dm_creds := cr', dm_sv := sv, dm_fs := w'\<rparr>)" for root name key host ri
    by (rule to) (rule closed_inference(2) [OF c])
  show "runner_step tm save name ev (rn, dm_sv d, w) = Some (rn', sv, w') \<Longrightarrow> broker_closed (d\<lparr>dm_sv := sv, dm_fs := w'\<rparr>)"
    for tm name ev rn rn' by (rule to) (rule closed_runner [OF c])
  show "restore_with (env_of d) rt save own pt loaded autostart (dm_sv d) w = (rr, sigs, sv, w') \<Longrightarrow>
      broker_closed (d\<lparr>dm_sv := sv, dm_fs := w'\<rparr>)" for rt own pt loaded autostart rr sigs
    by (rule to) (rule closed_restore [OF c])
qed (auto intro: closed_steps closed_remove_routes closed_upsert closed_with_routes tokens_without tokens_stopped
    simp: container_stopped_def)


text \<open>
  C4: A daemon started with \<open>--managed-broker\<close> (from a supervisor without services) stays a broker:
  after any requests, events, runner writes, restores and late registrations it is still in managed mode, it has no
  service to run, every request that would start one is refused, and every entry that attaches a
  credential demands a caller's token.
\<close>

theorem managed_broker_closed:
  assumes "boot_daemon de bo d0 = Inr d" and "bo_managed bo" and "rw_registry (routes_of d0) = []"
    and "sv_slots (dm_sv d0) = []" and "world_step\<^sup>*\<^sup>* (d, [], {}) (d', ps, late)"
  shows "sv_managed (dm_sv d') \<and> sv_slots (dm_sv d') = [] \<and>
     start_host de' sn host d' = (Inl StartManaged, d') \<and>
     up env rt save names (dm_sv d') w = (Inl ManagedNoStart, dm_sv d', w) \<and>
     (registry_get (rw_registry (routes_of d')) h = Some e \<longrightarrow> e_egress e = Some spec \<longrightarrow> es_require_caller_token spec)"
proof -
  let ?J = "\<lambda>d. sv_slots (dm_sv d) = [] \<and> tokens_required (routes_of d) \<and> (sv_managed (dm_sv d) \<or> d = d0)"
  have none: "tokens_required (routes_of d0)"
    using assms(3) by (simp add: tokens_required_def routes_ok_def registry_ok_def hm_ok_def route_at_def registry_get_def)
  obtain r d1 where c: "configure_managed_broker (de_io de) bo d0 = (r, d1)" by fastforce
  from assms(1) c obtain u where u: "r = Inr u" by (cases r) (simp_all add: boot_daemon_def)
  have c1: "broker_closed d1"
    using c u assms(2,4) none
    by (auto simp: configure_managed_broker_def broker_closed_def sv_closed_def routes_of_def split: sum.splits prod.splits)
  obtain q d2 where r: "restore_daemon de bo True d1 = (q, d2)" by fastforce
  have c2: "broker_closed d2" using br.keeps_restore_daemon [OF c1, of de bo True] r by simp
  have "d = seed_routes de bo d2"
    using assms(1,2) c u r by (auto simp: boot_daemon_def split: if_splits sum.splits)
  moreover have "broker_closed (seed_routes de bo d2)" unfolding seed_routes_def Let_def seed_builtin_eq
    by (simp add: br.keeps_provision br.keeps_seed_static br.keeps_seed_containers closed_with_routes c2 tokens_builtin)
  ultimately have "broker_closed d'" using br.keeps_world [OF assms(5)] by simp
  then show ?thesis
    by (auto simp: broker_closed_def sv_closed_def start_host_def up_def tokens_required_def routes_of_def route_at_def)
qed

abbreviation broker_boot :: boot where
  "broker_boot \<equiv> example_boot\<lparr>bo_managed := True,
     bo_loaded := Some \<lparr>ps_version = 1, ps_services = [], ps_secrets = [], ps_egress = []\<rparr>\<rparr>"

lemma broker_boots: "\<exists>d. boot_daemon example_env broker_boot example_daemon = Inr d"
proof -
  have "fst (atomic_write_ops no_faults 0 ''/d/managed-broker.json'' (Some ''true'') (Some 0x180) True) = Inr ()" by code_simp
  then obtain w where w: "atomic_write_json_durable no_faults ''/d/managed-broker.json'' (Some ''true'') 0x180 empty_fs = (Inr (), w)"
    by (cases "atomic_write_ops no_faults 0 ''/d/managed-broker.json'' (Some ''true'') (Some 0x180) True")
      (simp add: atomic_write_json_durable_def atomic_write_json_impl_def empty_fs_def Let_def)
  let ?d = "example_daemon\<lparr>dm_sv := (dm_sv example_daemon)\<lparr>sv_managed := True\<rparr>, dm_fs := w\<rparr>"
  have c: "configure_managed_broker no_faults broker_boot example_daemon = (Inr (), ?d)"
    using w by (simp add: configure_managed_broker_def example_boot_def example_daemon_def)
  have "fst (restore_daemon example_env broker_boot True ?d) = Inr ()"
    by (simp add: restore_daemon_def restore_with_def example_env_def example_boot_def example_daemon_def broker_example_def
        require_persisted_tokens_def save_persisted_def restore_slots_def bt_extend_def Let_def)
  then obtain d2 where r: "restore_daemon example_env broker_boot True ?d = (Inr (), d2)"
    by (cases "restore_daemon example_env broker_boot True ?d") simp
  have "de_io example_env = no_faults" "bo_docker_ok broker_boot" "bo_dashboard_auth broker_boot"
    by (simp_all add: example_env_def example_boot_def)
  with c r show ?thesis by (simp add: boot_daemon_def)
qed

theorem managed_broker_closed_witness:
  "\<exists>d. boot_daemon example_env broker_boot example_daemon = Inr d \<and>
     up binder_example example_runtime example_saver [''web''] (dm_sv (handle_event example_docker (example_event ''start'') d)) [] =
       (Inl ManagedNoStart, dm_sv (handle_event example_docker (example_event ''start'') d), [])"
proof -
  obtain d where b: "boot_daemon example_env broker_boot example_daemon = Inr d" using broker_boots by blast
  have "rw_registry (routes_of example_daemon) = []" "sv_slots (dm_sv example_daemon) = []"
    by (simp_all add: routes_of_def example_daemon_def broker_example_def)
  moreover have "world_step\<^sup>*\<^sup>* (d, [], {}) (handle_event example_docker (example_event ''start'') d, [],
      overtaken (handle_event example_docker (example_event ''start'') d) [] {})"
    by (rule r_into_rtranclp, rule WorldStep, rule StepDocker)
  moreover have "bo_managed broker_boot" by simp
  ultimately have "up binder_example example_runtime example_saver [''web''] (dm_sv (handle_event example_docker (example_event ''start'') d)) [] =
      (Inl ManagedNoStart, dm_sv (handle_event example_docker (example_event ''start'') d), [])"
    using managed_broker_closed [OF b, where d' = "handle_event example_docker (example_event ''start'') d" and env = binder_example
      and rt = example_runtime and save = example_saver and names = "[''web'']" and w = "[]"] by simp
  with b show ?thesis by blast
qed

end
