(* ===== verification/Relay.thy ===== *)
theory Relay
  imports Io Egress
begin

text \<open>
  The byte relay between a client and an upstream, \<open>portman-daemon/src/relay.rs\<close>: every request
  head is rewritten, bodies are forwarded by their framing. \<open>httparse\<close> is a parameter. A link
  is the connection pair as the upward direction sees it: the bytes buffered, what the client's
  reads will return, what has been written to the upstream and how many bytes were read; \<open>ok\<close> says
  after which output the upstream still accepts bytes.
\<close>

section \<open>Links\<close>

record link =
  lk_buf :: string
  lk_reads :: "string option list"  \<comment> \<open>\<open>None\<close>: the read fails; the end, or an empty read: end of file\<close>
  lk_out :: string
  lk_count :: u64

datatype relay_error =
  RelayParse | RelayHeadLimit | RelayRead | RelayWrite | RelayLength | RelayShort u64
| RelayChunkLine | RelayChunkSize | RelayLineLimit | RelayClosed

definition max_header_bytes :: nat where
  "max_header_bytes = 16 * 1024"

definition relay_write :: "(string \<Rightarrow> bool) \<Rightarrow> string \<Rightarrow> link \<Rightarrow> (relay_error + unit) \<times> link" where
  "relay_write ok d lk = (if ok (lk_out lk @ d) then (Inr (), lk\<lparr>lk_out := lk_out lk @ d\<rparr>) else (Inl RelayWrite, lk))"

text \<open>A read, appended to the buffer and counted; the answer is whether it was the end of file.\<close>

definition relay_read :: "link \<Rightarrow> (relay_error + bool) \<times> link" where
  "relay_read lk =
     (case lk_reads lk of
        [] \<Rightarrow> (Inr True, lk)
      | None # rs \<Rightarrow> (Inl RelayRead, lk\<lparr>lk_reads := rs\<rparr>)
      | Some d # rs \<Rightarrow>
          (Inr (d = []), lk\<lparr>lk_reads := rs, lk_buf := lk_buf lk @ d, lk_count := lk_count lk + of_nat (length d)\<rparr>))"

text \<open>What the client still sends, as far as its reads succeed.\<close>

fun readable :: "string option list \<Rightarrow> string" where
  "readable (Some (c # d) # rs) = c # d @ readable rs"
| "readable _ = []"

definition pending :: "link \<Rightarrow> string" where
  "pending lk = lk_buf lk @ readable (lk_reads lk)"

section \<open>Fixed-length bodies\<close>

function forward_fixed :: "(string \<Rightarrow> bool) \<Rightarrow> u64 \<Rightarrow> link \<Rightarrow> (relay_error + unit) \<times> link" where
  "forward_fixed ok remaining lk =
     (let n = min (length (lk_buf lk)) (unat remaining) in
      case relay_write ok (take n (lk_buf lk)) lk of
        (Inl e, lk) \<Rightarrow> (Inl e, lk)
      | (Inr _, lk) \<Rightarrow>
          let lk = lk\<lparr>lk_buf := drop n (lk_buf lk)\<rparr>; remaining = remaining - of_nat n in
          if remaining = 0 then (Inr (), lk)
          else (case relay_read lk of
              (Inl e, lk) \<Rightarrow> (Inl e, lk)
            | (Inr eof, lk) \<Rightarrow> if eof then (Inl (RelayShort remaining), lk) else forward_fixed ok remaining lk))"
  by pat_completeness auto
termination
  by (relation "measure (\<lambda>(_, _, lk). length (lk_reads lk))")
    (auto simp: relay_write_def relay_read_def split: if_splits list.splits option.splits)

declare forward_fixed.simps [simp del]

section \<open>Chunked bodies\<close>

fun find_crlf :: "string \<Rightarrow> nat option" where
  "find_crlf (a # b # s) =
     (if a = CHR 0x0D \<and> b = CHR 0x0A then Some 0 else map_option Suc (find_crlf (b # s)))"
| "find_crlf _ = None"

function read_line :: "link \<Rightarrow> (relay_error + nat) \<times> link" where
  "read_line lk =
     (case find_crlf (lk_buf lk) of
        Some pos \<Rightarrow> (Inr pos, lk)
      | None \<Rightarrow>
          if length (lk_buf lk) \<ge> max_header_bytes then (Inl RelayLineLimit, lk)
          else (case relay_read lk of
              (Inl e, lk) \<Rightarrow> (Inl e, lk)
            | (Inr eof, lk) \<Rightarrow> if eof then (Inl RelayClosed, lk) else read_line lk))"
  by pat_completeness auto
termination
  by (relation "measure (\<lambda>lk. length (lk_reads lk))")
    (auto simp: relay_read_def split: list.splits option.splits)

declare read_line.simps [simp del]

function is_utf8 :: "string \<Rightarrow> bool" where
  "is_utf8 s = (if s = [] then True else (case utf8_step s of (ok, n) \<Rightarrow> ok \<and> is_utf8 (drop n s)))"
  by pat_completeness auto
termination
proof (relation "measure length")
  fix s x y assume "s \<noteq> []" "(x, y) = utf8_step s"
  then show "(drop y s, s) \<in> measure length" using utf8_step_pos [of s] by (cases "utf8_step s") simp
qed simp

declare is_utf8.simps [simp del]

definition chunk_size :: "string \<Rightarrow> relay_error + u64" where
  "chunk_size line =
     (if \<not> is_utf8 line then Inl RelayChunkLine
      else ok_or RelayChunkSize (parse_u64_radix 16 (trim (before_char CHR '';'' line))))"

text \<open>How many bytes the loop forwards for a chunk, in 64-bit arithmetic.\<close>

definition chunk_stride :: "nat \<Rightarrow> u64 \<Rightarrow> u64" where
  "chunk_stride line sz = of_nat line + 2 + sz + 2"

partial_function (option) forward_trailers ::
  "(string \<Rightarrow> bool) \<Rightarrow> link \<Rightarrow> ((relay_error + unit) \<times> link) option" where
  "forward_trailers ok lk =
     (case read_line lk of
        (Inl e, lk) \<Rightarrow> Some (Inl e, lk)
      | (Inr trailer, lk) \<Rightarrow>
          (case forward_fixed ok (of_nat trailer + 2) lk of
             (Inl e, lk) \<Rightarrow> Some (Inl e, lk)
           | (Inr _, lk) \<Rightarrow> if trailer = 0 then Some (Inr (), lk) else forward_trailers ok lk))"

text \<open>The loop over the chunks does not end when a stride wraps to zero: then it has no value.\<close>

partial_function (option) forward_chunked ::
  "(string \<Rightarrow> bool) \<Rightarrow> link \<Rightarrow> ((relay_error + unit) \<times> link) option" where
  "forward_chunked ok lk =
     (case read_line lk of
        (Inl e, lk) \<Rightarrow> Some (Inl e, lk)
      | (Inr line, lk) \<Rightarrow>
          (case chunk_size (take line (lk_buf lk)) of
             Inl e \<Rightarrow> Some (Inl e, lk)
           | Inr sz \<Rightarrow>
               if sz = 0 then
                 (case forward_fixed ok (of_nat line + 2) lk of
                    (Inl e, lk) \<Rightarrow> Some (Inl e, lk)
                  | (Inr _, lk) \<Rightarrow> forward_trailers ok lk)
               else (case forward_fixed ok (chunk_stride line sz) lk of
                   (Inl e, lk) \<Rightarrow> Some (Inl e, lk)
                 | (Inr _, lk) \<Rightarrow> forward_chunked ok lk)))"

section \<open>Request heads\<close>

datatype scheme = Http | Https

fun scheme_str :: "scheme \<Rightarrow> string" where
  "scheme_str Http = ''http''"
| "scheme_str Https = ''https''"

text \<open>What \<open>httparse\<close> answers for a buffer: method, path, minor version, headers.\<close>

record http_head =
  hh_method :: "string option"
  hh_path :: "string option"
  hh_version :: "nat option"
  hh_headers :: "(string \<times> string) list"

datatype http_parse = HpError | HpPartial | HpComplete nat http_head

datatype body = BodyFixed u64 | BodyChunked

record parsed_head =
  pd_head :: string
  pd_len :: nat
  pd_body :: body
  pd_upgrade :: bool

definition is_ascii_whitespace :: "char \<Rightarrow> bool" where
  "is_ascii_whitespace c \<longleftrightarrow> c \<in> {CHR 0x20, CHR 0x09, CHR 0x0A, CHR 0x0C, CHR 0x0D}"

definition trim_ascii :: "string \<Rightarrow> string" where
  "trim_ascii s = rev (dropWhile is_ascii_whitespace (rev (dropWhile is_ascii_whitespace s)))"

definition ascii_contains_token :: "string \<Rightarrow> string \<Rightarrow> bool" where
  "ascii_contains_token val tok = list_ex (\<lambda>p. eq_ignore_ascii_case (trim_ascii p) tok) (split_on CHR '','' val)"

definition content_length :: "string \<Rightarrow> relay_error + u64" where
  "content_length val =
     (if is_utf8 val then ok_or RelayLength (parse_u64_radix 10 (trim val)) else Inl RelayLength)"

text \<open>The loop over the headers: the bytes kept so far, the framing, the upgrade and the client's chain.\<close>

record head_scan =
  hs_head :: string
  hs_body :: body
  hs_upgrade :: bool
  hs_for :: "string option"

definition scan_header :: "head_scan \<Rightarrow> string \<times> string \<Rightarrow> relay_error + head_scan" where
  "scan_header st h =
     (case h of (name, val) \<Rightarrow>
        if eq_ignore_ascii_case name ''x-forwarded-proto'' then Inr st
        else if eq_ignore_ascii_case name ''x-forwarded-for'' then Inr (st\<lparr>hs_for := Some val\<rparr>)
        else
          and_then
            (if eq_ignore_ascii_case name ''transfer-encoding'' then
               Inr (if ascii_contains_token val ''chunked'' then st\<lparr>hs_body := BodyChunked\<rparr> else st)
             else if eq_ignore_ascii_case name ''content-length'' then
               (if hs_body st \<noteq> BodyChunked
                then and_then (content_length val) (\<lambda>n. Inr (st\<lparr>hs_body := BodyFixed n\<rparr>)) else Inr st)
             else if eq_ignore_ascii_case name ''upgrade'' then Inr (st\<lparr>hs_upgrade := True\<rparr>)
             else Inr st)
            (\<lambda>st. Inr (st\<lparr>hs_head := hs_head st @ name @ '': '' @ val @ crlf\<rparr>)))"

definition request_line :: "http_head \<Rightarrow> string" where
  "request_line h =
     unwrap_or (hh_method h) ''GET'' @ '' '' @ unwrap_or (hh_path h) ''/'' @ '' HTTP/1.'' @
     (if hh_version h = Some 0 then ''0'' else ''1'')"

definition render_head :: "scheme \<Rightarrow> string \<Rightarrow> nat \<Rightarrow> http_head \<Rightarrow> relay_error + parsed_head" where
  "render_head scheme peer len h =
     and_then (fold_res scan_header
        \<lparr>hs_head = request_line h @ crlf, hs_body = BodyFixed 0, hs_upgrade = False, hs_for = None\<rparr> (hh_headers h)) (\<lambda>st.
       Inr \<lparr>pd_head = hs_head st @ ''X-Forwarded-Proto: '' @ scheme_str scheme @ crlf @ ''X-Forwarded-For: '' @
              (case hs_for st of Some prior \<Rightarrow> prior @ '', '' | None \<Rightarrow> []) @ peer @ crlf @ crlf,
            pd_len = len, pd_body = hs_body st, pd_upgrade = hs_upgrade st\<rparr>)"

definition parse_head ::
  "(string \<Rightarrow> http_parse) \<Rightarrow> scheme \<Rightarrow> string \<Rightarrow> string \<Rightarrow> relay_error + parsed_head option" where
  "parse_head parse scheme peer buf =
     (case parse buf of
        HpError \<Rightarrow> Inl RelayParse
      | HpPartial \<Rightarrow> Inr None
      | HpComplete n h \<Rightarrow> and_then (render_head scheme peer n h) (\<lambda>p. Inr (Some p)))"

section \<open>The loop over requests\<close>

text \<open>Reading until a head is complete; \<open>None\<close> at the end of file.\<close>

function next_head ::
  "(string \<Rightarrow> http_parse) \<Rightarrow> scheme \<Rightarrow> string \<Rightarrow> link \<Rightarrow> (relay_error + parsed_head option) \<times> link" where
  "next_head parse scheme peer lk =
     (case parse_head parse scheme peer (lk_buf lk) of
        Inl e \<Rightarrow> (Inl e, lk)
      | Inr (Some p) \<Rightarrow> (Inr (Some p), lk)
      | Inr None \<Rightarrow>
          if length (lk_buf lk) \<ge> max_header_bytes then (Inl RelayHeadLimit, lk)
          else (case relay_read lk of
              (Inl e, lk) \<Rightarrow> (Inl e, lk)
            | (Inr eof, lk) \<Rightarrow> if eof then (Inr None, lk) else next_head parse scheme peer lk))"
  by pat_completeness auto
termination
  by (relation "measure (\<lambda>(_, _, _, lk). length (lk_reads lk))")
    (auto simp: relay_read_def split: list.splits option.splits)

declare next_head.simps [simp del]

text \<open>\<open>tokio::io::copy\<close> of the rest of the connection.\<close>

function splice :: "(string \<Rightarrow> bool) \<Rightarrow> link \<Rightarrow> (relay_error + unit) \<times> link" where
  "splice ok lk =
     (case relay_read lk of
        (Inl e, lk) \<Rightarrow> (Inl e, lk)
      | (Inr eof, lk) \<Rightarrow>
          if eof then (Inr (), lk)
          else (case relay_write ok (lk_buf lk) lk of
              (Inl e, lk) \<Rightarrow> (Inl e, lk)
            | (Inr _, lk) \<Rightarrow> splice ok (lk\<lparr>lk_buf := []\<rparr>)))"
  by pat_completeness auto
termination
  by (relation "measure (\<lambda>(_, lk). length (lk_reads lk))")
    (auto simp: relay_read_def relay_write_def split: list.splits option.splits if_splits)

declare splice.simps [simp del]

definition forward_body :: "(string \<Rightarrow> bool) \<Rightarrow> body \<Rightarrow> link \<Rightarrow> ((relay_error + unit) \<times> link) option" where
  "forward_body ok b lk =
     (case b of BodyFixed n \<Rightarrow> Some (forward_fixed ok n lk) | BodyChunked \<Rightarrow> forward_chunked ok lk)"

partial_function (option) request_loop ::
  "(string \<Rightarrow> bool) \<Rightarrow> (string \<Rightarrow> http_parse) \<Rightarrow> scheme \<Rightarrow> string \<Rightarrow> link \<Rightarrow> ((relay_error + unit) \<times> link) option" where
  "request_loop ok parse scheme peer lk =
     (case next_head parse scheme peer lk of
        (Inl e, lk) \<Rightarrow> Some (Inl e, lk)
      | (Inr None, lk) \<Rightarrow> Some (relay_write ok (lk_buf lk) lk)
      | (Inr (Some p), lk) \<Rightarrow>
          (case relay_write ok (pd_head p) lk of
             (Inl e, lk) \<Rightarrow> Some (Inl e, lk)
           | (Inr _, lk) \<Rightarrow>
               let lk = lk\<lparr>lk_buf := drop (pd_len p) (lk_buf lk)\<rparr> in
               if pd_upgrade p then
                 (case relay_write ok (lk_buf lk) lk of
                    (Inl e, lk) \<Rightarrow> Some (Inl e, lk)
                  | (Inr _, lk) \<Rightarrow> Some (splice ok (lk\<lparr>lk_buf := []\<rparr>)))
               else
                 Option.bind (forward_body ok (pd_body p) lk) (\<lambda>(r, lk).
                   case r of Inl e \<Rightarrow> Some (Inl e, lk) | Inr _ \<Rightarrow> request_loop ok parse scheme peer lk)))"

definition forward_requests ::
  "(string \<Rightarrow> bool) \<Rightarrow> (string \<Rightarrow> http_parse) \<Rightarrow> scheme \<Rightarrow> string \<Rightarrow> string \<Rightarrow> string option list
   \<Rightarrow> ((relay_error + u64) \<times> string) option" where
  "forward_requests ok parse scheme peer initial reads =
     map_option (\<lambda>(r, lk). (and_then r (\<lambda>_. Inr (lk_count lk)), lk_out lk))
       (request_loop ok parse scheme peer
          \<lparr>lk_buf = initial, lk_reads = reads, lk_out = [], lk_count = of_nat (length initial)\<rparr>)"

section \<open>What is forwarded\<close>

text \<open>The framing of RFC 9112 on a whole byte stream, with chunk lengths as natural numbers.\<close>

inductive trailer_section :: "string \<Rightarrow> string \<Rightarrow> string \<Rightarrow> bool" where
  TrailerEnd: "find_crlf s = Some 0 \<Longrightarrow> trailer_section s (take 2 s) (drop 2 s)"
| TrailerLine: "find_crlf s = Some n \<Longrightarrow> n \<noteq> 0 \<Longrightarrow> trailer_section (drop (n + 2) s) b r \<Longrightarrow>
    trailer_section s (take (n + 2) s @ b) r"

inductive chunked_body :: "string \<Rightarrow> string \<Rightarrow> string \<Rightarrow> bool" where
  ChunkLast: "find_crlf s = Some n \<Longrightarrow> chunk_size (take n s) = Inr 0 \<Longrightarrow> trailer_section (drop (n + 2) s) b r \<Longrightarrow>
    chunked_body s (take (n + 2) s @ b) r"
| ChunkData: "find_crlf s = Some n \<Longrightarrow> chunk_size (take n s) = Inr z \<Longrightarrow> z \<noteq> 0 \<Longrightarrow> k = n + 2 + unat z + 2 \<Longrightarrow>
    k \<le> length s \<Longrightarrow> chunked_body (drop k s) b r \<Longrightarrow> chunked_body s (take k s @ b) r"

definition framed :: "body \<Rightarrow> string \<Rightarrow> string \<Rightarrow> string \<Rightarrow> bool" where
  "framed bd s b r \<longleftrightarrow>
     (case bd of BodyFixed n \<Rightarrow> unat n \<le> length s \<and> b = take (unat n) s \<and> r = drop (unat n) s
      | BodyChunked \<Rightarrow> chunked_body s b r)"

inductive relayed :: "(string \<Rightarrow> http_parse) \<Rightarrow> scheme \<Rightarrow> string \<Rightarrow> string \<Rightarrow> string \<Rightarrow> bool"
  for parse scheme peer where
  RelayedEnd: "parse_head parse scheme peer s = Inr None \<Longrightarrow> relayed parse scheme peer s s"
| RelayedUpgrade: "parse_head parse scheme peer s = Inr (Some p) \<Longrightarrow> pd_upgrade p \<Longrightarrow>
    relayed parse scheme peer s (pd_head p @ drop (pd_len p) s)"
| RelayedRequest: "parse_head parse scheme peer s = Inr (Some p) \<Longrightarrow> \<not> pd_upgrade p \<Longrightarrow>
    framed (pd_body p) (drop (pd_len p) s) b r \<Longrightarrow> relayed parse scheme peer r out \<Longrightarrow>
    relayed parse scheme peer s (pd_head p @ b @ out)"

text \<open>No chunk of the stream has a length whose stride exceeds 64 bits.\<close>

definition strides_fit :: "string \<Rightarrow> bool" where
  "strides_fit s \<longleftrightarrow> length s < 2 ^ 63 \<and>
     (\<forall>a t n z. s = a @ t \<longrightarrow> find_crlf t = Some n \<longrightarrow> chunk_size (take n t) = Inr z \<longrightarrow> n + 2 + unat z + 2 < 2 ^ 64)"

text \<open>What the sources rely on of \<open>httparse\<close>: a complete head is not empty and stays what it is.\<close>

definition parse_stable :: "(string \<Rightarrow> http_parse) \<Rightarrow> bool" where
  "parse_stable parse \<longleftrightarrow>
     (\<forall>b n h. parse b = HpComplete n h \<longrightarrow> 0 < n \<and> n \<le> length b \<and> (\<forall>x. parse (b @ x) = HpComplete n h))"

lemma strides_fit_suffix: "strides_fit (a @ t) \<Longrightarrow> strides_fit t"
  unfolding strides_fit_def by (auto, metis append.assoc)

lemma strides_fit_drop: "strides_fit s \<Longrightarrow> strides_fit (drop k s)"
  by (rule strides_fit_suffix [of "take k s"]) simp

section \<open>Reads and writes\<close>

lemma relay_write_Inr: "relay_write ok d lk = (Inr u, lk') \<longleftrightarrow> ok (lk_out lk @ d) \<and> lk' = lk\<lparr>lk_out := lk_out lk @ d\<rparr>"
  by (auto simp: relay_write_def)

lemma relay_read_more:
  assumes "relay_read lk = (Inr False, lk')"
  shows "pending lk' = pending lk" "lk_out lk' = lk_out lk" "length (lk_reads lk') < length (lk_reads lk)"
    "\<exists>d. lk_buf lk' = lk_buf lk @ d \<and> d \<noteq> [] \<and> readable (lk_reads lk) = d @ readable (lk_reads lk')"
  using assms by (auto simp: relay_read_def pending_def neq_Nil_conv split: list.splits option.splits)

lemma relay_read_eof: "relay_read lk = (Inr True, lk') \<Longrightarrow> readable (lk_reads lk) = [] \<and> lk_buf lk' = lk_buf lk \<and> lk_out lk' = lk_out lk"
  by (auto simp: relay_read_def split: list.splits option.splits)

lemma pending_write [simp]: "pending (lk\<lparr>lk_out := out\<rparr>) = pending lk"
  by (simp add: pending_def)

lemma pending_drop: "n \<le> length (lk_buf lk) \<Longrightarrow> pending (lk\<lparr>lk_buf := drop n (lk_buf lk)\<rparr>) = drop n (pending lk)"
  by (simp add: pending_def)

text \<open>Fixed bodies: exactly so many bytes of the stream, however they arrive.\<close>

definition fixed_step :: "u64 \<Rightarrow> link \<Rightarrow> nat \<times> link" where
  "fixed_step n lk =
     (let m = min (length (lk_buf lk)) (unat n) in (m, lk\<lparr>lk_out := lk_out lk @ take m (lk_buf lk), lk_buf := drop m (lk_buf lk)\<rparr>))"

lemma forward_fixed_unfold:
  assumes "fixed_step n lk = (m, lk1)"
  shows "forward_fixed ok n lk =
    (if \<not> ok (lk_out lk1) then (Inl RelayWrite, lk)
     else if n - of_nat m = 0 then (Inr (), lk1)
     else (case relay_read lk1 of
         (Inl e, lk) \<Rightarrow> (Inl e, lk)
       | (Inr eof, lk) \<Rightarrow> if eof then (Inl (RelayShort (n - of_nat m)), lk) else forward_fixed ok (n - of_nat m) lk))"
  using assms by (subst forward_fixed.simps) (auto simp: relay_write_def fixed_step_def Let_def)

lemma fixed_step_rest:
  assumes "fixed_step n lk = (m, lk1)"
  shows "m \<le> unat n" "unat (n - of_nat m) = unat n - m" "pending lk1 = drop m (pending lk)" "m \<le> length (pending lk)"
    "lk_out lk1 = lk_out lk @ take m (pending lk)" "lk_reads lk1 = lk_reads lk"
    "unat n \<noteq> m \<Longrightarrow> lk_buf lk1 = []"
proof -
  show le: "m \<le> unat n" using assms by (auto simp: fixed_step_def Let_def)
  moreover have "unat n < 2 ^ 64" using unsigned_less [of n, where 'a = nat] by simp
  ultimately have "m < 2 ^ 64" by simp
  then have "unat (of_nat m :: u64) = m" by (simp add: unat_of_nat)
  with le show "unat (n - of_nat m) = unat n - m" by (simp add: unat_sub word_le_nat_alt)
qed (use assms in \<open>auto simp: fixed_step_def Let_def pending_def\<close>)

lemma forward_fixed_exact:
  assumes "forward_fixed ok n lk = (Inr u, lk')"
  shows "unat n \<le> length (pending lk) \<and> lk_out lk' = lk_out lk @ take (unat n) (pending lk) \<and>
    pending lk' = drop (unat n) (pending lk)"
  using assms
proof (induction "length (lk_reads lk)" arbitrary: lk n rule: less_induct)
  case less
  obtain m lk1 where s: "fixed_step n lk = (m, lk1)" by fastforce
  note rest = fixed_step_rest [OF s]
  show ?case
  proof (cases "n - of_nat m = 0")
    case True
    with less.prems have "lk' = lk1" by (simp add: forward_fixed_unfold [OF s] split: if_splits)
    moreover have "unat n = m" using True rest(1,2) by simp
    ultimately show ?thesis using rest by simp
  next
    case False
    with less.prems obtain lk2 where r: "relay_read lk1 = (Inr False, lk2)" and f: "forward_fixed ok (n - of_nat m) lk2 = (Inr u, lk')"
      by (auto simp: forward_fixed_unfold [OF s] split: if_splits sum.splits prod.splits)
    note more = relay_read_more [OF r]
    have "unat (n - of_nat m) \<le> length (pending lk2) \<and> lk_out lk' = lk_out lk2 @ take (unat (n - of_nat m)) (pending lk2) \<and>
        pending lk' = drop (unat (n - of_nat m)) (pending lk2)"
      using less.hyps [OF _ f] more(3) rest(6) by simp
    then have "unat n - m \<le> length (pending lk) - m" "lk_out lk' = lk_out lk @ take (unat n) (pending lk)"
      "pending lk' = drop (unat n) (pending lk)"
      using rest(1) by (simp_all add: rest more(1,2) flip: take_add)
    with rest(4) show ?thesis by arith
  qed
qed

text \<open>Lines.\<close>

lemma find_crlf_append: "find_crlf s = Some n \<Longrightarrow> find_crlf (s @ x) = Some n"
  by (induction s arbitrary: n rule: find_crlf.induct) (auto split: if_splits)

lemma find_crlf_length: "find_crlf s = Some n \<Longrightarrow> n + 2 \<le> length s"
  by (induction s arbitrary: n rule: find_crlf.induct) (fastforce split: if_splits)+

lemma read_line_exact:
  assumes "read_line lk = (Inr n, lk')"
  shows "pending lk' = pending lk" "lk_out lk' = lk_out lk" "find_crlf (pending lk) = Some n"
    "take n (lk_buf lk') = take n (pending lk)"
proof -
  have "pending lk' = pending lk \<and> lk_out lk' = lk_out lk \<and> find_crlf (lk_buf lk') = Some n"
    using assms
  proof (induction lk rule: read_line.induct)
    case (1 lk)
    show ?case
    proof (cases "find_crlf (lk_buf lk)")
      case (Some pos)
      with 1(2) show ?thesis by (simp add: read_line.simps [of lk])
    next
      case None
      with 1(2) obtain lk2 where r: "relay_read lk = (Inr False, lk2)" and f: "read_line lk2 = (Inr n, lk')"
        and l: "\<not> max_header_bytes \<le> length (lk_buf lk)"
        by (auto simp: read_line.simps [of lk] split: if_splits sum.splits prod.splits)
      from 1(1) [OF None l r [symmetric] refl _ f] relay_read_more [OF r] show ?thesis by simp
    qed
  qed
  moreover have "take n (lk_buf lk') = take n (pending lk')" "find_crlf (pending lk') = Some n" if "find_crlf (lk_buf lk') = Some n"
    using find_crlf_append [OF that] find_crlf_length [OF that] by (simp_all add: pending_def)
  ultimately show "pending lk' = pending lk" "lk_out lk' = lk_out lk" "find_crlf (pending lk) = Some n"
    "take n (lk_buf lk') = take n (pending lk)" by simp_all
qed

lemma unat_of_nat_64: "n < 2 ^ 64 \<Longrightarrow> unat (of_nat n :: u64) = n"
  by (simp add: unat_of_nat)

lemma unat_add_64: "unat (a :: u64) + unat b < 2 ^ 64 \<Longrightarrow> unat (a + b) = unat a + unat b"
  by (subst unat_add_lem [symmetric]) simp

lemma chunk_stride_fits: "n + 2 + unat z + 2 < 2 ^ 64 \<Longrightarrow> unat (chunk_stride n z) = n + 2 + unat z + 2"
  by (simp add: chunk_stride_def unat_add_64 unat_of_nat_64)

lemma line_fits: "n + 2 < 2 ^ 64 \<Longrightarrow> unat (of_nat n + 2 :: u64) = n + 2"
  by (simp add: unat_add_64 unat_of_nat_64)

section \<open>Chunked bodies end and are forwarded whole\<close>

lemma forward_trailers_exact:
  assumes "strides_fit (pending lk)"
  shows "\<exists>r lk'. forward_trailers ok lk = Some (r, lk') \<and>
    (\<forall>u. r = Inr u \<longrightarrow> (\<exists>b. trailer_section (pending lk) b (pending lk') \<and> lk_out lk' = lk_out lk @ b))"
  using assms
proof (induction "length (pending lk)" arbitrary: lk rule: less_induct)
  case less
  obtain l lk1 where l: "read_line lk = (l, lk1)" by fastforce
  show ?case
  proof (cases l)
    case (Inl e)
    with l show ?thesis by (simp add: forward_trailers.simps [of ok lk])
  next
    case (Inr n)
    note line = read_line_exact [OF l [unfolded Inr]]
    obtain f lk2 where f: "forward_fixed ok (of_nat n + 2) lk1 = (f, lk2)" by fastforce
    show ?thesis
    proof (cases f)
      case (Inl e)
      with l f Inr show ?thesis by (simp add: forward_trailers.simps [of ok lk])
    next
      case f': (Inr u)
      have n: "n + 2 \<le> length (pending lk)" using find_crlf_length [OF line(3)] .
      then have "unat (of_nat n + 2 :: u64) = n + 2" using less.prems by (intro line_fits) (simp add: strides_fit_def)
      with forward_fixed_exact [OF f [unfolded f']] line(1,2)
      have fx: "lk_out lk2 = lk_out lk @ take (n + 2) (pending lk)" "pending lk2 = drop (n + 2) (pending lk)" by simp_all
      show ?thesis
      proof (cases "n = 0")
        case True
        then have "trailer_section (pending lk) (take 2 (pending lk)) (pending lk2)"
          using TrailerEnd [of "pending lk"] line(3) fx(2) by (simp add: numeral_2_eq_2)
        with l f Inr f' True fx(1) show ?thesis by (simp add: forward_trailers.simps [of ok lk] numeral_2_eq_2)
      next
        case False
        have "length (pending lk2) < length (pending lk)" using fx(2) n by simp
        from less.hyps [OF this] strides_fit_drop [OF less.prems] fx(2)
        obtain r lk' where r: "forward_trailers ok lk2 = Some (r, lk')"
          and b: "\<And>u. r = Inr u \<Longrightarrow> \<exists>b. trailer_section (pending lk2) b (pending lk') \<and> lk_out lk' = lk_out lk2 @ b" by metis
        have "\<exists>b. trailer_section (pending lk) b (pending lk') \<and> lk_out lk' = lk_out lk @ b" if "r = Inr u" for u
          using b [OF that] TrailerLine [OF line(3) False] fx by fastforce
        with l f Inr f' False r show ?thesis by (simp add: forward_trailers.simps [of ok lk])
      qed
    qed
  qed
qed

lemma forward_chunked_exact:
  assumes "strides_fit (pending lk)"
  shows "\<exists>r lk'. forward_chunked ok lk = Some (r, lk') \<and>
    (\<forall>u. r = Inr u \<longrightarrow> (\<exists>b. chunked_body (pending lk) b (pending lk') \<and> lk_out lk' = lk_out lk @ b))"
  using assms
proof (induction "length (pending lk)" arbitrary: lk rule: less_induct)
  case less
  let ?s = "pending lk"
  obtain l lk1 where l: "read_line lk = (l, lk1)" by fastforce
  note unfold = forward_chunked.simps [of ok lk]
  show ?case
  proof (cases "\<exists>n z. l = Inr n \<and> chunk_size (take n (lk_buf lk1)) = Inr z")
    case False
    with l show ?thesis by (cases l; cases "chunk_size (take (projr l) (lk_buf lk1))") (simp_all add: unfold)
  next
    case True
    then obtain n z where n: "l = Inr n" and z': "chunk_size (take n (lk_buf lk1)) = Inr z" by blast
    note line = read_line_exact [OF l [unfolded n]]
    have z: "chunk_size (take n ?s) = Inr z" using z' line(4) by simp
    have fits: "n + 2 + unat z + 2 < 2 ^ 64" using less.prems line(3) z unfolding strides_fit_def by (metis append_Nil)
    have n_le: "n + 2 \<le> length ?s" using find_crlf_length [OF line(3)] .
    define len where "len = (if z = 0 then of_nat n + 2 else chunk_stride n z)"
    have len: "unat len = (if z = 0 then n + 2 else n + 2 + unat z + 2)"
      using fits by (simp add: len_def chunk_stride_fits line_fits del: of_nat_add)
    obtain f lk2 where f: "forward_fixed ok len lk1 = (f, lk2)" by fastforce
    show ?thesis
    proof (cases f)
      case (Inl e)
      with l f n z' show ?thesis by (cases "z = 0") (simp_all add: unfold len_def)
    next
      case f': (Inr u)
      have fx: "unat len \<le> length ?s" "lk_out lk2 = lk_out lk @ take (unat len) ?s" "pending lk2 = drop (unat len) ?s"
        using forward_fixed_exact [OF f [unfolded f']] line(1,2) by simp_all
      have fit2: "strides_fit (pending lk2)" using strides_fit_drop [OF less.prems] fx(3) by simp
      show ?thesis
      proof (cases "z = 0")
        case True
        obtain r lk' where r: "forward_trailers ok lk2 = Some (r, lk')"
          and b: "\<And>u. r = Inr u \<Longrightarrow> \<exists>b. trailer_section (pending lk2) b (pending lk') \<and> lk_out lk' = lk_out lk2 @ b"
          using forward_trailers_exact [OF fit2] by metis
        have "\<exists>b. chunked_body ?s b (pending lk') \<and> lk_out lk' = lk_out lk @ b" if "r = Inr u" for u
          using b [OF that] ChunkLast [OF line(3), of "_" "pending lk'"] z True fx len by fastforce
        with l n z' True f f' r show ?thesis by (simp add: unfold len_def)
      next
        case False
        have "length (pending lk2) < length ?s" using fx(1,3) len by (simp split: if_splits)
        from less.hyps [OF this fit2] obtain r lk' where r: "forward_chunked ok lk2 = Some (r, lk')"
          and b: "\<And>u. r = Inr u \<Longrightarrow> \<exists>b. chunked_body (pending lk2) b (pending lk') \<and> lk_out lk' = lk_out lk2 @ b" by metis
        have "\<exists>b. chunked_body ?s b (pending lk') \<and> lk_out lk' = lk_out lk @ b" if "r = Inr u" for u
          using b [OF that] ChunkData [OF line(3) z False, of "unat len" _ "pending lk'"] False fx len by fastforce
        with l n z' False f f' r show ?thesis by (simp add: unfold len_def)
      qed
    qed
  qed
qed

lemma trailer_section_splits: "trailer_section s b r \<Longrightarrow> s = b @ r"
  by (induction rule: trailer_section.induct) (simp_all, metis append_take_drop_id append.assoc)

lemma chunked_body_splits: "chunked_body s b r \<Longrightarrow> s = b @ r"
  by (induction rule: chunked_body.induct) (metis trailer_section_splits append_take_drop_id append.assoc)+

lemma framed_splits: "framed bd s b r \<Longrightarrow> s = b @ r"
  by (auto simp: framed_def chunked_body_splits split: body.splits)

lemma forward_body_exact:
  assumes "strides_fit (pending lk)"
  shows "\<exists>r lk'. forward_body ok bd lk = Some (r, lk') \<and>
    (\<forall>u. r = Inr u \<longrightarrow> (\<exists>b. framed bd (pending lk) b (pending lk') \<and> lk_out lk' = lk_out lk @ b))"
proof (cases bd)
  case (BodyFixed n)
  obtain r lk' where "forward_fixed ok n lk = (r, lk')" by fastforce
  with BodyFixed forward_fixed_exact [of ok n lk _ lk'] show ?thesis by (auto simp: forward_body_def framed_def)
next
  case BodyChunked
  with forward_chunked_exact [OF assms] show ?thesis by (simp add: forward_body_def framed_def)
qed

section \<open>The loop ends and forwards the stream\<close>

lemma next_head_exact:
  assumes "next_head parse scheme peer lk = (Inr q, lk')"
  shows "lk_out lk' = lk_out lk \<and> parse_head parse scheme peer (lk_buf lk') = Inr q \<and>
    (if q = None then lk_buf lk' else pending lk') = pending lk"
  using assms
proof (induction parse scheme peer lk rule: next_head.induct)
  case (1 parse scheme peer lk)
  obtain ph where ph: "parse_head parse scheme peer (lk_buf lk) = ph" by simp
  show ?case
  proof (cases "ph = Inr None")
    case False
    with 1(2) ph show ?thesis by (auto simp: next_head.simps [of _ _ _ lk] split: sum.splits option.splits)
  next
    case True
    obtain x lk2 where r: "relay_read lk = (x, lk2)" by fastforce
    have l: "\<not> max_header_bytes \<le> length (lk_buf lk)" using 1(2) ph True by (auto simp: next_head.simps [of _ _ _ lk])
    consider "x = Inr True" "q = None" "lk' = lk2" | "x = Inr False" "next_head parse scheme peer lk2 = (Inr q, lk')"
      using 1(2) ph True r l by (auto simp: next_head.simps [of _ _ _ lk] split: if_splits sum.splits)
    then show ?thesis
    proof cases
      case 1
      with relay_read_eof r ph True show ?thesis by (simp add: pending_def)
    next
      case 2
      from 1(1) [OF ph [unfolded True] refl l r [symmetric, unfolded 2(1)] refl _ 2(2)] relay_read_more [OF r [unfolded 2(1)]]
      show ?thesis by simp
    qed
  qed
qed

lemma parse_head_stable:
  assumes "parse_stable parse" and "parse_head parse scheme peer b = Inr (Some p)"
  shows "0 < pd_len p \<and> pd_len p \<le> length b \<and> parse_head parse scheme peer (b @ x) = Inr (Some p)"
proof -
  from assms(2) obtain n h where c: "parse b = HpComplete n h" "render_head scheme peer n h = Inr p"
    by (auto simp: parse_head_def and_then_Inr split: http_parse.splits)
  have "parse (b @ x) = HpComplete n h" "0 < n" "n \<le> length b" using assms(1) c(1) by (auto simp: parse_stable_def)
  moreover have "pd_len p = n" using c(2) by (auto simp: render_head_def and_then_Inr)
  ultimately show ?thesis using c(2) by (simp add: parse_head_def)
qed

lemma splice_exact:
  assumes "splice ok lk = (Inr u, lk')" and "lk_buf lk = []"
  shows "lk_out lk' = lk_out lk @ readable (lk_reads lk)"
  using assms
proof (induction "length (lk_reads lk)" arbitrary: lk rule: less_induct)
  case less
  obtain x lk1 where r: "relay_read lk = (x, lk1)" by fastforce
  consider "x = Inr True" "lk' = lk1" | "x = Inr False" "splice ok (lk1\<lparr>lk_out := lk_out lk1 @ lk_buf lk1, lk_buf := []\<rparr>) = (Inr u, lk')"
    using less.prems(1) r by (auto simp: splice.simps [of ok lk] relay_write_def split: sum.splits if_splits)
  then show ?case
  proof cases
    case 1
    with relay_read_eof r show ?thesis by simp
  next
    case 2
    note more = relay_read_more [OF r [unfolded 2(1)]]
    have "lk_out lk' = lk_out lk1 @ lk_buf lk1 @ readable (lk_reads lk1)"
      using less.hyps [OF _ 2(2)] more(3) by simp
    with more(2,4) less.prems(2) show ?thesis by auto
  qed
qed

lemma request_loop_exact:
  assumes "parse_stable parse" and "strides_fit (pending lk)"
  shows "\<exists>r lk'. request_loop ok parse scheme peer lk = Some (r, lk') \<and>
    (\<forall>u. r = Inr u \<longrightarrow> (\<exists>out. relayed parse scheme peer (pending lk) out \<and> lk_out lk' = lk_out lk @ out))"
  using assms(2)
proof (induction "length (pending lk)" arbitrary: lk rule: less_induct)
  case less
  note unfold = request_loop.simps [of ok parse scheme peer lk]
  let ?s = "pending lk"
  obtain x lk1 where h: "next_head parse scheme peer lk = (x, lk1)" by fastforce
  consider e where "x = Inl e" | "x = Inr None" | p where "x = Inr (Some p)"
    by (metis obj_sumE option.exhaust)
  then show ?case
  proof cases
    case 1
    with h show ?thesis by (simp add: unfold)
  next
    case 2
    note head = next_head_exact [OF h [unfolded 2]]
    have "relayed parse scheme peer ?s ?s" using head by (intro RelayedEnd) auto
    with 2 h head show ?thesis by (auto simp: unfold relay_write_def)
  next
    case (3 p)
    note head = next_head_exact [OF h [unfolded 3]]
    have ph: "0 < pd_len p" "pd_len p \<le> length (lk_buf lk1)" "parse_head parse scheme peer ?s = Inr (Some p)"
      using parse_head_stable [OF assms(1), of scheme peer "lk_buf lk1" p "readable (lk_reads lk1)"] head
      by (simp_all add: pending_def)
    define lk2 where "lk2 = lk1\<lparr>lk_out := lk_out lk @ pd_head p, lk_buf := drop (pd_len p) (lk_buf lk1)\<rparr>"
    have "pending lk2 = drop (pd_len p) (pending lk1)" using ph(2) by (simp add: lk2_def pending_def)
    then have p2: "pending lk2 = drop (pd_len p) ?s" "lk_out lk2 = lk_out lk @ pd_head p"
      using head by (simp_all add: lk2_def)
    show ?thesis
    proof (cases "ok (lk_out lk @ pd_head p)")
      case False
      with 3 h head show ?thesis by (simp add: unfold relay_write_def)
    next
      case True
      note loop = unfold [unfolded h 3 prod.case sum.case option.case]
      have step: "request_loop ok parse scheme peer lk =
          (if pd_upgrade p then
             (if ok (lk_out lk2 @ lk_buf lk2) then Some (splice ok (lk2\<lparr>lk_out := lk_out lk2 @ lk_buf lk2, lk_buf := []\<rparr>))
              else Some (Inl RelayWrite, lk2))
           else Option.bind (forward_body ok (pd_body p) lk2) (\<lambda>(r, lk).
             case r of Inl e \<Rightarrow> Some (Inl e, lk) | Inr _ \<Rightarrow> request_loop ok parse scheme peer lk))"
        using True head by (simp add: loop relay_write_def lk2_def Let_def)
      show ?thesis
      proof (cases "pd_upgrade p")
        case up: True
        have "relayed parse scheme peer ?s (pd_head p @ lk_buf lk2 @ readable (lk_reads lk2))"
          using RelayedUpgrade [OF ph(3) up] p2(1) by (simp add: pending_def)
        with up splice_exact [of ok "lk2\<lparr>lk_out := lk_out lk2 @ lk_buf lk2, lk_buf := []\<rparr>"] p2(2) show ?thesis
          by (cases "splice ok (lk2\<lparr>lk_out := lk_out lk2 @ lk_buf lk2, lk_buf := []\<rparr>)") (auto simp: step)
      next
        case no: False
        have fit2: "strides_fit (pending lk2)" using strides_fit_drop [OF less.prems] p2(1) by simp
        from forward_body_exact [OF this] obtain r lk3 where b: "forward_body ok (pd_body p) lk2 = Some (r, lk3)"
          and f: "\<And>u. r = Inr u \<Longrightarrow> \<exists>b. framed (pd_body p) (pending lk2) b (pending lk3) \<and> lk_out lk3 = lk_out lk2 @ b" by metis
        show ?thesis
        proof (cases r)
          case (Inl e)
          with b no show ?thesis by (simp add: step)
        next
          case (Inr u)
          from f [OF this] obtain bs where bs: "framed (pd_body p) (pending lk2) bs (pending lk3)" "lk_out lk3 = lk_out lk2 @ bs" by blast
          have split: "pending lk2 = bs @ pending lk3" using framed_splits [OF bs(1)] .
          have "length (lk_buf lk1) \<le> length (pending lk1)" by (simp add: pending_def)
          then have "pd_len p \<le> length ?s" using ph(2) head by simp
          then have "length (pending lk2) < length ?s" using ph(1) p2(1) by simp
          then have "length (pending lk3) < length ?s" using split by simp
          from less.hyps [OF this strides_fit_suffix] fit2 split
          obtain q lk4 where q: "request_loop ok parse scheme peer lk3 = Some (q, lk4)"
            and o: "\<And>u. q = Inr u \<Longrightarrow> \<exists>out. relayed parse scheme peer (pending lk3) out \<and> lk_out lk4 = lk_out lk3 @ out" by metis
          have "\<exists>out. relayed parse scheme peer ?s out \<and> lk_out lk4 = lk_out lk @ out" if "q = Inr v" for v
            using o [OF that] RelayedRequest [OF ph(3) no bs(1) [unfolded p2(1)]] bs(2) p2(2) by fastforce
          with b no Inr q show ?thesis by (simp add: step)
        qed
      qed
    qed
  qed
qed

text \<open>
  What the upward direction of the relay sends is a function of the client's bytes alone: it
  returns, and if it returns without an error it has written the client's stream with every
  request head replaced by its rewritten form and every body forwarded byte for byte by its RFC 9112
  framing, up to an upgrade or the end, however the bytes were split into reads. The stream must
  hold no chunk whose length does not fit 64 bits together with its line.
\<close>

theorem forward_requests_relays:
  assumes "parse_stable parse" and "strides_fit (initial @ readable reads)"
  shows "\<exists>r out. forward_requests ok parse scheme peer initial reads = Some (r, out) \<and>
    (\<forall>n. r = Inr n \<longrightarrow> relayed parse scheme peer (initial @ readable reads) out)"
proof -
  let ?lk = "\<lparr>lk_buf = initial, lk_reads = reads, lk_out = [], lk_count = of_nat (length initial)\<rparr>"
  have "pending ?lk = initial @ readable reads" by (simp add: pending_def)
  with request_loop_exact [OF assms(1), of ?lk ok scheme peer] assms(2) obtain r lk' where
    l: "request_loop ok parse scheme peer ?lk = Some (r, lk')" and
    o: "\<And>u. r = Inr u \<Longrightarrow> relayed parse scheme peer (initial @ readable reads) (lk_out lk')" by auto
  show ?thesis by (cases r) (auto simp: forward_requests_def l o)
qed

section \<open>Rewritten heads\<close>

definition forwarded_name :: "string \<Rightarrow> bool" where
  "forwarded_name name \<longleftrightarrow> eq_ignore_ascii_case name ''x-forwarded-proto'' \<or> eq_ignore_ascii_case name ''x-forwarded-for''"

definition head_line :: "string \<times> string \<Rightarrow> string" where
  "head_line h = fst h @ '': '' @ snd h"

definition last_for :: "(string \<times> string) list \<Rightarrow> string option" where
  "last_for hs = (case rev (filter (\<lambda>h. eq_ignore_ascii_case (fst h) ''x-forwarded-for'') hs) of [] \<Rightarrow> None | h # _ \<Rightarrow> Some (snd h))"

definition rewritten_lines :: "scheme \<Rightarrow> string \<Rightarrow> http_head \<Rightarrow> string list" where
  "rewritten_lines scheme peer h =
     request_line h # map head_line (filter (\<lambda>h. \<not> forwarded_name (fst h)) (hh_headers h)) @
     [''X-Forwarded-Proto: '' @ scheme_str scheme,
      ''X-Forwarded-For: '' @ (case last_for (hh_headers h) of Some prior \<Rightarrow> prior @ '', '' | None \<Rightarrow> []) @ peer]"

lemma proto_not_for: "eq_ignore_ascii_case name ''x-forwarded-proto'' \<Longrightarrow> \<not> eq_ignore_ascii_case name ''x-forwarded-for''"
  by (auto simp: eq_ignore_ascii_case_def to_ascii_lowercase_def ascii_lower_char_def)

lemma scan_header_cases:
  assumes "scan_header st h = Inr st'"
  shows "hs_head st' = hs_head st @ (if forwarded_name (fst h) then [] else head_line h @ crlf)"
    "hs_for st' = (if eq_ignore_ascii_case (fst h) ''x-forwarded-for'' then Some (snd h) else hs_for st)"
  using assms
  by (cases h; auto simp: scan_header_def forwarded_name_def head_line_def and_then_Inr dest: proto_not_for split: if_splits)+

lemma scan_headers:
  "fold_res scan_header st hs = Inr st' \<Longrightarrow>
   hs_head st' = hs_head st @ concat (map (\<lambda>h. head_line h @ crlf) (filter (\<lambda>h. \<not> forwarded_name (fst h)) hs)) \<and>
   hs_for st' = or_opt (last_for hs) (hs_for st)"
proof (induction hs arbitrary: st)
  case (Cons h hs)
  from Cons.prems obtain st1 where s: "scan_header st h = Inr st1" "fold_res scan_header st1 hs = Inr st'"
    by (auto simp: and_then_Inr)
  have "last_for (h # hs) = or_opt (last_for hs) (if eq_ignore_ascii_case (fst h) ''x-forwarded-for'' then Some (snd h) else None)"
    by (auto simp: last_for_def split: list.splits)
  with Cons.IH [OF s(2)] scan_header_cases [OF s(1)] show ?case by (auto simp: last_for_def split: option.splits list.splits)
qed (simp add: last_for_def)

definition plain_text :: "string \<Rightarrow> bool" where
  "plain_text s \<longleftrightarrow> CHR 0x0A \<notin> set s"

text \<open>What the sources rely on of \<open>httparse\<close> for a parsed head: its parts hold no line feed, names no colon.\<close>

definition clean_head :: "http_head \<Rightarrow> bool" where
  "clean_head h \<longleftrightarrow> plain_text (unwrap_or (hh_method h) []) \<and> plain_text (unwrap_or (hh_path h) []) \<and>
     list_all (\<lambda>h. plain_text (fst h) \<and> CHR '':'' \<notin> set (fst h) \<and> plain_text (snd h)) (hh_headers h)"

lemma render_head_lines:
  assumes "render_head scheme peer n h = Inr p"
  shows "pd_head p = concat (map (\<lambda>l. l @ crlf) (rewritten_lines scheme peer h @ [[]]))"
proof -
  let ?st = "\<lparr>hs_head = request_line h @ crlf, hs_body = BodyFixed 0, hs_upgrade = False, hs_for = None\<rparr>"
  from assms obtain st where s: "fold_res scan_header ?st (hh_headers h) = Inr st"
    and p: "pd_head p = hs_head st @ ''X-Forwarded-Proto: '' @ scheme_str scheme @ crlf @ ''X-Forwarded-For: '' @
      (case hs_for st of Some prior \<Rightarrow> prior @ '', '' | None \<Rightarrow> []) @ peer @ crlf @ crlf"
    by (auto simp: render_head_def and_then_Inr)
  have "hs_for st = last_for (hh_headers h)" using scan_headers [OF s] by (cases "last_for (hh_headers h)") simp_all
  with p scan_headers [OF s] show ?thesis by (simp add: rewritten_lines_def comp_def)
qed

lemma before_char_append: "d \<notin> set a \<Longrightarrow> before_char d (a @ d # b) = a"
  by (induction a) auto

lemma head_line_name: "CHR '':'' \<notin> set (fst h) \<Longrightarrow> before_char CHR '':'' (head_line h) = fst h"
  using before_char_append [of "CHR '':''" "fst h" "CHR '' '' # snd h"] by (simp add: head_line_def)

lemma last_for_in: "last_for hs = Some prior \<Longrightarrow> \<exists>h\<in>set hs. prior = snd h"
proof (cases "rev (filter (\<lambda>h. eq_ignore_ascii_case (fst h) ''x-forwarded-for'') hs)")
  case (Cons h rest)
  then have "h \<in> set (rev (filter (\<lambda>h. eq_ignore_ascii_case (fst h) ''x-forwarded-for'') hs))" by simp
  then have "h \<in> set hs" by simp
  then show "last_for hs = Some prior \<Longrightarrow> ?thesis" using Cons by (auto simp: last_for_def simp del: rev_eq_Cons_iff)
qed (simp add: last_for_def)

lemma clean_lines:
  assumes "clean_head h" and "plain_text peer" and "l \<in> set (rewritten_lines scheme peer h)"
  shows "plain_text l"
proof -
  have prior: "plain_text prior" if "last_for (hh_headers h) = Some prior" for prior
    using last_for_in [OF that] assms(1) by (auto simp: clean_head_def list_all_iff)
  have "plain_text (request_line h)"
    using assms(1) by (cases "hh_method h"; cases "hh_path h") (auto simp: request_line_def clean_head_def plain_text_def)
  moreover have "plain_text (head_line g)" if "g \<in> set (hh_headers h)" for g
    using that assms(1) by (auto simp: clean_head_def list_all_iff plain_text_def head_line_def)
  moreover have "plain_text (''X-Forwarded-Proto: '' @ scheme_str scheme)" by (cases scheme) (simp_all add: plain_text_def)
  moreover have "plain_text (''X-Forwarded-For: '' @ (case last_for (hh_headers h) of Some prior \<Rightarrow> prior @ '', '' | None \<Rightarrow> []) @ peer)"
    using assms(2) prior by (auto simp: plain_text_def split: option.splits)
  ultimately show ?thesis using assms(3) by (auto simp: rewritten_lines_def)
qed

text \<open>
  Every head the relay sends upstream, read back line by line, is the client's request line
  and headers without the client's own forwarding headers, and says exactly once how the proxy was
  reached: one \<open>X-Forwarded-Proto\<close> line with the proxy's scheme and one \<open>X-Forwarded-For\<close> line
  that ends in the peer's address.
\<close>

theorem heads_state_scheme:
  assumes "parse buf = HpComplete n h" and "parse_head parse scheme peer buf = Inr (Some p)"
    and "clean_head h" and "plain_text peer"
  shows "split_on CHR 0x0A (pd_head p) = map (\<lambda>l. l @ [CHR 0x0D]) (rewritten_lines scheme peer h @ [[]]) @ [[]] \<and>
    filter (\<lambda>l. eq_ignore_ascii_case (before_char CHR '':'' l) ''x-forwarded-proto'') (tl (rewritten_lines scheme peer h)) =
      [''X-Forwarded-Proto: '' @ scheme_str scheme] \<and>
    map (ends_with peer) (filter (\<lambda>l. eq_ignore_ascii_case (before_char CHR '':'' l) ''x-forwarded-for'') (tl (rewritten_lines scheme peer h))) =
      [True]"
proof -
  have r: "render_head scheme peer n h = Inr p" using assms(1,2) by (auto simp: parse_head_def and_then_Inr)
  have lines: "CHR 0x0A \<notin> set l" if "l \<in> set (rewritten_lines scheme peer h @ [[]])" for l
    using that clean_lines [OF assms(3,4)] by (auto simp: plain_text_def)
  have kept: "filter (\<lambda>l. eq_ignore_ascii_case (before_char CHR '':'' l) name) (map head_line
      (filter (\<lambda>h. \<not> forwarded_name (fst h)) (hh_headers h))) = []"
    if "name = ''x-forwarded-proto'' \<or> name = ''x-forwarded-for''" for name
    using assms(3) that by (auto simp: filter_empty_conv clean_head_def list_all_iff head_line_name forwarded_name_def)
  have proto: "before_char CHR '':'' (''X-Forwarded-Proto: '' @ x) = ''X-Forwarded-Proto''"
    "before_char CHR '':'' (''X-Forwarded-For: '' @ x) = ''X-Forwarded-For''" for x by simp_all
  have names: "eq_ignore_ascii_case ''X-Forwarded-Proto'' ''x-forwarded-proto''" "eq_ignore_ascii_case ''X-Forwarded-For'' ''x-forwarded-for''"
    "\<not> eq_ignore_ascii_case ''X-Forwarded-Proto'' ''x-forwarded-for''" "\<not> eq_ignore_ascii_case ''X-Forwarded-For'' ''x-forwarded-proto''"
    by code_simp+
  have tl: "tl (rewritten_lines scheme peer h) = map head_line (filter (\<lambda>h. \<not> forwarded_name (fst h)) (hh_headers h)) @
     [''X-Forwarded-Proto: '' @ scheme_str scheme,
      ''X-Forwarded-For: '' @ (case last_for (hh_headers h) of Some prior \<Rightarrow> prior @ '', '' | None \<Rightarrow> []) @ peer]"
    by (simp add: rewritten_lines_def)
  have "ends_with peer (a @ b @ peer)" for a b by (simp add: ends_with_iff)
  moreover have "split_on CHR 0x0A (pd_head p) = map (\<lambda>l. l @ [CHR 0x0D]) (rewritten_lines scheme peer h @ [[]]) @ [[]]"
    unfolding render_head_lines [OF r] by (rule split_lines) (rule lines)
  ultimately show ?thesis unfolding tl by (simp add: kept proto names del: append_Cons)
qed

section \<open>Where the strides do not fit\<close>

text \<open>A chunk length of \<open>2^64 - 20\<close>, written with sixteen digits, wraps its stride to zero: the loop forwards nothing and never ends.\<close>

definition wrapping_line :: string where
  "wrapping_line = ''FFFFFFFFFFFFFFEC''"

lemma wrapping_parse: "parse_uint 16 18446744073709551615 wrapping_line = Some 18446744073709551596"
  by (simp add: parse_uint_def wrapping_line_def to_digit_def is_ascii_digit_def)

lemma wrapping_size: "chunk_size wrapping_line = Inr 18446744073709551596"
proof -
  have "is_utf8 wrapping_line" "trim (before_char CHR '';'' wrapping_line) = wrapping_line" by code_simp+
  then show ?thesis by (simp add: chunk_size_def parse_u64_radix_def wrapping_parse)
qed

lemma wrapping_stride: "chunk_stride 16 18446744073709551596 = 0"
  by (simp add: chunk_stride_def)

lemma forward_fixed_zero: "ok (lk_out lk) \<Longrightarrow> forward_fixed ok 0 lk = (Inr (), lk)"
  by (simp add: forward_fixed.simps relay_write_def)

lemma wrapping_line_read:
  assumes "lk_buf lk = wrapping_line @ crlf @ rest"
  shows "read_line lk = (Inr 16, lk)" "take 16 (lk_buf lk) = wrapping_line"
proof -
  have "find_crlf (wrapping_line @ crlf) = Some 16" by code_simp
  from find_crlf_append [OF this, of rest] show "read_line lk = (Inr 16, lk)"
    by (simp add: read_line.simps [of lk] assms)
  show "take 16 (lk_buf lk) = wrapping_line" by (simp add: assms wrapping_line_def)
qed

lemma wrapping_chunk_never_ends:
  assumes "lk_buf lk = wrapping_line @ crlf @ rest" and "ok (lk_out lk)"
  shows "forward_chunked ok lk = None"
proof -
  have "lk_buf lk = wrapping_line @ crlf @ rest \<longrightarrow> \<not> ok (lk_out lk)" if "forward_chunked ok lk = Some r" for r
  proof (rule forward_chunked.raw_induct [where P = "\<lambda>ok lk r. lk_buf lk = wrapping_line @ crlf @ rest \<longrightarrow> \<not> ok (lk_out lk)", OF _ that])
    fix fc :: "(string \<Rightarrow> bool) \<Rightarrow> link \<Rightarrow> ((relay_error + unit) \<times> link) option" and ok lk r
    assume ih: "\<And>ok lk r. fc ok lk = Some r \<Longrightarrow> lk_buf lk = wrapping_line @ crlf @ rest \<longrightarrow> \<not> ok (lk_out lk)"
      and body: "(case read_line lk of
        (Inl e, lk) \<Rightarrow> Some (Inl e, lk)
      | (Inr line, lk) \<Rightarrow>
          (case chunk_size (take line (lk_buf lk)) of
             Inl e \<Rightarrow> Some (Inl e, lk)
           | Inr sz \<Rightarrow>
               if sz = 0 then
                 (case forward_fixed ok (of_nat line + 2) lk of
                    (Inl e, lk) \<Rightarrow> Some (Inl e, lk)
                  | (Inr _, lk) \<Rightarrow> forward_trailers ok lk)
               else (case forward_fixed ok (chunk_stride line sz) lk of
                   (Inl e, lk) \<Rightarrow> Some (Inl e, lk)
                 | (Inr _, lk) \<Rightarrow> fc ok lk))) = Some r"
    show "lk_buf lk = wrapping_line @ crlf @ rest \<longrightarrow> \<not> ok (lk_out lk)"
    proof (intro impI notI)
      assume b: "lk_buf lk = wrapping_line @ crlf @ rest" and o: "ok (lk_out lk)"
      have "fc ok lk = Some r"
        using body o by (simp add: wrapping_line_read [OF b] wrapping_size wrapping_stride forward_fixed_zero)
      with ih b o show False by blast
    qed
  qed
  with assms show ?thesis by (cases "forward_chunked ok lk") auto
qed

text \<open>Two different lengths are not refused: the last one frames the body, and both are forwarded.\<close>

lemma conflicting_lengths_last_wins:
  assumes "content_length v = Inr a" and "content_length w = Inr b"
    and "render_head scheme peer n \<lparr>hh_method = me, hh_path = pa, hh_version = ve,
      hh_headers = [(''Content-Length'', v), (''Content-Length'', w)]\<rparr> = Inr p"
  shows "pd_body p = BodyFixed b"
proof -
  have "\<not> eq_ignore_ascii_case ''Content-Length'' ''x-forwarded-proto''" "\<not> eq_ignore_ascii_case ''Content-Length'' ''x-forwarded-for''"
    "\<not> eq_ignore_ascii_case ''Content-Length'' ''transfer-encoding''" "eq_ignore_ascii_case ''Content-Length'' ''content-length''"
    by code_simp+
  then show ?thesis using assms by (auto simp: render_head_def scan_header_def and_then_Inr)
qed

section \<open>Examples\<close>

text \<open>Streams shorter than eighteen bytes have no chunk length of more than sixty bits.\<close>

lemma digits_value_bound: "digits_value 16 acc s = Some v \<Longrightarrow> v < (acc + 1) * 16 ^ length s"
proof (induction s arbitrary: acc)
  case (Cons c s)
  then obtain d where d: "to_digit 16 c = Some d" "digits_value 16 (acc * 16 + d) s = Some v" by (auto split: option.splits)
  from Cons.IH [OF d(2)] have "v < (acc * 16 + d + 1) * 16 ^ length s" .
  also have "\<dots> \<le> ((acc + 1) * 16) * 16 ^ length s"
    using d(1) by (intro mult_right_mono) (auto simp: to_digit_def Let_def split: if_splits)
  finally show ?case by (simp add: algebra_simps)
qed simp

lemma trim_length: "length (trim s) \<le> length s"
  using trim_infix [of s] by (metis length_append le_add1 le_add2 le_trans add.commute)

lemma before_char_length: "length (before_char d s) \<le> length s"
  by (induction s) auto

lemma chunk_size_bound: "chunk_size line = Inr z \<Longrightarrow> unat z < 16 ^ length line"
proof -
  assume "chunk_size line = Inr z"
  then obtain v where v: "parse_uint 16 18446744073709551615 (trim (before_char CHR '';'' line)) = Some v" "z = of_nat v"
    by (auto simp: chunk_size_def parse_u64_radix_def ok_or_Inr split: if_splits)
  let ?s = "trim (before_char CHR '';'' line)"
  obtain d where d: "digits_value 16 0 d = Some v" "length d \<le> length ?s" "v \<le> 18446744073709551615"
    using v(1) by (auto simp: parse_uint_def Let_def split: if_splits option.splits list.splits)
  have "v < 16 ^ length d" using digits_value_bound [OF d(1)] by simp
  also have "\<dots> \<le> 16 ^ length line"
    using d(2) trim_length [of "before_char CHR '';'' line"] before_char_length [of "CHR '';''" line]
    by (intro power_increasing) linarith+
  finally show ?thesis using v(2) d(3) by (simp add: unat_of_nat)
qed

lemma strides_fit_short: "length s \<le> 17 \<Longrightarrow> strides_fit s"
  unfolding strides_fit_def
proof (intro conjI allI impI)
  fix a t n z assume l: "length s \<le> 17" and s: "s = a @ t" and n: "find_crlf t = Some n" and z: "chunk_size (take n t) = Inr z"
  have n15: "n \<le> 15" using find_crlf_length [OF n] l s by simp
  have "unat z < 16 ^ length (take n t)" using chunk_size_bound [OF z] .
  also have "(16 :: nat) ^ length (take n t) \<le> 16 ^ 15" using n15 by (intro power_increasing) simp_all
  finally show "n + 2 + unat z + 2 < 2 ^ 64" using n15 by simp
qed simp

definition bare_request :: string where
  "bare_request = ''GET /'' @ crlf @ crlf"

text \<open>A parser of one request form.\<close>

definition bare_parse :: "string \<Rightarrow> http_parse" where
  "bare_parse s =
     (if starts_with bare_request s
      then HpComplete 9 \<lparr>hh_method = Some ''GET'', hh_path = Some ''/'', hh_version = None,
        hh_headers = [(''x-forwarded-PROTO'', ''https''), (''Accept'', ''a''), (''X-Forwarded-For'', ''10.0.0.9'')]\<rparr>
      else HpPartial)"

lemma bare_parse_stable: "parse_stable bare_parse"
  by (auto simp: parse_stable_def bare_parse_def starts_with_iff bare_request_def crlf_def split: if_splits)

abbreviation bare_head :: http_head where
  "bare_head \<equiv> \<lparr>hh_method = Some ''GET'', hh_path = Some ''/'', hh_version = None,
     hh_headers = [(''x-forwarded-PROTO'', ''https''), (''Accept'', ''a''), (''X-Forwarded-For'', ''10.0.0.9'')]\<rparr>"

lemma bare_heads:
  "parse_head bare_parse scheme peer ''GET'' = Inr None" "parse_head bare_parse scheme peer (''GET /'' @ crlf) = Inr None"
  "parse_head bare_parse scheme peer [] = Inr None"
  by (simp_all add: parse_head_def bare_parse_def starts_with_def bare_request_def crlf_def)

lemma bare_rendered: "\<exists>p. parse_head bare_parse Http ''127.0.0.1'' bare_request = Inr (Some p) \<and> pd_len p = 9 \<and> pd_body p = BodyFixed 0 \<and> \<not> pd_upgrade p"
proof -
  have "case render_head Http ''127.0.0.1'' 9 bare_head of Inr p \<Rightarrow> pd_len p = 9 \<and> pd_body p = BodyFixed 0 \<and> \<not> pd_upgrade p | Inl _ \<Rightarrow> False"
    by code_simp
  moreover have "bare_parse bare_request = HpComplete 9 bare_head" by (simp add: bare_parse_def starts_with_iff)
  ultimately show ?thesis by (cases "render_head Http ''127.0.0.1'' 9 bare_head") (simp_all add: parse_head_def)
qed

lemma bare_run: "\<exists>n out. forward_requests (\<lambda>_. True) bare_parse Http ''127.0.0.1'' ''GET'' [Some ('' /'' @ crlf), Some crlf] = Some (Inr n, out)"
proof -
  obtain p where p: "parse_head bare_parse Http ''127.0.0.1'' bare_request = Inr (Some p)" "pd_len p = 9" "pd_body p = BodyFixed 0"
    "\<not> pd_upgrade p" using bare_rendered by blast
  have small: "length ''GET'' < max_header_bytes" "length (''GET /'' @ crlf) < max_header_bytes" "length ([] :: string) < max_header_bytes"
    by (simp_all add: max_header_bytes_def crlf_def)
  have joined: "''GET'' @ '' /'' @ crlf = ''GET /'' @ crlf" "(''GET /'' @ crlf) @ crlf = bare_request" "drop 9 bare_request = []"
    by (simp_all add: bare_request_def crlf_def)
  have step: "next_head bare_parse Http ''127.0.0.1'' \<lparr>lk_buf = b, lk_reads = Some (c # d) # rs, lk_out = out, lk_count = k\<rparr> =
      next_head bare_parse Http ''127.0.0.1'' \<lparr>lk_buf = b @ c # d, lk_reads = rs, lk_out = out, lk_count = k + of_nat (length (c # d))\<rparr>"
    if "parse_head bare_parse Http ''127.0.0.1'' b = Inr None" "length b < max_header_bytes" for b c d rs out k
    using that by (subst next_head.simps) (simp add: relay_read_def)
  have stop: "next_head bare_parse Http ''127.0.0.1'' lk = (Inr (Some p), lk)" if "lk_buf lk = bare_request" for lk
    using that p by (subst next_head.simps) simp
  let ?lk = "\<lparr>lk_buf = ''GET'', lk_reads = [Some ('' /'' @ crlf), Some crlf], lk_out = [], lk_count = of_nat (length ''GET'')\<rparr>"
  obtain k where n: "next_head bare_parse Http ''127.0.0.1'' ?lk =
      (Inr (Some p), \<lparr>lk_buf = bare_request, lk_reads = [], lk_out = [], lk_count = k\<rparr>)"
    using step [OF bare_heads(1) small(1)] step [OF bare_heads(2) small(2)] stop joined
    by (simp add: crlf_def del: append_Cons) (simp add: crlf_def)
  have e: "next_head bare_parse Http ''127.0.0.1'' \<lparr>lk_buf = [], lk_reads = [], lk_out = out, lk_count = k\<rparr> =
      (Inr None, \<lparr>lk_buf = [], lk_reads = [], lk_out = out, lk_count = k\<rparr>)" for out k
    using bare_heads(3) small(3) by (subst next_head.simps) (simp add: relay_read_def)
  have end_loop: "request_loop (\<lambda>_. True) bare_parse Http ''127.0.0.1'' \<lparr>lk_buf = [], lk_reads = [], lk_out = out, lk_count = k\<rparr> =
      Some (Inr (), \<lparr>lk_buf = [], lk_reads = [], lk_out = out, lk_count = k\<rparr>)" for out k
    by (subst request_loop.simps) (simp add: e relay_write_def)
  have "request_loop (\<lambda>_. True) bare_parse Http ''127.0.0.1'' ?lk =
      Some (Inr (), \<lparr>lk_buf = [], lk_reads = [], lk_out = pd_head p, lk_count = k\<rparr>)"
    unfolding request_loop.simps [of _ _ _ _ ?lk] n
    by (simp add: relay_write_def p joined forward_body_def forward_fixed_zero end_loop)
  then show ?thesis by (simp add: forward_requests_def)
qed

theorem forward_requests_relays_witness:
  "\<exists>r out. forward_requests (\<lambda>_. True) bare_parse Http ''127.0.0.1'' ''GET'' [Some ('' /'' @ crlf), Some crlf] = Some (r, out) \<and>
     (case r of Inr n \<Rightarrow> relayed bare_parse Http ''127.0.0.1'' bare_request out | Inl _ \<Rightarrow> False)"
proof -
  let ?f = "forward_requests (\<lambda>_. True) bare_parse Http ''127.0.0.1'' ''GET'' [Some ('' /'' @ crlf), Some crlf]"
  have s: "''GET'' @ readable [Some ('' /'' @ crlf), Some crlf] = bare_request" by (simp add: bare_request_def crlf_def)
  have "strides_fit bare_request" by (rule strides_fit_short) (simp add: bare_request_def crlf_def)
  with forward_requests_relays [OF bare_parse_stable, of "''GET''" "[Some ('' /'' @ crlf), Some crlf]" "\<lambda>_. True" Http "''127.0.0.1''"] s
  obtain r out where f: "?f = Some (r, out)" and o: "\<And>n. r = Inr n \<Longrightarrow> relayed bare_parse Http ''127.0.0.1'' bare_request out" by metis
  have "\<exists>n out. ?f = Some (Inr n, out)" by (rule bare_run)
  with f o show ?thesis by auto
qed

theorem heads_state_scheme_witness:
  "\<exists>p. parse_head bare_parse Https ''192.0.2.7'' bare_request = Inr (Some p) \<and>
     filter (\<lambda>l. eq_ignore_ascii_case (before_char CHR '':'' l) ''x-forwarded-proto'')
       (tl (rewritten_lines Https ''192.0.2.7'' \<lparr>hh_method = Some ''GET'', hh_path = Some ''/'', hh_version = None,
          hh_headers = [(''x-forwarded-PROTO'', ''https''), (''Accept'', ''a''), (''X-Forwarded-For'', ''10.0.0.9'')]\<rparr>)) =
       [''X-Forwarded-Proto: https'']"
proof -
  let ?h = "\<lparr>hh_method = Some ''GET'', hh_path = Some ''/'', hh_version = None,
      hh_headers = [(''x-forwarded-PROTO'', ''https''), (''Accept'', ''a''), (''X-Forwarded-For'', ''10.0.0.9'')]\<rparr>"
  have b: "bare_parse bare_request = HpComplete 9 ?h" by (simp add: bare_parse_def starts_with_iff)
  have "is_ok (render_head Https ''192.0.2.7'' 9 ?h)" by code_simp
  then obtain p where "render_head Https ''192.0.2.7'' 9 ?h = Inr p" by (cases "render_head Https ''192.0.2.7'' 9 ?h") simp_all
  then have p: "parse_head bare_parse Https ''192.0.2.7'' bare_request = Inr (Some p)" by (simp add: parse_head_def b)
  have "clean_head ?h" "plain_text ''192.0.2.7''" by code_simp+
  from heads_state_scheme [OF b p this] p show ?thesis by simp
qed

end
