(* ===== verification/Proxy.thy ===== *)
theory Proxy
  imports Relay Admission
begin

text \<open>
  The HTTP proxy, \<open>portman-daemon/src/proxy.rs\<close>: reading the first request head, finding the route
  by its \<open>Host\<close>, the error pages, the start button, and the authenticated egress hop. One
  definition handles a whole connection; the network, \<open>httparse\<close> and the secret providers are
  parameters.
\<close>

section \<open>Answers\<close>

definition reason_phrase :: "nat \<Rightarrow> string" where
  "reason_phrase code =
     (if code = 200 then ''OK'' else if code = 400 then ''Bad Request'' else if code = 403 then ''Forbidden''
      else if code = 408 then ''Request Timeout'' else if code = 404 then ''Not Found''
      else if code = 431 then ''Request Header Fields Too Large'' else if code = 502 then ''Bad Gateway''
      else if code = 504 then ''Gateway Timeout'' else ''Error'')"

text \<open>The bytes of a whole answer.\<close>

definition write_http :: "nat \<Rightarrow> string \<Rightarrow> string \<Rightarrow> string" where
  "write_http code content_type body =
     ''HTTP/1.1 '' @ show_nat code @ '' '' @ reason_phrase code @ crlf @ ''Content-Type: '' @ content_type @ crlf @
     ''Content-Length: '' @ show_nat (length body) @ crlf @ ''Connection: close'' @ crlf @ crlf @ body"

definition lf :: string where
  "lf = [CHR 0x0A]"

definition text_plain :: string where
  "text_plain = ''text/plain; charset=utf-8''"

definition write_status :: "nat \<Rightarrow> string \<Rightarrow> string" where
  "write_status code message = write_http code text_plain (''portman: '' @ message @ lf)"

definition html_escape :: "string \<Rightarrow> string" where
  "html_escape s =
     replace_str ''\"'' ''&quot;'' (replace_str ''>'' ''&gt;'' (replace_str ''<'' ''&lt;'' (replace_str ''&'' ''&amp;'' s)))"

text \<open>Characters outside ASCII, as their UTF-8 bytes.\<close>

definition middle_dot :: string where "middle_dot = [CHR 0xC2, CHR 0xB7]"
definition em_dash :: string where "em_dash = [CHR 0xE2, CHR 0x80, CHR 0x94]"
definition ellipsis :: string where "ellipsis = [CHR 0xE2, CHR 0x80, CHR 0xA6]"

definition page_lines :: "string list \<Rightarrow> string" where
  "page_lines ls = concat (map (\<lambda>l. l @ lf) ls)"

definition start_form_html :: string where
  "start_form_html =
     ''<form method=\"post\" action=\"/.portman/start\">'' @ lf @
     ''  <button type=\"submit\">Start this service</button>'' @ lf @
     ''</form>'' @ lf @
     ''<p class=\"fine\">portman knows how to start this service and will report back here.</p>''"

text \<open>The style lines both pages share.\<close>

definition style_head :: "string list" where
  "style_head =
    [''<style>'',
     ''  :root { color-scheme: light dark; }'',
     ''  body { margin: 0; min-height: 100vh; display: grid; place-items: center;'',
     ''    font: 15px/1.55 ui-sans-serif, -apple-system, system-ui, sans-serif;'',
     ''    background: #f7f7f8; color: #1c1c1e; }'',
     ''  @media (prefers-color-scheme: dark) { body { background: #17171a; color: #ececf1; } }'',
     ''  main { max-width: 32rem; padding: 2rem 2.25rem; }'']"

definition style_title :: "string list" where
  "style_title =
    [''  h1 { font-size: 1.35rem; margin: .4rem 0 .75rem; font-weight: 600; }'',
     ''  p { margin: 0; opacity: .8; }'']"

definition style_end :: "string list" where
  "style_end =
    [''  .brand { margin-top: 1.75rem; font-size: .8rem; opacity: .4; }'', ''</style>'', ''</head>'', ''<body>'', ''<main>'']"

definition page_foot :: "string list" where
  "page_foot = [''  <div class=\"brand\">portman</div>'', ''</main>'', ''</body>'', ''</html>'']"

definition error_page :: "nat \<Rightarrow> string \<Rightarrow> string \<Rightarrow> string \<Rightarrow> string \<Rightarrow> string" where
  "error_page code host message hint extra_html = page_lines (
    [''<!DOCTYPE html>'', ''<html lang=\"en\">'', ''<head>'', ''<meta charset=\"utf-8\">'',
     ''<meta name=\"viewport\" content=\"width=device-width, initial-scale=1\">'',
     ''<title>portman '' @ middle_dot @ '' '' @ html_escape host @ ''</title>''] @ style_head @
    [''  .code { font-size: .8rem; letter-spacing: .08em; text-transform: uppercase; opacity: .5; }''] @ style_title @
    [''  form { margin: 1.25rem 0 0; }'',
     ''  button { font: inherit; padding: .5rem 1.1rem; border-radius: .5rem; cursor: pointer;'',
     ''    border: 1px solid currentColor; background: transparent; color: inherit; }'',
     ''  .fine { margin-top: .5rem; font-size: .8rem; opacity: .55; }''] @ style_end @
    [''  <div class=\"code\">'' @ show_nat code @ '' '' @ reason_phrase code @ ''</div>'',
     ''  <h1>'' @ html_escape message @ ''</h1>'',
     ''  <p>'' @ html_escape hint @ ''</p>'',
     ''  '' @ extra_html] @ page_foot)"

definition starting_page :: "string \<Rightarrow> string \<Rightarrow> string" where
  "starting_page host detail = page_lines (
    [''<!DOCTYPE html>'', ''<html lang=\"en\">'', ''<head>'', ''<meta charset=\"utf-8\">'',
     ''<meta http-equiv=\"refresh\" content=\"3;url=/\">'',
     ''<title>portman '' @ middle_dot @ '' starting '' @ html_escape host @ ''</title>''] @ style_head @ style_title @ style_end @
    [''  <h1>Starting '' @ html_escape host @ ellipsis @ ''</h1>'',
     ''  <p>'' @ html_escape detail @ ''. Reloading in a moment.</p>''] @ page_foot)"

definition text_html :: string where
  "text_html = ''text/html; charset=utf-8''"

definition write_error_reply :: "nat \<Rightarrow> string \<Rightarrow> string \<Rightarrow> string \<Rightarrow> string \<Rightarrow> bool \<Rightarrow> string" where
  "write_error_reply code host message hint extra_html wants_html =
     (if wants_html then write_http code text_html (error_page code host message hint extra_html)
      else write_http code text_plain
        (''portman: '' @ message @ lf @ (if hint \<noteq> [] then ''portman: '' @ hint @ lf else [])))"

section \<open>The request head\<close>

record request_head =
  rh_end :: nat
  rh_host :: string
  rh_wants_html :: bool
  rh_method :: string
  rh_path :: string
  rh_origin :: "string option"
  rh_fetch_site :: "string option"
  rh_headers :: "(string \<times> string) list"

text \<open>The first header of a name, if its value is UTF-8.\<close>

definition text_header :: "(string \<times> string) list \<Rightarrow> string \<Rightarrow> string option" where
  "text_header headers name =
     (case List.find (\<lambda>h. eq_ignore_ascii_case (fst h) name) headers of
        Some h \<Rightarrow> (if is_utf8 (snd h) then Some (snd h) else None)
      | None \<Rightarrow> None)"

definition head_host :: "http_head \<Rightarrow> string" where
  "head_host h =
     (case text_header (hh_headers h) ''host'' of Some s \<Rightarrow> to_ascii_lowercase (before_char CHR '':'' s) | None \<Rightarrow> [])"

definition request_head_of :: "nat \<Rightarrow> http_head \<Rightarrow> request_head" where
  "request_head_of n h =
     \<lparr>rh_end = n, rh_host = head_host h,
      rh_wants_html = (case text_header (hh_headers h) ''accept'' of Some a \<Rightarrow> contains_str ''text/html'' a | None \<Rightarrow> False),
      rh_method = unwrap_or (hh_method h) ''GET'', rh_path = unwrap_or (hh_path h) ''/'',
      rh_origin = text_header (hh_headers h) ''origin'', rh_fetch_site = text_header (hh_headers h) ''sec-fetch-site'',
      rh_headers = filter (\<lambda>h. is_utf8 (snd h)) (hh_headers h)\<rparr>"

text \<open>What a client sends: bytes, a failing read, or nothing until the five seconds are over.\<close>

datatype client_read = ClientBytes string | ClientFails | ClientStalls

datatype head_read =
  HeadClosed | HeadFailed | HeadAnswer string | HeadRead request_head string "client_read list"

fun read_request_head :: "(string \<Rightarrow> http_parse) \<Rightarrow> string \<Rightarrow> client_read list \<Rightarrow> head_read" where
  "read_request_head parse buf [] = HeadClosed"
| "read_request_head parse buf (ClientFails # rs) = HeadFailed"
| "read_request_head parse buf (ClientStalls # rs) = HeadAnswer (write_status 408 ''request timed out'')"
| "read_request_head parse buf (ClientBytes d # rs) =
     (if d = [] then HeadClosed
      else (case parse (buf @ d) of
          HpError \<Rightarrow> HeadFailed
        | HpComplete n h \<Rightarrow>
            if head_host h = [] then HeadAnswer (write_status 400 ''missing Host header'')
            else HeadRead (request_head_of n h) (buf @ d) rs
        | HpPartial \<Rightarrow>
            if length (buf @ d) \<ge> max_header_bytes then HeadAnswer (write_status 431 ''request headers too large'')
            else read_request_head parse (buf @ d) rs))"


section \<open>The hop\<close>

datatype credential_source = NoCredentials | SupervisorCredentials

datatype connected = Connected | ConnectFailed string | ConnectTimedOut

text \<open>
  What a connection meets: the parser, the peers, the two kinds of connect, the providers, the clock
  and the hash of the grants, what the upstream accepts and the text of a start error.
\<close>

record 'w proxy_env =
  px_parse :: "string \<Rightarrow> http_parse"
  px_peer :: string
  px_connect :: "string \<Rightarrow> connected"
  px_connect_egress :: "string \<Rightarrow> egress_spec \<Rightarrow> connected"
  px_accepts :: "string \<Rightarrow> bool"
  px_credentials :: credential_source
  px_sha256 :: "string \<Rightarrow> string"
  px_route_ser :: "string \<times> egress_spec \<Rightarrow> string"
  px_clock :: grant_clock
  px_save_out :: save_outcome
  px_now :: u64
  px_provider :: "'w provider_env"
  px_digest8 :: "string \<Rightarrow> string"
  px_daemon :: daemon_env
  px_start :: start_env
  px_explain :: "start_error \<Rightarrow> string"

text \<open>What the proxy shares with the rest of the daemon.\<close>

record 'w proxy_state =
  ps_daemon :: daemon
  ps_source :: "'w secrets_source"
  ps_masker :: masker

text \<open>
  How a connection ends: the bytes it was answered, what the relay did, or the bytes that went to an
  external upstream before the connection was spliced.
\<close>

datatype proxied =
  ProxyClosed | ProxyFailed | ProxyAnswered string
| ProxyRelayed string "((relay_error + u64) \<times> string) option"
| ProxyEgress string egress_spec string
| ProxyPanic

fun readable_read :: "client_read \<Rightarrow> string option" where
  "readable_read (ClientBytes d) = Some d"
| "readable_read _ = None"

text \<open>The relay has no deadline: a stall is no read to it.\<close>

definition relay_reads :: "client_read list \<Rightarrow> string option list" where
  "relay_reads rs = map readable_read (filter (\<lambda>r. r \<noteq> ClientStalls) rs)"

definition origin_host :: "string \<Rightarrow> string option" where
  "origin_host origin =
     map_option (\<lambda>rest. to_ascii_lowercase (before_char CHR '':'' rest))
       (or_opt (strip_prefix ''http://'' origin) (strip_prefix ''https://'' origin))"

definition foreign_origin :: "request_head \<Rightarrow> bool" where
  "foreign_origin head = (case rh_origin head of Some o' \<Rightarrow> origin_host o' \<noteq> Some (rh_host head) | None \<Rightarrow> False)"

definition cross_origin :: "request_head \<Rightarrow> bool" where
  "cross_origin head \<longleftrightarrow> foreign_origin head \<or> rh_fetch_site head = Some ''cross-site''"

definition authorize_hop ::
  "'w proxy_env \<Rightarrow> string \<Rightarrow> string \<Rightarrow> egress_spec \<Rightarrow> (string \<times> string) list \<Rightarrow> 'w proxy_state \<Rightarrow> bool \<times> 'w proxy_state" where
  "authorize_hop px host target spec headers s =
     (case px_credentials px of
        NoCredentials \<Rightarrow> (authorize_default spec, s)
      | SupervisorCredentials \<Rightarrow>
          (case authorize_supervisor (sv_managed (dm_sv (ps_daemon s))) (px_sha256 px) (px_route_ser px) (px_clock px)
                  (px_save_out px) host target spec headers (px_now px) (dm_grants (ps_daemon s)) of
             (permitted, file') \<Rightarrow> (permitted, s\<lparr>ps_daemon := (ps_daemon s)\<lparr>dm_grants := file'\<rparr>\<rparr>)))"

definition resolve_hop :: "'w proxy_env \<Rightarrow> egress_spec \<Rightarrow> 'w proxy_state \<Rightarrow> string option \<times> 'w proxy_state" where
  "resolve_hop px spec s =
     (case px_credentials px of
        NoCredentials \<Rightarrow> (None, s)
      | SupervisorCredentials \<Rightarrow>
          (case resolve_egress_value (px_provider px) (px_digest8 px) spec (dm_sv (ps_daemon s))
                  ((ps_source s)\<lparr>src_creds := dm_creds (ps_daemon s)\<rparr>) (ps_masker s) of
             (val, src, m) \<Rightarrow> (val, s\<lparr>ps_source := src, ps_masker := m\<rparr>)))"

definition handle_egress ::
  "'w proxy_env \<Rightarrow> request_head \<Rightarrow> entry \<Rightarrow> string \<Rightarrow> 'w proxy_state \<Rightarrow> proxied \<times> 'w proxy_state" where
  "handle_egress px head entry buf s =
     (let host = rh_host head; target = e_target entry;
          answer = (\<lambda>code message hint. ProxyAnswered (write_error_reply code host message hint [] (rh_wants_html head)))
      in
      if cross_origin head then
        (answer 403 (''Cross-origin requests to '' @ host @ '' are rejected.'')
          (''portman egress routes are for local processes '' @ em_dash @ '' call them from the command line or from pages served by this host, not from arbitrary websites.''), s)
      else (case e_egress entry of
        None \<Rightarrow> (answer 502 (host @ '' is an egress route with no credential configured.'')
            ''Add the `secrets` and `key` fields to its config and re-run `portman up`.'', s)
      | Some spec \<Rightarrow>
        (case authorize_hop px host target spec (rh_headers head) s of (permitted, s) \<Rightarrow>
         if \<not> permitted then
           (answer 403 ''Route authorization denied.'' ''A valid route-scoped bearer grant is required.'', s)
         else (case resolve_hop px spec s of
           (None, s) \<Rightarrow> (answer 502 (host @ '' could not resolve its credential.'')
               ''Check the referenced secrets block and that `portman secrets set-*` has run.'', s)
         | (Some val, s) \<Rightarrow>
             if val = [] \<or> has_line_break (egress_spec_render spec val) then
               (answer 502 (''The credential behind '' @ host @ '' cannot be attached.'')
                 ''Check the referenced secrets block: the value resolved empty or contained a newline, which a header can never carry.'', s)
             else (case px_connect_egress px target spec of
                 ConnectFailed err \<Rightarrow> (answer 502 (''Can't reach the upstream behind '' @ host @ ''.'')
                     (''portman routes '' @ host @ '' to '' @ target @ '', but the connection failed ('' @ err @ '').''), s)
               | ConnectTimedOut \<Rightarrow> (answer 504 (''Timed out reaching the upstream behind '' @ host @ ''.'')
                     (''portman routes '' @ host @ '' to '' @ target @ '', but it didn't respond in time.''), s)
               | Connected \<Rightarrow>
                   (case rewrite_head (rh_method head) (rh_path head) (rh_headers head) spec val of
                      None \<Rightarrow> (ProxyPanic, s)
                    | Some rewritten \<Rightarrow> (ProxyEgress target spec (rewritten @ drop (rh_end head) buf), s)))))))"

section \<open>The connection\<close>

definition start_path :: string where
  "start_path = ''/.portman/start''"

definition handle_start_request :: "'w proxy_env \<Rightarrow> request_head \<Rightarrow> daemon \<Rightarrow> string \<times> daemon" where
  "handle_start_request px head d =
     (if foreign_origin head then (write_status 403 ''cross-origin start request rejected'', d)
      else (case start_host (px_daemon px) (px_start px) (rh_host head) d of
          (Inr detail, d) \<Rightarrow>
            (if rh_wants_html head then write_http 200 text_html (starting_page (rh_host head) detail)
             else write_status 200 detail, d)
        | (Inl err, d) \<Rightarrow>
            (write_error_reply 502 (rh_host head) (''Couldn't start the service behind '' @ rh_host head @ ''.'')
               (px_explain px err) [] (rh_wants_html head), d)))"

definition route_request ::
  "'w proxy_env \<Rightarrow> request_head \<Rightarrow> string \<Rightarrow> client_read list \<Rightarrow> 'w proxy_state \<Rightarrow> proxied \<times> 'w proxy_state" where
  "route_request px head buf rs s =
     (let host = rh_host head;
          answer = (\<lambda>code message hint extra. ProxyAnswered (write_error_reply code host message hint extra (rh_wants_html head)))
      in case registry_lookup (rw_registry (routes_of (ps_daemon s))) host of
        None \<Rightarrow> (answer 404 (''No route for '' @ host @ ''.'')
          ''This hostname isn't registered with portman. Add it with `portman add`, or check the container's `dev.portman.host` label.'' [], s)
      | Some (_, entry) \<Rightarrow>
          if e_mode entry = ModeTcp then
            (answer 502 (host @ '' is a TCP-mode route, not an HTTP service.'')
              (''Connect to it with a raw-protocol client (psql, mysql, redis-cli, '' @ ellipsis @ '') on the same hostname '' @
               em_dash @ '' it isn't reachable over HTTP.'') [], s)
          else if e_mode entry = ModeEgress then handle_egress px head entry buf s
          else (let target = e_target entry in
            case px_connect px target of
              Connected \<Rightarrow> (ProxyRelayed target
                  (forward_requests (px_accepts px) (px_parse px) Http (px_peer px) buf (relay_reads rs)), s)
            | ConnectFailed err \<Rightarrow>
                if rh_method head = ''POST'' \<and> rh_path head = start_path then
                  (case handle_start_request px head (ps_daemon s) of (out, d) \<Rightarrow> (ProxyAnswered out, s\<lparr>ps_daemon := d\<rparr>))
                else
                  (answer 502 (''Can't reach the service behind '' @ host @ ''.'')
                    (''portman routes '' @ host @ '' to '' @ target @ '', but the connection failed ('' @ err @
                     ''). The container or process behind it is probably not running.'')
                    (if can_start (ps_daemon s) host (e_container_id entry) then start_form_html else []), s)
            | ConnectTimedOut \<Rightarrow>
                (answer 504 (''Timed out reaching '' @ host @ ''.'')
                  (''portman routes '' @ host @ '' to '' @ target @
                   '', but it didn't respond in time. It may still be starting up or be overloaded.'') [], s)))"

definition handle_connection ::
  "'w proxy_env \<Rightarrow> client_read list \<Rightarrow> 'w proxy_state \<Rightarrow> proxied \<times> 'w proxy_state" where
  "handle_connection px rs s =
     (case read_request_head (px_parse px) [] rs of
        HeadClosed \<Rightarrow> (ProxyClosed, s)
      | HeadFailed \<Rightarrow> (ProxyFailed, s)
      | HeadAnswer out \<Rightarrow> (ProxyAnswered out, s)
      | HeadRead head buf rs \<Rightarrow> route_request px head buf rs s)"


section \<open>Text on a page is not markup\<close>

definition html_entity :: "char \<Rightarrow> string" where
  "html_entity c =
     (if c = CHR ''&'' then ''&amp;'' else if c = CHR ''<'' then ''&lt;'' else if c = CHR ''>'' then ''&gt;''
      else if c = CHR 0x22 then ''&quot;'' else [c])"

lemma concat_map_concat: "concat (map f (concat (map g s))) = concat (map (\<lambda>c. concat (map f (g c))) s)"
  by (induction s) simp_all

lemma html_escape_entities: "html_escape s = concat (map html_entity s)"
  unfolding html_escape_def replace_char_map concat_map_concat
  by (intro arg_cong [of _ _ concat] map_cong refl) (simp add: html_entity_def)

lemma html_entity_clean: "c \<in> {CHR ''<'', CHR ''>'', CHR 0x22} \<Longrightarrow> c \<notin> set (html_escape s)"
  by (auto simp: html_escape_entities html_entity_def split: if_splits)

lemma html_entity_prefix: "html_entity c @ a = html_entity d @ b \<Longrightarrow> c = d \<and> a = b"
  by (auto simp: html_entity_def split: if_splits)

lemma html_entity_not_Nil [simp]: "html_entity c \<noteq> []" "[] \<noteq> html_entity c"
  by (simp_all add: html_entity_def)

lemma html_escape_inj: "html_escape s = html_escape t \<longleftrightarrow> s = t"
proof
  assume "html_escape s = html_escape t"
  then show "s = t" unfolding html_escape_entities
  proof (induction s arbitrary: t)
    case Nil
    then show ?case by (cases t) simp_all
  next
    case (Cons c s)
    then obtain d t' where t: "t = d # t'" by (cases t) simp_all
    with Cons.prems have "html_entity c @ concat (map html_entity s) = html_entity d @ concat (map html_entity t')" by simp
    from html_entity_prefix [OF this] Cons.IH t show ?case by simp
  qed
qed simp

lemma count_html_escape: "c \<in> {CHR ''<'', CHR ''>'', CHR 0x22} \<Longrightarrow> count_list (html_escape s) c = 0"
  using html_entity_clean by (simp add: count_list_0_iff)

definition markup_chars :: "char list" where
  "markup_chars = [CHR ''<'', CHR ''>'', CHR 0x22]"

lemma error_page_markup:
  assumes "c \<in> set markup_chars"
  shows "count_list (error_page code host message hint extra) c =
      count_list (error_page code [] [] [] []) c + count_list extra c"
    and "count_list (starting_page host detail) c = count_list (starting_page [] []) c"
proof -
  have c: "c \<in> {CHR ''<'', CHR ''>'', CHR 0x22}" using assms by (simp add: markup_chars_def)
  note count = page_lines_def list.map map_append concat_append concat.simps count_list_append count_html_escape [OF c]
  show "count_list (error_page code host message hint extra) c =
      count_list (error_page code [] [] [] []) c + count_list extra c"
    unfolding error_page_def by (simp only: count count_list.simps(1))
  show "count_list (starting_page host detail) c = count_list (starting_page [] []) c"
    unfolding starting_page_def by (simp only: count)
qed

text \<open>
  What a page shows of a host, a message or a hint is text: whatever they contain, the page
  has the angle brackets and quotation marks of the template and of the static block alone, and two
  different texts are never shown alike.
\<close>

theorem error_page_escapes:
  "map (count_list (error_page code host message hint extra)) markup_chars =
     map (\<lambda>c. count_list (error_page code [] [] [] []) c + count_list extra c) markup_chars \<and>
   map (count_list (starting_page host detail)) markup_chars =
     map (count_list (starting_page [] [])) markup_chars \<and>
   (html_escape host = html_escape host' \<longleftrightarrow> host = host')"
  by (intro conjI map_cong [OF refl] html_escape_inj error_page_markup)


section \<open>Reading the head loses nothing\<close>

lemma read_request_head_Read:
  assumes "read_request_head parse buf rs = HeadRead head buf' rs'"
  shows "\<exists>n h. parse buf' = HpComplete n h \<and> head = request_head_of n h \<and> head_host h \<noteq> [] \<and>
    buf' @ readable (relay_reads rs') = buf @ readable (relay_reads rs)"
  using assms
proof (induction parse buf rs rule: read_request_head.induct)
  case (4 parse buf d rs)
  have "readable (relay_reads (ClientBytes d # rs)) = d @ readable (relay_reads rs)" if "d \<noteq> []"
    using that by (cases d) (simp_all add: relay_reads_def)
  with 4 show ?case by (auto split: if_splits http_parse.splits)
qed simp_all

text \<open>Where a connection whose head is read goes.\<close>

lemma connection_routes:
  assumes "read_request_head (px_parse px) [] rs = HeadRead head buf rs'"
    and "registry_lookup (rw_registry (routes_of (ps_daemon s))) (rh_host head) = Some (key, entry)"
  shows "e_mode entry = ModeEgress \<Longrightarrow> handle_connection px rs s = handle_egress px head entry buf s"
    and "e_mode entry = ModeHttp \<Longrightarrow> px_connect px (e_target entry) = Connected \<Longrightarrow>
      handle_connection px rs s = (ProxyRelayed (e_target entry)
        (forward_requests (px_accepts px) (px_parse px) Http (px_peer px) buf (relay_reads rs')), s)"
    and "e_mode entry = ModeHttp \<Longrightarrow> px_connect px (e_target entry) = ConnectFailed err \<Longrightarrow>
      rh_method head = ''POST'' \<Longrightarrow> rh_path head = start_path \<Longrightarrow> handle_start_request px head (ps_daemon s) = (out, d) \<Longrightarrow>
      handle_connection px rs s = (ProxyAnswered out, s\<lparr>ps_daemon := d\<rparr>)"
  using assms by (simp_all add: handle_connection_def route_request_def Let_def)

section \<open>The egress hop\<close>

lemma authorize_hop_eq:
  "authorize_hop px host target spec headers s = (permitted, s') \<Longrightarrow>
   ps_masker s' = ps_masker s \<and> ps_source s' = ps_source s \<and>
   (\<exists>file. ps_daemon s' = (ps_daemon s)\<lparr>dm_grants := file\<rparr>)"
  by (auto simp: authorize_hop_def split: credential_source.splits prod.splits intro: exI [of _ "dm_grants (ps_daemon s)"])

lemma resolve_hop_eq: "resolve_hop px spec s = (val, s') \<Longrightarrow> ps_daemon s' = ps_daemon s"
  by (auto simp: resolve_hop_def split: credential_source.splits prod.splits)

lemma resolve_hop_Some: "resolve_hop px spec s = (Some val, s') \<Longrightarrow> px_credentials px = SupervisorCredentials"
  by (auto simp: resolve_hop_def split: credential_source.splits)

lemma rewrite_head_None: "rewrite_head meth path headers spec val = None \<Longrightarrow> has_line_break (egress_spec_render spec val)"
  by (simp add: rewrite_head_def Let_def split: if_splits)

lemma handle_egress_never_panics: "fst (handle_egress px head entry buf s) \<noteq> ProxyPanic"
  by (auto simp: handle_egress_def Let_def dest: rewrite_head_None split: option.splits prod.splits connected.splits)

lemma handle_egress_sends:
  assumes "handle_egress px head entry buf s = (ProxyEgress target spec out, s')"
  shows "\<not> cross_origin head \<and> e_egress entry = Some spec \<and> e_target entry = target \<and>
    px_credentials px = SupervisorCredentials \<and>
    (\<exists>s1 val. authorize_hop px (rh_host head) target spec (rh_headers head) s = (True, s1) \<and>
      resolve_hop px spec s1 = (Some val, s') \<and> val \<noteq> [] \<and>
      (\<exists>h. rewrite_head (rh_method head) (rh_path head) (rh_headers head) spec val = Some h \<and>
        out = h @ drop (rh_end head) buf))"
  using assms
  by (auto simp: handle_egress_def Let_def dest: resolve_hop_Some split: option.splits prod.splits connected.splits if_splits)

lemma handle_egress_grants: "\<exists>f. ps_daemon (snd (handle_egress px head entry buf s)) = (ps_daemon s)\<lparr>dm_grants := f\<rparr>"
  by (auto simp: handle_egress_def Let_def dest!: resolve_hop_eq authorize_hop_eq intro: exI [of _ "dm_grants (ps_daemon s)"]
      split: option.splits prod.splits connected.splits)

text \<open>
  C1: Bytes go to an external upstream only from a connection whose head was read whole and names
  a host that is routed as egress to exactly that target; if the request has an \<open>Origin\<close>, it is that
  host's, and the request does not call itself cross-site (what the guard looks at: it is weaker than
  same origin, see \<open>sibling_page_passes_guard\<close>); the listener has the supervisor's credentials, and
  where the broker is managed or the route demands a token the request carries a live grant's bearer
  for that host and route. The credential is not empty, and what is sent is the rewritten head with
  it followed by the bytes after the head. No connection panics.
\<close>

theorem egress_needs_authority:
  assumes "grants_ok (dm_grants (ps_daemon s))"
    and "handle_connection px rs s = (result, s')"
  shows "result \<noteq> ProxyPanic \<and>
    (\<forall>target spec out. result = ProxyEgress target spec out \<longrightarrow>
      (\<exists>head buf rs' key entry val h s1.
        read_request_head (px_parse px) [] rs = HeadRead head buf rs' \<and>
        registry_lookup (rw_registry (routes_of (ps_daemon s))) (rh_host head) = Some (key, entry) \<and>
        e_mode entry = ModeEgress \<and> e_target entry = target \<and> e_egress entry = Some spec \<and>
        (\<forall>origin. rh_origin head = Some origin \<longrightarrow> origin_host origin = Some (rh_host head)) \<and>
        rh_fetch_site head \<noteq> Some ''cross-site'' \<and> px_credentials px = SupervisorCredentials \<and>
        (sv_managed (dm_sv (ps_daemon s)) \<or> es_require_caller_token spec \<longrightarrow>
          (\<exists>token i g. request_bearer (rh_headers head) = Some token \<and>
            bt_get (file_grants (dm_grants (ps_daemon s))) i = Some (Some g) \<and>
            grant_matches (rh_host head) (route_identity (px_sha256 px) (px_route_ser px) (target, spec)) (px_now px)
              (px_sha256 px token) g)) \<and>
        resolve_hop px spec s1 = (Some val, s') \<and> val \<noteq> [] \<and>
        rewrite_head (rh_method head) (rh_path head) (rh_headers head) spec val = Some h \<and>
        out = h @ drop (rh_end head) buf))"
proof (cases "read_request_head (px_parse px) [] rs")
  case (HeadRead head buf rs')
  with assms(2) have route: "route_request px head buf rs' s = (result, s')" by (simp add: handle_connection_def)
  show ?thesis
  proof (cases "\<exists>key entry. registry_lookup (rw_registry (routes_of (ps_daemon s))) (rh_host head) = Some (key, entry) \<and> e_mode entry = ModeEgress")
    case False
    with route show ?thesis
      by (auto simp: route_request_def Let_def split: option.splits prod.splits if_splits connected.splits)
  next
    case True
    then obtain key entry where e: "registry_lookup (rw_registry (routes_of (ps_daemon s))) (rh_host head) = Some (key, entry)"
      "e_mode entry = ModeEgress" by blast
    with route have hop: "handle_egress px head entry buf s = (result, s')" by (simp add: route_request_def Let_def)
    have "result \<noteq> ProxyPanic" using handle_egress_never_panics [of px head entry buf s] hop by simp
    moreover have ?thesis if "result = ProxyEgress target spec out" for target spec out
    proof -
      from handle_egress_sends [OF hop [unfolded that]] obtain s1 val h where sent:
        "\<not> cross_origin head" "e_egress entry = Some spec" "e_target entry = target" "px_credentials px = SupervisorCredentials"
        "authorize_hop px (rh_host head) target spec (rh_headers head) s = (True, s1)" "resolve_hop px spec s1 = (Some val, s')"
        "val \<noteq> []" "rewrite_head (rh_method head) (rh_path head) (rh_headers head) spec val = Some h"
        "out = h @ drop (rh_end head) buf" by blast
      have "fst (authorize_supervisor (sv_managed (dm_sv (ps_daemon s))) (px_sha256 px) (px_route_ser px) (px_clock px)
          (px_save_out px) (rh_host head) target spec (rh_headers head) (px_now px) (dm_grants (ps_daemon s)))"
        using sent(4,5) by (simp add: authorize_hop_def split: prod.splits)
      note live = managed_broker_needs_grant [OF assms(1) _ this]
      have "\<forall>origin. rh_origin head = Some origin \<longrightarrow> origin_host origin = Some (rh_host head)"
        and "rh_fetch_site head \<noteq> Some ''cross-site''"
        using sent(1) by (auto simp: cross_origin_def foreign_origin_def)
      then show ?thesis using that sent e HeadRead live by auto
    qed
    ultimately show ?thesis by blast
  qed
qed (use assms(2) in \<open>auto simp: handle_connection_def\<close>)


section \<open>The start button\<close>

lemma start_host_changes:
  assumes "snd (start_host de sn host d) \<noteq> d"
  shows "\<not> sv_managed (dm_sv d) \<and> (\<exists>service sv w. service_for_host (dm_sv d) host = Some service \<and>
    snd (up (env_of d) (de_runtime de) (de_save de) [service] (dm_sv d) (dm_fs d)) = (sv, w) \<and>
    snd (start_host de sn host d) = d\<lparr>dm_sv := sv, dm_fs := w\<rparr>)"
  using assms by (auto simp: start_host_def split: option.splits prod.splits sum.splits if_splits)

text \<open>
  C5: A request changes what the daemon supervises only as the start button: it is a \<open>POST\<close> to
  the reserved path on a routed host that is neither TCP nor egress, connecting to its target
  just failed, the page it comes from, if it says so, is of that host, and the change is that of
  starting the one service the host belongs to; never under a managed broker. Any other request
  leaves the daemon as it is but for the record the grants keep of a use.
\<close>

theorem start_only_when_down:
  assumes "handle_connection px rs s = (result, s')"
    and "ps_daemon s' \<noteq> (ps_daemon s)\<lparr>dm_grants := dm_grants (ps_daemon s')\<rparr>"
  shows "\<exists>head buf rs' key entry err service sv w.
    read_request_head (px_parse px) [] rs = HeadRead head buf rs' \<and>
    rh_method head = ''POST'' \<and> rh_path head = ''/.portman/start'' \<and>
    registry_lookup (rw_registry (routes_of (ps_daemon s))) (rh_host head) = Some (key, entry) \<and>
    e_mode entry \<noteq> ModeTcp \<and> e_mode entry \<noteq> ModeEgress \<and> px_connect px (e_target entry) = ConnectFailed err \<and>
    (case rh_origin head of None \<Rightarrow> True | Some origin \<Rightarrow> origin_host origin = Some (rh_host head)) \<and>
    \<not> sv_managed (dm_sv (ps_daemon s)) \<and>
    service_for_host (dm_sv (ps_daemon s)) (rh_host head) = Some service \<and>
    snd (up (env_of (ps_daemon s)) (de_runtime (px_daemon px)) (de_save (px_daemon px)) [service]
      (dm_sv (ps_daemon s)) (dm_fs (ps_daemon s))) = (sv, w) \<and>
    ps_daemon s' = (ps_daemon s)\<lparr>dm_sv := sv, dm_fs := w\<rparr>"
proof -
  let ?d = "ps_daemon s"
  have same: "ps_daemon s' \<noteq> ?d\<lparr>dm_grants := f\<rparr>" for f using assms(2) by auto
  have changed: "ps_daemon s' \<noteq> ?d" using same [of "dm_grants ?d"] by auto
  obtain head buf rs' where head: "read_request_head (px_parse px) [] rs = HeadRead head buf rs'"
    and route: "route_request px head buf rs' s = (result, s')"
    using assms(1) changed by (auto simp: handle_connection_def split: head_read.splits)
  obtain key entry where e: "registry_lookup (rw_registry (routes_of ?d)) (rh_host head) = Some (key, entry)"
    using route changed by (auto simp: route_request_def Let_def split: option.splits)
  have "handle_egress px head entry buf s \<noteq> (result, s')"
    using handle_egress_grants [of px head entry buf s] same by auto
  then have http: "e_mode entry \<noteq> ModeTcp" "e_mode entry \<noteq> ModeEgress"
    using route e changed by (auto simp: route_request_def Let_def)
  obtain err out d where c: "px_connect px (e_target entry) = ConnectFailed err" "rh_method head = ''POST''"
    "rh_path head = start_path" "handle_start_request px head ?d = (out, d)" "ps_daemon s' = d"
    using route e http changed by (auto simp: route_request_def Let_def split: connected.splits if_splits prod.splits)
  have own: "\<not> foreign_origin head" "d = snd (start_host (px_daemon px) (px_start px) (rh_host head) ?d)"
    using c(4,5) changed by (auto simp: handle_start_request_def split: if_splits prod.splits sum.splits)
  from own(1) have "case rh_origin head of None \<Rightarrow> True | Some origin \<Rightarrow> origin_host origin = Some (rh_host head)"
    by (simp add: foreign_origin_def split: option.splits)
  moreover have "snd (start_host (px_daemon px) (px_start px) (rh_host head) ?d) \<noteq> ?d" using own(2) c(5) changed by simp
  from start_host_changes [OF this] obtain service sv w where
    "\<not> sv_managed (dm_sv ?d)" "service_for_host (dm_sv ?d) (rh_host head) = Some service"
    "snd (up (env_of ?d) (de_runtime (px_daemon px)) (de_save (px_daemon px)) [service] (dm_sv ?d) (dm_fs ?d)) = (sv, w)"
    "ps_daemon s' = ?d\<lparr>dm_sv := sv, dm_fs := w\<rparr>"
    using c(5) own(2) by metis
  ultimately show ?thesis
    using head e http c(1,2) c(3) [unfolded start_path_def]
    by (intro exI [of _ head] exI [of _ buf] exI [of _ rs'] exI [of _ key] exI [of _ entry] exI [of _ err]
        exI [of _ service] exI [of _ sv] exI [of _ w] conjI)
qed

section \<open>The local hop\<close>

lemma relay_whole_stream:
  assumes "parse_stable parse" and "strides_fit s" and "parse buf = HpComplete n h" and "buf @ readable reads = s"
  shows "parse_head parse scheme peer s = and_then (render_head scheme peer n h) (\<lambda>p. Inr (Some p))"
    and "\<exists>r out. forward_requests ok parse scheme peer buf reads = Some (r, out) \<and>
      (\<forall>k. r = Inr k \<longrightarrow> relayed parse scheme peer s out)"
proof -
  have "parse s = HpComplete n h" using assms(1,3,4) unfolding parse_stable_def by metis
  then show "parse_head parse scheme peer s = and_then (render_head scheme peer n h) (\<lambda>p. Inr (Some p))"
    by (simp add: parse_head_def)
  show "\<exists>r out. forward_requests ok parse scheme peer buf reads = Some (r, out) \<and>
      (\<forall>k. r = Inr k \<longrightarrow> relayed parse scheme peer s out)"
    using forward_requests_relays [OF assms(1), of buf reads ok scheme peer] assms(2,4) by simp
qed

text \<open>
  C6: A connection is relayed only to the target of the entry its first \<open>Host\<close> resolves to, which
  is neither TCP nor egress, and then the relay sends on the client's whole stream, from its very
  first byte, with every head rewritten: reading the first head to find the route loses and
  repeats nothing, however the bytes arrived. The daemon is not changed.
\<close>

theorem proxy_relays_stream:
  assumes "handle_connection px rs s = (ProxyRelayed target res, s')"
    and "parse_stable (px_parse px)" and "strides_fit (readable (relay_reads rs))"
  shows "s' = s \<and>
    (\<exists>n h key entry. parse_head (px_parse px) Http (px_peer px) (readable (relay_reads rs)) =
        and_then (render_head Http (px_peer px) n h) (\<lambda>p. Inr (Some p)) \<and>
      registry_lookup (rw_registry (routes_of (ps_daemon s))) (head_host h) = Some (key, entry) \<and>
      e_mode entry \<noteq> ModeTcp \<and> e_mode entry \<noteq> ModeEgress \<and> e_target entry = target \<and>
      px_connect px target = Connected) \<and>
    (\<exists>r out. res = Some (r, out) \<and>
      (\<forall>k. r = Inr k \<longrightarrow> relayed (px_parse px) Http (px_peer px) (readable (relay_reads rs)) out))"
proof -
  obtain head buf rs' where head: "read_request_head (px_parse px) [] rs = HeadRead head buf rs'"
    and route: "route_request px head buf rs' s = (ProxyRelayed target res, s')"
    using assms(1) by (auto simp: handle_connection_def split: head_read.splits)
  obtain n h where h: "px_parse px buf = HpComplete n h" "head = request_head_of n h"
    and stream: "buf @ readable (relay_reads rs') = readable (relay_reads rs)"
    using read_request_head_Read [OF head] by auto
  have "\<And>head entry buf s t r. fst (handle_egress px head entry buf s) \<noteq> ProxyRelayed t r"
    by (auto simp: handle_egress_def Let_def split: option.splits prod.splits connected.splits)
  then have not_egress: "handle_egress px head entry buf s \<noteq> (ProxyRelayed target res, s')" for entry by (metis fst_conv)
  obtain key entry where e: "registry_lookup (rw_registry (routes_of (ps_daemon s))) (rh_host head) = Some (key, entry)"
    "e_mode entry \<noteq> ModeTcp" "e_mode entry \<noteq> ModeEgress" "e_target entry = target" "px_connect px target = Connected"
    and res: "res = forward_requests (px_accepts px) (px_parse px) Http (px_peer px) buf (relay_reads rs')" "s' = s"
    using route not_egress
    by (auto simp: route_request_def Let_def split: option.splits prod.splits connected.splits if_splits)
  have "rh_host head = head_host h" by (simp add: h(2) request_head_of_def)
  with e res relay_whole_stream [OF assms(2,3) h(1) stream] show ?thesis by auto
qed


section \<open>Examples\<close>

text \<open>A parser of one-byte requests, and a connection to it.\<close>

definition tiny_parse :: "http_head \<Rightarrow> string \<Rightarrow> http_parse" where
  "tiny_parse h s = (case s of [] \<Rightarrow> HpPartial | _ \<Rightarrow> HpComplete 1 h)"

lemma tiny_parse_stable: "parse_stable (tiny_parse h)"
  by (auto simp: parse_stable_def tiny_parse_def split: list.splits)

definition tiny_head :: "string \<Rightarrow> string \<Rightarrow> (string \<times> string) list \<Rightarrow> http_head" where
  "tiny_head meth path headers = \<lparr>hh_method = Some meth, hh_path = Some path, hh_version = None, hh_headers = headers\<rparr>"

definition proxy_example :: "http_head \<Rightarrow> connected \<Rightarrow> unit proxy_env" where
  "proxy_example h c =
     \<lparr>px_parse = tiny_parse h, px_peer = ''127.0.0.1'', px_connect = (\<lambda>_. c), px_connect_egress = (\<lambda>_ _. Connected),
      px_accepts = (\<lambda>_. True), px_credentials = SupervisorCredentials, px_sha256 = (\<lambda>t. t), px_route_ser = (\<lambda>_. ''r''),
      px_clock = sample_clock, px_save_out = Saved, px_now = 20, px_provider = op_example_env,
      px_digest8 = (\<lambda>_. ''01234567''), px_daemon = example_env,
      px_start = \<lparr>sn_list_all = None, sn_restart = (\<lambda>_. False), sn_start = (\<lambda>_. False), sn_sudo_user = None,
        sn_home = None, sn_run = (\<lambda>_. None)\<rparr>, px_explain = (\<lambda>_. [])\<rparr>"

definition egress_state :: "unit proxy_state" where
  "egress_state =
     \<lparr>ps_daemon = example_daemon\<lparr>dm_grants := sample_grants False,
        dm_creds := credentials_default\<lparr>cr_local := [(''LLM_KEY'', ''s3cr3t'')]\<rparr>,
        dm_sv := broker_example\<lparr>sv_secrets := [(''llm'', own_block ''/w/a'' (LocalVault [''LLM_KEY'']))],
          sv_routes := \<lparr>rw_registry = [(''gh.test'', \<lparr>e_host = ''gh.test'', e_target = ''api.example.com:443'',
            e_source = SourceEgress, e_mode = ModeEgress, e_container_id = None, e_project = None,
            e_egress = Some llm_spec\<rparr>)], rw_certs = []\<rparr>\<rparr>\<rparr>,
      ps_source = vault_example, ps_masker = []\<rparr>"

abbreviation egress_head :: http_head where
  "egress_head \<equiv> tiny_head ''GET'' ''/v1'' (sample_headers @ [(''Host'', ''GH.test:80'')])"


lemma egress_head_read:
  "request_head_of 1 egress_head = \<lparr>rh_end = 1, rh_host = ''gh.test'', rh_wants_html = False, rh_method = ''GET'', rh_path = ''/v1'',
     rh_origin = None, rh_fetch_site = None, rh_headers = sample_headers @ [(''Host'', ''GH.test:80'')]\<rparr>"
  by code_simp

lemma tiny_reads: "rh_host (request_head_of 1 h) \<noteq> [] \<Longrightarrow>
    read_request_head (px_parse (proxy_example h c)) [] [ClientBytes ''G''] = HeadRead (request_head_of 1 h) ''G'' []"
  by (simp add: proxy_example_def tiny_parse_def request_head_of_def)

lemma egress_example_permitted:
  "fst (authorize_hop (proxy_example egress_head Connected) ''gh.test'' ''api.example.com:443'' llm_spec
     (rh_headers (request_head_of 1 egress_head)) egress_state)"
proof -
  have headers: "rh_headers (request_head_of 1 egress_head) = sample_headers @ [(''Host'', ''GH.test:80'')]"
    by (simp only: egress_head_read request_head.simps)
  have bearer: "request_bearer (sample_headers @ [(''Host'', ''GH.test:80'')]) = Some sample_token" by code_simp
  have "grant_matches ''gh.test'' ''r'' 20 sample_token (sample_grant\<lparr>g_revoked := False\<rparr>)"
    by (simp add: grant_matches_def sample_grant_def)
  then show ?thesis
    unfolding headers
    by (simp add: authorize_hop_def proxy_example_def authorize_supervisor_def egress_state_def broker_example_def llm_spec_def
        route_identity_def grants_permits_def bearer grants_observe_def sample_floor sample_grants_def
        grants_read_def grants_write_def active_grants_def Let_def)
qed

abbreviation gh_entry :: entry where
  "gh_entry \<equiv> \<lparr>e_host = ''gh.test'', e_target = ''api.example.com:443'', e_source = SourceEgress, e_mode = ModeEgress,
     e_container_id = None, e_project = None, e_egress = Some llm_spec\<rparr>"

lemma egress_example_runs:
  "\<exists>out s'. handle_connection (proxy_example egress_head Connected) [ClientBytes ''G''] egress_state =
      (ProxyEgress ''api.example.com:443'' llm_spec out, s')"
proof -
  define px where "px = proxy_example egress_head Connected"
  define head where "head = request_head_of 1 egress_head"
  have "fst (authorize_hop px ''gh.test'' ''api.example.com:443'' llm_spec (rh_headers head) egress_state)"
    using egress_example_permitted by (simp only: px_def head_def)
  then obtain s1 where a: "authorize_hop px ''gh.test'' ''api.example.com:443'' llm_spec (rh_headers head) egress_state = (True, s1)"
    by (cases "authorize_hop px ''gh.test'' ''api.example.com:443'' llm_spec (rh_headers head) egress_state") simp
  obtain fl where s1: "ps_daemon s1 = (ps_daemon egress_state)\<lparr>dm_grants := fl\<rparr>" "ps_source s1 = vault_example" "ps_masker s1 = []"
    using authorize_hop_eq [OF a] by (auto simp: egress_state_def)
  have "fst (resolve_egress_value op_example_env (\<lambda>_. ''01234567'') llm_spec (dm_sv (ps_daemon egress_state))
      (vault_example\<lparr>src_creds := dm_creds (ps_daemon egress_state)\<rparr>) []) = Some ''s3cr3t''" by code_simp
  then have "fst (resolve_hop px llm_spec s1) = Some ''s3cr3t''"
    using s1 by (simp add: resolve_hop_def px_def proxy_example_def case_prod_beta)
  then obtain s2 where v: "resolve_hop px llm_spec s1 = (Some ''s3cr3t'', s2)" by (cases "resolve_hop px llm_spec s1") simp
  have r: "read_request_head (px_parse px) [] [ClientBytes ''G''] = HeadRead head ''G'' []"
    unfolding px_def head_def by (rule tiny_reads) (simp only: egress_head_read request_head.simps, simp)
  have lookup: "registry_lookup (rw_registry (routes_of (ps_daemon egress_state))) ''gh.test'' = Some (''gh.test'', gh_entry)"
    by code_simp
  have small: "\<not> cross_origin head" "rh_host head = ''gh.test''"
    unfolding head_def egress_head_read by (simp_all add: cross_origin_def foreign_origin_def)
  have plain: "\<not> has_line_break (egress_spec_render llm_spec ''s3cr3t'')" by code_simp
  have c: "px_connect_egress px t spec = Connected" for t spec by (simp add: px_def proxy_example_def)
  have "\<exists>out. handle_egress px head gh_entry ''G'' egress_state = (ProxyEgress ''api.example.com:443'' llm_spec out, s2)"
    using small plain a v c by (simp add: handle_egress_def Let_def rewrite_head_def)
  then show ?thesis
    unfolding px_def [symmetric] using connection_routes(1) [OF r] small(2) lookup by (auto simp del: One_nat_def)
qed

theorem egress_needs_authority_witness:
  "\<exists>out s'. handle_connection (proxy_example egress_head Connected) [ClientBytes ''G''] egress_state =
      (ProxyEgress ''api.example.com:443'' llm_spec out, s') \<and>
    (\<exists>token i g. request_bearer (rh_headers (request_head_of 1 egress_head)) = Some token \<and>
      bt_get (file_grants (sample_grants False)) i = Some (Some g) \<and> grant_matches ''gh.test'' ''r'' 20 token g)"
proof -
  obtain out s' where run: "handle_connection (proxy_example egress_head Connected) [ClientBytes ''G''] egress_state =
      (ProxyEgress ''api.example.com:443'' llm_spec out, s')" using egress_example_runs by blast
  have host: "rh_host (request_head_of 1 egress_head) = ''gh.test''" by (simp only: egress_head_read request_head.simps)
  have r: "read_request_head (px_parse (proxy_example egress_head Connected)) [] [ClientBytes ''G''] =
      HeadRead (request_head_of 1 egress_head) ''G'' []" by (rule tiny_reads) (simp only: host, simp)
  have px: "px_parse (proxy_example egress_head Connected) = tiny_parse egress_head"
    "px_sha256 (proxy_example egress_head Connected) = (\<lambda>t. t)" "px_route_ser (proxy_example egress_head Connected) = (\<lambda>_. ''r'')"
    "px_now (proxy_example egress_head Connected) = 20" by (simp_all add: proxy_example_def)
  have s: "dm_grants (ps_daemon egress_state) = sample_grants False" "sv_managed (dm_sv (ps_daemon egress_state))"
    by (simp_all add: egress_state_def broker_example_def)
  from egress_needs_authority [OF _ run] have "\<exists>token i g. request_bearer (rh_headers (request_head_of 1 egress_head)) = Some token \<and>
      bt_get (file_grants (sample_grants False)) i = Some (Some g) \<and> grant_matches ''gh.test'' ''r'' 20 token g"
    unfolding r px(2-4) s route_identity_def using s(2) host sample_grants_ok by (auto simp del: One_nat_def)
  with run show ?thesis by blast
qed


definition local_state :: "unit proxy_state" where
  "local_state =
     \<lparr>ps_daemon = example_daemon\<lparr>dm_sv := (runner_example False RestartAlways)\<lparr>
          sv_slots := [(''crm'', slot_new ''/r'' (crm_service\<lparr>sd_host := Some ''web.test''\<rparr>) False)],
          sv_routes := \<lparr>rw_registry = [example_entry SourceService], rw_certs = []\<rparr>\<rparr>\<rparr>,
      ps_source = vault_example, ps_masker = []\<rparr>"

abbreviation start_head :: http_head where
  "start_head \<equiv> tiny_head ''POST'' ''/.portman/start'' [(''Host'', ''web.test''), (''Origin'', ''http://web.test'')]"

lemma start_head_read:
  "request_head_of 1 start_head = \<lparr>rh_end = 1, rh_host = ''web.test'', rh_wants_html = False, rh_method = ''POST'',
     rh_path = ''/.portman/start'', rh_origin = Some ''http://web.test'', rh_fetch_site = None,
     rh_headers = [(''Host'', ''web.test''), (''Origin'', ''http://web.test'')]\<rparr>"
  by code_simp

lemma local_lookup: "registry_lookup (rw_registry (routes_of (ps_daemon local_state))) ''web.test'' = Some (example_entry SourceService)"
  by code_simp

lemma up_single:
  fixes save :: "('e, 'w) saver"
  assumes "\<not> sv_managed sv" and "sv_slots sv = [(name, sl)]" and "sd_depends (sl_def sl) = []"
  shows "is_ok (fst (up env rt save [name] sv w))"
    and "map_option sl_desired (bt_get (sv_slots (fst (snd (up env rt save [name] sv w)))) name) = Some True"
proof -
  have "(expand_targets sv [name] True :: 'e sup_error + string list) = Inr [name]"
    using assms by (simp add: expand_targets_def slot_deps_def bt_get_def bset_def bt_contains_def)
  then show "is_ok (fst (up env rt save [name] sv w))"
    and "map_option sl_desired (bt_get (sv_slots (fst (snd (up env rt save [name] sv w)))) name) = Some True"
    using assms by (simp_all add: up_def up_one_def update_slot_def start_slot_def bt_get_def Let_def)
qed

theorem start_only_when_down_witness:
  "\<exists>out s'. handle_connection (proxy_example start_head (ConnectFailed ''refused'')) [ClientBytes ''G''] local_state = (out, s') \<and>
     service_for_host (dm_sv (ps_daemon local_state)) ''web.test'' = Some ''crm'' \<and>
     map_option sl_desired (bt_get (sv_slots (dm_sv (ps_daemon s'))) ''crm'') = Some True"
proof -
  define px where "px = proxy_example start_head (ConnectFailed ''refused'')"
  define head where "head = request_head_of 1 start_head"
  let ?d = "ps_daemon local_state"
  have r: "read_request_head (px_parse px) [] [ClientBytes ''G''] = HeadRead head ''G'' []"
    unfolding px_def head_def by (rule tiny_reads) (simp only: start_head_read request_head.simps, simp)
  have hd: "rh_host head = ''web.test''" "rh_method head = ''POST''" "rh_path head = start_path" "\<not> foreign_origin head"
    unfolding head_def start_head_read
    by (simp_all add: foreign_origin_def origin_host_def start_path_def to_ascii_lowercase_def ascii_lower_char_def is_ascii_uppercase_def)
  have px: "px_connect px t = ConnectFailed ''refused''" "px_daemon px = example_env" for t by (simp_all add: px_def proxy_example_def)
  let ?up = "up (env_of ?d) (de_runtime example_env) (de_save example_env) [''crm''] (dm_sv ?d) (dm_fs ?d)"
  let ?sl = "slot_new ''/r'' (crm_service\<lparr>sd_host := Some ''web.test''\<rparr>) False"
  have slot: "\<not> sv_managed (dm_sv ?d)" "sv_slots (dm_sv ?d) = [(''crm'', ?sl)]" "sd_depends (sl_def ?sl) = []"
    by (simp_all add: local_state_def runner_example_def slot_new_def crm_service_def)
  note up = up_single [OF slot, of "env_of ?d" "de_runtime example_env" "de_save example_env" "dm_fs ?d"]
  have was: "map_option sl_desired (bt_get (sv_slots (dm_sv ?d)) ''crm'') = Some False"
    and sfh: "service_for_host (dm_sv ?d) ''web.test'' = Some ''crm''" "\<not> sv_managed (dm_sv ?d)"
    by (simp_all add: local_state_def example_daemon_def runner_example_def slot_new_def service_for_host_def bt_get_def)
  obtain out d where hs: "handle_start_request px head ?d = (out, d)" by (cases "handle_start_request px head ?d")
  have d: "dm_sv d = fst (snd ?up)"
    using hs up(1) hd sfh px(2) by (auto simp: handle_start_request_def start_host_def is_ok_iff split: prod.splits)
  have run: "handle_connection px [ClientBytes ''G''] local_state = (ProxyAnswered out, local_state\<lparr>ps_daemon := d\<rparr>)"
    using connection_routes(3) [OF r _ _ px(1) hd(2,3) hs] hd(1) local_lookup by (simp add: example_entry_def)
  have "d \<noteq> ?d\<lparr>dm_grants := dm_grants d\<rparr>"
  proof
    assume "d = ?d\<lparr>dm_grants := dm_grants d\<rparr>"
    then have "dm_sv d = dm_sv ?d" by (metis daemon.select_convs(1) daemon.surjective daemon.update_convs(6))
    with d up(2) was show False by simp
  qed
  with start_only_when_down [OF run] have "service_for_host (dm_sv ?d) ''web.test'' = Some ''crm'' \<and> d \<noteq> ?d"
    using sfh by auto
  with run up(2) d show ?thesis unfolding px_def by auto
qed


abbreviation plain_head :: http_head where
  "plain_head \<equiv> tiny_head ''GET'' ''/'' [(''Host'', ''web.test'')]"

lemma plain_head_read:
  "request_head_of 1 plain_head = \<lparr>rh_end = 1, rh_host = ''web.test'', rh_wants_html = False, rh_method = ''GET'',
     rh_path = ''/'', rh_origin = None, rh_fetch_site = None, rh_headers = [(''Host'', ''web.test'')]\<rparr>"
  by code_simp

lemma tiny_relay:
  assumes "render_head scheme peer 1 h = Inr p" and "pd_body p = BodyFixed 0" and "\<not> pd_upgrade p"
  shows "\<exists>k out. forward_requests (\<lambda>_. True) (tiny_parse h) scheme peer ''G'' [] = Some (Inr k, out)"
proof -
  have p: "parse_head (tiny_parse h) scheme peer ''G'' = Inr (Some p)" "parse_head (tiny_parse h) scheme peer [] = Inr None"
    "pd_len p = 1" using assms(1) by (auto simp: parse_head_def tiny_parse_def render_head_def and_then_Inr)
  have stop: "request_loop (\<lambda>_. True) (tiny_parse h) scheme peer \<lparr>lk_buf = [], lk_reads = [], lk_out = out, lk_count = k\<rparr> =
      Some (Inr (), \<lparr>lk_buf = [], lk_reads = [], lk_out = out, lk_count = k\<rparr>)" for out k
    by (subst request_loop.simps, subst next_head.simps) (simp add: p relay_read_def relay_write_def max_header_bytes_def)
  have "request_loop (\<lambda>_. True) (tiny_parse h) scheme peer \<lparr>lk_buf = ''G'', lk_reads = [], lk_out = [], lk_count = 1\<rparr> =
      Some (Inr (), \<lparr>lk_buf = [], lk_reads = [], lk_out = pd_head p, lk_count = 1\<rparr>)"
    by (subst request_loop.simps, subst next_head.simps)
       (simp add: p relay_write_def assms(2,3) forward_body_def forward_fixed_zero stop)
  then show ?thesis by (simp add: forward_requests_def)
qed

theorem proxy_relays_stream_witness:
  "\<exists>k out. handle_connection (proxy_example plain_head Connected) [ClientBytes ''G''] local_state =
      (ProxyRelayed ''127.0.0.1:3000'' (Some (Inr k, out)), local_state) \<and>
    relayed (tiny_parse plain_head) Http ''127.0.0.1'' ''G'' out"
proof -
  define px where "px = proxy_example plain_head Connected"
  define head where "head = request_head_of 1 plain_head"
  have host: "rh_host head = ''web.test''" unfolding head_def plain_head_read by simp
  have r: "read_request_head (px_parse px) [] [ClientBytes ''G''] = HeadRead head ''G'' []"
    unfolding px_def head_def by (rule tiny_reads) (simp only: plain_head_read request_head.simps, simp)
  have px: "px_parse px = tiny_parse plain_head" "px_peer px = ''127.0.0.1''" "px_accepts px = (\<lambda>_. True)" "px_connect px t = Connected" for t
    by (simp_all add: px_def proxy_example_def)
  have "case render_head Http ''127.0.0.1'' 1 plain_head of Inr p \<Rightarrow> pd_body p = BodyFixed 0 \<and> \<not> pd_upgrade p | Inl _ \<Rightarrow> False"
    by code_simp
  then obtain k out where fwd: "forward_requests (\<lambda>_. True) (tiny_parse plain_head) Http ''127.0.0.1'' ''G'' [] = Some (Inr k, out)"
    using tiny_relay [of Http "''127.0.0.1''" plain_head] by (auto split: sum.splits)
  have run: "handle_connection px [ClientBytes ''G''] local_state = (ProxyRelayed ''127.0.0.1:3000'' (Some (Inr k, out)), local_state)"
    using connection_routes(2) [OF r, of local_state "''web.test''" "snd (example_entry SourceService)"] local_lookup host px fwd
    by (simp add: example_entry_def relay_reads_def)
  have st: "readable (relay_reads [ClientBytes ''G'']) = ''G''" by (simp add: relay_reads_def)
  have "parse_stable (px_parse px)" "strides_fit (readable (relay_reads [ClientBytes ''G'']))"
    unfolding px st using tiny_parse_stable by (auto intro: strides_fit_short)
  from proxy_relays_stream [OF run this] have "relayed (tiny_parse plain_head) Http ''127.0.0.1'' ''G'' out"
    unfolding px st by auto
  with run show ?thesis unfolding px_def by blast
qed

text \<open>
  The cross-origin guard refuses \<open>cross-site\<close> only: a request a page of a sibling host makes
  (\<open>same-site\<close>, and no \<open>Origin\<close> on a simple \<open>GET\<close>) passes it.
\<close>

lemma sibling_page_passes_guard:
  "\<not> cross_origin (request_head_of n (tiny_head ''GET'' ''/v1'' [(''Host'', ''api.acme.test''), (''Sec-Fetch-Site'', ''same-site'')]))"
  by code_simp

end
