(* ===== verification/Fronts.thy ===== *)
theory Fronts
  imports Registry Loopback Net_Addr
begin

text \<open>
  Where names lead, \<open>portman-daemon/src/dns.rs\<close>, \<open>tcp_forward.rs\<close> and the choice of a socket in
  \<open>upstream.rs\<close>: DNS answers HTTP names with the proxy's address and TCP names with their loopback
  front, and the forwarders keep a listener on every such front. Platform calls (aliases, binding)
  are parameters by their outcome. The order in which a map is walked is that of its list.
\<close>

section \<open>Addresses\<close>

definition host_proxy_ip :: u32 where
  "host_proxy_ip = 0x7F000001"

fun ipv4_word :: "ipv4 \<Rightarrow> u32" where
  "ipv4_word (Ipv4 a b c d) = of_nat (((a * 256 + b) * 256 + c) * 256 + d)"

definition loopback_ip :: "u32 \<Rightarrow> bool" where
  "loopback_ip ip \<longleftrightarrow> drop_bit 24 ip = 127"

definition target_ipv4 :: "string \<Rightarrow> u32 option" where
  "target_ipv4 target =
     (case rsplit_once CHR '':'' target of
        None \<Rightarrow> None
      | Some (host_part, _) \<Rightarrow>
          (case parse_ip_addr host_part of Some (V4 v4) \<Rightarrow> Some (ipv4_word v4) | _ \<Rightarrow> None))"

definition bridge_subnet :: "ipv4 \<Rightarrow> bool" where
  "bridge_subnet ip = (case ip of Ipv4 a b c _ \<Rightarrow> a = 192 \<and> b = 168 \<and> c = 99)"

text \<open>An IPv6 socket address is never on the bridge, so only the IPv4 form matters.\<close>

definition scoped_route :: "string \<Rightarrow> u32 option \<Rightarrow> ((ipv4 \<times> u16) \<times> u32) option" where
  "scoped_route target bridge =
     (case parse_socket_v4 target of
        None \<Rightarrow> None
      | Some addr \<Rightarrow> if \<not> bridge_subnet (fst addr) then None else map_option (\<lambda>ifindex. (addr, ifindex)) bridge)"

section \<open>DNS\<close>

text \<open>
  One listener: the address loopback answers become, and the allocator on the host-facing one. The
  outer option is the allocator's: its search may not end.
\<close>

definition lookup_ipv4 ::
  "u32 option \<Rightarrow> registry \<Rightarrow> string \<Rightarrow> loopback_map option \<Rightarrow> (u32 option \<times> loopback_map option) option" where
  "lookup_ipv4 rewrite_localhost reg host loopback =
     (case registry_lookup reg host of
        None \<Rightarrow> Some (None, loopback)
      | Some (_, entry) \<Rightarrow>
          Option.bind
            (case e_mode entry of
               ModeTcp \<Rightarrow>
                 (case loopback of
                    Some alloc \<Rightarrow> map_option (\<lambda>(ip, alloc). (Some ip, Some alloc)) (get_or_assign host alloc)
                  | None \<Rightarrow> Some (target_ipv4 (e_target entry), None))
             | _ \<Rightarrow> Some (Some host_proxy_ip, loopback))
            (\<lambda>(raw, loopback). Some (map_option (\<lambda>raw. case rewrite_localhost of
                 Some rewrite \<Rightarrow> if loopback_ip raw then rewrite else raw
               | None \<Rightarrow> raw) raw, loopback)))"

datatype query_type = QueryA | QueryOther

datatype dns_answer = DnsA string u32 u32 | DnsEmpty | DnsNxDomain | DnsServFail | DnsFormErr

definition answer_ttl :: u32 where
  "answer_ttl = 30"

definition trim_end_dots :: "string \<Rightarrow> string" where
  "trim_end_dots s = rev (dropWhile (\<lambda>c. c = CHR ''.'') (rev s))"

text \<open>\<open>Name::from_ascii\<close> of \<open>hickory\<close> is a parameter; the query is \<open>None\<close> when it cannot be read.\<close>

definition respond_a :: "(string \<Rightarrow> bool) \<Rightarrow> string \<Rightarrow> u32 \<Rightarrow> dns_answer" where
  "respond_a name_ok host ip = (if name_ok host then DnsA host ip answer_ttl else DnsServFail)"

definition dns_request ::
  "(string \<Rightarrow> bool) \<Rightarrow> u32 option \<Rightarrow> registry \<Rightarrow> (query_type \<times> string) option \<Rightarrow> loopback_map option
   \<Rightarrow> (dns_answer \<times> loopback_map option) option" where
  "dns_request name_ok rewrite_localhost reg query loopback =
     (case query of
        None \<Rightarrow> Some (DnsFormErr, loopback)
      | Some (qtype, qname) \<Rightarrow>
          let host = to_ascii_lowercase (trim_end_dots qname) in
          (case qtype of
             QueryA \<Rightarrow>
               map_option (\<lambda>(found, loopback).
                 (case found of Some ip \<Rightarrow> respond_a name_ok host ip | None \<Rightarrow> DnsNxDomain, loopback))
                 (lookup_ipv4 rewrite_localhost reg host loopback)
           | QueryOther \<Rightarrow> Some (DnsEmpty, loopback)))"

section \<open>Forwarders\<close>

definition target_port :: "string \<Rightarrow> u16 option" where
  "target_port target = (case rsplit_once CHR '':'' target of Some (_, p) \<Rightarrow> parse_u16 p | None \<Rightarrow> None)"

text \<open>
  A forwarder with its task: where it is to listen, and whether its bind succeeded; if not, the
  task has ended and only the record remains.
\<close>

record forward =
  fw_ip :: u32
  fw_target :: string
  fw_listen :: "u32 \<times> u16"
  fw_bound :: bool

record fronts =
  fr_running :: "(string, forward) hmap"
  fr_alloc :: loopback_map
  fr_aliases :: "u32 list"

record front_env =
  fe_ensure_alias :: "u32 \<Rightarrow> bool"
  fe_remove_alias :: "u32 \<Rightarrow> bool"
  fe_bind :: "u32 \<times> u16 \<Rightarrow> bool"

definition desired_forwards :: "registry \<Rightarrow> (string, string) hmap" where
  "desired_forwards reg =
     foldl (\<lambda>m e. hm_insert (e_host e) (e_target e) m) [] (filter (\<lambda>e. e_mode e = ModeTcp) (registry_list reg))"

definition stale_forwards :: "(string, string) hmap \<Rightarrow> (string, forward) hmap \<Rightarrow> string list" where
  "stale_forwards desired running =
     map fst (filter (\<lambda>(host, fwd). case hm_get desired host of Some t \<Rightarrow> t \<noteq> fw_target fwd | None \<Rightarrow> True) running)"

definition stop_forward :: "front_env \<Rightarrow> fronts \<Rightarrow> string \<Rightarrow> fronts" where
  "stop_forward fe st host =
     (case hm_get (fr_running st) host of
        None \<Rightarrow> st
      | Some fwd \<Rightarrow>
          st\<lparr>fr_running := hm_remove host (fr_running st),
             fr_aliases := (if fe_remove_alias fe (fw_ip fwd) then removeAll (fw_ip fwd) (fr_aliases st) else fr_aliases st)\<rparr>)"

definition spawn_forwarder :: "front_env \<Rightarrow> u32 \<Rightarrow> u16 \<Rightarrow> string \<Rightarrow> forward" where
  "spawn_forwarder fe ip port target =
     \<lparr>fw_ip = ip, fw_target = target, fw_listen = (ip, port), fw_bound = fe_bind fe (ip, port)\<rparr>"

definition start_forward :: "front_env \<Rightarrow> string \<times> string \<Rightarrow> fronts \<Rightarrow> fronts option" where
  "start_forward fe want st =
     (case want of (host, target) \<Rightarrow>
        if hm_get (fr_running st) host \<noteq> None then Some st
        else (case target_port target of
          None \<Rightarrow> Some st
        | Some port \<Rightarrow>
            Option.bind (get_or_assign host (fr_alloc st)) (\<lambda>(ip, alloc).
              if \<not> fe_ensure_alias fe ip then Some (st\<lparr>fr_alloc := alloc\<rparr>)
              else Some (st\<lparr>fr_alloc := alloc, fr_aliases := List.insert ip (fr_aliases st),
                fr_running := hm_insert host (spawn_forwarder fe ip port target) (fr_running st)\<rparr>))))"

fun start_forwards :: "front_env \<Rightarrow> (string \<times> string) list \<Rightarrow> fronts \<Rightarrow> fronts option" where
  "start_forwards fe [] st = Some st"
| "start_forwards fe (want # wants) st = Option.bind (start_forward fe want st) (start_forwards fe wants)"

definition reconcile_forwards :: "front_env \<Rightarrow> registry \<Rightarrow> fronts \<Rightarrow> fronts option" where
  "reconcile_forwards fe reg st =
     (let desired = desired_forwards reg;
          st = foldl (stop_forward fe) st (stale_forwards desired (fr_running st))
      in start_forwards fe desired st)"

section \<open>What is wanted\<close>

lemma hm_get_remove: "hm_get (hm_remove k m) j = (if j = k then None else hm_get m j)"
  by (simp add: hm_get_def hm_remove_def map_of_filter_key)

lemma hm_get_insert: "hm_get (hm_insert k v m) j = (if j = k then Some v else hm_get m j)"
  using hm_get_remove [of k m j] by (simp add: hm_insert_def hm_get_def)

lemma hm_insert_new: "k \<notin> fst ` set m \<Longrightarrow> hm_insert k v m = (k, v) # m"
  by (force simp: hm_insert_def hm_remove_def filter_id_conv)

lemma collect_distinct:
  "distinct (map e_host es) \<Longrightarrow> e_host ` set es \<inter> fst ` set m = {} \<Longrightarrow>
   foldl (\<lambda>m e. hm_insert (e_host e) (e_target e) m) m es = rev (map (\<lambda>e. (e_host e, e_target e)) es) @ m"
  by (induction es arbitrary: m) (auto simp: hm_insert_new)

lemma desired_forwards_eq:
  assumes "registry_ok reg"
  shows "desired_forwards reg = rev (map (\<lambda>e. (e_host e, e_target e)) (filter (\<lambda>e. e_mode e = ModeTcp) (map snd reg)))"
proof -
  have "map e_host (map snd reg) = map fst reg"
    using assms by (auto simp: registry_ok_def list_all_iff)
  then have "distinct (map e_host (filter (\<lambda>e. e_mode e = ModeTcp) (map snd reg)))"
    using assms by (metis distinct_map_filter hm_ok_def registry_ok_hm)
  then show ?thesis by (simp add: desired_forwards_def registry_list_def collect_distinct)
qed

lemma desired_forwards_ok:
  assumes "registry_ok reg"
  shows "hm_ok (desired_forwards reg)" and "length (desired_forwards reg) \<le> length reg"
    and "(host, target) \<in> set (desired_forwards reg) \<longleftrightarrow>
      (\<exists>e. hm_get reg host = Some e \<and> e_mode e = ModeTcp \<and> e_target e = target)"
proof -
  have "map e_host (map snd reg) = map fst reg"
    using assms by (auto simp: registry_ok_def list_all_iff)
  then have "distinct (map e_host (filter (\<lambda>e. e_mode e = ModeTcp) (map snd reg)))"
    using assms by (metis distinct_map_filter hm_ok_def registry_ok_hm)
  then show "hm_ok (desired_forwards reg)"
    by (simp add: desired_forwards_eq [OF assms] hm_ok_def rev_map [symmetric] comp_def)
  show "length (desired_forwards reg) \<le> length reg"
    using length_filter_le [of _ "map snd reg"] by (simp add: desired_forwards_eq [OF assms])
  have "e_host (snd b) = fst b" if "b \<in> set reg" for b using assms that by (cases b) (auto simp: registry_ok_def list_all_iff)
  then show "(host, target) \<in> set (desired_forwards reg) \<longleftrightarrow>
      (\<exists>e. hm_get reg host = Some e \<and> e_mode e = ModeTcp \<and> e_target e = target)"
    unfolding desired_forwards_eq [OF assms] hm_get_iff [OF registry_ok_hm [OF assms]] by force
qed

section \<open>Forwarders and allocator agree\<close>

text \<open>
  The invariant: every record is at the address its host is assigned, on its target's port.
\<close>

definition fronts_ok :: "fronts \<Rightarrow> bool" where
  "fronts_ok st \<longleftrightarrow> loopback_ok (fr_alloc st) \<and> hm_ok (fr_running st) \<and>
     list_all (\<lambda>(host, fwd). loopback_get (fr_alloc st) host = Some (fw_ip fwd) \<and> fst (fw_listen fwd) = fw_ip fwd \<and>
       target_port (fw_target fwd) = Some (snd (fw_listen fwd)) \<and> fw_ip fwd \<in> set (fr_aliases st)) (fr_running st)"

lemma fronts_ok_running:
  assumes "fronts_ok st" and "hm_get (fr_running st) host = Some fwd"
  shows "loopback_get (fr_alloc st) host = Some (fw_ip fwd)" "fst (fw_listen fwd) = fw_ip fwd"
    "target_port (fw_target fwd) = Some (snd (fw_listen fwd))" "fw_ip fwd \<in> set (fr_aliases st)"
  using assms by (auto simp: fronts_ok_def hm_get_def list_all_iff dest!: map_of_SomeD)

lemma loopback_distinct:
  assumes "loopback_ok m" and "loopback_get m a = Some ip" and "loopback_get m b = Some ip"
  shows "a = b"
proof -
  have "(a, ip) \<in> set m" "(b, ip) \<in> set m" using assms by (auto simp: loopback_get_def hm_get_iff loopback_ok_def)
  then show ?thesis using assms(1) by (auto simp: loopback_ok_def distinct_map inj_on_def) (metis prod.inject snd_conv)
qed

lemma stop_forward_ok:
  assumes "fronts_ok st"
  shows "fronts_ok (stop_forward fe st host)"
proof (cases "hm_get (fr_running st) host")
  case None
  with assms show ?thesis by (simp add: stop_forward_def)
next
  case (Some fwd)
  have "fw_ip f \<noteq> fw_ip fwd" if "(h, f) \<in> set (fr_running st)" "h \<noteq> host" for h f
  proof -
    have "hm_get (fr_running st) h = Some f" using that(1) assms by (simp add: hm_get_iff fronts_ok_def)
    from fronts_ok_running(1) [OF assms this] fronts_ok_running(1) [OF assms Some] loopback_distinct that(2) assms
    show ?thesis unfolding fronts_ok_def by metis
  qed
  with Some assms show ?thesis
    by (auto simp: stop_forward_def fronts_ok_def list_all_iff set_hm_remove hm_ok_remove)
qed

lemma stop_forwards:
  assumes "fronts_ok st"
  shows "fronts_ok (foldl (stop_forward fe) st hosts)"
    and "fr_alloc (foldl (stop_forward fe) st hosts) = fr_alloc st"
    and "hm_get (fr_running (foldl (stop_forward fe) st hosts)) host = (if host \<in> set hosts then None else hm_get (fr_running st) host)"
  using assms
  by (induction hosts arbitrary: st) (auto simp: stop_forward_ok, auto simp: stop_forward_def hm_get_remove split: option.splits)


definition new_front :: "front_env \<Rightarrow> loopback_map \<Rightarrow> string \<Rightarrow> string \<Rightarrow> forward option" where
  "new_front fe alloc host target =
     (case (target_port target, loopback_get alloc host) of
        (Some port, Some ip) \<Rightarrow> if fe_ensure_alias fe ip then Some (spawn_forwarder fe ip port target) else None
      | _ \<Rightarrow> None)"

text \<open>What the add pass makes of one host that is wanted.\<close>

definition started :: "front_env \<Rightarrow> fronts \<Rightarrow> fronts \<Rightarrow> string \<Rightarrow> string \<Rightarrow> bool" where
  "started fe st st' host target \<longleftrightarrow>
     hm_get (fr_running st') host =
       (case hm_get (fr_running st) host of Some fwd \<Rightarrow> Some fwd | None \<Rightarrow> new_front fe (fr_alloc st') host target) \<and>
     (hm_get (fr_running st) host = None \<and> target_port target \<noteq> None \<longrightarrow> loopback_get (fr_alloc st') host \<noteq> None)"

lemma get_or_assign_length: "get_or_assign host m = Some (ip, m') \<Longrightarrow> length m' \<le> Suc (length m)"
  using length_filter_le [of "\<lambda>b. fst b \<noteq> host" m]
  by (auto simp: get_or_assign_def hm_insert_def hm_remove_def split: option.splits)

lemma start_forward_returns:
  assumes "fronts_ok st" and "length (fr_alloc st) < 16580608"
  shows "\<exists>st'. start_forward fe (host, target) st = Some st' \<and> fronts_ok st' \<and>
    length (fr_alloc st') \<le> Suc (length (fr_alloc st)) \<and> started fe st st' host target \<and>
    (\<forall>h. h \<noteq> host \<longrightarrow> hm_get (fr_running st') h = hm_get (fr_running st) h) \<and>
    (\<forall>h ip. loopback_get (fr_alloc st) h = Some ip \<longrightarrow> loopback_get (fr_alloc st') h = Some ip)"
proof (cases "hm_get (fr_running st) host = None \<and> target_port target \<noteq> None")
  case False
  then have "start_forward fe (host, target) st = Some st" "started fe st st host target"
    by (auto simp: start_forward_def started_def new_front_def split: option.splits)
  with assms show ?thesis by auto
next
  case True
  then obtain port where port: "target_port target = Some port" by auto
  have "loopback_ok (fr_alloc st)" using assms(1) by (simp add: fronts_ok_def)
  from get_or_assign_correct [OF this assms(2), of host] obtain ip alloc where
    g: "get_or_assign host (fr_alloc st) = Some (ip, alloc)" "loopback_ok alloc" "loopback_get alloc host = Some ip"
    and keep: "\<And>h. loopback_get (fr_alloc st) h = None \<or> loopback_get alloc h = loopback_get (fr_alloc st) h"
    by blast
  have kept: "loopback_get alloc h = Some a" if "loopback_get (fr_alloc st) h = Some a" for h a using keep [of h] that by auto
  show ?thesis
  proof (cases "fe_ensure_alias fe ip")
    case False
    let ?st = "st\<lparr>fr_alloc := alloc\<rparr>"
    have "start_forward fe (host, target) st = Some ?st" using True port g False by (simp add: start_forward_def)
    moreover have "fronts_ok ?st" using assms(1) g(2) kept by (auto simp: fronts_ok_def list_all_iff)
    moreover have "started fe st ?st host target" using True port g False by (simp add: started_def new_front_def)
    ultimately show ?thesis using get_or_assign_length [OF g(1)] kept by auto
  next
    case fe: True
    let ?fwd = "spawn_forwarder fe ip port target"
    let ?st = "st\<lparr>fr_alloc := alloc, fr_aliases := List.insert ip (fr_aliases st), fr_running := hm_insert host ?fwd (fr_running st)\<rparr>"
    have "start_forward fe (host, target) st = Some ?st" using True port g fe by (simp add: start_forward_def)
    moreover have "fronts_ok ?st"
      using assms(1) g kept port by (auto simp: fronts_ok_def list_all_iff hm_insert_def set_hm_remove spawn_forwarder_def hm_ok_def hm_remove_def distinct_map_filter)
    moreover have "started fe st ?st host target" using True port g fe by (simp add: started_def new_front_def hm_get_insert)
    ultimately show ?thesis using get_or_assign_length [OF g(1)] kept by (auto simp: hm_get_insert)
  qed
qed

lemma start_forwards_returns:
  assumes "fronts_ok st" and "hm_ok wants" and "length (fr_alloc st) + length wants \<le> 16580608"
  shows "\<exists>st'. start_forwards fe wants st = Some st' \<and> fronts_ok st' \<and>
    (\<forall>(host, target)\<in>set wants. started fe st st' host target) \<and>
    (\<forall>h. h \<notin> fst ` set wants \<longrightarrow> hm_get (fr_running st') h = hm_get (fr_running st) h) \<and>
    (\<forall>h ip. loopback_get (fr_alloc st) h = Some ip \<longrightarrow> loopback_get (fr_alloc st') h = Some ip)"
  using assms
proof (induction wants arbitrary: st)
  case (Cons want wants)
  obtain host target where want: "want = (host, target)" by (cases want)
  obtain st1 where s1: "start_forward fe (host, target) st = Some st1" "fronts_ok st1"
    "length (fr_alloc st1) \<le> Suc (length (fr_alloc st))" "started fe st st1 host target"
    "\<And>h. h \<noteq> host \<Longrightarrow> hm_get (fr_running st1) h = hm_get (fr_running st) h"
    "\<And>h ip. loopback_get (fr_alloc st) h = Some ip \<Longrightarrow> loopback_get (fr_alloc st1) h = Some ip"
    using start_forward_returns [OF Cons.prems(1), of fe host target] Cons.prems(3) by auto
  have "hm_ok wants" "length (fr_alloc st1) + length wants \<le> 16580608"
    using Cons.prems(2,3) s1(3) by (auto simp: hm_ok_def)
  from Cons.IH [OF s1(2) this] obtain st2 where s2: "start_forwards fe wants st1 = Some st2" "fronts_ok st2"
    "\<forall>(host, target)\<in>set wants. started fe st1 st2 host target"
    "\<And>h. h \<notin> fst ` set wants \<Longrightarrow> hm_get (fr_running st2) h = hm_get (fr_running st1) h"
    "\<And>h ip. loopback_get (fr_alloc st1) h = Some ip \<Longrightarrow> loopback_get (fr_alloc st2) h = Some ip" by blast
  have new: "host \<notin> fst ` set wants" using Cons.prems(2) want by (simp add: hm_ok_def)
  have "started fe st st2 host target"
    using s1(4) s2(4) [OF new] s2(5) [of host]
    by (cases "loopback_get (fr_alloc st1) host") (auto simp: started_def new_front_def split: option.splits)
  moreover have "started fe st st2 h t" if "(h, t) \<in> set wants" for h t
  proof -
    have "h \<noteq> host" using that new by force
    with s2(3) that s1(5) [of h] show ?thesis by (auto simp: started_def)
  qed
  ultimately show ?case using s1 s2 want by auto
qed simp


section \<open>A TCP name leads to its target\<close>

lemma stale_forwards_get:
  assumes "hm_ok running"
  shows "host \<in> set (stale_forwards desired running) \<longleftrightarrow>
    (\<exists>fwd. hm_get running host = Some fwd \<and> hm_get desired host \<noteq> Some (fw_target fwd))"
  using assms by (force simp: stale_forwards_def hm_get_iff split: option.splits)

text \<open>What a pass leaves for a name: what ran for the same target, or a new forwarder.\<close>

definition front_of :: "front_env \<Rightarrow> registry \<Rightarrow> loopback_map \<Rightarrow> (string, forward) hmap \<Rightarrow> string \<Rightarrow> forward option" where
  "front_of fe reg alloc running host =
     (case hm_get reg host of
        None \<Rightarrow> None
      | Some e \<Rightarrow>
          if e_mode e \<noteq> ModeTcp then None
          else (case hm_get running host of
              Some fwd \<Rightarrow> if fw_target fwd = e_target e then Some fwd else new_front fe alloc host (e_target e)
            | None \<Rightarrow> new_front fe alloc host (e_target e)))"

lemma reconcile_forwards_fronts:
  assumes "fronts_ok st" and "registry_ok reg" and "length (fr_alloc st) + length reg \<le> 16580608"
  shows "\<exists>st'. reconcile_forwards fe reg st = Some st' \<and> fronts_ok st' \<and>
    (\<forall>host. hm_get (fr_running st') host = front_of fe reg (fr_alloc st') (fr_running st) host) \<and>
    (\<forall>host e. hm_get reg host = Some e \<and> e_mode e = ModeTcp \<and> target_port (e_target e) \<noteq> None \<longrightarrow>
      loopback_get (fr_alloc st') host \<noteq> None)"
proof -
  let ?desired = "desired_forwards reg"
  define st1 where "st1 = foldl (stop_forward fe) st (stale_forwards ?desired (fr_running st))"
  have run_ok: "hm_ok (fr_running st)" using assms(1) by (simp add: fronts_ok_def)
  have st1: "fronts_ok st1" "fr_alloc st1 = fr_alloc st"
    "\<And>host. hm_get (fr_running st1) host =
      (if host \<in> set (stale_forwards ?desired (fr_running st)) then None else hm_get (fr_running st) host)"
    unfolding st1_def using stop_forwards [OF assms(1)] by blast+
  have desired: "hm_get ?desired host = Some target \<longleftrightarrow> (\<exists>e. hm_get reg host = Some e \<and> e_mode e = ModeTcp \<and> e_target e = target)"
    for host target
    using desired_forwards_ok(1,3) [OF assms(2)] by (simp add: hm_get_iff)
  have "length (fr_alloc st1) + length ?desired \<le> 16580608" using assms(3) desired_forwards_ok(2) [OF assms(2)] st1(2) by simp
  from start_forwards_returns [OF st1(1) desired_forwards_ok(1) [OF assms(2)] this, of fe] obtain st' where
    st': "start_forwards fe ?desired st1 = Some st'" "fronts_ok st'"
    and all: "\<forall>(host, target)\<in>set ?desired. started fe st1 st' host target"
    and rest: "\<And>host. host \<notin> fst ` set ?desired \<Longrightarrow> hm_get (fr_running st') host = hm_get (fr_running st1) host"
    and kept: "\<And>host ip. loopback_get (fr_alloc st1) host = Some ip \<Longrightarrow> loopback_get (fr_alloc st') host = Some ip"
    by blast
  have started: "started fe st1 st' host target" if "hm_get ?desired host = Some target" for host target
    using all that hm_get_iff [OF desired_forwards_ok(1) [OF assms(2)]] by auto
  have stale: "hm_get (fr_running st1) host =
      (case hm_get (fr_running st) host of
         Some fwd \<Rightarrow> if hm_get ?desired host = Some (fw_target fwd) then Some fwd else None | None \<Rightarrow> None)" for host
    using st1(3) [of host] stale_forwards_get [OF run_ok, of host ?desired] by (auto split: option.splits)
  have front: "hm_get (fr_running st') host = front_of fe reg (fr_alloc st') (fr_running st) host" for host
  proof (cases "hm_get ?desired host")
    case None
    then have "hm_get (fr_running st1) host = None" using stale [of host] by (simp split: option.splits)
    then have "hm_get (fr_running st') host = None" using None rest [of host] by (simp add: hm_get_None)
    moreover have "front_of fe reg (fr_alloc st') (fr_running st) host = None"
      using None desired [of host] by (auto simp: front_of_def split: option.splits)
    ultimately show ?thesis by simp
  next
    case (Some target)
    then obtain e where e: "hm_get reg host = Some e" "e_mode e = ModeTcp" "e_target e = target" using desired by blast
    from started [OF Some] stale [of host] Some e show ?thesis
      by (auto simp: front_of_def started_def new_front_def split: option.splits)
  qed
  have "loopback_get (fr_alloc st') host \<noteq> None"
    if e: "hm_get reg host = Some e" "e_mode e = ModeTcp" "target_port (e_target e) \<noteq> None" for host e
  proof (cases "hm_get (fr_running st1) host")
    case None
    have "hm_get ?desired host = Some (e_target e)" using desired e by blast
    from started [OF this] None e(3) show ?thesis by (simp add: started_def)
  next
    case (Some fwd)
    from kept [OF fronts_ok_running(1) [OF st1(1) Some]] show ?thesis by simp
  qed
  moreover have "reconcile_forwards fe reg st = Some st'" using st'(1) by (simp add: reconcile_forwards_def st1_def)
  ultimately show ?thesis using st'(2) front by blast
qed

lemma dns_answers_front:
  assumes "registry_ok reg" and "hm_get reg host = Some e" and "e_mode e = ModeTcp" and "loopback_get alloc host = Some ip"
  shows "lookup_ipv4 None reg host (Some alloc) = Some (Some ip, Some alloc)"
proof -
  have "to_ascii_lowercase host = host"
    using assms(1,2) by (auto simp: registry_ok_def list_all_iff hm_get_def dest!: map_of_SomeD)
  then have "registry_lookup reg host = Some (host, e)" using assms(2) by (simp add: registry_lookup_def)
  then show ?thesis using assms(3,4) by (simp add: lookup_ipv4_def get_or_assign_def loopback_get_def)
qed

text \<open>
  C7: A pass of the forwarder task returns and leaves exactly the fronts the registry wants: each
  runs for a TCP entry and leads to that entry's target. For every TCP entry whose target has a
  port the host-facing DNS server answers its name with an address no other name has, and unless
  the system refuses the alias there is a forwarder on that address and that port which leads to the
  entry's target. It is bound if its bind succeeded, now or when it was started.
\<close>

theorem tcp_fronts_reach_targets:
  assumes "fronts_ok st" and "registry_ok reg" and "length (fr_alloc st) + length reg \<le> 16580608"
  shows "\<exists>st'. reconcile_forwards fe reg st = Some st' \<and> fronts_ok st' \<and>
    (\<forall>host fwd. hm_get (fr_running st') host = Some fwd \<longrightarrow>
      (\<exists>e. hm_get reg host = Some e \<and> e_mode e = ModeTcp \<and> e_target e = fw_target fwd)) \<and>
    (\<forall>host e port. hm_get reg host = Some e \<and> e_mode e = ModeTcp \<and> target_port (e_target e) = Some port \<longrightarrow>
      (\<exists>ip. lookup_ipv4 None reg host (Some (fr_alloc st')) = Some (Some ip, Some (fr_alloc st')) \<and>
        (\<forall>other. loopback_get (fr_alloc st') other = Some ip \<longrightarrow> other = host) \<and>
        (\<not> fe_ensure_alias fe ip \<or>
          (\<exists>fwd. hm_get (fr_running st') host = Some fwd \<and> fw_target fwd = e_target e \<and> fw_listen fwd = (ip, port) \<and>
            (fw_bound fwd \<or> \<not> fe_bind fe (ip, port) \<or>
             (\<exists>old. hm_get (fr_running st) host = Some old \<and> \<not> fw_bound old))))))"
proof -
  from reconcile_forwards_fronts [OF assms, of fe] obtain st' where st': "reconcile_forwards fe reg st = Some st'" "fronts_ok st'"
    and run: "\<And>host. hm_get (fr_running st') host = front_of fe reg (fr_alloc st') (fr_running st) host"
    and ips: "\<And>host e. hm_get reg host = Some e \<Longrightarrow> e_mode e = ModeTcp \<Longrightarrow> target_port (e_target e) \<noteq> None \<Longrightarrow>
      loopback_get (fr_alloc st') host \<noteq> None" by blast
  have only: "\<exists>e. hm_get reg host = Some e \<and> e_mode e = ModeTcp \<and> e_target e = fw_target fwd"
    if "hm_get (fr_running st') host = Some fwd" for host fwd
    using that run [of host] by (auto simp: front_of_def new_front_def spawn_forwarder_def split: option.splits if_splits)
  have front: "\<exists>ip. lookup_ipv4 None reg host (Some (fr_alloc st')) = Some (Some ip, Some (fr_alloc st')) \<and>
      (\<forall>other. loopback_get (fr_alloc st') other = Some ip \<longrightarrow> other = host) \<and>
      (\<not> fe_ensure_alias fe ip \<or>
        (\<exists>fwd. hm_get (fr_running st') host = Some fwd \<and> fw_target fwd = e_target e \<and> fw_listen fwd = (ip, port) \<and>
          (fw_bound fwd \<or> \<not> fe_bind fe (ip, port) \<or> (\<exists>old. hm_get (fr_running st) host = Some old \<and> \<not> fw_bound old))))"
    if e: "hm_get reg host = Some e" "e_mode e = ModeTcp" "target_port (e_target e) = Some port" for host e port
  proof -
    obtain ip where ip: "loopback_get (fr_alloc st') host = Some ip" using ips [OF e(1,2)] e(3) by auto
    have alone: "other = host" if "loopback_get (fr_alloc st') other = Some ip" for other
      using loopback_distinct [OF _ that ip] st'(2) by (simp add: fronts_ok_def)
    have new: "new_front fe (fr_alloc st') host (e_target e) = Some (spawn_forwarder fe ip port (e_target e))" if "fe_ensure_alias fe ip"
      using ip e(3) that by (simp add: new_front_def)
    have "\<exists>fwd. hm_get (fr_running st') host = Some fwd \<and> fw_target fwd = e_target e \<and>
        (fw_bound fwd \<or> \<not> fe_bind fe (ip, port) \<or> (\<exists>old. hm_get (fr_running st) host = Some old \<and> \<not> fw_bound old))"
      if "fe_ensure_alias fe ip"
      using run [of host] e(1,2) new [OF that] by (auto simp: front_of_def spawn_forwarder_def split: option.splits if_splits)
    moreover have "fw_listen fwd = (ip, port)" if "hm_get (fr_running st') host = Some fwd" "fw_target fwd = e_target e" for fwd
      using fronts_ok_running [OF st'(2) that(1)] ip e(3) that(2) by (simp add: prod_eq_iff)
    ultimately show ?thesis using dns_answers_front [OF assms(2) e(1,2) ip] alone by blast
  qed
  show ?thesis using st' only front by blast
qed

section \<open>DNS for containers\<close>

text \<open>No answer a container gets is a loopback address: it would be the container's own.\<close>

lemma container_dns_not_loopback:
  assumes "lookup_ipv4 (Some tunnel) reg host None = Some (Some ip, a)" and "\<not> loopback_ip tunnel"
  shows "\<not> loopback_ip ip"
  using assms by (auto simp: lookup_ipv4_def split: option.splits mode.splits if_splits)

lemma http_names_reach_proxy:
  assumes "registry_lookup reg host = Some (key, e)" and "e_mode e \<noteq> ModeTcp"
  shows "lookup_ipv4 None reg host a = Some (Some host_proxy_ip, a)" "lookup_ipv4 (Some tunnel) reg host a = Some (Some tunnel, a)"
proof -
  have "drop_bit 24 (0x7F000001 :: u32) = 127" by code_simp
  with assms show "lookup_ipv4 None reg host a = Some (Some host_proxy_ip, a)" "lookup_ipv4 (Some tunnel) reg host a = Some (Some tunnel, a)"
    by (simp_all add: lookup_ipv4_def loopback_ip_def host_proxy_ip_def split: mode.splits)
qed

section \<open>Examples\<close>

definition front_example :: "string \<Rightarrow> registry" where
  "front_example host = [(host, \<lparr>e_host = host, e_target = ''172.17.0.2:5432'', e_source = SourceContainer, e_mode = ModeTcp,
     e_container_id = None, e_project = None, e_egress = None\<rparr>)]"

definition front_env_example :: "bool \<Rightarrow> front_env" where
  "front_env_example bound = \<lparr>fe_ensure_alias = (\<lambda>_. True), fe_remove_alias = (\<lambda>_. True), fe_bind = (\<lambda>_. bound)\<rparr>"

definition no_fronts :: fronts where
  "no_fronts = \<lparr>fr_running = [], fr_alloc = [], fr_aliases = []\<rparr>"

lemma example_port: "target_port ''172.17.0.2:5432'' = Some 5432"
  by (simp add: target_port_def rsplit_once_def parse_u16_def parse_uint_def to_digit_def is_ascii_digit_def)

lemma no_fronts_ok: "fronts_ok no_fronts"
  by (simp add: fronts_ok_def no_fronts_def loopback_ok_def)

theorem tcp_fronts_reach_targets_witness:
  "\<exists>st' ip fwd. reconcile_forwards (front_env_example True) (front_example ''pg.test'') no_fronts = Some st' \<and>
     lookup_ipv4 None (front_example ''pg.test'') ''pg.test'' (Some (fr_alloc st')) = Some (Some ip, Some (fr_alloc st')) \<and>
     hm_get (fr_running st') ''pg.test'' = Some fwd \<and> fw_target fwd = ''172.17.0.2:5432'' \<and> fw_listen fwd = (ip, 5432) \<and> fw_bound fwd"
proof -
  define reg where "reg = front_example ''pg.test''"
  define fe where "fe = front_env_example True"
  define e where "e = snd (hd (front_example ''pg.test''))"
  have reg: "registry_ok reg" unfolding reg_def by code_simp
  have e: "hm_get reg ''pg.test'' = Some e \<and> e_mode e = ModeTcp \<and> target_port (e_target e) = Some 5432" "e_target e = ''172.17.0.2:5432''"
    using example_port by (simp_all add: reg_def e_def front_example_def hm_get_def)
  have env: "fe_ensure_alias fe ip" "fe_bind fe a" "hm_get (fr_running no_fronts) h = None" for ip a h
    by (simp_all add: fe_def front_env_example_def no_fronts_def)
  have "length (fr_alloc no_fronts) + length reg \<le> 16580608" by (simp add: no_fronts_def reg_def front_example_def)
  from tcp_fronts_reach_targets [OF no_fronts_ok reg this, of fe] obtain st' where
    r: "reconcile_forwards fe reg no_fronts = Some st'" and
    all: "\<forall>host e port. hm_get reg host = Some e \<and> e_mode e = ModeTcp \<and> target_port (e_target e) = Some port \<longrightarrow>
      (\<exists>ip. lookup_ipv4 None reg host (Some (fr_alloc st')) = Some (Some ip, Some (fr_alloc st')) \<and>
        (\<forall>other. loopback_get (fr_alloc st') other = Some ip \<longrightarrow> other = host) \<and>
        (\<not> fe_ensure_alias fe ip \<or>
          (\<exists>fwd. hm_get (fr_running st') host = Some fwd \<and> fw_target fwd = e_target e \<and> fw_listen fwd = (ip, port) \<and>
            (fw_bound fwd \<or> \<not> fe_bind fe (ip, port) \<or>
             (\<exists>old. hm_get (fr_running no_fronts) host = Some old \<and> \<not> fw_bound old)))))" by blast
  from all [rule_format, OF e(1)] env e(2) r show ?thesis unfolding reg_def fe_def by auto
qed

text \<open>
  A wildcard TCP entry has its front at the address of the pattern, but a name under it is answered
  with an address of its own, on which nothing listens.
\<close>

lemma wildcard_tcp_unreachable:
  "\<exists>st' fwd alloc. reconcile_forwards (front_env_example True) (front_example ''*.pg.test'') no_fronts = Some st' \<and>
     fr_running st' = [(''*.pg.test'', fwd)] \<and> fw_listen fwd = (0x7F000002, 5432) \<and>
     lookup_ipv4 None (front_example ''*.pg.test'') ''a.pg.test'' (Some (fr_alloc st')) = Some (Some 0x7F000003, Some alloc)"
proof -
  let ?reg = "front_example ''*.pg.test''"
  have first: "get_or_assign ''*.pg.test'' [] = Some (0x7F000002, [(''*.pg.test'', 0x7F000002)])"
    by (simp add: get_or_assign_def next_free_def next_free_from.simps usable_def first_addr_def hm_insert_def hm_remove_def)
  have step: "next_candidate (0x7F000002 :: u32) = 0x7F000003" by (simp add: next_candidate_def)
  have second: "get_or_assign ''a.pg.test'' [(''*.pg.test'', 0x7F000002)] =
      Some (0x7F000003, [(''a.pg.test'', 0x7F000003), (''*.pg.test'', 0x7F000002)])"
    by (simp add: get_or_assign_def next_free_def next_free_from.simps [of _ "0x7F000002"] next_free_from.simps [of _ "0x7F000003"]
        step usable_def first_addr_def hm_insert_def hm_remove_def hm_get_def)
  have desired: "desired_forwards ?reg = [(''*.pg.test'', ''172.17.0.2:5432'')]"
    by (simp add: desired_forwards_def front_example_def registry_list_def hm_insert_def hm_remove_def)
  have "reconcile_forwards (front_env_example True) ?reg no_fronts =
      Some \<lparr>fr_running = [(''*.pg.test'', spawn_forwarder (front_env_example True) 0x7F000002 5432 ''172.17.0.2:5432'')],
        fr_alloc = [(''*.pg.test'', 0x7F000002)], fr_aliases = [0x7F000002]\<rparr>"
    by (simp add: reconcile_forwards_def desired stale_forwards_def no_fronts_def start_forward_def example_port first
        front_env_example_def hm_insert_def hm_remove_def)
  moreover have "map_option fst (registry_lookup ?reg ''a.pg.test'') = Some ''*.pg.test'' \<and>
      map_option (e_mode \<circ> snd) (registry_lookup ?reg ''a.pg.test'') = Some ModeTcp" by code_simp
  then have "lookup_ipv4 None ?reg ''a.pg.test'' (Some [(''*.pg.test'', 0x7F000002)]) =
      Some (Some 0x7F000003, Some [(''a.pg.test'', 0x7F000003), (''*.pg.test'', 0x7F000002)])"
    using second by (auto simp: lookup_ipv4_def)
  ultimately show ?thesis by (simp add: spawn_forwarder_def)
qed

text \<open>A forwarder whose bind failed keeps its record, and no later pass starts it again.\<close>

lemma failed_bind_stays:
  assumes "fronts_ok st" and "registry_ok reg" and "length (fr_alloc st) + length reg \<le> 16580608"
    and "hm_get (fr_running st) host = Some fwd" and "\<not> fw_bound fwd"
    and "hm_get reg host = Some e" and "e_mode e = ModeTcp" and "e_target e = fw_target fwd"
  shows "\<exists>st'. reconcile_forwards fe reg st = Some st' \<and> hm_get (fr_running st') host = Some fwd"
proof -
  from reconcile_forwards_fronts [OF assms(1-3), of fe] obtain st' where "reconcile_forwards fe reg st = Some st'"
    "hm_get (fr_running st') host = front_of fe reg (fr_alloc st') (fr_running st) host" by blast
  with assms(4-8) show ?thesis by (simp add: front_of_def)
qed

end
