(* ===== verification/Tls_Front.thy ===== *)
theory Tls_Front
  imports Proxy Fronts
begin

text \<open>
  The TLS side, \<open>portman-daemon/src/tls_proxy.rs\<close> and \<open>certs.rs\<close>: which certificate a server name
  gets, the certificates on disk and in memory, and one connection from its handshake to the relay.
  \<open>mkcert\<close>, reading a certificate and the handshake are parameters.
\<close>

section \<open>Certificates\<close>

definition cert_file_stem :: "string \<Rightarrow> string" where
  "cert_file_stem key = (case strip_prefix ''*.'' key of Some rest \<Rightarrow> ''_wildcard.'' @ rest | None \<Rightarrow> key)"

definition default_caroot :: "path \<Rightarrow> path" where
  "default_caroot home = path_join home ''Library/Application Support/mkcert''"

text \<open>The certificates loaded, and the files of the certificate directory.\<close>

record 'k certs =
  ct_cache :: "(string, 'k) hmap"
  ct_files :: "path \<Rightarrow> string option"

text \<open>
  What a call meets: the directory, the root of \<open>mkcert\<close> if known, whether directories can be made
  and the root exists, what a run of \<open>mkcert\<close> for a host writes (\<open>None\<close>: it fails), and loading.
\<close>

record 'k cert_env =
  ce_dir :: path
  ce_caroot :: "path option"
  ce_dir_ok :: bool
  ce_caroot_there :: bool
  ce_mkcert :: "string \<Rightarrow> (string \<times> string) option"
  ce_load :: "string \<Rightarrow> string \<Rightarrow> 'k option"

datatype cert_error = CertDir | CertNoRoot | CertRootMissing | CertMkcert | CertLoad

definition cert_path :: "'k cert_env \<Rightarrow> string \<Rightarrow> path" where
  "cert_path ce key = path_join (ce_dir ce) (cert_file_stem key @ ''.pem'')"

definition key_path :: "'k cert_env \<Rightarrow> string \<Rightarrow> path" where
  "key_path ce key = path_join (ce_dir ce) (cert_file_stem key @ ''.key'')"

definition mkcert :: "'k cert_env \<Rightarrow> string \<Rightarrow> 'k certs \<Rightarrow> (cert_error + unit) \<times> 'k certs" where
  "mkcert ce host st =
     (case ce_caroot ce of
        None \<Rightarrow> (Inl CertNoRoot, st)
      | Some _ \<Rightarrow>
          if \<not> ce_caroot_there ce then (Inl CertRootMissing, st)
          else (case ce_mkcert ce host of
              None \<Rightarrow> (Inl CertMkcert, st)
            | Some (pem, key) \<Rightarrow>
                (Inr (), st\<lparr>ct_files := (ct_files st)(cert_path ce host \<mapsto> pem, key_path ce host \<mapsto> key)\<rparr>)))"

definition load_certified_key :: "'k cert_env \<Rightarrow> string \<Rightarrow> 'k certs \<Rightarrow> cert_error + 'k" where
  "load_certified_key ce key st =
     (case (ct_files st (cert_path ce key), ct_files st (key_path ce key)) of
        (Some pem, Some priv) \<Rightarrow> ok_or CertLoad (ce_load ce pem priv)
      | _ \<Rightarrow> Inl CertLoad)"

definition ensure_certificate :: "'k cert_env \<Rightarrow> string \<Rightarrow> 'k certs \<Rightarrow> (cert_error + 'k) \<times> 'k certs" where
  "ensure_certificate ce host st =
     (let key = to_ascii_lowercase host in
      case hm_get (ct_cache st) key of
        Some ck \<Rightarrow> (Inr ck, st)
      | None \<Rightarrow>
          if \<not> ce_dir_ok ce then (Inl CertDir, st)
          else
            (case (if ct_files st (cert_path ce key) = None \<or> ct_files st (key_path ce key) = None
                   then mkcert ce key st else (Inr (), st)) of
               (Inl e, st) \<Rightarrow> (Inl e, st)
             | (Inr _, st) \<Rightarrow>
                 (case load_certified_key ce key st of
                    Inl e \<Rightarrow> (Inl e, st)
                  | Inr ck \<Rightarrow> (Inr ck, st\<lparr>ct_cache := hm_insert key ck (ct_cache st)\<rparr>))))"

definition cert_key_for_sni :: "registry \<Rightarrow> tls_state \<Rightarrow> string \<Rightarrow> string option" where
  "cert_key_for_sni reg tls host =
     (let sni = to_ascii_lowercase host in
      case registry_lookup reg sni of
        None \<Rightarrow> None
      | Some (key, entry) \<Rightarrow> if e_mode entry = ModeHttp \<and> tls_enabled_for_host tls sni then Some key else None)"

definition resolve_sni ::
  "'k cert_env \<Rightarrow> registry \<Rightarrow> tls_state \<Rightarrow> string option \<Rightarrow> 'k certs \<Rightarrow> 'k option \<times> 'k certs" where
  "resolve_sni ce reg tls server_name st =
     (case server_name of
        None \<Rightarrow> (None, st)
      | Some sni \<Rightarrow>
          (case cert_key_for_sni reg tls sni of
             None \<Rightarrow> (None, st)
           | Some key \<Rightarrow>
               (case hm_get (ct_cache st) key of
                  Some ck \<Rightarrow> (Some ck, st)
                | None \<Rightarrow>
                    (case ensure_certificate ce key st of
                       (Inr ck, st) \<Rightarrow> (Some ck, st)
                     | (Inl _, st) \<Rightarrow> (None, st)))))"

section \<open>Connections\<close>

definition tls_reason_phrase :: "nat \<Rightarrow> string" where
  "tls_reason_phrase code =
     (if code = 400 then ''Bad Request'' else if code = 408 then ''Request Timeout'' else if code = 404 then ''Not Found''
      else if code = 431 then ''Request Header Fields Too Large'' else if code = 502 then ''Bad Gateway''
      else if code = 504 then ''Gateway Timeout'' else ''Error'')"

definition tls_write_status :: "nat \<Rightarrow> string \<Rightarrow> string" where
  "tls_write_status code message =
     (let body = ''portman: '' @ message @ lf in
      ''HTTP/1.1 '' @ show_nat code @ '' '' @ tls_reason_phrase code @ crlf @
      ''Content-Type: text/plain; charset=utf-8'' @ crlf @ ''Content-Length: '' @ show_nat (length body) @ crlf @
      ''Connection: close'' @ crlf @ crlf @ body)"

datatype host_read = HostClosed | HostFailed | HostAnswer string | HostRead string string "client_read list"

fun read_host :: "(string \<Rightarrow> http_parse) \<Rightarrow> string \<Rightarrow> client_read list \<Rightarrow> host_read" where
  "read_host parse buf [] = HostClosed"
| "read_host parse buf (ClientFails # rs) = HostFailed"
| "read_host parse buf (ClientStalls # rs) = HostAnswer (tls_write_status 408 ''request timed out'')"
| "read_host parse buf (ClientBytes d # rs) =
     (if d = [] then HostClosed
      else (case parse (buf @ d) of
          HpError \<Rightarrow> HostFailed
        | HpComplete n h \<Rightarrow>
            if head_host h = [] then HostAnswer (tls_write_status 400 ''missing Host header'')
            else HostRead (head_host h) (buf @ d) rs
        | HpPartial \<Rightarrow>
            if length (buf @ d) \<ge> max_header_bytes then HostAnswer (tls_write_status 431 ''request headers too large'')
            else read_host parse (buf @ d) rs))"

record tls_env =
  te_handshake :: bool
  te_parse :: "string \<Rightarrow> http_parse"
  te_peer :: string
  te_connect :: "string \<Rightarrow> connected"
  te_accepts :: "string \<Rightarrow> bool"

datatype tls_outcome =
  TlsClosed | TlsFailed | TlsAnswered string | TlsRelayed string "((relay_error + u64) \<times> string) option"

definition tls_route :: "tls_env \<Rightarrow> registry \<Rightarrow> string \<Rightarrow> string \<Rightarrow> client_read list \<Rightarrow> tls_outcome" where
  "tls_route te reg host buf rs =
     (case registry_lookup reg host of
        None \<Rightarrow> TlsAnswered (tls_write_status 404 (''no portman entry for host `'' @ host @ ''`''))
      | Some (_, entry) \<Rightarrow>
          if e_mode entry = ModeTcp then
            TlsAnswered (tls_write_status 502 (''`'' @ host @ ''` is a TCP-mode entry (target '' @ e_target entry @
              ''); connect directly with your raw-protocol client.''))
          else if e_mode entry = ModeEgress then
            TlsAnswered (tls_write_status 502 (''`'' @ host @ ''` is an egress route '' @ em_dash @
              '' call it over plain http:// (the proxy attaches the credential on the way out).''))
          else (let target = e_target entry in
            case te_connect te target of
              ConnectFailed err \<Rightarrow> TlsAnswered (tls_write_status 502 (''cannot reach '' @ target @ '': '' @ err))
            | ConnectTimedOut \<Rightarrow> TlsAnswered (tls_write_status 504 (''timed out connecting to '' @ target))
            | Connected \<Rightarrow> TlsRelayed target
                (forward_requests (te_accepts te) (te_parse te) Https (te_peer te) buf (relay_reads rs))))"

definition tls_handle :: "tls_env \<Rightarrow> registry \<Rightarrow> client_read list \<Rightarrow> tls_outcome" where
  "tls_handle te reg rs =
     (if \<not> te_handshake te then TlsFailed
      else (case read_host (te_parse te) [] rs of
          HostClosed \<Rightarrow> TlsClosed
        | HostFailed \<Rightarrow> TlsFailed
        | HostAnswer out \<Rightarrow> TlsAnswered out
        | HostRead host buf rs \<Rightarrow> tls_route te reg host buf rs))"

section \<open>The files of two names are two files\<close>

text \<open>Names without a slash that do not look like the file of a wildcard.\<close>

definition plain_key :: "string \<Rightarrow> bool" where
  "plain_key k \<longleftrightarrow> k \<noteq> [] \<and> CHR ''/'' \<notin> set k \<and> \<not> starts_with ''_wildcard.'' k \<and> to_ascii_lowercase k = k"

lemma cert_file_stem_inj:
  assumes "plain_key a" and "plain_key b" and "cert_file_stem a = cert_file_stem b"
  shows "a = b"
  using assms
  by (auto simp: cert_file_stem_def plain_key_def starts_with_iff strip_prefix_Some split: option.splits)

lemma stem_relative: "plain_key a \<Longrightarrow> \<not> is_absolute (cert_file_stem a @ s)"
  by (cases a) (auto simp: cert_file_stem_def plain_key_def is_absolute_def strip_prefix_Some starts_with_def split: option.splits)


lemma path_join_relative: "\<not> is_absolute a \<Longrightarrow> \<not> is_absolute b \<Longrightarrow> path_join base a = path_join base b \<longleftrightarrow> a = b"
  by (simp add: path_join_def)

lemma cert_paths:
  assumes "plain_key a" and "plain_key b"
  shows "cert_path ce a = cert_path ce b \<longleftrightarrow> a = b" "key_path ce a = key_path ce b \<longleftrightarrow> a = b" "cert_path ce a \<noteq> key_path ce b"
proof -
  show "cert_path ce a = cert_path ce b \<longleftrightarrow> a = b" "key_path ce a = key_path ce b \<longleftrightarrow> a = b"
    using cert_file_stem_inj [OF assms] stem_relative assms by (auto simp: cert_path_def key_path_def path_join_relative)
  have "last (cert_file_stem a @ ''.pem'') \<noteq> last (cert_file_stem b @ ''.key'')" by simp
  then have "cert_file_stem a @ ''.pem'' \<noteq> cert_file_stem b @ ''.key''" by metis
  then show "cert_path ce a \<noteq> key_path ce b"
    using stem_relative assms by (simp add: cert_path_def key_path_def path_join_relative)
qed

section \<open>A name gets its own certificate\<close>

text \<open>\<open>certifies k c\<close>: the certificate \<open>c\<close> is for \<open>k\<close>.\<close>

definition certs_ok :: "(string \<Rightarrow> string \<Rightarrow> bool) \<Rightarrow> 'k cert_env \<Rightarrow> 'k certs \<Rightarrow> bool" where
  "certs_ok certifies ce st \<longleftrightarrow>
     (\<forall>k ck. plain_key k \<longrightarrow> hm_get (ct_cache st) k = Some ck \<longrightarrow> (\<exists>c p. certifies k c \<and> ce_load ce c p = Some ck)) \<and>
     (\<forall>k c. plain_key k \<longrightarrow> ct_files st (cert_path ce k) = Some c \<longrightarrow> certifies k c)"

lemma certs_ok_mkcert:
  assumes "certs_ok certifies ce st" and "plain_key key"
    and "\<And>c p. ce_mkcert ce key = Some (c, p) \<Longrightarrow> certifies key c"
    and "mkcert ce key st = (r, st')"
  shows "certs_ok certifies ce st'"
  using assms(1,4) assms(3) cert_paths(1) [OF _ assms(2), of _ ce] cert_paths(3) [OF _ assms(2), of _ ce]
  by (auto simp: mkcert_def certs_ok_def split: option.splits if_splits prod.splits)

lemma ensure_certificate_Inr:
  assumes "certs_ok certifies ce st" and "plain_key key"
    and "\<And>c p. ce_mkcert ce key = Some (c, p) \<Longrightarrow> certifies key c"
    and "ensure_certificate ce key st = (Inr ck, st')"
  shows "certs_ok certifies ce st'" "\<exists>c p. certifies key c \<and> ce_load ce c p = Some ck"
    "hm_get (ct_cache st') key = Some ck"
proof -
  have key: "to_ascii_lowercase key = key" using assms(2) by (simp add: plain_key_def)
  have "certs_ok certifies ce st' \<and> (\<exists>c p. certifies key c \<and> ce_load ce c p = Some ck) \<and> hm_get (ct_cache st') key = Some ck"
  proof (cases "hm_get (ct_cache st) key")
    case (Some ck')
    with assms(1,2,4) key show ?thesis by (auto simp: ensure_certificate_def Let_def certs_ok_def)
  next
    case None
    then obtain st1 where m: "(if ct_files st (cert_path ce key) = None \<or> ct_files st (key_path ce key) = None
        then mkcert ce key st else (Inr (), st)) = (Inr (), st1)" and l: "load_certified_key ce key st1 = Inr ck"
      and st': "st' = st1\<lparr>ct_cache := hm_insert key ck (ct_cache st1)\<rparr>"
      using assms(4) key by (auto simp: ensure_certificate_def Let_def split: if_splits prod.splits sum.splits)
    have ok: "certs_ok certifies ce st1" using m certs_ok_mkcert [OF assms(1-3)] assms(1) by (auto split: if_splits)
    from l obtain c p where c: "ct_files st1 (cert_path ce key) = Some c" "ce_load ce c p = Some ck"
      by (auto simp: load_certified_key_def ok_or_Inr split: option.splits)
    then have "certifies key c" using ok assms(2) by (simp add: certs_ok_def)
    with c(2) ok st' show ?thesis by (auto simp: certs_ok_def hm_get_insert)
  qed
  then show "certs_ok certifies ce st'" "\<exists>c p. certifies key c \<and> ce_load ce c p = Some ck"
    "hm_get (ct_cache st') key = Some ck" by blast+
qed

lemma registry_lookup_key: "registry_lookup reg h = Some (key, e) \<Longrightarrow> key \<in> fst ` set reg"
proof -
  assume l: "registry_lookup reg h = Some (key, e)"
  show ?thesis
  proof (cases "hm_get reg (to_ascii_lowercase h)")
    case None
    with l have "max_by_key (\<lambda>b. length (fst b)) (filter (\<lambda>b. wildcard_matches (fst b) (to_ascii_lowercase h)) reg) = Some (key, e)"
      by (simp add: registry_lookup_def)
    from max_by_key_SomeD [OF this] show ?thesis by force
  next
    case (Some x)
    with l have "(key, x) \<in> set reg" by (auto simp: registry_lookup_def hm_get_def dest!: map_of_SomeD)
    then show ?thesis by force
  qed
qed

text \<open>
  C38: A handshake is answered with a certificate only for a name that resolves to an HTTP entry
  and lies under a TLD with TLS, and the certificate is the one of the registered name, so all
  names under a wildcard share one; once it is loaded, any further handshake for that entry runs
  nothing and reads nothing. Two registered names never share files, provided no name looks like the
  file of a wildcard, and \<open>mkcert\<close> writes certificates for the name it is asked for.
\<close>

theorem sni_gets_registered_certificate:
  assumes "certs_ok certifies ce st" and "\<forall>k c p. ce_mkcert ce k = Some (c, p) \<longrightarrow> certifies k c"
    and "list_all (\<lambda>b. plain_key (fst b)) reg"
    and "resolve_sni ce reg tls name st = (Some ck, st')"
  shows "certs_ok certifies ce st' \<and>
    (\<exists>sni key e. name = Some sni \<and> registry_lookup reg (to_ascii_lowercase sni) = Some (key, e) \<and> e_mode e = ModeHttp \<and>
      tls_enabled_for_host tls sni \<and> (\<exists>c p. certifies key c \<and> ce_load ce c p = Some ck) \<and>
      (\<forall>ce' other. cert_key_for_sni reg tls other = Some key \<longrightarrow> resolve_sni ce' reg tls (Some other) st' = (Some ck, st')))"
proof -
  obtain sni key where name: "name = Some sni" and k: "cert_key_for_sni reg tls sni = Some key"
    using assms(4) by (auto simp: resolve_sni_def split: option.splits)
  then obtain e where e: "registry_lookup reg (to_ascii_lowercase sni) = Some (key, e)" "e_mode e = ModeHttp"
    "tls_enabled_for_host tls (to_ascii_lowercase sni)"
    by (auto simp: cert_key_for_sni_def Let_def split: option.splits if_splits)
  have "key \<in> fst ` set reg"
    using registry_lookup_key [OF e(1)] .
  then have plain: "plain_key key" using assms(3) by (auto simp: list_all_iff)
  have "certs_ok certifies ce st' \<and> (\<exists>c p. certifies key c \<and> ce_load ce c p = Some ck) \<and> hm_get (ct_cache st') key = Some ck"
  proof (cases "hm_get (ct_cache st) key")
    case (Some ck')
    then have "st' = st" "ck' = ck" using assms(4) name k by (auto simp: resolve_sni_def)
    with Some assms(1) plain show ?thesis by (auto simp: certs_ok_def)
  next
    case None
    then have "ensure_certificate ce key st = (Inr ck, st')"
      using assms(4) name k by (auto simp: resolve_sni_def split: prod.splits sum.splits)
    moreover have "certifies key c" if "ce_mkcert ce key = Some (c, p)" for c p using that assms(2) by blast
    ultimately show ?thesis using ensure_certificate_Inr [OF assms(1) plain] by blast
  qed
  moreover have "resolve_sni ce' reg tls (Some other) st' = (Some ck, st')"
    if "hm_get (ct_cache st') key = Some ck" "cert_key_for_sni reg tls other = Some key" for ce' other
    using that by (simp add: resolve_sni_def)
  moreover have "tls_enabled_for_host tls sni" using e(3) by (simp add: tls_enabled_for_host_def)
  ultimately show ?thesis using name e(1,2) by blast
qed

text \<open>An underscore is a label character, so a valid name can own the file of a wildcard.\<close>

lemma wildcard_file_taken:
  "validate_host ''_wildcard.demo.test'' = Inr ''_wildcard.demo.test'' \<and>
   cert_file_stem ''_wildcard.demo.test'' = cert_file_stem ''*.demo.test''"
  by code_simp


section \<open>A connection\<close>

lemma read_host_Read:
  assumes "read_host parse buf rs = HostRead host buf' rs'"
  shows "\<exists>n h. parse buf' = HpComplete n h \<and> host = head_host h \<and>
    buf' @ readable (relay_reads rs') = buf @ readable (relay_reads rs)"
  using assms
proof (induction parse buf rs rule: read_host.induct)
  case (4 parse buf d rs)
  have "readable (relay_reads (ClientBytes d # rs)) = d @ readable (relay_reads rs)" if "d \<noteq> []"
    using that by (cases d) (simp_all add: relay_reads_def)
  with 4 show ?case by (auto split: if_splits http_parse.splits)
qed simp_all

text \<open>
  What an upstream can read off a stream, whatever wrote it: each head is a sequence of lines of
  which exactly one states the scheme, with \<open>proto\<close>, and one the client, ending in the peer's address.
\<close>

definition head_stating :: "string \<Rightarrow> string \<Rightarrow> string \<Rightarrow> bool" where
  "head_stating proto peer head \<longleftrightarrow>
     (\<exists>first headers. head = concat (map (\<lambda>l. l @ crlf) (first # headers @ [[]])) \<and>
        (\<forall>l \<in> set (first # headers). plain_text l) \<and> [] \<notin> set headers \<and>
        filter (\<lambda>l. eq_ignore_ascii_case (before_char CHR '':'' l) ''x-forwarded-proto'') headers = [''X-Forwarded-Proto: '' @ proto] \<and>
        (\<exists>v. filter (\<lambda>l. eq_ignore_ascii_case (before_char CHR '':'' l) ''x-forwarded-for'') headers =
           [''X-Forwarded-For: '' @ v @ peer]))"

text \<open>A stream and what is sent for it: heads that state so, the bodies as they are.\<close>

inductive sent_stating :: "(string \<Rightarrow> http_parse) \<Rightarrow> string \<Rightarrow> string \<Rightarrow> string \<Rightarrow> string \<Rightarrow> bool"
  for parse proto peer where
  SentRest: "parse s = HpPartial \<Longrightarrow> sent_stating parse proto peer s s"
| SentUpgrade: "parse s = HpComplete n h \<Longrightarrow> head_stating proto peer head \<Longrightarrow>
    sent_stating parse proto peer s (head @ drop n s)"
| SentRequest: "parse s = HpComplete n h \<Longrightarrow> head_stating proto peer head \<Longrightarrow> drop n s = body @ rest \<Longrightarrow>
    sent_stating parse proto peer rest out \<Longrightarrow> sent_stating parse proto peer s (head @ body @ out)"

definition parse_clean :: "(string \<Rightarrow> http_parse) \<Rightarrow> bool" where
  "parse_clean parse \<longleftrightarrow> (\<forall>b n h. parse b = HpComplete n h \<longrightarrow> clean_head h)"

lemma rendered_head_states:
  assumes "parse_head parse scheme peer s = Inr (Some p)" and "parse_clean parse" and "plain_text peer"
  shows "\<exists>n h. parse s = HpComplete n h \<and> pd_len p = n \<and> head_stating (scheme_str scheme) peer (pd_head p)"
proof -
  obtain n h where parsed: "parse s = HpComplete n h" and r: "render_head scheme peer n h = Inr p"
    using assms(1) by (auto simp: parse_head_def and_then_Inr split: http_parse.splits)
  have clean: "clean_head h" using assms(2) parsed by (auto simp: parse_clean_def)
  note states = heads_state_scheme [OF parsed assms(1) clean assms(3)]
  define headers where "headers = tl (rewritten_lines scheme peer h)"
  have lines: "rewritten_lines scheme peer h = request_line h # headers" by (simp add: headers_def rewritten_lines_def)
  have "l \<noteq> []" if "l \<in> set headers" for l
    using that by (auto simp: headers_def rewritten_lines_def head_line_def)
  moreover obtain v where "filter (\<lambda>l. eq_ignore_ascii_case (before_char CHR '':'' l) ''x-forwarded-for'') headers =
      [''X-Forwarded-For: '' @ v @ peer]"
  proof -
    let ?for = "''X-Forwarded-For: '' @ (case last_for (hh_headers h) of Some prior \<Rightarrow> prior @ '', '' | None \<Rightarrow> []) @ peer"
    obtain l where l: "filter (\<lambda>l. eq_ignore_ascii_case (before_char CHR '':'' l) ''x-forwarded-for'') headers = [l]"
      using states by (auto simp: headers_def map_eq_Cons_conv)
    have "eq_ignore_ascii_case (before_char CHR '':'' ?for) ''x-forwarded-for''"
    proof -
      have "before_char CHR '':'' ?for = ''X-Forwarded-For''" by simp
      moreover have "eq_ignore_ascii_case ''X-Forwarded-For'' ''x-forwarded-for''" by code_simp
      ultimately show ?thesis by (simp only:)
    qed
    then have "?for \<in> set (filter (\<lambda>l. eq_ignore_ascii_case (before_char CHR '':'' l) ''x-forwarded-for'') headers)"
      by (simp add: headers_def rewritten_lines_def)
    then have "l = ?for" unfolding l by simp
    then show ?thesis using l that by blast
  qed
  moreover have "plain_text l" if "l \<in> set (request_line h # headers)" for l
    using clean_lines [OF clean assms(3), of l scheme] that by (simp add: lines)
  ultimately have "head_stating (scheme_str scheme) peer (pd_head p)"
    unfolding head_stating_def using render_head_lines [OF r] states
    by (intro exI [of _ "request_line h"] exI [of _ headers]) (auto simp: lines simp flip: headers_def)
  moreover have "pd_len p = n" using r by (auto simp: render_head_def and_then_Inr)
  ultimately show ?thesis using parsed by blast
qed

lemma framed_heads_split: "framed bd s b r \<Longrightarrow> s = b @ r"
  by (cases bd) (auto simp: framed_def dest: chunked_body_splits)

lemma relayed_states:
  assumes "relayed parse scheme peer s out" and "parse_clean parse" and "plain_text peer"
  shows "sent_stating parse (scheme_str scheme) peer s out"
  using assms(1)
proof induction
  case (RelayedEnd s)
  then show ?case by (intro SentRest) (auto simp: parse_head_def and_then_Inr split: http_parse.splits)
next
  case (RelayedUpgrade s p)
  with rendered_head_states [OF RelayedUpgrade.hyps(1) assms(2,3)] show ?case by (auto intro: SentUpgrade)
next
  case (RelayedRequest s p b r out)
  with rendered_head_states [OF RelayedRequest.hyps(1) assms(2,3)] framed_heads_split [OF RelayedRequest.hyps(3)]
  show ?case by (auto intro: SentRequest)
qed

text \<open>
  C39: A TLS connection is relayed only after its handshake, to the target of the entry its first
  \<open>Host\<close> resolves to, never to a TCP or an egress entry: a credential is attached on no TLS
  connection. The client's whole stream is then sent on, and every head of it as lines of which
  exactly one is an \<open>X-Forwarded-Proto\<close>, saying https, and one an \<open>X-Forwarded-For\<close>, ending in the
  peer's address.
\<close>

theorem tls_relays_stream:
  assumes "tls_handle te reg rs = TlsRelayed target res"
    and "parse_stable (te_parse te)" and "strides_fit (readable (relay_reads rs))"
    and "parse_clean (te_parse te)" and "plain_text (te_peer te)"
  shows "te_handshake te \<and>
    (\<exists>n h key entry. parse_head (te_parse te) Https (te_peer te) (readable (relay_reads rs)) =
        and_then (render_head Https (te_peer te) n h) (\<lambda>p. Inr (Some p)) \<and>
      registry_lookup reg (head_host h) = Some (key, entry) \<and>
      e_mode entry \<noteq> ModeTcp \<and> e_mode entry \<noteq> ModeEgress \<and> e_target entry = target \<and> te_connect te target = Connected) \<and>
    (\<exists>r out. res = Some (r, out) \<and>
      (\<forall>k. r = Inr k \<longrightarrow> relayed (te_parse te) Https (te_peer te) (readable (relay_reads rs)) out \<and>
         sent_stating (te_parse te) ''https'' (te_peer te) (readable (relay_reads rs)) out))"
proof -
  obtain host buf rs' where read: "read_host (te_parse te) [] rs = HostRead host buf rs'" and shake: "te_handshake te"
    and route: "tls_route te reg host buf rs' = TlsRelayed target res"
    using assms(1) by (auto simp: tls_handle_def split: host_read.splits if_splits)
  obtain n h where h: "te_parse te buf = HpComplete n h" "host = head_host h"
    and stream: "buf @ readable (relay_reads rs') = readable (relay_reads rs)"
    using read_host_Read [OF read] by auto
  obtain key entry where found: "registry_lookup reg host = Some (key, entry)" "e_mode entry \<noteq> ModeTcp" "e_mode entry \<noteq> ModeEgress"
    "e_target entry = target" "te_connect te target = Connected"
    and res: "res = forward_requests (te_accepts te) (te_parse te) Https (te_peer te) buf (relay_reads rs')"
    using route by (auto simp: tls_route_def Let_def split: option.splits connected.splits if_splits)
  have "sent_stating (te_parse te) ''https'' (te_peer te) (readable (relay_reads rs)) out"
    if "relayed (te_parse te) Https (te_peer te) (readable (relay_reads rs)) out" for out
    using relayed_states [OF that assms(4,5)] by simp
  with found res shake h(2) relay_whole_stream [OF assms(2,3) h(1) stream] show ?thesis by blast
qed


section \<open>Examples\<close>

definition wildcard_example :: registry where
  "wildcard_example = [(''*.demo.test'', (snd (example_entry SourceStatic))\<lparr>e_host := ''*.demo.test''\<rparr>)]"

definition cert_example :: "bool \<Rightarrow> string cert_env" where
  "cert_example there = \<lparr>ce_dir = ''/d/certs'', ce_caroot = Some ''/u/ca'', ce_dir_ok = there, ce_caroot_there = there,
     ce_mkcert = (\<lambda>k. if there then Some (k, ''p'') else None), ce_load = (\<lambda>c p. Some c)\<rparr>"

definition tls_example :: tls_state where
  "tls_example = tls_default\<lparr>ts_tlds := [(''test'', TlsMkcert)]\<rparr>"

theorem sni_gets_registered_certificate_witness:
  "\<exists>st'. resolve_sni (cert_example True) wildcard_example tls_example (Some ''A.demo.test'') \<lparr>ct_cache = [], ct_files = (\<lambda>_. None)\<rparr>
      = (Some ''*.demo.test'', st') \<and>
    resolve_sni (cert_example False) wildcard_example tls_example (Some ''b.demo.test'') st' = (Some ''*.demo.test'', st')"
proof -
  define reg where "reg = wildcard_example"
  have keys: "cert_key_for_sni reg tls_example ''A.demo.test'' = Some ''*.demo.test'' \<and>
      cert_key_for_sni reg tls_example ''b.demo.test'' = Some ''*.demo.test'' \<and> list_all (\<lambda>b. plain_key (fst b)) reg"
    unfolding reg_def by code_simp
  let ?st = "\<lparr>ct_cache = [], ct_files = (\<lambda>_. None)\<rparr>"
  have "fst (resolve_sni (cert_example True) reg tls_example (Some ''A.demo.test'') ?st) = Some ''*.demo.test''"
    using keys by (simp add: resolve_sni_def ensure_certificate_def mkcert_def load_certified_key_def cert_example_def Let_def
        cert_path_def key_path_def path_join_relative is_absolute_def cert_file_stem_def starts_with_def
        to_ascii_lowercase_def ascii_lower_char_def is_ascii_uppercase_def)
  then obtain st' where r: "resolve_sni (cert_example True) reg tls_example (Some ''A.demo.test'') ?st = (Some ''*.demo.test'', st')"
    by (cases "resolve_sni (cert_example True) reg tls_example (Some ''A.demo.test'') ?st") simp
  have ok: "certs_ok (\<lambda>k c. c = k) (cert_example True) ?st" by (simp add: certs_ok_def)
  have mk: "\<forall>k c p. ce_mkcert (cert_example True) k = Some (c, p) \<longrightarrow> c = k" by (simp add: cert_example_def)
  from sni_gets_registered_certificate [OF ok mk _ r] keys obtain key e where
    key: "registry_lookup reg (to_ascii_lowercase ''A.demo.test'') = Some (key, e)" and
    again: "\<And>ce' other. cert_key_for_sni reg tls_example other = Some key \<Longrightarrow>
      resolve_sni ce' reg tls_example (Some other) st' = (Some ''*.demo.test'', st')"
    by (auto simp del: to_ascii_lowercase_Cons)
  have "key = ''*.demo.test''"
    using keys key by (simp add: cert_key_for_sni_def Let_def split: if_splits del: to_ascii_lowercase_Cons)
  with keys r again show ?thesis unfolding reg_def by simp
qed

theorem tls_relays_stream_witness:
  "\<exists>k out. tls_handle \<lparr>te_handshake = True, te_parse = tiny_parse plain_head, te_peer = ''127.0.0.1'', te_connect = (\<lambda>_. Connected),
        te_accepts = (\<lambda>_. True)\<rparr> [example_entry SourceService] [ClientBytes ''G''] =
      TlsRelayed ''127.0.0.1:3000'' (Some (Inr k, out)) \<and>
    sent_stating (tiny_parse plain_head) ''https'' ''127.0.0.1'' ''G'' out"
proof -
  define te where "te = \<lparr>te_handshake = True, te_parse = tiny_parse plain_head, te_peer = ''127.0.0.1'', te_connect = (\<lambda>_. Connected),
    te_accepts = (\<lambda>_. True)\<rparr>"
  have te: "te_handshake te" "te_parse te = tiny_parse plain_head" "te_peer te = ''127.0.0.1''" "te_connect te t = Connected"
    "te_accepts te = (\<lambda>_. True)" for t by (simp_all add: te_def)
  have h: "head_host plain_head = ''web.test''" using plain_head_read by (simp add: request_head_of_def)
  have lookup: "registry_lookup [example_entry SourceService] ''web.test'' = Some (example_entry SourceService)"
    using local_lookup by (simp add: local_state_def routes_of_def)
  have "case render_head Https ''127.0.0.1'' 1 plain_head of Inr p \<Rightarrow> pd_body p = BodyFixed 0 \<and> \<not> pd_upgrade p | Inl _ \<Rightarrow> False"
    by code_simp
  then obtain k out where fwd: "forward_requests (\<lambda>_. True) (tiny_parse plain_head) Https ''127.0.0.1'' ''G'' [] = Some (Inr k, out)"
    using tiny_relay [of Https "''127.0.0.1''" plain_head] by (auto split: sum.splits)
  have "read_host (tiny_parse plain_head) [] [ClientBytes ''G''] = HostRead ''web.test'' ''G'' []"
    using h by (simp add: tiny_parse_def)
  then have run: "tls_handle te [example_entry SourceService] [ClientBytes ''G''] = TlsRelayed ''127.0.0.1:3000'' (Some (Inr k, out))"
    using te lookup fwd by (simp add: tls_handle_def tls_route_def example_entry_def relay_reads_def del: read_host.simps)
  have st: "readable (relay_reads [ClientBytes ''G'']) = ''G''" by (simp add: relay_reads_def)
  have "parse_stable (te_parse te)" "strides_fit (readable (relay_reads [ClientBytes ''G'']))"
    unfolding te st using tiny_parse_stable by (auto intro: strides_fit_short)
  moreover have "clean_head plain_head" "plain_text (te_peer te)" unfolding te by code_simp+
  moreover from this(1) have "parse_clean (te_parse te)" unfolding te by (auto simp: parse_clean_def tiny_parse_def split: list.splits)
  ultimately have "sent_stating (tiny_parse plain_head) ''https'' ''127.0.0.1'' ''G'' out"
    using tls_relays_stream [OF run]
    unfolding te st by auto
  with run show ?thesis unfolding te_def by blast
qed

end
