(* ===== verification/Bridge.thy ===== *)
theory Bridge
  imports Io BTree Protocol
begin

text \<open>
  The network bridge of \<open>portman-netbridge\<close>, \<open>runtime.rs\<close> and \<open>tunnel.rs\<close>: the Docker network and
  the set-up container, the host routes, start and shutdown. Docker, \<open>/sbin/route\<close>, the tunnel
  device and the sockets are parameters, asked one call at a time; a machine records every call
  with its reply, so that a property can speak of what was done and in which order.
\<close>

section \<open>The machine\<close>

datatype docker_error = ServerError nat string | DockerOther string

type_synonym docker_labels = "(string, string) hmap"

record network_info =
  ni_name :: "string option"
  ni_driver :: "string option"
  ni_ipam :: "string option list option"  \<comment> \<open>the subnets of the IPAM configuration\<close>
  ni_labels :: "docker_labels option"

record inspected_container =
  ic_labels :: "docker_labels option"
  ic_running :: "bool option"
  ic_status :: "string option"
  ic_exit :: "int option"

record listed_container =
  lc_labels :: "docker_labels option"
  lc_networks :: "string list option"  \<comment> \<open>the keys of the network settings\<close>

record network_request =
  nr_name :: string
  nr_driver :: string
  nr_attachable :: bool
  nr_subnet :: string
  nr_gateway :: string
  nr_options :: docker_labels
  nr_labels :: docker_labels

record container_body =
  cb_image :: string
  cb_env :: "string list"
  cb_network_mode :: string
  cb_cap_add :: "string list"
  cb_auto_remove :: bool
  cb_labels :: docker_labels

record route_output =
  ro_success :: bool
  ro_status :: string
  ro_stdout :: string
  ro_stderr :: string

text \<open>One call and its reply. The last three are made by dropping what was opened.\<close>

datatype bridge_event =
  NetworkInspected string "docker_error + network_info"
| NetworkCreated network_request "docker_error + unit"
| NetworkRemoved string "docker_error + unit"
| NetworksListed "docker_error + network_info list"
| ContainersListed "docker_error + listed_container list"
| ContainerInspected string "docker_error + inspected_container"
| ContainerCreated string container_body "docker_error + unit"
| ContainerStarted string "docker_error + unit"
| ContainerStopped string string nat "docker_error + unit"
| ContainerRemoved string bool "docker_error + unit"
| LogsRead string "docker_error + string list"
| UdpBound nat "string + unit"
| UtunCreated "string + unit"
| CloexecSet "string + unit"
| UtunNamed "string + string"
| RouteRun string string string "string + route_output"
| RouteGot string "string + route_output"
| InterfaceProbed string bool
| Slept nat
| UtunClosed
| UdpClosed

datatype bridge_error =
  DockerFailed string docker_error  \<comment> \<open>the context and the cause\<close>
| HostFailed string string
| BridgeRefused string

text \<open>
  The clock counts milliseconds and is advanced by what a call takes. \<open>mc_utuns\<close> is the process-wide
  \<open>OWN_UTUNS\<close>.
\<close>

record 'w machine =
  mc_world :: 'w
  mc_clock :: nat
  mc_trace :: "bridge_event list"
  mc_utuns :: "string set"

type_synonym ('w, 'r) call = "'w \<Rightarrow> 'r \<times> nat \<times> 'w"  \<comment> \<open>the reply and the time it took\<close>

record 'w bridge_host =
  bh_inspect_network :: "string \<Rightarrow> ('w, docker_error + network_info) call"
  bh_create_network :: "network_request \<Rightarrow> ('w, docker_error + unit) call"
  bh_remove_network :: "string \<Rightarrow> ('w, docker_error + unit) call"
  bh_list_networks :: "('w, docker_error + network_info list) call"
  bh_list_containers :: "('w, docker_error + listed_container list) call"
  bh_inspect_container :: "string \<Rightarrow> ('w, docker_error + inspected_container) call"
  bh_create_container :: "string \<Rightarrow> container_body \<Rightarrow> ('w, docker_error + unit) call"
  bh_start_container :: "string \<Rightarrow> ('w, docker_error + unit) call"
  bh_stop_container :: "string \<Rightarrow> string \<Rightarrow> nat \<Rightarrow> ('w, docker_error + unit) call"
  bh_remove_container :: "string \<Rightarrow> bool \<Rightarrow> ('w, docker_error + unit) call"
  bh_logs :: "string \<Rightarrow> ('w, docker_error + string list) call"
  bh_bind_udp :: "nat \<Rightarrow> ('w, string + unit) call"
  bh_create_utun :: "('w, string + unit) call"
  bh_set_cloexec :: "('w, string + unit) call"
  bh_utun_name :: "('w, string + string) call"
  bh_route :: "string \<Rightarrow> string \<Rightarrow> string \<Rightarrow> ('w, string + route_output) call"
  bh_route_get :: "string \<Rightarrow> ('w, string + route_output) call"
  bh_alive :: "string \<Rightarrow> ('w, bool) call"
  bh_oversleep :: "nat \<Rightarrow> ('w, unit) call"  \<comment> \<open>by how much a sleep overruns\<close>
  bh_b64_encode :: "string \<Rightarrow> string"
  bh_b64_decode :: "string \<Rightarrow> string option"

definition perform :: "('w, 'r) call \<Rightarrow> ('r \<Rightarrow> bridge_event) \<Rightarrow> 'w machine \<Rightarrow> 'r \<times> 'w machine" where
  "perform f ev m =
     (case f (mc_world m) of (r, d, w) \<Rightarrow>
        (r, m\<lparr>mc_world := w, mc_clock := mc_clock m + d, mc_trace := mc_trace m @ [ev r]\<rparr>))"

definition attempt_call ::
  "('w, 'e + 'r) call \<Rightarrow> ('e + 'r \<Rightarrow> bridge_event) \<Rightarrow> ('e \<Rightarrow> bridge_error) \<Rightarrow> ('w machine, bridge_error, 'r) io" where
  "attempt_call f ev wrap m = (case perform f ev m of (r, m') \<Rightarrow> (map_err wrap r, m'))"

definition log_event :: "bridge_event \<Rightarrow> 'w machine \<Rightarrow> 'w machine" where
  "log_event e m = m\<lparr>mc_trace := mc_trace m @ [e]\<rparr>"

definition sleep_ms :: "'w bridge_host \<Rightarrow> nat \<Rightarrow> 'w machine \<Rightarrow> 'w machine" where
  "sleep_ms h n m =
     (case perform (bh_oversleep h n) (\<lambda>_. Slept n) m of (_, m') \<Rightarrow> m'\<lparr>mc_clock := mc_clock m' + n\<rparr>)"

text \<open>
  \<open>leads m m'\<close>: time has not gone back and the trace has grown. \<open>appended m m'\<close> is what was done
  in between.
\<close>

definition appended :: "'w machine \<Rightarrow> 'w machine \<Rightarrow> bridge_event list" where
  "appended m m' = drop (length (mc_trace m)) (mc_trace m')"

definition leads :: "'w machine \<Rightarrow> 'w machine \<Rightarrow> bool" where
  "leads m m' \<longleftrightarrow> mc_clock m \<le> mc_clock m' \<and> (\<exists>es. mc_trace m' = mc_trace m @ es)"

lemma leads_refl [simp]: "leads m m"
  by (simp add: leads_def)

lemma leads_trans [trans]: "leads a b \<Longrightarrow> leads b c \<Longrightarrow> leads a c"
  by (auto simp: leads_def)

lemma appended_refl [simp]: "appended m m = []"
  by (simp add: appended_def)

lemma appended_trans: "leads a b \<Longrightarrow> leads b c \<Longrightarrow> appended a c = appended a b @ appended b c"
  by (auto simp: leads_def appended_def)

lemma trace_appended: "leads m m' \<Longrightarrow> mc_trace m' = mc_trace m @ appended m m'"
  by (auto simp: leads_def appended_def)

section \<open>What belongs to portman\<close>

definition PORTMAN_NETWORK :: string where "PORTMAN_NETWORK = ''portman''"
definition SETUP_CONTAINER :: string where "SETUP_CONTAINER = ''portman-netbridge-setup''"
definition SETUP_IMAGE :: string where "SETUP_IMAGE = ''portman-netbridge/setup:local''"
definition MANAGED_LABEL :: string where "MANAGED_LABEL = ''dev.portman.managed''"
definition MANAGED_LABEL_VALUE :: string where "MANAGED_LABEL_VALUE = ''1''"
definition ROLE_LABEL :: string where "ROLE_LABEL = ''dev.portman.role''"
definition SETUP_ROLE_LABEL_VALUE :: string where "SETUP_ROLE_LABEL_VALUE = ''netbridge-setup''"
definition SETUP_STOP_TIMEOUT_SECS :: nat where "SETUP_STOP_TIMEOUT_SECS = 5"
definition SETUP_REMOVE_TIMEOUT :: nat where "SETUP_REMOVE_TIMEOUT = 10000"
definition LABEL_HOST :: string where "LABEL_HOST = ''dev.portman.host''"
definition PORTMAN_SUBNET_CIDR :: string where "PORTMAN_SUBNET_CIDR = ''192.168.99.0/24''"
definition VM_TUNNEL_IP :: string where "VM_TUNNEL_IP = ''192.168.99.2''"
definition DOCKER_BRIDGE_CIDR :: string where "DOCKER_BRIDGE_CIDR = ''192.168.99.128/25''"
definition DOCKER_BRIDGE_GATEWAY :: string where "DOCKER_BRIDGE_GATEWAY = ''192.168.99.129''"
definition HOST_WG_LISTEN_PORT :: nat where "HOST_WG_LISTEN_PORT = 51820"
definition TUNNEL_MTU :: nat where "TUNNEL_MTU = 1420"

definition label_is :: "docker_labels \<Rightarrow> string \<Rightarrow> string \<Rightarrow> bool" where
  "label_is labels key v \<longleftrightarrow> hm_get labels key = Some v"

definition network_is_portman_managed :: "docker_labels option \<Rightarrow> bool" where
  "network_is_portman_managed labels \<longleftrightarrow>
     (case labels of None \<Rightarrow> False | Some ls \<Rightarrow> label_is ls MANAGED_LABEL MANAGED_LABEL_VALUE)"

definition setup_container_is_portman_managed :: "docker_labels option \<Rightarrow> bool" where
  "setup_container_is_portman_managed labels \<longleftrightarrow>
     (case labels of None \<Rightarrow> False
      | Some ls \<Rightarrow> label_is ls MANAGED_LABEL MANAGED_LABEL_VALUE \<and> label_is ls ROLE_LABEL SETUP_ROLE_LABEL_VALUE)"

fun docker_not_found :: "docker_error \<Rightarrow> bool" where
  "docker_not_found (ServerError code msg) \<longleftrightarrow> code = 404"
| "docker_not_found (DockerOther msg) \<longleftrightarrow> False"

fun docker_removal_already_underway :: "docker_error \<Rightarrow> bool" where
  "docker_removal_already_underway (ServerError code msg) \<longleftrightarrow>
     code = 409 \<and> contains_str ''removal'' msg \<and> contains_str ''in progress'' msg"
| "docker_removal_already_underway (DockerOther msg) \<longleftrightarrow> False"

section \<open>The Docker network\<close>

definition portman_network_request :: network_request where
  "portman_network_request =
     \<lparr>nr_name = PORTMAN_NETWORK, nr_driver = ''bridge'', nr_attachable = True, nr_subnet = DOCKER_BRIDGE_CIDR,
      nr_gateway = DOCKER_BRIDGE_GATEWAY,
      nr_options = [(''com.docker.network.driver.mtu'', show_nat TUNNEL_MTU)],
      nr_labels = [(MANAGED_LABEL, MANAGED_LABEL_VALUE)]\<rparr>"

definition create_portman_network :: "'w bridge_host \<Rightarrow> ('w machine, bridge_error, unit) io" where
  "create_portman_network h =
     attempt_call (bh_create_network h portman_network_request) (NetworkCreated portman_network_request) (DockerFailed [])"

definition ensure_portman_network :: "'w bridge_host \<Rightarrow> ('w machine, bridge_error, unit) io" where
  "ensure_portman_network h m =
     (case perform (bh_inspect_network h PORTMAN_NETWORK) (NetworkInspected PORTMAN_NETWORK) m of
        (Inr net, m') \<Rightarrow>
          (if network_is_portman_managed (ni_labels net) then (Inr (), m')
           else (Inl (BridgeRefused (''docker network `'' @ PORTMAN_NETWORK @
             ''` already exists but is not managed by portman'')), m'))
      | (Inl _, m') \<Rightarrow> create_portman_network h m')"

definition remove_portman_network_if_owned :: "'w bridge_host \<Rightarrow> 'w machine \<Rightarrow> 'w machine" where
  "remove_portman_network_if_owned h m =
     (case perform (bh_inspect_network h PORTMAN_NETWORK) (NetworkInspected PORTMAN_NETWORK) m of
        (Inr net, m') \<Rightarrow>
          (if network_is_portman_managed (ni_labels net) then
             snd (perform (bh_remove_network h PORTMAN_NETWORK) (NetworkRemoved PORTMAN_NETWORK) m')
           else m')
      | (Inl _, m') \<Rightarrow> m')"

section \<open>Which bridge subnets are routed\<close>

datatype docker_route_scope = PortmanLabeled | AllContainers

definition container_has_portman_host_label :: "docker_labels option \<Rightarrow> bool" where
  "container_has_portman_host_label labels \<longleftrightarrow>
     (case Option.bind labels (\<lambda>ls. hm_get ls LABEL_HOST) of None \<Rightarrow> False | Some v \<Rightarrow> trim v \<noteq> [])"

definition routable_docker_network_name :: "string \<Rightarrow> bool" where
  "routable_docker_network_name name \<longleftrightarrow> name \<notin> {''host'', ''none'', PORTMAN_NETWORK}"

definition routable_docker_subnet :: "string \<Rightarrow> bool" where
  "routable_docker_subnet subnet \<longleftrightarrow> subnet \<noteq> PORTMAN_SUBNET_CIDR \<and> subnet \<noteq> DOCKER_BRIDGE_CIDR"

definition networks_in_scope :: "docker_route_scope \<Rightarrow> listed_container list \<Rightarrow> string list" where
  "networks_in_scope scope containers =
     bset (concat (map (\<lambda>c.
       if scope = PortmanLabeled \<and> \<not> container_has_portman_host_label (lc_labels c) then []
       else filter routable_docker_network_name (unwrap_or (lc_networks c) [])) containers))"

definition subnets_of_network :: "string list \<Rightarrow> network_info \<Rightarrow> string list" where
  "subnets_of_network in_scope net =
     (case ni_name net of
        None \<Rightarrow> []
      | Some name \<Rightarrow>
          if name \<notin> set in_scope then []
          else if ni_driver net \<noteq> Some ''bridge'' then []
          else filter routable_docker_subnet (List.map_filter id (unwrap_or (ni_ipam net) [])))"

definition network_subnets :: "string list \<Rightarrow> network_info list \<Rightarrow> string list" where
  "network_subnets in_scope networks = bset (concat (map (subnets_of_network in_scope) networks))"

definition docker_bridge_subnets ::
  "'w bridge_host \<Rightarrow> docker_route_scope \<Rightarrow> ('w machine, bridge_error, string list) io" where
  "docker_bridge_subnets h scope =
     io_then (attempt_call (bh_list_containers h) ContainersListed (DockerFailed [])) (\<lambda>containers.
       let names = networks_in_scope scope containers in
       if names = [] then io_ret []
       else io_then (attempt_call (bh_list_networks h) NetworksListed (DockerFailed [])) (\<lambda>networks.
         io_ret (network_subnets names networks)))"

fun with_context :: "string \<Rightarrow> bridge_error \<Rightarrow> bridge_error" where
  "with_context ctx (DockerFailed _ err) = DockerFailed ctx err"
| "with_context ctx (HostFailed _ err) = HostFailed ctx err"
| "with_context ctx (BridgeRefused err) = BridgeRefused ctx"

definition io_context :: "string \<Rightarrow> ('w machine, bridge_error, 'a) io \<Rightarrow> ('w machine, bridge_error, 'a) io" where
  "io_context ctx f m = (case f m of (r, m') \<Rightarrow> (map_err (with_context ctx) r, m'))"

fun docker_route_cidrs ::
  "'w bridge_host \<Rightarrow> netbridge_mode \<Rightarrow> ('w machine, bridge_error, string list) io" where
  "docker_route_cidrs h NbOptIn = io_ret []"
| "docker_route_cidrs h NbDocker =
     io_context ''discovering docker-mode bridge subnets'' (docker_bridge_subnets h PortmanLabeled)"
| "docker_route_cidrs h NbAll =
     io_context ''discovering all docker bridge subnets'' (docker_bridge_subnets h AllContainers)"

section \<open>The set-up container\<close>

definition setup_container_snapshot ::
  "'w bridge_host \<Rightarrow> ('w machine, bridge_error, (docker_labels \<times> bool) option) io" where
  "setup_container_snapshot h m =
     (case perform (bh_inspect_container h SETUP_CONTAINER) (ContainerInspected SETUP_CONTAINER) m of
        (Inr info, m') \<Rightarrow> (Inr (Some (unwrap_or (ic_labels info) [], unwrap_or (ic_running info) False)), m')
      | (Inl err, m') \<Rightarrow>
          (if docker_not_found err then (Inr None, m')
           else (Inl (DockerFailed ''inspecting netbridge setup container'' err), m')))"

lemma leads_perform [simp]: "perform f ev m = (r, m') \<Longrightarrow> leads m m'"
  by (auto simp: perform_def leads_def split: prod.splits)

lemma leads_attempt [simp]: "attempt_call f ev wrap m = (r, m') \<Longrightarrow> leads m m'"
  by (auto simp: attempt_call_def split: prod.splits)

lemma leads_sleep [simp]: "leads m (sleep_ms h n m)"
  by (auto simp: sleep_ms_def perform_def leads_def split: prod.splits)

lemma sleep_advances: "mc_clock m + n \<le> mc_clock (sleep_ms h n m)"
  by (auto simp: sleep_ms_def perform_def split: prod.splits)

lemma leads_snapshot: "setup_container_snapshot h m = (r, m') \<Longrightarrow> leads m m'"
  by (auto simp: setup_container_snapshot_def split: prod.splits sum.splits if_splits)

lemma clock_mono: "leads m m' \<Longrightarrow> mc_clock m \<le> mc_clock m'"
  by (simp add: leads_def)

lemma snapshot_then_sleep:
  assumes "(r, m') = setup_container_snapshot h m" and "\<not> deadline \<le> mc_clock m'"
  shows "deadline - mc_clock (sleep_ms h 100 m') < deadline - mc_clock m"
  using assms(2) clock_mono [OF leads_snapshot [OF assms(1) [symmetric]]] sleep_advances [of m' 100 h] by linarith

text \<open>The wait ends at its deadline, since every turn sleeps.\<close>

function wait_until_gone :: "'w bridge_host \<Rightarrow> nat \<Rightarrow> ('w machine, bridge_error, unit) io" where
  "wait_until_gone h deadline m =
     (case setup_container_snapshot h m of
        (Inl err, m') \<Rightarrow> (Inl err, m')
      | (Inr None, m') \<Rightarrow> (Inr (), m')
      | (Inr (Some _), m') \<Rightarrow>
          (if deadline \<le> mc_clock m' then
             (Inl (BridgeRefused (''netbridge setup container `'' @ SETUP_CONTAINER @ ''` still present '' @
               show_nat (SETUP_REMOVE_TIMEOUT div 1000) @ ''s after removal'')), m')
           else wait_until_gone h deadline (sleep_ms h 100 m')))"
  by pat_completeness auto
termination
  by (relation "measure (\<lambda>(h, deadline, m). deadline - mc_clock m)") (auto intro: snapshot_then_sleep)

declare wait_until_gone.simps [simp del]

definition wait_for_setup_container_gone :: "'w bridge_host \<Rightarrow> ('w machine, bridge_error, unit) io" where
  "wait_for_setup_container_gone h m = wait_until_gone h (mc_clock m + SETUP_REMOVE_TIMEOUT) m"

definition force_remove_setup_container :: "'w bridge_host \<Rightarrow> ('w machine, bridge_error, unit) io" where
  "force_remove_setup_container h m =
     (case perform (bh_remove_container h SETUP_CONTAINER True) (ContainerRemoved SETUP_CONTAINER True) m of
        (Inr _, m') \<Rightarrow> wait_for_setup_container_gone h m'
      | (Inl err, m') \<Rightarrow>
          (if docker_not_found err \<or> docker_removal_already_underway err then wait_for_setup_container_gone h m'
           else (Inl (DockerFailed ''removing existing netbridge setup container'' err), m')))"

definition remove_existing_setup_container :: "'w bridge_host \<Rightarrow> ('w machine, bridge_error, unit) io" where
  "remove_existing_setup_container h =
     io_then (setup_container_snapshot h) (\<lambda>snap. case snap of
       None \<Rightarrow> io_ret ()
     | Some (labels, running) \<Rightarrow>
         if \<not> setup_container_is_portman_managed (Some labels) then
           io_try (Inl (BridgeRefused (''docker container `'' @ SETUP_CONTAINER @
             ''` already exists but is not managed by portman'')))
         else if running then
           (\<lambda>m. case perform (bh_stop_container h SETUP_CONTAINER ''SIGTERM'' SETUP_STOP_TIMEOUT_SECS)
                       (ContainerStopped SETUP_CONTAINER ''SIGTERM'' SETUP_STOP_TIMEOUT_SECS) m of
              (Inl err, m') \<Rightarrow>
                (if docker_not_found err then (Inr (), m') else force_remove_setup_container h m')
            | (Inr _, m') \<Rightarrow> force_remove_setup_container h m')
         else force_remove_setup_container h)"

definition best_effort_remove_setup_container :: "'w bridge_host \<Rightarrow> 'w machine \<Rightarrow> 'w machine" where
  "best_effort_remove_setup_container h m = snd (remove_existing_setup_container h m)"

definition debug_exit_code :: "int option \<Rightarrow> string" where
  "debug_exit_code code =
     (case code of None \<Rightarrow> ''None''
      | Some i \<Rightarrow> ''Some('' @ (if i < 0 then ''-'' @ show_nat (nat (- i)) else show_nat (nat i)) @ '')'')"

definition ensure_setup_container_running :: "'w bridge_host \<Rightarrow> ('w machine, bridge_error, unit) io" where
  "ensure_setup_container_running h m =
     (case perform (bh_inspect_container h SETUP_CONTAINER) (ContainerInspected SETUP_CONTAINER) m of
        (Inl err, m') \<Rightarrow>
          (if docker_not_found err then (Inl (BridgeRefused ''netbridge setup container exited during startup''), m')
           else (Inl (DockerFailed ''inspecting netbridge setup container after startup'' err), m'))
      | (Inr info, m') \<Rightarrow>
          (if \<not> setup_container_is_portman_managed (ic_labels info) then
             (Inl (BridgeRefused (''docker container `'' @ SETUP_CONTAINER @ ''` exists but is not managed by portman'')), m')
           else if \<not> unwrap_or (ic_running info) False then
             (Inl (BridgeRefused (''netbridge setup container is not running after startup (status='' @
                unwrap_or (ic_status info) ''unknown'' @ '', exit_code='' @ debug_exit_code (ic_exit info) @ '')'')), m')
           else (Inr (), m')))"

definition public_key_from_base64 :: "'w bridge_host \<Rightarrow> string \<Rightarrow> string + string" where
  "public_key_from_base64 h input =
     and_then (ok_or ''invalid base64'' (bh_b64_decode h (trim input))) (\<lambda>key_bytes.
       if length key_bytes \<noteq> 32 then
         Inl (''WireGuard public key must decode to 32 bytes, got '' @ show_nat (length key_bytes))
       else Inr key_bytes)"

fun find_pubkey_line :: "string list \<Rightarrow> string option" where
  "find_pubkey_line [] = None"
| "find_pubkey_line (l # ls) =
     (case strip_prefix ''VM_PUBKEY='' (trim l) of Some raw \<Rightarrow> Some raw | None \<Rightarrow> find_pubkey_line ls)"

definition parse_vm_public_key_from_logs :: "'w bridge_host \<Rightarrow> string \<Rightarrow> bridge_error + string" where
  "parse_vm_public_key_from_logs h logs =
     (case find_pubkey_line (str_lines logs) of
        Some raw \<Rightarrow> map_err (HostFailed ''parsing VM public key from setup logs'') (public_key_from_base64 h raw)
      | None \<Rightarrow> Inl (BridgeRefused ''netbridge setup container did not report VM_PUBKEY''))"

definition read_setup_vm_public_key :: "'w bridge_host \<Rightarrow> ('w machine, bridge_error, string) io" where
  "read_setup_vm_public_key h =
     io_then (attempt_call (bh_logs h SETUP_CONTAINER) (LogsRead SETUP_CONTAINER)
         (DockerFailed ''reading netbridge setup container logs'')) (\<lambda>chunks.
       io_try (parse_vm_public_key_from_logs h (concat (map from_utf8_lossy chunks))))"

record keypair =
  kp_secret :: string
  kp_public :: string

definition setup_container_env :: "'w bridge_host \<Rightarrow> keypair \<Rightarrow> string list" where
  "setup_container_env h kp =
     [''HOST_PUBKEY='' @ bh_b64_encode h (kp_public kp),
      ''HOST_ENDPOINT=host.docker.internal:'' @ show_nat HOST_WG_LISTEN_PORT,
      ''PEER_CIDR='' @ VM_TUNNEL_IP @ ''/25'',
      ''ALLOWED_IPS='' @ PORTMAN_SUBNET_CIDR]"

definition setup_container_body :: "'w bridge_host \<Rightarrow> keypair \<Rightarrow> container_body" where
  "setup_container_body h kp =
     \<lparr>cb_image = SETUP_IMAGE, cb_env = setup_container_env h kp, cb_network_mode = ''host'',
      cb_cap_add = [''NET_ADMIN''], cb_auto_remove = True,
      cb_labels = [(MANAGED_LABEL, MANAGED_LABEL_VALUE), (ROLE_LABEL, SETUP_ROLE_LABEL_VALUE)]\<rparr>"

lemma leads_io_then:
  "io_then f g m = (r, m') \<Longrightarrow> (\<And>r v. f m = (r, v) \<Longrightarrow> leads m v) \<Longrightarrow>
   (\<And>x r u v. g x u = (r, v) \<Longrightarrow> leads u v) \<Longrightarrow> leads m m'"
  by (auto simp: io_then_def split: prod.splits sum.splits intro: leads_trans)

lemma leads_io_try [simp]: "io_try x m = (r, m') \<Longrightarrow> leads m m'"
  by (simp add: io_try_def)

lemma leads_io_ret [simp]: "io_ret x m = (r, m') \<Longrightarrow> leads m m'"
  by (simp add: io_ret_def)

lemma leads_ensure_running: "ensure_setup_container_running h m = (r, m') \<Longrightarrow> leads m m'"
  by (auto simp: ensure_setup_container_running_def split: prod.splits sum.splits if_splits)

lemma leads_read_key: "read_setup_vm_public_key h m = (r, m') \<Longrightarrow> leads m m'"
  unfolding read_setup_vm_public_key_def by (erule leads_io_then) simp_all

lemma read_key_then_sleep:
  assumes "(r, m') = ensure_setup_container_running h m" and "(r', m'') = read_setup_vm_public_key h m'"
    and "mc_clock m'' < deadline"
  shows "deadline - mc_clock (sleep_ms h 100 m'') < deadline - mc_clock m"
  using assms(3) clock_mono [OF leads_ensure_running [OF assms(1) [symmetric]]]
    clock_mono [OF leads_read_key [OF assms(2) [symmetric]]]
    sleep_advances [of m'' 100 h] by linarith

function await_vm_public_key :: "'w bridge_host \<Rightarrow> nat \<Rightarrow> ('w machine, bridge_error, string) io" where
  "await_vm_public_key h deadline m =
     (case ensure_setup_container_running h m of
        (Inl err, m') \<Rightarrow> (Inl err, best_effort_remove_setup_container h m')
      | (Inr _, m') \<Rightarrow>
          (case read_setup_vm_public_key h m' of
             (Inr key, m'') \<Rightarrow> (Inr key, m'')
           | (Inl err, m'') \<Rightarrow>
               (if mc_clock m'' < deadline then await_vm_public_key h deadline (sleep_ms h 100 m'')
                else (Inl err, best_effort_remove_setup_container h m''))))"
  by pat_completeness auto
termination
  by (relation "measure (\<lambda>(h, deadline, m). deadline - mc_clock m)") (auto intro: read_key_then_sleep)

declare await_vm_public_key.simps [simp del]

definition spawn_setup_container ::
  "'w bridge_host \<Rightarrow> keypair \<Rightarrow> ('w machine, bridge_error, string) io" where
  "spawn_setup_container h kp =
     io_then (attempt_call (bh_create_container h SETUP_CONTAINER (setup_container_body h kp))
         (ContainerCreated SETUP_CONTAINER (setup_container_body h kp))
         (DockerFailed ''creating netbridge setup container'')) (\<lambda>_ m.
       case perform (bh_start_container h SETUP_CONTAINER) (ContainerStarted SETUP_CONTAINER) m of
         (Inl err, m') \<Rightarrow>
           (Inl (DockerFailed ''starting netbridge setup container'' err), best_effort_remove_setup_container h m')
       | (Inr _, m') \<Rightarrow> await_vm_public_key h (mc_clock m' + 10000) m')"

section \<open>Host routes\<close>

datatype route_verb = RouteAdd | RouteChange | RouteDelete

fun verb_text :: "route_verb \<Rightarrow> string" where
  "verb_text RouteAdd = ''add''"
| "verb_text RouteChange = ''change''"
| "verb_text RouteDelete = ''delete''"

text \<open>Every command of a plan is an \<open>add\<close>: it is all \<open>RouteCommand\<close> has a constructor for.\<close>

record route_command =
  rc_cidr :: string
  rc_iface :: string

definition route_error :: "route_verb \<Rightarrow> string + route_output \<Rightarrow> bridge_error + unit" where
  "route_error verb reply =
     (case reply of
        Inl err \<Rightarrow> Inl (HostFailed (''spawning /sbin/route '' @ verb_text verb) err)
      | Inr out \<Rightarrow>
          if ro_success out then Inr ()
          else Inl (BridgeRefused (''/sbin/route '' @ verb_text verb @ '' exited with '' @ ro_status out @
            (let stderr = trim (from_utf8_lossy (ro_stderr out)) in if stderr = [] then [] else '': '' @ stderr))))"

definition run_route :: "'w bridge_host \<Rightarrow> route_verb \<Rightarrow> string \<Rightarrow> string \<Rightarrow> ('w machine, bridge_error, unit) io" where
  "run_route h verb cidr iface m =
     (case perform (bh_route h (verb_text verb) cidr iface) (RouteRun (verb_text verb) cidr iface) m of
        (reply, m') \<Rightarrow> (route_error verb reply, m'))"

text \<open>The loop over the lines keeps what the last \<open>destination:\<close> and \<open>interface:\<close> line said.\<close>

definition scan_route_line :: "string \<Rightarrow> bool \<times> string option \<Rightarrow> string \<Rightarrow> bool \<times> string option" where
  "scan_route_line addr st line =
     (let trimmed = trim_start line;
          matches = (case strip_prefix ''destination:'' trimmed of
                       Some dest \<Rightarrow> trim dest = addr | None \<Rightarrow> fst st);
          iface = (case strip_prefix ''interface:'' trimmed of
                     Some raw \<Rightarrow> (if starts_with ''utun'' (trim raw) then Some (trim raw) else snd st)
                   | None \<Rightarrow> snd st)
      in (matches, iface))"

definition route_get_specific_utun_interface :: "string \<Rightarrow> string \<Rightarrow> string option" where
  "route_get_specific_utun_interface stdout addr =
     (case foldl (scan_route_line addr) (False, None) (str_lines stdout) of
        (matches, iface) \<Rightarrow> if matches then iface else None)"

definition specific_route_utun_interface :: "'w bridge_host \<Rightarrow> string \<Rightarrow> 'w machine \<Rightarrow> string option \<times> 'w machine" where
  "specific_route_utun_interface h cidr m =
     (let addr = before_char CHR ''/'' cidr in
      case perform (bh_route_get h addr) (RouteGot addr) m of
        (Inl _, m') \<Rightarrow> (None, m')
      | (Inr out, m') \<Rightarrow>
          (if ro_success out then route_get_specific_utun_interface (from_utf8_lossy (ro_stdout out)) addr else None, m'))"

datatype existing_route = Correct | Repair | Foreign

definition interface_is_alive :: "'w bridge_host \<Rightarrow> string \<Rightarrow> 'w machine \<Rightarrow> bool \<times> 'w machine" where
  "interface_is_alive h iface = perform (bh_alive h iface) (InterfaceProbed iface)"

definition classify_existing_route ::
  "'w bridge_host \<Rightarrow> string \<Rightarrow> string \<Rightarrow> string \<Rightarrow> 'w machine \<Rightarrow> existing_route \<times> 'w machine" where
  "classify_existing_route h cidr existing wanted m =
     (if existing = wanted then (Correct, m)
      else if cidr = PORTMAN_SUBNET_CIDR then (Repair, m)
      else (case interface_is_alive h existing m of (alive, m') \<Rightarrow>
        (if \<not> alive \<or> existing \<in> mc_utuns m' then Repair else Foreign, m')))"

definition add_route :: "'w bridge_host \<Rightarrow> route_command \<Rightarrow> ('w machine, bridge_error, unit) io" where
  "add_route h cmd m =
     (case run_route h RouteAdd (rc_cidr cmd) (rc_iface cmd) m of
        (Inr _, m') \<Rightarrow> (Inr (), m')
      | (Inl err, m') \<Rightarrow>
          (case specific_route_utun_interface h (rc_cidr cmd) m' of
             (None, m'') \<Rightarrow> (Inl err, m'')
           | (Some existing, m'') \<Rightarrow>
               (case classify_existing_route h (rc_cidr cmd) existing (rc_iface cmd) m'' of
                  (Repair, m3) \<Rightarrow> (Inl err, m3)
                | (_, m3) \<Rightarrow> (Inr (), m3))))"

definition ensure_route_command :: "'w bridge_host \<Rightarrow> route_command \<Rightarrow> ('w machine, bridge_error, unit) io" where
  "ensure_route_command h cmd m =
     (case specific_route_utun_interface h (rc_cidr cmd) m of
        (None, m') \<Rightarrow> add_route h cmd m'
      | (Some existing, m') \<Rightarrow>
          (case classify_existing_route h (rc_cidr cmd) existing (rc_iface cmd) m' of
             (Correct, m'') \<Rightarrow> (Inr (), m'')
           | (Foreign, m'') \<Rightarrow> (Inr (), m'')
           | (Repair, m'') \<Rightarrow>
               (case run_route h RouteChange (rc_cidr cmd) (rc_iface cmd) m'' of
                  (Inr _, m3) \<Rightarrow> (Inr (), m3)
                | (Inl _, m3) \<Rightarrow> add_route h cmd m3)))"

definition startup_route_plan :: "string \<Rightarrow> string list \<Rightarrow> route_command list" where
  "startup_route_plan iface extra =
     map (\<lambda>cidr. \<lparr>rc_cidr = cidr, rc_iface = iface\<rparr>) (PORTMAN_SUBNET_CIDR # filter routable_docker_subnet extra)"

text \<open>Dropping the guard of a start that did not finish: each recorded route is deleted, in order.\<close>

fun rollback_routes :: "'w bridge_host \<Rightarrow> string \<Rightarrow> string list \<Rightarrow> 'w machine \<Rightarrow> 'w machine" where
  "rollback_routes h iface [] m = m"
| "rollback_routes h iface (cidr # cidrs) m =
     rollback_routes h iface cidrs (snd (run_route h RouteDelete cidr iface m))"

text \<open>On the error path the name is given up, then the guard, the device and the socket are dropped.\<close>

fun install_routes ::
  "'w bridge_host \<Rightarrow> string \<Rightarrow> route_command list \<Rightarrow> string list \<Rightarrow> ('w machine, bridge_error, unit) io" where
  "install_routes h utun [] installed m = (Inr (), m)"
| "install_routes h utun (cmd # cmds) installed m =
     (case ensure_route_command h cmd m of
        (Inl err, m') \<Rightarrow>
          (Inl err, log_event UdpClosed (log_event UtunClosed
             (rollback_routes h utun installed (m'\<lparr>mc_utuns := mc_utuns m' - {utun}\<rparr>))))
      | (Inr _, m') \<Rightarrow> install_routes h utun cmds (installed @ [rc_cidr cmd]) m')"

section \<open>Start, upkeep and shutdown\<close>

record bridge_runtime =
  rt_utun :: string
  rt_mode :: netbridge_mode
  rt_host_key :: keypair
  rt_vm_key :: string

definition closing_udp :: "('w machine, bridge_error, 'a) io \<Rightarrow> ('w machine, bridge_error, 'a) io" where
  "closing_udp f m = (case f m of (Inl err, m') \<Rightarrow> (Inl err, log_event UdpClosed m') | (Inr x, m') \<Rightarrow> (Inr x, m'))"

definition closing_utun :: "('w machine, bridge_error, 'a) io \<Rightarrow> ('w machine, bridge_error, 'a) io" where
  "closing_utun f m = (case f m of (Inl err, m') \<Rightarrow> (Inl err, log_event UtunClosed m') | (Inr x, m') \<Rightarrow> (Inr x, m'))"

text \<open>The set-up container: replaced, never reused, since it is given the host's key.\<close>

definition bring_up_peer :: "'w bridge_host \<Rightarrow> keypair \<Rightarrow> ('w machine, bridge_error, string) io" where
  "bring_up_peer h kp = io_then (remove_existing_setup_container h) (\<lambda>_. spawn_setup_container h kp)"

definition open_utun :: "'w bridge_host \<Rightarrow> ('w machine, bridge_error, string) io" where
  "open_utun h =
     io_then (attempt_call (bh_create_utun h) UtunCreated (HostFailed ''creating utun'')) (\<lambda>_.
       closing_utun (io_then (attempt_call (bh_set_cloexec h) CloexecSet
             (HostFailed ''preventing tunnel descriptor inheritance'')) (\<lambda>_.
           attempt_call (bh_utun_name h) UtunNamed (HostFailed ''utun name''))))"

definition start_host_side ::
  "'w bridge_host \<Rightarrow> netbridge_mode \<Rightarrow> keypair \<Rightarrow> string list \<Rightarrow> string \<Rightarrow> ('w machine, bridge_error, bridge_runtime) io" where
  "start_host_side h mode kp extra vm_pub =
     io_then (closing_udp (open_utun h)) (\<lambda>utun m.
       case install_routes h utun (startup_route_plan utun extra) [] (m\<lparr>mc_utuns := insert utun (mc_utuns m)\<rparr>) of
         (Inl err, m') \<Rightarrow> (Inl err, m')
       | (Inr _, m') \<Rightarrow>
           (Inr \<lparr>rt_utun = utun, rt_mode = mode, rt_host_key = kp, rt_vm_key = vm_pub\<rparr>, m'))"

definition start_docker_side ::
  "'w bridge_host \<Rightarrow> netbridge_mode \<Rightarrow> keypair \<Rightarrow> ('w machine, bridge_error, string list \<times> string) io" where
  "start_docker_side h mode kp =
     io_then (ensure_portman_network h) (\<lambda>_.
     io_then (docker_route_cidrs h mode) (\<lambda>extra.
     io_then (attempt_call (bh_bind_udp h HOST_WG_LISTEN_PORT) (UdpBound HOST_WG_LISTEN_PORT)
         (HostFailed (''binding 0.0.0.0:'' @ show_nat HOST_WG_LISTEN_PORT))) (\<lambda>_.
     io_then (closing_udp (bring_up_peer h kp)) (\<lambda>vm_pub. io_ret (extra, vm_pub)))))"

definition start_with_keypair ::
  "'w bridge_host \<Rightarrow> netbridge_mode \<Rightarrow> keypair \<Rightarrow> ('w machine, bridge_error, bridge_runtime) io" where
  "start_with_keypair h mode kp =
     io_then (start_docker_side h mode kp) (\<lambda>(extra, vm_pub). start_host_side h mode kp extra vm_pub)"

definition ensure_routes :: "'w bridge_host \<Rightarrow> route_command list \<Rightarrow> 'w machine \<Rightarrow> 'w machine" where
  "ensure_routes h cmds m = foldl (\<lambda>m cmd. snd (ensure_route_command h cmd m)) m cmds"

text \<open>One tick of the route reconciler; a failed discovery leaves the dedicated subnet alone to repair.\<close>

definition route_reconcile_tick :: "'w bridge_host \<Rightarrow> netbridge_mode \<Rightarrow> string \<Rightarrow> 'w machine \<Rightarrow> 'w machine" where
  "route_reconcile_tick h mode iface m =
     (case docker_route_cidrs h mode m of (r, m') \<Rightarrow>
        ensure_routes h (startup_route_plan iface (case r of Inr extra \<Rightarrow> extra | Inl _ \<Rightarrow> [])) m')"

text \<open>Joining the pump tasks closes the device and the socket they hold.\<close>

definition runtime_shutdown :: "'w bridge_host \<Rightarrow> bridge_runtime \<Rightarrow> 'w machine \<Rightarrow> 'w machine" where
  "runtime_shutdown h rt m =
     (let m1 = log_event UdpClosed (log_event UtunClosed m) in
      best_effort_remove_setup_container h (m1\<lparr>mc_utuns := mc_utuns m1 - {rt_utun rt}\<rparr>))"

definition shutdown_and_remove_network :: "'w bridge_host \<Rightarrow> bridge_runtime \<Rightarrow> 'w machine \<Rightarrow> 'w machine" where
  "shutdown_and_remove_network h rt m = remove_portman_network_if_owned h (runtime_shutdown h rt m)"

section \<open>Only what is labelled as portman's is stopped or removed\<close>

text \<open>
  \<open>tagged c n es\<close>: in \<open>es\<close>, a container is stopped or removed only if the last inspection before
  showed portman's labels on it, and a network likewise; \<open>c\<close>, \<open>n\<close> are what the last inspections
  before \<open>es\<close> showed.
\<close>

fun tagged :: "bool \<Rightarrow> bool \<Rightarrow> bridge_event list \<Rightarrow> bool" where
  "tagged c n [] \<longleftrightarrow> True"
| "tagged c n (ContainerInspected _ (Inr info) # es) \<longleftrightarrow>
     tagged (setup_container_is_portman_managed (ic_labels info)) n es"
| "tagged c n (ContainerInspected _ (Inl _) # es) \<longleftrightarrow> tagged False n es"
| "tagged c n (NetworkInspected _ (Inr net) # es) \<longleftrightarrow> tagged c (network_is_portman_managed (ni_labels net)) es"
| "tagged c n (NetworkInspected _ (Inl _) # es) \<longleftrightarrow> tagged c False es"
| "tagged c n (ContainerStopped name _ _ _ # es) \<longleftrightarrow> c \<and> name = SETUP_CONTAINER \<and> tagged c n es"
| "tagged c n (ContainerRemoved name _ _ # es) \<longleftrightarrow> c \<and> name = SETUP_CONTAINER \<and> tagged c n es"
| "tagged c n (NetworkRemoved name _ # es) \<longleftrightarrow> n \<and> name = PORTMAN_NETWORK \<and> tagged c n es"
| "tagged c n (_ # es) \<longleftrightarrow> tagged c n es"

definition touches_own :: "bridge_event list \<Rightarrow> bool" where
  "touches_own es \<longleftrightarrow> (\<forall>c n fs. (\<forall>c' n'. tagged c' n' fs) \<longrightarrow> tagged c n (es @ fs))"

lemma touches_own_tagged: "touches_own es \<Longrightarrow> tagged c n es"
  unfolding touches_own_def by (drule spec [of _ c], drule spec [of _ n], drule spec [of _ "[]"]) simp

lemma touches_own_append: "touches_own es \<Longrightarrow> touches_own fs \<Longrightarrow> touches_own (es @ fs)"
  by (simp add: touches_own_def)

text \<open>
  \<open>does P m m'\<close>: what was done from \<open>m\<close> to \<open>m'\<close> satisfies \<open>P\<close>, and the own tunnels are the same.
\<close>

definition does :: "(bridge_event list \<Rightarrow> bool) \<Rightarrow> 'w machine \<Rightarrow> 'w machine \<Rightarrow> bool" where
  "does P m m' \<longleftrightarrow> leads m m' \<and> mc_utuns m' = mc_utuns m \<and> P (appended m m')"

lemma does_perform:
  "perform f ev m = (r, m') \<Longrightarrow> does (\<lambda>es. es = [ev r]) m m'"
  by (auto simp: perform_def does_def appended_def leads_def split: prod.splits)

lemma does_then:
  "does P a b \<Longrightarrow> does Q b c \<Longrightarrow> does (\<lambda>es. \<exists>xs ys. es = xs @ ys \<and> P xs \<and> Q ys) a c"
  unfolding does_def by (metis appended_trans leads_trans)

lemma does_mono: "does P m m' \<Longrightarrow> (\<And>es. P es \<Longrightarrow> Q es) \<Longrightarrow> does Q m m'"
  by (simp add: does_def)

lemma does_log: "does (\<lambda>es. es = [e]) m (log_event e m)"
  by (simp add: does_def log_event_def leads_def appended_def)

lemma does_sleep: "does (\<lambda>es. es = [Slept n]) m (sleep_ms h n m)"
  by (auto simp: sleep_ms_def perform_def does_def leads_def appended_def split: prod.splits)

text \<open>
  What holds of every log of Docker calls: the atomic facts are the laws of \<open>P\<close>, the operations of
  the Docker side are proved once. A container may be stopped or removed only together with the
  inspection that showed its labels.
\<close>

locale docker_log =
  fixes P :: "bridge_event list \<Rightarrow> bool"
  assumes nil: "P []"
    and app: "P es \<Longrightarrow> P fs \<Longrightarrow> P (es @ fs)"
    and inspected: "P [ContainerInspected SETUP_CONTAINER ci]" "P [NetworkInspected PORTMAN_NETWORK ni]"
    and made: "P [NetworkCreated req u]" "P [ContainerCreated name body u]" "P [ContainerStarted name u]"
    and seen: "P [NetworksListed nets]" "P [ContainersListed cons]" "P [LogsRead name chunks]" "P [Slept t]"
    and removed: "setup_container_is_portman_managed (ic_labels info) \<Longrightarrow>
        P [ContainerInspected SETUP_CONTAINER (Inr info), ContainerRemoved SETUP_CONTAINER True u]"
    and stopped_removed: "setup_container_is_portman_managed (ic_labels info) \<Longrightarrow>
        P [ContainerInspected SETUP_CONTAINER (Inr info), ContainerStopped SETUP_CONTAINER sig t v,
           ContainerRemoved SETUP_CONTAINER True u]"
    and stopped: "setup_container_is_portman_managed (ic_labels info) \<Longrightarrow>
        P [ContainerInspected SETUP_CONTAINER (Inr info), ContainerStopped SETUP_CONTAINER sig t v]"
    and net_removed: "network_is_portman_managed (ni_labels net) \<Longrightarrow>
        P [NetworkInspected PORTMAN_NETWORK (Inr net), NetworkRemoved PORTMAN_NETWORK u]"
begin

lemma does_nil: "does P m m"
  by (simp add: does_def nil)

lemma does_seq: "does P a b \<Longrightarrow> does P b c \<Longrightarrow> does P a c"
  by (drule (1) does_then, erule does_mono) (auto intro: app)

lemma perform_does: "perform f ev m = (r, m') \<Longrightarrow> P [ev r] \<Longrightarrow> does P m m'"
  by (drule does_perform, erule does_mono) simp

lemma attempt_does: "attempt_call f ev wrap m = (r, m') \<Longrightarrow> (\<And>x. P [ev x]) \<Longrightarrow> does P m m'"
  by (auto simp: attempt_call_def split: prod.splits intro: perform_does)

lemma sleep_does: "does P m (sleep_ms h n m)"
  by (rule does_mono [OF does_sleep]) (simp add: seen)

lemma then_does:
  assumes "io_then f g m = (r, m')" and "\<And>r v. f m = (r, v) \<Longrightarrow> does P m v"
    and "\<And>x r u v. g x u = (r, v) \<Longrightarrow> does P u v"
  shows "does P m m'"
  using assms by (auto simp: io_then_def split: prod.splits sum.splits intro: does_seq)

lemma ret_does: "io_ret x m = (r, m') \<Longrightarrow> does P m m'" and try_does: "io_try y m = (r', m') \<Longrightarrow> does P m m'"
  by (simp_all add: io_ret_def io_try_def does_nil)

lemma ensure_network_does: "ensure_portman_network h m = (r, m') \<Longrightarrow> does P m m'"
  unfolding ensure_portman_network_def create_portman_network_def
  by (auto split: prod.splits sum.splits if_splits intro: perform_does inspected
      does_seq [OF perform_does attempt_does] made)

lemma bridge_subnets_does: "docker_bridge_subnets h scope m = (r, m') \<Longrightarrow> does P m m'"
  unfolding docker_bridge_subnets_def
  by (erule then_does, erule attempt_does, rule seen)
    (auto simp: Let_def split: if_splits elim!: then_does attempt_does intro: ret_does seen)

lemma route_cidrs_does: "docker_route_cidrs h mode m = (r, m') \<Longrightarrow> does P m m'"
  by (cases mode) (auto simp: io_context_def split: prod.splits intro: ret_does bridge_subnets_does)

lemma snapshot_does: "setup_container_snapshot h m = (r, m') \<Longrightarrow> does P m m'"
  unfolding setup_container_snapshot_def
  by (auto split: prod.splits sum.splits if_splits intro: perform_does inspected)

lemma wait_does: "wait_until_gone h deadline m = (r, m') \<Longrightarrow> does P m m'"
proof (induction h deadline m rule: wait_until_gone.induct)
  case (1 h deadline m)
  then show ?case
    by (auto simp: wait_until_gone.simps [of h deadline m] split: prod.splits sum.splits option.splits if_splits
        intro: snapshot_does does_seq [OF snapshot_does does_seq [OF sleep_does]])
qed

lemma force_remove_does:
  assumes "force_remove_setup_container h m = (r, m')"
  shows "does (\<lambda>es. \<exists>u fs. es = ContainerRemoved SETUP_CONTAINER True u # fs \<and> P fs) m m'"
proof -
  obtain u m1 where rm: "perform (bh_remove_container h SETUP_CONTAINER True) (ContainerRemoved SETUP_CONTAINER True) m = (u, m1)"
    by fastforce
  have "does P m1 m'"
    using assms rm wait_does by (auto simp: force_remove_setup_container_def wait_for_setup_container_gone_def does_nil
        split: sum.splits if_splits)
  from does_then [OF does_perform [OF rm] this] show ?thesis by (rule does_mono) auto
qed

lemma removal_does:
  assumes info: "setup_container_is_portman_managed (ic_labels info)"
    and first: "does (\<lambda>es. es = [ContainerInspected SETUP_CONTAINER (Inr info)]) m m1"
  shows "force_remove_setup_container h m1 = (r, m') \<Longrightarrow> does P m m'"
    and "perform f (ContainerStopped SETUP_CONTAINER sig t) m1 = (v, m') \<Longrightarrow> does P m m'"
    and "perform f (ContainerStopped SETUP_CONTAINER sig t) m1 = (v, m2) \<Longrightarrow>
      force_remove_setup_container h m2 = (r, m') \<Longrightarrow> does P m m'"
proof -
  show "does P m m'" if "force_remove_setup_container h m1 = (r, m')"
    using does_then [OF first force_remove_does [OF that]]
    by (rule does_mono) (auto dest: app [OF removed [OF info]])
  show "does P m m'" if "perform f (ContainerStopped SETUP_CONTAINER sig t) m1 = (v, m')"
    using does_then [OF first does_perform [OF that]] by (rule does_mono) (auto intro: stopped [OF info])
  show "does P m m'" if "perform f (ContainerStopped SETUP_CONTAINER sig t) m1 = (v, m2)"
    "force_remove_setup_container h m2 = (r, m')"
    using does_then [OF first does_then [OF does_perform [OF that(1)] force_remove_does [OF that(2)]]]
    by (rule does_mono) (auto dest: app [OF stopped_removed [OF info]])
qed

lemma remove_existing_does:
  assumes run: "remove_existing_setup_container h m = (r, m')"
  shows "does P m m'"
proof -
  obtain reply m1 where ins: "perform (bh_inspect_container h SETUP_CONTAINER) (ContainerInspected SETUP_CONTAINER) m = (reply, m1)"
    by fastforce
  have one: "does P m m1" by (rule perform_does [OF ins]) (rule inspected)
  show ?thesis
  proof (cases reply)
    case (Inl err)
    with run ins one show ?thesis
      by (auto simp: remove_existing_setup_container_def setup_container_snapshot_def io_then_def io_ret_def split: if_splits)
  next
    case (Inr info)
    let ?managed = "setup_container_is_portman_managed (Some (unwrap_or (ic_labels info) []))"
    have first: "does (\<lambda>es. es = [ContainerInspected SETUP_CONTAINER (Inr info)]) m m1"
      using does_perform [OF ins] Inr by simp
    show ?thesis
    proof (cases ?managed)
      case False
      with run ins one Inr show ?thesis
        by (auto simp: remove_existing_setup_container_def setup_container_snapshot_def io_then_def io_try_def)
    next
      case True
      then have "setup_container_is_portman_managed (ic_labels info)"
        by (cases "ic_labels info") (simp_all add: setup_container_is_portman_managed_def label_is_def)
      note rules = removal_does [OF this first]
      show ?thesis using run ins Inr True rules
        by (auto simp: remove_existing_setup_container_def setup_container_snapshot_def io_then_def
            split: if_splits prod.splits sum.splits)
    qed
  qed
qed

lemma best_effort_does: "does P m (best_effort_remove_setup_container h m)"
  unfolding best_effort_remove_setup_container_def by (rule remove_existing_does [OF surjective_pairing])

lemma ensure_running_does: "ensure_setup_container_running h m = (r, m') \<Longrightarrow> does P m m'"
  unfolding ensure_setup_container_running_def
  by (auto split: prod.splits sum.splits if_splits intro: perform_does inspected)

lemma read_key_does: "read_setup_vm_public_key h m = (r, m') \<Longrightarrow> does P m m'"
  unfolding read_setup_vm_public_key_def by (erule then_does) (auto intro: attempt_does try_does seen)

lemma await_key_does: "await_vm_public_key h deadline m = (r, m') \<Longrightarrow> does P m m'"
proof (induction h deadline m rule: await_vm_public_key.induct)
  case (1 h deadline m)
  note seq = does_seq [OF ensure_running_does] does_seq [OF ensure_running_does does_seq [OF read_key_does]]
  from 1 show ?case
    by (auto simp: await_vm_public_key.simps [of h deadline m] split: prod.splits sum.splits if_splits
        intro: seq best_effort_does read_key_does seq(2) [OF _ _ does_seq [OF sleep_does]])
qed

lemma spawn_does: "spawn_setup_container h kp m = (r, m') \<Longrightarrow> does P m m'"
  unfolding spawn_setup_container_def
  by (erule then_does)
    (auto split: prod.splits sum.splits intro: attempt_does made best_effort_does await_key_does
      does_seq [OF perform_does best_effort_does] does_seq [OF perform_does await_key_does])

lemma bring_up_does: "bring_up_peer h kp m = (r, m') \<Longrightarrow> does P m m'"
  unfolding bring_up_peer_def by (erule then_does) (auto intro: remove_existing_does spawn_does)

lemma remove_network_does: "does P m (remove_portman_network_if_owned h m)"
proof -
  obtain reply m1 where ins: "perform (bh_inspect_network h PORTMAN_NETWORK) (NetworkInspected PORTMAN_NETWORK) m = (reply, m1)"
    by fastforce
  obtain u m2 where rm: "perform (bh_remove_network h PORTMAN_NETWORK) (NetworkRemoved PORTMAN_NETWORK) m1 = (u, m2)"
    by fastforce
  have "does P m m1" by (rule perform_does [OF ins]) (rule inspected)
  moreover have "does P m m2" if "reply = Inr net" "network_is_portman_managed (ni_labels net)" for net
    using does_then [OF does_perform [OF ins] does_perform [OF rm]] that
    by (auto intro: does_mono net_removed)
  ultimately show ?thesis using ins rm by (auto simp: remove_portman_network_if_owned_def split: sum.splits)
qed

end

text \<open>Two logs of this kind: the one above, and the one without any host resource.\<close>

lemma tagged_inspection: "\<forall>c n. tagged c n fs \<Longrightarrow> tagged c n (ContainerInspected name r # fs)"
  and tagged_net_inspection: "\<forall>c n. tagged c n fs \<Longrightarrow> tagged c n (NetworkInspected name' r' # fs)"
  by (cases r, simp_all) (cases r', simp_all)

interpretation own_log: docker_log touches_own
proof
  show "touches_own [ContainerInspected SETUP_CONTAINER ci]" for ci
    unfolding touches_own_def by (simp add: tagged_inspection)
  show "touches_own [NetworkInspected PORTMAN_NETWORK ni]" for ni
    unfolding touches_own_def by (simp add: tagged_net_inspection)
qed (simp_all add: touches_own_def)

fun host_event :: "bridge_event \<Rightarrow> bool" where
  "host_event (UtunCreated _) \<longleftrightarrow> True"
| "host_event (CloexecSet _) \<longleftrightarrow> True"
| "host_event (UtunNamed _) \<longleftrightarrow> True"
| "host_event UtunClosed \<longleftrightarrow> True"
| "host_event (RouteRun _ _ _ _) \<longleftrightarrow> True"
| "host_event (RouteGot _ _) \<longleftrightarrow> True"
| "host_event (InterfaceProbed _ _) \<longleftrightarrow> True"
| "host_event _ \<longleftrightarrow> False"

fun udp_event :: "bridge_event \<Rightarrow> bool" where
  "udp_event (UdpBound _ _) \<longleftrightarrow> True"
| "udp_event UdpClosed \<longleftrightarrow> True"
| "udp_event _ \<longleftrightarrow> False"

definition docker_only :: "bridge_event list \<Rightarrow> bool" where
  "docker_only es \<longleftrightarrow> list_all (\<lambda>e. \<not> host_event e \<and> \<not> udp_event e) es"

interpretation docker_side: docker_log docker_only
  by unfold_locales (simp_all add: docker_only_def)

lemma touches_own_other: "list_all (\<lambda>e. host_event e \<or> udp_event e) es \<Longrightarrow> touches_own es"
proof (induction es)
  case (Cons e es)
  then have "touches_own es" by simp
  with Cons.prems show ?case by (cases e) (simp_all add: touches_own_def)
qed (simp add: touches_own_def)

section \<open>Start is all or nothing\<close>

text \<open>
  What a log leaves behind: the routes added or repointed and not deleted since (a command counts
  when it succeeded), and the balance of opened and closed descriptors. \<open>deletions\<close> are the deletions
  asked for, each with its success; a refused one is only warned about.
\<close>

fun succeeded :: "string + route_output \<Rightarrow> bool" where
  "succeeded (Inr out) = ro_success out"
| "succeeded (Inl err) = False"

fun route_effect :: "string set \<Rightarrow> bridge_event \<Rightarrow> string set" where
  "route_effect L (RouteRun verb cidr iface reply) =
     (if \<not> succeeded reply then L else if verb = ''delete'' then L - {cidr} else insert cidr L)"
| "route_effect L _ = L"

definition live_routes :: "string set \<Rightarrow> bridge_event list \<Rightarrow> string set" where
  "live_routes L es = foldl route_effect L es"

fun deletion :: "bridge_event \<Rightarrow> (string \<times> bool) set" where
  "deletion (RouteRun verb cidr iface reply) = (if verb = ''delete'' then {(cidr, succeeded reply)} else {})"
| "deletion _ = {}"

definition deletions :: "bridge_event list \<Rightarrow> (string \<times> bool) set" where
  "deletions es = \<Union> (deletion ` set es)"

definition undeleted :: "bridge_event list \<Rightarrow> string set" where
  "undeleted es = {cidr. (cidr, False) \<in> deletions es}"

text \<open>
  The routes a log shows to be in place for the tunnel \<open>utun\<close>: set to it by a command that succeeded,
  found on it, or (for a subnet other than portman's own) found on a living tunnel that is not one
  of \<open>own\<close>, which is left alone.
\<close>

definition found_on :: "bridge_event list \<Rightarrow> string \<Rightarrow> string set" where
  "found_on es cidr =
     {iface. \<exists>out. RouteGot (before_char CHR ''/'' cidr) (Inr out) \<in> set es \<and> ro_success out \<and>
        route_get_specific_utun_interface (from_utf8_lossy (ro_stdout out)) (before_char CHR ''/'' cidr) = Some iface}"

definition served :: "string \<Rightarrow> string set \<Rightarrow> bridge_event list \<Rightarrow> string set" where
  "served utun own es =
     {cidr. (\<exists>verb reply. verb \<noteq> ''delete'' \<and> succeeded reply \<and> RouteRun verb cidr utun reply \<in> set es) \<or>
        utun \<in> found_on es cidr \<or>
        cidr \<noteq> PORTMAN_SUBNET_CIDR \<and> (\<exists>iface\<in>found_on es cidr - own. InterfaceProbed iface True \<in> set es)}"

lemma deletions_simps [simp]: "deletions [] = {}" "deletions (e # es) = deletion e \<union> deletions es"
  "deletions (es @ fs) = deletions es \<union> deletions fs"
  by (auto simp: deletions_def)

lemma undeleted_append [simp]: "undeleted (es @ fs) = undeleted es \<union> undeleted fs"
  by (auto simp: undeleted_def)

lemma undeleted_Nil [simp]: "undeleted [] = {}"
  by (simp add: undeleted_def)

lemma found_on_mono: "set es \<subseteq> set fs \<Longrightarrow> found_on es cidr \<subseteq> found_on fs cidr"
  unfolding found_on_def by blast

lemma found_on_append [simp]: "found_on (es @ fs) cidr = found_on es cidr \<union> found_on fs cidr"
  unfolding found_on_def by auto

lemma served_mono: "set es \<subseteq> set fs \<Longrightarrow> served utun own es \<subseteq> served utun own fs"
  unfolding served_def using found_on_mono [of es fs] by blast

definition balance :: "('a \<Rightarrow> bool) \<Rightarrow> ('a \<Rightarrow> bool) \<Rightarrow> 'a list \<Rightarrow> int" where
  "balance opens closes es = int (length (filter opens es)) - int (length (filter closes es))"

definition open_udp :: "bridge_event list \<Rightarrow> int" where
  "open_udp = balance (\<lambda>e. \<exists>p. e = UdpBound p (Inr ())) (\<lambda>e. e = UdpClosed)"

definition open_utuns :: "bridge_event list \<Rightarrow> int" where
  "open_utuns = balance (\<lambda>e. e = UtunCreated (Inr ())) (\<lambda>e. e = UtunClosed)"

lemma live_routes_append [simp]: "live_routes L (es @ fs) = live_routes (live_routes L es) fs"
  by (simp add: live_routes_def)

lemma live_routes_simps [simp]: "live_routes L [] = L" "live_routes L (e # es) = live_routes (route_effect L e) es"
  by (simp_all add: live_routes_def)

lemma open_udp_append [simp]: "open_udp (es @ fs) = open_udp es + open_udp fs"
  and open_utuns_append [simp]: "open_utuns (es @ fs) = open_utuns es + open_utuns fs"
  by (simp_all add: open_udp_def open_utuns_def balance_def)

lemma open_simps [simp]: "open_udp [] = 0" "open_utuns [] = 0"
  "open_udp (UdpClosed # es) = open_udp es - 1" "open_udp (UdpBound p (Inr u) # es) = open_udp es + 1"
  "open_utuns (UtunClosed # es) = open_utuns es - 1" "open_utuns (UtunCreated (Inr u) # es) = open_utuns es + 1"
  "open_udp (UtunClosed # es) = open_udp es" "open_utuns (UdpClosed # es) = open_utuns es"
  by (simp_all add: open_udp_def open_utuns_def balance_def)

lemma docker_only_open: "docker_only es \<Longrightarrow> open_udp es = 0 \<and> open_utuns es = 0 \<and> live_routes L es = L"
proof (induction es)
  case (Cons e es)
  then show ?case by (cases e) (simp_all add: docker_only_def open_udp_def open_utuns_def balance_def)
qed simp

text \<open>
  \<open>routing S\<close>: a log of route commands and probes alone that deletes nothing, by which only routes of
  \<open>S\<close> may appear.
\<close>

fun route_event :: "bridge_event \<Rightarrow> bool" where
  "route_event (RouteRun _ _ _ _) \<longleftrightarrow> True"
| "route_event (RouteGot _ _) \<longleftrightarrow> True"
| "route_event (InterfaceProbed _ _) \<longleftrightarrow> True"
| "route_event _ \<longleftrightarrow> False"

definition routing :: "string set \<Rightarrow> bridge_event list \<Rightarrow> bool" where
  "routing S es \<longleftrightarrow> list_all route_event es \<and> deletions es = {} \<and> (\<forall>L. live_routes L es \<subseteq> L \<union> S)"

lemma routing_append: "routing S es \<Longrightarrow> routing T fs \<Longrightarrow> routing (S \<union> T) (es @ fs)"
  unfolding routing_def by (simp, blast)

lemma routing_Nil [simp]: "routing S []"
  by (simp add: routing_def)

lemma routing_mono: "routing S es \<Longrightarrow> S \<subseteq> T \<Longrightarrow> routing T es"
  unfolding routing_def by blast

lemma route_events_open: "list_all route_event es \<Longrightarrow> open_udp es = 0 \<and> open_utuns es = 0"
proof (induction es)
  case (Cons e es)
  then show ?case by (cases e) (simp_all add: open_udp_def open_utuns_def balance_def)
qed simp

lemma does_routing_trans:
  "does (routing S) a b \<Longrightarrow> does (routing S) b c \<Longrightarrow> does (routing S) a c"
  by (drule (1) does_then, erule does_mono) (metis routing_append Un_absorb)

lemma does_routing_refl [simp]: "does (routing S) m m"
  by (simp add: does_def)

lemma does_routing_widen: "does (routing {}) m m' \<Longrightarrow> does (routing S) m m'"
  by (erule does_mono) (erule routing_mono, simp)

lemma run_route_does:
  assumes "run_route h verb cidr iface m = (r, m')" and "verb \<noteq> RouteDelete"
  shows "does (routing (if r = Inr () then {cidr} else {})) m m'"
  using assms unfolding run_route_def
  by (cases verb) (auto split: prod.splits dest!: does_perform elim!: does_mono
      simp: routing_def route_error_def split: sum.splits if_splits)

lemma lookup_does: "specific_route_utun_interface h cidr m = (r, m') \<Longrightarrow> does (routing {}) m m'"
  unfolding specific_route_utun_interface_def Let_def
  by (auto split: prod.splits sum.splits dest!: does_perform elim!: does_mono simp: routing_def)

lemma classify_does: "classify_existing_route h cidr e w m = (r, m') \<Longrightarrow> does (routing {}) m m'"
  unfolding classify_existing_route_def interface_is_alive_def
  by (auto split: prod.splits if_splits dest!: does_perform elim!: does_mono simp: routing_def)

lemma add_route_does:
  assumes "add_route h cmd m = (r, m')"
  shows "does (routing (if r = Inr () then {rc_cidr cmd} else {})) m m'"
proof -
  obtain q m1 where run: "run_route h RouteAdd (rc_cidr cmd) (rc_iface cmd) m = (q, m1)" by fastforce
  show ?thesis
  proof (cases q)
    case (Inr u)
    with assms run run_route_does [OF run route_verb.distinct(3)] show ?thesis by (simp add: add_route_def)
  next
    case (Inl err)
    with run_route_does [OF run route_verb.distinct(3)] have "does (routing {}) m m1" by simp
    moreover have "does (routing {}) m1 m'"
      using assms run Inl by (auto simp: add_route_def split: prod.splits option.splits existing_route.splits
          dest!: lookup_does classify_does intro: does_routing_trans)
    ultimately show ?thesis by (blast intro: does_routing_trans does_routing_widen)
  qed
qed

lemma ensure_route_does:
  assumes "ensure_route_command h cmd m = (r, m')"
  shows "does (routing (if r = Inr () then {rc_cidr cmd} else {})) m m'"
proof -
  let ?S = "if r = Inr () then {rc_cidr cmd} else {}"
  obtain found m1 where look: "specific_route_utun_interface h (rc_cidr cmd) m = (found, m1)" by fastforce
  note pre = does_routing_widen [OF lookup_does [OF look], of ?S]
  show ?thesis
  proof (cases found)
    case None
    with assms look have "add_route h cmd m1 = (r, m')" by (simp add: ensure_route_command_def)
    from does_routing_trans [OF pre add_route_does [OF this]] show ?thesis .
  next
    case (Some existing)
    obtain k m2 where cl: "classify_existing_route h (rc_cidr cmd) existing (rc_iface cmd) m1 = (k, m2)" by fastforce
    note pre = does_routing_trans [OF pre does_routing_widen [OF classify_does [OF cl]]]
    show ?thesis
    proof (cases k)
      case Repair
      obtain q m3 where ch: "run_route h RouteChange (rc_cidr cmd) (rc_iface cmd) m2 = (q, m3)" by fastforce
      show ?thesis
      proof (cases q)
        case (Inr u)
        with assms look Some cl Repair ch have "r = Inr ()" "m' = m3" by (simp_all add: ensure_route_command_def)
        with does_routing_trans [OF pre] run_route_does [OF ch route_verb.distinct(5)] Inr show ?thesis by simp
      next
        case (Inl err)
        with assms look Some cl Repair ch have add: "add_route h cmd m3 = (r, m')"
          by (simp add: ensure_route_command_def)
        from run_route_does [OF ch route_verb.distinct(5)] Inl have "does (routing {}) m2 m3" by simp
        from does_routing_trans [OF does_routing_trans [OF pre does_routing_widen [OF this]] add_route_does [OF add]]
        show ?thesis .
      qed
    qed (use assms look Some cl pre in \<open>simp_all add: ensure_route_command_def\<close>)
  qed
qed

text \<open>A route whose installation is reported as done is in place.\<close>

lemma run_route_shows: "run_route h verb cidr iface m = (Inr (), m') \<Longrightarrow> verb \<noteq> RouteDelete \<Longrightarrow>
    does (\<lambda>es. cidr \<in> served iface own es) m m'"
  unfolding run_route_def
  by (cases verb) (auto split: prod.splits sum.splits if_splits dest!: does_perform elim!: does_mono
      simp: served_def route_error_def)

lemma lookup_shows: "specific_route_utun_interface h cidr m = (Some iface, m') \<Longrightarrow>
    does (\<lambda>es. iface \<in> found_on es cidr) m m'"
  unfolding specific_route_utun_interface_def Let_def
  by (auto split: prod.splits sum.splits if_splits dest!: does_perform elim!: does_mono simp: found_on_def)

lemma classify_shows: "classify_existing_route h cidr iface wanted m = (k, m') \<Longrightarrow> k \<noteq> Repair \<Longrightarrow>
    does (\<lambda>es. iface = wanted \<or>
      cidr \<noteq> PORTMAN_SUBNET_CIDR \<and> iface \<notin> mc_utuns m \<and> InterfaceProbed iface True \<in> set es) m m'"
  unfolding classify_existing_route_def interface_is_alive_def
  by (auto split: prod.splits if_splits dest!: does_perform simp: does_def)

lemma found_serves:
  assumes look: "specific_route_utun_interface h cidr m = (Some iface, m1)"
    and cl: "classify_existing_route h cidr iface wanted m1 = (k, m')" and k: "k \<noteq> Repair"
  shows "does (\<lambda>es. cidr \<in> served wanted (mc_utuns m) es) m m'"
proof -
  note found = lookup_shows [OF look]
  then have own: "mc_utuns m1 = mc_utuns m" by (simp add: does_def)
  have "does (\<lambda>es. \<exists>xs ys. es = xs @ ys \<and> iface \<in> found_on xs cidr \<and> (iface = wanted \<or>
      cidr \<noteq> PORTMAN_SUBNET_CIDR \<and> iface \<notin> mc_utuns m \<and> InterfaceProbed iface True \<in> set ys)) m m'"
    using does_then [OF found classify_shows [OF cl k]] own by simp
  then show ?thesis by (rule does_mono) (auto simp: served_def)
qed

lemma does_after: "does P a b \<Longrightarrow> does (\<lambda>es. c \<in> served utun (mc_utuns b) es) b d \<Longrightarrow>
    does (\<lambda>es. c \<in> served utun (mc_utuns a) es) a d"
proof -
  assume one: "does P a b" and two: "does (\<lambda>es. c \<in> served utun (mc_utuns b) es) b d"
  from one have "mc_utuns b = mc_utuns a" by (simp add: does_def)
  with does_then [OF one two] have
    "does (\<lambda>es. \<exists>xs ys. es = xs @ ys \<and> P xs \<and> c \<in> served utun (mc_utuns a) ys) a d" by simp
  then show ?thesis
  proof (rule does_mono)
    fix es assume "\<exists>xs ys. es = xs @ ys \<and> P xs \<and> c \<in> served utun (mc_utuns a) ys"
    then obtain xs ys where "es = xs @ ys" "c \<in> served utun (mc_utuns a) ys" by blast
    with served_mono [of ys es] show "c \<in> served utun (mc_utuns a) es" by auto
  qed
qed

lemma add_route_serves:
  assumes add: "add_route h cmd m = (Inr (), m')"
  shows "does (\<lambda>es. rc_cidr cmd \<in> served (rc_iface cmd) (mc_utuns m) es) m m'"
proof -
  obtain q m1 where run: "run_route h RouteAdd (rc_cidr cmd) (rc_iface cmd) m = (q, m1)" by fastforce
  show ?thesis
  proof (cases q)
    case (Inr u)
    with add run run_route_shows show ?thesis by (fastforce simp: add_route_def)
  next
    case (Inl err)
    with add run obtain iface m2 k where "specific_route_utun_interface h (rc_cidr cmd) m1 = (Some iface, m2)"
      "classify_existing_route h (rc_cidr cmd) iface (rc_iface cmd) m2 = (k, m')" "k \<noteq> Repair"
      by (auto simp: add_route_def split: prod.splits option.splits existing_route.splits)
    from does_after [OF run_route_does [OF run route_verb.distinct(3)] found_serves [OF this]] show ?thesis .
  qed
qed

lemma ensure_route_serves:
  assumes en: "ensure_route_command h cmd m = (Inr (), m')"
  shows "does (\<lambda>es. rc_cidr cmd \<in> served (rc_iface cmd) (mc_utuns m) es) m m'"
proof -
  obtain found m1 where look: "specific_route_utun_interface h (rc_cidr cmd) m = (found, m1)" by fastforce
  note after1 = does_after [OF lookup_does [OF look]]
  show ?thesis
  proof (cases found)
    case None
    with en look have "add_route h cmd m1 = (Inr (), m')" by (simp add: ensure_route_command_def)
    then show ?thesis by (intro after1 add_route_serves)
  next
    case (Some iface)
    obtain k m2 where cl: "classify_existing_route h (rc_cidr cmd) iface (rc_iface cmd) m1 = (k, m2)" by fastforce
    note after2 = after1 [OF does_after [OF classify_does [OF cl]]]
    show ?thesis
    proof (cases k)
      case Repair
      obtain q m3 where ch: "run_route h RouteChange (rc_cidr cmd) (rc_iface cmd) m2 = (q, m3)" by fastforce
      have "m' = m3" if "q = Inr ()" using en look Some cl Repair ch that by (simp add: ensure_route_command_def)
      moreover have "add_route h cmd m3 = (Inr (), m')" if "q = Inl e" for e
        using en look Some cl Repair ch that by (simp add: ensure_route_command_def)
      ultimately show ?thesis using ch run_route_shows [of h RouteChange]
        by (cases q) (auto intro: after2 does_after [OF run_route_does [OF ch route_verb.distinct(5)] add_route_serves])
    qed (use en look Some cl found_serves [of h "rc_cidr cmd" m iface m1] in
        \<open>simp_all add: ensure_route_command_def\<close>)
  qed
qed

lemma rollback_does:
  "does (\<lambda>es. list_all route_event es \<and> (\<forall>L. live_routes L es \<subseteq> (L - set cidrs) \<union> undeleted es))
     m (rollback_routes h iface cidrs m)"
proof (induction cidrs arbitrary: m)
  case (Cons c cidrs)
  obtain r m1 where run: "run_route h RouteDelete c iface m = (r, m1)" by fastforce
  have "does (\<lambda>es. list_all route_event es \<and> (\<forall>L. live_routes L es \<subseteq> (L - {c}) \<union> undeleted es)) m m1"
    using run unfolding run_route_def
    by (auto split: prod.splits if_splits dest!: does_perform elim!: does_mono simp: undeleted_def)
  from does_then [OF this Cons.IH [of m1]]
  have "does (\<lambda>es. list_all route_event es \<and> (\<forall>L. live_routes L es \<subseteq> (L - set (c # cidrs)) \<union> undeleted es)) m
      (rollback_routes h iface cidrs m1)"
    by (rule does_mono) (fastforce simp: subset_iff)
  with run show ?case by simp
qed (simp add: does_def)

text \<open>
  What \<open>install_routes\<close> leaves: every route in place, or only those whose deletion was refused, the
  descriptors closed and the name given up.
\<close>

lemma install_routes_outcome:
  assumes "install_routes h utun cmds installed m = (r, m')"
  shows "leads m m' \<and> list_all (\<lambda>e. route_event e \<or> e = UtunClosed \<or> e = UdpClosed) (appended m m') \<and>
    (case r of
       Inr _ \<Rightarrow> mc_utuns m' = mc_utuns m \<and> routing (rc_cidr ` set cmds) (appended m m') \<and>
         (rc_iface ` set cmds \<subseteq> {utun} \<longrightarrow> rc_cidr ` set cmds \<subseteq> served utun (mc_utuns m) (appended m m'))
     | Inl _ \<Rightarrow> mc_utuns m' = mc_utuns m - {utun} \<and> open_udp (appended m m') = -1 \<and>
         open_utuns (appended m m') = -1 \<and>
         (\<forall>L. L \<subseteq> set installed \<longrightarrow> live_routes L (appended m m') \<subseteq> undeleted (appended m m')))"
  using assms
proof (induction cmds arbitrary: installed m)
  case (Cons cmd cmds)
  obtain q m1 where en: "ensure_route_command h cmd m = (q, m1)" by fastforce
  note does1 = ensure_route_does [OF en]
  show ?case
  proof (cases q)
    case (Inr u)
    with Cons.prems en have rest: "install_routes h utun cmds (installed @ [rc_cidr cmd]) m1 = (r, m')" by simp
    note IH = Cons.IH [OF rest]
    from does1 Inr have l1: "leads m m1" and u1: "mc_utuns m1 = mc_utuns m"
      and r1: "routing {rc_cidr cmd} (appended m m1)" by (auto simp: does_def)
    have app: "appended m m' = appended m m1 @ appended m1 m'" using l1 IH by (blast intro: appended_trans)
    have ev: "list_all (\<lambda>e. route_event e \<or> e = UtunClosed \<or> e = UdpClosed) (appended m m1)"
      using r1 by (auto simp: routing_def list_all_iff)
    have lead: "leads m m'" using l1 IH by (blast intro: leads_trans)
    show ?thesis
    proof (cases r)
      case (Inl err)
      have sub: "live_routes L (appended m m1) \<subseteq> set (installed @ [rc_cidr cmd])" if "L \<subseteq> set installed" for L
        using r1 that by (auto simp: routing_def)
      have "live_routes L (appended m m') \<subseteq> undeleted (appended m m')" if "L \<subseteq> set installed" for L
        using IH Inl sub [OF that] unfolding app live_routes_append undeleted_append by (simp add: le_supI2)
      with IH Inl u1 app ev lead route_events_open [of "appended m m1"] r1 show ?thesis
        by (simp add: routing_def)
    next
      case (Inr v)
      have "rc_cidr cmd \<in> served utun (mc_utuns m) (appended m m1)" if "rc_iface cmd = utun"
        using ensure_route_serves [of h cmd m m1] en \<open>q = Inr u\<close> that by (simp add: does_def)
      moreover have "served utun own (appended m m1) \<subseteq> served utun own (appended m m')"
        "served utun own (appended m1 m') \<subseteq> served utun own (appended m m')" for own
        by (simp_all add: app served_mono)
      moreover have "rc_cidr ` set cmds \<subseteq> served utun (mc_utuns m) (appended m1 m')"
        if "rc_iface ` set cmds \<subseteq> {utun}" using IH Inr u1 that by simp
      ultimately have "rc_iface ` set (cmd # cmds) \<subseteq> {utun} \<longrightarrow>
          rc_cidr ` set (cmd # cmds) \<subseteq> served utun (mc_utuns m) (appended m m')"
        by (simp only: list.set image_insert insert_subset) blast
      with Inr IH u1 app ev lead routing_append [OF r1] show ?thesis by simp
    qed
  next
    case (Inl err)
    let ?m2 = "m1\<lparr>mc_utuns := mc_utuns m1 - {utun}\<rparr>"
    let ?m3 = "rollback_routes h utun installed ?m2"
    from Cons.prems en Inl have r: "r = Inl err" and m': "m' = log_event UdpClosed (log_event UtunClosed ?m3)" by simp_all
    from does1 Inl have l1: "leads m m1" and u1: "mc_utuns m1 = mc_utuns m" and r1: "routing {} (appended m m1)"
      by (simp_all add: does_def)
    have l2: "leads m ?m2" and a2: "appended m ?m2 = appended m m1" using l1 by (simp_all add: leads_def appended_def)
    from rollback_does [of installed ?m2 h utun]
    have l3: "leads ?m2 ?m3" and u3: "mc_utuns ?m3 = mc_utuns m1 - {utun}"
      and r3: "list_all route_event (appended ?m2 ?m3)" "\<forall>L. live_routes L (appended ?m2 ?m3) \<subseteq> (L - set installed) \<union> undeleted (appended ?m2 ?m3)"
      by (simp_all add: does_def)
    have l: "leads m ?m3" and a3: "appended m ?m3 = appended m m1 @ appended ?m2 ?m3"
      using leads_trans [OF l2 l3] appended_trans [OF l2 l3] a2 by simp_all
    have fin: "leads m m'" "appended m m' = appended m ?m3 @ [UtunClosed, UdpClosed]"
      using l unfolding m' by (auto simp: log_event_def leads_def appended_def)
    have "live_routes L (appended m ?m3) \<subseteq> undeleted (appended m ?m3)" if "L \<subseteq> set installed" for L
    proof -
      have "live_routes L (appended m ?m3) \<subseteq> (live_routes L (appended m m1) - set installed) \<union> undeleted (appended ?m2 ?m3)"
        unfolding a3 live_routes_append by (rule spec [OF r3(2)])
      also have "live_routes L (appended m m1) - set installed \<subseteq> {}" using r1 that by (auto simp: routing_def)
      finally show ?thesis by (auto simp: a3)
    qed
    moreover have "list_all route_event (appended m ?m3)" using r1 r3 a3 by (simp add: routing_def)
    moreover have "undeleted [UtunClosed, UdpClosed] = {}" by (simp add: undeleted_def)
    ultimately show ?thesis using fin r u1 u3 route_events_open [of "appended m ?m3"]
      by (auto simp: m' log_event_def list_all_iff)
  qed
qed auto

text \<open>The Docker side: no host resource is touched, and a socket stays open on success alone.\<close>

definition quiet :: "int \<Rightarrow> bridge_event list \<Rightarrow> bool" where
  "quiet n es \<longleftrightarrow> list_all (\<lambda>e. \<not> host_event e) es \<and> touches_own es \<and> open_udp es = n"

lemma does_quiet: "does docker_only m m' \<Longrightarrow> does touches_own m m' \<Longrightarrow> does (quiet 0) m m'"
  unfolding does_def quiet_def
  using docker_only_open by (auto simp: docker_only_def list_all_iff)

lemmas bring_up_quiet = does_quiet [OF docker_side.bring_up_does own_log.bring_up_does]

lemma quiet_trans: "does (quiet i) a b \<Longrightarrow> does (quiet j) b c \<Longrightarrow> does (quiet (i + j)) a c"
  by (drule (1) does_then, erule does_mono) (auto simp: quiet_def intro: touches_own_append)

lemma quiet_log_close: "does (quiet (-1)) m (log_event UdpClosed m)"
  by (rule does_mono [OF does_log]) (simp add: quiet_def touches_own_def)

lemma closing_udp_quiet:
  assumes "closing_udp f m = (r, m')" and "\<And>q v. f m = (q, v) \<Longrightarrow> does (quiet 0) m v"
  shows "does (quiet (if \<exists>x. r = Inr x then 0 else -1)) m m'"
  using assms quiet_trans [OF _ quiet_log_close] by (fastforce simp: closing_udp_def split: prod.splits sum.splits)

lemma bind_udp_quiet:
  assumes "attempt_call f (UdpBound p) wrap m = (r, m')"
  shows "does (quiet (if \<exists>x. r = Inr x then 1 else 0)) m m'"
proof -
  obtain reply where run: "perform f (UdpBound p) m = (reply, m')" and r: "r = map_err wrap reply"
    using assms by (auto simp: attempt_call_def split: prod.splits)
  have "touches_own [UdpBound p reply]" by (rule touches_own_other) simp
  with does_perform [OF run] r show ?thesis
    by (cases reply) (auto elim!: does_mono simp: quiet_def open_udp_def balance_def)
qed

lemma start_docker_side_quiet:
  assumes run: "start_docker_side h mode kp m = (r, m')"
  shows "does (quiet (if \<exists>x. r = Inr x then 1 else 0)) m m'"
proof -
  obtain a m1 where net: "ensure_portman_network h m = (a, m1)" by fastforce
  note q1 = does_quiet [OF docker_side.ensure_network_does [OF net] own_log.ensure_network_does [OF net]]
  show ?thesis
  proof (cases a)
    case (Inl err)
    with run net q1 show ?thesis by (auto simp: start_docker_side_def io_then_def)
  next
    case a: (Inr u)
    obtain b m2 where cidrs: "docker_route_cidrs h mode m1 = (b, m2)" by fastforce
    note q2 = quiet_trans [OF q1 does_quiet [OF docker_side.route_cidrs_does [OF cidrs] own_log.route_cidrs_does [OF cidrs]]]
    show ?thesis
    proof (cases b)
      case (Inl err)
      with run net a cidrs q2 show ?thesis by (auto simp: start_docker_side_def io_then_def)
    next
      case b: (Inr extra)
      let ?bind = "attempt_call (bh_bind_udp h HOST_WG_LISTEN_PORT) (UdpBound HOST_WG_LISTEN_PORT)
         (HostFailed (''binding 0.0.0.0:'' @ show_nat HOST_WG_LISTEN_PORT))"
      obtain c m3 where bind: "?bind m2 = (c, m3)" by fastforce
      note q3 = quiet_trans [OF q2 bind_udp_quiet [OF bind]]
      obtain d m4 where up: "closing_udp (bring_up_peer h kp) m3 = (d, m4)" by fastforce
      note q4 = quiet_trans [OF q3 closing_udp_quiet [OF up bring_up_quiet]]
      show ?thesis
        using run net a cidrs b bind up q3 q4
        by (cases c; cases d) (auto simp: start_docker_side_def io_then_def io_ret_def)
    qed
  qed
qed

text \<open>The device: closed again, with the socket, when it cannot be brought up.\<close>

definition device_log :: "bool \<Rightarrow> bridge_event list \<Rightarrow> bool" where
  "device_log ok es \<longleftrightarrow> list_all (\<lambda>e. host_event e \<or> e = UdpClosed) es \<and> (\<forall>L. live_routes L es = L) \<and>
     deletions es = {} \<and> open_udp es = (if ok then 0 else -1) \<and> open_utuns es = (if ok then 1 else 0)"

lemma open_utun_device:
  assumes run: "closing_udp (open_utun h) m = (r, m')"
  shows "does (device_log (\<exists>x. r = Inr x)) m m'"
proof -
  obtain a m1 where cr: "perform (bh_create_utun h) UtunCreated m = (a, m1)" by fastforce
  obtain b m2 where cx: "perform (bh_set_cloexec h) CloexecSet m1 = (b, m2)" by fastforce
  obtain c m3 where nm: "perform (bh_utun_name h) UtunNamed m2 = (c, m3)" by fastforce
  note defs = open_utun_def closing_udp_def closing_utun_def io_then_def attempt_call_def
  note d1 = does_perform [OF cr] and d2 = does_then [OF does_perform [OF cr] does_perform [OF cx]]
  note d3 = does_then [OF d2 does_perform [OF nm]]
  note log1 = does_then [OF _ does_log [of UdpClosed]] and log2 = does_then [OF does_then [OF _ does_log [of UtunClosed]] does_log [of UdpClosed]]
  have opens: "device_log False [UtunCreated (Inl x), UdpClosed]"
    "device_log False [UtunCreated (Inr ()), CloexecSet (Inl y), UtunClosed, UdpClosed]"
    "device_log False [UtunCreated (Inr ()), CloexecSet (Inr ()), UtunNamed (Inl z), UtunClosed, UdpClosed]"
    "device_log True [UtunCreated (Inr ()), CloexecSet (Inr ()), UtunNamed (Inr w)]" for x y z w
    by (simp_all add: device_log_def open_udp_def open_utuns_def balance_def)
  show ?thesis
  proof (cases a)
    case (Inl x)
    with run cr have "r = Inl (HostFailed ''creating utun'' x)" "m' = log_event UdpClosed m1" by (simp_all add: defs)
    with log1 [OF d1] Inl opens(1) show ?thesis by (auto elim!: does_mono)
  next
    case a: (Inr u)
    show ?thesis
    proof (cases b)
      case (Inl y)
      with run cr a cx have "\<exists>e. r = Inl e" "m' = log_event UdpClosed (log_event UtunClosed m2)" by (auto simp: defs)
      with log2 [OF d2] a Inl opens(2) show ?thesis by (auto elim!: does_mono)
    next
      case b: (Inr v)
      show ?thesis
      proof (cases c)
        case (Inl z)
        with run cr a cx b nm have "\<exists>e. r = Inl e" "m' = log_event UdpClosed (log_event UtunClosed m3)" by (auto simp: defs)
        with log2 [OF d3] a b Inl opens(3) show ?thesis by (auto elim!: does_mono)
      next
        case (Inr w)
        with run cr a cx b nm have "\<exists>x. r = Inr x" "m' = m3" by (auto simp: defs)
        with d3 a b Inr opens(4) show ?thesis by (auto elim!: does_mono)
      qed
    qed
  qed
qed

lemma routing_is_host: "routing S es \<Longrightarrow> list_all (\<lambda>e. host_event e \<or> udp_event e) es"
proof -
  have "route_event e \<Longrightarrow> host_event e \<or> udp_event e" for e by (cases e) simp_all
  then show "routing S es \<Longrightarrow> ?thesis" by (auto simp: routing_def list_all_iff)
qed

text \<open>The host side: everything it opened is closed again on failure.\<close>

lemma start_host_side_outcome:
  assumes run: "start_host_side h mode kp extra vm_pub m = (r, m')"
  shows "leads m m' \<and> list_all (\<lambda>e. host_event e \<or> e = UdpClosed) (appended m m') \<and>
    (case r of
       Inr rt \<Rightarrow> open_udp (appended m m') = 0 \<and> open_utuns (appended m m') = 1 \<and>
         live_routes {} (appended m m') \<subseteq> set (PORTMAN_SUBNET_CIDR # filter routable_docker_subnet extra) \<and>
         set (PORTMAN_SUBNET_CIDR # filter routable_docker_subnet extra)
           \<subseteq> served (rt_utun rt) (mc_utuns m') (appended m m') \<and> deletions (appended m m') = {} \<and>
         mc_utuns m' = insert (rt_utun rt) (mc_utuns m) \<and> rt_host_key rt = kp \<and> rt_vm_key rt = vm_pub \<and> rt_mode rt = mode
     | Inl _ \<Rightarrow> open_udp (appended m m') = -1 \<and> open_utuns (appended m m') = 0 \<and>
         live_routes {} (appended m m') \<subseteq> undeleted (appended m m') \<and> mc_utuns m' \<subseteq> mc_utuns m)"
proof -
  obtain a m1 where dev: "closing_udp (open_utun h) m = (a, m1)" by fastforce
  note d1 = open_utun_device [OF dev]
  show ?thesis
  proof (cases a)
    case (Inl err)
    with run dev d1 show ?thesis
      by (auto simp: start_host_side_def io_then_def does_def device_log_def)
  next
    case (Inr utun)
    let ?m2 = "m1\<lparr>mc_utuns := insert utun (mc_utuns m1)\<rparr>"
    obtain q m3 where ins: "install_routes h utun (startup_route_plan utun extra) [] ?m2 = (q, m3)" by fastforce
    note out = install_routes_outcome [OF ins]
    from run dev Inr ins have m': "m' = m3" by (auto simp: start_host_side_def io_then_def split: sum.splits)
    from d1 Inr have l1: "leads m m1" and u1: "mc_utuns m1 = mc_utuns m" and e1: "device_log True (appended m m1)"
      by (auto simp: does_def)
    have l2: "leads m ?m2" and a2: "appended m ?m2 = appended m m1" using l1 by (simp_all add: leads_def appended_def)
    have l: "leads m m3" and app: "appended m m3 = appended m m1 @ appended ?m2 m3"
      using out appended_trans [OF l2] leads_trans [OF l2] a2 by auto
    have routes: "route_event e \<Longrightarrow> host_event e" for e by (cases e) simp_all
    have ev: "list_all (\<lambda>e. host_event e \<or> e = UdpClosed) (appended m m3)"
      using out e1 routes unfolding app by (fastforce simp: device_log_def list_all_iff)
    show ?thesis
    proof (cases q)
      case q: (Inl err)
      with run dev Inr ins have "r = Inl err" by (auto simp: start_host_side_def io_then_def)
      moreover from out q have "live_routes {} (appended ?m2 m3) \<subseteq> undeleted (appended ?m2 m3)" by auto
      ultimately show ?thesis using out q e1 u1 l ev app by (auto simp: m' device_log_def)
    next
      case q: (Inr u)
      with run dev Inr ins have r: "r = Inr \<lparr>rt_utun = utun, rt_mode = mode, rt_host_key = kp, rt_vm_key = vm_pub\<rparr>"
        by (auto simp: start_host_side_def io_then_def)
      let ?plan = "set (PORTMAN_SUBNET_CIDR # filter routable_docker_subnet extra)"
      have plan: "rc_cidr ` set (startup_route_plan utun extra) = ?plan" "rc_iface ` set (startup_route_plan utun extra) \<subseteq> {utun}"
        by (force simp: startup_route_plan_def)+
      from out q plan have rt: "routing ?plan (appended ?m2 m3)" and u3: "mc_utuns m3 = insert utun (mc_utuns m1)"
        and "?plan \<subseteq> served utun (mc_utuns m3) (appended ?m2 m3)" by simp_all
      then have "?plan \<subseteq> served utun (mc_utuns m3) (appended m m3)"
        using served_mono [of "appended ?m2 m3" "appended m m3"] app by fastforce
      moreover have "deletions (appended m m3) = {}" using rt e1 app by (simp add: routing_def device_log_def)
      moreover have "live_routes {} (appended ?m2 m3) \<subseteq> ?plan"
        using rt by (auto simp: routing_def)
      moreover have "open_udp (appended ?m2 m3) = 0" "open_utuns (appended ?m2 m3) = 0"
        using rt route_events_open by (auto simp: routing_def)
      ultimately show ?thesis using e1 u1 u3 l ev app r by (simp add: m' device_log_def)
    qed
  qed
qed

lemma opt_in_routes_nothing: "start_docker_side h NbOptIn kp m = (Inr (extra, vm_pub), m') \<Longrightarrow> extra = []"
  by (auto simp: start_docker_side_def io_then_def io_ret_def split: prod.splits sum.splits)

lemma start_outcome:
  "case start_with_keypair h mode kp m of (r, m') \<Rightarrow>
     \<exists>ds hs. mc_trace m' = mc_trace m @ ds @ hs \<and> filter host_event ds = [] \<and>
       list_all (\<lambda>e. host_event e \<or> e = UdpClosed) hs \<and>
       (case r of
          Inr rt \<Rightarrow> open_udp (ds @ hs) = 1 \<and> open_utuns hs = 1 \<and> mc_utuns m' = insert (rt_utun rt) (mc_utuns m) \<and>
            rt_host_key rt = kp \<and> rt_mode rt = mode \<and>
            (\<exists>extra m1. start_docker_side h mode kp m = (Inr (extra, rt_vm_key rt), m1) \<and> extra = (if mode = NbOptIn then [] else extra) \<and>
               (let planned = set (PORTMAN_SUBNET_CIDR # filter routable_docker_subnet extra) in
                live_routes {} hs \<subseteq> planned \<and> planned \<subseteq> served (rt_utun rt) (mc_utuns m') hs \<and> deletions hs = {}))
        | Inl _ \<Rightarrow> open_udp (ds @ hs) = 0 \<and> open_utuns hs = 0 \<and> live_routes {} hs \<subseteq> undeleted hs \<and>
            mc_utuns m' \<subseteq> mc_utuns m)"
proof -
  obtain a m1 where dock: "start_docker_side h mode kp m = (a, m1)" by fastforce
  from start_docker_side_quiet [OF dock]
  have l1: "leads m m1" and u1: "mc_utuns m1 = mc_utuns m" and quiet: "filter host_event (appended m m1) = []"
    and udp1: "open_udp (appended m m1) = (if \<exists>x. a = Inr x then 1 else 0)"
    by (auto simp: does_def quiet_def filter_empty_conv list_all_iff)
  show ?thesis
  proof (cases a)
    case (Inl err)
    then have run: "start_with_keypair h mode kp m = (Inl err, m1)" using dock by (simp add: start_with_keypair_def io_then_def)
    show ?thesis unfolding run prod.case
      by (rule exI [of _ "appended m m1"], rule exI [of _ "[]"]) (use trace_appended [OF l1] quiet udp1 u1 Inl in simp)
  next
    case (Inr x)
    obtain extra vm_pub where x: "x = (extra, vm_pub)" by (cases x)
    obtain r m' where host: "start_host_side h mode kp extra vm_pub m1 = (r, m')" by fastforce
    have run: "start_with_keypair h mode kp m = (r, m')" using dock Inr x host
      by (simp add: start_with_keypair_def io_then_def)
    note out = start_host_side_outcome [OF host]
    have tr: "mc_trace m' = mc_trace m @ appended m m1 @ appended m1 m'"
      using trace_appended [OF l1] trace_appended [of m1 m'] out by simp
    have none: "extra = (if mode = NbOptIn then [] else extra)"
      using opt_in_routes_nothing [of h kp m extra vm_pub m1] dock Inr x by auto
    have docker: "\<exists>extra' m2. start_docker_side h mode kp m = (Inr (extra', rt_vm_key rt), m2) \<and>
        extra' = (if mode = NbOptIn then [] else extra') \<and>
        (let planned = set (PORTMAN_SUBNET_CIDR # filter routable_docker_subnet extra') in
         live_routes {} (appended m1 m') \<subseteq> planned \<and>
         planned \<subseteq> served (rt_utun rt) (mc_utuns m') (appended m1 m') \<and> deletions (appended m1 m') = {})"
      if r: "r = Inr rt" for rt
    proof -
      have "start_docker_side h mode kp m = (Inr (extra, rt_vm_key rt), m1)" using dock Inr x out r by simp
      with none out [unfolded r sum.case] show ?thesis unfolding Let_def by blast
    qed
    show ?thesis unfolding run prod.case
    proof (intro exI conjI)
      show "case r of
          Inr rt \<Rightarrow> open_udp (appended m m1 @ appended m1 m') = 1 \<and> open_utuns (appended m1 m') = 1 \<and>
            mc_utuns m' = insert (rt_utun rt) (mc_utuns m) \<and> rt_host_key rt = kp \<and> rt_mode rt = mode \<and>
            (\<exists>extra m1'. start_docker_side h mode kp m = (Inr (extra, rt_vm_key rt), m1') \<and>
               extra = (if mode = NbOptIn then [] else extra) \<and>
               (let planned = set (PORTMAN_SUBNET_CIDR # filter routable_docker_subnet extra) in
                live_routes {} (appended m1 m') \<subseteq> planned \<and>
                planned \<subseteq> served (rt_utun rt) (mc_utuns m') (appended m1 m') \<and> deletions (appended m1 m') = {}))
        | Inl _ \<Rightarrow> open_udp (appended m m1 @ appended m1 m') = 0 \<and> open_utuns (appended m1 m') = 0 \<and>
            live_routes {} (appended m1 m') \<subseteq> undeleted (appended m1 m') \<and> mc_utuns m' \<subseteq> mc_utuns m"
      proof (cases r)
        case r: (Inr rt)
        show ?thesis unfolding r sum.case using out docker [OF r] udp1 u1 Inr by (intro conjI) (simp_all add: r)
      qed (use out udp1 u1 Inr in simp)
    qed (use tr quiet out in simp_all)
  qed
qed

text \<open>
  C9: A start of the bridge asks Docker for everything before it touches the host, and then takes all
  of it or gives all of it back. On success it holds one socket and one device, and exactly the
  planned routes (portman's subnet and the routable ones Docker named) are in place: each is set to
  the new device by a command that succeeded, was found on it, or was found on a living tunnel of
  somebody else; none is deleted, no other is set. On failure both descriptors are closed, no new
  interface is claimed, and of the routes it set only those remain whose deletion \<open>/sbin/route\<close>
  refused, which the code warns about and leaves.
\<close>

theorem bridge_start_all_or_nothing:
  "case start_with_keypair h mode kp m of (r, m') \<Rightarrow>
     \<exists>ds hs. mc_trace m' = mc_trace m @ ds @ hs \<and> filter host_event ds = [] \<and>
       list_all (\<lambda>e. host_event e \<or> e = UdpClosed) hs \<and>
       (case r of
          Inr rt \<Rightarrow> open_udp (ds @ hs) = 1 \<and> open_utuns hs = 1 \<and> mc_utuns m' = insert (rt_utun rt) (mc_utuns m) \<and>
            rt_host_key rt = kp \<and> rt_mode rt = mode \<and>
            (\<exists>extra m1. start_docker_side h mode kp m = (Inr (extra, rt_vm_key rt), m1) \<and> extra = (if mode = NbOptIn then [] else extra) \<and>
               (let planned = set (PORTMAN_SUBNET_CIDR # filter routable_docker_subnet extra) in
                live_routes {} hs \<subseteq> planned \<and> planned \<subseteq> served (rt_utun rt) (mc_utuns m') hs \<and> deletions hs = {}))
        | Inl _ \<Rightarrow> open_udp (ds @ hs) = 0 \<and> open_utuns hs = 0 \<and> live_routes {} hs \<subseteq> undeleted hs \<and>
            mc_utuns m' \<subseteq> mc_utuns m)"
  by (rule start_outcome)

lemma host_side_touches_own: "start_host_side h mode kp extra vm_pub m = (r, m') \<Longrightarrow>
    leads m m' \<and> touches_own (appended m m')"
proof -
  assume "start_host_side h mode kp extra vm_pub m = (r, m')"
  from start_host_side_outcome [OF this] have "leads m m'" "list_all (\<lambda>e. host_event e \<or> udp_event e) (appended m m')"
    by (auto simp: list_all_iff)
  then show ?thesis by (simp add: touches_own_other)
qed

lemma start_touches_own:
  "leads m (snd (start_with_keypair h mode kp m)) \<and> touches_own (appended m (snd (start_with_keypair h mode kp m)))"
proof -
  obtain a m1 where dock: "start_docker_side h mode kp m = (a, m1)" by fastforce
  from start_docker_side_quiet [OF dock] have d: "leads m m1" "touches_own (appended m m1)" by (simp_all add: does_def quiet_def)
  show ?thesis
  proof (cases a)
    case (Inl err)
    with dock d show ?thesis by (simp add: start_with_keypair_def io_then_def)
  next
    case (Inr x)
    obtain extra vm_pub where x: "x = (extra, vm_pub)" by (cases x)
    obtain r m' where host: "start_host_side h mode kp extra vm_pub m1 = (r, m')" by fastforce
    from host_side_touches_own [OF host] d appended_trans [of m m1 m'] leads_trans [of m m1 m'] dock Inr x host
    show ?thesis by (simp add: start_with_keypair_def io_then_def touches_own_append)
  qed
qed

lemma ensure_routes_does: "does (routing (rc_cidr ` set cmds)) m (ensure_routes h cmds m)"
proof (induction cmds arbitrary: m)
  case (Cons cmd cmds)
  obtain r m1 where en: "ensure_route_command h cmd m = (r, m1)" by fastforce
  have one: "does (routing (insert (rc_cidr cmd) (rc_cidr ` set cmds))) m m1"
    using ensure_route_does [OF en] by (rule does_mono) (erule routing_mono, simp)
  have rest: "does (routing (insert (rc_cidr cmd) (rc_cidr ` set cmds))) m1 (ensure_routes h cmds m1)"
    using Cons.IH [of m1] by (rule does_mono) (erule routing_mono, blast)
  from does_routing_trans [OF one rest] en show ?case by (simp add: ensure_routes_def)
qed (simp add: ensure_routes_def)

lemma tick_touches_own: "does touches_own m (route_reconcile_tick h mode iface m)"
proof -
  obtain r m1 where cidrs: "docker_route_cidrs h mode m = (r, m1)" by fastforce
  let ?plan = "startup_route_plan iface (case r of Inr extra \<Rightarrow> extra | Inl _ \<Rightarrow> [])"
  have "does touches_own m1 (ensure_routes h ?plan m1)"
    using ensure_routes_does by (rule does_mono) (rule touches_own_other [OF routing_is_host])
  with own_log.does_seq [OF own_log.route_cidrs_does [OF cidrs]] cidrs show ?thesis
    by (simp add: route_reconcile_tick_def)
qed

lemma runtime_shutdown_does:
  "leads m (runtime_shutdown h rt m) \<and> touches_own (appended m (runtime_shutdown h rt m)) \<and>
   mc_utuns (runtime_shutdown h rt m) = mc_utuns m - {rt_utun rt} \<and>
   (\<exists>ds. appended m (runtime_shutdown h rt m) = UtunClosed # UdpClosed # ds \<and> docker_only ds)"
proof -
  let ?m1 = "log_event UdpClosed (log_event UtunClosed m)"
  let ?m2 = "?m1\<lparr>mc_utuns := mc_utuns ?m1 - {rt_utun rt}\<rparr>"
  have l: "leads m ?m2" and a: "appended m ?m2 = [UtunClosed, UdpClosed]" and u: "mc_utuns ?m2 = mc_utuns m - {rt_utun rt}"
    by (simp_all add: log_event_def leads_def appended_def)
  have t: "touches_own [UtunClosed, UdpClosed]" by (rule touches_own_other) simp
  note own = own_log.best_effort_does [of ?m2 h] and dock = docker_side.best_effort_does [of ?m2 h]
  have "leads ?m2 (runtime_shutdown h rt m)" "touches_own (appended ?m2 (runtime_shutdown h rt m))"
    "docker_only (appended ?m2 (runtime_shutdown h rt m))" "mc_utuns (runtime_shutdown h rt m) = mc_utuns ?m2"
    using own dock by (simp_all add: does_def runtime_shutdown_def Let_def)
  with appended_trans [OF l this(1)] leads_trans [OF l this(1)] touches_own_append [OF t] a u show ?thesis by simp
qed

lemma remove_network_touches_own:
  "leads m (shutdown_and_remove_network h rt m) \<and> touches_own (appended m (shutdown_and_remove_network h rt m)) \<and>
   mc_utuns (shutdown_and_remove_network h rt m) = mc_utuns m - {rt_utun rt}"
proof -
  let ?m1 = "runtime_shutdown h rt m"
  have net: "does touches_own ?m1 (shutdown_and_remove_network h rt m)"
    unfolding shutdown_and_remove_network_def by (rule own_log.remove_network_does)
  from net have l2: "leads ?m1 (shutdown_and_remove_network h rt m)" by (simp add: does_def)
  from runtime_shutdown_does [of m h rt] have l1: "leads m ?m1" by simp
  from appended_trans [OF l1 l2] leads_trans [OF l1 l2] touches_own_append net runtime_shutdown_does [of m h rt]
  show ?thesis by (simp add: does_def)
qed

section \<open>Which routes are repaired\<close>

lemma lookup_reply:
  assumes "specific_route_utun_interface h cidr m = (found, m')"
  shows "\<exists>reply. appended m m' = [RouteGot (before_char CHR ''/'' cidr) reply]"
  using assms unfolding specific_route_utun_interface_def Let_def
  by (auto split: prod.splits sum.splits dest!: does_perform simp: does_def)

text \<open>
  A route of another subnet that runs over a live interface which is not the bridge's own is
  left alone: the command succeeds, having asked for the route and the interface and nothing else.
\<close>

theorem foreign_route_left_alone:
  assumes "specific_route_utun_interface h (rc_cidr cmd) m = (Some other, m1)"
    and "interface_is_alive h other m1 = (True, m2)"
    and "other \<noteq> rc_iface cmd" and "other \<notin> mc_utuns m" and "rc_cidr cmd \<noteq> PORTMAN_SUBNET_CIDR"
  shows "fst (ensure_route_command h cmd m) = Inr () \<and>
    (\<exists>reply. appended m (snd (ensure_route_command h cmd m)) =
       [RouteGot (before_char CHR ''/'' (rc_cidr cmd)) reply, InterfaceProbed other True])"
proof -
  from lookup_does [OF assms(1)] have l1: "leads m m1" and u1: "mc_utuns m1 = mc_utuns m" by (simp_all add: does_def)
  from does_perform [OF assms(2) [unfolded interface_is_alive_def]]
  have l2: "leads m1 m2" and u2: "mc_utuns m2 = mc_utuns m1" and a2: "appended m1 m2 = [InterfaceProbed other True]"
    by (simp_all add: does_def)
  have "ensure_route_command h cmd m = (Inr (), m2)"
    using assms u1 u2 by (simp add: ensure_route_command_def classify_existing_route_def)
  with lookup_reply [OF assms(1)] a2 appended_trans [OF l1 l2] show ?thesis by auto
qed

text \<open>
  A host for examples: a live interface \<open>utun3\<close> holds the route of \<open>10.0.0.0\<close>, there is no route of
  \<open>10.9.0.0\<close> and none can be added.
\<close>

definition route_reply :: "bool \<Rightarrow> string \<Rightarrow> route_output" where
  "route_reply ok out = \<lparr>ro_success = ok, ro_status = ''exit status: 1'', ro_stdout = out, ro_stderr = []\<rparr>"

definition vpn_host :: "unit bridge_host" where
  "vpn_host =
     \<lparr>bh_inspect_network = \<lambda>_ w. (Inl (ServerError 404 []), 1, w),
      bh_create_network = \<lambda>_ w. (Inr (), 1, w),
      bh_remove_network = \<lambda>_ w. (Inr (), 1, w),
      bh_list_networks = \<lambda>w. (Inr [], 1, w),
      bh_list_containers = \<lambda>w. (Inr [], 1, w),
      bh_inspect_container = \<lambda>_ w. (Inl (ServerError 404 []), 1, w),
      bh_create_container = \<lambda>_ _ w. (Inr (), 1, w),
      bh_start_container = \<lambda>_ w. (Inr (), 1, w),
      bh_stop_container = \<lambda>_ _ _ w. (Inr (), 1, w),
      bh_remove_container = \<lambda>_ _ w. (Inr (), 1, w),
      bh_logs = \<lambda>_ w. (Inr [], 1, w),
      bh_bind_udp = \<lambda>_ w. (Inr (), 1, w),
      bh_create_utun = \<lambda>w. (Inr (), 1, w),
      bh_set_cloexec = \<lambda>w. (Inr (), 1, w),
      bh_utun_name = \<lambda>w. (Inr ''utun9'', 1, w),
      bh_route = \<lambda>verb cidr _ w. (Inr (route_reply (cidr \<noteq> ''10.9.0.0/16'') []), 1, w),
      bh_route_get = \<lambda>addr w. (Inr (if addr = ''10.0.0.0''
        then route_reply True (''destination:10.0.0.0'' @ [CHR 0x0A] @ ''interface:utun3'') else route_reply False []), 1, w),
      bh_alive = \<lambda>_ w. (True, 1, w),
      bh_oversleep = \<lambda>_ w. ((), 0, w),
      bh_b64_encode = \<lambda>k. k,
      bh_b64_decode = Some\<rparr>"

definition idle_machine :: "unit machine" where
  "idle_machine = \<lparr>mc_world = (), mc_clock = 0, mc_trace = [], mc_utuns = {''utun9''}\<rparr>"

definition vpn_command :: route_command where
  "vpn_command = \<lparr>rc_cidr = ''10.0.0.0/8'', rc_iface = ''utun9''\<rparr>"

definition route_runs :: "string \<Rightarrow> bridge_event list \<Rightarrow> string list" where
  "route_runs cidr es = concat (map (\<lambda>e. case e of RouteRun verb c _ _ \<Rightarrow> if c = cidr then [verb] else [] | _ \<Rightarrow> []) es)"

lemma vpn_lookup:
  "route_get_specific_utun_interface (from_utf8_lossy (''destination:10.0.0.0'' @ [CHR 0x0A] @ ''interface:utun3'')) ''10.0.0.0''
     = Some ''utun3''"
  by code_simp

lemma vpn_asks:
  "specific_route_utun_interface vpn_host (rc_cidr vpn_command) idle_machine =
     (Some ''utun3'', snd (specific_route_utun_interface vpn_host (rc_cidr vpn_command) idle_machine))"
  "interface_is_alive vpn_host ''utun3'' m = (True, snd (interface_is_alive vpn_host ''utun3'' m))"
   apply (simp add: specific_route_utun_interface_def perform_def vpn_host_def vpn_command_def route_reply_def
      vpn_lookup [simplified])
  apply (simp add: interface_is_alive_def perform_def vpn_host_def)
  done

theorem foreign_route_left_alone_witness:
  "fst (ensure_route_command vpn_host vpn_command idle_machine) = Inr ()"
  using foreign_route_left_alone [OF vpn_asks(1) vpn_asks(2)]
  by (simp add: vpn_command_def idle_machine_def PORTMAN_SUBNET_CIDR_def)

text \<open>
  A start that fails at a later route deletes the routes its guard has recorded, and it records every
  command that succeeded: also one that found a foreign route and left it in place. Here the route of
  \<open>utun3\<close> is never added or changed, and then deleted.
\<close>

lemma rollback_deletes_foreign_route:
  "route_runs ''10.0.0.0/8'' (mc_trace (snd (install_routes vpn_host ''utun9''
     [vpn_command, \<lparr>rc_cidr = ''10.9.0.0/16'', rc_iface = ''utun9''\<rparr>] [] idle_machine))) = [''delete'']"
  by code_simp

section \<open>The subnets found\<close>

lemma in_scope_iff:
  "name \<in> set (networks_in_scope scope cs) \<longleftrightarrow> routable_docker_network_name name \<and>
     (\<exists>c\<in>set cs. (scope = AllContainers \<or> container_has_portman_host_label (lc_labels c)) \<and>
        (\<exists>names. lc_networks c = Some names \<and> name \<in> set names))"
proof -
  have "name \<in> set (unwrap_or (lc_networks c) []) \<longleftrightarrow> (\<exists>names. lc_networks c = Some names \<and> name \<in> set names)" for c
    by (cases "lc_networks c") simp_all
  moreover have "(scope = PortmanLabeled \<and> \<not> b) \<longleftrightarrow> \<not> (scope = AllContainers \<or> b)" for b by (cases scope) simp_all
  ultimately show ?thesis by (auto simp: networks_in_scope_def set_bset)
qed

text \<open>
  The subnets routed beside portman's own are exactly those of bridge networks that a container
  in scope is attached to; \<open>host\<close>, \<open>none\<close>, the portman network and its two ranges never are.
\<close>

theorem network_subnets_exact:
  "subnet \<in> set (network_subnets (networks_in_scope scope cs) nets) \<longleftrightarrow>
     subnet \<noteq> PORTMAN_SUBNET_CIDR \<and> subnet \<noteq> DOCKER_BRIDGE_CIDR \<and>
     (\<exists>net\<in>set nets. \<exists>name subnets. ni_name net = Some name \<and> ni_driver net = Some ''bridge'' \<and>
        ni_ipam net = Some subnets \<and> Some subnet \<in> set subnets \<and>
        name \<notin> {''host'', ''none'', PORTMAN_NETWORK} \<and>
        (\<exists>c\<in>set cs. (scope = AllContainers \<or> container_has_portman_host_label (lc_labels c)) \<and>
           (\<exists>names. lc_networks c = Some names \<and> name \<in> set names)))"
proof -
  have ipam: "subnet \<in> set (List.map_filter id (unwrap_or (ni_ipam net) [])) \<longleftrightarrow>
      (\<exists>subnets. ni_ipam net = Some subnets \<and> Some subnet \<in> set subnets)" for net
    by (cases "ni_ipam net") (auto simp: List.map_filter_def intro: rev_image_eqI [of "Some subnet"])
  have one: "subnet \<in> set (subnets_of_network names net) \<longleftrightarrow> routable_docker_subnet subnet \<and>
      (\<exists>name subnets. ni_name net = Some name \<and> ni_driver net = Some ''bridge'' \<and>
         ni_ipam net = Some subnets \<and> Some subnet \<in> set subnets \<and> name \<in> set names)" for names net
    by (cases "ni_name net") (auto simp: subnets_of_network_def ipam)
  have "subnet \<in> set (network_subnets (networks_in_scope scope cs) nets) \<longleftrightarrow>
      (\<exists>net\<in>set nets. subnet \<in> set (subnets_of_network (networks_in_scope scope cs) net))"
    by (simp add: network_subnets_def set_bset)
  then show ?thesis unfolding one in_scope_iff routable_docker_subnet_def routable_docker_network_name_def by blast
qed

end
