(* ===== verification/Bridge_Control.thy ===== *)
theory Bridge_Control
  imports Bridge
begin

text \<open>
  What runs around the bridge: the control task of \<open>portman-daemon/src/netbridge.rs\<close>, which owns
  zero or one runtime and is sent enable, disable and mode messages, and the packet pumps of
  \<open>portman-netbridge/src/runtime.rs\<close>. Generating a key, resolving an interface index and writing the
  state file are parameters, as is the WireGuard peer (\<open>boringtun\<close>).
\<close>

section \<open>The control task\<close>

record netbridge_state =
  ns_enabled :: bool
  ns_mode :: netbridge_mode

datatype bridge_control = Enable | Disable | SetMode netbridge_mode

record 'w control_env =
  cn_host :: "'w bridge_host"
  cn_generate :: "('w, keypair) call"
  cn_ifindex :: "string \<Rightarrow> ('w, nat option) call"
  cn_save :: "netbridge_state \<Rightarrow> ('w, bool) call"  \<comment> \<open>whether the file was replaced\<close>
  cn_env_var :: "string option"  \<comment> \<open>\<open>PORTMAN_NETBRIDGE\<close>\<close>

text \<open>
  \<open>cs_enabled\<close> and \<open>cs_shown_mode\<close> are the locks of the handle, \<open>cs_channel\<close> the watch channel,
  \<open>cs_file\<close> what the state file holds.
\<close>

record control_state =
  cs_runtime :: "bridge_runtime option"
  cs_mode :: netbridge_mode
  cs_enabled :: bool
  cs_shown_mode :: netbridge_mode
  cs_ifindex :: "nat option"
  cs_channel :: bool
  cs_file :: netbridge_state

definition unlogged :: "('w, 'r) call \<Rightarrow> 'w machine \<Rightarrow> 'r \<times> 'w machine" where
  "unlogged f m =
     (case f (mc_world m) of (r, d, w) \<Rightarrow> (r, m\<lparr>mc_world := w, mc_clock := mc_clock m + d\<rparr>))"

definition env_forces_enabled :: "string option \<Rightarrow> bool" where
  "env_forces_enabled var =
     (case var of None \<Rightarrow> False
      | Some v \<Rightarrow> trim v \<noteq> [] \<and> trim v \<noteq> ''0'' \<and> \<not> eq_ignore_ascii_case (trim v) ''false'')"

fun try_attempts ::
  "'w bridge_host \<Rightarrow> netbridge_mode \<Rightarrow> keypair \<Rightarrow> nat \<Rightarrow> 'w machine \<Rightarrow> bridge_runtime option \<times> 'w machine" where
  "try_attempts h mode kp 0 m = (None, m)"
| "try_attempts h mode kp (Suc n) m =
     (case start_with_keypair h mode kp m of
        (Inr rt, m') \<Rightarrow> (Some rt, m')
      | (Inl _, m') \<Rightarrow> try_attempts h mode kp n (if n = 0 then m' else sleep_ms h 5000 m'))"

definition try_start :: "'w control_env \<Rightarrow> netbridge_mode \<Rightarrow> 'w machine \<Rightarrow> bridge_runtime option \<times> 'w machine" where
  "try_start e mode m =
     (case unlogged (cn_generate e) m of (kp, m') \<Rightarrow> try_attempts (cn_host e) mode kp 3 m')"

definition publish_ifindex ::
  "'w control_env \<Rightarrow> bridge_runtime option \<Rightarrow> control_state \<times> 'w machine \<Rightarrow> control_state \<times> 'w machine" where
  "publish_ifindex e rt st =
     (case rt of
        None \<Rightarrow> ((fst st)\<lparr>cs_ifindex := None\<rparr>, snd st)
      | Some rt \<Rightarrow> (case unlogged (cn_ifindex e (rt_utun rt)) (snd st) of
          (idx, m') \<Rightarrow> ((fst st)\<lparr>cs_ifindex := idx\<rparr>, m')))"

definition persist_state ::
  "'w control_env \<Rightarrow> netbridge_state \<Rightarrow> control_state \<times> 'w machine \<Rightarrow> control_state \<times> 'w machine" where
  "persist_state e ns st =
     (case unlogged (cn_save e ns) (snd st) of
        (saved, m') \<Rightarrow> (if saved then (fst st)\<lparr>cs_file := ns\<rparr> else fst st, m'))"

text \<open>The flag, the index and the channel, in the order in which they are written.\<close>

definition reflect_state :: "'w control_env \<Rightarrow> control_state \<times> 'w machine \<Rightarrow> control_state \<times> 'w machine" where
  "reflect_state e st =
     (let up = cs_runtime (fst st) \<noteq> None;
          st = publish_ifindex e (cs_runtime (fst st)) ((fst st)\<lparr>cs_enabled := up\<rparr>, snd st)
      in ((fst st)\<lparr>cs_channel := up\<rparr>, snd st))"

definition start_runtime :: "'w control_env \<Rightarrow> control_state \<times> 'w machine \<Rightarrow> control_state \<times> 'w machine" where
  "start_runtime e st =
     (case try_start e (cs_mode (fst st)) (snd st) of (rt, m') \<Rightarrow> ((fst st)\<lparr>cs_runtime := rt\<rparr>, m'))"

definition control_boot :: "'w control_env \<Rightarrow> netbridge_state \<Rightarrow> 'w machine \<Rightarrow> control_state \<times> 'w machine" where
  "control_boot e persisted m =
     (let c = \<lparr>cs_runtime = None, cs_mode = ns_mode persisted, cs_enabled = False,
                cs_shown_mode = ns_mode persisted, cs_ifindex = None, cs_channel = False, cs_file = persisted\<rparr>;
          initial = ns_enabled persisted \<or> env_forces_enabled (cn_env_var e)
      in reflect_state e (if initial then start_runtime e (c, m) else (c, m)))"

definition control_enable :: "'w control_env \<Rightarrow> control_state \<times> 'w machine \<Rightarrow> control_state \<times> 'w machine" where
  "control_enable e st =
     (let st = reflect_state e (if cs_runtime (fst st) = None then start_runtime e st else st)
      in persist_state e \<lparr>ns_enabled = cs_runtime (fst st) \<noteq> None, ns_mode = cs_mode (fst st)\<rparr> st)"

definition control_disable :: "'w control_env \<Rightarrow> control_state \<times> 'w machine \<Rightarrow> control_state \<times> 'w machine" where
  "control_disable e st =
     (let (c, m) = st;
          m = (case cs_runtime c of None \<Rightarrow> m | Some rt \<Rightarrow> shutdown_and_remove_network (cn_host e) rt m);
          c = c\<lparr>cs_runtime := None, cs_enabled := False, cs_ifindex := None, cs_channel := False\<rparr>
      in persist_state e \<lparr>ns_enabled = False, ns_mode = cs_mode c\<rparr> (c, m))"

definition control_change_mode ::
  "'w control_env \<Rightarrow> netbridge_mode \<Rightarrow> control_state \<times> 'w machine \<Rightarrow> control_state \<times> 'w machine" where
  "control_change_mode e new_mode st =
     (let (c, m) = st in
      case cs_runtime c of
        None \<Rightarrow> (c\<lparr>cs_mode := new_mode, cs_shown_mode := new_mode\<rparr>, m)
      | Some rt \<Rightarrow>
          start_runtime e
            (c\<lparr>cs_runtime := None, cs_enabled := False, cs_ifindex := None, cs_channel := False,
               cs_mode := new_mode, cs_shown_mode := new_mode\<rparr>, runtime_shutdown (cn_host e) rt m))"

definition control_set_mode ::
  "'w control_env \<Rightarrow> netbridge_mode \<Rightarrow> control_state \<times> 'w machine \<Rightarrow> control_state \<times> 'w machine" where
  "control_set_mode e new_mode st =
     (let st = reflect_state e (if cs_mode (fst st) \<noteq> new_mode then control_change_mode e new_mode st else st)
      in persist_state e \<lparr>ns_enabled = cs_runtime (fst st) \<noteq> None, ns_mode = cs_mode (fst st)\<rparr> st)"

fun control_message ::
  "'w control_env \<Rightarrow> bridge_control \<Rightarrow> control_state \<times> 'w machine \<Rightarrow> control_state \<times> 'w machine" where
  "control_message e Enable st = control_enable e st"
| "control_message e Disable st = control_disable e st"
| "control_message e (SetMode mode) st = control_set_mode e mode st"

text \<open>
  A life of the bridge: messages, and ticks of the reconciler that a live runtime has, in any order.
  A tick is taken as a whole between two messages.
\<close>

datatype bridge_step = Message bridge_control | ReconcileTick

fun bridge_life_step ::
  "'w control_env \<Rightarrow> control_state \<times> 'w machine \<Rightarrow> bridge_step \<Rightarrow> control_state \<times> 'w machine" where
  "bridge_life_step e st (Message msg) = control_message e msg st"
| "bridge_life_step e st ReconcileTick =
     (case cs_runtime (fst st) of
        None \<Rightarrow> st
      | Some rt \<Rightarrow> (fst st, route_reconcile_tick (cn_host e) (rt_mode rt) (rt_utun rt) (snd st)))"

definition boot_machine :: "'w \<Rightarrow> 'w machine" where
  "boot_machine w = \<lparr>mc_world = w, mc_clock = 0, mc_trace = [], mc_utuns = {}\<rparr>"

definition bridge_life ::
  "'w control_env \<Rightarrow> netbridge_state \<Rightarrow> bridge_step list \<Rightarrow> 'w \<Rightarrow> control_state \<times> 'w machine" where
  "bridge_life e persisted steps w =
     foldl (bridge_life_step e) (control_boot e persisted (boot_machine w)) steps"

section \<open>The bridge is up exactly while its resources are held\<close>

definition holds_resources :: "bridge_runtime option \<Rightarrow> 'w machine \<Rightarrow> bool" where
  "holds_resources rt m \<longleftrightarrow>
     mc_utuns m = (case rt of None \<Rightarrow> {} | Some rt \<Rightarrow> {rt_utun rt}) \<and>
     open_utuns (mc_trace m) = (if rt = None then 0 else 1) \<and>
     open_udp (mc_trace m) = (if rt = None then 0 else 1) \<and> touches_own (mc_trace m)"

definition life_ok :: "control_state \<times> 'w machine \<Rightarrow> bool" where
  "life_ok st \<longleftrightarrow>
     (let (c, m) = st; up = cs_runtime c \<noteq> None in
      cs_enabled c = up \<and> cs_channel c = up \<and> cs_shown_mode c = cs_mode c \<and> (up \<or> cs_ifindex c = None) \<and>
      (case cs_runtime c of None \<Rightarrow> True | Some rt \<Rightarrow> rt_mode rt = cs_mode c) \<and> holds_resources (cs_runtime c) m)"

lemma no_host_event_open: "filter host_event es = [] \<Longrightarrow> open_utuns es = 0"
proof (induction es)
  case (Cons e es)
  then show ?case by (cases e) (simp_all add: open_utuns_def balance_def split: if_splits)
qed simp

lemma start_holds:
  assumes start: "start_with_keypair h mode kp m = (r, m')" and free: "holds_resources None m"
  shows "case r of Inr rt \<Rightarrow> holds_resources (Some rt) m' \<and> rt_mode rt = mode | Inl _ \<Rightarrow> holds_resources None m'"
proof -
  from start_outcome [where h = h and mode = mode and kp = kp and m = m] start obtain ds hs where
    tr: "mc_trace m' = mc_trace m @ ds @ hs" and ds: "filter host_event ds = []" and
    out: "case r of
        Inr rt \<Rightarrow> open_udp (ds @ hs) = 1 \<and> open_utuns hs = 1 \<and> mc_utuns m' = insert (rt_utun rt) (mc_utuns m) \<and> rt_mode rt = mode
      | Inl _ \<Rightarrow> open_udp (ds @ hs) = 0 \<and> open_utuns hs = 0 \<and> mc_utuns m' \<subseteq> mc_utuns m"
    by (cases r) fastforce+
  have "touches_own (mc_trace m')"
    using start_touches_own [where h = h and mode = mode and kp = kp and m = m] start free
    by (auto simp: holds_resources_def trace_appended intro: touches_own_append)
  with tr no_host_event_open [OF ds] out free show ?thesis by (cases r) (simp_all add: holds_resources_def)
qed

lemma holds_same_log:
  "holds_resources rt m \<Longrightarrow> mc_utuns m' = mc_utuns m \<Longrightarrow> mc_trace m' = mc_trace m \<Longrightarrow> holds_resources rt m'"
  by (simp add: holds_resources_def)

lemma unlogged_keeps: "unlogged f m = (r, m') \<Longrightarrow> mc_utuns m' = mc_utuns m \<and> mc_trace m' = mc_trace m"
  by (auto simp: unlogged_def split: prod.splits)

lemma sleep_holds: "holds_resources rt m \<Longrightarrow> holds_resources rt (sleep_ms h n m)"
proof -
  have "touches_own [Slept n]" by (rule own_log.seen)
  with does_sleep [where n = n and m = m and h = h] trace_appended [of m "sleep_ms h n m"] show "holds_resources rt m \<Longrightarrow> ?thesis"
    by (auto simp: holds_resources_def does_def open_udp_def open_utuns_def balance_def intro: touches_own_append)
qed

lemma try_attempts_holds:
  "holds_resources None m \<Longrightarrow> try_attempts h mode kp n m = (rt, m') \<Longrightarrow>
   holds_resources rt m' \<and> (case rt of None \<Rightarrow> True | Some rt \<Rightarrow> rt_mode rt = mode)"
proof (induction n arbitrary: m)
  case (Suc n)
  obtain r m1 where start: "start_with_keypair h mode kp m = (r, m1)" by fastforce
  note held = start_holds [OF start Suc.prems(1)]
  show ?case
  proof (cases r)
    case (Inl err)
    with held have "holds_resources None (if n = 0 then m1 else sleep_ms h 5000 m1)" by (simp add: sleep_holds)
    from Suc.IH [OF this] Suc.prems(2) start Inl show ?thesis by simp
  qed (use Suc.prems start held in auto)
qed simp

lemma start_runtime_holds:
  assumes "holds_resources None (snd st)" and "start_runtime e st = st'"
  shows "holds_resources (cs_runtime (fst st')) (snd st') \<and>
    (case cs_runtime (fst st') of None \<Rightarrow> True | Some rt \<Rightarrow> rt_mode rt = cs_mode (fst st)) \<and>
    (\<exists>rt. fst st' = (fst st)\<lparr>cs_runtime := rt\<rparr>)"
proof -
  obtain kp m1 where gen: "unlogged (cn_generate e) (snd st) = (kp, m1)" by fastforce
  obtain rt m2 where att: "try_attempts (cn_host e) (cs_mode (fst st)) kp 3 m1 = (rt, m2)" by fastforce
  have "holds_resources None m1" using assms(1) unlogged_keeps [OF gen] holds_same_log by blast
  from try_attempts_holds [OF this att] gen att assms(2) show ?thesis
    by (auto simp: start_runtime_def try_start_def)
qed

text \<open>What reflecting and persisting leave unchanged.\<close>

lemma reflect_fields:
  assumes "reflect_state e st = st'"
  shows "cs_runtime (fst st') = cs_runtime (fst st)" "cs_mode (fst st') = cs_mode (fst st)"
    "cs_shown_mode (fst st') = cs_shown_mode (fst st)" "cs_file (fst st') = cs_file (fst st)"
    "cs_enabled (fst st') = (cs_runtime (fst st) \<noteq> None)" "cs_channel (fst st') = (cs_runtime (fst st) \<noteq> None)"
    "cs_runtime (fst st) = None \<Longrightarrow> cs_ifindex (fst st') = None"
    "mc_utuns (snd st') = mc_utuns (snd st)" "mc_trace (snd st') = mc_trace (snd st)"
  using assms by (auto simp: reflect_state_def publish_ifindex_def Let_def split: option.splits prod.splits
      dest: unlogged_keeps)

lemma reflect_life_ok:
  assumes "holds_resources (cs_runtime (fst st)) (snd st)"
    and "case cs_runtime (fst st) of None \<Rightarrow> True | Some rt \<Rightarrow> rt_mode rt = cs_mode (fst st)"
    and "cs_shown_mode (fst st) = cs_mode (fst st)"
  shows "life_ok (reflect_state e st)"
proof -
  obtain c m where st': "reflect_state e st = (c, m)" by fastforce
  note f = reflect_fields [OF st', unfolded fst_conv snd_conv]
  show ?thesis using assms f holds_same_log [OF assms(1) f(8) f(9)] by (auto simp: st' life_ok_def)
qed

lemma persist_life_ok: "life_ok st \<Longrightarrow> life_ok (persist_state e ns st)"
  by (auto simp: persist_state_def life_ok_def Let_def split: prod.splits
      dest!: unlogged_keeps elim!: holds_same_log)

lemma life_okD:
  assumes "life_ok st"
  shows "holds_resources (cs_runtime (fst st)) (snd st)" "cs_shown_mode (fst st) = cs_mode (fst st)"
    "case cs_runtime (fst st) of None \<Rightarrow> True | Some rt \<Rightarrow> rt_mode rt = cs_mode (fst st)"
  using assms by (auto simp: life_ok_def Let_def split: prod.splits)

text \<open>Starting from a state without a runtime, then reflecting, is sound.\<close>

lemma start_reflect_ok:
  assumes "holds_resources None (snd st)" and "cs_shown_mode (fst st) = cs_mode (fst st)"
  shows "life_ok (reflect_state e (start_runtime e st))"
proof -
  from start_runtime_holds [OF assms(1) refl [of "start_runtime e st"]] obtain rt where
    held: "holds_resources (cs_runtime (fst (start_runtime e st))) (snd (start_runtime e st))"
    and mode: "case cs_runtime (fst (start_runtime e st)) of None \<Rightarrow> True | Some rt \<Rightarrow> rt_mode rt = cs_mode (fst st)"
    and c: "fst (start_runtime e st) = (fst st)\<lparr>cs_runtime := rt\<rparr>" by blast
  show ?thesis by (rule reflect_life_ok [OF held]) (use mode assms(2) c in \<open>cases rt; simp\<close>)+
qed

lemma control_boot_ok: "life_ok (control_boot e persisted (boot_machine w))"
proof -
  have free: "holds_resources None (boot_machine w)" by (simp add: holds_resources_def boot_machine_def touches_own_def)
  show ?thesis unfolding control_boot_def Let_def
    by (cases "ns_enabled persisted \<or> env_forces_enabled (cn_env_var e)")
      (simp_all add: start_reflect_ok reflect_life_ok free)
qed

lemma balance_pair: "open_udp [UtunClosed, UdpClosed] = -1" "open_utuns [UtunClosed, UdpClosed] = -1"
  by simp_all

lemma shutdown_holds:
  assumes "holds_resources (Some rt) m"
  shows "holds_resources None (runtime_shutdown h rt m)"
proof -
  from runtime_shutdown_does [of m h rt] obtain ds where
    tr: "mc_trace (runtime_shutdown h rt m) = mc_trace m @ UtunClosed # UdpClosed # ds" and
    ds: "docker_only ds" "touches_own (UtunClosed # UdpClosed # ds)" and
    names: "mc_utuns (runtime_shutdown h rt m) = mc_utuns m - {rt_utun rt}"
    by (auto simp: trace_appended)
  with docker_only_open [OF ds(1)] assms touches_own_append [of "mc_trace m"] show ?thesis
    by (simp add: holds_resources_def)
qed

lemma remove_network_holds: "holds_resources None m \<Longrightarrow> holds_resources None (remove_portman_network_if_owned h m)"
  using docker_side.remove_network_does [of m h] own_log.remove_network_does [of m h] docker_only_open
  by (auto simp: holds_resources_def does_def trace_appended intro: touches_own_append)

lemma control_message_ok:
  assumes "life_ok st"
  shows "life_ok (control_message e msg st)"
proof -
  obtain c m where st: "st = (c, m)" by (cases st)
  note ok = life_okD [OF assms]
  show ?thesis
  proof (cases msg)
    case Enable
    show ?thesis
      by (cases "cs_runtime c") (use ok st Enable in \<open>simp_all add: control_enable_def Let_def persist_life_ok
        start_reflect_ok reflect_life_ok\<close>)
  next
    case Disable
    let ?c = "c\<lparr>cs_runtime := None, cs_enabled := False, cs_ifindex := None, cs_channel := False\<rparr>"
    let ?m = "case cs_runtime c of None \<Rightarrow> m | Some rt \<Rightarrow> shutdown_and_remove_network (cn_host e) rt m"
    have "holds_resources None ?m"
      using ok st by (cases "cs_runtime c") (simp_all add: shutdown_and_remove_network_def shutdown_holds remove_network_holds)
    then have "life_ok (?c, ?m)" using ok st by (simp add: life_ok_def)
    then show ?thesis using Disable st by (simp add: control_disable_def Let_def persist_life_ok)
  next
    case (SetMode mode)
    have "life_ok (reflect_state e (if cs_mode (fst st) \<noteq> mode then control_change_mode e mode st else st))"
    proof (cases "cs_mode c = mode")
      case True
      with ok st show ?thesis by (cases "cs_runtime c") (simp_all add: reflect_life_ok)
    next
      case False
      with ok st show ?thesis
        by (cases "cs_runtime c") (simp_all add: control_change_mode_def start_reflect_ok reflect_life_ok shutdown_holds)
    qed
    then show ?thesis unfolding SetMode control_message.simps control_set_mode_def Let_def by (rule persist_life_ok)
  qed
qed

lemma tick_holds:
  assumes "holds_resources rt m"
  shows "holds_resources rt (route_reconcile_tick h mode iface m)"
proof -
  obtain r m1 where cidrs: "docker_route_cidrs h mode m = (r, m1)" by fastforce
  let ?plan = "startup_route_plan iface (case r of Inr extra \<Rightarrow> extra | Inl _ \<Rightarrow> [])"
  define m2 where "m2 = ensure_routes h ?plan m1"
  note d1 = docker_side.route_cidrs_does [OF cidrs] and d2 = ensure_routes_does [of ?plan m1 h, folded m2_def]
  have tick: "route_reconcile_tick h mode iface m = m2" using cidrs by (simp add: route_reconcile_tick_def m2_def)
  have tr: "mc_trace m2 = mc_trace m @ appended m m2" and own: "touches_own (appended m m2)" and u: "mc_utuns m2 = mc_utuns m"
    using tick_touches_own [of m h mode iface] trace_appended unfolding tick by (auto simp: does_def)
  have "appended m m2 = appended m m1 @ appended m1 m2" using d1 d2 appended_trans by (auto simp: does_def)
  moreover have "open_udp (appended m1 m2) = 0" "open_utuns (appended m1 m2) = 0"
    using d2 route_events_open by (auto simp: does_def routing_def)
  moreover have "open_udp (appended m m1) = 0" "open_utuns (appended m m1) = 0"
    using d1 docker_only_open by (auto simp: does_def)
  ultimately have "open_udp (appended m m2) = 0" "open_utuns (appended m m2) = 0" by simp_all
  with assms tr u touches_own_append [OF _ own, of "mc_trace m"] show ?thesis unfolding tick by (simp add: holds_resources_def)
qed

lemma life_step_ok: "life_ok st \<Longrightarrow> life_ok (bridge_life_step e st step)"
proof (cases step)
  case ReconcileTick
  assume ok: "life_ok st"
  show ?thesis
  proof (cases "cs_runtime (fst st)")
    case (Some rt)
    with ok tick_holds [of "Some rt" "snd st"] ReconcileTick show ?thesis
      by (auto simp: life_ok_def Let_def split: prod.splits)
  qed (use ok ReconcileTick in simp)
qed (simp add: control_message_ok)

lemma bridge_life_ok: "life_ok (bridge_life e persisted steps w)"
proof -
  have "life_ok st \<Longrightarrow> life_ok (foldl (bridge_life_step e) st steps)" for st
    by (induction steps arbitrary: st) (simp_all add: life_step_ok)
  then show ?thesis unfolding bridge_life_def by (simp add: control_boot_ok)
qed

text \<open>
  C8: From boot on, whatever messages and ticks follow: the bridge is reported up, on the flag and on
  the channel, exactly while there is a runtime; then exactly one tunnel device and one socket are
  open and its name alone counts as portman's own; otherwise nothing is left open or claimed.
\<close>

theorem bridge_up_iff_resources:
  "case bridge_life e persisted steps w of (c, m) \<Rightarrow>
     cs_channel c = cs_enabled c \<and> cs_shown_mode c = cs_mode c \<and>
     (case cs_runtime c of
        None \<Rightarrow> \<not> cs_enabled c \<and> cs_ifindex c = None \<and> mc_utuns m = {} \<and>
          open_utuns (mc_trace m) = 0 \<and> open_udp (mc_trace m) = 0
      | Some rt \<Rightarrow> cs_enabled c \<and> rt_mode rt = cs_mode c \<and> mc_utuns m = {rt_utun rt} \<and>
          open_utuns (mc_trace m) = 1 \<and> open_udp (mc_trace m) = 1)"
  using bridge_life_ok [of e persisted steps w]
  by (auto simp: life_ok_def holds_resources_def Let_def split: prod.splits option.splits)

text \<open>
  C11: Portman stops and removes only what carries its labels: in the whole life of the bridge a
  container is stopped or removed only when the inspection just before showed both labels on the
  set-up container, and a network only when it showed the managed label on the portman network.
\<close>

theorem bridge_touches_only_its_own:
  "tagged False False (mc_trace (snd (bridge_life e persisted steps w)))"
  using bridge_life_ok [of e persisted steps w]
  by (auto simp: life_ok_def holds_resources_def Let_def touches_own_tagged split: prod.splits)

section \<open>What the state file says\<close>

lemma persisted_file:
  assumes "\<forall>ns w. fst (cn_save e ns w)"
  shows "fst (persist_state e ns st) = (fst st)\<lparr>cs_file := ns\<rparr>"
proof -
  have "fst (unlogged (cn_save e ns) (snd st))" using assms by (simp add: unlogged_def case_prod_beta)
  then show ?thesis by (auto simp: persist_state_def split: prod.splits)
qed

text \<open>After a message the file says what runs, in which mode: not what was asked for.\<close>

lemma file_after_message:
  assumes "\<forall>ns w. fst (cn_save e ns w)" and "control_message e msg st = st'"
  shows "cs_file (fst st') = \<lparr>ns_enabled = cs_runtime (fst st') \<noteq> None, ns_mode = cs_mode (fst st')\<rparr>"
  using assms(2) by (cases msg) (auto simp: control_enable_def control_disable_def control_set_mode_def Let_def
      persisted_file [OF assms(1)] split: prod.splits)

text \<open>
  The module says that enabling persists \<open>enabled=true\<close>, and the field that it is what the user
  requested. But when the start fails, the request to enable turns the bridge off for every later
  boot, and so does a mere change of the mode while it is down. Docker with a foreign network called
  \<open>portman\<close> is such a case.
\<close>

lemma enable_forgotten_when_start_fails:
  assumes "\<forall>ns w. fst (cn_save e ns w)" and "cs_runtime (fst st) = None"
  shows "fst (try_start e (cs_mode (fst st)) (snd st)) = None \<Longrightarrow> \<not> ns_enabled (cs_file (fst (control_message e Enable st)))"
    and "\<not> ns_enabled (cs_file (fst (control_message e (SetMode mode) st)))"
proof -
  have gone: "cs_runtime (fst (reflect_state e st')) = cs_runtime (fst st')" for st' by (rule reflect_fields(1) [OF refl])
  show "\<not> ns_enabled (cs_file (fst (control_message e Enable st)))" if "fst (try_start e (cs_mode (fst st)) (snd st)) = None"
    using that assms(2) by (simp add: control_enable_def Let_def persisted_file [OF assms(1)] gone start_runtime_def case_prod_beta)
  show "\<not> ns_enabled (cs_file (fst (control_message e (SetMode mode) st)))"
    using assms(2) by (simp add: control_set_mode_def control_change_mode_def Let_def persisted_file [OF assms(1)] gone case_prod_beta)
qed

definition foreign_network_host :: "unit bridge_host" where
  "foreign_network_host = vpn_host\<lparr>bh_inspect_network := \<lambda>_ w.
     (Inr \<lparr>ni_name = Some ''portman'', ni_driver = Some ''bridge'', ni_ipam = None, ni_labels = None\<rparr>, 1, w)\<rparr>"

definition bare_control :: "unit control_env" where
  "bare_control =
     \<lparr>cn_host = foreign_network_host, cn_generate = \<lambda>w. (\<lparr>kp_secret = ''s'', kp_public = ''p''\<rparr>, 0, w),
      cn_ifindex = \<lambda>_ w. (Some 9, 0, w), cn_save = \<lambda>_ w. (True, 0, w), cn_env_var = None\<rparr>"

lemma foreign_network_refused: "\<exists>err m'. start_with_keypair foreign_network_host mode kp m = (Inl err, m')"
  by (simp add: start_with_keypair_def start_docker_side_def io_then_def ensure_portman_network_def perform_def
      foreign_network_host_def network_is_portman_managed_def)

lemma foreign_network_never_up: "fst (try_attempts foreign_network_host mode kp n m) = None"
proof (induction n arbitrary: m)
  case (Suc n)
  from foreign_network_refused [of mode kp m] obtain err m' where "start_with_keypair foreign_network_host mode kp m = (Inl err, m')"
    by blast
  with Suc show ?case by simp
qed simp

lemma failed_enable_is_forgotten:
  "cs_runtime (fst st) = None \<Longrightarrow>
   \<not> ns_enabled (cs_file (fst (control_message bare_control Enable st))) \<and>
   \<not> ns_enabled (cs_file (fst (control_message bare_control (SetMode mode) st)))"
  by (intro conjI enable_forgotten_when_start_fails)
    (simp_all add: bare_control_def try_start_def foreign_network_never_up case_prod_beta)

end
