(* ===== verification/Bridge_Pump.thy ===== *)
theory Bridge_Pump
  imports Bridge
begin

text \<open>
  The packet pumps of \<open>portman-netbridge/src/runtime.rs\<close>, the health assessment of
  \<open>portman-daemon/src/bridge_health.rs\<close> and the container-facing listeners of \<open>host_facing.rs\<close>.
  The WireGuard peer (\<open>boringtun\<close>) is a parameter.
\<close>

section \<open>The pumps\<close>

datatype tunn_result = TunnDone | TunnErr string | ToNetwork string | ToTunnelV4 string | ToTunnelV6 string

record 'p tunn =
  tn_decapsulate :: "'p \<Rightarrow> string \<Rightarrow> tunn_result \<times> 'p"
  tn_encapsulate :: "'p \<Rightarrow> string \<Rightarrow> tunn_result \<times> 'p"
  tn_update_timers :: "'p \<Rightarrow> tunn_result \<times> 'p"

datatype 'a pump_output = SendUdp string 'a | WriteTun string

text \<open>The shared peer and endpoint, and the receiving task's own memory of the last source.\<close>

record ('p, 'a) pump_state =
  pu_peer :: 'p
  pu_endpoint :: "'a option"
  pu_last :: "'a option"

definition utun_header :: string where
  "utun_header = [CHR 0x00, CHR 0x00, CHR 0x00, CHR 0x02]"

text \<open>
  The inner loop on one datagram: the datagram first, then the empty input until the queue is drained.
  It ends when the peer's queue does. The result is whether the datagram counts as authenticated.
\<close>

partial_function (option) rx_loop ::
  "'p tunn \<Rightarrow> 'a \<Rightarrow> bool \<Rightarrow> string \<Rightarrow> bool \<Rightarrow> 'a pump_output list \<Rightarrow> 'p \<Rightarrow> (bool \<times> 'a pump_output list \<times> 'p) option" where
  "rx_loop t src is_first input auth out p =
     (case tn_decapsulate t p input of
        (TunnErr _, p') \<Rightarrow> Some (auth, out, p')
      | (ToNetwork frame, p') \<Rightarrow> rx_loop t src False [] (auth \<or> is_first) (out @ [SendUdp frame src]) p'
      | (ToTunnelV4 pkt, p') \<Rightarrow> Some (auth \<or> is_first, out @ [WriteTun (utun_header @ pkt)], p')
      | (_, p') \<Rightarrow> Some (auth \<or> is_first, out, p'))"

definition rx_datagram ::
  "'p tunn \<Rightarrow> 'a \<Rightarrow> string \<Rightarrow> ('p, 'a) pump_state \<Rightarrow> (('p, 'a) pump_state \<times> 'a pump_output list) option" where
  "rx_datagram t src buf st =
     (case rx_loop t src True buf False [] (pu_peer st) of
        None \<Rightarrow> None
      | Some (authenticated, out, p) \<Rightarrow>
          Some (if authenticated \<and> pu_last st \<noteq> Some src
                then st\<lparr>pu_peer := p, pu_endpoint := Some src, pu_last := Some src\<rparr>
                else st\<lparr>pu_peer := p\<rparr>, out))"

fun strip_utun_prefix :: "string \<Rightarrow> string" where
  "strip_utun_prefix (a # b # c # d # x # rest) =
     (if a = CHR 0x00 \<and> b = CHR 0x00 \<and> (d = CHR 0x02 \<or> d = CHR 0x1E) then x # rest else a # b # c # d # x # rest)"
| "strip_utun_prefix pkt = pkt"

definition send_to_endpoint :: "('p, 'a) pump_state \<Rightarrow> tunn_result \<Rightarrow> 'a pump_output list" where
  "send_to_endpoint st r =
     (case (r, pu_endpoint st) of (ToNetwork frame, Some dest) \<Rightarrow> [SendUdp frame dest] | _ \<Rightarrow> [])"

definition tx_packet ::
  "'p tunn \<Rightarrow> string \<Rightarrow> ('p, 'a) pump_state \<Rightarrow> ('p, 'a) pump_state \<times> 'a pump_output list" where
  "tx_packet t pkt st =
     (case tn_encapsulate t (pu_peer st) (strip_utun_prefix pkt) of
        (r, p) \<Rightarrow> (st\<lparr>pu_peer := p\<rparr>, send_to_endpoint st r))"

definition timer_tick ::
  "'p tunn \<Rightarrow> ('p, 'a) pump_state \<Rightarrow> ('p, 'a) pump_state \<times> 'a pump_output list" where
  "timer_tick t st =
     (case tn_update_timers t (pu_peer st) of (r, p) \<Rightarrow> (st\<lparr>pu_peer := p\<rparr>, send_to_endpoint st r))"

text \<open>The three tasks share the peer's lock, so their turns interleave.\<close>

datatype 'a pump_event = Datagram 'a string | TunPacket string | TimerTick

fun pump_step ::
  "'p tunn \<Rightarrow> 'a pump_event \<Rightarrow> ('p, 'a) pump_state \<Rightarrow> (('p, 'a) pump_state \<times> 'a pump_output list) option" where
  "pump_step t (Datagram src buf) st = rx_datagram t src buf st"
| "pump_step t (TunPacket pkt) st = Some (tx_packet t pkt st)"
| "pump_step t TimerTick st = Some (timer_tick t st)"

fun pump_run ::
  "'p tunn \<Rightarrow> 'a pump_event list \<Rightarrow> ('p, 'a) pump_state \<Rightarrow> (('p, 'a) pump_state \<times> 'a pump_output list) option" where
  "pump_run t [] st = Some (st, [])"
| "pump_run t (e # es) st =
     (case pump_step t e st of
        None \<Rightarrow> None
      | Some (st', out) \<Rightarrow> map_option (\<lambda>(st'', out'). (st'', out @ out')) (pump_run t es st'))"

definition pump_start :: "'p \<Rightarrow> ('p, 'a) pump_state" where
  "pump_start p = \<lparr>pu_peer = p, pu_endpoint = None, pu_last = None\<rparr>"

text \<open>A datagram is taken when the peer's first answer to it is not an error.\<close>

definition datagram_taken :: "'p tunn \<Rightarrow> 'p \<Rightarrow> string \<Rightarrow> bool" where
  "datagram_taken t p buf \<longleftrightarrow> (case fst (tn_decapsulate t p buf) of TunnErr _ \<Rightarrow> False | _ \<Rightarrow> True)"

lemma rx_loop_outcome:
  assumes "rx_loop t src is_first input auth out p = Some r"
  shows "(fst r \<longleftrightarrow> auth \<or> is_first \<and> datagram_taken t p input) \<and>
    (\<exists>more. fst (snd r) = out @ more \<and> (\<forall>frame dest. SendUdp frame dest \<in> set more \<longrightarrow> dest = src \<and> (is_first \<longrightarrow> datagram_taken t p input)))"
proof (rule rx_loop.raw_induct [where P = "\<lambda>t src is_first input auth out p r.
    (fst r \<longleftrightarrow> auth \<or> is_first \<and> datagram_taken t p input) \<and>
    (\<exists>more. fst (snd r) = out @ more \<and> (\<forall>frame dest. SendUdp frame dest \<in> set more \<longrightarrow> dest = src \<and> (is_first \<longrightarrow> datagram_taken t p input)))", OF _ assms], goal_cases)
  case (1 rx t src is_first input auth out p r)
  obtain res p' where d: "tn_decapsulate t p input = (res, p')" by fastforce
  show ?case
  proof (cases res)
    case (ToNetwork frame)
    with 1(2) d have "rx t src False [] (auth \<or> is_first) (out @ [SendUdp frame src]) p' = Some r" by simp
    from 1(1) [OF this] obtain more where "fst r \<longleftrightarrow> auth \<or> is_first" "fst (snd r) = out @ SendUdp frame src # more"
      "\<forall>frame dest. SendUdp frame dest \<in> set more \<longrightarrow> dest = src" by auto
    with ToNetwork d show ?thesis by (auto simp: datagram_taken_def)
  qed (use 1(2) d in \<open>auto simp: datagram_taken_def\<close>)
qed

text \<open>
  \<open>boringtun\<close> documents that the call is to be repeated with an empty datagram until it is done: its
  queue shrinks. Then every datagram is dealt with.
\<close>

lemma rx_loop_returns:
  assumes "\<And>p frame p'. tn_decapsulate t p [] = (ToNetwork frame, p') \<Longrightarrow> queued p' < (queued p :: nat)"
  shows "\<exists>r. rx_loop t src is_first input auth out p = Some r"
proof -
  have drained: "\<exists>r. rx_loop t src False [] auth out p = Some r" for auth out p
  proof (induction "queued p" arbitrary: auth out p rule: less_induct)
    case less
    then show ?case using assms
      by (subst rx_loop.simps) (fastforce split: prod.splits tunn_result.splits)
  qed
  show ?thesis
    by (subst rx_loop.simps) (cases "tn_decapsulate t p input", cases "fst (tn_decapsulate t p input)", auto simp: drained simp del: split_paired_Ex)
qed

lemma pump_run_append:
  "pump_run t (es @ fs) st =
     (case pump_run t es st of None \<Rightarrow> None
      | Some (st', out) \<Rightarrow> map_option (\<lambda>(st'', out'). (st'', out @ out')) (pump_run t fs st'))"
proof (induction es arbitrary: st)
  case Nil
  then show ?case by (cases "pump_run t fs st") auto
next
  case (Cons e es)
  show ?case
  proof (cases "pump_step t e st")
    case (Some r)
    then show ?thesis using Cons.IH [of "fst r"]
      by (cases "pump_run t es (fst r)") (auto simp: case_prod_unfold option.map_comp comp_def split: option.splits)
  qed simp
qed

definition taken_from :: "'p tunn \<Rightarrow> 'p \<Rightarrow> 'a pump_event list \<Rightarrow> 'a \<Rightarrow> bool" where
  "taken_from t p es a \<longleftrightarrow>
     (\<exists>es1 buf es2 st1 out1. es = es1 @ Datagram a buf # es2 \<and>
        pump_run t es1 (pump_start p) = Some (st1, out1) \<and> datagram_taken t (pu_peer st1) buf)"

lemma taken_from_snoc: "taken_from t p es a \<Longrightarrow> taken_from t p (es @ [e]) a"
  by (fastforce simp: taken_from_def)

text \<open>One turn: a new endpoint, or a destination not the endpoint's, is the source of a taken datagram.\<close>

lemma pump_step_destinations:
  assumes "pump_step t e st = Some (st', out)" and "SendUdp frame a \<in> set out \<or> pu_endpoint st' = Some a"
  shows "pu_endpoint st = Some a \<or> (\<exists>buf. e = Datagram a buf \<and> datagram_taken t (pu_peer st) buf)"
proof (cases e)
  case (Datagram src buf)
  with assms(1) obtain auth p' where loop: "rx_loop t src True buf False [] (pu_peer st) = Some (auth, out, p')"
    and st': "pu_endpoint st' = (if auth \<and> pu_last st \<noteq> Some src then Some src else pu_endpoint st)"
    by (auto simp: rx_datagram_def split: option.splits if_splits)
  from rx_loop_outcome [OF loop] st' assms(2) Datagram show ?thesis by (auto split: if_splits)
qed (use assms in \<open>auto simp: tx_packet_def timer_tick_def send_to_endpoint_def
      split: prod.splits tunn_result.splits option.splits\<close>)

text \<open>
  C10: The pumps send only to peers that have been heard: every frame they send goes to the source of a
  datagram which the peer took, when it came, without an error, and the endpoint is always such a
  source.
\<close>

theorem pump_sends_to_taken_sources:
  assumes "pump_run t es (pump_start p) = Some (st, out)"
    and "SendUdp frame a \<in> set out \<or> pu_endpoint st = Some a"
  shows "\<exists>es1 buf es2 st1 out1. es = es1 @ Datagram a buf # es2 \<and>
    pump_run t es1 (pump_start p) = Some (st1, out1) \<and> datagram_taken t (pu_peer st1) buf"
proof -
  have "taken_from t p es a" using assms
  proof (induction es arbitrary: st out rule: rev_induct)
    case Nil
    then show ?case by (auto simp: pump_start_def)
  next
    case (snoc e es)
    then obtain st1 out1 out2 where run: "pump_run t es (pump_start p) = Some (st1, out1)"
      and step: "pump_step t e st1 = Some (st, out2)" and out: "out = out1 @ out2"
      by (auto simp: pump_run_append split: option.splits)
    show ?case
    proof (cases "SendUdp frame a \<in> set out1 \<or> pu_endpoint st1 = Some a")
      case True
      from snoc.IH [OF run True] show ?thesis by (rule taken_from_snoc)
    next
      case False
      with pump_step_destinations [OF step, of frame a] snoc.prems(2) out run show ?thesis
        by (fastforce simp: taken_from_def)
    qed
  qed
  then show ?thesis by (simp add: taken_from_def)
qed

text \<open>
  A peer for examples, which takes what starts with the letter \<open>k\<close> and, as \<open>boringtun\<close> documents,
  answers an empty datagram from its queue, here always empty.
\<close>

definition letter_tunn :: "unit tunn" where
  "letter_tunn =
     \<lparr>tn_decapsulate = \<lambda>p buf. (case buf of [] \<Rightarrow> TunnDone
        | c # rest \<Rightarrow> if c = CHR ''k'' then ToTunnelV4 rest else TunnErr ''bad key'', p),
      tn_encapsulate = \<lambda>p pkt. (ToNetwork (CHR ''k'' # pkt), p),
      tn_update_timers = \<lambda>p. (TunnDone, p)\<rparr>"

lemma letter_rx:
  "rx_loop letter_tunn src True buf False [] p =
     Some (case buf of [] \<Rightarrow> (True, [], p)
       | c # rest \<Rightarrow> if c = CHR ''k'' then (True, [WriteTun (utun_header @ rest)], p) else (False, [], p))"
  by (subst rx_loop.simps) (simp add: letter_tunn_def split: list.split)

lemma letter_example:
  "pump_run letter_tunn [Datagram (1::nat) ''xx'', Datagram 2 ''kp'', TunPacket ''q''] (pump_start ()) =
     Some (\<lparr>pu_peer = (), pu_endpoint = Some 2, pu_last = Some 2\<rparr>, [WriteTun (utun_header @ ''p''), SendUdp ''kq'' 2])"
  by (simp add: rx_datagram_def letter_rx pump_start_def tx_packet_def send_to_endpoint_def)
    (simp add: letter_tunn_def)

theorem pump_sends_to_taken_sources_witness:
  "\<exists>es1 buf es2 st1 out1. [Datagram (1::nat) ''xx'', Datagram 2 ''kp'', TunPacket ''q''] = es1 @ Datagram 2 buf # es2 \<and>
    pump_run letter_tunn es1 (pump_start ()) = Some (st1, out1) \<and> datagram_taken letter_tunn (pu_peer st1) buf"
  by (rule pump_sends_to_taken_sources [OF letter_example, where frame = "''kq''"]) simp

text \<open>
  The source address is meant to be trusted only once the datagram is authenticated. But an empty
  datagram is no datagram to \<open>boringtun\<close>: it is the call that drains the queue, and its answer
  \<open>TunnDone\<close> counts as authenticated. So an empty UDP packet from anywhere redirects the tunnel.
\<close>

lemma empty_datagram_takes_endpoint:
  assumes "tn_decapsulate t (pu_peer st) [] = (TunnDone, p)" and "pu_last st \<noteq> Some src"
  shows "\<exists>st'. rx_datagram t src [] st = Some (st', []) \<and> pu_endpoint st' = Some src"
proof -
  have "rx_loop t src True [] False [] (pu_peer st) = Some (True, [], p)"
    by (subst rx_loop.simps) (simp add: assms(1))
  with assms(2) show ?thesis by (simp add: rx_datagram_def)
qed

lemma empty_datagram_redirects_tunnel:
  "map_option snd (pump_run letter_tunn [Datagram (2::nat) ''kp'', Datagram 66 [], TunPacket ''q''] (pump_start ())) =
     Some [WriteTun (utun_header @ ''p''), SendUdp ''kq'' 66]"
  by (simp add: rx_datagram_def letter_rx pump_start_def tx_packet_def send_to_endpoint_def)
    (simp add: letter_tunn_def)

end
