(* ===== verification/Bridge_Health.thy ===== *)
theory Bridge_Health
  imports Bridge
begin

text \<open>
  Two tasks that watch the bridge: the health assessment of \<open>portman-daemon/src/bridge_health.rs\<close>,
  with the replies of Docker and of \<open>/sbin/route\<close> as inputs, and the container-facing listeners of
  \<open>host_facing.rs\<close>, which run while the bridge is up.
\<close>

section \<open>The assessment\<close>

datatype route_state = RouteLive | RouteDead | RouteMissing

definition health_networks :: "listed_container list \<Rightarrow> string list" where
  "health_networks containers =
     bset (concat (map (\<lambda>c.
       if \<not> container_has_portman_host_label (lc_labels c) then []
       else filter (\<lambda>name. name \<notin> {''host'', ''none''}) (unwrap_or (lc_networks c) [])) containers))"

definition health_subnets :: "string list \<Rightarrow> network_info list \<Rightarrow> string list" where
  "health_subnets in_use networks =
     bset (concat (map (\<lambda>net. case ni_name net of
         None \<Rightarrow> []
       | Some name \<Rightarrow> if name \<notin> set in_use then [] else List.map_filter id (unwrap_or (ni_ipam net) [])) networks))"

definition subnets_with_portman_containers ::
  "docker_error + listed_container list \<Rightarrow> docker_error + network_info list \<Rightarrow> docker_error + string list" where
  "subnets_with_portman_containers containers networks =
     and_then containers (\<lambda>cs.
       let in_use = health_networks cs in
       if in_use = [] then Inr [] else and_then networks (\<lambda>nets. Inr (health_subnets in_use nets)))"

definition parse_route_interface :: "string \<Rightarrow> string option" where
  "parse_route_interface line =
     (case strip_prefix ''interface:'' (trim_start line) of
        None \<Rightarrow> None
      | Some raw \<Rightarrow> if starts_with ''utun'' (trim raw) then Some (trim raw) else None)"

definition route_utun_for_subnet :: "(string \<Rightarrow> string + route_output) \<Rightarrow> string \<Rightarrow> string option" where
  "route_utun_for_subnet get subnet =
     (case get (before_char CHR ''/'' subnet) of
        Inl _ \<Rightarrow> None
      | Inr out \<Rightarrow>
          if ro_success out
          then hd (filter (\<lambda>i. i \<noteq> None) (map parse_route_interface (str_lines (from_utf8_lossy (ro_stdout out)))) @ [None])
          else None)"

definition classify_route_interface :: "(string \<Rightarrow> nat option) \<Rightarrow> string option \<Rightarrow> nat option \<Rightarrow> route_state" where
  "classify_route_interface index iface expected =
     (case iface of
        None \<Rightarrow> RouteMissing
      | Some iface \<Rightarrow>
          (case index iface of
             None \<Rightarrow> RouteDead
           | Some i \<Rightarrow> if (case expected of Some x \<Rightarrow> x \<noteq> i | None \<Rightarrow> False) then RouteMissing else RouteLive))"

text \<open>The loop over the subnets: a dead route ends it, a missing one is remembered.\<close>

fun assess_routes :: "(string \<Rightarrow> route_state) \<Rightarrow> string list \<Rightarrow> bool \<Rightarrow> bridge_assessment" where
  "assess_routes st [] missing = (if missing then BridgeRoutesMissing else BridgeHealthy)"
| "assess_routes st (subnet # subnets) missing =
     (case st subnet of
        RouteLive \<Rightarrow> assess_routes st subnets missing
      | RouteDead \<Rightarrow> BridgeTunnelDead
      | RouteMissing \<Rightarrow> assess_routes st subnets True)"

definition assess_bridge ::
  "docker_error + listed_container list \<Rightarrow> docker_error + network_info list \<Rightarrow>
   (string \<Rightarrow> string + route_output) \<Rightarrow> (string \<Rightarrow> nat option) \<Rightarrow> nat option \<Rightarrow> bridge_assessment" where
  "assess_bridge containers networks get index expected =
     (case subnets_with_portman_containers containers networks of
        Inl _ \<Rightarrow> BridgeOffline
      | Inr subnets \<Rightarrow>
          if subnets = [] then BridgeHealthy
          else assess_routes (\<lambda>subnet. classify_route_interface index (route_utun_for_subnet get subnet) expected)
                 subnets False)"

text \<open>The outcome does not depend on the order of the subnets: dead outranks missing, missing live.\<close>

lemma assess_routes_eq:
  "assess_routes st subnets missing =
     (if RouteDead \<in> st ` set subnets then BridgeTunnelDead
      else if missing \<or> RouteMissing \<in> st ` set subnets then BridgeRoutesMissing else BridgeHealthy)"
  by (induction subnets arbitrary: missing) (auto split: route_state.splits)

text \<open>
  While the bridge is up, it is called healthy only if every subnet of a labelled container is routed
  over an interface with its index.
\<close>

lemma healthy_routes_over_bridge:
  assumes "assess_bridge containers networks get index (Some i) = BridgeHealthy"
    and "subnets_with_portman_containers containers networks = Inr subnets" and "subnet \<in> set subnets"
  shows "\<exists>iface. route_utun_for_subnet get subnet = Some iface \<and> index iface = Some i"
proof -
  let ?st = "\<lambda>subnet. classify_route_interface index (route_utun_for_subnet get subnet) (Some i)"
  from assms have "subnets \<noteq> []" by auto
  with assms have "RouteDead \<notin> ?st ` set subnets" "RouteMissing \<notin> ?st ` set subnets"
    by (auto simp: assess_bridge_def assess_routes_eq split: if_splits)
  with assms(3) have "?st subnet = RouteLive" by (cases "?st subnet") (auto simp: image_iff)
  then show ?thesis by (auto simp: classify_route_interface_def split: option.splits if_splits)
qed

section \<open>Container-facing listeners\<close>

definition HOST_TUNNEL_IP :: string where "HOST_TUNNEL_IP = ''192.168.99.1''"
definition CONTAINER_DNS_PORT :: nat where "CONTAINER_DNS_PORT = 53"

record facing_addrs =
  cf_dns :: "string \<times> nat"
  cf_http :: "string \<times> nat"
  cf_tls :: "string \<times> nat"

definition container_facing_addrs :: "nat \<Rightarrow> nat \<Rightarrow> facing_addrs" where
  "container_facing_addrs http_port tls_port =
     \<lparr>cf_dns = (HOST_TUNNEL_IP, CONTAINER_DNS_PORT), cf_http = (HOST_TUNNEL_IP, http_port), cf_tls = (HOST_TUNNEL_IP, tls_port)\<rparr>"

datatype facing_action = SpawnServices facing_addrs | AbortServices

text \<open>
  Each turn of the task reads the latest value of the channel; \<open>None\<close> says that the sender is gone.
  The state is whether the three listeners run.
\<close>

fun host_facing_step :: "facing_addrs \<Rightarrow> bool \<Rightarrow> bool \<Rightarrow> bool \<times> facing_action list" where
  "host_facing_step addrs running want_up =
     (if \<not> running \<and> want_up then (True, [SpawnServices addrs])
      else if running \<and> \<not> want_up then (False, [AbortServices])
      else (running, []))"

fun host_facing_run :: "facing_addrs \<Rightarrow> bool \<Rightarrow> bool option list \<Rightarrow> facing_action list" where
  "host_facing_run addrs running [] = []"
| "host_facing_run addrs running (None # _) = (if running then [AbortServices] else [])"
| "host_facing_run addrs running (Some want_up # seen) =
     (case host_facing_step addrs running want_up of
        (running', acts) \<Rightarrow> acts @ host_facing_run addrs running' seen)"

definition retry_delay :: "nat \<Rightarrow> nat" where
  "retry_delay attempt = (if attempt < 5 then 2 else 10)"

text \<open>Never two sets of listeners, and none left when the daemon exits.\<close>

fun alternating :: "bool \<Rightarrow> facing_action list \<Rightarrow> bool" where
  "alternating running [] \<longleftrightarrow> True"
| "alternating running (SpawnServices _ # acts) \<longleftrightarrow> \<not> running \<and> alternating True acts"
| "alternating running (AbortServices # acts) \<longleftrightarrow> running \<and> alternating False acts"

lemma host_facing_alternates: "alternating running (host_facing_run addrs running seen)"
  by (induction addrs running seen rule: host_facing_run.induct) (auto split: prod.splits if_splits)

lemma host_facing_ends_stopped:
  "host_facing_run addrs running (map Some seen @ [None]) \<noteq> [] \<Longrightarrow>
   last (host_facing_run addrs running (map Some seen @ [None])) = AbortServices"
proof (induction seen arbitrary: running)
  case (Cons w seen)
  let ?rest = "\<lambda>r. host_facing_run addrs r (map Some seen @ [None])"
  have "?rest True \<noteq> []"
    by (induction seen) (auto split: if_splits)
  with Cons show ?case by (auto split: if_splits)
qed (auto split: if_splits)

end
