(* ===== verification/Watch.thy ===== *)
theory Watch
  imports Supervisor
begin

text \<open>
  File watching, \<open>portman-daemon/src/watch.rs\<close>: from the patterns of a service to the directories
  its back end watches, and from the back end's batches to the respawn requests the runner reads. The
  \<open>notify\<close> back ends are parameters: which directories exist, which calls succeed, which batches come.
\<close>

section \<open>Paths\<close>

text \<open>
  Paths are compared by their components: repeated and trailing slashes do not count, nor does a
  \<open>.\<close> other than a leading one. \<open>path_value\<close> is the spelling without them.
\<close>

definition path_value :: "path \<Rightarrow> path" where
  "path_value p =
     (let parts = split_on CHR ''/'' p; kept = filter (\<lambda>c. c \<noteq> [] \<and> c \<noteq> ''.'') parts
      in if is_absolute p then ''/'' @ join_str ''/'' kept
         else join_str ''/'' (if hd parts = ''.'' then ''.'' # kept else kept))"

section \<open>Which directories are watched\<close>

record watch_env =
  wv_is_dir :: "path \<Rightarrow> bool"
  wv_watch_ok :: "path \<Rightarrow> bool"
  wv_unwatch_ok :: "path \<Rightarrow> bool"

definition is_glob_char :: "char \<Rightarrow> bool" where
  "is_glob_char c \<longleftrightarrow> c = CHR ''*'' \<or> c = CHR ''?'' \<or> c = CHR ''[''"

definition literal_prefix :: "path \<Rightarrow> path" where
  "literal_prefix pattern = takeWhile (\<lambda>c. \<not> is_glob_char c) pattern"

definition watch_root :: "(path \<Rightarrow> bool) \<Rightarrow> path \<Rightarrow> path option" where
  "watch_root is_dir pattern =
     (if is_dir pattern then Some (path_value pattern)
      else (let base = literal_prefix pattern;
                dir = (if is_dir base then base else unwrap_or (path_parent (path_value base)) ''.'')
            in if is_dir dir then Some (path_value dir) else None))"

definition watch_roots :: "(path \<Rightarrow> bool) \<Rightarrow> path list \<Rightarrow> path list" where
  "watch_roots is_dir patterns = remdups (List.map_filter (watch_root is_dir) patterns)"

section \<open>The watcher of a service\<close>

text \<open>
  \<open>wt_watched\<close> is the task's own set, \<open>wt_backend\<close> what the back end has registered, \<open>wt_pending\<close> the
  channel of capacity one between the two, \<open>wt_generation\<close> the counter the runner selects on.
\<close>

record watcher =
  wt_patterns :: "path list"
  wt_watched :: "path list"
  wt_backend :: "path list"
  wt_pending :: bool
  wt_generation :: u64

definition rewatch :: "watch_env \<Rightarrow> watcher \<Rightarrow> watcher" where
  "rewatch env w =
     (let wanted = watch_roots (wv_is_dir env) (wt_patterns w);
          new = filter (\<lambda>r. r \<notin> set (wt_watched w)) wanted;
          gone = filter (\<lambda>r. r \<notin> set wanted) (wt_watched w);
          added = wt_backend w @ filter (wv_watch_ok env) new
      in w\<lparr>wt_backend := filter (\<lambda>r. r \<notin> set gone \<or> \<not> wv_unwatch_ok env r) added, wt_watched := wanted\<rparr>)"

definition spawn_watcher :: "watch_env \<Rightarrow> bool \<Rightarrow> path list \<Rightarrow> u64 \<Rightarrow> watcher option" where
  "spawn_watcher env built patterns generation =
     (if patterns = [] \<or> \<not> built then None
      else Some (rewatch env \<lparr>wt_patterns = patterns, wt_watched = [], wt_backend = [], wt_pending = False, wt_generation = generation\<rparr>))"

datatype event_kind = EvCreate | EvModify | EvRemove | EvAccess | EvOther

fun relevant :: "event_kind \<Rightarrow> bool" where
  "relevant EvCreate = True"
| "relevant EvModify = True"
| "relevant EvRemove = True"
| "relevant _ = False"

datatype watch_event =
  WatchBatch "event_kind list option"  \<comment> \<open>\<open>None\<close>: the debouncer reports errors\<close>
| WatchTask watch_env  \<comment> \<open>the task is polled, in the file system as it is then\<close>

fun relevant_batch :: "watch_event \<Rightarrow> bool" where
  "relevant_batch (WatchBatch (Some kinds)) = list_ex relevant kinds"
| "relevant_batch _ = False"

fun watcher_step :: "watcher \<Rightarrow> watch_event \<Rightarrow> watcher" where
  "watcher_step w (WatchBatch b) = (if relevant_batch (WatchBatch b) then w\<lparr>wt_pending := True\<rparr> else w)"
| "watcher_step w (WatchTask env) =
     (if wt_pending w
      then (rewatch env (w\<lparr>wt_pending := False\<rparr>))\<lparr>wt_generation := wt_generation w + 1\<rparr>
      else w)"

definition watcher_run :: "watcher \<Rightarrow> watch_event list \<Rightarrow> watcher" where
  "watcher_run w evs = foldl watcher_step w evs"

section \<open>Changes are neither lost nor multiplied\<close>

fun is_task :: "watch_event \<Rightarrow> bool" where
  "is_task (WatchTask _) = True"
| "is_task _ = False"

text \<open>The respawn requests of a run, and whether one is pending at its end.\<close>

fun requests_of :: "bool \<Rightarrow> watch_event list \<Rightarrow> nat \<times> bool" where
  "requests_of pending [] = (0, pending)"
| "requests_of pending (e # es) =
     (if is_task e then (if pending then (case requests_of False es of (n, p) \<Rightarrow> (Suc n, p)) else requests_of False es)
      else requests_of (pending \<or> relevant_batch e) es)"

lemma rewatch_keeps [simp]:
  "wt_pending (rewatch env w) = wt_pending w" "wt_patterns (rewatch env w) = wt_patterns w"
  "wt_generation (rewatch env w) = wt_generation w"
  by (simp_all add: rewatch_def Let_def)

lemma run_requests:
  "wt_generation (watcher_run w evs) = wt_generation w + of_nat (fst (requests_of (wt_pending w) evs)) \<and>
   wt_pending (watcher_run w evs) = snd (requests_of (wt_pending w) evs)"
proof (induction evs arbitrary: w)
  case Nil
  then show ?case by (simp add: watcher_run_def)
next
  case (Cons e evs)
  have run: "watcher_run w (e # evs) = watcher_run (watcher_step w e) evs" for e by (simp add: watcher_run_def)
  show ?case
  proof (cases e)
    case (WatchBatch b)
    with Cons.IH [of "watcher_step w e"] show ?thesis by (cases "relevant_batch e") (simp_all add: run)
  next
    case (WatchTask env)
    with Cons.IH [of "watcher_step w e"] show ?thesis
      by (cases "wt_pending w") (auto simp: run split: prod.split)
  qed
qed

lemma requests_at_most: "fst (requests_of p evs) + (if snd (requests_of p evs) then 1 else 0) \<le>
    (if p then 1 else 0) + length (filter relevant_batch evs)"
proof (induction evs arbitrary: p)
  case (Cons e evs)
  have "\<not> relevant_batch e" if "is_task e" using that by (cases e) auto
  with Cons.IH [of False] Cons.IH [of "p \<or> relevant_batch e"] show ?case by (auto split: prod.splits if_splits)
qed simp

lemma requests_append: "requests_of p (xs @ ys) = (case requests_of p xs of (n, q) \<Rightarrow> case requests_of q ys of (m, r) \<Rightarrow> (n + m, r))"
  by (induction xs arbitrary: p) (auto split: prod.splits)

lemma pending_until_task: "(\<forall>e \<in> set evs. \<not> is_task e) \<Longrightarrow> requests_of True evs = (0, True)"
  by (induction evs) auto

lemma task_clears: "\<exists>e \<in> set evs. is_task e \<Longrightarrow> fst (requests_of True evs) \<ge> 1"
proof (induction evs)
  case (Cons e evs)
  show ?case
  proof (cases "is_task e")
    case True
    then show ?thesis by (simp split: prod.split)
  next
    case False
    with Cons show ?thesis by simp
  qed
qed simp

text \<open>
  C21: The respawn requests of a watcher are those of its relevant batches: there are never more of
  them, and after a batch with a change the next poll of the task makes one, whatever came between.
\<close>

theorem changes_request_respawns:
  "wt_generation (watcher_run w evs) = wt_generation w + of_nat (fst (requests_of (wt_pending w) evs)) \<and>
   fst (requests_of (wt_pending w) evs) \<le> (if wt_pending w then 1 else 0) + length (filter relevant_batch evs) \<and>
   (list_ex is_task later \<and> relevant_batch e \<longrightarrow>
      fst (requests_of (wt_pending w) evs) < fst (requests_of (wt_pending w) (evs @ e # later)))"
proof -
  have "fst (requests_of p evs) < fst (requests_of p (evs @ e # later))"
    if later: "list_ex is_task later" "relevant_batch e" for p
  proof -
    obtain n q where evs: "requests_of p evs = (n, q)" by (cases "requests_of p evs")
    have "\<not> is_task e" using later(2) by (cases e) auto
    then have "requests_of q (e # later) = requests_of True later" using later(2) by simp
    moreover have "fst (requests_of True later) \<ge> 1" using later(1) by (intro task_clears) (simp add: list_ex_iff)
    ultimately show ?thesis using evs by (auto simp: requests_append split: prod.split)
  qed
  with run_requests [of w evs] requests_at_most [of "wt_pending w" evs] show ?thesis
    by (metis add_leE)
qed

definition example_watch_env :: watch_env where
  "example_watch_env = \<lparr>wv_is_dir = (\<lambda>p. path_value p = ''/w/bin''), wv_watch_ok = (\<lambda>_. True), wv_unwatch_ok = (\<lambda>_. True)\<rparr>"

definition example_watcher :: watcher where
  "example_watcher = \<lparr>wt_patterns = [''/w/bin/*''], wt_watched = [''/w/bin''], wt_backend = [''/w/bin''], wt_pending = False, wt_generation = 3\<rparr>"

lemma example_spawned: "spawn_watcher example_watch_env True [''/w/bin/*''] 3 = Some example_watcher"
  by code_simp

theorem changes_request_respawns_witness:
  "wt_generation (watcher_run example_watcher [WatchBatch (Some [EvAccess, EvModify]), WatchTask example_watch_env]) = 4 \<and>
   0 < fst (requests_of False [WatchBatch (Some [EvAccess, EvModify]), WatchTask example_watch_env])"
proof -
  let ?evs = "[WatchBatch (Some [EvAccess, EvModify]), WatchTask example_watch_env]"
  have "wt_generation (watcher_run example_watcher ?evs) = wt_generation example_watcher + of_nat (fst (requests_of (wt_pending example_watcher) ?evs))"
    and "fst (requests_of (wt_pending example_watcher) []) < fst (requests_of (wt_pending example_watcher) ?evs)"
    using changes_request_respawns [of example_watcher ?evs "[]" "WatchBatch None"]
      changes_request_respawns [of example_watcher "[]" "[WatchTask example_watch_env]" "WatchBatch (Some [EvAccess, EvModify])"] by simp_all
  then show ?thesis by (simp add: example_watcher_def)
qed

text \<open>After every request the task's set is what the patterns resolve to in the file system of then.\<close>

lemma rewatch_watches: "wt_watched (rewatch env w) = watch_roots (wv_is_dir env) (wt_patterns w)"
  by (simp add: rewatch_def Let_def)

lemma rewatch_registers:
  assumes "\<forall>r. wv_watch_ok env r" and "\<forall>r. wv_unwatch_ok env r" and "set (wt_backend w) = set (wt_watched w)"
  shows "set (wt_backend (rewatch env w)) = set (wt_watched (rewatch env w))"
  using assms by (auto simp: rewatch_def Let_def)

section \<open>Findings\<close>

text \<open>A directory whose registration fails is taken for watched, and never tried again while it is wanted.\<close>

lemma failed_watch_is_not_retried:
  assumes "watch_roots (wv_is_dir env) (wt_patterns w) = wt_watched w"
  shows "rewatch env w = w"
  using assms by (auto simp: rewatch_def Let_def)

text \<open>
  The directories are resolved again only after a batch: a service none of whose directories exists
  at its start has a watcher that nothing can wake.
\<close>

lemma missing_directories_are_never_watched:
  assumes "spawn_watcher env True patterns g = Some w" and "\<forall>p \<in> set patterns. watch_root (wv_is_dir env) p = None"
    and "\<not> list_ex relevant_batch evs"
  shows "wt_backend (watcher_run w evs) = []"
proof -
  have w: "wt_backend w = []" "\<not> wt_pending w"
    using assms(1,2) by (auto simp: spawn_watcher_def rewatch_def watch_roots_def List.map_filter_def Let_def split: if_splits)
  have "watcher_run w evs = w" if "\<not> wt_pending w" for w
    using assms(3) that
  proof (induction evs arbitrary: w)
    case (Cons e evs)
    then show ?case by (cases e) (auto simp: watcher_run_def)
  qed (simp add: watcher_run_def)
  with w show ?thesis by simp
qed

end
