(* ===== verification/Dashboard.thy ===== *)
theory Dashboard
  imports Proxy Watch
begin

text \<open>
  The dashboard's HTTP API, \<open>portman-daemon/src/dashboard.rs\<close> and \<open>dashboard_auth.rs\<close>: one
  connection from its first read to its answer, over the daemon's handlers. \<open>httparse\<close>, the JSON
  readers of the request bodies, TOML and shell parsing are parameters, as are the repositories'
  config files and which of their file-system calls fails. What a slice out of range does to the
  connection's task is an outcome of its own.
\<close>

section \<open>Authority\<close>

text \<open>\<open>host_is_local\<close>: a trailing port is dropped, then brackets.\<close>

definition strip_port :: "string \<Rightarrow> string" where
  "strip_port host =
     (case rsplit_once CHR '':'' host of
        Some (h, p) \<Rightarrow> if p \<noteq> [] \<and> list_all is_ascii_digit p then h else host
      | None \<Rightarrow> host)"

definition strip_brackets :: "string \<Rightarrow> string" where
  "strip_brackets s = rev (dropWhile (\<lambda>c. c = CHR '']'') (rev (dropWhile (\<lambda>c. c = CHR ''['') s)))"

definition local_hosts :: "string list" where
  "local_hosts = [''127.0.0.1'', ''localhost'', ''::1'', dashboard_host]"

definition host_is_local :: "string option \<Rightarrow> bool" where
  "host_is_local host \<longleftrightarrow>
     (case host of None \<Rightarrow> False | Some h \<Rightarrow> strip_brackets (strip_port (trim h)) \<in> set local_hosts)"

definition origin_is_local :: "string \<Rightarrow> bool" where
  "origin_is_local origin \<longleftrightarrow>
     (case or_opt (strip_prefix ''http://'' origin) (strip_prefix ''https://'' origin) of
        Some host_port \<Rightarrow> host_is_local (Some host_port)
      | None \<Rightarrow> False)"

definition token_from_query :: "string \<Rightarrow> string option" where
  "token_from_query path =
     (case split_once CHR ''?'' path of
        None \<Rightarrow> None
      | Some (_, query) \<Rightarrow>
          (case filter (starts_with ''token='') (split_on CHR ''&'' query) of
             pair # _ \<Rightarrow> strip_prefix ''token='' pair
           | [] \<Rightarrow> None))"

definition dashboard_authorize :: "string \<Rightarrow> string option \<Rightarrow> string \<Rightarrow> bool" where
  "dashboard_authorize path authorization token \<longleftrightarrow>
     (if \<not> starts_with ''/api/'' path then True
      else (case or_opt (map_option trim (Option.bind authorization (strip_prefix ''Bearer ''))) (token_from_query path) of
              Some presented \<Rightarrow> presented = token
            | None \<Rightarrow> False))"

text \<open>
  \<open>load_or_create\<close>: a token already there, or a fresh one (its random bytes in hex) written to a
  temporary file that is renamed into place. The fault names the call that fails.
\<close>

type_synonym repo_files = "path \<Rightarrow> read_result"

definition hex_digit :: "nat \<Rightarrow> char" where
  "hex_digit n = (''0123456789abcdef'' ! (n mod 16))"

definition hex_encode :: "u8 list \<Rightarrow> string" where
  "hex_encode bytes = concat (map (\<lambda>b. [hex_digit (unat b div 16), hex_digit (unat b)]) bytes)"

datatype token_fault = TokenWritten | TokenParentFails | TokenOpenFails | TokenWriteFails string | TokenModeOrRenameFails

definition write_private :: "token_fault \<Rightarrow> path \<Rightarrow> path \<Rightarrow> string \<Rightarrow> repo_files \<Rightarrow> bool \<times> repo_files" where
  "write_private fault path tmp token files =
     (case fault of
        TokenParentFails \<Rightarrow> (False, files)
      | TokenOpenFails \<Rightarrow> (False, files)
      | TokenWriteFails part \<Rightarrow> (False, files(tmp := ReadOk part))
      | TokenModeOrRenameFails \<Rightarrow> (False, files(tmp := ReadOk token))
      | TokenWritten \<Rightarrow> (True, files(tmp := ReadNotFound, path := ReadOk token)))"

definition load_or_create ::
  "token_fault \<Rightarrow> path \<Rightarrow> path \<Rightarrow> u8 list \<Rightarrow> repo_files \<Rightarrow> string option \<times> repo_files" where
  "load_or_create fault path tmp bytes files =
     (let fresh = (case write_private fault path tmp (hex_encode bytes) files of
                     (ok, files) \<Rightarrow> (if ok then Some (hex_encode bytes) else None, files))
      in case files path of
           ReadOk existing \<Rightarrow> if trim existing \<noteq> [] then (Some (trim existing), files) else fresh
         | _ \<Rightarrow> fresh)"

lemma trim_front_other:
  assumes "\<forall>w \<in> set ws. w \<noteq> [] \<and> hd w \<notin> set s"
  shows "trim_front ws s = s"
proof -
  have "\<not> starts_with w s" if "w \<in> set ws" for w
    using assms that by (cases w) (auto simp: starts_with_iff)
  then show ?thesis by (intro trim_front_id) (simp add: strip_any_None)
qed

lemma trim_hex: "trim (hex_encode bytes) = hex_encode bytes"
proof -
  let ?digits = "set ''0123456789abcdef''"
  have "hex_digit n \<in> ?digits" for n unfolding hex_digit_def by (rule nth_mem) simp
  then have digits: "set (hex_encode bytes) \<subseteq> ?digits" unfolding hex_encode_def by auto
  have "\<forall>w \<in> set ws_seqs. w \<noteq> [] \<and> hd w \<notin> ?digits \<and> hd (rev w) \<notin> ?digits" by code_simp
  with digits have "\<forall>w \<in> set ws_seqs. w \<noteq> [] \<and> hd w \<notin> set (hex_encode bytes)"
    and "\<forall>w \<in> set (map rev ws_seqs). w \<noteq> [] \<and> hd w \<notin> set (rev (hex_encode bytes))" by auto
  then show ?thesis by (simp add: trim_def trim_start_def trim_end_def trim_front_other)
qed

text \<open>A token is never blank, and the next start finds the one this start has used.\<close>

lemma token_is_stable:
  assumes "load_or_create fault path tmp bytes files = (Some token, files')" and "bytes \<noteq> []"
  shows "token \<noteq> [] \<and> load_or_create fault' path tmp bytes' files' = (Some token, files')"
proof -
  have "hex_encode bytes \<noteq> []" using assms(2) by (cases bytes) (simp_all add: hex_encode_def)
  then show ?thesis using assms(1) trim_hex [of bytes]
    by (auto simp: load_or_create_def write_private_def Let_def split: read_result.splits if_splits token_fault.splits)
qed

section \<open>Reading a request\<close>

definition MAX_HEADER_BYTES :: nat where "MAX_HEADER_BYTES = 8192"
definition MAX_BODY_BYTES :: nat where "MAX_BODY_BYTES = 65536"

datatype dash_error =
  DashParse | DashBodyTooLarge nat | DashHeadersTooLong | DashMidHeaders | DashMidBody nat | DashReadFailed | DashTimeout

datatype dash_read = DashNothing | DashFailed dash_error | DashRequest string

definition content_len :: "http_head \<Rightarrow> nat" where
  "content_len h =
     (case text_header (hh_headers h) ''content-length'' of
        Some v \<Rightarrow> unwrap_or (parse_uint 10 18446744073709551615 (trim v)) 0
      | None \<Rightarrow> 0)"

fun read_dash_body :: "nat \<Rightarrow> nat \<Rightarrow> string \<Rightarrow> client_read list \<Rightarrow> dash_read" where
  "read_dash_body target hlen buf [] =
     (if target \<le> length buf then DashRequest (take target buf) else DashFailed (DashMidBody (length buf - hlen)))"
| "read_dash_body target hlen buf (r # rs) =
     (if target \<le> length buf then DashRequest (take target buf)
      else (case r of
              ClientBytes d \<Rightarrow>
                if d = [] then DashFailed (DashMidBody (length buf - hlen)) else read_dash_body target hlen (buf @ d) rs
            | ClientFails \<Rightarrow> DashFailed DashReadFailed
            | ClientStalls \<Rightarrow> DashFailed DashTimeout))"

definition dash_head_step :: "(string \<Rightarrow> http_parse) \<Rightarrow> string \<Rightarrow> client_read list \<Rightarrow> dash_read option" where
  "dash_head_step parse buf rs =
     (case parse buf of
        HpComplete n h \<Rightarrow>
          Some (if content_len h > MAX_BODY_BYTES then DashFailed (DashBodyTooLarge (content_len h))
                else read_dash_body (n + content_len h) n buf rs)
      | HpError \<Rightarrow> Some (DashFailed DashParse)
      | HpPartial \<Rightarrow> if length buf \<ge> MAX_HEADER_BYTES then Some (DashFailed DashHeadersTooLong) else None)"

fun read_http_request :: "(string \<Rightarrow> http_parse) \<Rightarrow> string \<Rightarrow> client_read list \<Rightarrow> dash_read" where
  "read_http_request parse buf [] =
     (case dash_head_step parse buf [] of
        Some r \<Rightarrow> r
      | None \<Rightarrow> if buf = [] then DashNothing else DashFailed DashMidHeaders)"
| "read_http_request parse buf (r # rs) =
     (case dash_head_step parse buf (r # rs) of
        Some res \<Rightarrow> res
      | None \<Rightarrow>
          (case r of
             ClientBytes d \<Rightarrow>
               if d = [] then (if buf = [] then DashNothing else DashFailed DashMidHeaders)
               else read_http_request parse (buf @ d) rs
           | ClientFails \<Rightarrow> DashFailed DashReadFailed
           | ClientStalls \<Rightarrow> DashFailed DashTimeout))"

section \<open>Paths and queries\<close>

text \<open>\<open>String::push\<close> of a byte taken as a character: above ASCII, the two bytes of its UTF-8.\<close>

definition push_byte :: "nat \<Rightarrow> string" where
  "push_byte v = (if v < 128 then [char_of v] else [char_of (192 + v div 64), char_of (128 + v mod 64)])"

fun url_decode :: "string \<Rightarrow> string" where
  "url_decode (c # a # b # rest) =
     (case (if c = CHR ''%'' then parse_uint 16 255 [a, b] else None) of
        Some v \<Rightarrow> push_byte v @ url_decode rest
      | None \<Rightarrow> push_byte (byte c) @ url_decode (a # b # rest))"
| "url_decode (c # rest) = push_byte (byte c) @ url_decode rest"
| "url_decode [] = []"

definition parse_i64 :: "string \<Rightarrow> int option" where
  "parse_i64 s =
     (case s of
        c # r \<Rightarrow>
          if c = CHR ''-'' then
            (if r \<noteq> [] \<and> hd r = CHR ''+'' then None
             else map_option (\<lambda>n. - int n) (parse_uint 10 9223372036854775808 r))
          else map_option int (parse_uint 10 9223372036854775807 s)
      | [] \<Rightarrow> None)"

definition logs_query_pair :: "int option \<times> u32 \<Rightarrow> string \<Rightarrow> int option \<times> u32" where
  "logs_query_pair st pair =
     (case split_once CHR ''='' pair of
        None \<Rightarrow> st
      | Some (key, val) \<Rightarrow>
          if key = ''after'' then (parse_i64 val, snd st)
          else if key = ''limit'' then (fst st, unwrap_or (map_option of_nat (parse_uint 10 4294967295 val)) 200)
          else st)"

definition parse_logs_query :: "string \<Rightarrow> int option \<times> u32" where
  "parse_logs_query query = foldl logs_query_pair (None, 200) (split_on CHR ''&'' query)"

fun first_root :: "string list \<Rightarrow> path option" where
  "first_root [] = None"
| "first_root (pair # pairs) =
     (case split_once CHR ''='' pair of
        Some (key, val) \<Rightarrow> if key = ''root'' then Some (url_decode val) else first_root pairs
      | None \<Rightarrow> first_root pairs)"

text \<open>A root from a request is taken in the spelling of the roots the supervisor holds, as \<open>Path\<close> compares.\<close>

definition config_query_root :: "string \<Rightarrow> path option" where
  "config_query_root query = map_option path_value (first_root (split_on CHR ''&'' query))"

section \<open>Which request a path makes\<close>

datatype batch_kind = BatchUp | BatchDown | BatchForget

fun batch_request :: "batch_kind \<Rightarrow> string list \<Rightarrow> request" where
  "batch_request BatchUp names = ReqServiceUp names"
| "batch_request BatchDown names = ReqServiceDown names"
| "batch_request BatchForget names = ReqForgetServices names"

datatype dash_action =
  ActAsset string
| ActStatus
| ActRequest request
| ActRestart string
| ActAddStatic
| ActBatch batch_kind
| ActConfigGet
| ActConfigPost
| ActSetSecret string
| ActSetBlock string
| ActCredentials string
| ActNotFound
| ActPanic  \<comment> \<open>a slice that begins after its end\<close>

text \<open>\<open>&s[a..b]\<close>, and the decoded segment between a prefix and a suffix the path is known to have.\<close>

definition slice :: "nat \<Rightarrow> nat \<Rightarrow> string \<Rightarrow> string option" where
  "slice a b s = (if a \<le> b \<and> b \<le> length s then Some (take (b - a) (drop a s)) else None)"

definition segment :: "string \<Rightarrow> string \<Rightarrow> string \<Rightarrow> string option" where
  "segment pre suf path = map_option url_decode (slice (length pre) (length path - length suf) path)"

definition with_segment :: "string \<Rightarrow> string \<Rightarrow> string \<Rightarrow> (string \<Rightarrow> dash_action) \<Rightarrow> dash_action" where
  "with_segment pre suf path act = (case segment pre suf path of Some s \<Rightarrow> act s | None \<Rightarrow> ActPanic)"

definition between :: "string \<Rightarrow> string \<Rightarrow> string \<Rightarrow> bool" where
  "between pre suf path \<longleftrightarrow> starts_with pre path \<and> ends_with suf path"

definition get_action :: "string \<Rightarrow> string \<Rightarrow> dash_action" where
  "get_action path query =
     (if path = ''/'' \<or> path = ''/index.html'' then ActAsset ''index.html''
      else if path = ''/style.css'' then ActAsset ''style.css''
      else if path = ''/app.js'' then ActAsset ''app.js''
      else if path = ''/api/status'' then ActStatus
      else if path = ''/api/entries'' then ActRequest ReqListEntries
      else if path = ''/api/tlds'' then ActRequest ReqTldList
      else if path = ''/api/certs'' then ActRequest ReqCertHealth
      else if path = ''/api/resources'' then ActRequest ReqResourceUsage
      else if path = ''/api/resources/history'' then ActRequest ReqResourceHistory
      else if path = ''/api/services'' then ActRequest ReqServiceStatus
      else if between ''/api/services/'' ''/logs'' path then
        with_segment ''/api/services/'' ''/logs'' path (\<lambda>service.
          case parse_logs_query query of (after_id, limit) \<Rightarrow> ActRequest (ReqLogsQuery service after_id limit))
      else if path = ''/api/config'' then ActConfigGet
      else if path = ''/api/secrets'' then ActRequest ReqSecretsStatus
      else ActNotFound)"

definition post_action :: "string \<Rightarrow> dash_action" where
  "post_action path =
     (if path = ''/api/static'' then ActAddStatic
      else if path = ''/api/config'' then ActConfigPost
      else if path = ''/api/services/up'' then ActBatch BatchUp
      else if path = ''/api/services/down'' then ActBatch BatchDown
      else if path = ''/api/services/forget'' then ActBatch BatchForget
      else if between ''/api/service/'' ''/up'' path then
        with_segment ''/api/service/'' ''/up'' path (\<lambda>name. ActRequest (ReqServiceUp [name]))
      else if between ''/api/service/'' ''/down'' path then
        with_segment ''/api/service/'' ''/down'' path (\<lambda>name. ActRequest (ReqServiceDown [name]))
      else if between ''/api/service/'' ''/restart'' path then
        with_segment ''/api/service/'' ''/restart'' path ActRestart
      else if between ''/api/services/'' ''/start'' path then
        with_segment ''/api/services/'' ''/start'' path (\<lambda>host. ActRequest (ReqStartService host))
      else if path = ''/api/secrets/infisical'' then ActCredentials ''infisical''
      else if path = ''/api/secrets/1password'' then ActCredentials ''1password''
      else ActNotFound)"

definition delete_action :: "string \<Rightarrow> dash_action" where
  "delete_action path =
     (if starts_with ''/api/static/'' path then
        with_segment ''/api/static/'' [] path (\<lambda>host. ActRequest (ReqRemoveStatic host))
      else if starts_with ''/api/secrets/local/'' path then
        with_segment ''/api/secrets/local/'' [] path (\<lambda>key. ActRequest (ReqUnsetLocalSecret key))
      else if starts_with ''/api/secrets/blocks/'' path then
        with_segment ''/api/secrets/blocks/'' [] path (\<lambda>name. ActRequest (ReqRemoveSecretsBlock name))
      else ActNotFound)"

definition put_action :: "string \<Rightarrow> dash_action" where
  "put_action path =
     (if starts_with ''/api/secrets/local/'' path then with_segment ''/api/secrets/local/'' [] path ActSetSecret
      else if starts_with ''/api/secrets/blocks/'' path then with_segment ''/api/secrets/blocks/'' [] path ActSetBlock
      else ActNotFound)"

definition dash_action_for :: "string \<Rightarrow> string \<Rightarrow> string \<Rightarrow> dash_action" where
  "dash_action_for meth path query =
     (if meth = ''GET'' then get_action path query
      else if meth = ''POST'' then post_action path
      else if meth = ''DELETE'' then delete_action path
      else if meth = ''PUT'' then put_action path
      else ActNotFound)"

section \<open>Answers\<close>

record add_body =
  ab_host :: string
  ab_target :: string
  ab_mode :: string
  ab_service :: "string option"

record edit_body =
  eb_root :: path
  eb_file :: string
  eb_content :: string

record credentials_body =
  kb_client_id :: "string option"
  kb_client_secret :: "redacted option"
  kb_token :: "redacted option"

datatype 'j dash_refusal =
  DashInvalidJson string
| DashInvalidBlock string
| DashMissingRoot
| DashUnknownRoot path
| DashUnknownFile
| DashBadConfig "'j load_config_error"
| DashWrite
| DashReread "'j load_config_error"
| DashApply "write_error sup_error"

text \<open>\<open>'u\<close> and \<open>'h\<close> as in the handlers; \<open>'j\<close> is an error of the TOML reader.\<close>

datatype ('u, 'h, 'j) dash_answer =
  DashPage nat string string  \<comment> \<open>status, content type, body\<close>
| DashResponse "('u, 'h) response"
| DashRefused "'j dash_refusal"
| DashConfigFiles path "(string \<times> string option) list"
| DashClosed
| DashBroken dash_error
| DashMissingAsset string
| DashPanic

datatype edit_fault = NoFault | StatFails | TmpWriteFails string | ChownFails | RenameFails

record ('u, 'h, 'j) dash_env =
  dh_parse :: "string \<Rightarrow> http_parse"
  dh_token :: "string option"
  dh_asset :: "string \<Rightarrow> (string \<times> string) option"
  dh_daemon :: daemon_env
  dh_call :: "('u, 'h) call_env"
  dh_call2 :: "('u, 'h) call_env"  \<comment> \<open>of the second request of a restart\<close>
  dh_names :: "string \<Rightarrow> string + string list"
  dh_add :: "string \<Rightarrow> string + add_body"
  dh_edit :: "string \<Rightarrow> string + edit_body"
  dh_secret :: "string \<Rightarrow> string + redacted"
  dh_credentials :: "string \<Rightarrow> string + credentials_body"
  dh_block :: "string \<Rightarrow> string + secrets_provider_config"
  dh_toml :: "string \<Rightarrow> 'j + raw_config"
  dh_shlex :: "string \<Rightarrow> string list option"
  dh_fault :: edit_fault

definition config_root_allowed :: "daemon \<Rightarrow> path \<Rightarrow> bool" where
  "config_root_allowed d root \<longleftrightarrow> root \<in> set (known_roots (dm_sv d))"

fun read_ok :: "read_result \<Rightarrow> string option" where
  "read_ok (ReadOk text) = Some text"
| "read_ok _ = None"

definition config_files :: "string list" where
  "config_files = [config_file, local_config_file]"

definition handle_config_get :: "string \<Rightarrow> daemon \<Rightarrow> repo_files \<Rightarrow> ('u, 'h, 'j) dash_answer" where
  "handle_config_get query d files =
     (case config_query_root query of
        None \<Rightarrow> DashRefused DashMissingRoot
      | Some root \<Rightarrow>
          if \<not> config_root_allowed d root then DashRefused (DashUnknownRoot root)
          else DashConfigFiles root (map (\<lambda>name. (name, read_ok (files (path_join root name)))) config_files))"

text \<open>
  Stat, write a temporary file beside the target, chown it, rename it over the target: the fault names
  the call that fails, with what a failing write has left.
\<close>

definition edit_tmp :: "path \<Rightarrow> string \<Rightarrow> path" where
  "edit_tmp root file_name = path_join root (''.'' @ file_name @ ''.portman-edit.tmp'')"

definition write_config_preserving_owner ::
  "edit_fault \<Rightarrow> path \<Rightarrow> string \<Rightarrow> string \<Rightarrow> repo_files \<Rightarrow> bool \<times> repo_files" where
  "write_config_preserving_owner fault root file_name content files =
     (let tmp = edit_tmp root file_name; target = path_join root file_name in
      case fault of
        StatFails \<Rightarrow> (False, files)
      | TmpWriteFails part \<Rightarrow> (False, files(tmp := ReadOk part))
      | ChownFails \<Rightarrow> (False, files(tmp := ReadOk content))
      | RenameFails \<Rightarrow> (False, files(tmp := ReadOk content))
      | NoFault \<Rightarrow> (True, files(tmp := ReadNotFound, target := ReadOk content)))"

text \<open>\<open>None\<close> would be a dependency search that does not return; it always does.\<close>

definition apply_config ::
  "('u, 'h, 'j) dash_env \<Rightarrow> path \<Rightarrow> daemon \<Rightarrow> repo_files \<Rightarrow> (('u, 'h, 'j) dash_answer \<times> daemon) option" where
  "apply_config de root d files =
     map_option (\<lambda>r. case r of
         Inl err \<Rightarrow> (DashRefused (DashReread err), d)
       | Inr config \<Rightarrow>
           (case sync (env_of d) (de_runtime (dh_daemon de)) (de_save (dh_daemon de)) root
                (map snd (sc_services config)) (sc_secrets config) (sc_egress config) (dm_sv d) (dm_fs d) of
              (r, sv, w) \<Rightarrow>
                (case r of Inr report \<Rightarrow> DashResponse (RespSyncReport report) | Inl e \<Rightarrow> DashRefused (DashApply e),
                 d\<lparr>dm_sv := sv, dm_fs := w\<rparr>)))
       (load_config (dh_toml de) (dh_shlex de) files root)"

definition edited_texts :: "edit_body \<Rightarrow> repo_files \<Rightarrow> string option \<times> string option" where
  "edited_texts edit files =
     (if eb_file edit = config_file
      then (Some (eb_content edit), read_ok (files (path_join (eb_root edit) local_config_file)))
      else (read_ok (files (path_join (eb_root edit) config_file)), Some (eb_content edit)))"

definition handle_config_post ::
  "('u, 'h, 'j) dash_env \<Rightarrow> string \<Rightarrow> daemon \<Rightarrow> repo_files
   \<Rightarrow> (('u, 'h, 'j) dash_answer \<times> daemon \<times> repo_files) option" where
  "handle_config_post de body d files =
     (case map_sum id (\<lambda>e. e\<lparr>eb_root := path_value (eb_root e)\<rparr>) (dh_edit de body) of
        Inl err \<Rightarrow> Some (DashRefused (DashInvalidJson err), d, files)
      | Inr edit \<Rightarrow>
          if eb_file edit \<notin> set config_files then Some (DashRefused DashUnknownFile, d, files)
          else if \<not> config_root_allowed d (eb_root edit) then Some (DashRefused (DashUnknownRoot (eb_root edit)), d, files)
          else (case edited_texts edit files of (committed, local) \<Rightarrow>
            (case load_from_strings (dh_toml de) (dh_shlex de) (eb_root edit) committed local of
               None \<Rightarrow> None
             | Some (Inl err) \<Rightarrow> Some (DashRefused (DashBadConfig err), d, files)
             | Some (Inr _) \<Rightarrow>
                 (case write_config_preserving_owner (dh_fault de) (eb_root edit) (eb_file edit) (eb_content edit) files of
                    (False, files) \<Rightarrow> Some (DashRefused DashWrite, d, files)
                  | (True, files) \<Rightarrow>
                      map_option (\<lambda>(ans, d). (ans, d, files)) (apply_config de (eb_root edit) d files)))))"

text \<open>A request over the handlers, and a body read as JSON first.\<close>

definition api_request ::
  "('u, 'h, 'j) dash_env \<Rightarrow> request \<Rightarrow> daemon \<Rightarrow> ('u, 'h, 'j) dash_answer \<times> daemon" where
  "api_request de req d = (case dispatch (dh_daemon de) (dh_call de) req d of (r, d) \<Rightarrow> (DashResponse r, d))"

definition json_request ::
  "('u, 'h, 'j) dash_env \<Rightarrow> (string \<Rightarrow> 'j dash_refusal) \<Rightarrow> string + 'b \<Rightarrow> ('b \<Rightarrow> request) \<Rightarrow> daemon
   \<Rightarrow> ('u, 'h, 'j) dash_answer \<times> daemon" where
  "json_request de bad parsed req d =
     (case parsed of Inl err \<Rightarrow> (DashRefused (bad err), d) | Inr x \<Rightarrow> api_request de (req x) d)"

definition add_request :: "add_body \<Rightarrow> request" where
  "add_request b =
     ReqAddStatic (ab_host b) (ab_target b) (if eq_ignore_ascii_case (ab_mode b) ''tcp'' then ModeTcp else ModeHttp)
       (case ab_service b of Some s \<Rightarrow> if trim s = [] then None else Some s | None \<Rightarrow> None) None"

definition restart_service ::
  "('u, 'h, 'j) dash_env \<Rightarrow> string \<Rightarrow> daemon \<Rightarrow> ('u, 'h, 'j) dash_answer \<times> daemon" where
  "restart_service de name d =
     (case dispatch (dh_daemon de) (dh_call de) (ReqServiceDown [name]) d of
        (RespErr err, d) \<Rightarrow> (DashResponse (RespErr err), d)
      | (_, d) \<Rightarrow>
          (case dispatch (dh_daemon de) (dh_call2 de) (ReqServiceUp [name]) d of (r, d) \<Rightarrow> (DashResponse r, d)))"

definition run_action ::
  "('u, 'h, 'j) dash_env \<Rightarrow> dash_action \<Rightarrow> string \<Rightarrow> string \<Rightarrow> daemon \<Rightarrow> ('u, 'h, 'j) dash_answer \<times> daemon" where
  "run_action de act query body d =
     (case act of
        ActAsset name \<Rightarrow>
          (case dh_asset de name of Some (mime, data) \<Rightarrow> DashPage 200 mime data | None \<Rightarrow> DashMissingAsset name, d)
      | ActStatus \<Rightarrow> (DashResponse (handle_status (dh_call de) d), d)
      | ActRequest req \<Rightarrow> api_request de req d
      | ActRestart name \<Rightarrow> restart_service de name d
      | ActAddStatic \<Rightarrow> json_request de DashInvalidJson (dh_add de body) add_request d
      | ActBatch kind \<Rightarrow> json_request de DashInvalidJson (dh_names de body) (batch_request kind) d
      | ActSetSecret key \<Rightarrow> json_request de DashInvalidJson (dh_secret de body) (ReqSetLocalSecret key) d
      | ActSetBlock name \<Rightarrow> json_request de DashInvalidBlock (dh_block de body) (ReqSetSecretsBlock name) d
      | ActCredentials provider \<Rightarrow>
          json_request de DashInvalidJson (dh_credentials de body)
            (\<lambda>b. ReqSetSecretsCredentials provider (kb_client_id b) (kb_client_secret b) (kb_token b)) d
      | ActPanic \<Rightarrow> (DashPanic, d)
      | _ \<Rightarrow> (DashPage 404 ''text/plain'' ''Not Found'', d))"

definition dash_perform ::
  "('u, 'h, 'j) dash_env \<Rightarrow> dash_action \<Rightarrow> string \<Rightarrow> string \<Rightarrow> daemon \<Rightarrow> repo_files
   \<Rightarrow> (('u, 'h, 'j) dash_answer \<times> daemon \<times> repo_files) option" where
  "dash_perform de act query body d files =
     (case act of
        ActConfigGet \<Rightarrow> Some (handle_config_get query d files, d, files)
      | ActConfigPost \<Rightarrow> handle_config_post de body d files
      | _ \<Rightarrow> (case run_action de act query body d of (ans, d) \<Rightarrow> Some (ans, d, files)))"

definition mutating :: "string \<Rightarrow> bool" where
  "mutating meth \<longleftrightarrow> meth \<in> {''POST'', ''PUT'', ''PATCH'', ''DELETE''}"

text \<open>The guards in their order, for a request whose head is \<open>h\<close>.\<close>

definition dash_guard :: "string option \<Rightarrow> http_head \<Rightarrow> ('u, 'h, 'j) dash_answer option" where
  "dash_guard token h =
     (let meth = unwrap_or (hh_method h) ''GET''; raw_path = unwrap_or (hh_path h) ''/'';
          header = text_header (hh_headers h)
      in if hh_version h \<noteq> Some 1 then Some (DashPage 505 ''text/plain'' ''HTTP Version Not Supported'')
         else if \<not> host_is_local (header ''host'') then Some (DashPage 403 ''text/plain'' ''Forbidden'')
         else if mutating meth \<and> (case header ''origin'' of Some origin \<Rightarrow> \<not> origin_is_local origin | None \<Rightarrow> False)
         then Some (DashPage 403 ''text/plain'' ''Forbidden'')
         else if (case token of Some t \<Rightarrow> \<not> dashboard_authorize raw_path (header ''authorization'') t | None \<Rightarrow> False)
         then Some (DashPage 401 ''text/plain'' ''Unauthorized'')
         else None)"

definition dash_connection ::
  "('u, 'h, 'j) dash_env \<Rightarrow> client_read list \<Rightarrow> daemon \<Rightarrow> repo_files
   \<Rightarrow> (('u, 'h, 'j) dash_answer \<times> daemon \<times> repo_files) option" where
  "dash_connection de rs d files =
     (case read_http_request (dh_parse de) [] rs of
        DashNothing \<Rightarrow> Some (DashClosed, d, files)
      | DashFailed err \<Rightarrow> Some (DashBroken err, d, files)
      | DashRequest buf \<Rightarrow>
          (case dh_parse de buf of
             HpPartial \<Rightarrow> Some (DashClosed, d, files)
           | HpError \<Rightarrow> Some (DashBroken DashParse, d, files)
           | HpComplete n h \<Rightarrow>
               (case dash_guard (dh_token de) h of
                  Some answer \<Rightarrow> Some (answer, d, files)
                | None \<Rightarrow>
                    (let raw_path = unwrap_or (hh_path h) ''/'';
                         (path, query) = (case split_once CHR ''?'' raw_path of Some pq \<Rightarrow> pq | None \<Rightarrow> (raw_path, []))
                     in dash_perform de (dash_action_for (unwrap_or (hh_method h) ''GET'') path query) query (drop n buf) d files))))"

section \<open>What a path can lead to\<close>

lemma starts_with_trans: "starts_with (a @ b) s \<Longrightarrow> starts_with a s"
  by (auto simp: starts_with_iff)

definition open_action :: "dash_action \<Rightarrow> bool" where
  "open_action act \<longleftrightarrow> (case act of ActAsset _ \<Rightarrow> True | ActNotFound \<Rightarrow> True | _ \<Rightarrow> False)"

definition read_only_action :: "dash_action \<Rightarrow> bool" where
  "read_only_action act \<longleftrightarrow>
     (case act of
        ActRequest req \<Rightarrow>
          (case req of ReqListEntries \<Rightarrow> True | ReqTldList \<Rightarrow> True | ReqCertHealth \<Rightarrow> True | ReqResourceUsage \<Rightarrow> True
           | ReqResourceHistory \<Rightarrow> True | ReqServiceStatus \<Rightarrow> True | ReqLogsQuery _ _ _ \<Rightarrow> True | ReqSecretsStatus \<Rightarrow> True
           | _ \<Rightarrow> False)
      | ActAsset _ \<Rightarrow> True | ActStatus \<Rightarrow> True | ActConfigGet \<Rightarrow> True | ActNotFound \<Rightarrow> True | ActPanic \<Rightarrow> True
      | _ \<Rightarrow> False)"

lemma open_action_simps [simp]: "open_action (ActAsset a)" "open_action ActNotFound"
  by (simp_all add: open_action_def)

lemma api_literal: "starts_with ''/api/'' (CHR ''/'' # CHR ''a'' # CHR ''p'' # CHR ''i'' # CHR ''/'' # rest)"
  by (simp add: starts_with_def)

lemma api_prefix: "starts_with (CHR ''/'' # CHR ''a'' # CHR ''p'' # CHR ''i'' # CHR ''/'' # rest) path \<Longrightarrow> starts_with ''/api/'' path"
  by (auto simp: starts_with_iff)

lemma get_action_api: "get_action path query = act \<Longrightarrow> open_action act \<or> starts_with ''/api/'' path"
  unfolding get_action_def between_def by (auto simp: api_literal dest: api_prefix split: if_splits)

lemma post_action_api: "post_action path = act \<Longrightarrow> open_action act \<or> starts_with ''/api/'' path"
  unfolding post_action_def between_def by (auto simp: api_literal dest: api_prefix split: if_splits)

lemma delete_action_api: "delete_action path = act \<Longrightarrow> open_action act \<or> starts_with ''/api/'' path"
  unfolding delete_action_def by (auto dest: api_prefix split: if_splits)

lemma put_action_api: "put_action path = act \<Longrightarrow> open_action act \<or> starts_with ''/api/'' path"
  unfolding put_action_def by (auto dest: api_prefix split: if_splits)

lemma action_api: "open_action (dash_action_for meth path query) \<or> starts_with ''/api/'' path"
  unfolding dash_action_for_def
  using get_action_api post_action_api delete_action_api put_action_api by (simp add: refl)

lemma get_read_only: "read_only_action (get_action path query)"
proof -
  have "read_only_action (with_segment pre suf path (\<lambda>service.
      case parse_logs_query query of (after_id, limit) \<Rightarrow> ActRequest (ReqLogsQuery service after_id limit)))" for pre suf
    by (simp add: with_segment_def read_only_action_def split: option.split prod.split)
  then show ?thesis unfolding get_action_def by (simp add: read_only_action_def)
qed

lemma action_mutates:
  assumes "\<not> read_only_action (dash_action_for meth path query)"
  shows "mutating meth"
proof -
  have "read_only_action ActNotFound" by (simp add: read_only_action_def)
  with assms get_read_only [of path query] show ?thesis by (auto simp: dash_action_for_def mutating_def split: if_splits)
qed

lemma read_only_dispatch:
  assumes "read_only_action (ActRequest req)"
  shows "snd (dispatch de ce req d) = d"
  using assms by (cases req) (simp_all add: read_only_action_def dispatch_def handle_request_def split: prod.split)

lemma read_only_keeps:
  assumes "read_only_action act" and "dash_perform de act query body d files = Some (ans, d', files')"
  shows "d' = d \<and> files' = files"
proof (cases act)
  case (ActRequest req)
  with assms read_only_dispatch [of req "dh_daemon de" "dh_call de" d] show ?thesis
    by (auto simp: dash_perform_def run_action_def api_request_def split: prod.splits)
qed (use assms in \<open>auto simp: read_only_action_def dash_perform_def run_action_def split: option.splits\<close>)

lemma open_action_answers:
  assumes "open_action act" and "dash_perform de act query body d files = Some (ans, d', files')"
  shows "(\<forall>r. ans \<noteq> DashResponse r) \<and> (\<forall>root fs. ans \<noteq> DashConfigFiles root fs)"
  using assms by (cases act) (auto simp: open_action_def dash_perform_def run_action_def split: option.splits)

text \<open>What passes the guards.\<close>

lemma dash_guard_passed:
  assumes "dash_guard token h = None"
  shows "host_is_local (text_header (hh_headers h) ''host'')"
    and "mutating (unwrap_or (hh_method h) ''GET'') \<Longrightarrow> text_header (hh_headers h) ''origin'' = Some origin \<Longrightarrow> origin_is_local origin"
    and "token = Some t \<Longrightarrow> dashboard_authorize (unwrap_or (hh_path h) ''/'') (text_header (hh_headers h) ''authorization'') t"
  using assms by (auto simp: dash_guard_def Let_def split: if_splits)

definition presented_token :: "http_head \<Rightarrow> string option" where
  "presented_token h =
     or_opt (map_option trim (Option.bind (text_header (hh_headers h) ''authorization'') (strip_prefix ''Bearer '')))
       (token_from_query (unwrap_or (hh_path h) ''/''))"

text \<open>
  C12: The dashboard answers with data, and changes the daemon or a config file, only for a request
  that names a local host, that presents the token when one is set, and, for a change, that has a
  mutating method and no foreign origin.
\<close>

theorem dashboard_needs_authority:
  fixes de :: "('u, 'h, 'j) dash_env"
  assumes "dash_connection de rs d files = Some (ans, d', files')"
    and "d' \<noteq> d \<or> files' \<noteq> files \<or> (\<exists>r. ans = DashResponse r) \<or> (\<exists>root fs. ans = DashConfigFiles root fs)"
  shows "\<exists>buf n h. read_http_request (dh_parse de) [] rs = DashRequest buf \<and> dh_parse de buf = HpComplete n h \<and>
    host_is_local (text_header (hh_headers h) ''host'') \<and>
    (dh_token de = None \<or> presented_token h = dh_token de) \<and>
    (d' = d \<and> files' = files \<or>
      mutating (unwrap_or (hh_method h) ''GET'') \<and>
      (case text_header (hh_headers h) ''origin'' of Some origin \<Rightarrow> origin_is_local origin | None \<Rightarrow> True))"
proof -
  from assms obtain buf n h where buf: "read_http_request (dh_parse de) [] rs = DashRequest buf"
    and parse: "dh_parse de buf = HpComplete n h" and guard: "(dash_guard (dh_token de) h :: ('u, 'h, 'j) dash_answer option) = None"
    by (auto simp: dash_connection_def dash_guard_def Let_def split: dash_read.splits http_parse.splits if_splits)
  let ?raw = "unwrap_or (hh_path h) ''/''"
  obtain path query where pq: "(case split_once CHR ''?'' ?raw of Some pq \<Rightarrow> pq | None \<Rightarrow> (?raw, [])) = (path, query)"
    by fastforce
  define act where "act = dash_action_for (unwrap_or (hh_method h) ''GET'') path query"
  have perform: "dash_perform de act query (drop n buf) d files = Some (ans, d', files')"
    using assms(1) buf parse guard pq by (simp add: dash_connection_def act_def Let_def)
  have raw: "starts_with ''/api/'' path \<Longrightarrow> starts_with ''/api/'' ?raw"
    using pq by (auto simp: starts_with_iff split: option.splits dest: split_once_SomeD)
  have closed: "\<not> open_action act"
    using assms(2) open_action_answers [OF _ perform] read_only_keeps [OF _ perform]
    by (cases act) (auto simp: open_action_def read_only_action_def)
  with action_api raw have "starts_with ''/api/'' ?raw" unfolding act_def by blast
  then have token: "dh_token de = None \<or> presented_token h = dh_token de"
    using dash_guard_passed(3) [OF guard]
    by (cases "dh_token de") (auto simp: dashboard_authorize_def presented_token_def split: option.splits)
  have change: "d' = d \<and> files' = files \<or> mutating (unwrap_or (hh_method h) ''GET'')"
    using read_only_keeps [OF _ perform] action_mutates unfolding act_def by blast
  show ?thesis using buf parse dash_guard_passed(1,2) [OF guard] token change
    by (intro exI [of _ buf] exI [of _ n] exI [of _ h]) (auto split: option.split)
qed

section \<open>Editing a config file\<close>

lemma path_join_inj: "\<not> is_absolute p \<Longrightarrow> \<not> is_absolute q \<Longrightarrow> path_join r p = path_join r q \<longleftrightarrow> p = q"
  by (auto simp: path_join_def)

lemma config_names:
  "file_name \<in> set config_files \<Longrightarrow> \<not> is_absolute file_name \<and> \<not> is_absolute (''.'' @ file_name @ ''.portman-edit.tmp'') \<and>
   file_name \<noteq> ''.'' @ file_name @ ''.portman-edit.tmp''"
  by (auto simp: config_files_def config_file_def local_config_file_def is_absolute_def starts_with_def)

lemma edit_tmp_not_config:
  assumes "file_name \<in> set config_files" and "other \<in> set config_files"
  shows "edit_tmp root file_name \<noteq> path_join root other"
proof -
  have "other \<noteq> ''.'' @ file_name @ ''.portman-edit.tmp''"
    using assms by (auto simp: config_files_def config_file_def local_config_file_def)
  with config_names [OF assms(1)] config_names [OF assms(2)] show ?thesis
    by (auto simp: edit_tmp_def path_join_inj)
qed

text \<open>The write is all or nothing: the temporary file apart, the target has its old text or the new one.\<close>

lemma write_config_outcome:
  assumes "write_config_preserving_owner fault root file_name content files = (ok, files')"
    and "file_name \<in> set config_files"
  shows "(\<forall>p. p \<noteq> path_join root file_name \<longrightarrow> p \<noteq> edit_tmp root file_name \<longrightarrow> files' p = files p) \<and>
    files' (path_join root file_name) = (if ok then ReadOk content else files (path_join root file_name))"
  using assms edit_tmp_not_config [OF assms(2) assms(2), of root]
  by (auto simp: write_config_preserving_owner_def Let_def split: edit_fault.splits)

text \<open>Once written, loading the root gives the config that was validated, unless the sibling is unreadable.\<close>

lemma read_raw_text: "fs p = ReadOk text \<Longrightarrow> read_raw toml fs p = parse_text toml p (Some text)"
  by (simp add: read_raw_def)

lemma read_raw_sibling: "fs p \<noteq> ReadFailed \<Longrightarrow> read_raw toml fs p = parse_text toml p (read_ok (fs p))"
  by (cases "fs p") (simp_all add: read_raw_def)

lemma parse_text_some: "parse_text toml p (Some text) \<noteq> Inr None"
  by (auto simp: and_then_Inr)

lemma reload_is_validated:
  assumes written: "write_config_preserving_owner fault (eb_root edit) (eb_file edit) (eb_content edit) files = (True, files')"
    and name: "eb_file edit \<in> set config_files" and texts: "edited_texts edit files = (committed, local)"
    and sibling: "files (path_join (eb_root edit) (if eb_file edit = config_file then local_config_file else config_file)) \<noteq> ReadFailed"
  shows "load_config toml shlex files' (eb_root edit) = load_from_strings toml shlex (eb_root edit) committed local"
proof -
  let ?root = "eb_root edit"
  have distinct: "config_file \<noteq> local_config_file" by (simp add: config_file_def local_config_file_def)
  have in_files: "config_file \<in> set config_files" "local_config_file \<in> set config_files" by (simp_all add: config_files_def)
  have keep: "files' (path_join ?root other) = files (path_join ?root other)" if "other \<in> set config_files" "other \<noteq> eb_file edit" for other
    using write_config_outcome [OF written name] edit_tmp_not_config [OF name that(1), of ?root] that
      config_names [OF that(1)] config_names [OF name] by (metis path_join_inj)
  have new: "files' (path_join ?root (eb_file edit)) = ReadOk (eb_content edit)"
    using write_config_outcome [OF written name] by simp
  show ?thesis
  proof (cases "eb_file edit = config_file")
    case True
    then have "committed = Some (eb_content edit)" "local = read_ok (files (path_join ?root local_config_file))"
      using texts by (simp_all add: edited_texts_def)
    moreover have "read_raw toml files' (path_join ?root local_config_file) =
        parse_text toml (path_join ?root local_config_file) (read_ok (files (path_join ?root local_config_file)))"
      using keep [OF in_files(2)] sibling True distinct by (simp add: read_raw_sibling)
    moreover have "read_raw toml files' (path_join ?root config_file) =
        parse_text toml (path_join ?root config_file) (Some (eb_content edit))"
      using new True by (simp add: read_raw_text)
    ultimately show ?thesis using parse_text_some [of toml _ "eb_content edit"]
      by (auto simp: load_config_def load_from_strings_def split: sum.splits)
  next
    case False
    with name have loc: "eb_file edit = local_config_file" by (auto simp: config_files_def)
    then have "local = Some (eb_content edit)" "committed = read_ok (files (path_join ?root config_file))"
      using texts distinct by (simp_all add: edited_texts_def)
    moreover have "read_raw toml files' (path_join ?root config_file) =
        parse_text toml (path_join ?root config_file) (read_ok (files (path_join ?root config_file)))"
      using keep [OF in_files(1)] sibling loc distinct by (simp add: read_raw_sibling)
    moreover have "read_raw toml files' (path_join ?root local_config_file) =
        parse_text toml (path_join ?root local_config_file) (Some (eb_content edit))"
      using new loc by (simp add: read_raw_text)
    ultimately show ?thesis using parse_text_some [of toml _ "eb_content edit"]
      by (auto simp: load_config_def load_from_strings_def split: sum.splits)
  qed
qed

text \<open>
  C13: A config file is changed only through the editor and only as a whole: it is one of the two
  config files of a root the daemon supervises, its new text, merged with the other file, has passed
  the validation, and nothing but this file and the temporary one beside it is touched.
\<close>

theorem config_edit_is_validated:
  assumes "dash_connection de rs d files = Some (ans, d', files')" and "files' \<noteq> files"
  shows "\<exists>edit committed local config. eb_root edit \<in> set (known_roots (dm_sv d)) \<and> eb_file edit \<in> set config_files \<and>
    edited_texts edit files = (committed, local) \<and>
    load_from_strings (dh_toml de) (dh_shlex de) (eb_root edit) committed local = Some (Inr config) \<and>
    files' (path_join (eb_root edit) (eb_file edit)) \<in> {files (path_join (eb_root edit) (eb_file edit)), ReadOk (eb_content edit)} \<and>
    (\<forall>p. p \<noteq> path_join (eb_root edit) (eb_file edit) \<longrightarrow> p \<noteq> edit_tmp (eb_root edit) (eb_file edit) \<longrightarrow> files' p = files p)"
proof -
  from assms obtain body where post: "handle_config_post de body d files = Some (ans, d', files')"
    by (auto simp: dash_connection_def dash_perform_def Let_def split: dash_read.splits http_parse.splits option.splits
        prod.splits dash_action.splits)
  from post assms(2) obtain edit committed local config ok files1 where name: "eb_file edit \<in> set config_files" and root: "config_root_allowed d (eb_root edit)"
    and texts: "edited_texts edit files = (committed, local)"
    and valid: "load_from_strings (dh_toml de) (dh_shlex de) (eb_root edit) committed local = Some (Inr config)"
    and written: "write_config_preserving_owner (dh_fault de) (eb_root edit) (eb_file edit) (eb_content edit) files = (ok, files1)"
    and files1: "files' = files1"
    by (auto simp: handle_config_post_def split: sum.splits if_splits prod.splits option.splits bool.splits)
  from write_config_outcome [OF written name] root name texts valid show ?thesis unfolding files1
    by (intro exI [of _ edit] exI [of _ committed] exI [of _ local] exI [of _ config])
      (auto simp: config_root_allowed_def)
qed

section \<open>Examples\<close>

definition example_head :: "string \<Rightarrow> string \<Rightarrow> http_head" where
  "example_head meth target =
     \<lparr>hh_method = Some meth, hh_path = Some target, hh_version = Some 1,
      hh_headers = [(''Host'', ''localhost:7341''), (''Authorization'', ''Bearer s'')]\<rparr>"

definition example_dash :: "(unit, unit) call_env \<Rightarrow> (unit, unit, unit) dash_env" where
  "example_dash ce =
     \<lparr>dh_parse = (\<lambda>buf. case buf of [] \<Rightarrow> HpPartial
        | c # _ \<Rightarrow> HpComplete 1 (if c = CHR ''G'' then example_head ''GET'' ''/api/tlds'' else example_head ''POST'' ''/api/config'')),
      dh_token = Some ''s'', dh_asset = (\<lambda>_. None), dh_daemon = example_env, dh_call = ce, dh_call2 = ce,
      dh_names = Inl, dh_add = Inl,
      dh_edit = (\<lambda>_. Inr \<lparr>eb_root = ''/r/'', eb_file = config_file, eb_content = ''version = 1''\<rparr>),
      dh_secret = Inl, dh_credentials = Inl, dh_block = Inl,
      dh_toml = (\<lambda>_. Inr raw_config_default), dh_shlex = (\<lambda>_. None), dh_fault = NoFault\<rparr>"

lemma example_dash_simps [simp]:
  "dh_parse (example_dash ce) (CHR ''G'' # rest) = HpComplete 1 (example_head ''GET'' ''/api/tlds'')"
  "dh_parse (example_dash ce) (CHR ''P'' # rest) = HpComplete 1 (example_head ''POST'' ''/api/config'')"
  "dh_token (example_dash ce) = Some ''s''" "dh_daemon (example_dash ce) = example_env" "dh_call (example_dash ce) = ce"
  "dh_toml (example_dash ce) = (\<lambda>_. Inr raw_config_default)" "dh_shlex (example_dash ce) = (\<lambda>_. None)"
  "dh_fault (example_dash ce) = NoFault"
  by (simp_all add: example_dash_def)

lemma example_head_simps [simp]:
  "hh_method (example_head meth target) = Some meth" "hh_path (example_head meth target) = Some target"
  by (simp_all add: example_head_def)

lemma example_dash_reads:
  "read_http_request (dh_parse (example_dash ce)) [] [ClientBytes ''G''] = DashRequest ''G''"
  "read_http_request (dh_parse (example_dash ce)) [] [ClientBytes ''P''] = DashRequest ''P''"
  by (simp_all add: example_dash_def dash_head_step_def content_len_def example_head_def text_header_def MAX_HEADER_BYTES_def
      MAX_BODY_BYTES_def eq_ignore_ascii_case_def)

lemma example_guard:
  "(dash_guard (Some ''s'') (example_head ''GET'' ''/api/tlds'') :: (unit, unit, unit) dash_answer option) = None"
  "(dash_guard (Some ''s'') (example_head ''POST'' ''/api/config'') :: (unit, unit, unit) dash_answer option) = None"
  by code_simp+

lemma example_actions:
  "dash_action_for ''GET'' ''/api/tlds'' [] = ActRequest ReqTldList"
  "dash_action_for ''POST'' ''/api/config'' [] = ActConfigPost"
  "split_once CHR ''?'' ''/api/tlds'' = None" "split_once CHR ''?'' ''/api/config'' = None"
  by code_simp+

lemma example_gets:
  "dash_connection (example_dash ce) [ClientBytes ''G''] example_daemon files =
     Some (DashResponse (fst (dispatch example_env ce ReqTldList example_daemon)), example_daemon, files)"
proof -
  have "snd (dispatch example_env ce ReqTldList example_daemon) = example_daemon"
    by (rule read_only_dispatch) (simp add: read_only_action_def)
  then have "api_request (example_dash ce) ReqTldList example_daemon =
      (DashResponse (fst (dispatch example_env ce ReqTldList example_daemon)), example_daemon)"
    by (auto simp: api_request_def split: prod.splits)
  then show ?thesis
    using example_dash_reads(1) [of ce] example_guard(1) example_actions(1,3)
    by (simp add: dash_connection_def dash_perform_def run_action_def del: read_http_request.simps)
qed

theorem dashboard_needs_authority_witness:
  "\<forall>ce :: (unit, unit) call_env. \<exists>buf n h.
    read_http_request (dh_parse (example_dash ce)) [] [ClientBytes ''G''] = DashRequest buf \<and>
    dh_parse (example_dash ce) buf = HpComplete n h \<and>
    host_is_local (text_header (hh_headers h) ''host'') \<and> presented_token h = Some ''s''"
proof
  fix ce :: "(unit, unit) call_env"
  have "dh_token (example_dash ce) = Some ''s''" by simp
  with dashboard_needs_authority [OF example_gets [of ce "\<lambda>_. ReadNotFound"]]
  show "\<exists>buf n h. read_http_request (dh_parse (example_dash ce)) [] [ClientBytes ''G''] = DashRequest buf \<and>
      dh_parse (example_dash ce) buf = HpComplete n h \<and>
      host_is_local (text_header (hh_headers h) ''host'') \<and> presented_token h = Some ''s''"
    by (metis (no_types, lifting) option.distinct(1))
qed

text \<open>An edit of the one file a supervised root has, through to the synced config.\<close>

definition edited_daemon :: daemon where
  "edited_daemon = example_daemon\<lparr>dm_sv := (dm_sv example_daemon)\<lparr>sv_slots := [(''web'', slot_new ''/r'' service_example False)]\<rparr>\<rparr>"

definition example_edit :: edit_body where
  "example_edit = \<lparr>eb_root = ''/r'', eb_file = config_file, eb_content = ''version = 1''\<rparr>"

lemma example_edit_reads:
  "map_sum id (\<lambda>e. e\<lparr>eb_root := path_value (eb_root e)\<rparr>) (dh_edit (example_dash ce) body) = Inr example_edit"
proof -
  have "path_value ''/r/'' = ''/r''" by code_simp
  then show ?thesis by (simp add: example_dash_def example_edit_def)
qed

lemma example_edit_valid:
  "\<exists>c. load_from_strings (\<lambda>_. (Inr raw_config_default :: unit + raw_config)) (\<lambda>_. None) ''/r'' (Some ''version = 1'') None = Some (Inr c)"
proof -
  have "(case load_from_strings (\<lambda>_. (Inr raw_config_default :: unit + raw_config)) (\<lambda>_. None) ''/r'' (Some ''version = 1'') None of
      Some (Inr c) \<Rightarrow> True | _ \<Rightarrow> False)" by code_simp
  then show ?thesis by (auto split: option.splits sum.splits)
qed

lemma example_edit_posts:
  "\<exists>ans d' files'. dash_connection (example_dash ce) [ClientBytes ''P''] edited_daemon (\<lambda>_. ReadNotFound) = Some (ans, d', files') \<and>
    files' \<noteq> (\<lambda>_. ReadNotFound)"
proof -
  let ?none = "\<lambda>_. ReadNotFound"
  obtain c where valid: "load_from_strings (\<lambda>_. (Inr raw_config_default :: unit + raw_config)) (\<lambda>_. None) ''/r'' (Some ''version = 1'') None
      = Some (Inr c)" using example_edit_valid by blast
  obtain files' where written: "write_config_preserving_owner NoFault ''/r'' config_file ''version = 1'' ?none = (True, files')"
    and new: "files' (path_join ''/r'' config_file) = ReadOk ''version = 1''"
    by (simp add: write_config_preserving_owner_def Let_def)
  have "load_config (\<lambda>_. (Inr raw_config_default :: unit + raw_config)) (\<lambda>_. None) files' ''/r'' = Some (Inr c)"
    using reload_is_validated [where fault = NoFault and edit = example_edit and files = ?none and files' = files'
        and committed = "Some ''version = 1''" and local = None and shlex = "\<lambda>_. None"
        and toml = "\<lambda>_. (Inr raw_config_default :: unit + raw_config)"] written valid
    by (simp add: example_edit_def edited_texts_def config_files_def)
  then obtain r where applied: "apply_config (example_dash ce) ''/r'' edited_daemon files' = Some r"
    by (simp add: apply_config_def)
  have "config_root_allowed edited_daemon ''/r''"
    by (simp add: config_root_allowed_def known_roots_def edited_daemon_def slot_new_def)
  then have "handle_config_post (example_dash ce) [] edited_daemon ?none = Some (fst r, snd r, files')"
    using written valid applied
    by (simp add: handle_config_post_def example_edit_reads)
      (simp add: example_edit_def edited_texts_def config_files_def split: prod.split)
  then have "dash_connection (example_dash ce) [ClientBytes ''P''] edited_daemon ?none = Some (fst r, snd r, files')"
    using example_dash_reads(2) [of ce] example_guard(2) example_actions(2,4)
    by (simp add: dash_connection_def dash_perform_def del: read_http_request.simps)
  moreover have "files' \<noteq> ?none" using new by auto
  ultimately show ?thesis by blast
qed

theorem config_edit_is_validated_witness:
  "\<forall>ce :: (unit, unit) call_env. \<exists>edit committed local. eb_root edit \<in> set (known_roots (dm_sv edited_daemon)) \<and>
    edited_texts edit (\<lambda>_. ReadNotFound) = (committed, local) \<and>
    (\<exists>config. load_from_strings (dh_toml (example_dash ce)) (dh_shlex (example_dash ce)) (eb_root edit) committed local = Some (Inr config))"
proof
  fix ce :: "(unit, unit) call_env"
  obtain ans d' files' where "dash_connection (example_dash ce) [ClientBytes ''P''] edited_daemon (\<lambda>_. ReadNotFound) = Some (ans, d', files')"
    and "files' \<noteq> (\<lambda>_. ReadNotFound)" using example_edit_posts by blast
  from config_edit_is_validated [OF this]
  show "\<exists>edit committed local. eb_root edit \<in> set (known_roots (dm_sv edited_daemon)) \<and>
    edited_texts edit (\<lambda>_. ReadNotFound) = (committed, local) \<and>
    (\<exists>config. load_from_strings (dh_toml (example_dash ce)) (dh_shlex (example_dash ce)) (eb_root edit) committed local = Some (Inr config))"
    by blast
qed

section \<open>Findings\<close>

text \<open>
  A path whose prefix and suffix overlap is sliced from after its end: the task of the connection
  panics, and the client is left without an answer.
\<close>

lemma overlapping_segment_panics:
  "dash_action_for ''GET'' ''/api/services/logs'' [] = ActPanic"
  "dash_action_for ''POST'' ''/api/service/up'' [] = ActPanic"
  "dash_action_for ''POST'' ''/api/service/down'' [] = ActPanic"
  "dash_action_for ''POST'' ''/api/service/restart'' [] = ActPanic"
  "dash_action_for ''POST'' ''/api/services/start'' [] = ActPanic"
  by code_simp+

text \<open>The bytes of a percent-encoded UTF-8 character come out as one Latin-1 character each.\<close>

lemma url_decode_is_latin1: "url_decode ''%C3%A9'' = [char_of (195 :: nat), char_of (131 :: nat), char_of (194 :: nat), char_of (169 :: nat)]"
  by code_simp

lemma url_decode_ascii: "url_decode ''/r%20x%2fy'' = ''/r x/y''"
  by code_simp

end
