(* ===== verification/Resources.thy ===== *)
theory Resources
  imports Daemon
begin

text \<open>
  Resource sampling, \<open>portman-daemon/src/resources.rs\<close> with its wire types of \<open>portman-protocol\<close>:
  one sample of the containers and of the process groups of the supervised services, and the series
  the sampler keeps. Docker's replies and the process table are parameters, as are the operations of
  \<open>f64\<close> (\<open>'f\<close>): nothing here depends on how they round. Sums of \<open>u64\<close> wrap, as in a release build.
\<close>

section \<open>Numbers and sorting\<close>

datatype cmp3 = CmpLess | CmpEqual | CmpGreater

record 'f f64_ops =
  fl_zero :: 'f
  fl_sum_zero :: 'f  \<comment> \<open>where \<open>sum()\<close> starts\<close>
  fl_add :: "'f \<Rightarrow> 'f \<Rightarrow> 'f"
  fl_mul :: "'f \<Rightarrow> 'f \<Rightarrow> 'f"
  fl_div :: "'f \<Rightarrow> 'f \<Rightarrow> 'f"
  fl_of :: "u64 \<Rightarrow> 'f"
  fl_cmp :: "'f \<Rightarrow> 'f \<Rightarrow> cmp3 option"

fun cmp_then :: "cmp3 \<Rightarrow> cmp3 \<Rightarrow> cmp3" where
  "cmp_then CmpEqual c = c"
| "cmp_then c _ = c"

definition cmp_of :: "'a::linorder \<Rightarrow> 'a \<Rightarrow> cmp3" where
  "cmp_of a b = (if a < b then CmpLess else if a = b then CmpEqual else CmpGreater)"

text \<open>\<open>sort_by\<close> is stable.\<close>

fun insert_by :: "('a \<Rightarrow> 'a \<Rightarrow> cmp3) \<Rightarrow> 'a \<Rightarrow> 'a list \<Rightarrow> 'a list" where
  "insert_by cmp x [] = [x]"
| "insert_by cmp x (y # ys) = (if cmp x y = CmpGreater then y # insert_by cmp x ys else x # y # ys)"

definition sort_by :: "('a \<Rightarrow> 'a \<Rightarrow> cmp3) \<Rightarrow> 'a list \<Rightarrow> 'a list" where
  "sort_by cmp xs = foldr (insert_by cmp) xs []"

definition sat_sub :: "u64 \<Rightarrow> u64 \<Rightarrow> u64" where
  "sat_sub a b = (if b \<le> a then a - b else 0)"

lemma sat_sub_le: "sat_sub a b \<le> a"
  by (simp add: sat_sub_def word_sub_le)

lemma mset_insert_by: "mset (insert_by cmp x ys) = add_mset x (mset ys)"
  by (induction ys) auto

lemma mset_sort_by [simp]: "mset (sort_by cmp xs) = mset xs"
  unfolding sort_by_def by (induction xs) (simp_all add: mset_insert_by)

lemma set_sort_by [simp]: "set (sort_by cmp xs) = set xs"
  by (metis mset_sort_by set_mset_mset)

lemma length_sort_by [simp]: "length (sort_by cmp xs) = length xs"
  by (metis mset_sort_by size_mset)

section \<open>What is reported\<close>

record 'f container_row =
  rw_id :: string
  rw_name :: string
  rw_image :: string
  rw_state :: string
  rw_hosts :: "string list"
  rw_compose_project :: "string option"
  rw_compose_service :: "string option"
  rw_project :: "string option"
  rw_cpu :: 'f
  rw_memory :: u64
  rw_memory_limit :: "u64 option"
  rw_rx :: u64
  rw_tx :: u64
  rw_rx_rate :: 'f
  rw_tx_rate :: 'f
  rw_read :: u64
  rw_write :: u64
  rw_read_rate :: 'f
  rw_write_rate :: 'f
  rw_pids :: "u64 option"
  rw_error :: "string option"

record 'f service_row =
  vr_name :: string
  vr_host :: "string option"
  vr_pid :: "u32 option"
  vr_cpu :: 'f
  vr_memory :: u64
  vr_pids :: u64

record 'f usage_totals =
  to_cpu :: 'f
  to_memory :: u64
  to_rx :: u64
  to_tx :: u64
  to_rx_rate :: 'f
  to_tx_rate :: 'f
  to_read :: u64
  to_write :: u64
  to_read_rate :: 'f
  to_write_rate :: 'f
  to_pids :: u64

record 'f usage_snapshot =
  us_at :: u64
  us_window :: u64
  us_count :: u32
  us_totals :: "'f usage_totals"
  us_containers :: "'f container_row list"
  us_services :: "'f service_row list"

record 'f history_point =
  hp_at :: u64
  hp_cpu :: 'f
  hp_memory :: u64

record 'f resource_series =
  rs_key :: string
  rs_kind :: series_kind
  rs_points :: "'f history_point list"

definition totals_zero :: "'f f64_ops \<Rightarrow> 'f usage_totals" where
  "totals_zero fl =
     \<lparr>to_cpu = fl_zero fl, to_memory = 0, to_rx = 0, to_tx = 0, to_rx_rate = fl_zero fl, to_tx_rate = fl_zero fl,
      to_read = 0, to_write = 0, to_read_rate = fl_zero fl, to_write_rate = fl_zero fl, to_pids = 0\<rparr>"

definition snapshot_zero :: "'f f64_ops \<Rightarrow> 'f usage_snapshot" where
  "snapshot_zero fl = \<lparr>us_at = 0, us_window = 0, us_count = 0, us_totals = totals_zero fl, us_containers = [], us_services = []\<rparr>"

definition fl_sum :: "'f f64_ops \<Rightarrow> 'f list \<Rightarrow> 'f" where
  "fl_sum fl xs = foldl (fl_add fl) (fl_sum_zero fl) xs"

definition totals_for :: "'f f64_ops \<Rightarrow> 'f container_row list \<Rightarrow> 'f usage_totals" where
  "totals_for fl rows =
     \<lparr>to_cpu = fl_sum fl (map rw_cpu rows), to_memory = sum_list (map rw_memory rows),
      to_rx = sum_list (map rw_rx rows), to_tx = sum_list (map rw_tx rows),
      to_rx_rate = fl_sum fl (map rw_rx_rate rows), to_tx_rate = fl_sum fl (map rw_tx_rate rows),
      to_read = sum_list (map rw_read rows), to_write = sum_list (map rw_write rows),
      to_read_rate = fl_sum fl (map rw_read_rate rows), to_write_rate = fl_sum fl (map rw_write_rate rows),
      to_pids = sum_list (map (\<lambda>r. unwrap_or (rw_pids r) 0) rows)\<rparr>"

section \<open>One container\<close>

record cpu_stats =
  cs_usage :: "(u64 option \<times> nat option) option"  \<comment> \<open>total usage, number of per-cpu counters\<close>
  cs_system :: "u64 option"
  cs_online :: "u32 option"

record memory_stats =
  ms_usage :: "u64 option"
  ms_limit :: "u64 option"
  ms_stats :: "(string \<times> u64) list option"

record container_stats =
  ct_cpu :: "cpu_stats option"
  ct_memory :: "memory_stats option"
  ct_networks :: "(string \<times> u64 option \<times> u64 option) list option"
  ct_blkio :: "(string option \<times> u64 option) list option"
  ct_pids :: "u64 option"

record running_summary =
  sm_id :: "string option"
  sm_names :: "string list option"
  sm_image :: "string option"
  sm_state :: "string option"
  sm_labels :: "labels option"

record resource_sample =
  sa_total :: u64
  sa_system :: u64
  sa_cpus :: u32
  sa_rx :: u64
  sa_tx :: u64
  sa_read :: u64
  sa_write :: u64
  sa_at :: u64

definition stats_sample :: "cpu_stats option \<Rightarrow> u64 \<times> u64 \<Rightarrow> u64 \<times> u64 \<Rightarrow> u64 \<Rightarrow> resource_sample option" where
  "stats_sample stats net blk now =
     Option.bind stats (\<lambda>st. Option.bind (cs_usage st) (\<lambda>(tot, percpu). Option.bind tot (\<lambda>t.
       map_option (\<lambda>sys.
         (let positive = (\<lambda>n. case n of Some (c :: u32) \<Rightarrow> if c > 0 then Some c else None | None \<Rightarrow> None) in
          \<lparr>sa_total = t, sa_system = sys,
           sa_cpus = unwrap_or (positive (or_opt (positive (cs_online st)) (map_option of_nat percpu))) 1,
           sa_rx = fst net, sa_tx = snd net, sa_read = fst blk, sa_write = snd blk, sa_at = now\<rparr>))
         (cs_system st))))"

definition calculate_cpu_percent :: "'f f64_ops \<Rightarrow> resource_sample \<Rightarrow> resource_sample option \<Rightarrow> 'f" where
  "calculate_cpu_percent fl current prev =
     (case prev of
        None \<Rightarrow> fl_zero fl
      | Some p \<Rightarrow>
          (let cpu = sat_sub (sa_total current) (sa_total p); sys = sat_sub (sa_system current) (sa_system p) in
           if cpu = 0 \<or> sys = 0 then fl_zero fl
           else fl_mul fl (fl_mul fl (fl_div fl (fl_of fl cpu) (fl_of fl sys)) (fl_of fl (ucast (sa_cpus current)))) (fl_of fl 100)))"

definition counter_rate_per_second :: "'f f64_ops \<Rightarrow> u64 \<Rightarrow> u64 \<Rightarrow> u64 \<Rightarrow> 'f" where
  "counter_rate_per_second fl current prev window =
     (if window = 0 \<or> current < prev then fl_zero fl
      else fl_div fl (fl_of fl (current - prev)) (fl_div fl (fl_of fl window) (fl_of fl 1000)))"

definition memory_working_set :: "u64 \<Rightarrow> (string \<times> u64) list option \<Rightarrow> u64" where
  "memory_working_set usage stats =
     sat_sub usage (unwrap_or (Option.bind stats (\<lambda>m.
       or_opt (hm_get m ''inactive_file'') (or_opt (hm_get m ''total_inactive_file'') (hm_get m ''cache'')))) 0)"

definition memory_usage :: "memory_stats option \<Rightarrow> u64 \<times> u64 option" where
  "memory_usage stats =
     (case stats of
        None \<Rightarrow> (0, None)
      | Some s \<Rightarrow> (memory_working_set (unwrap_or (ms_usage s) 0) (ms_stats s), ms_limit s))"

definition network_totals :: "(string \<times> u64 option \<times> u64 option) list option \<Rightarrow> u64 \<times> u64" where
  "network_totals networks =
     (case networks of
        None \<Rightarrow> (0, 0)
      | Some ns \<Rightarrow> foldl (\<lambda>(rx, tx) (_, nrx, ntx). (rx + unwrap_or nrx 0, tx + unwrap_or ntx 0)) (0, 0) ns)"

definition block_io_totals :: "(string option \<times> u64 option) list option \<Rightarrow> u64 \<times> u64" where
  "block_io_totals stats =
     (case stats of
        None \<Rightarrow> (0, 0)
      | Some entries \<Rightarrow>
          foldl (\<lambda>(r, w) (op, val).
            (case map_option to_ascii_lowercase op of
               Some name \<Rightarrow>
                 if name = ''read'' then (r + unwrap_or val 0, w)
                 else if name = ''write'' then (r, w + unwrap_or val 0) else (r, w)
             | None \<Rightarrow> (r, w))) (0, 0) entries)"

text \<open>\<open>ContainerBase\<close>: the columns of a row that do not come from its statistics.\<close>

definition container_base :: "'f f64_ops \<Rightarrow> running_summary \<Rightarrow> string list \<Rightarrow> 'f container_row" where
  "container_base fl s hosts =
     \<lparr>rw_id = unwrap_or (sm_id s) [],
      rw_name = (case sm_names s of
          Some (n # _) \<Rightarrow> dropWhile (\<lambda>c. c = CHR ''/'') n
        | _ \<Rightarrow> unwrap_or (map_option short (sm_id s)) ''?''),
      rw_image = unwrap_or (sm_image s) [], rw_state = unwrap_or (sm_state s) [], rw_hosts = hosts,
      rw_compose_project = Option.bind (sm_labels s) (\<lambda>l. hm_get l ''com.docker.compose.project''),
      rw_compose_service = Option.bind (sm_labels s) (\<lambda>l. hm_get l ''com.docker.compose.service''),
      rw_project = Option.bind (sm_labels s) (\<lambda>l. hm_get l ''dev.portman.project''),
      rw_cpu = fl_zero fl, rw_memory = 0, rw_memory_limit = None, rw_rx = 0, rw_tx = 0,
      rw_rx_rate = fl_zero fl, rw_tx_rate = fl_zero fl, rw_read = 0, rw_write = 0,
      rw_read_rate = fl_zero fl, rw_write_rate = fl_zero fl, rw_pids = None, rw_error = None\<rparr>"

text \<open>The row of a failed reading is built from the defaults, and the project is not carried over.\<close>

definition error_row :: "'f container_row \<Rightarrow> string \<Rightarrow> 'f container_row" where
  "error_row base message = base\<lparr>rw_project := None, rw_error := Some message\<rparr>"

definition usage_from_stats ::
  "'f f64_ops \<Rightarrow> 'f container_row \<Rightarrow> container_stats \<Rightarrow> resource_sample option \<Rightarrow> u64
   \<Rightarrow> 'f container_row \<times> resource_sample option" where
  "usage_from_stats fl base stats prev now =
     (let net = network_totals (ct_networks stats); blk = block_io_totals (ct_blkio stats);
          current = stats_sample (ct_cpu stats) net blk now;
          window = (case (current, prev) of (Some c, Some p) \<Rightarrow> sat_sub (sa_at c) (sa_at p) | _ \<Rightarrow> 0);
          rate = (\<lambda>cur was. case prev of Some p \<Rightarrow> counter_rate_per_second fl cur (was p) window | None \<Rightarrow> fl_zero fl);
          mem = memory_usage (ct_memory stats)
      in (base\<lparr>rw_cpu := (case current of Some c \<Rightarrow> calculate_cpu_percent fl c prev | None \<Rightarrow> fl_zero fl),
               rw_memory := fst mem, rw_memory_limit := snd mem, rw_rx := fst net, rw_tx := snd net,
               rw_rx_rate := rate (fst net) sa_rx, rw_tx_rate := rate (snd net) sa_tx,
               rw_read := fst blk, rw_write := snd blk,
               rw_read_rate := rate (fst blk) sa_read, rw_write_rate := rate (snd blk) sa_write,
               rw_pids := ct_pids stats, rw_error := None\<rparr>, current))"

datatype stats_reply = StatsOk container_stats | StatsErr string | StatsNone

definition collect_container ::
  "'f f64_ops \<Rightarrow> (string \<Rightarrow> stats_reply \<times> u64) \<Rightarrow> running_summary \<Rightarrow> resource_sample option \<Rightarrow> string list
   \<Rightarrow> 'f container_row \<times> resource_sample option" where
  "collect_container fl stats s prev hosts =
     (let base = container_base fl s hosts in
      case stats (unwrap_or (sm_id s) []) of
        (StatsOk reply, now) \<Rightarrow> usage_from_stats fl base reply prev now
      | (StatsErr err, _) \<Rightarrow> (error_row base err, None)
      | (StatsNone, _) \<Rightarrow> (error_row base ''docker stats returned no sample'', None))"

section \<open>Which hosts a container answers for\<close>

definition add_host :: "(string, string list) hmap \<Rightarrow> entry \<Rightarrow> (string, string list) hmap" where
  "add_host m e =
     (case e_container_id e of
        None \<Rightarrow> m
      | Some cid \<Rightarrow> hm_insert cid (unwrap_or (hm_get m cid) [] @ [e_host e]) m)"

definition portman_hosts_by_container_id :: "entry list \<Rightarrow> (string, string list) hmap" where
  "portman_hosts_by_container_id entries = map (\<lambda>(cid, hosts). (cid, sort hosts)) (foldl add_host [] entries)"

definition portman_hosts_for_container :: "string \<Rightarrow> (string, string list) hmap \<Rightarrow> string list" where
  "portman_hosts_for_container cid m =
     (case filter (\<lambda>b. starts_with (fst b) cid) m of b # _ \<Rightarrow> snd b | [] \<Rightarrow> [])"

section \<open>The process groups of services\<close>

record 'f process_info =
  pi_pid :: u32
  pi_pgid :: "i32 option"
  pi_cpu :: 'f
  pi_memory :: u64

definition service_usage :: "'f f64_ops \<Rightarrow> 'f process_info list \<Rightarrow> running_group \<Rightarrow> 'f service_row" where
  "service_usage fl procs g =
     (let members = filter (\<lambda>p. pi_pgid p = Some (rg_pgid g)) procs in
      \<lparr>vr_name = rg_name g, vr_host = rg_ghost g, vr_pid = Some (rg_pid g),
       vr_cpu = foldl (fl_add fl) (fl_zero fl) (map pi_cpu members),
       vr_memory = sum_list (map pi_memory members), vr_pids = of_nat (length members)\<rparr>)"

definition cmp_cpu :: "'f f64_ops \<Rightarrow> 'f \<Rightarrow> 'f \<Rightarrow> cmp3" where
  "cmp_cpu fl a b = unwrap_or (fl_cmp fl b a) CmpEqual"

definition sample_service_groups :: "'f f64_ops \<Rightarrow> 'f process_info list \<Rightarrow> running_group list \<Rightarrow> 'f service_row list" where
  "sample_service_groups fl procs groups =
     sort_by (\<lambda>a b. cmp_then (cmp_cpu fl (vr_cpu a) (vr_cpu b)) (cmp_of (vr_name a) (vr_name b)))
       (map (service_usage fl procs) groups)"

section \<open>A sample\<close>

type_synonym samples = "(string, resource_sample) hmap"

record 'f sample_env =
  se_list :: "running_summary list option"
  se_stats :: "string \<Rightarrow> stats_reply \<times> u64"  \<comment> \<open>with the time it is sampled at\<close>
  se_procs :: "'f process_info list option"  \<comment> \<open>\<open>None\<close>: the sampler's thread has panicked\<close>
  se_now :: u64

text \<open>The readings, in the order of the containers, of those that have an id.\<close>

definition container_readings ::
  "'f f64_ops \<Rightarrow> 'f sample_env \<Rightarrow> entry list \<Rightarrow> samples \<Rightarrow> running_summary list
   \<Rightarrow> (string \<times> resource_sample option \<times> 'f container_row \<times> resource_sample option) list" where
  "container_readings fl env entries prev summaries =
     (let index = portman_hosts_by_container_id entries in
      concat (map (\<lambda>s. case sm_id s of
          None \<Rightarrow> []
        | Some cid \<Rightarrow>
            [(cid, hm_get prev cid,
              collect_container fl (se_stats env) s (hm_get prev cid) (portman_hosts_for_container cid index))])
        summaries))"

definition take_reading :: "u64 \<times> samples \<Rightarrow> string \<times> resource_sample option \<times> 'f container_row \<times> resource_sample option \<Rightarrow> u64 \<times> samples" where
  "take_reading acc r =
     (case r of (cid, prev, _, sample) \<Rightarrow>
        (case sample of
           None \<Rightarrow> acc
         | Some s \<Rightarrow>
             ((case prev of Some p \<Rightarrow> max (fst acc) (sat_sub (sa_at s) (sa_at p)) | None \<Rightarrow> fst acc),
              hm_insert cid s (snd acc))))"

definition collect_usage ::
  "'f f64_ops \<Rightarrow> 'f sample_env \<Rightarrow> daemon \<Rightarrow> samples \<Rightarrow> 'f usage_snapshot option \<times> samples" where
  "collect_usage fl env d prev =
     (case se_list env of
        None \<Rightarrow> (None, prev)
      | Some summaries \<Rightarrow>
          (let readings = container_readings fl env (registry_list (rw_registry (routes_of d))) prev summaries;
               (window, samples) = foldl take_reading (0, []) readings;
               rows = sort_by (\<lambda>a b. cmp_then (cmp_cpu fl (rw_cpu a) (rw_cpu b))
                  (cmp_then (cmp_of (rw_memory b) (rw_memory a)) (cmp_of (rw_name a) (rw_name b))))
                  (map (\<lambda>(_, _, row, _). row) readings);
               groups = running_groups (dm_sv d);
               services = (if groups = [] then []
                           else case se_procs env of Some procs \<Rightarrow> sample_service_groups fl procs groups | None \<Rightarrow> [])
           in (Some \<lparr>us_at = se_now env, us_window = window, us_count = of_nat (length rows), us_totals = totals_for fl rows,
                 us_containers = rows, us_services = services\<rparr>, samples)))"

section \<open>The history\<close>

definition SAMPLE_PERIOD_MS :: u64 where "SAMPLE_PERIOD_MS = 5000"
definition HISTORY_CAPACITY :: nat where "HISTORY_CAPACITY = 120"

record 'f history =
  hs_latest :: "'f usage_snapshot"
  hs_series :: "(series_kind \<times> string, 'f history_point list) btree"

definition history_default :: "'f f64_ops \<Rightarrow> 'f history" where
  "history_default fl = \<lparr>hs_latest = snapshot_zero fl, hs_series = []\<rparr>"

text \<open>\<open>push\<close>: a point at the end, then the oldest ones beyond the capacity go.\<close>

definition last_points :: "'a list \<Rightarrow> 'a list" where
  "last_points ps = drop (length ps - HISTORY_CAPACITY) ps"

type_synonym 'f live = "(series_kind \<times> string) \<times> 'f \<times> u64"

definition push_point ::
  "u64 \<Rightarrow> (series_kind \<times> string, 'f history_point list) btree \<Rightarrow> 'f live \<Rightarrow> (series_kind \<times> string, 'f history_point list) btree" where
  "push_point t series l =
     (case l of (key, cpu, mem) \<Rightarrow>
        bt_insert key (last_points (unwrap_or (bt_get series key) [] @ [\<lparr>hp_at = t, hp_cpu = cpu, hp_memory = mem\<rparr>])) series)"

definition live_series :: "'f usage_snapshot \<Rightarrow> 'f live list" where
  "live_series s =
     ((KindTotal, ''total''), to_cpu (us_totals s), to_memory (us_totals s)) #
     map (\<lambda>c. ((KindContainer, rw_id c), rw_cpu c, rw_memory c)) (us_containers s) @
     map (\<lambda>v. ((KindService, vr_name v), vr_cpu v, vr_memory v)) (us_services s)"

definition horizon :: "u64 \<Rightarrow> u64" where
  "horizon t = sat_sub t (SAMPLE_PERIOD_MS * of_nat HISTORY_CAPACITY)"

definition record_snapshot :: "'f history \<Rightarrow> 'f usage_snapshot \<Rightarrow> 'f history" where
  "record_snapshot h s =
     \<lparr>hs_latest = s,
      hs_series = bt_retain (\<lambda>_ ps. ps \<noteq> [] \<and> horizon (us_at s) \<le> hp_at (last ps))
        (foldl (push_point (us_at s)) (hs_series h) (live_series s))\<rparr>"

definition history_series :: "'f history \<Rightarrow> 'f resource_series list" where
  "history_series h = map (\<lambda>((kind, key), ps). \<lparr>rs_key = key, rs_kind = kind, rs_points = ps\<rparr>) (hs_series h)"

text \<open>A tick of the sampler; one that fails leaves everything as it was.\<close>

definition sampler_tick ::
  "'f f64_ops \<Rightarrow> 'f history \<times> samples \<Rightarrow> 'f sample_env \<times> daemon \<Rightarrow> 'f history \<times> samples" where
  "sampler_tick fl st tick =
     (case collect_usage fl (fst tick) (snd tick) (snd st) of
        (Some snapshot, samples) \<Rightarrow> (record_snapshot (fst st) snapshot, samples)
      | (None, samples) \<Rightarrow> (fst st, samples))"

definition run_sampler :: "'f f64_ops \<Rightarrow> ('f sample_env \<times> daemon) list \<Rightarrow> 'f history \<times> samples" where
  "run_sampler fl ticks = foldl (sampler_tick fl) (history_default fl, []) ticks"

section \<open>What the history holds\<close>

definition history_ok :: "'f history \<Rightarrow> bool" where
  "history_ok h \<longleftrightarrow> bt_ok (hs_series h) \<and>
     (\<forall>(key, ps) \<in> set (hs_series h). ps \<noteq> [] \<and> length ps \<le> HISTORY_CAPACITY \<and>
        horizon (us_at (hs_latest h)) \<le> hp_at (last ps))"

lemma length_last_points: "length (last_points ps) = min (length ps) HISTORY_CAPACITY"
  by (simp add: last_points_def)

lemma last_points_snoc [simp]: "last_points (ps @ [p]) \<noteq> []" "last (last_points (ps @ [p])) = p"
  by (simp_all add: last_points_def HISTORY_CAPACITY_def)

lemma last_points_again: "last_points (last_points ps @ [p]) = last_points (ps @ [p])"
proof -
  have "length ps - (length ps - 120 + 119) + (length ps - 120) = length ps - 119" by arith
  then show ?thesis by (simp add: last_points_def HISTORY_CAPACITY_def)
qed

lemma horizon_le: "horizon t \<le> t"
  by (simp add: horizon_def sat_sub_le)

definition points_bounded :: "(series_kind \<times> string, 'f history_point list) btree \<Rightarrow> bool" where
  "points_bounded series \<longleftrightarrow> bt_ok series \<and> (\<forall>(key, ps) \<in> set series. length ps \<le> HISTORY_CAPACITY)"

lemma points_bounded_push: "points_bounded series \<Longrightarrow> points_bounded (push_point t series l)"
  by (cases l) (auto simp: points_bounded_def push_point_def bt_ok_insert length_last_points
      dest!: set_bt_insert_subset [THEN subsetD])

lemma points_bounded_pushes: "points_bounded series \<Longrightarrow> points_bounded (foldl (push_point t) series ls)"
  by (induction ls arbitrary: series) (simp_all add: points_bounded_push)

lemma record_keeps_ok: "history_ok h \<Longrightarrow> history_ok (record_snapshot h s)"
proof -
  assume "history_ok h"
  then have "points_bounded (hs_series h)" by (auto simp: history_ok_def points_bounded_def)
  then have "points_bounded (foldl (push_point (us_at s)) (hs_series h) (live_series s))" by (rule points_bounded_pushes)
  then show ?thesis by (auto simp: history_ok_def points_bounded_def record_snapshot_def bt_retain_def bt_ok_filter)
qed

lemma tick_keeps_ok: "history_ok (fst st) \<Longrightarrow> history_ok (fst (sampler_tick fl st tick))"
  by (simp add: sampler_tick_def record_keeps_ok split: prod.split option.split)

text \<open>
  C40: Whatever the ticks of the sampler meet, the history is sorted by key, no series holds more
  than 120 points, and the newest point of each is no older than the retention window.
\<close>

theorem history_stays_bounded: "history_ok (fst (run_sampler fl ticks))"
proof -
  have "history_ok (fst (foldl (sampler_tick fl) st ticks))" if "history_ok (fst st)" for st
    using that by (induction ticks arbitrary: st) (simp_all add: tick_keeps_ok)
  then show ?thesis by (simp add: run_sampler_def history_ok_def history_default_def)
qed

lemma bt_ok_pushes: "bt_ok series \<Longrightarrow> bt_ok (foldl (push_point t) series ls)"
  by (induction ls arbitrary: series) (auto simp: push_point_def bt_ok_insert split: prod.split)

text \<open>A live series gets one point; the others stay while their newest point is in the window.\<close>

lemma get_pushes:
  assumes "bt_ok series" and "distinct (map fst ls)"
  shows "bt_get (foldl (push_point t) series ls) key =
    (case map_of ls key of
       Some (cpu, mem) \<Rightarrow> Some (last_points (unwrap_or (bt_get series key) [] @ [\<lparr>hp_at = t, hp_cpu = cpu, hp_memory = mem\<rparr>]))
     | None \<Rightarrow> bt_get series key)"
  using assms
proof (induction ls arbitrary: series)
  case (Cons l ls)
  obtain k cpu mem where l: "l = (k, cpu, mem)" by (cases l)
  let ?next = "push_point t series l"
  have ok: "bt_ok ?next" using Cons.prems(1) by (simp add: l push_point_def bt_ok_insert)
  have "map_of ls k = None" using Cons.prems(2) by (simp add: l map_of_eq_None_iff)
  with Cons.IH [OF ok] Cons.prems show ?case by (auto simp: l push_point_def split: option.split)
qed simp

lemma get_record:
  assumes "bt_ok (hs_series h)" and "distinct (map fst (live_series s))"
  shows "bt_get (hs_series (record_snapshot h s)) key =
    (case map_of (live_series s) key of
       Some (cpu, mem) \<Rightarrow>
         Some (last_points (unwrap_or (bt_get (hs_series h) key) [] @ [\<lparr>hp_at = us_at s, hp_cpu = cpu, hp_memory = mem\<rparr>]))
     | None \<Rightarrow>
         (case bt_get (hs_series h) key of
            Some ps \<Rightarrow> if ps \<noteq> [] \<and> horizon (us_at s) \<le> hp_at (last ps) then Some ps else None
          | None \<Rightarrow> None))"
  using get_pushes [OF assms, of "us_at s" key] bt_ok_pushes [OF assms(1), of "us_at s" "live_series s"]
  by (auto simp: record_snapshot_def bt_get_retain horizon_le split: option.splits)

text \<open>So a series that is live in every snapshot holds exactly the points of the last 120 of them.\<close>

definition point_in :: "series_kind \<times> string \<Rightarrow> 'f usage_snapshot \<Rightarrow> 'f history_point option" where
  "point_in key s = map_option (\<lambda>(cpu, mem). \<lparr>hp_at = us_at s, hp_cpu = cpu, hp_memory = mem\<rparr>) (map_of (live_series s) key)"

lemma live_series_is_window:
  assumes "\<forall>s \<in> set ss. distinct (map fst (live_series s)) \<and> point_in key s \<noteq> None"
    and "ss \<noteq> []"
  shows "bt_get (hs_series (foldl record_snapshot (history_default fl) ss)) key = Some (last_points (map (\<lambda>s. the (point_in key s)) ss))"
  using assms
proof (induction ss rule: rev_induct)
  case (snoc s ss)
  let ?h = "foldl record_snapshot (history_default fl) ss"
  have "bt_ok (hs_series (foldl record_snapshot h ss))" if "bt_ok (hs_series h)" for h
    using that by (induction ss arbitrary: h) (simp_all add: record_snapshot_def bt_ok_pushes)
  then have ok: "bt_ok (hs_series ?h)" by (simp add: history_default_def)
  obtain cpu mem where live: "map_of (live_series s) key = Some (cpu, mem)"
    using snoc.prems(1) by (auto simp: point_in_def)
  have now: "the (point_in key s) = \<lparr>hp_at = us_at s, hp_cpu = cpu, hp_memory = mem\<rparr>" by (simp add: point_in_def live)
  have "bt_get (hs_series (record_snapshot ?h s)) key =
      Some (last_points (unwrap_or (bt_get (hs_series ?h) key) [] @ [the (point_in key s)]))"
    using get_record [OF ok, of s key] snoc.prems(1) live now by simp
  also have "\<dots> = Some (last_points (map (\<lambda>s. the (point_in key s)) ss @ [the (point_in key s)]))"
  proof (cases "ss = []")
    case False
    then show ?thesis using snoc by (simp add: last_points_again)
  qed (simp add: history_default_def)
  finally show ?case by simp
qed simp

text \<open>Gauges: the working set never exceeds the usage, and totals are sums over the rows.\<close>

lemma working_set_le_usage: "memory_working_set usage stats \<le> usage"
  by (simp add: memory_working_set_def sat_sub_le)

lemma rates_need_two_readings:
  "calculate_cpu_percent fl c None = fl_zero fl"
  "counter_rate_per_second fl cur was 0 = fl_zero fl"
  "cur < was \<Longrightarrow> counter_rate_per_second fl cur was w = fl_zero fl"
  by (simp_all add: calculate_cpu_percent_def counter_rate_per_second_def)

text \<open>Ids of entries are the first twelve bytes of container ids, so at most one of them is a prefix.\<close>

lemma get_add_hosts:
  "hm_ok m \<Longrightarrow> hm_ok (foldl add_host m es) \<and>
    unwrap_or (hm_get (foldl add_host m es) cid) [] =
    unwrap_or (hm_get m cid) [] @ map e_host (filter (\<lambda>e. e_container_id e = Some cid) es)"
proof (induction es arbitrary: m)
  case (Cons e es)
  have ok: "hm_ok (add_host m e)" using Cons.prems by (simp add: add_host_def split: option.split)
  have "unwrap_or (hm_get (add_host m e) cid) [] = unwrap_or (hm_get m cid) [] @ (if e_container_id e = Some cid then [e_host e] else [])"
    using Cons.prems by (auto simp: add_host_def split: option.split)
  with Cons.IH [OF ok] show ?case by simp
qed simp

text \<open>A row whose statistics could not be read keeps its compose tags but loses its project.\<close>

lemma error_row_loses_project:
  "rw_project (container_base fl \<lparr>sm_id = Some ''c1'', sm_names = None, sm_image = None, sm_state = None,
     sm_labels = Some [(''dev.portman.project'', ''shop'')]\<rparr> []) = Some ''shop''"
  "rw_project (error_row base message) = None"
  by (simp_all add: container_base_def error_row_def hm_get_def)

end
