(* ===== verification/Client.thy ===== *)
theory Client
  imports Resources Admission
begin

text \<open>
  The client side of the control socket, \<open>portman-cli/src/client.rs\<close>, and the text helpers of
  \<open>fmt.rs\<close>. The other end is an argument: how a request changes the daemon (\<open>'d\<close>) and what it
  answers, and what the daemon does while a client sleeps. Every request made is recorded.
\<close>

section \<open>A connection\<close>

datatype client_error =
  ClNoToken
| ClConnect
| ClDaemon handler_error
| ClUnexpected
| ClBridgeTimeout bool
| ClModeTimeout netbridge_mode

record ('d, 'u, 'h) client_env =
  cl_managed :: bool  \<comment> \<open>\<open>PORTMAN_MANAGED_BROKER\<close>\<close>
  cl_token :: "string option"
  cl_serve :: "request \<Rightarrow> 'd \<Rightarrow> ('u, 'h) response option \<times> 'd"  \<comment> \<open>\<open>None\<close>: the connection fails\<close>
  cl_pause :: "'d \<Rightarrow> 'd"

record 'd daemon_link =
  lk_daemon :: 'd
  lk_sent :: "request list"

definition transmit ::
  "('d, 'u, 'h) client_env \<Rightarrow> request \<Rightarrow> 'd daemon_link \<Rightarrow> (client_error + ('u, 'h) response) \<times> 'd daemon_link" where
  "transmit env req l =
     (case cl_serve env req (lk_daemon l) of
        (reply, d) \<Rightarrow>
          (case reply of Some r \<Rightarrow> Inr r | None \<Rightarrow> Inl ClConnect, \<lparr>lk_daemon = d, lk_sent = lk_sent l @ [req]\<rparr>))"

definition client_request ::
  "('d, 'u, 'h) client_env \<Rightarrow> request \<Rightarrow> 'd daemon_link \<Rightarrow> (client_error + ('u, 'h) response) \<times> 'd daemon_link" where
  "client_request env req l =
     (if cl_managed env
      then (case cl_token env of
              None \<Rightarrow> (Inl ClNoToken, l)
            | Some t \<Rightarrow> transmit env (ReqAuthenticated (Redacted (trim t)) req) l)
      else transmit env req l)"

text \<open>\<open>unexpected\<close>, and a reply handed on.\<close>

definition unexpected :: "('u, 'h) response \<Rightarrow> client_error" where
  "unexpected r = (case r of RespErr e \<Rightarrow> ClDaemon e | _ \<Rightarrow> ClUnexpected)"

definition expecting ::
  "('d, 'u, 'h) client_env \<Rightarrow> request \<Rightarrow> (('u, 'h) response \<Rightarrow> 'a option) \<Rightarrow> 'd daemon_link \<Rightarrow> (client_error + 'a) \<times> 'd daemon_link" where
  "expecting env req pick l =
     (case client_request env req l of
        (Inl e, l) \<Rightarrow> (Inl e, l)
      | (Inr r, l) \<Rightarrow> (case pick r of Some x \<Rightarrow> (Inr x, l) | None \<Rightarrow> (Inl (unexpected r), l)))"

definition pick_ok :: "('u, 'h) response \<Rightarrow> unit option" where
  "pick_ok r = (case r of RespOk \<Rightarrow> Some () | _ \<Rightarrow> None)"

definition pick_status :: "('u, 'h) response \<Rightarrow> status_info option" where
  "pick_status r = (case r of RespStatus s \<Rightarrow> Some s | _ \<Rightarrow> None)"

definition pick_services :: "('u, 'h) response \<Rightarrow> service_status_info list option" where
  "pick_services r = (case r of RespServiceStatuses ss \<Rightarrow> Some ss | _ \<Rightarrow> None)"

definition pick_entries :: "('u, 'h) response \<Rightarrow> entry list option" where
  "pick_entries r = (case r of RespEntries es \<Rightarrow> Some es | _ \<Rightarrow> None)"

definition pick_logs :: "('u, 'h) response \<Rightarrow> (log_line_info list \<times> int) option" where
  "pick_logs r = (case r of RespLogs lines last_id \<Rightarrow> Some (lines, last_id) | _ \<Rightarrow> None)"

definition bridge_is_enabled :: "('d, 'u, 'h) client_env \<Rightarrow> 'd daemon_link \<Rightarrow> (client_error + bool) \<times> 'd daemon_link" where
  "bridge_is_enabled env l = expecting env ReqStatus (\<lambda>r. map_option si_bridge_enabled (pick_status r)) l"

definition bridge_mode_now :: "('d, 'u, 'h) client_env \<Rightarrow> 'd daemon_link \<Rightarrow> (client_error + netbridge_mode) \<times> 'd daemon_link" where
  "bridge_mode_now env l = expecting env ReqStatus (\<lambda>r. map_option si_bridge_mode (pick_status r)) l"

text \<open>Both waits poll 120 times, with a pause before every poll but the first.\<close>

definition sleeping :: "('d, 'u, 'h) client_env \<Rightarrow> 'd daemon_link \<Rightarrow> 'd daemon_link" where
  "sleeping env l = l\<lparr>lk_daemon := cl_pause env (lk_daemon l)\<rparr>"

fun poll_until ::
  "nat \<Rightarrow> ('d, 'u, 'h) client_env \<Rightarrow> ('d daemon_link \<Rightarrow> (client_error + 'a) \<times> 'd daemon_link) \<Rightarrow> 'a \<Rightarrow> client_error \<Rightarrow> 'd daemon_link
   \<Rightarrow> (client_error + unit) \<times> 'd daemon_link" where
  "poll_until 0 env look want timeout l = (Inl timeout, l)"
| "poll_until (Suc n) env look want timeout l =
     (case look l of
        (Inl e, l) \<Rightarrow> (Inl e, l)
      | (Inr x, l) \<Rightarrow>
          if x = want then (Inr (), l)
          else poll_until n env look want timeout (if n = 0 then l else sleeping env l))"

definition wait_for_bridge_state :: "('d, 'u, 'h) client_env \<Rightarrow> bool \<Rightarrow> 'd daemon_link \<Rightarrow> (client_error + unit) \<times> 'd daemon_link" where
  "wait_for_bridge_state env desired l = poll_until 120 env (bridge_is_enabled env) desired (ClBridgeTimeout desired) l"

definition wait_for_bridge_mode :: "('d, 'u, 'h) client_env \<Rightarrow> netbridge_mode \<Rightarrow> 'd daemon_link \<Rightarrow> (client_error + unit) \<times> 'd daemon_link" where
  "wait_for_bridge_mode env md l = poll_until 120 env (bridge_mode_now env) md (ClModeTimeout md) l"

section \<open>Text\<close>

text \<open>Widths count characters: the bytes that do not continue one.\<close>

definition starts_char :: "char \<Rightarrow> bool" where
  "starts_char c \<longleftrightarrow> byte c div 64 \<noteq> 2"

definition char_count :: "string \<Rightarrow> nat" where
  "char_count s = length (filter starts_char s)"

fun take_chars :: "nat \<Rightarrow> string \<Rightarrow> string" where
  "take_chars n [] = []"
| "take_chars n (c # s) =
     (if starts_char c then (case n of 0 \<Rightarrow> [] | Suc m \<Rightarrow> c # take_chars m s) else c # take_chars n s)"

definition truncate_text :: "string \<Rightarrow> nat \<Rightarrow> string" where
  "truncate_text s width = (if char_count s \<le> width then s else take_chars (width - 3) s @ ''...'')"

definition pad_right :: "nat \<Rightarrow> string \<Rightarrow> string" where
  "pad_right n s = s @ replicate (n - char_count s) CHR '' ''"

definition pad_left :: "nat \<Rightarrow> string \<Rightarrow> string" where
  "pad_left n s = replicate (n - char_count s) CHR '' '' @ s"

lemma char_count_append [simp]: "char_count (s @ t) = char_count s + char_count t"
  by (simp add: char_count_def)

lemma char_count_take_chars: "char_count (take_chars n s) \<le> n"
  by (induction n s rule: take_chars.induct) (auto simp: char_count_def split: nat.split)

lemma truncate_text_fits: "3 \<le> width \<Longrightarrow> char_count (truncate_text s width) \<le> width"
proof -
  assume "3 \<le> width"
  moreover have "char_count ''...'' = 3" by (simp add: char_count_def starts_char_def)
  ultimately show ?thesis using char_count_take_chars [of "width - 3" s] unfolding truncate_text_def by auto
qed

lemma truncate_text_prefix: "\<exists>rest. s = take_chars n s @ rest"
  by (induction n s rule: take_chars.induct) (auto split: nat.split)

section \<open>What a client can do to the daemon\<close>

lemma transmit_sent: "transmit env req l = (r, l') \<Longrightarrow> lk_sent l' = lk_sent l @ [req]"
  by (auto simp: transmit_def split: prod.splits)

definition wrapped :: "('d, 'u, 'h) client_env \<Rightarrow> request \<Rightarrow> request list" where
  "wrapped env req =
     (if cl_managed env
      then (case cl_token env of None \<Rightarrow> [] | Some t \<Rightarrow> [ReqAuthenticated (Redacted (trim t)) req])
      else [req])"

lemma client_request_sent: "client_request env req l = (r, l') \<Longrightarrow> lk_sent l' = lk_sent l @ wrapped env req"
  by (auto simp: client_request_def wrapped_def transmit_sent split: if_splits option.splits)

lemma expecting_sent: "expecting env req pick l = (r, l') \<Longrightarrow> lk_sent l' = lk_sent l @ wrapped env req"
  by (auto simp: expecting_def dest: client_request_sent split: prod.splits sum.splits option.splits)

text \<open>A wait ends within its polls, each of which asks for the status and nothing else.\<close>

lemma poll_until_sent:
  assumes "\<And>l r l'. look l = (r, l') \<Longrightarrow> lk_sent l' = lk_sent l @ reqs"
    and "poll_until n env look want timeout l = (r, l')"
  shows "\<exists>k \<le> n. lk_sent l' = lk_sent l @ concat (replicate k reqs)"
  using assms(2)
proof (induction n arbitrary: l)
  case (Suc n)
  obtain x l1 where look: "look l = (x, l1)" by (cases "look l")
  then have sent: "lk_sent l1 = lk_sent l @ reqs" by (rule assms(1))
  show ?case
  proof (cases "\<exists>y. x = Inr y \<and> y \<noteq> want")
    case True
    then have "poll_until n env look want timeout (if n = 0 then l1 else sleeping env l1) = (r, l')"
      using Suc.prems look by auto
    from Suc.IH [OF this] obtain k where "k \<le> n" "lk_sent l' = lk_sent l1 @ concat (replicate k reqs)"
      by (auto simp: sleeping_def split: if_splits)
    with sent show ?thesis by (intro exI [of _ "Suc k"]) simp
  next
    case False
    then have "l' = l1" using Suc.prems look by (auto split: sum.splits)
    with sent show ?thesis by (intro exI [of _ 1]) simp
  qed
qed auto

text \<open>When it succeeds, the daemon has reported what was waited for.\<close>

lemma poll_until_found:
  assumes "poll_until n env look want timeout l = (Inr u, l')"
  shows "\<exists>l0. look l0 = (Inr want, l')"
  using assms by (induction n env look want timeout l rule: poll_until.induct) (auto split: prod.splits sum.splits if_splits)

text \<open>What a part of a client asks of the daemon: requests of a set, each as the client sends it.\<close>

definition asks :: "('d, 'u, 'h) client_env \<Rightarrow> request set \<Rightarrow> 'd daemon_link \<Rightarrow> 'd daemon_link \<Rightarrow> bool" where
  "asks env S l l' \<longleftrightarrow> (\<exists>reqs. lk_sent l' = lk_sent l @ concat (map (wrapped env) reqs) \<and> set reqs \<subseteq> S)"

lemma asks_nothing: "lk_sent l' = lk_sent l \<Longrightarrow> asks env S l l'"
  unfolding asks_def by (intro exI [of _ "[]"]) simp

lemma asks_trans: "asks env S l l1 \<Longrightarrow> asks env S l1 l2 \<Longrightarrow> asks env S l l2"
  unfolding asks_def by (elim exE) (rule exI [of _ "_ @ _"], auto)

lemma asks_mono: "asks env S l l' \<Longrightarrow> S \<subseteq> T \<Longrightarrow> asks env T l l'"
  unfolding asks_def by blast

lemma client_request_asks: "client_request env req l = (r, l') \<Longrightarrow> req \<in> S \<Longrightarrow> asks env S l l'"
  unfolding asks_def by (intro exI [of _ "[req]"]) (simp add: client_request_sent)

lemma expecting_asks: "expecting env req pick l = (r, l') \<Longrightarrow> req \<in> S \<Longrightarrow> asks env S l l'"
  unfolding asks_def by (intro exI [of _ "[req]"]) (simp add: expecting_sent)

lemma wait_for_bridge_asks:
  "wait_for_bridge_state env b l = (r, l') \<Longrightarrow> ReqStatus \<in> S \<Longrightarrow> asks env S l l'"
  "wait_for_bridge_mode env md l = (r, l') \<Longrightarrow> ReqStatus \<in> S \<Longrightarrow> asks env S l l'"
proof -
  have wait: "asks env S l l'" if poll: "poll_until 120 env look want e l = (r, l')" and status: "ReqStatus \<in> S"
    and look: "\<And>l r l'. look l = (r, l') \<Longrightarrow> lk_sent l' = lk_sent l @ wrapped env ReqStatus" for look :: "_ \<Rightarrow> (client_error + 'x) \<times> _" and want e
  proof -
    have "\<exists>k \<le> 120. lk_sent l' = lk_sent l @ concat (replicate k (wrapped env ReqStatus))"
      by (rule poll_until_sent [OF _ poll]) (rule look)
    then obtain k where "lk_sent l' = lk_sent l @ concat (replicate k (wrapped env ReqStatus))" by blast
    then show ?thesis using status unfolding asks_def by (intro exI [of _ "replicate k ReqStatus"]) (auto simp: set_replicate_conv_if)
  qed
  show "wait_for_bridge_state env b l = (r, l') \<Longrightarrow> ReqStatus \<in> S \<Longrightarrow> asks env S l l'"
    unfolding wait_for_bridge_state_def by (rule wait) (auto simp: bridge_is_enabled_def expecting_sent)
  show "wait_for_bridge_mode env md l = (r, l') \<Longrightarrow> ReqStatus \<in> S \<Longrightarrow> asks env S l l'"
    unfolding wait_for_bridge_mode_def by (rule wait) (auto simp: bridge_mode_now_def expecting_sent)
qed

end
