(* ===== verification/Tui.thy ===== *)
theory Tui
  imports Client
begin

text \<open>
  The terminal UI, \<open>portman-cli/src/tui.rs\<close>, without its drawing: the state behind the panels, the
  refreshes and log polls, every key, and the event loop around them. The daemon is the other end of
  the client's connections; running the command line as a child, suspending the terminal, the browser
  and the clipboard are parameters or recorded as effects. Characters are strings of one UTF-8 character.
\<close>

section \<open>State\<close>

datatype panel = PanelStatus | PanelEntries | PanelTlds | PanelServices | PanelLogs

fun panel_next :: "panel \<Rightarrow> panel" where
  "panel_next PanelStatus = PanelEntries"
| "panel_next PanelEntries = PanelTlds"
| "panel_next PanelTlds = PanelServices"
| "panel_next PanelServices = PanelStatus"
| "panel_next PanelLogs = PanelLogs"

fun panel_prev :: "panel \<Rightarrow> panel" where
  "panel_prev PanelStatus = PanelServices"
| "panel_prev PanelEntries = PanelStatus"
| "panel_prev PanelTlds = PanelEntries"
| "panel_prev PanelServices = PanelTlds"
| "panel_prev PanelLogs = PanelLogs"

datatype modal =
  ModalNone
| ModalAddEntry string string bool nat  \<comment> \<open>host, target, tcp, field\<close>
| ModalAddTld string bool
| ModalConfirmBridgeDisable
| ModalHelp

definition LOG_SCROLLBACK_LINES :: nat where "LOG_SCROLLBACK_LINES = 2000"

record log_view =
  lv_service :: string
  lv_cursor :: int
  lv_primed :: bool
  lv_lines :: "(string \<times> string) list"
  lv_scroll :: nat
  lv_follow :: bool

definition log_view_new :: "string \<Rightarrow> log_view" where
  "log_view_new service =
     \<lparr>lv_service = service, lv_cursor = 0, lv_primed = False, lv_lines = [], lv_scroll = 0, lv_follow = True\<rparr>"

definition scroll_clamped :: "log_view \<Rightarrow> nat \<Rightarrow> nat" where
  "scroll_clamped v n = min (lv_scroll v + n) (length (lv_lines v) - 1)"

definition ingest :: "log_line_info list \<Rightarrow> int \<Rightarrow> log_view \<Rightarrow> log_view" where
  "ingest lines last_id v =
     (let v = v\<lparr>lv_cursor := (if last_id > lv_cursor v then last_id else lv_cursor v)\<rparr>;
          all = lv_lines v @ map (\<lambda>l. (lli_stream l, lli_line l)) lines;
          v = v\<lparr>lv_lines := drop (length all - LOG_SCROLLBACK_LINES) all\<rparr>
      in if lv_follow v then v else v\<lparr>lv_scroll := scroll_clamped v (length lines)\<rparr>)"

definition scroll_up :: "nat \<Rightarrow> log_view \<Rightarrow> log_view" where
  "scroll_up n v = v\<lparr>lv_follow := False, lv_scroll := scroll_clamped v n\<rparr>"

definition scroll_down :: "nat \<Rightarrow> log_view \<Rightarrow> log_view" where
  "scroll_down n v =
     (let v = v\<lparr>lv_scroll := lv_scroll v - n\<rparr> in if lv_scroll v = 0 then v\<lparr>lv_follow := True\<rparr> else v)"

definition jump_to_bottom :: "log_view \<Rightarrow> log_view" where
  "jump_to_bottom v = v\<lparr>lv_scroll := 0, lv_follow := True\<rparr>"

datatype tui_error =
  TuiClient client_error | TuiNothingSelected | TuiServicesManaged | TuiContainerManaged | TuiTcpEntry | TuiNoBinary
| TuiSpawn | TuiAddFailed | TuiRemoveFailed | TuiTerminal

record ('u, 'h) tui_state =
  ts_focus :: panel
  ts_entries :: "entry list"
  ts_tld_rows :: "tld_info list"
  ts_info :: "status_info option"
  ts_usage :: "'u option"
  ts_history :: 'h
  ts_error :: "tui_error option"
  ts_entries_sel :: "nat option"
  ts_tlds_sel :: "nat option"
  ts_services :: "service_status_info list"
  ts_services_sel :: "nat option"
  ts_logs :: "log_view option"
  ts_modal :: modal
  ts_online :: bool
  ts_schemes :: "(string, string) hmap"

definition tui_default :: "'h \<Rightarrow> ('u, 'h) tui_state" where
  "tui_default no_history =
     \<lparr>ts_focus = PanelEntries, ts_entries = [], ts_tld_rows = [], ts_info = None, ts_usage = None, ts_history = no_history,
      ts_error = None, ts_entries_sel = None, ts_tlds_sel = None, ts_services = [], ts_services_sel = None,
      ts_logs = None, ts_modal = ModalNone, ts_online = False, ts_schemes = []\<rparr>"

section \<open>Schemes\<close>

definition entry_scheme :: "tld_info list \<Rightarrow> entry \<Rightarrow> string" where
  "entry_scheme tlds e =
     (if e_mode e = ModeTcp then ''tcp''
      else (let host = to_ascii_lowercase (e_host e) in
            case filter (\<lambda>t. let name = to_ascii_lowercase (ti_name t) in host = name \<or> ends_with (''.'' @ name) host) tlds of
              t # _ \<Rightarrow> if ti_tls_mode t = TlsOff then ''http'' else ''https''
            | [] \<Rightarrow> ''http''))"

definition compute_schemes :: "entry list \<Rightarrow> tld_info list \<Rightarrow> (string, string) hmap" where
  "compute_schemes entries tlds = foldl (\<lambda>m e. hm_insert (e_host e) (entry_scheme tlds e) m) [] entries"

definition scheme_of :: "('u, 'h) tui_state \<Rightarrow> entry \<Rightarrow> string" where
  "scheme_of st e = unwrap_or (hm_get (ts_schemes st) (e_host e)) ''http''"

section \<open>Refreshing\<close>

record ('u, 'h) refresh_data =
  rd_entries :: "entry list"
  rd_tlds :: "tld_info list"
  rd_status :: status_info
  rd_usage :: "'u option"
  rd_history :: 'h
  rd_services :: "service_status_info list"

definition clamp_selection :: "nat option \<Rightarrow> nat \<Rightarrow> nat option" where
  "clamp_selection sel len =
     (if len = 0 then None
      else case sel of None \<Rightarrow> Some 0 | Some i \<Rightarrow> if i \<ge> len then Some (len - 1) else Some i)"

text \<open>The six requests go out side by side; here in the order they are written. Each only reads.\<close>

definition fetch_all ::
  "('d, 'u, 'h) client_env \<Rightarrow> 'h \<Rightarrow> 'd daemon_link \<Rightarrow> (client_error + ('u, 'h) refresh_data) \<times> 'd daemon_link" where
  "fetch_all env no_history l =
     (case expecting env ReqListEntries pick_entries l of (entries, l) \<Rightarrow>
      case expecting env ReqTldList (\<lambda>r. case r of RespTlds ts \<Rightarrow> Some ts | _ \<Rightarrow> None) l of (tlds, l) \<Rightarrow>
      case expecting env ReqStatus pick_status l of (info, l) \<Rightarrow>
      case expecting env ReqResourceUsage (\<lambda>r. case r of RespResourceUsage u \<Rightarrow> Some u | _ \<Rightarrow> None) l of (usage, l) \<Rightarrow>
      case expecting env ReqResourceHistory (\<lambda>r. case r of RespResourceHistory h \<Rightarrow> Some h | _ \<Rightarrow> None) l of (history, l) \<Rightarrow>
      case expecting env ReqServiceStatus pick_services l of (services, l) \<Rightarrow>
        (and_then entries (\<lambda>es. and_then tlds (\<lambda>ts. and_then info (\<lambda>s. Inr
           \<lparr>rd_entries = es, rd_tlds = ts, rd_status = s, rd_usage = (case usage of Inr u \<Rightarrow> Some u | Inl _ \<Rightarrow> None),
            rd_history = (case history of Inr h \<Rightarrow> h | Inl _ \<Rightarrow> no_history),
            rd_services = (case services of Inr ss \<Rightarrow> ss | Inl _ \<Rightarrow> [])\<rparr>))), l))"

definition apply_refresh :: "client_error + ('u, 'h) refresh_data \<Rightarrow> ('u, 'h) tui_state \<Rightarrow> ('u, 'h) tui_state" where
  "apply_refresh outcome st =
     (case outcome of
        Inr data \<Rightarrow>
          st\<lparr>ts_entries := rd_entries data, ts_tld_rows := rd_tlds data, ts_info := Some (rd_status data),
             ts_usage := rd_usage data, ts_history := rd_history data, ts_services := rd_services data,
             ts_schemes := compute_schemes (rd_entries data) (rd_tlds data), ts_online := True,
             ts_entries_sel := clamp_selection (ts_entries_sel st) (length (rd_entries data)),
             ts_tlds_sel := clamp_selection (ts_tlds_sel st) (length (rd_tlds data)),
             ts_services_sel := clamp_selection (ts_services_sel st) (length (rd_services data))\<rparr>
      | Inl _ \<Rightarrow> st\<lparr>ts_online := False, ts_usage := None\<rparr>)"

text \<open>The world a key works on: the connection, and what is done outside the terminal.\<close>

record 'd desk =
  dk_link :: "'d daemon_link"
  dk_runs :: "string list list"
  dk_opened :: "string list"
  dk_copied :: "string list"

record ('d, 'u, 'h) tui_env =
  te_client :: "('d, 'u, 'h) client_env"
  te_no_history :: 'h
  te_suspend_ok :: bool
  te_resume_ok :: bool
  te_binary_ok :: bool
  te_cli :: "string list \<Rightarrow> 'd \<Rightarrow> bool option \<times> 'd"  \<comment> \<open>\<open>None\<close>: it could not be run\<close>

definition refresh ::
  "('d, 'u, 'h) tui_env \<Rightarrow> ('u, 'h) tui_state \<times> 'd desk \<Rightarrow> ('u, 'h) tui_state \<times> 'd desk" where
  "refresh te sw =
     (case fetch_all (te_client te) (te_no_history te) (dk_link (snd sw)) of
        (outcome, l) \<Rightarrow> (apply_refresh outcome (fst sw), (snd sw)\<lparr>dk_link := l\<rparr>))"

definition logs_request :: "log_view \<Rightarrow> request" where
  "logs_request v =
     (if lv_primed v then ReqLogsQuery (lv_service v) (Some (lv_cursor v)) 500 else ReqLogsQuery (lv_service v) None 200)"

definition poll_logs ::
  "('d, 'u, 'h) tui_env \<Rightarrow> ('u, 'h) tui_state \<times> 'd desk \<Rightarrow> ('u, 'h) tui_state \<times> 'd desk" where
  "poll_logs te sw =
     (case ts_logs (fst sw) of
        None \<Rightarrow> sw
      | Some v \<Rightarrow>
          (case expecting (te_client te) (logs_request v) pick_logs (dk_link (snd sw)) of
             (Inr (lines, last_id), l) \<Rightarrow>
               ((fst sw)\<lparr>ts_logs := Some (ingest lines last_id (v\<lparr>lv_primed := True\<rparr>))\<rparr>, (snd sw)\<lparr>dk_link := l\<rparr>)
           | (Inl _, l) \<Rightarrow> (fst sw, (snd sw)\<lparr>dk_link := l\<rparr>)))"

section \<open>Selections\<close>

definition next_index :: "nat option \<Rightarrow> int \<Rightarrow> nat \<Rightarrow> nat option" where
  "next_index sel delta len = (if len = 0 then sel else Some (nat ((int (unwrap_or sel 0) + delta) mod int len)))"

definition update_sel ::
  "(nat option \<Rightarrow> nat \<Rightarrow> nat option) \<Rightarrow> ('u, 'h) tui_state \<Rightarrow> ('u, 'h) tui_state" where
  "update_sel f st =
     (case ts_focus st of
        PanelEntries \<Rightarrow> st\<lparr>ts_entries_sel := f (ts_entries_sel st) (length (ts_entries st))\<rparr>
      | PanelTlds \<Rightarrow> st\<lparr>ts_tlds_sel := f (ts_tlds_sel st) (length (ts_tld_rows st))\<rparr>
      | PanelServices \<Rightarrow> st\<lparr>ts_services_sel := f (ts_services_sel st) (length (ts_services st))\<rparr>
      | _ \<Rightarrow> st)"

definition move_sel :: "int \<Rightarrow> ('u, 'h) tui_state \<Rightarrow> ('u, 'h) tui_state" where
  "move_sel delta st = update_sel (\<lambda>sel len. next_index sel delta len) st"

definition select_first :: "('u, 'h) tui_state \<Rightarrow> ('u, 'h) tui_state" where
  "select_first st = update_sel (\<lambda>sel len. if len = 0 then sel else Some 0) st"

definition select_last :: "('u, 'h) tui_state \<Rightarrow> ('u, 'h) tui_state" where
  "select_last st = update_sel (\<lambda>sel len. if len = 0 then sel else Some (len - 1)) st"

definition nth_opt :: "'a list \<Rightarrow> nat option \<Rightarrow> 'a option" where
  "nth_opt xs sel = (case sel of Some i \<Rightarrow> if i < length xs then Some (xs ! i) else None | None \<Rightarrow> None)"

definition selected_entry :: "('u, 'h) tui_state \<Rightarrow> entry option" where
  "selected_entry st = nth_opt (ts_entries st) (ts_entries_sel st)"

definition selected_tld :: "('u, 'h) tui_state \<Rightarrow> tld_info option" where
  "selected_tld st = nth_opt (ts_tld_rows st) (ts_tlds_sel st)"

definition selected_service :: "('u, 'h) tui_state \<Rightarrow> service_status_info option" where
  "selected_service st = nth_opt (ts_services st) (ts_services_sel st)"

section \<open>Changes\<close>

type_synonym ('d, 'r) tui_act = "'d desk \<Rightarrow> (tui_error + 'r) \<times> 'd desk"

definition ask_ok :: "('d, 'u, 'h) tui_env \<Rightarrow> request \<Rightarrow> ('d, unit) tui_act" where
  "ask_ok te req w =
     (case expecting (te_client te) req pick_ok (dk_link w) of (r, l) \<Rightarrow> (map_err TuiClient r, w\<lparr>dk_link := l\<rparr>))"

definition mutate_bridge :: "('d, 'u, 'h) tui_env \<Rightarrow> request \<Rightarrow> bool \<Rightarrow> ('d, unit) tui_act" where
  "mutate_bridge te req desired w =
     (case ask_ok te req w of
        (Inl e, w) \<Rightarrow> (Inl e, w)
      | (Inr _, w) \<Rightarrow>
          (case wait_for_bridge_state (te_client te) desired (dk_link w) of
             (r, l) \<Rightarrow> (map_err TuiClient r, w\<lparr>dk_link := l\<rparr>)))"

text \<open>The command line as a child, with the terminal suspended around it.\<close>

definition run_cli :: "('d, 'u, 'h) tui_env \<Rightarrow> string list \<Rightarrow> tui_error \<Rightarrow> ('d, unit) tui_act" where
  "run_cli te args failed w =
     (if \<not> te_suspend_ok te then (Inl TuiTerminal, w)
      else
        (let (r, w) =
           (if \<not> te_binary_ok te then (Inl TuiNoBinary, w)
            else (case te_cli te args (lk_daemon (dk_link w)) of
                    (outcome, d) \<Rightarrow>
                      (case outcome of None \<Rightarrow> Inl TuiSpawn | Some ok \<Rightarrow> if ok then Inr () else Inl failed,
                       w\<lparr>dk_link := (dk_link w)\<lparr>lk_daemon := d\<rparr>, dk_runs := dk_runs w @ [args]\<rparr>)))
         in if te_resume_ok te then (r, w) else (Inl TuiTerminal, w)))"

definition tld_add_args :: "string \<Rightarrow> bool \<Rightarrow> string list" where
  "tld_add_args name tls = [''tld'', ''add'', name, ''--tls'', if tls then ''mkcert'' else ''off'']"

definition mutate_toggle_tls :: "('d, 'u, 'h) tui_env \<Rightarrow> ('u, 'h) tui_state \<Rightarrow> ('d, unit) tui_act" where
  "mutate_toggle_tls te st w =
     (case selected_tld st of
        None \<Rightarrow> (Inl TuiNothingSelected, w)
      | Some t \<Rightarrow> run_cli te (tld_add_args (ti_name t) (ti_tls_mode t = TlsOff)) TuiAddFailed w)"

definition mutate_remove_current :: "('d, 'u, 'h) tui_env \<Rightarrow> ('u, 'h) tui_state \<Rightarrow> ('d, unit) tui_act" where
  "mutate_remove_current te st w =
     (case ts_focus st of
        PanelServices \<Rightarrow> (Inl TuiServicesManaged, w)
      | PanelLogs \<Rightarrow> (Inl TuiServicesManaged, w)
      | PanelEntries \<Rightarrow>
          (case selected_entry st of
             None \<Rightarrow> (Inl TuiNothingSelected, w)
           | Some e \<Rightarrow>
               if e_source e = SourceContainer then (Inl TuiContainerManaged, w)
               else ask_ok te (ReqRemoveStatic (e_host e)) w)
      | PanelTlds \<Rightarrow>
          (case selected_tld st of
             None \<Rightarrow> (Inl TuiNothingSelected, w)
           | Some t \<Rightarrow> run_cli te [''tld'', ''remove'', ti_name t] TuiRemoveFailed w)
      | PanelStatus \<Rightarrow> (Inr (), w))"

definition apply_result :: "tui_error + unit \<Rightarrow> ('u, 'h) tui_state \<Rightarrow> ('u, 'h) tui_state" where
  "apply_result r st = st\<lparr>ts_error := (case r of Inl e \<Rightarrow> Some e | Inr _ \<Rightarrow> None)\<rparr>"

text \<open>A change, its result shown, then a refresh in the foreground.\<close>

definition change ::
  "('d, 'u, 'h) tui_env \<Rightarrow> ('u, 'h) tui_state \<Rightarrow> ('d, unit) tui_act \<Rightarrow> 'd desk \<Rightarrow> ('u, 'h) tui_state \<times> 'd desk" where
  "change te st act w = (case act w of (r, w) \<Rightarrow> refresh te (apply_result r st, w))"

section \<open>Keys\<close>

datatype key =
  KChar string | KEnter | KEsc | KTab | KBackTab | KUp | KDown | KPageUp | KPageDown | KBackspace | KOther

fun pop_char_rev :: "string \<Rightarrow> string" where
  "pop_char_rev [] = []"
| "pop_char_rev (c # s) = (if starts_char c then s else pop_char_rev s)"

definition pop_char :: "string \<Rightarrow> string" where
  "pop_char s = rev (pop_char_rev (rev s))"

definition close_modal :: "('u, 'h) tui_state \<Rightarrow> ('u, 'h) tui_state" where
  "close_modal st = st\<lparr>ts_modal := ModalNone\<rparr>"

definition add_entry_key ::
  "('d, 'u, 'h) tui_env \<Rightarrow> key \<Rightarrow> string \<Rightarrow> string \<Rightarrow> bool \<Rightarrow> nat \<Rightarrow> ('u, 'h) tui_state \<times> 'd desk \<Rightarrow> ('u, 'h) tui_state \<times> 'd desk" where
  "add_entry_key te k host target tcp at sw =
     (let st = fst sw; edit = (\<lambda>m. (st\<lparr>ts_modal := m\<rparr>, snd sw)) in
      case k of
        KEsc \<Rightarrow> (close_modal st, snd sw)
      | KEnter \<Rightarrow>
          change te (close_modal st) (ask_ok te (ReqAddStatic host target (if tcp then ModeTcp else ModeHttp) None None)) (snd sw)
      | KTab \<Rightarrow> edit (ModalAddEntry host target tcp ((at + 1) mod 3))
      | KDown \<Rightarrow> edit (ModalAddEntry host target tcp ((at + 1) mod 3))
      | KUp \<Rightarrow> edit (ModalAddEntry host target tcp ((at + 1) mod 3))
      | KBackspace \<Rightarrow>
          if at < 2 then edit (if at = 0 then ModalAddEntry (pop_char host) target tcp at else ModalAddEntry host (pop_char target) tcp at)
          else sw
      | KChar c \<Rightarrow>
          if c = '' '' \<and> at = 2 then edit (ModalAddEntry host target (\<not> tcp) at)
          else if at < 2 then edit (if at = 0 then ModalAddEntry (host @ c) target tcp at else ModalAddEntry host (target @ c) tcp at)
          else sw
      | _ \<Rightarrow> sw)"

definition add_tld_key ::
  "('d, 'u, 'h) tui_env \<Rightarrow> key \<Rightarrow> string \<Rightarrow> bool \<Rightarrow> ('u, 'h) tui_state \<times> 'd desk \<Rightarrow> ('u, 'h) tui_state \<times> 'd desk" where
  "add_tld_key te k name tls sw =
     (let st = fst sw; edit = (\<lambda>m. (st\<lparr>ts_modal := m\<rparr>, snd sw)) in
      case k of
        KEsc \<Rightarrow> (close_modal st, snd sw)
      | KEnter \<Rightarrow> change te (close_modal st) (run_cli te (tld_add_args name tls) TuiAddFailed) (snd sw)
      | KTab \<Rightarrow> edit (ModalAddTld name (\<not> tls))
      | KBackspace \<Rightarrow> edit (ModalAddTld (pop_char name) tls)
      | KChar c \<Rightarrow> edit (ModalAddTld (name @ c) tls)
      | _ \<Rightarrow> sw)"

definition confirm_key ::
  "('d, 'u, 'h) tui_env \<Rightarrow> key \<Rightarrow> ('u, 'h) tui_state \<times> 'd desk \<Rightarrow> ('u, 'h) tui_state \<times> 'd desk" where
  "confirm_key te k sw =
     (if k \<in> {KEsc, KChar ''n'', KChar ''N''} then (close_modal (fst sw), snd sw)
      else if k \<in> {KEnter, KChar ''y'', KChar ''Y''} then
        change te (close_modal (fst sw)) (mutate_bridge te ReqBridgeDisable False) (snd sw)
      else sw)"

definition on_logs :: "(log_view \<Rightarrow> log_view) \<Rightarrow> ('u, 'h) tui_state \<Rightarrow> ('u, 'h) tui_state" where
  "on_logs f st = st\<lparr>ts_logs := map_option f (ts_logs st)\<rparr>"

text \<open>The keys of the log pane; \<open>None\<close> is one it does not take.\<close>

definition logs_key :: "key \<Rightarrow> ('u, 'h) tui_state \<Rightarrow> ('u, 'h) tui_state option" where
  "logs_key k st =
     (if k = KEsc then Some (st\<lparr>ts_logs := None, ts_focus := PanelServices\<rparr>)
      else if k \<in> {KChar ''j'', KDown} then Some (on_logs (scroll_down 1) st)
      else if k \<in> {KChar ''k'', KUp} then Some (on_logs (scroll_up 1) st)
      else if k = KPageDown then Some (on_logs (scroll_down 20) st)
      else if k = KPageUp then Some (on_logs (scroll_up 20) st)
      else if k = KChar ''G'' then Some (on_logs jump_to_bottom st)
      else None)"

definition bridge_key ::
  "('d, 'u, 'h) tui_env \<Rightarrow> ('u, 'h) tui_state \<times> 'd desk \<Rightarrow> ('u, 'h) tui_state \<times> 'd desk" where
  "bridge_key te sw =
     (if (case ts_info (fst sw) of Some s \<Rightarrow> si_bridge_enabled s | None \<Rightarrow> False)
      then ((fst sw)\<lparr>ts_modal := ModalConfirmBridgeDisable\<rparr>, snd sw)
      else change te (fst sw) (mutate_bridge te ReqBridgeEnable True) (snd sw))"

definition add_key :: "('u, 'h) tui_state \<Rightarrow> ('u, 'h) tui_state" where
  "add_key st =
     (case ts_focus st of
        PanelEntries \<Rightarrow> st\<lparr>ts_modal := ModalAddEntry [] [] False 0\<rparr>
      | PanelTlds \<Rightarrow> st\<lparr>ts_modal := ModalAddTld [] False\<rparr>
      | _ \<Rightarrow> st)"

definition open_key :: "('u, 'h) tui_state \<times> 'd desk \<Rightarrow> ('u, 'h) tui_state \<times> 'd desk" where
  "open_key sw =
     (case selected_entry (fst sw) of
        None \<Rightarrow> sw
      | Some e \<Rightarrow>
          if e_mode e = ModeTcp then (apply_result (Inl TuiTcpEntry) (fst sw), snd sw)
          else (fst sw, (snd sw)\<lparr>dk_opened := dk_opened (snd sw) @ [scheme_of (fst sw) e @ ''://'' @ e_host e]\<rparr>))"

definition copy_key :: "('u, 'h) tui_state \<times> 'd desk \<Rightarrow> ('u, 'h) tui_state \<times> 'd desk" where
  "copy_key sw =
     (case selected_entry (fst sw) of
        None \<Rightarrow> sw
      | Some e \<Rightarrow>
          (let text = (if e_mode e = ModeTcp
                       then e_host e @ '':'' @ (case rsplit_once CHR '':'' (e_target e) of Some (_, p) \<Rightarrow> p | None \<Rightarrow> [])
                       else scheme_of (fst sw) e @ ''://'' @ e_host e)
           in (fst sw, (snd sw)\<lparr>dk_copied := dk_copied (snd sw) @ [text]\<rparr>)))"

definition open_logs ::
  "('d, 'u, 'h) tui_env \<Rightarrow> ('u, 'h) tui_state \<times> 'd desk \<Rightarrow> ('u, 'h) tui_state \<times> 'd desk" where
  "open_logs te sw =
     (case selected_service (fst sw) of
        None \<Rightarrow> sw
      | Some s \<Rightarrow> poll_logs te ((fst sw)\<lparr>ts_logs := Some (log_view_new (ssi_name s)), ts_focus := PanelLogs\<rparr>, snd sw))"

text \<open>The keys that need the other end, then those that only move within the panels.\<close>

definition acting_key ::
  "('d, 'u, 'h) tui_env \<Rightarrow> key \<Rightarrow> ('u, 'h) tui_state \<times> 'd desk \<Rightarrow> (('u, 'h) tui_state \<times> 'd desk) option" where
  "acting_key te k sw =
     (let focus = ts_focus (fst sw) in
      if k \<in> {KEnter, KChar ''l''} \<and> focus = PanelServices then Some (open_logs te sw)
      else if k = KChar ''r'' then Some (refresh te sw)
      else if k = KChar ''b'' then Some (bridge_key te sw)
      else if k \<in> {KChar ''d'', KChar ''D''} then
        Some (change te (fst sw) (mutate_remove_current te (fst sw)) (snd sw))
      else if k = KChar ''t'' \<and> focus = PanelTlds then Some (change te (fst sw) (mutate_toggle_tls te (fst sw)) (snd sw))
      else if k = KChar ''o'' \<and> focus = PanelEntries then Some (open_key sw)
      else if k = KChar ''c'' \<and> focus = PanelEntries then Some (copy_key sw)
      else None)"

definition panel_key :: "key \<Rightarrow> ('u, 'h) tui_state \<Rightarrow> ('u, 'h) tui_state" where
  "panel_key k st =
     (if k = KChar ''?'' then st\<lparr>ts_modal := ModalHelp\<rparr>
      else if k \<in> {KTab, KChar '']''} then st\<lparr>ts_focus := panel_next (ts_focus st)\<rparr>
      else if k \<in> {KBackTab, KChar ''[''} then st\<lparr>ts_focus := panel_prev (ts_focus st)\<rparr>
      else if k = KChar ''1'' then st\<lparr>ts_focus := PanelStatus\<rparr>
      else if k = KChar ''2'' then st\<lparr>ts_focus := PanelEntries\<rparr>
      else if k = KChar ''3'' then st\<lparr>ts_focus := PanelTlds\<rparr>
      else if k = KChar ''4'' then st\<lparr>ts_focus := PanelServices\<rparr>
      else case (if ts_focus st = PanelLogs then logs_key k st else None) of
        Some st \<Rightarrow> st
      | None \<Rightarrow>
          if k \<in> {KChar ''j'', KDown} then move_sel 1 st
          else if k \<in> {KChar ''k'', KUp} then move_sel (- 1) st
          else if k = KChar ''g'' then select_first st
          else if k = KChar ''G'' then select_last st
          else if k = KChar ''a'' then add_key st
          else st)"

definition modal_key ::
  "('d, 'u, 'h) tui_env \<Rightarrow> key \<Rightarrow> ('u, 'h) tui_state \<times> 'd desk \<Rightarrow> (('u, 'h) tui_state \<times> 'd desk) option" where
  "modal_key te k sw =
     (case ts_modal (fst sw) of
        ModalNone \<Rightarrow> None
      | ModalHelp \<Rightarrow> Some (if k \<in> {KChar ''?'', KEsc, KEnter} then (close_modal (fst sw), snd sw) else sw)
      | ModalAddEntry host target tcp at \<Rightarrow> Some (add_entry_key te k host target tcp at sw)
      | ModalAddTld name tls \<Rightarrow> Some (add_tld_key te k name tls sw)
      | ModalConfirmBridgeDisable \<Rightarrow> Some (confirm_key te k sw))"

text \<open>\<open>handle_key\<close>: whether the UI goes on, and its state.\<close>

definition handle_key ::
  "('d, 'u, 'h) tui_env \<Rightarrow> key \<Rightarrow> ('u, 'h) tui_state \<times> 'd desk \<Rightarrow> bool \<times> ('u, 'h) tui_state \<times> 'd desk" where
  "handle_key te k sw =
     (case modal_key te k sw of
        Some sw \<Rightarrow> (True, sw)
      | None \<Rightarrow>
          if k \<in> {KChar ''q'', KChar ''Q''} then (False, sw)
          else (case acting_key te k sw of Some sw \<Rightarrow> (True, sw) | None \<Rightarrow> (True, panel_key k (fst sw), snd sw)))"

section \<open>The event loop\<close>

text \<open>
  A background refresh is a task of its own: \<open>tl_running\<close> are those under way, \<open>tl_results\<close> the
  channel they answer on. What else changes the daemon between two events is part of the event.
\<close>

record ('d, 'u, 'h) tui_loop =
  tl_state :: "('u, 'h) tui_state"
  tl_desk :: "'d desk"
  tl_inflight :: bool
  tl_running :: nat
  tl_results :: "(client_error + ('u, 'h) refresh_data) list"
  tl_quit :: bool

datatype 'd tui_event = LoopTick | LoopFetched | LoopResult | LoopLogTick | LoopKey key | LoopWorld "'d \<Rightarrow> 'd"

definition loop_start :: "'h \<Rightarrow> 'd daemon_link \<Rightarrow> ('d, 'u, 'h) tui_loop" where
  "loop_start no_history l =
     \<lparr>tl_state = tui_default no_history, tl_desk = \<lparr>dk_link = l, dk_runs = [], dk_opened = [], dk_copied = []\<rparr>,
      tl_inflight = True, tl_running = 1, tl_results = [], tl_quit = False\<rparr>"

definition with_both :: "('d, 'u, 'h) tui_loop \<Rightarrow> ('u, 'h) tui_state \<times> 'd desk \<Rightarrow> ('d, 'u, 'h) tui_loop" where
  "with_both lp sw = lp\<lparr>tl_state := fst sw, tl_desk := snd sw\<rparr>"

definition on_tick :: "('d, 'u, 'h) tui_env \<Rightarrow> ('d, 'u, 'h) tui_loop \<Rightarrow> ('d, 'u, 'h) tui_loop" where
  "on_tick te lp =
     (let lp = (if tl_inflight lp then lp else lp\<lparr>tl_inflight := True, tl_running := tl_running lp + 1\<rparr>)
      in if ts_logs (tl_state lp) \<noteq> None \<and> ts_focus (tl_state lp) \<noteq> PanelLogs
         then with_both lp (poll_logs te (tl_state lp, tl_desk lp)) else lp)"

fun tui_step :: "('d, 'u, 'h) tui_env \<Rightarrow> ('d, 'u, 'h) tui_loop \<Rightarrow> 'd tui_event \<Rightarrow> ('d, 'u, 'h) tui_loop" where
  "tui_step te lp LoopTick = (if tl_quit lp then lp else on_tick te lp)"
| "tui_step te lp LoopFetched =
     (if tl_running lp = 0 then lp
      else (case fetch_all (te_client te) (te_no_history te) (dk_link (tl_desk lp)) of
              (outcome, l) \<Rightarrow>
                lp\<lparr>tl_desk := (tl_desk lp)\<lparr>dk_link := l\<rparr>, tl_running := tl_running lp - 1, tl_results := tl_results lp @ [outcome]\<rparr>))"
| "tui_step te lp LoopResult =
     (if tl_quit lp then lp
      else (case tl_results lp of
              [] \<Rightarrow> lp
            | outcome # rest \<Rightarrow>
                lp\<lparr>tl_inflight := False, tl_state := apply_refresh outcome (tl_state lp), tl_results := rest\<rparr>))"
| "tui_step te lp LoopLogTick =
     (if tl_quit lp \<or> ts_focus (tl_state lp) \<noteq> PanelLogs then lp
      else with_both lp (poll_logs te (tl_state lp, tl_desk lp)))"
| "tui_step te lp (LoopKey k) =
     (if tl_quit lp then lp
      else (case handle_key te k (tl_state lp, tl_desk lp) of
              (go, sw) \<Rightarrow> (with_both lp sw)\<lparr>tl_quit := \<not> go\<rparr>))"
| "tui_step te lp (LoopWorld f) =
     lp\<lparr>tl_desk := (tl_desk lp)\<lparr>dk_link := (dk_link (tl_desk lp))\<lparr>lk_daemon := f (lk_daemon (dk_link (tl_desk lp)))\<rparr>\<rparr>\<rparr>"

definition tui_run :: "('d, 'u, 'h) tui_env \<Rightarrow> 'd tui_event list \<Rightarrow> ('d, 'u, 'h) tui_loop \<Rightarrow> ('d, 'u, 'h) tui_loop" where
  "tui_run te evs lp = foldl (tui_step te) lp evs"

section \<open>The state stays well-formed\<close>

definition sel_ok :: "nat option \<Rightarrow> nat \<Rightarrow> bool" where
  "sel_ok sel len \<longleftrightarrow> (case sel of None \<Rightarrow> len = 0 | Some i \<Rightarrow> i < len)"

definition log_view_ok :: "log_view \<Rightarrow> bool" where
  "log_view_ok v \<longleftrightarrow> length (lv_lines v) \<le> LOG_SCROLLBACK_LINES \<and> lv_scroll v \<le> length (lv_lines v) - 1 \<and>
     (lv_follow v \<longrightarrow> lv_scroll v = 0)"

definition tui_ok :: "('u, 'h) tui_state \<Rightarrow> bool" where
  "tui_ok st \<longleftrightarrow>
     sel_ok (ts_entries_sel st) (length (ts_entries st)) \<and> sel_ok (ts_tlds_sel st) (length (ts_tld_rows st)) \<and>
     sel_ok (ts_services_sel st) (length (ts_services st)) \<and>
     (ts_focus st = PanelLogs \<longrightarrow> ts_logs st \<noteq> None) \<and> pred_option log_view_ok (ts_logs st)"

lemma log_view_ok_new: "log_view_ok (log_view_new s)"
  by (simp add: log_view_ok_def log_view_new_def)

lemma log_view_ok_ingest: "log_view_ok v \<Longrightarrow> log_view_ok (ingest lines last_id v)"
  by (auto simp: log_view_ok_def ingest_def Let_def scroll_clamped_def)

lemma log_view_ok_scroll:
  "log_view_ok v \<Longrightarrow> log_view_ok (scroll_up n v)" "log_view_ok v \<Longrightarrow> log_view_ok (scroll_down n v)"
  "log_view_ok v \<Longrightarrow> log_view_ok (jump_to_bottom v)"
  by (auto simp: log_view_ok_def scroll_up_def scroll_down_def jump_to_bottom_def scroll_clamped_def Let_def)

lemma log_view_ok_primed [simp]: "log_view_ok (v\<lparr>lv_primed := b\<rparr>) = log_view_ok v"
  by (simp add: log_view_ok_def)

lemma sel_ok_clamp: "sel_ok (clamp_selection sel len) len"
  by (auto simp: sel_ok_def clamp_selection_def split: option.split)

lemma tui_ok_default: "tui_ok (tui_default nh)"
  by (simp add: tui_ok_def tui_default_def sel_ok_def)

lemma tui_ok_refreshed: "tui_ok st \<Longrightarrow> tui_ok (apply_refresh outcome st)"
  by (auto simp: tui_ok_def apply_refresh_def sel_ok_clamp split: sum.split)

lemma tui_ok_refresh: "tui_ok (fst sw) \<Longrightarrow> tui_ok (fst (refresh te sw))"
  by (simp add: refresh_def tui_ok_refreshed split: prod.split)

lemma tui_ok_poll: "tui_ok (fst sw) \<Longrightarrow> tui_ok (fst (poll_logs te sw))"
  by (auto simp: poll_logs_def tui_ok_def log_view_ok_ingest split: option.split prod.split sum.split)

lemma tui_ok_result [simp]: "tui_ok (apply_result r st) = tui_ok st"
  by (simp add: apply_result_def tui_ok_def)

lemma tui_ok_modal [simp]: "tui_ok (st\<lparr>ts_modal := m\<rparr>) = tui_ok st"
  by (simp add: tui_ok_def)

lemma tui_ok_change: "tui_ok st \<Longrightarrow> tui_ok (fst (change te st act w))"
  by (simp add: change_def tui_ok_refresh split: prod.split)

lemma tui_ok_update_sel:
  assumes "tui_ok st" and "\<And>sel len. sel_ok sel len \<Longrightarrow> sel_ok (f sel len) len"
  shows "tui_ok (update_sel f st)"
  using assms by (cases "ts_focus st") (simp_all add: update_sel_def tui_ok_def)

lemma sel_ok_next: "sel_ok sel len \<Longrightarrow> sel_ok (next_index sel delta len) len"
  by (auto simp: sel_ok_def next_index_def nat_less_iff)

lemma tui_ok_moves:
  assumes "tui_ok st"
  shows "tui_ok (move_sel delta st)" "tui_ok (select_first st)" "tui_ok (select_last st)"
proof -
  show "tui_ok (move_sel delta st)" unfolding move_sel_def by (rule tui_ok_update_sel [OF assms]) (rule sel_ok_next)
  show "tui_ok (select_first st)" unfolding select_first_def by (rule tui_ok_update_sel [OF assms]) (auto simp: sel_ok_def)
  show "tui_ok (select_last st)" unfolding select_last_def by (rule tui_ok_update_sel [OF assms]) (auto simp: sel_ok_def)
qed

lemma tui_ok_logs_key: "tui_ok st \<Longrightarrow> logs_key k st = Some st' \<Longrightarrow> tui_ok st'"
  by (auto simp: logs_key_def on_logs_def tui_ok_def log_view_ok_scroll pred_option_def split: if_splits)

lemma tui_ok_focus: "tui_ok st \<Longrightarrow> p \<noteq> PanelLogs \<or> ts_focus st = PanelLogs \<Longrightarrow> tui_ok (st\<lparr>ts_focus := p\<rparr>)"
  by (auto simp: tui_ok_def)

lemma panel_cycle: "panel_next p = PanelLogs \<longleftrightarrow> p = PanelLogs" "panel_prev p = PanelLogs \<longleftrightarrow> p = PanelLogs"
  by (cases p; simp)+

lemma tui_ok_add_key: "tui_ok st \<Longrightarrow> tui_ok (add_key st)"
  by (simp add: add_key_def split: panel.split)

lemma tui_ok_if: "(b \<Longrightarrow> tui_ok x) \<Longrightarrow> (\<not> b \<Longrightarrow> tui_ok y) \<Longrightarrow> tui_ok (if b then x else y)"
  by simp

lemma pred_option_if: "(b \<Longrightarrow> pred_option P x) \<Longrightarrow> (\<not> b \<Longrightarrow> pred_option P y) \<Longrightarrow> pred_option P (if b then x else y)"
  by simp

lemma tui_ok_panel_key:
  assumes "tui_ok st"
  shows "tui_ok (panel_key k st)"
proof -
  have focus: "tui_ok (st\<lparr>ts_focus := p\<rparr>)" if "p \<noteq> PanelLogs \<or> ts_focus st = PanelLogs" for p
    using assms that by (rule tui_ok_focus)
  have next_prev: "tui_ok (st\<lparr>ts_focus := panel_next (ts_focus st)\<rparr>)" "tui_ok (st\<lparr>ts_focus := panel_prev (ts_focus st)\<rparr>)"
    by (rule focus, use panel_cycle in blast)+
  have fixed: "tui_ok (st\<lparr>ts_focus := PanelStatus\<rparr>)" "tui_ok (st\<lparr>ts_focus := PanelEntries\<rparr>)"
    "tui_ok (st\<lparr>ts_focus := PanelTlds\<rparr>)" "tui_ok (st\<lparr>ts_focus := PanelServices\<rparr>)" by (rule focus, simp)+
  have shows_help: "tui_ok (st\<lparr>ts_modal := ModalHelp\<rparr>)" using assms by simp
  define L where "L = (if ts_focus st = PanelLogs then logs_key k st else None)"
  have logs: "tui_ok st'" if "L = Some st'" for st'
    using tui_ok_logs_key [OF assms, of k st'] that by (cases "ts_focus st = PanelLogs") (simp_all add: L_def)
  have "tui_ok (case L of Some st \<Rightarrow> st
      | None \<Rightarrow> if k \<in> {KChar ''j'', KDown} then move_sel 1 st
          else if k \<in> {KChar ''k'', KUp} then move_sel (- 1) st
          else if k = KChar ''g'' then select_first st
          else if k = KChar ''G'' then select_last st
          else if k = KChar ''a'' then add_key st
          else st)"
  proof (cases L)
    case None
    show ?thesis unfolding None option.case
      by (intro tui_ok_if tui_ok_moves [OF assms] tui_ok_add_key [OF assms] assms)
  qed (simp add: logs)
  then show ?thesis unfolding panel_key_def L_def [symmetric] by (intro tui_ok_if shows_help next_prev fixed)
qed

lemma tui_ok_close [simp]: "tui_ok (close_modal st) = tui_ok st"
  by (simp add: close_modal_def)

lemma tui_ok_modal_key:
  assumes "tui_ok (fst sw)"
  shows "pred_option (tui_ok \<circ> fst) (modal_key te k sw)"
proof (cases "ts_modal (fst sw)")
  case (ModalAddEntry host target tcp at)
  have "tui_ok (fst (add_entry_key te k host target tcp at sw))"
    using assms by (cases k) (simp_all add: add_entry_key_def Let_def tui_ok_change)
  then show ?thesis by (simp add: modal_key_def ModalAddEntry)
next
  case (ModalAddTld name tls)
  have "tui_ok (fst (add_tld_key te k name tls sw))"
    using assms by (cases k) (simp_all add: add_tld_key_def Let_def tui_ok_change)
  then show ?thesis by (simp add: modal_key_def ModalAddTld)
next
  case ModalConfirmBridgeDisable
  have "tui_ok (fst (confirm_key te k sw))"
    unfolding confirm_key_def if_distrib [of fst] by (intro tui_ok_if) (simp_all add: assms tui_ok_change)
  then show ?thesis by (simp add: modal_key_def ModalConfirmBridgeDisable)
next
  case ModalHelp
  then show ?thesis using assms by (simp add: modal_key_def)
qed (simp add: modal_key_def)

lemma tui_ok_open_logs:
  assumes "tui_ok (fst sw)"
  shows "tui_ok (fst (open_logs te sw))"
proof (cases "selected_service (fst sw)")
  case (Some s)
  have "tui_ok ((fst sw)\<lparr>ts_logs := Some (log_view_new (ssi_name s)), ts_focus := PanelLogs\<rparr>)"
    using assms by (simp add: tui_ok_def log_view_ok_new)
  then show ?thesis by (simp add: open_logs_def Some tui_ok_poll)
qed (simp add: open_logs_def assms)

lemma tui_ok_acting_key:
  assumes "tui_ok (fst sw)"
  shows "pred_option (tui_ok \<circ> fst) (acting_key te k sw)"
proof -
  have "tui_ok (fst (bridge_key te sw))" "tui_ok (fst (open_key sw))" "tui_ok (fst (copy_key sw))"
    using assms by (simp_all add: bridge_key_def open_key_def copy_key_def tui_ok_change Let_def split: option.split)
  then show ?thesis unfolding acting_key_def Let_def
    by (intro pred_option_if) (simp_all add: tui_ok_open_logs [OF assms] tui_ok_refresh [of sw, OF assms] tui_ok_change [OF assms])
qed

lemma tui_ok_handle_key:
  assumes "tui_ok (fst sw)"
  shows "tui_ok (fst (snd (handle_key te k sw)))"
  using tui_ok_modal_key [OF assms, of te k] tui_ok_acting_key [OF assms, of te k] tui_ok_panel_key [OF assms, of k] assms
  by (cases "modal_key te k sw"; cases "acting_key te k sw") (simp_all add: handle_key_def)

definition one_refresh :: "('d, 'u, 'h) tui_loop \<Rightarrow> bool" where
  "one_refresh lp \<longleftrightarrow> tl_running lp + length (tl_results lp) = (if tl_inflight lp then 1 else 0)"

lemma step_ok:
  assumes ok: "tui_ok (tl_state lp)" and one: "one_refresh lp"
  shows "tui_ok (tl_state (tui_step te lp ev)) \<and> one_refresh (tui_step te lp ev)"
proof -
  have poll: "tui_ok (fst (poll_logs te (tl_state lp, tl_desk lp)))" by (rule tui_ok_poll) (simp add: ok)
  show ?thesis
  proof (cases ev)
    case LoopTick
    then show ?thesis using ok one poll
      by (cases "tl_inflight lp") (simp_all add: on_tick_def with_both_def one_refresh_def Let_def)
  next
    case LoopFetched
    then show ?thesis using ok one by (auto simp: one_refresh_def split: prod.split if_splits)
  next
    case LoopResult
    then show ?thesis using ok one
      by (cases "tl_results lp"; cases "tl_inflight lp") (auto simp: one_refresh_def tui_ok_refreshed)
  next
    case LoopLogTick
    then show ?thesis using ok one poll by (cases "tl_inflight lp") (simp_all add: with_both_def one_refresh_def)
  next
    case (LoopKey k)
    obtain go sw where key: "handle_key te k (tl_state lp, tl_desk lp) = (go, sw)" by (rule prod.exhaust)
    with tui_ok_handle_key [of "(tl_state lp, tl_desk lp)" te k] ok have "tui_ok (fst sw)" by simp
    then show ?thesis using LoopKey key ok one by (cases "tl_inflight lp") (simp_all add: with_both_def one_refresh_def)
  next
    case (LoopWorld f)
    then show ?thesis using ok one by (simp add: one_refresh_def)
  qed
qed

text \<open>
  C20: Whatever keys, ticks and answers come, in any order and against any daemon: every panel with
  rows has one of them selected, the log pane holds at most 2000 lines and shows a part of them, and
  at most one background refresh is under way.
\<close>

theorem tui_stays_ok:
  fixes te :: "('d, 'u, 'h) tui_env"
  shows "tui_ok (tl_state (tui_run te evs (loop_start nh l))) \<and> one_refresh (tui_run te evs (loop_start nh l))"
proof -
  have "tui_ok (tl_state (foldl (tui_step te) lp evs)) \<and> one_refresh (foldl (tui_step te) lp evs)"
    if "tui_ok (tl_state lp) \<and> one_refresh lp" for lp :: "('d, 'u, 'h) tui_loop"
    using that by (induction evs arbitrary: lp) (simp_all add: step_ok)
  moreover have "tui_ok (tl_state (loop_start nh l :: ('d, 'u, 'h) tui_loop)) \<and> one_refresh (loop_start nh l :: ('d, 'u, 'h) tui_loop)"
    by (simp add: loop_start_def tui_ok_default one_refresh_def)
  ultimately show ?thesis unfolding tui_run_def by blast
qed

section \<open>What a key can change\<close>

definition tui_reads :: "request set" where
  "tui_reads = {ReqListEntries, ReqTldList, ReqStatus, ReqResourceUsage, ReqResourceHistory, ReqServiceStatus} \<union>
     {ReqLogsQuery s a n | s a n. True}"

text \<open>The one request for a change, and the one command, a key may lead to.\<close>

definition key_changes :: "('u, 'h) tui_state \<Rightarrow> key \<Rightarrow> request set" where
  "key_changes st k =
     (case ts_modal st of
        ModalAddEntry host target tcp _ \<Rightarrow>
          if k = KEnter then {ReqAddStatic host target (if tcp then ModeTcp else ModeHttp) None None} else {}
      | ModalConfirmBridgeDisable \<Rightarrow> if k \<in> {KEnter, KChar ''y'', KChar ''Y''} then {ReqBridgeDisable} else {}
      | ModalNone \<Rightarrow>
          if k = KChar ''b'' then {ReqBridgeEnable}
          else if k \<in> {KChar ''d'', KChar ''D''} \<and> ts_focus st = PanelEntries then
            {ReqRemoveStatic (e_host e) | e. selected_entry st = Some e \<and> e_source e \<noteq> SourceContainer}
          else {}
      | _ \<Rightarrow> {})"

definition key_runs :: "('u, 'h) tui_state \<Rightarrow> key \<Rightarrow> string list set" where
  "key_runs st k =
     (case ts_modal st of
        ModalAddTld name tls \<Rightarrow> if k = KEnter then {tld_add_args name tls} else {}
      | ModalNone \<Rightarrow>
          if ts_focus st = PanelTlds \<and> k = KChar ''t'' then
            {tld_add_args (ti_name t) (ti_tls_mode t = TlsOff) | t. selected_tld st = Some t}
          else if ts_focus st = PanelTlds \<and> k \<in> {KChar ''d'', KChar ''D''} then
            {[''tld'', ''remove'', ti_name t] | t. selected_tld st = Some t}
          else {}
      | _ \<Rightarrow> {})"

definition moves :: "('d, 'u, 'h) tui_env \<Rightarrow> request set \<Rightarrow> string list set \<Rightarrow> 'd desk \<Rightarrow> 'd desk \<Rightarrow> bool" where
  "moves te S R w w' \<longleftrightarrow> asks (te_client te) S (dk_link w) (dk_link w') \<and>
     (\<exists>runs. dk_runs w' = dk_runs w @ runs \<and> set runs \<subseteq> R)"

lemma moves_refl: "moves te S R w w"
  by (simp add: moves_def asks_nothing)

lemma moves_trans: "moves te S R w w1 \<Longrightarrow> moves te S R w1 w2 \<Longrightarrow> moves te S R w w2"
  unfolding moves_def by (auto intro: asks_trans)

lemma moves_mono: "moves te S R w w' \<Longrightarrow> S \<subseteq> S' \<Longrightarrow> R \<subseteq> R' \<Longrightarrow> moves te S' R' w w'"
  unfolding moves_def by (auto intro: asks_mono)

lemma moves_link: "asks (te_client te) S (dk_link w) l \<Longrightarrow> moves te S R w (w\<lparr>dk_link := l\<rparr>)"
  by (simp add: moves_def)

lemma fetch_all_asks: "fetch_all env nh l = (r, l') \<Longrightarrow> asks env tui_reads l l'"
  by (auto simp: fetch_all_def tui_reads_def split: prod.splits
      intro!: asks_trans [OF expecting_asks asks_trans [OF expecting_asks asks_trans [OF expecting_asks
        asks_trans [OF expecting_asks asks_trans [OF expecting_asks expecting_asks]]]]])

lemma refresh_moves: "moves te tui_reads R (snd sw) (snd (refresh te sw))"
  by (auto simp: refresh_def intro: moves_link fetch_all_asks split: prod.split)

lemma poll_logs_moves: "moves te tui_reads R (snd sw) (snd (poll_logs te sw))"
proof (cases "ts_logs (fst sw)")
  case (Some v)
  have "logs_request v \<in> tui_reads" by (simp add: logs_request_def tui_reads_def)
  then show ?thesis using Some
    by (auto simp: poll_logs_def split: prod.split sum.split intro!: moves_link intro: expecting_asks)
qed (simp add: poll_logs_def moves_refl)

lemma ask_ok_moves: "ask_ok te req w = (r, w') \<Longrightarrow> req \<in> S \<Longrightarrow> moves te S R w w'"
  by (auto simp: ask_ok_def split: prod.splits intro!: moves_link intro: expecting_asks)

lemma mutate_bridge_moves:
  assumes "mutate_bridge te req b w = (r, w')" and "req \<in> S" and "ReqStatus \<in> S"
  shows "moves te S R w w'"
proof -
  obtain x w1 where ask: "ask_ok te req w = (x, w1)" by (cases "ask_ok te req w")
  then have "moves te S R w w1" using assms(2) by (rule ask_ok_moves)
  moreover have "moves te S R w1 w'"
    using assms(1,3) ask by (auto simp: mutate_bridge_def moves_refl split: sum.splits prod.splits intro!: moves_link intro: wait_for_bridge_asks)
  ultimately show ?thesis by (rule moves_trans)
qed

lemma run_cli_moves: "run_cli te args failed w = (r, w') \<Longrightarrow> args \<in> R \<Longrightarrow> moves te S R w w'"
  by (auto simp: run_cli_def moves_def asks_nothing Let_def split: if_splits prod.splits)

lemma change_moves:
  assumes "\<And>r w'. act w = (r, w') \<Longrightarrow> moves te (tui_reads \<union> S) R w w'"
  shows "moves te (tui_reads \<union> S) R w (snd (change te st act w))"
proof -
  obtain r w1 where act: "act w = (r, w1)" by (cases "act w")
  have "moves te (tui_reads \<union> S) R w1 (snd (refresh te (apply_result r st, w1)))"
    using moves_mono [OF refresh_moves [of te R "(apply_result r st, w1)"], of "tui_reads \<union> S" R] by simp
  with assms [OF act] show ?thesis by (simp add: change_def act) (rule moves_trans)
qed

lemma change_bridge_moves:
  assumes "req \<in> S"
  shows "moves te (tui_reads \<union> S) R w (snd (change te st (mutate_bridge te req b) w))"
proof (rule change_moves)
  fix r w' assume "mutate_bridge te req b w = (r, w')"
  moreover have "req \<in> tui_reads \<union> S" "ReqStatus \<in> tui_reads \<union> S" using assms by (simp_all add: tui_reads_def)
  ultimately show "moves te (tui_reads \<union> S) R w w'" by (rule mutate_bridge_moves)
qed

lemma moves_opened: "moves te S R w (w\<lparr>dk_opened := x\<rparr>)" "moves te S R w (w\<lparr>dk_copied := x\<rparr>)"
  by (simp_all add: moves_def asks_nothing)

text \<open>Under a dialog, then in the panels.\<close>

lemma modal_key_moves:
  assumes "modal_key te k (st, w) = Some sw"
  shows "moves te (tui_reads \<union> key_changes st k) (key_runs st k) w (snd sw)"
proof (cases "ts_modal st")
  case (ModalAddEntry host target tcp at)
  let ?req = "ReqAddStatic host target (if tcp then ModeTcp else ModeHttp) None None"
  have sw: "sw = add_entry_key te k host target tcp at (st, w)" using assms ModalAddEntry by (simp add: modal_key_def)
  show ?thesis
  proof (cases "k = KEnter")
    case True
    have "?req \<in> key_changes st k" by (simp add: key_changes_def ModalAddEntry True)
    then show ?thesis unfolding sw True add_entry_key_def Let_def key.case
      by (auto intro!: change_moves elim!: ask_ok_moves simp: True)
  next
    case False
    then show ?thesis by (cases k) (simp_all add: sw add_entry_key_def Let_def moves_refl)
  qed
next
  case (ModalAddTld name tls)
  have sw: "sw = add_tld_key te k name tls (st, w)" using assms ModalAddTld by (simp add: modal_key_def)
  show ?thesis
  proof (cases "k = KEnter")
    case True
    have "tld_add_args name tls \<in> key_runs st k" by (simp add: key_runs_def ModalAddTld True)
    then show ?thesis unfolding sw True add_tld_key_def Let_def key.case
      by (auto intro!: change_moves elim!: run_cli_moves simp: True)
  next
    case False
    then show ?thesis by (cases k) (simp_all add: sw add_tld_key_def Let_def moves_refl)
  qed
next
  case ModalConfirmBridgeDisable
  have sw: "sw = confirm_key te k (st, w)" using assms ModalConfirmBridgeDisable by (simp add: modal_key_def)
  show ?thesis
  proof (cases "k \<in> {KEnter, KChar ''y'', KChar ''Y''}")
    case True
    then have req: "ReqBridgeDisable \<in> key_changes st k" by (simp add: key_changes_def ModalConfirmBridgeDisable)
    have no: "k \<notin> {KEsc, KChar ''n'', KChar ''N''}" using True by auto
    have "sw = change te (close_modal st) (mutate_bridge te ReqBridgeDisable False) w"
      unfolding sw confirm_key_def if_not_P [OF no] if_P [OF True] by simp
    then show ?thesis using req by (simp add: change_bridge_moves)
  next
    case False
    then have "snd sw = w" unfolding sw confirm_key_def if_not_P [OF False] by simp
    then show ?thesis by (simp add: moves_refl)
  qed
next
  case ModalHelp
  then have "snd sw = w" using assms by (auto simp: modal_key_def split: if_splits)
  then show ?thesis by (simp add: moves_refl)
qed (use assms in \<open>simp add: modal_key_def\<close>)

lemma remove_moves:
  assumes "mutate_remove_current te st w = (r, w')" and "ts_modal st = ModalNone" and "k \<in> {KChar ''d'', KChar ''D''}"
  shows "moves te (tui_reads \<union> key_changes st k) (key_runs st k) w w'"
proof -
  have k: "k \<noteq> KChar ''b''" "k \<noteq> KChar ''t''" using assms(3) by auto
  show ?thesis
  proof (cases "ts_focus st")
    case PanelEntries
    show ?thesis
    proof (cases "\<exists>e. selected_entry st = Some e \<and> e_source e \<noteq> SourceContainer")
      case True
      then obtain e where e: "selected_entry st = Some e" "e_source e \<noteq> SourceContainer" by blast
      have "ReqRemoveStatic (e_host e) \<in> key_changes st k"
        using e assms(3) k PanelEntries by (simp add: key_changes_def assms(2))
      moreover have "ask_ok te (ReqRemoveStatic (e_host e)) w = (r, w')"
        using assms(1) e PanelEntries by (simp add: mutate_remove_current_def)
      ultimately show ?thesis by (intro ask_ok_moves) auto
    next
      case False
      then have "w' = w" using assms(1) PanelEntries by (auto simp: mutate_remove_current_def split: option.splits if_splits)
      then show ?thesis by (simp add: moves_refl)
    qed
  next
    case PanelTlds
    show ?thesis
    proof (cases "selected_tld st")
      case (Some t)
      have "[''tld'', ''remove'', ti_name t] \<in> key_runs st k"
        using Some assms(3) k PanelTlds by (simp add: key_runs_def assms(2))
      moreover have "run_cli te [''tld'', ''remove'', ti_name t] TuiRemoveFailed w = (r, w')"
        using assms(1) Some PanelTlds by (simp add: mutate_remove_current_def)
      ultimately show ?thesis by (intro run_cli_moves)
    qed (use assms(1) PanelTlds in \<open>simp add: mutate_remove_current_def moves_refl\<close>)
  qed (use assms(1) in \<open>simp_all add: mutate_remove_current_def moves_refl\<close>)
qed

lemma toggle_moves:
  assumes "mutate_toggle_tls te st w = (r, w')" and "ts_modal st = ModalNone" and "ts_focus st = PanelTlds"
  shows "moves te S (key_runs st (KChar ''t'')) w w'"
proof (cases "selected_tld st")
  case (Some t)
  have "tld_add_args (ti_name t) (ti_tls_mode t = TlsOff) \<in> key_runs st (KChar ''t'')"
    using Some assms by (simp add: key_runs_def)
  moreover have "run_cli te (tld_add_args (ti_name t) (ti_tls_mode t = TlsOff)) TuiAddFailed w = (r, w')"
    using assms Some by (simp add: mutate_toggle_tls_def)
  ultimately show ?thesis by (intro run_cli_moves)
qed (use assms in \<open>simp add: mutate_toggle_tls_def moves_refl\<close>)

lemma bridge_key_moves:
  assumes "ts_modal st = ModalNone"
  shows "moves te (tui_reads \<union> key_changes st (KChar ''b'')) R w (snd (bridge_key te (st, w)))"
proof -
  have "ReqBridgeEnable \<in> key_changes st (KChar ''b'')" by (simp add: key_changes_def assms)
  then have "moves te (tui_reads \<union> key_changes st (KChar ''b'')) R w (snd (change te st (mutate_bridge te ReqBridgeEnable True) w))"
    by (rule change_bridge_moves)
  then show ?thesis by (simp add: bridge_key_def moves_refl)
qed

lemma reads_moves: "moves te tui_reads {} w w' \<Longrightarrow> moves te (tui_reads \<union> S) R w w'"
  by (erule moves_mono) auto

lemma acting_key_moves:
  assumes modal: "ts_modal st = ModalNone" and key: "acting_key te k (st, w) = Some sw"
  shows "moves te (tui_reads \<union> key_changes st k) (key_runs st k) w (snd sw)"
proof -
  consider (logs) "sw = open_logs te (st, w)" | (fresh) "sw = refresh te (st, w)" | (bridge) "k = KChar ''b''" "sw = bridge_key te (st, w)"
    | (del) "k \<in> {KChar ''d'', KChar ''D''}" "sw = change te st (mutate_remove_current te st) w"
    | (toggle) "k = KChar ''t''" "ts_focus st = PanelTlds" "sw = change te st (mutate_toggle_tls te st) w"
    | (browse) "sw = open_key (st, w)" | (clip) "sw = copy_key (st, w)"
    using key unfolding acting_key_def Let_def fst_conv snd_conv by (metis option.distinct(1) option.inject)
  then show ?thesis
  proof cases
    case logs
    have "moves te tui_reads {} w (snd (open_logs te (st, w)))"
      using poll_logs_moves [of te "{}" "(st\<lparr>ts_logs := Some (log_view_new n), ts_focus := PanelLogs\<rparr>, w)" for n]
      by (simp add: open_logs_def moves_refl split: option.split)
    then show ?thesis unfolding logs by (rule reads_moves)
  next
    case fresh
    have "moves te tui_reads {} w (snd (refresh te (st, w)))" using refresh_moves [of te "{}" "(st, w)"] by simp
    then show ?thesis unfolding fresh by (rule reads_moves)
  next
    case bridge
    then show ?thesis using bridge_key_moves [OF modal] by simp
  next
    case del
    show ?thesis unfolding del(2) by (rule change_moves) (rule remove_moves [OF _ modal del(1)])
  next
    case toggle
    show ?thesis unfolding toggle(1,3) by (rule change_moves) (rule toggle_moves [OF _ modal toggle(2)])
  next
    case browse
    then show ?thesis by (auto simp: open_key_def moves_refl moves_opened split: option.split)
  next
    case clip
    then show ?thesis by (auto simp: copy_key_def Let_def moves_refl moves_opened split: option.split)
  qed
qed

text \<open>
  C18: A key asks the daemon for at most what its panel or dialog stands for: apart from reading,
  only the confirmed rule is added, only the selected entry, when no container's, is removed, only
  a confirmed dialog turns the bridge off, and only the selected or entered TLD is handed to the
  command line.
\<close>

theorem keys_change_what_they_show:
  "moves te (tui_reads \<union> key_changes st k) (key_runs st k) w (snd (snd (handle_key te k (st, w))))"
proof (cases "modal_key te k (st, w)")
  case (Some sw)
  then show ?thesis using modal_key_moves [OF Some] by (simp add: handle_key_def)
next
  case None
  then have modal: "ts_modal st = ModalNone" by (simp add: modal_key_def split: modal.splits)
  show ?thesis
  proof (cases "acting_key te k (st, w)")
    case (Some sw)
    then show ?thesis using acting_key_moves [OF modal Some] None by (simp add: handle_key_def moves_refl)
  qed (simp add: handle_key_def None moves_refl)
qed

section \<open>The log pane\<close>

text \<open>
  The pane holds the newest lines of all it was given, and its cursor never goes back. While it
  follows, it stays at the bottom.
\<close>

lemma ingest_lines:
  "lv_lines (ingest lines last_id v) =
     (let all = lv_lines v @ map (\<lambda>l. (lli_stream l, lli_line l)) lines in drop (length all - LOG_SCROLLBACK_LINES) all)"
  by (simp add: ingest_def Let_def)

lemma ingest_cursor: "lv_cursor (ingest lines last_id v) = max (lv_cursor v) last_id"
  by (simp add: ingest_def Let_def)

lemma ingest_keeps_view:
  assumes "\<not> lv_follow v" and "length (lv_lines v) + length lines \<le> LOG_SCROLLBACK_LINES"
    and "lv_scroll v < length (lv_lines v)"
  shows "length (lv_lines (ingest lines last_id v)) - lv_scroll (ingest lines last_id v) = length (lv_lines v) - lv_scroll v"
  using assms by (simp add: ingest_def Let_def scroll_clamped_def)

section \<open>Findings\<close>

text \<open>
  With nested TLDs the UI takes the first that covers a host, the daemon any: a host under a TLD with
  TLS is opened over plain HTTP when a shorter one without it is listed first.
\<close>

lemma scheme_of_first_tld:
  "let e = \<lparr>e_host = ''web.zoo.test'', e_target = ''127.0.0.1:1'', e_source = SourceStatic, e_mode = ModeHttp,
            e_container_id = None, e_project = None, e_egress = None\<rparr>
   in entry_scheme [\<lparr>ti_name = ''test'', ti_tls_mode = TlsOff, ti_entry_count = 1\<rparr>,
        \<lparr>ti_name = ''zoo.test'', ti_tls_mode = TlsMkcert, ti_entry_count = 1\<rparr>] e = ''http'' \<and>
      tls_enabled_for_host \<lparr>ts_version = 1, ts_tlds = [(''zoo.test'', TlsMkcert)]\<rparr> ''web.zoo.test''"
  by code_simp

end
