(* ===== verification/Cli.thy ===== *)
theory Cli
  imports Client Tld
begin

text \<open>
  The commands of \<open>portman\<close> that drive the daemon: \<open>cmd/services.rs\<close>, \<open>cmd/tld.rs\<close>, \<open>cmd/bridge.rs\<close>,
  \<open>cmd/secrets.rs\<close> and those of \<open>main.rs\<close>. A command works on the connection and on what it prints; the
  repository's files, the resolver directory, \<open>sudo\<close>, standard input and the clock are parameters.
  Argument parsing is clap's, the formatting of resource gauges is left out.
\<close>

section \<open>The terminal\<close>

datatype tld_step = TldInvalid | TldModeInvalid | TldPeek | TldForeign path | TldMissing path | TldSudo

datatype settle_error = StPoll client_error | StServiceFailed | StTimeout "string list"

datatype 'j cli_error =
  CliClient client_error
| CliNoConfig path
| CliConfig "'j load_config_error"
| CliNothingDefined path
| CliNotDefined string
| CliSettle settle_error
| CliRootRelative
| CliNamesNeeded
| CliNoServices
| CliKey config_error
| CliStdin
| CliEmptyValue string
| CliTld tld_step
| CliBadMode
| CliBrowser

record 'd tty =
  tm_link :: "'d daemon_link"
  tm_out :: "string list"
  tm_err :: "string list"
  tm_resolver :: "path \<rightharpoonup> string"  \<comment> \<open>the resolver's directory\<close>

definition print :: "string list \<Rightarrow> 'd tty \<Rightarrow> 'd tty" where
  "print ls tm = tm\<lparr>tm_out := tm_out tm @ ls\<rparr>"

definition warn :: "string list \<Rightarrow> 'd tty \<Rightarrow> 'd tty" where
  "warn ls tm = tm\<lparr>tm_err := tm_err tm @ ls\<rparr>"

type_synonym ('d, 'j, 'a) command = "'d tty \<Rightarrow> ('j cli_error + 'a) \<times> 'd tty"

definition ask ::
  "('d, 'u, 'h) client_env \<Rightarrow> request \<Rightarrow> (('u, 'h) response \<Rightarrow> 'a option) \<Rightarrow> ('a \<Rightarrow> ('d, 'j, 'b) command) \<Rightarrow> ('d, 'j, 'b) command" where
  "ask env req pick k tm =
     (case expecting env req pick (tm_link tm) of
        (Inl e, l) \<Rightarrow> (Inl (CliClient e), tm\<lparr>tm_link := l\<rparr>)
      | (Inr x, l) \<Rightarrow> k x (tm\<lparr>tm_link := l\<rparr>))"

definition waiting ::
  "('d daemon_link \<Rightarrow> (client_error + unit) \<times> 'd daemon_link) \<Rightarrow> ('d, 'j, 'b) command \<Rightarrow> ('d, 'j, 'b) command" where
  "waiting wait k tm =
     (case wait (tm_link tm) of
        (Inl e, l) \<Rightarrow> (Inl (CliClient e), tm\<lparr>tm_link := l\<rparr>)
      | (Inr _, l) \<Rightarrow> k (tm\<lparr>tm_link := l\<rparr>))"

definition say :: "string list \<Rightarrow> ('d, 'j, unit) command" where
  "say ls tm = (Inr (), print ls tm)"

text \<open>Where a command runs: the repository above the working directory.\<close>

record 'j repo_env =
  re_cwd :: path
  re_is_file :: "path \<Rightarrow> bool"
  re_files :: "path \<Rightarrow> read_result"
  re_toml :: "string \<Rightarrow> 'j + raw_config"
  re_shlex :: "string \<Rightarrow> string list option"

text \<open>The search for dependencies always returns, so the last case of a load is never met.\<close>

definition load_root :: "'j repo_env \<Rightarrow> path \<Rightarrow> 'j cli_error + service_config" where
  "load_root re root =
     (case load_config (re_toml re) (re_shlex re) (re_files re) root of
        Some (Inr c) \<Rightarrow> Inr c
      | Some (Inl e) \<Rightarrow> Inl (CliConfig e)
      | None \<Rightarrow> Inl (CliConfig CfgMissing))"

definition load_repo_services :: "'j repo_env \<Rightarrow> 'j cli_error + service_config" where
  "load_repo_services re =
     (case discover_root (re_is_file re) (re_cwd re) of
        None \<Rightarrow> Inl (CliNoConfig (re_cwd re))
      | Some root \<Rightarrow> load_root re root)"

section \<open>Services\<close>

text \<open>\<open>ServiceState\<close> is written without regard to a width, so its column is not padded.\<close>

definition state_line :: "service_status_info \<Rightarrow> string" where
  "state_line s =
     pad_right 24 (ssi_name s) @ '' '' @ service_state_as_str (ssi_state s) @
     (if ssi_detail s = [] then [] else ''  ('' @ ssi_detail s @ '')'')"

definition status_row :: "nat \<Rightarrow> service_status_info \<Rightarrow> string" where
  "status_row width s =
     pad_right width (ssi_name s) @ ''  '' @ service_state_as_str (ssi_state s) @ ''  '' @
     pad_right 7 (case ssi_pid s of Some p \<Rightarrow> show_nat (unat p) | None \<Rightarrow> ''-'') @ ''  '' @
     pad_right 8 (show_nat (unat (ssi_restarts s))) @ ''  '' @
     pad_right 24 (unwrap_or (ssi_host s) ''-'') @ ''  '' @ ssi_detail s"

definition print_service_statuses :: "service_status_info list \<Rightarrow> string list" where
  "print_service_statuses services =
     (if services = [] then []
      else (let width = foldl max (length ''SERVICE'') (map (length \<circ> ssi_name) services) in
        [[], pad_right width ''SERVICE'' @ ''  STATE     PID      RESTARTS  '' @ pad_right 24 ''HOST'' @ ''  DETAIL''] @
        map (status_row width) services))"

definition settled :: "service_state \<Rightarrow> bool" where
  "settled s \<longleftrightarrow> s = SvcReady \<or> s = SvcStopped \<or> s = SvcFailed"

definition transitions ::
  "service_status_info list \<Rightarrow> (string, service_state) hmap \<Rightarrow> (string, service_state) hmap \<times> string list" where
  "transitions rows seen =
     foldl (\<lambda>(seen, out) s.
        if hm_get seen (ssi_name s) = Some (ssi_state s) then (seen, out)
        else (hm_insert (ssi_name s) (ssi_state s) seen, out @ [state_line s])) (seen, []) rows"

definition unresolved :: "string list \<Rightarrow> (string, service_state) hmap \<Rightarrow> string list" where
  "unresolved targets seen =
     filter (\<lambda>n. \<not> (case hm_get seen n of Some s \<Rightarrow> settled s | None \<Rightarrow> False)) targets"

text \<open>
  The poll number \<open>n\<close> comes 300 ms after the one before it, and \<open>extra n\<close> ms of other delays: the
  deadline of 120 s is met at the poll number 401 at the latest.
\<close>

function settle ::
  "('d, 'u, 'h) client_env \<Rightarrow> (nat \<Rightarrow> nat) \<Rightarrow> string list \<Rightarrow> nat \<Rightarrow> (string, service_state) hmap \<Rightarrow> 'd tty
   \<Rightarrow> (settle_error + unit) \<times> 'd tty" where
  "settle env extra targets n seen tm =
     (case expecting env ReqServiceStatus pick_services (tm_link tm) of
        (Inl e, l) \<Rightarrow> (Inl (StPoll e), tm\<lparr>tm_link := l\<rparr>)
      | (Inr services, l) \<Rightarrow>
          (let rows = filter (\<lambda>s. ssi_name s \<in> set targets) services;
               (seen, out) = transitions rows seen;
               tm = print out (tm\<lparr>tm_link := l\<rparr>)
           in if list_all (\<lambda>s. settled (ssi_state s)) rows
              then (if list_ex (\<lambda>s. ssi_state s = SvcFailed) rows then (Inl StServiceFailed, tm) else (Inr (), tm))
              else if 300 * n + extra n > 120000 then (Inl (StTimeout (unresolved targets seen)), tm)
              else settle env extra targets (n + 1) seen (tm\<lparr>tm_link := sleeping env (tm_link tm)\<rparr>)))"
  by pat_completeness auto
termination
  by (relation "measure (\<lambda>(env, extra, targets, n, seen, tm). 401 - n)") auto

declare settle.simps [simp del]

definition wait_and_print_outcome ::
  "('d, 'u, 'h) client_env \<Rightarrow> (nat \<Rightarrow> nat) \<Rightarrow> string list \<Rightarrow> ('d, 'j, unit) command" where
  "wait_and_print_outcome env extra targets tm = (case settle env extra targets 0 [] tm of (r, tm) \<Rightarrow> (map_err CliSettle r, tm))"

definition pick_report :: "('u, 'h) response \<Rightarrow> sync_report option" where
  "pick_report r = (case r of RespSyncReport rp \<Rightarrow> Some rp | _ \<Rightarrow> None)"

definition report_lines :: "sync_report \<Rightarrow> string list" where
  "report_lines rp =
     map (\<lambda>n. ''+ '' @ n) (rp_added rp) @ map (\<lambda>n. ''~ '' @ n @ '' (definition changed, restarting)'') (rp_updated rp) @
     map (\<lambda>n. ''- '' @ n @ '' (removed from config, stopped)'') (rp_removed rp)"

definition up_targets :: "service_config \<Rightarrow> string list \<Rightarrow> string list" where
  "up_targets config names = (if names = [] then map fst (sc_services config) else names)"

definition sync_request :: "service_config \<Rightarrow> request" where
  "sync_request config =
     ReqSyncServices (sc_root config) (map snd (sc_services config)) (sc_secrets config) (sc_egress config)"

definition start_synced ::
  "('d, 'u, 'h) client_env \<Rightarrow> (nat \<Rightarrow> nat) \<Rightarrow> service_config \<Rightarrow> string list \<Rightarrow> sync_report \<Rightarrow> ('d, 'j, unit) command" where
  "start_synced env extra config names rp tm =
     (let tm = print (report_lines rp) tm; targets = up_targets config names in
      if targets = [] then (Inr (), tm)
      else ask env (ReqServiceUp targets) pick_services (\<lambda>_. wait_and_print_outcome env extra targets) tm)"

definition cmd_up ::
  "('d, 'u, 'h) client_env \<Rightarrow> 'j repo_env \<Rightarrow> (nat \<Rightarrow> nat) \<Rightarrow> string list \<Rightarrow> ('d, 'j, unit) command" where
  "cmd_up env re extra names tm =
     (case load_repo_services re of
        Inl e \<Rightarrow> (Inl e, tm)
      | Inr config \<Rightarrow>
          if sc_services config = [] \<and> sc_egress config = [] then (Inl (CliNothingDefined (sc_root config)), tm)
          else case filter (\<lambda>n. \<not> bt_contains (sc_services config) n) names of
            n # _ \<Rightarrow> (Inl (CliNotDefined n), tm)
          | [] \<Rightarrow>
              ask env (sync_request config) pick_report (start_synced env extra config names) tm)"

text \<open>\<open>down\<close>: by name, of what the repository declares and owns, or forgetting it all.\<close>

definition forget_root ::
  "('d, 'u, 'h) client_env \<Rightarrow> path \<Rightarrow> ('d, 'j, unit) command" where
  "forget_root env root tm =
     ask env (ReqSyncServices root [] [] []) pick_report (\<lambda>rp.
       say ((''forgot service definitions owned by '' @ root) # map (\<lambda>n. ''- '' @ n @ '' (forgotten)'') (rp_removed rp))) tm"

definition down_named ::
  "('d, 'u, 'h) client_env \<Rightarrow> string list \<Rightarrow> ('d, 'j, unit) command" where
  "down_named env names tm =
     ask env (ReqServiceDown names) pick_services (\<lambda>services.
       say (map (\<lambda>s. pad_right 24 (ssi_name s) @ '' '' @ service_state_as_str (ssi_state s))
              (filter (\<lambda>s. ssi_name s \<in> set names) services))) tm"

definition owned_by :: "path \<Rightarrow> service_config \<Rightarrow> service_status_info list \<Rightarrow> string list" where
  "owned_by root config services =
     map ssi_name (filter (\<lambda>s. bt_contains (sc_services config) (ssi_name s) \<and> ssi_root s = Some root) services)"

definition skipped_lines :: "path \<Rightarrow> service_config \<Rightarrow> service_status_info list \<Rightarrow> string list" where
  "skipped_lines root config services =
     map (\<lambda>s. case ssi_root s of
         Some owner \<Rightarrow> ''skipping `'' @ ssi_name s @ ''`: owned by '' @ owner @ '', not this repo (name it to stop it anyway)''
       | None \<Rightarrow> ''skipping `'' @ ssi_name s @ ''`: the daemon did not report its owner (upgrade it, or name the service)'')
       (filter (\<lambda>s. bt_contains (sc_services config) (ssi_name s) \<and> ssi_root s \<noteq> Some root) services)"

definition stop_owned ::
  "('d, 'u, 'h) client_env \<Rightarrow> path \<Rightarrow> service_config \<Rightarrow> service_status_info list \<Rightarrow> ('d, 'j, unit) command" where
  "stop_owned env root config services tm =
     (let tm = warn (skipped_lines root config services) tm; names = owned_by root config services in
      if names = [] then say [''nothing to stop: no services owned by '' @ root] tm else down_named env names tm)"

definition down_owned ::
  "('d, 'u, 'h) client_env \<Rightarrow> 'j repo_env \<Rightarrow> ('d, 'j, unit) command" where
  "down_owned env re tm =
     (case discover_root (re_is_file re) (re_cwd re) of
        None \<Rightarrow> (Inl CliNamesNeeded, tm)
      | Some root \<Rightarrow>
          (case load_root re root of
             Inl e \<Rightarrow> (Inl e, tm)
           | Inr config \<Rightarrow>
               if sc_services config = [] then (Inl CliNoServices, tm)
               else ask env ReqServiceStatus pick_services (stop_owned env root config) tm))"

definition cmd_down ::
  "('d, 'u, 'h) client_env \<Rightarrow> 'j repo_env \<Rightarrow> string list \<Rightarrow> bool \<Rightarrow> path option \<Rightarrow> ('d, 'j, unit) command" where
  "cmd_down env re names forgetting explicit tm =
     (if forgetting then
        (case explicit of
           Some root \<Rightarrow> if is_absolute root then forget_root env root tm else (Inl CliRootRelative, tm)
         | None \<Rightarrow>
             (case load_repo_services re of Inl e \<Rightarrow> (Inl e, tm) | Inr config \<Rightarrow> forget_root env (sc_root config) tm))
      else if names = [] then down_owned env re tm
      else down_named env names tm)"

text \<open>\<open>logs\<close>: a first page, then \<open>polls\<close> more of them when following.\<close>

definition print_log_lines :: "log_line_info list \<Rightarrow> 'd tty \<Rightarrow> 'd tty" where
  "print_log_lines ls tm =
     foldl (\<lambda>tm l. if lli_stream l = ''stderr'' then warn [lli_line l] tm else print [lli_line l] tm) tm ls"

fun follow_logs :: "nat \<Rightarrow> ('d, 'u, 'h) client_env \<Rightarrow> string \<Rightarrow> int \<Rightarrow> ('d, 'j, int) command" where
  "follow_logs 0 env service cursor tm = (Inr cursor, tm)"
| "follow_logs (Suc n) env service cursor tm =
     ask env (ReqLogsQuery service (Some cursor) 200) pick_logs (\<lambda>(ls, last_id) tm.
       follow_logs n env service last_id (print_log_lines ls tm)) (tm\<lparr>tm_link := sleeping env (tm_link tm)\<rparr>)"

definition cmd_logs ::
  "('d, 'u, 'h) client_env \<Rightarrow> nat \<Rightarrow> string \<Rightarrow> bool \<Rightarrow> u32 \<Rightarrow> ('d, 'j, int) command" where
  "cmd_logs env polls service following lines tm =
     ask env (ReqLogsQuery service None lines) pick_logs (\<lambda>(ls, last_id) tm.
       let tm = print_log_lines ls tm in
       if following then follow_logs polls env service last_id tm else (Inr last_id, tm)) tm"

section \<open>TLDs\<close>

text \<open>\<open>sudo tee\<close> may fail before it opens the file or after it has written a part.\<close>

datatype tee_outcome = TeeOk | TeeFails "string option"

record tld_env =
  tn_os :: os
  tn_read_fails :: bool
  tn_mkdir_ok :: bool
  tn_tee :: tee_outcome
  tn_rm_ok :: bool
  tn_restart_notes :: "string list"  \<comment> \<open>of restarting \<open>systemd-resolved\<close>\<close>

definition peek_at :: "tld_env \<Rightarrow> string \<Rightarrow> 'd tty \<Rightarrow> tld_error + resolver_file_state" where
  "peek_at tn tld tm =
     peek_resolver (if tn_read_fails tn then Inl OtherIo
       else case tm_resolver tm (resolver_path (tn_os tn) tld) of Some text \<Rightarrow> Inr text | None \<Rightarrow> Inl NotFound)"

definition sudo_write :: "tld_env \<Rightarrow> path \<Rightarrow> string \<Rightarrow> 'd tty \<Rightarrow> bool \<times> 'd tty" where
  "sudo_write tn p text tm =
     (if \<not> tn_mkdir_ok tn then (False, tm)
      else (case tn_tee tn of
              TeeOk \<Rightarrow> (True, tm\<lparr>tm_resolver := (tm_resolver tm)(p \<mapsto> text)\<rparr>)
            | TeeFails None \<Rightarrow> (False, tm)
            | TeeFails (Some part) \<Rightarrow> (False, tm\<lparr>tm_resolver := (tm_resolver tm)(p \<mapsto> part)\<rparr>)))"

definition restart_resolved :: "tld_env \<Rightarrow> 'd tty \<Rightarrow> 'd tty" where
  "restart_resolved tn tm = (if tn_os tn = Linux then warn (tn_restart_notes tn) tm else tm)"

definition normalize_tls_mode_arg :: "string option \<Rightarrow> tls_parse_error + tls_mode option" where
  "normalize_tls_mode_arg tls =
     (case tls of None \<Rightarrow> Inr None | Some raw \<Rightarrow> and_then (parse_tls_mode raw) (\<lambda>m. Inr (Some m)))"

definition tld_added_lines :: "tld_env \<Rightarrow> string \<Rightarrow> tls_mode option \<Rightarrow> string list" where
  "tld_added_lines tn tld tls =
     [''added .'' @ tld @ (case tls of Some m \<Rightarrow> if m \<noteq> TlsOff then '' [TLS: '' @ tls_mode_as_str m @ '']'' else [] | None \<Rightarrow> []) @
        '' -> '' @ resolver_path (tn_os tn) tld,
      case tn_os tn of Macos \<Rightarrow> ''verify with: scutil --dns | grep -B1 '' @ tld
      | Linux \<Rightarrow> ''verify with: resolvectl query foo.'' @ tld]"

definition add_resolver ::
  "('d, 'u, 'h) client_env \<Rightarrow> tld_env \<Rightarrow> string \<Rightarrow> tls_mode option \<Rightarrow> ('d, 'j, unit) command" where
  "add_resolver env tn tld tls tm =
     ask env ReqStatus (\<lambda>r. map_option si_dns_port (pick_status r)) (\<lambda>port tm.
       let p = resolver_path (tn_os tn) tld; tm = warn [''writing '' @ p @ '' (sudo required)''] tm in
       case sudo_write tn p (resolver_file_contents (tn_os tn) tld port) tm of
         (False, tm) \<Rightarrow> (Inl (CliTld TldSudo), tm)
       | (True, tm) \<Rightarrow>
           ask env (ReqTldAdd tld tls) pick_ok (\<lambda>_. say (tld_added_lines tn tld tls)) (restart_resolved tn tm)) tm"

definition cmd_tld_add ::
  "('d, 'u, 'h) client_env \<Rightarrow> tld_env \<Rightarrow> string \<Rightarrow> string option \<Rightarrow> ('d, 'j, unit) command" where
  "cmd_tld_add env tn raw tls tm =
     (case validate_tld raw of Inl _ \<Rightarrow> (Inl (CliTld TldInvalid), tm) | Inr tld \<Rightarrow>
      case normalize_tls_mode_arg tls of Inl _ \<Rightarrow> (Inl (CliTld TldModeInvalid), tm) | Inr md \<Rightarrow>
        (let tm = warn (map (\<lambda>w. ''warning: '' @ w) (warnings_for_tld tld)) tm; p = resolver_path (tn_os tn) tld in
         case peek_at tn tld tm of
           Inl _ \<Rightarrow> (Inl (CliTld TldPeek), tm)
         | Inr ManagedByOther \<Rightarrow> (Inl (CliTld (TldForeign p)), tm)
         | Inr ManagedByPortman \<Rightarrow> add_resolver env tn tld md (warn [''re-writing '' @ p @ '' (already portman-managed)''] tm)
         | Inr Absent \<Rightarrow> add_resolver env tn tld md tm))"

definition cmd_tld_remove ::
  "('d, 'u, 'h) client_env \<Rightarrow> tld_env \<Rightarrow> string \<Rightarrow> ('d, 'j, unit) command" where
  "cmd_tld_remove env tn raw tm =
     (case validate_tld raw of Inl _ \<Rightarrow> (Inl (CliTld TldInvalid), tm) | Inr tld \<Rightarrow>
        (let p = resolver_path (tn_os tn) tld in
         case peek_at tn tld tm of
           Inl _ \<Rightarrow> (Inl (CliTld TldPeek), tm)
         | Inr Absent \<Rightarrow> (Inl (CliTld (TldMissing p)), tm)
         | Inr ManagedByOther \<Rightarrow> (Inl (CliTld (TldForeign p)), tm)
         | Inr ManagedByPortman \<Rightarrow>
             (let tm = warn [''removing '' @ p @ '' (sudo required)''] tm in
              if \<not> tn_rm_ok tn then (Inl (CliTld TldSudo), tm)
              else ask env (ReqTldRemove tld) pick_ok (\<lambda>_. say [''removed .'' @ tld])
                (restart_resolved tn (tm\<lparr>tm_resolver := (tm_resolver tm)(p := None)\<rparr>)))))"

definition tld_line :: "tld_info \<Rightarrow> string" where
  "tld_line t =
     ''.'' @ pad_right 20 (ti_name t) @ '' entries:'' @ show_nat (unat (ti_entry_count t)) @
     (if ti_tls_mode t = TlsOff then [] else ''  tls:'' @ tls_mode_as_str (ti_tls_mode t))"

text \<open>Without a daemon, \<open>scan\<close> is what the resolver directory itself shows.\<close>

definition cmd_tld_list ::
  "('d, 'u, 'h) client_env \<Rightarrow> tld_error + string list \<Rightarrow> ('d, 'j, unit) command" where
  "cmd_tld_list env scan tm =
     (case client_request env ReqTldList (tm_link tm) of (reply, l) \<Rightarrow>
      let tm = tm\<lparr>tm_link := l\<rparr>; listed = (\<lambda>ls. say (if ls = [] then [''(no managed TLDs)''] else ls) tm) in
      case reply of
        Inr (RespTlds ts) \<Rightarrow> listed (map tld_line ts)
      | Inr r \<Rightarrow> (Inl (CliClient (unexpected r)), tm)
      | Inl _ \<Rightarrow> (case scan of Inl _ \<Rightarrow> (Inl (CliTld TldPeek), tm) | Inr ts \<Rightarrow> listed (map (\<lambda>t. ''.'' @ t) ts)))"

section \<open>The bridge\<close>

definition cmd_bridge ::
  "('d, 'u, 'h) client_env \<Rightarrow> request \<Rightarrow> bool \<Rightarrow> string \<Rightarrow> ('d, 'j, unit) command" where
  "cmd_bridge env req desired verb tm =
     ask env req pick_ok (\<lambda>_. waiting (wait_for_bridge_state env desired) (say [''netbridge '' @ verb])) tm"

definition parse_netbridge_mode :: "string \<Rightarrow> netbridge_mode option" where
  "parse_netbridge_mode raw =
     (let w = map (\<lambda>c. if c = CHR ''_'' then CHR ''-'' else c) (to_ascii_lowercase (trim raw)) in
      if w = ''opt-in'' \<or> w = ''optin'' then Some NbOptIn
      else if w = ''docker'' then Some NbDocker
      else if w = ''all'' then Some NbAll
      else None)"

definition cmd_bridge_mode ::
  "('d, 'u, 'h) client_env \<Rightarrow> string option \<Rightarrow> ('d, 'j, unit) command" where
  "cmd_bridge_mode env md tm =
     (case md of
        None \<Rightarrow> ask env ReqStatus pick_status (\<lambda>s. say [netbridge_mode_display_word (si_bridge_mode s)]) tm
      | Some raw \<Rightarrow>
          (case parse_netbridge_mode raw of
             None \<Rightarrow> (Inl CliBadMode, tm)
           | Some m \<Rightarrow>
               ask env ReqStatus (\<lambda>r. map_option si_bridge_enabled (pick_status r)) (\<lambda>was_enabled.
                 ask env (ReqBridgeSetMode m) pick_ok (\<lambda>_.
                   waiting (wait_for_bridge_mode env m)
                     ((if was_enabled then waiting (wait_for_bridge_state env True) else (\<lambda>k. k))
                       (say [''netbridge mode set to '' @ netbridge_mode_display_word m])))) tm))"

section \<open>Secrets\<close>

text \<open>The secret of the flag, or the line read; \<open>None\<close> is a failing read.\<close>

definition read_secret_arg :: "string option \<Rightarrow> string option \<Rightarrow> string \<Rightarrow> 'd tty \<Rightarrow> ('j cli_error + string) \<times> 'd tty" where
  "read_secret_arg flag stdin label tm =
     (case flag of
        Some v \<Rightarrow> (if trim v = [] then Inl (CliEmptyValue label) else Inr (trim v), tm)
      | None \<Rightarrow>
          (case stdin of
             None \<Rightarrow> Inl CliStdin
           | Some line \<Rightarrow> if trim line = [] then Inl (CliEmptyValue label) else Inr (trim line),
           warn [label @ '': ''] tm))"

definition store_secret ::
  "('d, 'u, 'h) client_env \<Rightarrow> string option \<Rightarrow> string option \<Rightarrow> string \<Rightarrow> (string \<Rightarrow> request) \<Rightarrow> string \<Rightarrow> ('d, 'j, unit) command" where
  "store_secret env flag stdin label req stored tm =
     (case read_secret_arg flag stdin label tm of
        (Inl e, tm) \<Rightarrow> (Inl e, tm)
      | (Inr v, tm) \<Rightarrow> ask env (req v) pick_ok (\<lambda>_. say [stored]) tm)"

definition cmd_secrets_set ::
  "('d, 'u, 'h) client_env \<Rightarrow> string option \<Rightarrow> string \<Rightarrow> string option \<Rightarrow> ('d, 'j, unit) command" where
  "cmd_secrets_set env stdin key value tm =
     (case validate_env_key (trim key) of
        Inl e \<Rightarrow> (Inl (CliKey e), tm)
      | Inr _ \<Rightarrow>
          store_secret env value stdin (''value for '' @ trim key) (\<lambda>v. ReqSetLocalSecret (trim key) (Redacted v))
            (''stored '' @ trim key @ '' in the local vault (credentials.json, 0600)'') tm)"

definition cmd_secrets_unset :: "('d, 'u, 'h) client_env \<Rightarrow> string \<Rightarrow> ('d, 'j, unit) command" where
  "cmd_secrets_unset env key tm =
     ask env (ReqUnsetLocalSecret key) pick_ok (\<lambda>_. say [''removed '' @ key @ '' from the local vault'']) tm"

definition cmd_secrets_set_infisical ::
  "('d, 'u, 'h) client_env \<Rightarrow> string option \<Rightarrow> string \<Rightarrow> string option \<Rightarrow> ('d, 'j, unit) command" where
  "cmd_secrets_set_infisical env stdin client_id secret tm =
     store_secret env secret stdin ''Infisical client secret''
       (\<lambda>v. ReqSetSecretsCredentials ''infisical'' (Some client_id) (Some (Redacted v)) None)
       ''stored Infisical machine identity (credentials.json, 0600)'' tm"

definition cmd_secrets_set_op ::
  "('d, 'u, 'h) client_env \<Rightarrow> string option \<Rightarrow> string option \<Rightarrow> ('d, 'j, unit) command" where
  "cmd_secrets_set_op env stdin token tm =
     store_secret env token stdin ''1Password service-account token''
       (\<lambda>v. ReqSetSecretsCredentials ''1password'' None None (Some (Redacted v)))
       ''stored 1Password service-account token (credentials.json, 0600)'' tm"

definition provider_label :: "secrets_provider_config \<Rightarrow> string" where
  "provider_label config =
     (case config of Infisical _ _ _ _ _ _ \<Rightarrow> ''infisical'' | OnePassword _ \<Rightarrow> ''1password'' | LocalVault _ \<Rightarrow> ''local'')"

definition width_of :: "string list \<Rightarrow> nat" where
  "width_of names = foldl max 0 (map length names)"

definition local_secret_line :: "nat \<Rightarrow> local_secret_info \<Rightarrow> string" where
  "local_secret_line width s =
     pad_right width (lsi_key s) @ ''  '' @ pad_right 7 (if lsi_set s then ''set'' else ''MISSING'') @ ''  '' @
     (if lsi_blocks s = [] then ''(not referenced)''
      else join_str '' '' (map (\<lambda>b. ''[secrets.'' @ b @ '']'') (lsi_blocks s)))"

definition secrets_block_line :: "nat \<Rightarrow> secrets_block_info \<Rightarrow> string" where
  "secrets_block_line width b =
     ''[secrets.'' @ pad_right width (sbi_name b) @ '']  '' @ pad_right 10 (provider_label (sbi_config b)) @ ''  '' @
     unwrap_or (sbi_root b) ''(global)'' @ ''  used by: '' @ (if sbi_used_by b = [] then ''unused'' else join_str '', '' (sbi_used_by b))"

text \<open>Two characters outside ASCII, in UTF-8.\<close>

definition em_dash :: string where
  "em_dash = [CHR 0xE2, CHR 0x80, CHR 0x94]"

definition left_arrow :: string where
  "left_arrow = [CHR 0xE2, CHR 0x86, CHR 0x90]"

definition secrets_lines :: "string option \<Rightarrow> bool \<Rightarrow> local_secret_info list \<Rightarrow> secrets_block_info list \<Rightarrow> string list" where
  "secrets_lines infisical onepassword vault blocks =
     [case infisical of Some cid \<Rightarrow> ''infisical   configured (client id '' @ cid @ '')''
        | None \<Rightarrow> ''infisical   not configured  (portman secrets set-infisical)'',
      if onepassword then ''1password   configured'' else ''1password   not configured  (portman secrets set-op)'',
      []] @
     (if vault = [] then [''(no local secrets '' @ em_dash @ '' portman secrets set KEY)'']
      else map (local_secret_line (width_of (map lsi_key vault))) vault) @
     [[]] @
     (if blocks = [] then [''(no [secrets.*] blocks '' @ em_dash @ '' define one in the dashboard or a portman.toml)'']
      else map (secrets_block_line (width_of (map sbi_name blocks))) blocks)"

definition cmd_secrets_list :: "('d, 'u, 'h) client_env \<Rightarrow> ('d, 'j, unit) command" where
  "cmd_secrets_list env tm =
     ask env ReqSecretsStatus (\<lambda>r. case r of RespSecretsStatus i o1 vault blocks \<Rightarrow> Some (i, o1, vault, blocks) | _ \<Rightarrow> None)
       (\<lambda>(i, o1, vault, blocks). say (secrets_lines i o1 vault blocks)) tm"

section \<open>Routes and status\<close>

fun source_word :: "source \<Rightarrow> string" where
  "source_word SourceBuiltin = ''builtin''"
| "source_word SourceContainer = ''container''"
| "source_word SourceStatic = ''static''"
| "source_word SourceService = ''service''"
| "source_word SourceEgress = ''egress''"
| "source_word SourceUnknown = ''unknown''"

definition entry_line :: "nat \<Rightarrow> nat \<Rightarrow> entry \<Rightarrow> string" where
  "entry_line host_w target_w e =
     pad_right host_w (e_host e) @ ''  '' @ pad_right target_w (e_target e) @ ''  '' @ pad_right 4 (mode_as_str (e_mode e)) @ ''  '' @
     pad_right 9 (source_word (e_source e)) @ ''  '' @ unwrap_or (e_container_id e) ''-''"

definition collision_lines :: "entry list \<Rightarrow> string list" where
  "collision_lines entries =
     (let cs = target_collisions entries in
      if cs = [] then []
      else [[], ''warning: '' @ show_nat (length cs) @
              '' target(s) claimed by more than one host '' @ em_dash @ '' only one process can own each port:''] @
        map (\<lambda>(target, hosts). ''  '' @ target @ ''  '' @ left_arrow @ ''  '' @ join_str '', '' hosts) cs)"

definition print_entries :: "entry list \<Rightarrow> string list" where
  "print_entries entries =
     (if entries = [] then [''(no entries)'']
      else (let host_w = max (width_of (map e_host entries)) 4; target_w = max (width_of (map e_target entries)) 6 in
        [pad_right host_w ''HOST'' @ ''  '' @ pad_right target_w ''TARGET'' @ ''  MODE  '' @ pad_right 9 ''SOURCE'' @ ''  CONTAINER''] @
        map (entry_line host_w target_w) entries @ collision_lines entries))"

definition cmd_list :: "('d, 'u, 'h) client_env \<Rightarrow> ('d, 'j, unit) command" where
  "cmd_list env tm = ask env ReqListEntries pick_entries (\<lambda>entries. say (print_entries entries)) tm"

definition cmd_cert_health :: "('d, 'u, 'h) client_env \<Rightarrow> ('d, 'j, unit) command" where
  "cmd_cert_health env tm =
     ask env ReqCertHealth (\<lambda>r. case r of RespCertHealth a caroot ok n \<Rightarrow> Some (a, caroot, ok, n) | _ \<Rightarrow> None)
       (\<lambda>(available, caroot, ok, n).
         say [''mkcert:          '' @ (if available then ''available'' else ''missing''),
              ''CAROOT:          '' @ unwrap_or caroot ''(unknown)'',
              ''CAROOT status:   '' @ (if ok then ''valid'' else ''missing rootCA.pem''),
              ''issued certs:    '' @ show_nat (unat n)]) tm"

text \<open>A failing second request leaves the command successful.\<close>

definition shared_warnings :: "string \<Rightarrow> entry list \<Rightarrow> string list" where
  "shared_warnings host entries =
     map (\<lambda>(target, hosts). ''warning: '' @ target @ '' is also claimed by '' @
            join_str '', '' (filter (\<lambda>h. h \<noteq> host) hosts) @ '' '' @ em_dash @ '' only one process can own that port'')
       (filter (\<lambda>(target, hosts). host \<in> set hosts) (target_collisions entries))"

definition warn_if_target_shared :: "('d, 'u, 'h) client_env \<Rightarrow> string \<Rightarrow> 'd tty \<Rightarrow> 'd tty" where
  "warn_if_target_shared env host tm =
     (case expecting env ReqListEntries pick_entries (tm_link tm) of
        (Inr entries, l) \<Rightarrow> warn (shared_warnings host entries) (tm\<lparr>tm_link := l\<rparr>)
      | (Inl _, l) \<Rightarrow> tm\<lparr>tm_link := l\<rparr>)"

definition cmd_add ::
  "('d, 'u, 'h) client_env \<Rightarrow> string \<Rightarrow> string \<Rightarrow> bool \<Rightarrow> string option \<Rightarrow> string option \<Rightarrow> ('d, 'j, unit) command" where
  "cmd_add env host target tcp service project tm =
     ask env (ReqAddStatic host target (if tcp then ModeTcp else ModeHttp) service project) pick_ok
       (\<lambda>_ tm. (Inr (), warn_if_target_shared env host (print [''ok''] tm))) tm"

definition cmd_start :: "('d, 'u, 'h) client_env \<Rightarrow> string \<Rightarrow> ('d, 'j, unit) command" where
  "cmd_start env host tm =
     ask env (ReqStartService host) (\<lambda>r. case r of RespStarted detail \<Rightarrow> Some detail | _ \<Rightarrow> None)
       (\<lambda>detail. say [if detail = [] then ''ok'' else detail]) tm"

definition cmd_remove :: "('d, 'u, 'h) client_env \<Rightarrow> string \<Rightarrow> ('d, 'j, unit) command" where
  "cmd_remove env host tm = ask env (ReqRemoveStatic host) pick_ok (\<lambda>_. say [''ok'']) tm"

definition dashboard_url :: "u16 \<Rightarrow> string" where
  "dashboard_url proxy_port =
     ''http://'' @ dashboard_host @ (if proxy_port = 80 then [] else '':'' @ show_nat (unat proxy_port))"

text \<open>The URL shown has no token, the one handed to the browser does.\<close>

definition cmd_dashboard ::
  "('d, 'u, 'h) client_env \<Rightarrow> read_result \<Rightarrow> (string \<Rightarrow> bool) \<Rightarrow> 'd tty \<Rightarrow> ('j cli_error + string) \<times> 'd tty" where
  "cmd_dashboard env token_file browser tm =
     (case expecting env ReqStatus pick_status (tm_link tm) of (r, l) \<Rightarrow>
      let base = dashboard_url (case r of Inr s \<Rightarrow> si_proxy_port s | Inl _ \<Rightarrow> 80);
          url = (case token_file of
                   ReadOk text \<Rightarrow> if trim text = [] then base else base @ ''/?token='' @ trim text
                 | _ \<Rightarrow> base)
      in (if browser url then Inr url else Inl CliBrowser, print [base] (tm\<lparr>tm_link := l\<rparr>)))"

definition status_lines :: "os \<Rightarrow> status_info \<Rightarrow> string list" where
  "status_lines os s =
     [''daemon version:  '' @ si_version s,
      ''managed broker:  '' @ (if si_managed_broker s then ''true'' else ''false'') @ '' (egress grants v'' @
        show_nat (unat (si_egress_grants_version s)) @ '', inference provisioning v'' @
        show_nat (unat (si_inference_provisioning_version s)) @ '')'',
      ''running for:     '' @ si_running_since s,
      ''dns port:        '' @ show_nat (unat (si_dns_port s)) @ '' (127.0.0.1)'',
      ''http proxy:      '' @ show_nat (unat (si_proxy_port s)) @ '' (127.0.0.1)'',
      ''tls proxy:       '' @ show_nat (unat (si_tls_port s)) @ '' (127.0.0.1)'',
      ''dashboard:       '' @ dashboard_url (si_proxy_port s),
      ''socket:          '' @ si_socket_path s,
      ''data dir:        '' @ si_data_dir s,
      ''cert dir:        '' @ si_cert_dir s] @
     (if os = Macos then
        [''bridge:          '' @ bridge_assessment_as_str (si_bridge_assessment s),
         ''netbridge:       '' @ (if si_bridge_enabled s then ''enabled'' else ''disabled''),
         ''netbridge mode:  '' @ netbridge_mode_display_word (si_bridge_mode s)]
      else [])"

definition status_services :: "path option \<Rightarrow> service_status_info list \<Rightarrow> 'd tty \<Rightarrow> 'd tty" where
  "status_services root services tm =
     (case root of
        None \<Rightarrow> print (print_service_statuses services) tm
      | Some r \<Rightarrow>
          print (print_service_statuses (filter (\<lambda>s. ssi_root s = Some r) services))
            (if list_ex (\<lambda>s. ssi_root s = None) services
             then warn [''warning: older daemon omitted service ownership; upgrade it for repo-scoped status''] tm else tm))"

definition cmd_status ::
  "('d, 'u, 'h) client_env \<Rightarrow> 'j repo_env \<Rightarrow> os \<Rightarrow> bool \<Rightarrow> ('d, 'j, unit) command" where
  "cmd_status env re os repo tm =
     (case (if repo then and_then (load_repo_services re) (\<lambda>c. Inr (Some (sc_root c))) else Inr None) of
        Inl e \<Rightarrow> (Inl e, tm)
      | Inr root \<Rightarrow>
          ask env ReqStatus pick_status (\<lambda>s tm.
            let tm = print (status_lines os s) tm in
            case expecting env ReqServiceStatus pick_services (tm_link tm) of
              (Inr services, l) \<Rightarrow> (Inr (), status_services root services (tm\<lparr>tm_link := l\<rparr>))
            | (Inl _, l) \<Rightarrow> (Inr (), tm\<lparr>tm_link := l\<rparr>)) tm)"

section \<open>What the commands ask of the daemon\<close>

lemma tm_print [simp]:
  "tm_link (print ls tm) = tm_link tm" "tm_resolver (print ls tm) = tm_resolver tm"
  "tm_link (warn ls tm) = tm_link tm" "tm_resolver (warn ls tm) = tm_resolver tm"
  by (simp_all add: print_def warn_def)

lemma say_link [simp]: "tm_link (snd (say ls tm)) = tm_link tm" "tm_resolver (snd (say ls tm)) = tm_resolver tm"
  by (simp_all add: say_def)

lemma ask_asks:
  assumes "req \<in> S"
    and "\<And>x tm'. (\<exists>l. expecting env req pick (tm_link tm) = (Inr x, tm_link tm')) \<Longrightarrow> asks env S (tm_link tm') (tm_link (snd (k x tm')))"
  shows "asks env S (tm_link tm) (tm_link (snd (ask env req pick k tm)))"
proof -
  obtain r l where e: "expecting env req pick (tm_link tm) = (r, l)" by fastforce
  then have first: "asks env S (tm_link tm) l" using assms(1) by (rule expecting_asks)
  show ?thesis
  proof (cases r)
    case (Inr x)
    have "asks env S l (tm_link (snd (k x (tm\<lparr>tm_link := l\<rparr>))))"
      using assms(2) [of x "tm\<lparr>tm_link := l\<rparr>"] e Inr by simp
    with first show ?thesis by (simp add: ask_def e Inr) (rule asks_trans)
  qed (simp add: ask_def e first)
qed

lemma asks_refl: "asks env S l l"
  by (simp add: asks_nothing)

lemma asks_sleeping: "asks env S l (sleeping env l)"
  by (simp add: asks_nothing sleeping_def)

lemma settle_asks: "ReqStatus \<in> S \<or> ReqServiceStatus \<in> S \<Longrightarrow> ReqServiceStatus \<in> S \<Longrightarrow>
    asks env S (tm_link tm) (tm_link (snd (settle env extra targets n seen tm)))"
proof (induction env extra targets n seen tm rule: settle.induct)
  case (1 env extra targets n seen tm)
  obtain r l where e: "expecting env ReqServiceStatus pick_services (tm_link tm) = (r, l)" by fastforce
  then have first: "asks env S (tm_link tm) l" using "1.prems"(2) by (rule expecting_asks)
  show ?case
  proof (cases r)
    case (Inl err)
    then show ?thesis using first by (simp add: settle.simps e)
  next
    case (Inr services)
    define rows where "rows = filter (\<lambda>s. ssi_name s \<in> set targets) services"
    obtain seen' out where t: "transitions rows seen = (seen', out)" by fastforce
    define tm1 where "tm1 = print out (tm\<lparr>tm_link := l\<rparr>)"
    have link: "tm_link tm1 = l" by (simp add: tm1_def)
    show ?thesis
    proof (cases "list_all (\<lambda>s. settled (ssi_state s)) rows \<or> 300 * n + extra n > 120000")
      case True
      then have "tm_link (snd (settle env extra targets n seen tm)) = l"
        using link by (auto simp: settle.simps [of env extra targets n seen tm] e Inr Let_def t simp flip: rows_def tm1_def)
      with first show ?thesis by simp
    next
      case False
      let ?next = "settle env extra targets (n + 1) seen' (tm1\<lparr>tm_link := sleeping env (tm_link tm1)\<rparr>)"
      have step: "settle env extra targets n seen tm = ?next"
        using False by (simp add: settle.simps [of env extra targets n seen tm] e Inr Let_def t link flip: rows_def tm1_def)
      have "asks env S (sleeping env l) (tm_link (snd ?next))"
        using "1.IH" [OF e [symmetric] Inr rows_def t [symmetric] refl tm1_def] False "1.prems" link by simp
      with first asks_sleeping show ?thesis unfolding step by (blast intro: asks_trans)
    qed
  qed
qed

text \<open>When the wait succeeds, every target the daemon still lists is ready, or stopped.\<close>

lemma settle_succeeds:
  assumes "settle env extra targets n seen tm = (Inr u, tm')"
  shows "\<exists>l services. expecting env ReqServiceStatus pick_services l = (Inr services, tm_link tm') \<and>
    (\<forall>s \<in> set services. ssi_name s \<in> set targets \<longrightarrow> ssi_state s = SvcReady \<or> ssi_state s = SvcStopped)"
  using assms
proof (induction env extra targets n seen tm rule: settle.induct)
  case (1 env extra targets n seen tm)
  obtain r l where e: "expecting env ReqServiceStatus pick_services (tm_link tm) = (r, l)" by fastforce
  with "1.prems" obtain services where r: "r = Inr services" by (cases r) (auto simp: settle.simps [of env extra targets n seen tm])
  define rows where "rows = filter (\<lambda>s. ssi_name s \<in> set targets) services"
  obtain seen' out where t: "transitions rows seen = (seen', out)" by fastforce
  define tm1 where "tm1 = print out (tm\<lparr>tm_link := l\<rparr>)"
  have step: "settle env extra targets n seen tm =
      (if list_all (\<lambda>s. settled (ssi_state s)) rows
       then (if list_ex (\<lambda>s. ssi_state s = SvcFailed) rows then (Inl StServiceFailed, tm1) else (Inr (), tm1))
       else if 300 * n + extra n > 120000 then (Inl (StTimeout (unresolved targets seen')), tm1)
       else settle env extra targets (n + 1) seen' (tm1\<lparr>tm_link := sleeping env (tm_link tm1)\<rparr>))"
    by (simp add: settle.simps [of env extra targets n seen tm] e r Let_def t flip: rows_def tm1_def)
  show ?case
  proof (cases "list_all (\<lambda>s. settled (ssi_state s)) rows")
    case True
    then have "tm' = tm1" "\<not> list_ex (\<lambda>s. ssi_state s = SvcFailed) rows" using "1.prems" step by (auto split: if_splits)
    with True e r show ?thesis
      by (intro exI [of _ "tm_link tm"] exI [of _ services])
        (auto simp: tm1_def rows_def settled_def list_all_iff list_ex_iff)
  next
    case False
    then have "\<not> 300 * n + extra n > 120000" using "1.prems" step by (auto split: if_splits)
    with "1.IH" [OF e [symmetric] r rows_def t [symmetric] refl tm1_def False] "1.prems" step False show ?thesis by simp
  qed
qed

lemma wait_asks:
  "ReqServiceStatus \<in> S \<Longrightarrow> asks env S (tm_link tm) (tm_link (snd (wait_and_print_outcome env extra targets tm)))"
  using settle_asks [of S env tm extra targets 0 "[]"] by (auto simp: wait_and_print_outcome_def split: prod.split)

text \<open>\<open>up\<close> and \<open>down\<close> stay within the repository, the rest of a request being fixed by its config.\<close>

definition up_requests :: "'j repo_env \<Rightarrow> string list \<Rightarrow> request set" where
  "up_requests re names =
     {sync_request c | c. load_repo_services re = Inr c} \<union>
     {ReqServiceUp (up_targets c names) | c. load_repo_services re = Inr c \<and>
        set (up_targets c names) \<subseteq> fst ` set (sc_services c) \<and> up_targets c names \<noteq> []} \<union> {ReqServiceStatus}"

text \<open>
  What \<open>down\<close> may ask for in each of its forms. Naming a service, or a root with \<open>--forget --root\<close>,
  is the way to reach beyond the repository; both other forms are bound to it.
\<close>

definition owned_stops :: "('d, 'u, 'h) client_env \<Rightarrow> 'j repo_env \<Rightarrow> 'd daemon_link \<Rightarrow> request set" where
  "owned_stops env re l =
     {ReqServiceDown names | names root c services l'.
        discover_root (re_is_file re) (re_cwd re) = Some root \<and> load_root re root = Inr c \<and>
        expecting env ReqServiceStatus pick_services l = (Inr services, l') \<and> names \<noteq> [] \<and>
        (\<forall>n \<in> set names. n \<in> fst ` set (sc_services c) \<and> (\<exists>s \<in> set services. ssi_name s = n \<and> ssi_root s = Some root))} \<union>
     {ReqServiceStatus}"

definition down_requests ::
  "('d, 'u, 'h) client_env \<Rightarrow> 'j repo_env \<Rightarrow> string list \<Rightarrow> bool \<Rightarrow> path option \<Rightarrow> 'd daemon_link \<Rightarrow> request set" where
  "down_requests env re names forgetting explicit l =
     (if forgetting
      then {ReqSyncServices root [] [] [] | root.
              (case explicit of
                 Some named \<Rightarrow> root = named \<and> is_absolute named
               | None \<Rightarrow> discover_root (re_is_file re) (re_cwd re) = Some root)}
      else if names = [] then owned_stops env re l
      else {ReqServiceDown names})"

lemma resolve_root: "resolve shlex root raw = Some (Inr c) \<Longrightarrow> sc_root c = root"
  by (auto simp: resolve_def and_then_Inr split: sum.splits option.splits prod.splits)

lemma repo_root: "load_repo_services re = Inr c \<Longrightarrow> discover_root (re_is_file re) (re_cwd re) = Some (sc_root c)"
  by (auto simp: load_repo_services_def load_root_def load_config_def lift_invalid_def merge_and_resolve_def map_err_Inr
      dest: resolve_root split: option.splits sum.splits if_splits)

lemma start_synced_asks:
  assumes "load_repo_services re = Inr c" and "\<forall>n \<in> set names. bt_contains (sc_services c) n"
  shows "asks env (up_requests re names) (tm_link tm) (tm_link (snd (start_synced env extra c names rp tm)))"
proof -
  have "set (up_targets c names) \<subseteq> fst ` set (sc_services c)"
    using assms(2) by (auto simp: up_targets_def bt_contains_iff)
  then have up: "up_targets c names \<noteq> [] \<Longrightarrow> ReqServiceUp (up_targets c names) \<in> up_requests re names"
    using assms(1) by (auto simp: up_requests_def)
  have status: "ReqServiceStatus \<in> up_requests re names" by (simp add: up_requests_def)
  have link: "tm_link (print ls tm) = tm_link tm" for ls by simp
  show ?thesis
  proof (cases "up_targets c names = []")
    case False
    show ?thesis unfolding start_synced_def Let_def if_not_P [OF False]
      by (subst link [symmetric]) (rule ask_asks [OF up [OF False]], rule wait_asks [OF status])
  qed (simp add: start_synced_def asks_refl)
qed

lemma cmd_up_asks: "asks env (up_requests re names) (tm_link tm) (tm_link (snd (cmd_up env re extra names tm)))"
proof (cases "load_repo_services re")
  case (Inr c)
  have sync: "sync_request c \<in> up_requests re names" using Inr by (auto simp: up_requests_def)
  show ?thesis
  proof (cases "filter (\<lambda>n. \<not> bt_contains (sc_services c) n) names")
    case Nil
    then have known: "\<forall>n \<in> set names. bt_contains (sc_services c) n" by (simp add: filter_empty_conv)
    show ?thesis
      by (cases "sc_services c = [] \<and> sc_egress c = []")
        (simp_all add: cmd_up_def Inr Nil asks_refl ask_asks [OF sync] start_synced_asks [OF Inr known])
  qed (simp add: cmd_up_def Inr asks_refl)
qed (simp add: cmd_up_def asks_refl)

lemma stop_owned_asks:
  assumes "owned_by root c services \<noteq> [] \<Longrightarrow> ReqServiceDown (owned_by root c services) \<in> S"
  shows "asks env S (tm_link tm) (tm_link (snd (stop_owned env root c services tm)))"
proof -
  have link: "tm_link (warn ls tm) = tm_link tm" for ls by simp
  show ?thesis
  proof (cases "owned_by root c services = []")
    case False
    show ?thesis unfolding stop_owned_def Let_def if_not_P [OF False] down_named_def
      by (subst link [symmetric]) (rule ask_asks [OF assms [OF False]], simp add: asks_refl)
  qed (simp add: stop_owned_def asks_refl)
qed

lemma down_owned_asks:
  "asks env (owned_stops env re (tm_link tm)) (tm_link tm) (tm_link (snd (down_owned env re tm)))"
proof -
  have status: "ReqServiceStatus \<in> owned_stops env re (tm_link tm)" by (simp add: owned_stops_def)
  show ?thesis
  proof (cases "discover_root (re_is_file re) (re_cwd re)")
    case (Some root)
    show ?thesis
    proof (cases "load_root re root")
      case (Inr c)
      have down: "ReqServiceDown (owned_by root c services) \<in> owned_stops env re (tm_link tm)"
        if "\<exists>l. expecting env ReqServiceStatus pick_services (tm_link tm) = (Inr services, tm_link tm')"
          and "owned_by root c services \<noteq> []" for services and tm' :: "'a tty"
        using that Some Inr by (auto simp: owned_stops_def owned_by_def bt_contains_iff intro!: exI [of _ root] exI [of _ c])
      show ?thesis
        by (cases "sc_services c = []")
          (auto simp: down_owned_def Some Inr asks_refl intro!: ask_asks [OF status] stop_owned_asks dest: down)
    qed (use Some in \<open>simp add: down_owned_def asks_refl\<close>)
  qed (simp add: down_owned_def asks_refl)
qed

lemma cmd_down_asks:
  "asks env (down_requests env re names forgetting explicit (tm_link tm)) (tm_link tm)
     (tm_link (snd (cmd_down env re names forgetting explicit tm)))"
proof (cases forgetting)
  case True
  have forget: "asks env S (tm_link tm) (tm_link (snd (forget_root env root tm)))"
    if "ReqSyncServices root [] [] [] \<in> S" for S root
    unfolding forget_root_def by (rule ask_asks [OF that]) (simp add: asks_refl)
  show ?thesis
  proof (cases explicit)
    case (Some root)
    then show ?thesis using True by (auto simp: cmd_down_def down_requests_def asks_refl intro: forget)
  next
    case None
    then show ?thesis using True repo_root [of re]
      by (cases "load_repo_services re") (auto simp: cmd_down_def down_requests_def asks_refl intro: forget)
  qed
next
  case False
  have named: "asks env {ReqServiceDown names} (tm_link tm) (tm_link (snd (down_named env names tm)))"
    unfolding down_named_def by (rule ask_asks) (simp_all add: asks_refl)
  show ?thesis using False down_owned_asks [of env re tm]
    by (cases "names = []") (simp_all add: cmd_down_def down_requests_def named)
qed

text \<open>
  C17: \<open>portman up\<close> asks the daemon only to sync the repository's own config, to start services it
  declares, and for their status. \<open>portman down\<close> without names stops only services that the config
  declares and that the daemon has just reported as this repository's; with names it asks for those
  names and nothing else (whoever owns them: naming a service is how another repository's is
  stopped); \<open>--forget\<close> empties only the repository around the working directory, or the absolute
  root that \<open>--root\<close> states.
\<close>

theorem up_and_down_stay_in_the_repository:
  "asks env (up_requests re names) (tm_link tm) (tm_link (snd (cmd_up env re extra names tm))) \<and>
   asks env (down_requests env re names' forgetting explicit (tm_link tm)) (tm_link tm)
     (tm_link (snd (cmd_down env re names' forgetting explicit tm)))"
  by (rule conjI [OF cmd_up_asks cmd_down_asks])

section \<open>Resolver files of others\<close>

text \<open>A file that is absent, or that carries portman's marker, at the place of the TLD named.\<close>

definition portman_file :: "tld_env \<Rightarrow> string \<Rightarrow> 'd tty \<Rightarrow> path \<Rightarrow> bool" where
  "portman_file tn raw tm p \<longleftrightarrow>
     (case validate_tld raw of
        Inl _ \<Rightarrow> False
      | Inr tld \<Rightarrow> p = resolver_path (tn_os tn) tld \<and>
          (case tm_resolver tm p of None \<Rightarrow> True | Some text \<Rightarrow> starts_with portman_marker text))"

lemma askE:
  assumes "ask env req pick k tm = (r, tm')"
  obtains (fails) e l where "r = Inl (CliClient e)" "tm' = tm\<lparr>tm_link := l\<rparr>"
  | (goes_on) x l where "expecting env req pick (tm_link tm) = (Inr x, l)" "k x (tm\<lparr>tm_link := l\<rparr>) = (r, tm')"
  using assms by (auto simp: ask_def split: prod.splits sum.splits)

lemma ask_then_say: "ask env req pick (\<lambda>_. say ls) tm = (r, tm') \<Longrightarrow> tm_resolver tm' = tm_resolver tm"
  by (erule askE) (auto simp: say_def)

lemma restart_resolved_keeps [simp]: "tm_resolver (restart_resolved tn tm) = tm_resolver tm"
  by (simp add: restart_resolved_def)

lemma sudo_write_effect:
  assumes "sudo_write tn p text tm = (ok, tm')"
  shows "q \<noteq> p \<Longrightarrow> tm_resolver tm' q = tm_resolver tm q" and "ok \<Longrightarrow> tm_resolver tm' p = Some text"
  using assms by (auto simp: sudo_write_def split: if_splits tee_outcome.splits option.splits)

lemma add_resolver_effect:
  assumes "add_resolver env tn tld tls tm = (r, tm')"
  shows "(\<forall>q. q \<noteq> resolver_path (tn_os tn) tld \<longrightarrow> tm_resolver tm' q = tm_resolver tm q) \<and>
    (\<forall>u. r = Inr u \<longrightarrow> (\<exists>port. tm_resolver tm' (resolver_path (tn_os tn) tld) = Some (resolver_file_contents (tn_os tn) tld port)))"
  using assms unfolding add_resolver_def
proof (cases rule: askE)
  case (goes_on port l)
  let ?p = "resolver_path (tn_os tn) tld"
  define tm1 where "tm1 = warn [''writing '' @ ?p @ '' (sudo required)''] (tm\<lparr>tm_link := l\<rparr>)"
  obtain ok tm2 where w: "sudo_write tn ?p (resolver_file_contents (tn_os tn) tld port) tm1 = (ok, tm2)" by fastforce
  have same: "tm_resolver tm1 = tm_resolver tm" by (simp add: tm1_def)
  have result: "(if ok then ask env (ReqTldAdd tld tls) pick_ok (\<lambda>_. say (tld_added_lines tn tld tls)) (restart_resolved tn tm2)
      else (Inl (CliTld TldSudo), tm2)) = (r, tm')"
    using goes_on(2) [unfolded Let_def, folded tm1_def] by (cases ok) (simp_all add: w)
  have kept: "tm_resolver tm' = tm_resolver tm2" and success: "r = Inr u \<Longrightarrow> ok" for u
  proof -
    have "tm_resolver tm' = tm_resolver tm2 \<and> (ok \<or> r = Inl (CliTld TldSudo))"
    proof (cases ok)
      case True
      then show ?thesis using ask_then_say [OF result [unfolded if_P [OF True]]] by simp
    next
      case False
      then show ?thesis using result [unfolded if_not_P [OF False]] by simp
    qed
    then show "tm_resolver tm' = tm_resolver tm2" and "r = Inr u \<Longrightarrow> ok" by auto
  qed
  show ?thesis
  proof (intro conjI allI impI)
    fix q assume "q \<noteq> ?p"
    then show "tm_resolver tm' q = tm_resolver tm q" using sudo_write_effect(1) [OF w] by (simp only: kept same)
  next
    fix u assume "r = Inr u"
    then have "tm_resolver tm' ?p = Some (resolver_file_contents (tn_os tn) tld port)"
      using sudo_write_effect(2) [OF w success] by (simp only: kept)
    then show "\<exists>port. tm_resolver tm' ?p = Some (resolver_file_contents (tn_os tn) tld port)" by (rule exI)
  qed
qed simp

lemma cmd_tld_add_effect:
  assumes "cmd_tld_add env tn raw tls tm = (r, tm')"
  shows "(tm_resolver tm' p = tm_resolver tm p \<or> portman_file tn raw tm p) \<and>
    (\<forall>u. r = Inr u \<longrightarrow> (\<exists>tld port. validate_tld raw = Inr tld \<and>
       tm_resolver tm' (resolver_path (tn_os tn) tld) = Some (resolver_file_contents (tn_os tn) tld port)))"
proof (cases "validate_tld raw")
  case (Inr tld)
  let ?p = "resolver_path (tn_os tn) tld"
  have "(tm_resolver tm' = tm_resolver tm \<and> (\<exists>e. r = Inl e)) \<or>
      (portman_file tn raw tm ?p \<and>
       (\<exists>md ls. add_resolver env tn tld md (warn ls tm) = (r, tm') \<or>
         (\<exists>ls'. add_resolver env tn tld md (warn ls' (warn ls tm)) = (r, tm'))))"
    using assms Inr
    by (auto simp: cmd_tld_add_def peek_at_def peek_resolver_def portman_file_def Let_def
        split: sum.splits if_splits option.splits)
  then consider "tm_resolver tm' = tm_resolver tm" "\<exists>e. r = Inl e"
    | md tm1 where "portman_file tn raw tm ?p" "add_resolver env tn tld md tm1 = (r, tm')" "tm_resolver tm1 = tm_resolver tm"
    by force
  then show ?thesis
  proof cases
    case 2
    then show ?thesis using add_resolver_effect [OF 2(2)] Inr by (cases "p = ?p") auto
  qed auto
qed (use assms in \<open>auto simp: cmd_tld_add_def\<close>)

lemma cmd_tld_remove_effect:
  assumes "cmd_tld_remove env tn raw tm = (r, tm')"
  shows "(tm_resolver tm' p = tm_resolver tm p \<or> portman_file tn raw tm p) \<and>
    (\<forall>u. r = Inr u \<longrightarrow> (\<exists>tld. validate_tld raw = Inr tld \<and> tm_resolver tm' (resolver_path (tn_os tn) tld) = None))"
proof (cases "validate_tld raw")
  case (Inr tld)
  let ?p = "resolver_path (tn_os tn) tld"
  have "(tm_resolver tm' = tm_resolver tm \<and> (\<exists>e. r = Inl e)) \<or>
      (portman_file tn raw tm ?p \<and> tm_resolver tm' = (tm_resolver tm)(?p := None))"
    using assms Inr
    by (auto simp: cmd_tld_remove_def peek_at_def peek_resolver_def portman_file_def Let_def
        split: sum.splits if_splits option.splits dest!: ask_then_say)
  then show ?thesis using Inr by auto
qed (use assms in \<open>auto simp: cmd_tld_remove_def\<close>)

text \<open>
  C19: \<open>portman tld add\<close> and \<open>portman tld remove\<close> touch no file of the resolver's directory but the one
  of the TLD named, and that one only where it was absent or carried portman's marker; when \<open>add\<close>
  succeeds it holds the TLD's entry for some DNS port, when \<open>remove\<close> succeeds it is gone.
\<close>

theorem tld_commands_keep_foreign_files:
  "(case cmd_tld_add env tn raw tls tm of (r, tm') \<Rightarrow>
      (tm_resolver tm' p = tm_resolver tm p \<or> portman_file tn raw tm p) \<and>
      (case r of
         Inl _ \<Rightarrow> True
       | Inr _ \<Rightarrow> \<exists>tld port. validate_tld raw = Inr tld \<and>
           tm_resolver tm' (resolver_path (tn_os tn) tld) = Some (resolver_file_contents (tn_os tn) tld port))) \<and>
   (case cmd_tld_remove env tn raw tm of (r, tm') \<Rightarrow>
      (tm_resolver tm' p = tm_resolver tm p \<or> portman_file tn raw tm p) \<and>
      (case r of
         Inl _ \<Rightarrow> True
       | Inr _ \<Rightarrow> \<exists>tld. validate_tld raw = Inr tld \<and> tm_resolver tm' (resolver_path (tn_os tn) tld) = None))"
  by (intro conjI; split prod.split; intro allI impI)
    (auto dest: cmd_tld_add_effect [of _ _ _ _ _ _ _ p] cmd_tld_remove_effect [of _ _ _ _ _ _ p] split: sum.split)

text \<open>
  The file is written before the daemon is asked, and it stays when the daemon refuses, as it does
  for \<open>localhost\<close>.
\<close>

lemma refused_add_leaves_file:
  assumes "\<not> cl_managed env" and "validate_tld raw = Inr tld"
    and "\<And>d. fst (cl_serve env ReqStatus d) = Some (RespStatus s)"
    and "\<And>d. fst (cl_serve env (ReqTldAdd tld None) d) = Some (RespErr e)"
    and "\<not> tn_read_fails tn" "tn_mkdir_ok tn" "tn_tee tn = TeeOk" "tm_resolver tm (resolver_path (tn_os tn) tld) = None"
  shows "\<exists>tm'. cmd_tld_add env tn raw None tm = (Inl (CliClient (ClDaemon e)), tm') \<and>
    tm_resolver tm' (resolver_path (tn_os tn) tld) = Some (resolver_file_contents (tn_os tn) tld (si_dns_port s))"
proof -
  have status: "\<exists>l'. expecting env ReqStatus (\<lambda>r. map_option si_dns_port (pick_status r)) l = (Inr (si_dns_port s), l')" for l
    using assms(1) assms(3) [of "lk_daemon l"]
    by (auto simp: expecting_def client_request_def transmit_def pick_status_def split: prod.split)
  have refused: "\<exists>l'. expecting env (ReqTldAdd tld None) pick_ok l = (Inl (ClDaemon e), l')" for l
    using assms(1) assms(4) [of "lk_daemon l"]
    by (auto simp: expecting_def client_request_def transmit_def pick_ok_def unexpected_def split: prod.split)
  obtain l where l: "expecting env ReqStatus (\<lambda>r. map_option si_dns_port (pick_status r)) (tm_link tm) = (Inr (si_dns_port s), l)"
    using status by blast
  obtain l' where l': "expecting env (ReqTldAdd tld None) pick_ok l = (Inl (ClDaemon e), l')" using refused by blast
  have link: "tm_link (restart_resolved tn tm) = tm_link tm" for tm :: "'a tty" by (simp add: restart_resolved_def)
  show ?thesis using assms(2,5-8) l l'
    by (simp add: cmd_tld_add_def normalize_tls_mode_arg_def peek_at_def peek_resolver_def add_resolver_def ask_def Let_def
        sudo_write_def link)
qed

lemma localhost_add_is_refused:
  "validate_tld ''localhost'' = Inr ''localhost'' \<and>
   handle_tld_add de ''localhost'' None d = (RespErr ELocalhostTld, d)"
proof -
  have "validate_tld ''localhost'' = Inr ''localhost''" by code_simp
  then show ?thesis by (simp add: handle_tld_add_def tld_add_begin_def)
qed

end
