(* ===== verification/Spec2Isabelle.thy ===== *)
theory Spec2Isabelle
  imports Tld Registry Loopback Stores Config_Resolve Egress Sync_Props Tasks Spawn Ipc Log_Store Broker Tls_Front Bridge_Control Bridge_Pump Bridge_Health Dashboard Tui Cli
begin

text \<open>
  portman, a local development router and service supervisor: a development of its core logic.

  The program. A root daemon (\<open>crates/portman-daemon\<close>) answers DNS for development host names,
  proxies HTTP and TCP to local services, supervises the processes repo configs declare, and
  attaches credentials to outgoing requests on declared egress routes. A command line
  (\<open>crates/portman-cli\<close>) drives it over a Unix socket (\<open>crates/portman-protocol\<close>);
  \<open>crates/portman-core\<close> holds the configuration language, the stores and the route registry.

  How the parts interact, and which theory models which.

  Shared ground. \<open>Prelude\<close>: results, loops that stop at an error, the theorem collections.
  \<open>Rust_Str\<close>, \<open>Rust_Text\<close>, \<open>Net_Addr\<close>, \<open>BTree\<close>, \<open>Io\<close>: what the sources use of Rust's strings,
  number and address parsing, ordered and hash maps (the locale \<open>kv_map\<close>, interpreted on both),
  and asynchronous fallible functions.
  \<open>Protocol\<close>: the wire types (\<open>portman-protocol/src/lib.rs\<close>).

  Names and routes. \<open>Hosts\<close> (\<open>static_store.rs\<close>, validators and wildcards), \<open>Tld\<close> (\<open>tld.rs\<close>),
  \<open>Registry\<close> (\<open>registry.rs\<close>, one atomic step per method), \<open>Loopback\<close> (\<open>loopback_alloc.rs\<close>), \<open>Routes\<close> (the supervisor's
  \<open>RouteBinder\<close>: registering and releasing service and egress entries, with static rules behind them).

  State on disk. \<open>Atomic_Json\<close> (\<open>atomic_json.rs\<close>: the file-system operations one by one, with
  faults and crash points; the locales \<open>saver\<close> and \<open>faithful_saver\<close> of what a store asks of it are
  interpreted on its three writers and, in \<open>Secrets\<close>, on the credentials store), \<open>Stores\<close> (the static
  and TLS stores over it).

  Configuration. \<open>Service_Config\<close>, \<open>Depends\<close>, \<open>Config_Resolve\<close> (\<open>service_config.rs\<close>: raw shapes,
  overlay merge, resolution, validation, the dependency search).

  Credentials. \<open>Grants\<close> (\<open>egress_grants.rs\<close>), \<open>Egress\<close> (\<open>egress.rs\<close>), \<open>Masker\<close>
  (\<open>secret_masker.rs\<close>), \<open>Providers\<close> (\<open>secrets/onepassword.rs\<close>, \<open>secrets/infisical.rs\<close>), \<open>Secrets\<close>
  (\<open>secrets/mod.rs\<close>: the vault over the durable writer, the source and its cache),
  \<open>Env_Compose\<close> (\<open>env_compose.rs\<close>).

  Supervision (\<open>supervisor.rs\<close>). \<open>Supervisor\<close>: slots, the persisted snapshot, queries, target
  expansion, boot reconciliation. \<open>Sync\<close> and \<open>Sync_Props\<close>: a config's sync in its plain and
  managed forms, \<open>up\<close>, \<open>down\<close>, \<open>forget\<close>, shutdown and restore, over \<open>Routes\<close> and the saver.
  \<open>Route_Inv\<close>: what these operations keep of the routes, once and for all, in the locales
  \<open>service_routes\<close> and \<open>all_routes\<close>. \<open>Inference\<close>: owned inference routes and the values of egress
  credentials. \<open>Runner\<close>: the runner task of a service as a state machine over its await points.
  \<open>Tasks\<close>: interleaved starts and stops of one service, with the waits that time out. \<open>Spawn\<close>: one spawn attempt as the ordered
  list of its effects, over \<open>Secrets\<close> and \<open>Env_Compose\<close>. \<open>Watch\<close> (\<open>watch.rs\<close>): the watcher that asks
  a runner to respawn. \<open>Log_Store\<close> (\<open>log_store.rs\<close>): capture, queries with cursors, retention.

  The daemon as a whole. \<open>Daemon\<close>: the shared state (\<open>portman-daemon/src/lib.rs\<close>) and what admits a
  route. \<open>Starter\<close> (\<open>runner.rs\<close>), \<open>Handlers\<close> (\<open>handlers.rs\<close>: every handler and \<open>dispatch\<close>), \<open>System\<close>
  (start-up, \<open>docker_events.rs\<close>, \<open>daemon_step\<close>, the steps of a running daemon, and \<open>world_step\<close>, which
  interleaves them with the container inspections that the event loop and the seeding await, with
  the locales \<open>daemon_inv\<close> and \<open>landing_inv\<close> of what an invariant must keep). \<open>Admission\<close> and \<open>Broker\<close>
  interpret them on the invariants of the routes and of a managed broker. \<open>Ipc\<close> (\<open>transport.rs\<close>, \<open>ipc_server.rs\<close>): frames
  and who may send requests. \<open>Resources\<close> (\<open>resources.rs\<close>): samples and their history.

  Traffic. \<open>Relay\<close> (\<open>relay.rs\<close>), \<open>Proxy\<close> (\<open>proxy.rs\<close>), \<open>Fronts\<close> (\<open>dns.rs\<close>, \<open>tcp_forward.rs\<close>,
  \<open>upstream.rs\<close>), \<open>Tls_Front\<close> (\<open>certs.rs\<close>, \<open>tls_proxy.rs\<close>), \<open>Dashboard\<close> (\<open>dashboard.rs\<close>,
  \<open>dashboard_auth.rs\<close>): each connection from its first read, calling the registry, \<open>Grants\<close>,
  \<open>Egress\<close>, \<open>Inference\<close>, \<open>Starter\<close> and \<open>dispatch\<close> as the code does.

  The network bridge (macOS). \<open>Bridge\<close> (\<open>portman-netbridge\<close>: start, upkeep and shutdown as calls to
  Docker and the host, recorded in order; the locale \<open>docker_log\<close> of what every recorded call
  satisfies), \<open>Bridge_Control\<close> (\<open>netbridge.rs\<close>: the control task), \<open>Bridge_Pump\<close> (the packet
  pumps), \<open>Bridge_Health\<close> (\<open>bridge_health.rs\<close>, \<open>host_facing.rs\<close>).

  The command line (\<open>portman-cli\<close>). \<open>Client\<close> (\<open>client.rs\<close>, \<open>fmt.rs\<close>: a connection that records what is
  asked; \<open>asks\<close> says that a part asks nothing else), \<open>Tui\<close> (\<open>tui.rs\<close>: state, keys and event loop),
  \<open>Cli\<close> (\<open>cmd/\<close>, \<open>main.rs\<close>: the commands).

  State and operations. A struct is a record with a field per Rust field (locks, channels and
  tasks by their content), an enum a datatype, a \<open>BTreeMap\<close> a sorted association list (\<open>BTree\<close>), a
  fallible function a sum with the error left. A method that changes state takes it and returns
  it; a method that holds a lock throughout is one step. What asynchronous code awaits is an
  argument: an event, a script of outcomes, or a function of a world. \<open>Duration\<close>s are natural
  numbers of nanoseconds up to \<open>Duration::MAX\<close>; \<open>u16\<close>, \<open>u32\<close>, \<open>u64\<close> and \<open>i32\<close> are words, row ids
  integers.

  What the lemmas show. Each theory proves its operations keep its invariant (\<open>bt_ok\<close>,
  \<open>registry_ok\<close>, \<open>masker_ok\<close>, \<open>sv_ok\<close>, \<open>table_ok\<close>, \<open>tui_ok\<close> and so on), gives their effect on every
  branch, and ends in the properties: refinement of the registry to a map, crash safety of the
  writer, decision and termination of the dependency search, soundness of grants and of the
  forwarded request head, removal of secrets from lines, what a sync replaces, restart limits,
  obedience to stops, one runner per service that no stop has given up on, the order of effects around a child,
  authentication, cursors that miss nothing; over the whole daemon, which routes it ever holds and
  what a managed broker never does; over connections, who gets a credential attached, a service
  started, a certificate, the dashboard, and that the relay forwards exactly the client's stream
  however it is split into reads; of the bridge, that a start takes all or gives it back, that it touches only what
  is its own and answers only sources the peer has taken; of the command line, what a command or
  a key can ask of the daemon.
  Lemmas that no property rests on record where the code falls short: for instance
  \<open>mask_exposes_remainder\<close>, \<open>stale_fetch_survives_invalidate\<close>, \<open>deregister_drops_other_service\<close>,
  \<open>unmanaged_sync_steals_host\<close>, \<open>start_during_stop_doubles_runner\<close>, \<open>wrapping_chunk_never_ends\<close>,
  \<open>empty_datagram_redirects_tunnel\<close>, \<open>overlapping_segment_panics\<close>, \<open>refused_add_leaves_file\<close>,
  \<open>timed_out_stop_doubles_runner\<close>, \<open>overtaken_container_stays\<close>, \<open>ready_does_not_reset_limit\<close>.

  Bounds and fuel. No definition uses fuel to cut a computation short: recursions that are not
  structural have termination proofs (the dependency search, target expansion, polling a log, the
  wait of \<open>portman up\<close>, whose deadline of 120 s is met at poll 401).
  Partial functions have proofs that they return: the loopback search over its 16580608 usable
  addresses, the relay's loops for chunk lengths whose strides fit 64 bits, the receiving loop of
  the bridge when the peer's queue drains. A wait of the bridge's state makes 120 polls, following
  a log a number of them given; state machines run over finite lists of events.
  \<open>consecutive_failures += 1\<close> and the restart count wrap at 32 bits as in a release build; the
  restart-limit theorem excludes the limit \<open>u32::MAX\<close>, which no count exceeds.

  Parameters. Third-party code is an argument: TOML and JSON codecs, httparse, SHA-256, the \<open>op\<close>,
  \<open>mise\<close> and pitchfork programs, mkcert, Docker, \<open>/sbin/route\<close>, boringtun, HTTP, dotenv, notify,
  \<open>sudo\<close>, the process table, spawning, and the arithmetic of \<open>f64\<close>. SQLite is the meaning of the
  statements the source sends it.

  Not modelled. Accept loops, sockets and the wire formats of DNS and TLS; copying bytes where the
  code only copies; argument parsing, drawing, \<open>doctor\<close>, \<open>install\<close> and the table of resources in
  the command line; path constants and the texts of service units; the Linux stubs of the bridge.
  Code between two awaits is one step. Requests to the supervisor, which hold its lock or wait under
  it, are modelled one at a time except in \<open>Tasks\<close> (starts, stops, waits of 60 s for a runner that
  end or time out, in any order) and \<open>Runner\<close> (where a second writer of the slot's state is a step);
  of the other requests only the rehydration of an added TLD is taken apart, in \<open>world_step\<close>.
\<close>

end
